(* ===== verification/Prelude.thy ===== *)
theory Prelude
  imports Main "HOL-Library.Product_Lexorder" "HOL-Library.Char_ord"
begin

text \<open>
  Shared vocabulary of the development: the fragment of the JavaScript standard library the
  modelled code calls on strings and numbers, the SQL clauses its statements are written with
  (\<open>UPDATE .. WHERE .. RETURNING\<close>, comparisons on nullable columns, \<open>ORDER BY .. LIMIT 1\<close>), and
  the list lemmas every component uses.

  A \<open>string\<close> is a list of characters with codes below 256, that is, JavaScript strings whose
  code units are below 256. Numbers that the code only adds, compares and floors are \<open>int\<close>.
\<close>

named_theorems sql_defs \<open>definitions of the SQL clauses\<close>

section \<open>JavaScript strings and numbers\<close>

definition js_code :: "char \<Rightarrow> nat" where
  "js_code c = of_char c"

definition js_space :: "char \<Rightarrow> bool" where
  "js_space c = (js_code c \<in> {9, 10, 11, 12, 13, 32, 160})"

definition js_trim :: "string \<Rightarrow> string" where
  "js_trim s = rev (dropWhile js_space (rev (dropWhile js_space s)))"

definition js_starts_with :: "string \<Rightarrow> string \<Rightarrow> bool" where
  "js_starts_with s p = (take (length p) s = p)"

definition js_digit :: "char \<Rightarrow> bool" where
  "js_digit c = (48 \<le> js_code c \<and> js_code c \<le> 57)"

definition digit_char :: "nat \<Rightarrow> char" where
  "digit_char d = char_of (48 + d)"

fun nat_str :: "nat \<Rightarrow> string" where
  "nat_str n = (if n < 10 then [digit_char n] else nat_str (n div 10) @ [digit_char (n mod 10)])"

declare nat_str.simps [simp del]

definition int_str :: "int \<Rightarrow> string" where
  "int_str i = (if i < 0 then CHR ''-'' # nat_str (nat (- i)) else nat_str (nat i))"

text \<open>The value of a run of decimal digits, most significant first.\<close>

definition dec_val :: "string \<Rightarrow> int" where
  "dec_val s = foldl (\<lambda>a c. 10 * a + (int (js_code c) - 48)) 0 s"

text \<open>\<open>parseInt(s, 10)\<close>: leading white space, a sign, then the longest run of digits; NaN is
  \<open>None\<close>.\<close>

definition js_parse_int :: "string \<Rightarrow> int option" where
  "js_parse_int s =
     (let t = dropWhile js_space s;
          neg = (case t of [] \<Rightarrow> False | c # _ \<Rightarrow> c = CHR ''-'');
          u = (case t of [] \<Rightarrow> [] | c # r \<Rightarrow> if c = CHR ''-'' \<or> c = CHR ''+'' then r else t);
          ds = takeWhile js_digit u
      in if ds = [] then None else Some (if neg then - dec_val ds else dec_val ds))"

lemma js_code_digit_char [simp]: "d < 10 \<Longrightarrow> js_code (digit_char d) = 48 + d"
  by (simp add: js_code_def digit_char_def of_char_of)

lemma js_digit_digit_char [simp]: "d < 10 \<Longrightarrow> js_digit (digit_char d)"
  by (simp add: js_digit_def)

lemma dec_val_append: "dec_val (s @ [c]) = 10 * dec_val s + (int (js_code c) - 48)"
  by (simp add: dec_val_def)

lemma dec_val_nat_str: "dec_val (nat_str n) = int n"
proof (induction n rule: nat_str.induct)
  case (1 n)
  show ?case
  proof (cases "n < 10")
    case True
    then show ?thesis by (subst nat_str.simps) (simp add: dec_val_def)
  next
    case False
    with "1.IH" have "dec_val (nat_str (n div 10)) = int (n div 10)" by simp
    with False show ?thesis
      by (subst nat_str.simps) (simp add: dec_val_append zdiv_int zmod_int)
  qed
qed

lemma nat_str_digits: "\<forall>c \<in> set (nat_str n). js_digit c"
proof (induction n rule: nat_str.induct)
  case (1 n)
  then show ?case by (subst nat_str.simps) auto
qed

lemma nat_str_nonempty [simp]: "nat_str n \<noteq> []"
  by (subst nat_str.simps) simp

lemma nat_str_inj: "nat_str m = nat_str n \<Longrightarrow> m = n"
  by (metis dec_val_nat_str of_nat_eq_iff)

section \<open>SQL clauses\<close>

text \<open>\<open>UPDATE t SET f WHERE P\<close> on a table, the rows in storage order.\<close>

definition upd_where :: "('a \<Rightarrow> bool) \<Rightarrow> ('a \<Rightarrow> 'a) \<Rightarrow> 'a list \<Rightarrow> 'a list" where
  [sql_defs]: "upd_where P f rs = map (\<lambda>r. if P r then f r else r) rs"

text \<open>The \<open>RETURNING *\<close> rows of that statement: the new versions of the rows it matched.\<close>

definition returning :: "('a \<Rightarrow> bool) \<Rightarrow> ('a \<Rightarrow> 'a) \<Rightarrow> 'a list \<Rightarrow> 'a list" where
  [sql_defs]: "returning P f rs = map f (filter P rs)"

text \<open>Comparisons of a nullable column with a value: a NULL column satisfies neither.\<close>

definition sql_lt :: "int option \<Rightarrow> int \<Rightarrow> bool" where
  [sql_defs]: "sql_lt c v = (case c of None \<Rightarrow> False | Some x \<Rightarrow> x < v)"

definition sql_le :: "int option \<Rightarrow> int \<Rightarrow> bool" where
  [sql_defs]: "sql_le c v = (case c of None \<Rightarrow> False | Some x \<Rightarrow> x \<le> v)"

definition sql_gt :: "int option \<Rightarrow> int \<Rightarrow> bool" where
  [sql_defs]: "sql_gt c v = (case c of None \<Rightarrow> False | Some x \<Rightarrow> x > v)"

text \<open>\<open>COALESCE(a, b)\<close>.\<close>

definition coalesce :: "'a option \<Rightarrow> 'a option \<Rightarrow> 'a option" where
  [sql_defs]: "coalesce a b = (case a of None \<Rightarrow> b | Some x \<Rightarrow> Some x)"

text \<open>\<open>x ?? d\<close>.\<close>

definition or_default :: "'a \<Rightarrow> 'a option \<Rightarrow> 'a" where
  "or_default d x = (case x of None \<Rightarrow> d | Some v \<Rightarrow> v)"

text \<open>
  \<open>ORDER BY key LIMIT 1\<close>. SQL leaves the order of rows with equal keys open; here the row
  stored first wins. The theorems hold for every storage order of a table, so they hold for
  every choice among equal keys.
\<close>

definition min_row :: "('a \<Rightarrow> 'k::linorder) \<Rightarrow> 'a list \<Rightarrow> 'a option" where
  [sql_defs]: "min_row key rs = (case sort_key key rs of [] \<Rightarrow> None | r # _ \<Rightarrow> Some r)"

lemma upd_where_Nil [simp]: "upd_where P f [] = []"
  by (simp add: upd_where_def)

lemma upd_where_Cons [simp]:
  "upd_where P f (r # rs) = (if P r then f r else r) # upd_where P f rs"
  by (simp add: upd_where_def)

lemma length_upd_where [simp]: "length (upd_where P f rs) = length rs"
  by (simp add: upd_where_def)

lemma set_upd_where: "set (upd_where P f rs) = (\<lambda>r. if P r then f r else r) ` set rs"
  by (simp add: upd_where_def)

lemma in_upd_where_cases:
  assumes "x \<in> set (upd_where P f rs)"
  obtains r where "r \<in> set rs" "P r" "x = f r" | "x \<in> set rs" "\<not> P x"
  using assms by (auto simp: set_upd_where split: if_splits)

lemma in_upd_hit: "x \<in> set rs \<Longrightarrow> P x \<Longrightarrow> f x \<in> set (upd_where P f rs)"
  by (auto simp: set_upd_where)

lemma in_upd_miss: "x \<in> set rs \<Longrightarrow> \<not> P x \<Longrightarrow> x \<in> set (upd_where P f rs)"
  by (auto simp: set_upd_where intro!: image_eqI [of _ _ x])

lemma upd_where_none [simp]: "\<forall>r \<in> set rs. \<not> P r \<Longrightarrow> upd_where P f rs = rs"
  by (induction rs) auto

lemma upd_where_cong:
  "(\<And>r. r \<in> set rs \<Longrightarrow> P r = Q r) \<Longrightarrow> (\<And>r. r \<in> set rs \<Longrightarrow> P r \<Longrightarrow> f r = g r) \<Longrightarrow>
     upd_where P f rs = upd_where Q g rs"
  by (auto simp: upd_where_def)

lemma map_upd_where:
  "(\<And>r. r \<in> set rs \<Longrightarrow> P r \<Longrightarrow> g (f r) = g r) \<Longrightarrow> map g (upd_where P f rs) = map g rs"
  by (auto simp: upd_where_def)

lemma returning_Nil_iff: "returning P f rs = [] \<longleftrightarrow> (\<forall>r \<in> set rs. \<not> P r)"
  by (auto simp: returning_def filter_empty_conv)

lemma set_returning: "set (returning P f rs) = f ` {r \<in> set rs. P r}"
  by (auto simp: returning_def)

lemma min_row_None [simp]: "min_row key rs = None \<longleftrightarrow> rs = []"
proof -
  have "sort_key key rs = [] \<longleftrightarrow> rs = []"
    by (metis length_0_conv length_sort)
  then show ?thesis by (auto simp: min_row_def split: list.splits)
qed

lemma min_row_Some:
  assumes "min_row key rs = Some r"
  shows "r \<in> set rs" and "\<forall>x \<in> set rs. key r \<le> key x"
proof -
  from assms obtain ys where ys: "sort_key key rs = r # ys"
    by (auto simp: min_row_def split: list.splits)
  then have st: "set rs = set (r # ys)" by (metis set_sort)
  then show "r \<in> set rs" by simp
  have "sorted (map key (r # ys))" by (metis ys sorted_sort_key)
  then show "\<forall>x \<in> set rs. key r \<le> key x" using st by auto
qed

lemma coalesce_simps [simp]: "coalesce None b = b" "coalesce (Some x) b = Some x"
  by (simp_all add: coalesce_def)

lemma sql_cmp_simps [simp]:
  "\<not> sql_lt None v" "sql_lt (Some x) v \<longleftrightarrow> x < v"
  "\<not> sql_le None v" "sql_le (Some x) v \<longleftrightarrow> x \<le> v"
  "\<not> sql_gt None v" "sql_gt (Some x) v \<longleftrightarrow> x > v"
  by (simp_all add: sql_lt_def sql_le_def sql_gt_def)

section \<open>Lists\<close>

text \<open>The elements in order of first occurrence, as iterating a JavaScript \<open>Set\<close> gives them.\<close>

fun nub :: "'a list \<Rightarrow> 'a list" where
  "nub [] = []"
| "nub (x # xs) = x # filter (\<lambda>y. y \<noteq> x) (nub xs)"

lemma set_nub [simp]: "set (nub xs) = set xs"
  by (induction xs) auto

lemma distinct_nub [simp]: "distinct (nub xs)"
  by (induction xs) auto

lemma fold_invariant:
  "P s \<Longrightarrow> (\<And>x s. x \<in> set xs \<Longrightarrow> P s \<Longrightarrow> P (f x s)) \<Longrightarrow> P (fold f xs s)"
  by (induction xs arbitrary: s) auto

lemma filter_unique:
  "distinct xs \<Longrightarrow> x \<in> set xs \<Longrightarrow> (\<And>y. y \<in> set xs \<Longrightarrow> P y \<longleftrightarrow> y = x) \<Longrightarrow> filter P xs = [x]"
proof (induction xs)
  case (Cons a xs)
  show ?case
  proof (cases "a = x")
    case True
    with Cons.prems have "\<forall>y \<in> set xs. \<not> P y" by auto
    with True Cons.prems(3) [of a] show ?thesis by (simp add: filter_empty_conv)
  next
    case False
    with Cons.prems have "\<not> P a" "x \<in> set xs" by auto
    with Cons show ?thesis by simp
  qed
qed simp

lemma distinct_map_unique:
  "distinct (map f xs) \<Longrightarrow> x \<in> set xs \<Longrightarrow> y \<in> set xs \<Longrightarrow> f x = f y \<Longrightarrow> x = y"
  by (auto simp: distinct_map inj_on_def)

end
