(* ===== verification/Json.thy ===== *)
theory Json
  imports Prelude
begin

text \<open>
  JSON values as the job payloads carry them (columns of type \<open>JSONB\<close>), the operator
  \<open>->>\<close>, and the canonical serialisation of \<open>src/core/minions/admission.ts\<close> whose SHA-256 is
  the coalescing key of a submission. Numbers are integers; an object is its list of members in
  the order \<open>Object.keys\<close> lists them, with distinct keys.
\<close>

datatype json =
    JNull
  | JBool bool
  | JNum int
  | JStr string
  | JArr "json list"
  | JObj "(string \<times> json) list"

type_synonym json_obj = "(string \<times> json) list"

section \<open>The text of a JSON value\<close>

definition hex_char :: "nat \<Rightarrow> char" where
  "hex_char d = (if d < 10 then digit_char d else char_of (87 + d))"

text \<open>\<open>JSON.stringify\<close> of a string: the escapes of ECMA-262 QuoteJSONString for code units
  below 256.\<close>

definition quote_char :: "char \<Rightarrow> string" where
  "quote_char c =
     (let n = js_code c in
      if n = 8 then [CHR 0x5C, CHR ''b'']
      else if n = 9 then [CHR 0x5C, CHR ''t'']
      else if n = 10 then [CHR 0x5C, CHR ''n'']
      else if n = 12 then [CHR 0x5C, CHR ''f'']
      else if n = 13 then [CHR 0x5C, CHR ''r'']
      else if n = 34 then [CHR 0x5C, CHR 0x22]
      else if n = 92 then [CHR 0x5C, CHR 0x5C]
      else if n < 32 then [CHR 0x5C, CHR ''u'', CHR ''0'', CHR ''0'',
                           hex_char (n div 16), hex_char (n mod 16)]
      else [c])"

definition json_quote :: "string \<Rightarrow> string" where
  "json_quote s = [CHR 0x22] @ concat (map quote_char s) @ [CHR 0x22]"

fun join_with :: "string \<Rightarrow> string list \<Rightarrow> string" where
  "join_with sep [] = []"
| "join_with sep [x] = x"
| "join_with sep (x # y # xs) = x @ sep @ join_with sep (y # xs)"

text \<open>The text PostgreSQL prints for a \<open>jsonb\<close> value, members in stored order.\<close>

fun jsonb_text :: "json \<Rightarrow> string" where
  "jsonb_text JNull = ''null''"
| "jsonb_text (JBool b) = (if b then ''true'' else ''false'')"
| "jsonb_text (JNum n) = int_str n"
| "jsonb_text (JStr s) = json_quote s"
| "jsonb_text (JArr xs) = ''['' @ join_with '', '' (map jsonb_text xs) @ '']''"
| "jsonb_text (JObj ms) =
     ''{'' @ join_with '', '' (map (\<lambda>(k, v). json_quote k @ '': '' @ jsonb_text v) ms) @ ''}''"

text \<open>\<open>data->>'k'\<close>: NULL for an absent member and for a JSON null, the bare text of a string.\<close>

fun json_as_text :: "json \<Rightarrow> string option" where
  "json_as_text JNull = None"
| "json_as_text (JStr s) = Some s"
| "json_as_text v = Some (jsonb_text v)"

definition json_get_text :: "json_obj \<Rightarrow> string \<Rightarrow> string option" where
  "json_get_text ms k = (case map_of ms k of None \<Rightarrow> None | Some v \<Rightarrow> json_as_text v)"

definition json_field_text :: "json \<Rightarrow> string \<Rightarrow> string option" where
  "json_field_text v k = (case v of JObj ms \<Rightarrow> json_get_text ms k | _ \<Rightarrow> None)"

text \<open>\<open>{...o, k: v}\<close>: an existing member keeps its place.\<close>

fun obj_put :: "string \<Rightarrow> json \<Rightarrow> json_obj \<Rightarrow> json_obj" where
  "obj_put k v [] = [(k, v)]"
| "obj_put k v ((k', v') # ms) = (if k' = k then (k, v) # ms else (k', v') # obj_put k v ms)"

text \<open>\<open>{...a, ...b}\<close>.\<close>

definition obj_spread :: "json_obj \<Rightarrow> json_obj \<Rightarrow> json_obj" where
  "obj_spread a b = fold (\<lambda>(k, v) o'. obj_put k v o') b a"

lemma obj_put_map_of: "map_of (obj_put k v ms) = (map_of ms)(k \<mapsto> v)"
  by (induction ms) (auto simp: fun_eq_iff)

lemma obj_put_get_same [simp]: "map_of (obj_put k v ms) k = Some v"
  by (simp add: obj_put_map_of)

lemma obj_put_get_other [simp]: "k' \<noteq> k \<Longrightarrow> map_of (obj_put k v ms) k' = map_of ms k'"
  by (simp add: obj_put_map_of)

lemma obj_put_keys: "fst ` set (obj_put k v ms) = insert k (fst ` set ms)"
  by (metis obj_put_map_of dom_map_of_conv_image_fst dom_fun_upd option.distinct(1))

lemma obj_put_distinct: "distinct (map fst ms) \<Longrightarrow> distinct (map fst (obj_put k v ms))"
proof (induction ms)
  case (Cons m ms)
  obtain k' v' where "m = (k', v')" by (cases m)
  with Cons show ?case using obj_put_keys [of k v ms] by (auto simp: image_iff)
qed simp

end
