(* ===== verification/JobModel.thy ===== *)
theory JobModel
  imports Complex_Main Json
begin

text \<open>
  The data of the Minions job queue: the row type of \<open>minion_jobs\<close>
  (\<open>src/core/minions/types.ts\<close>), its inbox and attachment rows, the CHECK constraints of the
  table (\<open>src/core/pglite-schema.ts\<close>), the database state, and the statements several queue
  operations share. Record fields carry the column name behind \<open>j_\<close>; timestamps are
  microseconds since the epoch, the resolution of \<open>timestamptz\<close>.
\<close>

section \<open>Rows\<close>

datatype job_status =
    Waiting | Active | Completed | Failed | Delayed | Dead | Cancelled | WaitingChildren | Paused

datatype backoff_type = BackoffFixed | BackoffExponential

datatype child_fail_policy = FailParent | RemoveDep | Ignore | Continue

record minion_job =
  j_id :: int
  j_name :: string
  j_queue :: string
  j_status :: job_status
  j_priority :: int
  j_data :: json_obj
  j_max_attempts :: int
  j_attempts_made :: int
  j_attempts_started :: int
  j_backoff_type :: backoff_type
  j_backoff_delay :: int
  j_backoff_jitter :: rat
  j_stalled_counter :: int
  j_max_stalled :: int
  j_lock_token :: "string option"
  j_lock_until :: "int option"
  j_delay_until :: "int option"
  j_parent_job_id :: "int option"
  j_on_child_fail :: child_fail_policy
  j_tokens_input :: int
  j_tokens_output :: int
  j_tokens_cache_read :: int
  j_depth :: int
  j_max_children :: "int option"
  j_timeout_ms :: "int option"
  j_timeout_at :: "int option"
  j_lock_duration_ms :: "int option"
  j_remove_on_complete :: bool
  j_remove_on_fail :: bool
  j_idempotency_key :: "string option"
  j_private_queue_owner_job_id :: "int option"
  j_private_queue_owner_token :: "string option"
  j_private_queue_lease_until :: "int option"
  j_quiet_hours :: "json option"
  j_stagger_key :: "string option"
  j_result :: "json option"
  j_progress :: "json option"
  j_error_text :: "string option"
  j_stacktrace :: "string list"
  j_created_at :: int
  j_started_at :: "int option"
  j_finished_at :: "int option"
  j_updated_at :: int

record inbox_message =
  m_id :: int
  m_job_id :: int
  m_sender :: string
  m_payload :: json
  m_sent_at :: int
  m_read_at :: "int option"

record attachment =
  a_id :: int
  a_job_id :: int
  a_filename :: string
  a_content_type :: string
  a_bytes :: "nat list"
  a_storage_uri :: "string option"
  a_size_bytes :: int
  a_sha256 :: string
  a_created_at :: int

text \<open>The database: the three tables, their SERIAL counters, and the config plane that
  \<open>engine.getConfig\<close> reads.\<close>

record queue_db =
  d_jobs :: "minion_job list"
  d_inbox :: "inbox_message list"
  d_attachments :: "attachment list"
  d_next_job_id :: int
  d_next_inbox_id :: int
  d_next_attachment_id :: int
  d_config :: "string \<Rightarrow> string option"

section \<open>Statuses\<close>

text \<open>\<open>TERMINAL_STATUSES\<close> and \<open>NON_TERMINAL_STATUSES\<close> of \<open>queue.ts\<close>.\<close>

definition terminal_statuses :: "job_status list" where
  "terminal_statuses = [Completed, Failed, Dead, Cancelled]"

definition non_terminal_statuses :: "job_status list" where
  "non_terminal_statuses = [Waiting, Active, Delayed, WaitingChildren, Paused]"

definition terminal :: "minion_job \<Rightarrow> bool" where
  "terminal r = (j_status r \<in> set terminal_statuses)"

lemma terminal_iff: "terminal r \<longleftrightarrow> j_status r \<in> {Completed, Failed, Dead, Cancelled}"
  by (simp add: terminal_def terminal_statuses_def)

lemma statuses_partition:
  "st \<in> set non_terminal_statuses \<longleftrightarrow> st \<notin> set terminal_statuses"
  by (cases st) (simp_all add: terminal_statuses_def non_terminal_statuses_def)

section \<open>Row conversion\<close>

text \<open>A \<open>Date\<close> holds milliseconds: \<open>new Date(row.x)\<close> drops the rest.\<close>

definition js_date :: "int \<Rightarrow> int" where
  "js_date t = t - t mod 1000"

text \<open>\<open>x || null\<close> on text.\<close>

definition or_null :: "string option \<Rightarrow> string option" where
  "or_null x = (if x = Some [] then None else x)"

text \<open>JavaScript truthiness of a parsed JSON value, for \<open>row.x ? .. : null\<close>.\<close>

definition json_truthy :: "json \<Rightarrow> bool" where
  "json_truthy v = (v \<noteq> JNull \<and> v \<noteq> JBool False \<and> v \<noteq> JNum 0 \<and> v \<noteq> JStr [])"

definition json_or_null :: "json option \<Rightarrow> json option" where
  "json_or_null x = (case x of None \<Rightarrow> None | Some v \<Rightarrow> if json_truthy v then Some v else None)"

definition rowToMinionJob :: "minion_job \<Rightarrow> minion_job" where
  "rowToMinionJob row = row\<lparr>
     j_lock_token := or_null (j_lock_token row),
     j_lock_until := map_option js_date (j_lock_until row),
     j_delay_until := map_option js_date (j_delay_until row),
     j_timeout_at := map_option js_date (j_timeout_at row),
     j_idempotency_key := or_null (j_idempotency_key row),
     j_private_queue_owner_token := or_null (j_private_queue_owner_token row),
     j_private_queue_lease_until := map_option js_date (j_private_queue_lease_until row),
     j_quiet_hours := json_or_null (j_quiet_hours row),
     j_stagger_key := or_null (j_stagger_key row),
     j_result := json_or_null (j_result row),
     j_progress := json_or_null (j_progress row),
     j_error_text := or_null (j_error_text row),
     j_created_at := js_date (j_created_at row),
     j_started_at := map_option js_date (j_started_at row),
     j_finished_at := map_option js_date (j_finished_at row),
     j_updated_at := js_date (j_updated_at row)\<rparr>"

lemma rowToMinionJob_simps [simp]:
  "j_id (rowToMinionJob r) = j_id r"
  "j_name (rowToMinionJob r) = j_name r"
  "j_queue (rowToMinionJob r) = j_queue r"
  "j_status (rowToMinionJob r) = j_status r"
  "j_priority (rowToMinionJob r) = j_priority r"
  "j_data (rowToMinionJob r) = j_data r"
  "j_parent_job_id (rowToMinionJob r) = j_parent_job_id r"
  "j_on_child_fail (rowToMinionJob r) = j_on_child_fail r"
  "j_depth (rowToMinionJob r) = j_depth r"
  "j_max_children (rowToMinionJob r) = j_max_children r"
  "j_remove_on_complete (rowToMinionJob r) = j_remove_on_complete r"
  "j_remove_on_fail (rowToMinionJob r) = j_remove_on_fail r"
  "j_tokens_input (rowToMinionJob r) = j_tokens_input r"
  "j_tokens_output (rowToMinionJob r) = j_tokens_output r"
  "j_tokens_cache_read (rowToMinionJob r) = j_tokens_cache_read r"
  "j_lock_token (rowToMinionJob r) = or_null (j_lock_token r)"
  "j_attempts_made (rowToMinionJob r) = j_attempts_made r"
  "j_attempts_started (rowToMinionJob r) = j_attempts_started r"
  by (simp_all add: rowToMinionJob_def)

section \<open>CHECK constraints of \<open>minion_jobs\<close>\<close>

text \<open>The status, backoff and policy constraints hold by the types of the record.\<close>

definition row_check :: "minion_job \<Rightarrow> bool" where
  "row_check r =
     (0 \<le> j_backoff_jitter r \<and> j_backoff_jitter r \<le> 1 \<and>
      j_attempts_made r \<le> j_attempts_started r \<and>
      0 \<le> j_attempts_made r \<and> 0 \<le> j_attempts_started r \<and> 0 \<le> j_stalled_counter r \<and>
      1 \<le> j_max_attempts r \<and> 0 \<le> j_max_stalled r \<and>
      0 \<le> j_depth r \<and>
      (case j_max_children r of None \<Rightarrow> True | Some n \<Rightarrow> 0 < n) \<and>
      (case j_timeout_ms r of None \<Rightarrow> True | Some n \<Rightarrow> 0 < n) \<and>
      (case j_lock_duration_ms r of None \<Rightarrow> True | Some n \<Rightarrow> 5000 \<le> n \<and> n \<le> 3600000))"

section \<open>Statements shared by the queue operations\<close>

definition find_job :: "int \<Rightarrow> minion_job list \<Rightarrow> minion_job option" where
  "find_job i js = find (\<lambda>r. j_id r = i) js"

definition open_child_of :: "int \<Rightarrow> minion_job \<Rightarrow> bool" where
  "open_child_of p c = (j_parent_job_id c = Some p \<and> \<not> terminal c)"

text \<open>
  The parent-resolving UPDATE, spelled out in seven places of \<open>queue.ts\<close>: a parent in
  \<open>waiting-children\<close> with no child outside the terminal statuses goes back to \<open>waiting\<close>.
\<close>

definition unblockable :: "minion_job list \<Rightarrow> minion_job \<Rightarrow> bool" where
  "unblockable js r =
     (j_status r = WaitingChildren \<and> \<not> list_ex (open_child_of (j_id r)) js)"

definition unblock_row :: "int \<Rightarrow> minion_job \<Rightarrow> minion_job" where
  "unblock_row now r = r\<lparr>j_status := Waiting, j_started_at := None, j_updated_at := now\<rparr>"

definition unblock_parent :: "int \<Rightarrow> int \<Rightarrow> queue_db \<Rightarrow> queue_db" where
  "unblock_parent now p s = s\<lparr>d_jobs :=
     upd_where (\<lambda>r. j_id r = p \<and> unblockable (d_jobs s) r) (unblock_row now) (d_jobs s)\<rparr>"

datatype child_outcome = OComplete | OFailed | ODead | OCancelled | OTimeout

fun outcome_text :: "child_outcome \<Rightarrow> string" where
  "outcome_text OComplete = ''complete''"
| "outcome_text OFailed = ''failed''"
| "outcome_text ODead = ''dead''"
| "outcome_text OCancelled = ''cancelled''"
| "outcome_text OTimeout = ''timeout''"

text \<open>A \<open>ChildDoneMessage\<close>; the success path sets no \<open>error\<close> member.\<close>

definition child_done :: "int \<Rightarrow> string \<Rightarrow> json \<Rightarrow> child_outcome \<Rightarrow> string option \<Rightarrow> json" where
  "child_done cid nm res oc err = JObj
     ([(''type'', JStr ''child_done''), (''child_id'', JNum cid), (''job_name'', JStr nm),
       (''result'', res), (''outcome'', JStr (outcome_text oc))] @
      (case err of None \<Rightarrow> [] | Some e \<Rightarrow> [(''error'', JStr e)]))"

text \<open>\<open>INSERT INTO minion_inbox .. WHERE EXISTS (\<dots> id = $1 AND status NOT IN (\<dots>))\<close>.\<close>

definition insert_inbox :: "int \<Rightarrow> int \<Rightarrow> string \<Rightarrow> json \<Rightarrow> queue_db \<Rightarrow> queue_db" where
  "insert_inbox now jid sender payload s = s\<lparr>
     d_inbox := d_inbox s @ [\<lparr>m_id = d_next_inbox_id s, m_job_id = jid, m_sender = sender,
                              m_payload = payload, m_sent_at = now, m_read_at = None\<rparr>],
     d_next_inbox_id := d_next_inbox_id s + 1\<rparr>"

definition post_to_open_parent :: "int \<Rightarrow> int \<Rightarrow> json \<Rightarrow> queue_db \<Rightarrow> queue_db" where
  "post_to_open_parent now p payload s =
     (if list_ex (\<lambda>r. j_id r = p \<and> \<not> terminal r) (d_jobs s)
      then insert_inbox now p ''minions'' payload s else s)"

text \<open>
  \<open>DELETE FROM minion_jobs WHERE P\<close> with the foreign keys of the schema: child rows and owned
  private rows lose the reference (\<open>ON DELETE SET NULL\<close>), inbox and attachment rows go
  (\<open>ON DELETE CASCADE\<close>).
\<close>

definition drop_ref :: "int list \<Rightarrow> minion_job \<Rightarrow> minion_job" where
  "drop_ref ids r = r\<lparr>
     j_parent_job_id := (case j_parent_job_id r of None \<Rightarrow> None
        | Some p \<Rightarrow> if p \<in> set ids then None else Some p),
     j_private_queue_owner_job_id := (case j_private_queue_owner_job_id r of None \<Rightarrow> None
        | Some p \<Rightarrow> if p \<in> set ids then None else Some p)\<rparr>"

definition delete_jobs :: "(minion_job \<Rightarrow> bool) \<Rightarrow> queue_db \<Rightarrow> queue_db" where
  "delete_jobs P s =
     (let ids = map j_id (filter P (d_jobs s)) in
      s\<lparr>d_jobs := map (drop_ref ids) (filter (\<lambda>r. \<not> P r) (d_jobs s)),
        d_inbox := filter (\<lambda>m. m_job_id m \<notin> set ids) (d_inbox s),
        d_attachments := filter (\<lambda>a. a_job_id a \<notin> set ids) (d_attachments s)\<rparr>)"

lemma find_job_Some: "find_job i js = Some r \<Longrightarrow> r \<in> set js \<and> j_id r = i"
  by (auto simp: find_job_def find_Some_iff)

lemma find_job_None: "find_job i js = None \<longleftrightarrow> (\<forall>r \<in> set js. j_id r \<noteq> i)"
  by (auto simp: find_job_def find_None_iff)

lemma find_job_distinct:
  "distinct (map j_id js) \<Longrightarrow> r \<in> set js \<Longrightarrow> find_job (j_id r) js = Some r"
  by (cases "find_job (j_id r) js") (auto simp: find_job_None dest!: find_job_Some intro: distinct_map_unique)

end
