(* ===== verification/JobDefaults.thy ===== *)
theory JobDefaults
  imports JobModel
begin

text \<open>
  The constant tables and small gates a submission consults: handler budgets and leases
  (\<open>handler-timeouts.ts\<close>), protected job names (\<open>protected-names.ts\<close>), the engine gate of
  embed-backfill jobs (\<open>embed-backfill-admission.ts\<close>, \<open>source-id.ts\<close>), retry backoff
  (\<open>backoff.ts\<close>) and quiet hours (\<open>quiet-hours.ts\<close>), all under
  \<open>src/core/minions/\<close> but \<open>source-id.ts\<close>.

  A table lookup \<open>TABLE[name]\<close> is a lookup among the table's own members: job names that are
  members of \<open>Object.prototype\<close> (\<open>constructor\<close>, \<open>toString\<close>, ..) are outside the model.
\<close>

section \<open>Handler budgets and leases\<close>

definition HANDLER_DEFAULT_TIMEOUT_MS :: "(string \<times> int) list" where
  "HANDLER_DEFAULT_TIMEOUT_MS =
     [(''subagent'', 30 * 60 * 1000),
      (''subagent_aggregator'', 30 * 60 * 1000),
      (''embed-backfill'', 30 * 60 * 1000),
      (''connector-sync'', 30 * 60 * 1000),
      (''autopilot-cycle'', 30 * 60 * 1000),
      (''autopilot-global-maintenance'', 30 * 60 * 1000),
      (''chronicle_extract'', 10 * 60 * 1000),
      (''facts-absorb'', 10 * 60 * 1000),
      (''contextual_reindex_per_chunk'', 60 * 60 * 1000)]"

definition defaultTimeoutMsFor :: "string \<Rightarrow> int option" where
  "defaultTimeoutMsFor jobName = map_of HANDLER_DEFAULT_TIMEOUT_MS jobName"

definition HANDLER_DEFAULT_LOCK_DURATION_MS :: "(string \<times> int) list" where
  "HANDLER_DEFAULT_LOCK_DURATION_MS =
     [(''subagent'', 5 * 60 * 1000),
      (''subagent_aggregator'', 5 * 60 * 1000),
      (''embed-backfill'', 5 * 60 * 1000),
      (''connector-sync'', 5 * 60 * 1000),
      (''autopilot-cycle'', 5 * 60 * 1000),
      (''autopilot-global-maintenance'', 5 * 60 * 1000),
      (''contextual_reindex_per_chunk'', 5 * 60 * 1000),
      (''chronicle_extract'', 2 * 60 * 1000),
      (''facts-absorb'', 2 * 60 * 1000)]"

definition defaultLockDurationMsFor :: "string \<Rightarrow> int option" where
  "defaultLockDurationMsFor jobName = map_of HANDLER_DEFAULT_LOCK_DURATION_MS jobName"

definition LOCK_DURATION_MS_MIN :: int where "LOCK_DURATION_MS_MIN = 5000"

definition LOCK_DURATION_MS_MAX :: int where "LOCK_DURATION_MS_MAX = 3600000"

definition clampLockDurationMs :: "int \<Rightarrow> int" where
  "clampLockDurationMs raw = max LOCK_DURATION_MS_MIN (min LOCK_DURATION_MS_MAX raw)"

lemma clampLockDurationMs_bounds:
  "5000 \<le> clampLockDurationMs n \<and> clampLockDurationMs n \<le> 3600000"
  by (simp add: clampLockDurationMs_def LOCK_DURATION_MS_MIN_def LOCK_DURATION_MS_MAX_def)

lemma map_of_all: "map_of xs k = Some v \<Longrightarrow> list_all (\<lambda>(k, v). P v) xs \<Longrightarrow> P v"
  by (auto simp: list_all_iff dest!: map_of_SomeD)

lemma defaultTimeoutMsFor_positive: "defaultTimeoutMsFor nm = Some n \<Longrightarrow> 0 < n"
  unfolding defaultTimeoutMsFor_def
  by (erule map_of_all) (simp add: HANDLER_DEFAULT_TIMEOUT_MS_def)

lemma defaultLockDurationMsFor_bounds:
  "defaultLockDurationMsFor nm = Some n \<Longrightarrow> 5000 \<le> n \<and> n \<le> 3600000"
  unfolding defaultLockDurationMsFor_def
  by (erule map_of_all) (simp add: HANDLER_DEFAULT_LOCK_DURATION_MS_def)

section \<open>Protected names\<close>

definition PROTECTED_JOB_NAMES :: "string list" where
  "PROTECTED_JOB_NAMES =
     [''shell'', ''subagent'', ''subagent_aggregator'', ''synthesize'', ''patterns'',
      ''consolidate'', ''contextual_reindex_per_chunk'', ''extract-takes-from-pages'',
      ''unify-types'', ''skillopt'', ''extract-atoms-drain'']"

definition isProtectedJobName :: "string \<Rightarrow> bool" where
  "isProtectedJobName name = (js_trim name \<in> set PROTECTED_JOB_NAMES)"

section \<open>Source ids and the embed-backfill gate\<close>

definition lower_alnum :: "char \<Rightarrow> bool" where
  "lower_alnum c = (js_digit c \<or> (97 \<le> js_code c \<and> js_code c \<le> 122))"

text \<open>\<open>/^[a-z0-9](?:[a-z0-9-]{0,30}[a-z0-9])?$/\<close>.\<close>

definition isValidSourceId :: "string \<Rightarrow> bool" where
  "isValidSourceId s =
     (s \<noteq> [] \<and> length s \<le> 32 \<and> lower_alnum (hd s) \<and> lower_alnum (last s) \<and>
      list_all (\<lambda>c. lower_alnum c \<or> c = CHR ''-'') s)"

datatype engine_kind = EnginePostgres | EnginePglite | EngineOther

datatype worker_surface = WorkerBacked | NoWorkerSurface engine_kind

fun embedBackfillWorkerSurface :: "engine_kind \<Rightarrow> worker_surface" where
  "embedBackfillWorkerSurface EnginePostgres = WorkerBacked"
| "embedBackfillWorkerSurface EnginePglite = NoWorkerSurface EnginePglite"
| "embedBackfillWorkerSurface EngineOther = NoWorkerSurface EngineOther"

datatype embed_admission_error =
    InvalidEmbedBackfillSourceId json
  | NoEmbedBackfillWorkerSurface string engine_kind

text \<open>\<open>assertEmbedBackfillQueueAdmission\<close>: \<open>None\<close> when the gate lets the job through.\<close>

definition embed_source_ok :: "json option \<Rightarrow> bool" where
  "embed_source_ok v = (case v of None \<Rightarrow> True | Some (JStr s) \<Rightarrow> isValidSourceId s | Some _ \<Rightarrow> False)"

definition embed_source_text :: "json option \<Rightarrow> string" where
  "embed_source_text v = (case v of Some (JStr s) \<Rightarrow> s | _ \<Rightarrow> ''<source-id>'')"

definition assertEmbedBackfillQueueAdmission ::
  "engine_kind \<Rightarrow> string \<Rightarrow> json_obj \<Rightarrow> bool \<Rightarrow> embed_admission_error option" where
  "assertEmbedBackfillQueueAdmission kind jobName data allowPgliteInlineWorker =
     (if js_trim jobName \<noteq> ''embed-backfill'' then None
      else let rawSourceId = map_of data ''sourceId'' in
        if \<not> embed_source_ok rawSourceId
        then Some (InvalidEmbedBackfillSourceId (the rawSourceId))
        else case embedBackfillWorkerSurface kind of
            WorkerBacked \<Rightarrow> None
          | NoWorkerSurface k \<Rightarrow>
              if k = EnginePglite \<and> allowPgliteInlineWorker then None
              else Some (NoEmbedBackfillWorkerSurface (embed_source_text rawSourceId) k))"

section \<open>Retry backoff\<close>

text \<open>
  \<open>calculateBackoff\<close>, with the value of \<open>Math.random()\<close> as the argument \<open>rnd\<close> and exact
  rationals for the double arithmetic.
\<close>

definition backoff_base :: "backoff_type \<Rightarrow> int \<Rightarrow> int \<Rightarrow> rat" where
  "backoff_base ty delay attempts_made =
     (case ty of
        BackoffExponential \<Rightarrow> 2 ^ nat (max (attempts_made - 1) 0) * of_int delay
      | BackoffFixed \<Rightarrow> of_int delay)"

definition calculateBackoff :: "rat \<Rightarrow> minion_job \<Rightarrow> rat" where
  "calculateBackoff rnd job =
     (let delay = backoff_base (j_backoff_type job) (j_backoff_delay job) (j_attempts_made job);
          jitterRange = delay * j_backoff_jitter job;
          delay' = (if j_backoff_jitter job > 0
                    then delay + (rnd * jitterRange * 2 - jitterRange) else delay)
      in max delay' 0)"

lemma backoff_base_nonneg: "0 \<le> d \<Longrightarrow> 0 \<le> backoff_base ty d n"
  by (cases ty) (simp_all add: backoff_base_def)

lemma backoff_base_mono:
  "0 \<le> d \<Longrightarrow> m \<le> n \<Longrightarrow> backoff_base ty d m \<le> backoff_base ty d n"
  by (cases ty) (auto simp: backoff_base_def intro!: mult_right_mono power_increasing)

section \<open>Quiet hours\<close>

datatype quiet_policy = PolicySkip | PolicyDefer

datatype quiet_verdict = QAllow | QSkip | QDefer

record quiet_cfg =
  q_start :: int
  q_end :: int
  q_tz :: string
  q_policy :: "quiet_policy option"

definition isValidConfig :: "quiet_cfg \<Rightarrow> bool" where
  "isValidConfig cfg =
     (0 \<le> q_start cfg \<and> q_start cfg \<le> 23 \<and> 0 \<le> q_end cfg \<and> q_end cfg \<le> 23 \<and>
      q_start cfg \<noteq> q_end cfg \<and> q_tz cfg \<noteq> [])"

text \<open>
  \<open>hour_text tz now\<close> is the hour part \<open>Intl.DateTimeFormat\<close> prints, \<open>None\<close> when it throws
  (an unknown time zone).
\<close>

definition localHour :: "(string \<Rightarrow> int \<Rightarrow> string option) \<Rightarrow> int \<Rightarrow> string \<Rightarrow> int option" where
  "localHour hour_text now tz =
     (case hour_text tz now of
        None \<Rightarrow> None
      | Some hh \<Rightarrow> (case js_parse_int hh of None \<Rightarrow> None | Some n \<Rightarrow> Some (n mod 24)))"

definition in_window :: "quiet_cfg \<Rightarrow> int \<Rightarrow> bool" where
  "in_window cfg hour =
     (if q_start cfg \<le> q_end cfg then hour \<ge> q_start cfg \<and> hour < q_end cfg
      else hour \<ge> q_start cfg \<or> hour < q_end cfg)"

definition evaluateQuietHours ::
  "(string \<Rightarrow> int \<Rightarrow> string option) \<Rightarrow> quiet_cfg option \<Rightarrow> int \<Rightarrow> quiet_verdict" where
  "evaluateQuietHours hour_text cfg_opt now =
     (case cfg_opt of
        None \<Rightarrow> QAllow
      | Some cfg \<Rightarrow>
          if \<not> isValidConfig cfg then QAllow
          else case localHour hour_text now (q_tz cfg) of
              None \<Rightarrow> QAllow
            | Some hour \<Rightarrow>
                if \<not> in_window cfg hour then QAllow
                else if q_policy cfg = Some PolicySkip then QSkip else QDefer)"

text \<open>The window, wrapping or not, is the hours reached from the start in fewer steps than
  the end.\<close>

lemma mod24: "- 24 < x \<Longrightarrow> x < 24 \<Longrightarrow> x mod 24 = (if x < 0 then x + 24 else x)" for x :: int
proof (cases "x < 0")
  case True
  assume "- 24 < x"
  have "x mod 24 = (x + 24) mod 24" by simp
  also have "\<dots> = x + 24" using True \<open>- 24 < x\<close> by (intro mod_pos_pos_trivial) auto
  finally show ?thesis using True by simp
qed simp

lemma in_window_cyclic:
  assumes "isValidConfig cfg" and "0 \<le> h" and "h < 24"
  shows "in_window cfg h \<longleftrightarrow> (h - q_start cfg) mod 24 < (q_end cfg - q_start cfg) mod 24"
proof -
  have "(h - q_start cfg) mod 24 = (if h < q_start cfg then h - q_start cfg + 24 else h - q_start cfg)"
    using assms by (subst mod24) (auto simp: isValidConfig_def)
  moreover have "(q_end cfg - q_start cfg) mod 24 =
      (if q_end cfg < q_start cfg then q_end cfg - q_start cfg + 24 else q_end cfg - q_start cfg)"
    using assms by (subst mod24) (auto simp: isValidConfig_def)
  ultimately show ?thesis using assms by (auto simp: in_window_def isValidConfig_def)
qed

end
