(* ===== verification/Canon.thy ===== *)
theory Canon
  imports Json "HOL-Library.List_Lexorder"
begin

text \<open>
  The canonical serialisation behind the coalescing hash of \<open>src/core/minions/admission.ts\<close>
  (\<open>stableStringify\<close>, \<open>computeParamHash\<close>), and the proof that its text tells two payloads apart
  exactly up to the order of object members: the text is \<open>json_text\<close> of the member-sorted
  value, and \<open>json_text\<close> is injective.
\<close>

section \<open>Canonical serialisation\<close>

text \<open>\<open>Object.keys(o).sort()\<close> orders by code units, which is the order of character codes.\<close>

fun stableStringify :: "json \<Rightarrow> string" where
  "stableStringify JNull = ''null''"
| "stableStringify (JBool b) = (if b then ''true'' else ''false'')"
| "stableStringify (JNum n) = int_str n"
| "stableStringify (JStr s) = json_quote s"
| "stableStringify (JArr xs) = ''['' @ join_with '','' (map stableStringify xs) @ '']''"
| "stableStringify (JObj ms) =
     ''{'' @ join_with '',''
       (map (\<lambda>(k, t). json_quote k @ '':'' @ t)
         (sort_key fst (map (\<lambda>(k, v). (k, stableStringify v)) ms))) @ ''}''"

definition PARAM_HASH_EXCLUDED_KEYS :: "string list" where
  "PARAM_HASH_EXCLUDED_KEYS = [''__param_hash'']"

definition computeParamHash :: "(string \<Rightarrow> string) \<Rightarrow> json_obj \<Rightarrow> string" where
  "computeParamHash sha256 data =
     sha256 (stableStringify (JObj (filter (\<lambda>(k, v). k \<notin> set PARAM_HASH_EXCLUDED_KEYS) data)))"

text \<open>The value with the members of every object in key order, and the compact text of a
  value that keeps the order it finds.\<close>

fun json_canon :: "json \<Rightarrow> json" where
  "json_canon (JArr xs) = JArr (map json_canon xs)"
| "json_canon (JObj ms) = JObj (sort_key fst (map (\<lambda>(k, v). (k, json_canon v)) ms))"
| "json_canon v = v"

fun json_text :: "json \<Rightarrow> string" where
  "json_text JNull = ''null''"
| "json_text (JBool b) = (if b then ''true'' else ''false'')"
| "json_text (JNum n) = int_str n"
| "json_text (JStr s) = json_quote s"
| "json_text (JArr xs) = ''['' @ join_with '','' (map json_text xs) @ '']''"
| "json_text (JObj ms) =
     ''{'' @ join_with '','' (map (\<lambda>(k, v). json_quote k @ '':'' @ json_text v) ms) @ ''}''"

lemma insort_key_map_snd:
  "map (\<lambda>(k, v). (k, g v)) (insort_key fst (a, b) xs) =
   insort_key fst (a, g b) (map (\<lambda>(k, v). (k, g v)) xs)"
  by (induction xs) auto

lemma sort_key_map_snd:
  "map (\<lambda>(k, v). (k, g v)) (sort_key fst xs) = sort_key fst (map (\<lambda>(k, v). (k, g v)) xs)"
  by (induction xs) (auto simp: insort_key_map_snd)

lemma stableStringify_canon: "stableStringify v = json_text (json_canon v)"
proof (induction v)
  case (JArr xs)
  then have "map stableStringify xs = map json_text (map json_canon xs)" by auto
  then show ?case by (simp only: stableStringify.simps json_canon.simps json_text.simps)
next
  case (JObj ms)
  then have "map (\<lambda>(k, v). (k, stableStringify v)) ms
      = map (\<lambda>(k, v). (k, json_text v)) (map (\<lambda>(k, v). (k, json_canon v)) ms)"
    by (auto simp: snds.simps)
  then have "sort_key fst (map (\<lambda>(k, v). (k, stableStringify v)) ms)
      = map (\<lambda>(k, v). (k, json_text v)) (sort_key fst (map (\<lambda>(k, v). (k, json_canon v)) ms))"
    by (simp only: sort_key_map_snd)
  then show ?case by (simp add: case_prod_unfold comp_def)
qed simp_all

section \<open>The compact text determines the value\<close>

definition delim :: "string \<Rightarrow> bool" where
  "delim r = (r = [] \<or> hd r \<in> {CHR '','', CHR '']'', CHR ''}''})"

lemma join_with_Cons:
  "join_with sep (x # xs) = x @ concat (map ((@) sep) xs)"
  by (induction xs arbitrary: x) auto

lemma js_code_inj: "js_code c = js_code d \<longleftrightarrow> c = d"
  by (simp add: js_code_def)

lemma js_code_bound [simp]: "js_code c < 256"
  by (simp add: js_code_def)

lemma js_code_char_of [simp]: "n < 256 \<Longrightarrow> js_code (char_of n) = n"
  by (simp add: js_code_def of_char_of)

text \<open>Reading one quoted character back: a proof device for the next lemmas.\<close>

definition hex_val :: "char \<Rightarrow> nat" where
  "hex_val c = (if js_code c < 58 then js_code c - 48 else js_code c - 87)"

fun unescape1 :: "string \<Rightarrow> char \<times> string" where
  "unescape1 (e # r) =
     (let n = js_code e in
      if n = 98 then (char_of (8::nat), r) else if n = 116 then (char_of (9::nat), r)
      else if n = 110 then (char_of (10::nat), r) else if n = 102 then (char_of (12::nat), r)
      else if n = 114 then (char_of (13::nat), r)
      else if n = 117 then (char_of (16 * hex_val (r ! 2) + hex_val (r ! 3)), drop 4 r)
      else (e, r))"
| "unescape1 [] = (CHR ''x'', [])"

definition unquote1 :: "string \<Rightarrow> char \<times> string" where
  "unquote1 s = (if js_code (hd s) = 92 then unescape1 (tl s) else (hd s, tl s))"

lemma char_of_js_code [simp]: "char_of (js_code c) = c"
  by (simp add: js_code_def)

lemma hex_val_hex_char [simp]: "d < 16 \<Longrightarrow> hex_val (hex_char d) = d"
  by (simp add: hex_val_def hex_char_def)

lemma js_code_eqD: "js_code c = n \<Longrightarrow> c = char_of n"
  by (metis char_of_js_code)

lemma js_code_34: "js_code c = 34 \<longleftrightarrow> c = CHR 0x22"
  using js_code_inj [of c "CHR 0x22"] by (simp add: js_code_def)

lemma js_code_92: "js_code c = 92 \<longleftrightarrow> c = CHR 0x5C"
  using js_code_inj [of c "CHR 0x5C"] by (simp add: js_code_def)

lemma js_code_chars [simp]:
  "js_code (CHR 0x22) = 34" "js_code (CHR 0x5C) = 92" "js_code (CHR ''b'') = 98"
  "js_code (CHR ''f'') = 102" "js_code (CHR ''n'') = 110" "js_code (CHR ''r'') = 114"
  "js_code (CHR ''t'') = 116" "js_code (CHR ''u'') = 117"
  by (simp_all add: js_code_def)

lemma unquote1_quote_char: "unquote1 (quote_char c @ r) = (c, r)"
proof (cases "js_code c < 32 \<and> js_code c \<notin> {8, 9, 10, 12, 13}")
  case True
  then have "16 * (js_code c div 16) + js_code c mod 16 = js_code c" and "js_code c div 16 < 16"
    by auto
  with True show ?thesis
    by (simp add: quote_char_def unquote1_def Let_def)
next
  case False
  then consider "js_code c = 8" | "js_code c = 9" | "js_code c = 10" | "js_code c = 12"
    | "js_code c = 13" | "js_code c = 34" | "js_code c = 92"
    | "js_code c \<notin> {34, 92}" "\<not> js_code c < 32" by auto
  then show ?thesis
    by cases (auto simp: quote_char_def unquote1_def Let_def js_code_34 js_code_92 dest: js_code_eqD)
qed

lemma quote_char_prefix: "quote_char c @ r = quote_char d @ r' \<Longrightarrow> c = d \<and> r = r'"
  by (metis unquote1_quote_char prod.inject)

lemma hd_quote_char: "hd (quote_char c @ r) \<noteq> CHR 0x22"
  by (auto simp: quote_char_def Let_def js_code_def)

lemma quoted_prefix:
  "concat (map quote_char s) @ CHR 0x22 # r = concat (map quote_char t) @ CHR 0x22 # r' \<Longrightarrow>
     s = t \<and> r = r'"
proof (induction s arbitrary: t)
  case Nil
  show ?case
  proof (cases t)
    case (Cons d t')
    with Nil have "hd (quote_char d @ concat (map quote_char t') @ CHR 0x22 # r') = CHR 0x22"
      by (metis append.assoc append_Nil concat.simps(1,2) list.sel(1) list.simps(8,9))
    with hd_quote_char show ?thesis by blast
  qed (use Nil in simp)
next
  case (Cons c s)
  show ?case
  proof (cases t)
    case Nil
    with Cons.prems have "hd (quote_char c @ concat (map quote_char s) @ CHR 0x22 # r) = CHR 0x22"
      by (metis append.assoc append_Nil concat.simps(1,2) list.sel(1) list.simps(8,9))
    with hd_quote_char show ?thesis by blast
  next
    case (Cons d t')
    with Cons.prems quote_char_prefix [of c "concat (map quote_char s) @ CHR 0x22 # r" d
        "concat (map quote_char t') @ CHR 0x22 # r'"] Cons.IH [of t']
    show ?thesis by simp
  qed
qed

lemma json_quote_prefix: "json_quote s @ r = json_quote t @ r' \<Longrightarrow> s = t \<and> r = r'"
  using quoted_prefix [of s r t r'] by (simp add: json_quote_def)

lemma digits_prefix:
  assumes "nat_str m @ r = nat_str n @ r'" and "delim r" and "delim r'"
  shows "m = n \<and> r = r'"
proof -
  have stop: "takeWhile js_digit q = []" if "delim q" for q
    using that by (cases q) (auto simp: delim_def js_digit_def js_code_def)
  have "takeWhile js_digit (nat_str m @ r) = nat_str m"
    and "takeWhile js_digit (nat_str n @ r') = nat_str n"
    using stop [OF assms(2)] stop [OF assms(3)] nat_str_digits by (simp_all add: takeWhile_append)
  with assms(1) have "nat_str m = nat_str n" by metis
  with assms(1) show ?thesis by (auto dest: nat_str_inj)
qed

lemma nat_str_hd: "js_digit (hd (nat_str n @ r))"
  using nat_str_digits [of n] by (cases "nat_str n") auto

lemma int_str_hd: "hd (int_str m @ r) = CHR ''-'' \<longleftrightarrow> m < 0"
proof -
  have "\<not> js_digit (CHR ''-'')" by (simp add: js_digit_def js_code_def)
  then show ?thesis using nat_str_hd [of "nat m" r] by (auto simp: int_str_def)
qed

lemma int_str_prefix:
  assumes "int_str m @ r = int_str n @ r'" and "delim r" and "delim r'"
  shows "m = n \<and> r = r'"
proof -
  have sgn: "(m < 0) = (n < 0)"
    using assms(1) int_str_hd [of m r] int_str_hd [of n r'] by simp
  show ?thesis
  proof (cases "m < 0")
    case True
    with sgn assms digits_prefix [of "nat (- m)" r "nat (- n)" r'] show ?thesis
      by (auto simp: int_str_def)
  next
    case False
    with sgn assms digits_prefix [of "nat m" r "nat n" r'] show ?thesis
      by (auto simp: int_str_def)
  qed
qed

text \<open>The first character tells the constructor.\<close>

fun json_head :: "json \<Rightarrow> nat" where
  "json_head JNull = 0"
| "json_head (JBool b) = (if b then 1 else 2)"
| "json_head (JNum n) = 3"
| "json_head (JStr s) = 4"
| "json_head (JArr xs) = 5"
| "json_head (JObj ms) = 6"

definition char_head :: "char \<Rightarrow> nat" where
  "char_head c = (if c = CHR ''n'' then 0 else if c = CHR ''t'' then 1
     else if c = CHR ''f'' then 2 else if js_digit c \<or> c = CHR ''-'' then 3
     else if c = CHR 0x22 then 4 else if c = CHR ''['' then 5 else if c = CHR ''{'' then 6 else 7)"

lemma json_text_head: "char_head (hd (json_text v @ r)) = json_head v"
proof (cases v)
  case (JNum n)
  have "js_digit (hd (int_str n @ r)) \<or> hd (int_str n @ r) = CHR ''-''"
    using nat_str_hd [of "nat n" r] by (simp add: int_str_def)
  moreover have "\<not> js_digit (CHR ''n'')" "\<not> js_digit (CHR ''t'')" "\<not> js_digit (CHR ''f'')"
    by (simp_all add: js_digit_def js_code_def)
  ultimately show ?thesis using JNum by (auto simp: char_head_def)
qed (simp_all add: char_head_def json_quote_def js_digit_def js_code_def)

definition item_list :: "string list \<Rightarrow> string" where
  "item_list ts = concat (map ((@) '','') ts)"

lemma item_list_simps [simp]:
  "item_list [] = []" "item_list (t # ts) = CHR '','' # t @ item_list ts"
  by (simp_all add: item_list_def)

lemma join_with_item_list: "join_with '','' (t # ts) = t @ item_list ts"
  by (simp add: join_with_Cons item_list_def)

text \<open>
  A list of items, each of which is told apart from what follows it, is told apart from what
  follows the closing character \<open>z\<close>.
\<close>

lemma item_list_prefix:
  assumes step: "\<And>x y r r'. x \<in> set xs \<Longrightarrow> f x @ r = f y @ r' \<Longrightarrow> delim r \<Longrightarrow> delim r' \<Longrightarrow>
      x = y \<and> r = r'"
    and z: "z \<in> {CHR '']'', CHR ''}''}"
    and eq: "item_list (map f xs) @ z # r = item_list (map f ys) @ z # r'"
  shows "xs = ys \<and> r = r'"
  using step eq
proof (induction xs arbitrary: ys)
  case Nil
  with z show ?case by (cases ys) auto
next
  case (Cons x xs)
  show ?case
  proof (cases ys)
    case Nil
    with Cons.prems(2) z show ?thesis by auto
  next
    case (Cons y ys')
    have d: "delim (item_list (map f ws) @ z # q)" for ws q
      using z by (cases ws) (auto simp: delim_def)
    from Cons.prems(2) Cons have
      "f x @ item_list (map f xs) @ z # r = f y @ item_list (map f ys') @ z # r'" by simp
    with Cons.prems(1) [of x _ y] d have "x = y"
      and "item_list (map f xs) @ z # r = item_list (map f ys') @ z # r'"
      by (metis list.set_intros(1))+
    with Cons.IH [of ys'] Cons.prems(1) Cons show ?thesis by auto
  qed
qed

lemma join_prefix:
  assumes step: "\<And>x y r r'. x \<in> set xs \<Longrightarrow> f x @ r = f y @ r' \<Longrightarrow> delim r \<Longrightarrow> delim r' \<Longrightarrow>
      x = y \<and> r = r'"
    and z: "z \<in> {CHR '']'', CHR ''}''}"
    and nz: "\<And>x q. hd (f x @ q) \<noteq> z"
    and eq: "join_with '','' (map f xs) @ z # r = join_with '','' (map f ys) @ z # r'"
  shows "xs = ys \<and> r = r'"
proof (cases "xs = [] \<or> ys = []")
  case True
  then show ?thesis using eq nz
    by (cases xs; cases ys) (auto simp: join_with_item_list, (metis list.sel(1))+)
next
  case False
  then obtain x xs' y ys' where xy: "xs = x # xs'" "ys = y # ys'"
    by (auto simp: neq_Nil_conv)
  then have "item_list (map f xs) @ z # r = item_list (map f ys) @ z # r'"
    using eq by (simp add: join_with_item_list)
  with item_list_prefix [OF step z] show ?thesis by blast
qed

lemma json_head_le: "json_head v \<le> 6"
  by (cases v) auto

lemma char_head_bracket: "char_head (CHR '']'') = 7"
  by (simp add: char_head_def js_digit_def js_code_def)

lemma json_head_eq: "json_text v @ r = json_text w @ r' \<Longrightarrow> json_head v = json_head w"
  by (metis json_text_head)

lemma json_text_prefix:
  "json_text v @ r = json_text w @ r' \<Longrightarrow> delim r \<Longrightarrow> delim r' \<Longrightarrow> v = w \<and> r = r'"
proof (induction v arbitrary: w r r')
  case JNull
  then show ?case using json_head_eq [OF JNull.prems(1)]
    by (cases w) (auto split: if_splits)
next
  case (JBool b)
  then show ?case using json_head_eq [OF JBool.prems(1)]
    by (cases w) (auto split: if_splits)
next
  case (JNum n)
  then show ?case using json_head_eq [OF JNum.prems(1)]
    by (cases w) (auto split: if_splits dest: int_str_prefix)
next
  case (JStr s)
  then show ?case using json_head_eq [OF JStr.prems(1)]
    by (cases w) (auto split: if_splits dest: json_quote_prefix)
next
  case (JArr xs)
  then obtain ys where w: "w = JArr ys"
    using json_head_eq [OF JArr.prems(1)] by (cases w) (auto split: if_splits)
  have "hd (json_text x @ q) \<noteq> CHR '']''" for x q
    using json_text_head [of x q] json_head_le [of x] by (auto simp: char_head_bracket)
  with join_prefix [of xs json_text "CHR '']''" r ys r'] JArr w show ?case by auto
next
  case (JObj ms)
  then obtain ns where w: "w = JObj ns"
    using json_head_eq [OF JObj.prems(1)] by (cases w) (auto split: if_splits)
  let ?f = "\<lambda>(k, v). json_quote k @ '':'' @ json_text v"
  have "hd (?f x @ q) \<noteq> CHR ''}''" for x q by (cases x) (simp add: json_quote_def)
  moreover have "x = y \<and> p = p'"
    if "x \<in> set ms" "?f x @ p = ?f y @ p'" "delim p" "delim p'" for x y p p'
  proof -
    obtain k u where x: "x = (k, u)" by (cases x)
    obtain k' u' where y: "y = (k', u')" by (cases y)
    have "json_quote k @ CHR '':'' # json_text u @ p = json_quote k' @ CHR '':'' # json_text u' @ p'"
      using that(2) x y by simp
    from json_quote_prefix [OF this] have "k = k'" "json_text u @ p = json_text u' @ p'" by auto
    moreover have "json_text u @ q = json_text u' @ q' \<Longrightarrow> delim q \<Longrightarrow> delim q' \<Longrightarrow> u = u' \<and> q = q'"
      for q q' using JObj.IH [of x u] that(1) x by (simp add: prod_set_simps)
    ultimately show ?thesis using that x y by blast
  qed
  ultimately show ?case using join_prefix [of ms ?f "CHR ''}''" r ns r'] JObj.prems w by auto
qed

end
