(* ===== verification/Admission.thy ===== *)
theory Admission
  imports JobDefaults Canon
begin

text \<open>
  Admission policy of \<open>src/core/minions/admission.ts\<close>: the per-name policy with its config
  overrides, kill switch and 60 s cache, the names with a waiting TTL, and the decision of the
  warn-before-act tick. Config numbers are exact rationals (a literal in the range of a
  double). The config plane of the storage engine is an argument; a \<open>None\<close> result of its
  operations is a call that throws.
\<close>

section \<open>\<open>Number(s)\<close>\<close>

datatype js_number = NaN | Infinite bool | Finite rat

text \<open>\<open>StrUnsignedDecimalLiteral\<close> of ECMA-262 without \<open>Infinity\<close>: \<open>None\<close> for a text that is
  none.\<close>

definition js_exponent :: "string \<Rightarrow> int option" where
  "js_exponent t =
     (let neg = (case t of [] \<Rightarrow> False | c # _ \<Rightarrow> c = CHR ''-'');
          u = (case t of [] \<Rightarrow> [] | c # r \<Rightarrow> if c = CHR ''-'' \<or> c = CHR ''+'' then r else t)
      in if u = [] \<or> \<not> list_all js_digit u then None
         else Some (if neg then - dec_val u else dec_val u))"

definition pow10 :: "int \<Rightarrow> rat" where
  "pow10 e = (if e < 0 then 1 / 10 ^ nat (- e) else 10 ^ nat e)"

definition js_unsigned_decimal :: "string \<Rightarrow> rat option" where
  "js_unsigned_decimal s =
     (let ip = takeWhile js_digit s; r1 = dropWhile js_digit s;
          fp = (case r1 of [] \<Rightarrow> [] | c # t \<Rightarrow> if c = CHR ''.'' then takeWhile js_digit t else []);
          r2 = (case r1 of [] \<Rightarrow> [] | c # t \<Rightarrow> if c = CHR ''.'' then dropWhile js_digit t else r1);
          m = of_int (dec_val (ip @ fp)) / 10 ^ length fp
      in if ip = [] \<and> fp = [] then None
         else case r2 of
             [] \<Rightarrow> Some m
           | c # t \<Rightarrow> if c = CHR ''e'' \<or> c = CHR ''E''
                      then map_option (\<lambda>e. m * pow10 e) (js_exponent t) else None)"

definition radix_digit :: "char \<Rightarrow> nat" where
  "radix_digit c = (let n = js_code c in
     if 48 \<le> n \<and> n \<le> 57 then n - 48
     else if 65 \<le> n \<and> n \<le> 90 then n - 55
     else if 97 \<le> n \<and> n \<le> 122 then n - 87 else 99)"

definition js_radix_literal :: "nat \<Rightarrow> string \<Rightarrow> js_number" where
  "js_radix_literal b t =
     (if t = [] \<or> \<not> list_all (\<lambda>c. radix_digit c < b) t then NaN
      else Finite (of_nat (foldl (\<lambda>a c. b * a + radix_digit c) 0 t)))"

definition js_Number :: "string \<Rightarrow> js_number" where
  "js_Number s =
     (let t = js_trim s;
          neg = (case t of [] \<Rightarrow> False | c # _ \<Rightarrow> c = CHR ''-'');
          u = (case t of [] \<Rightarrow> [] | c # r \<Rightarrow> if c = CHR ''-'' \<or> c = CHR ''+'' then r else t)
      in if t = [] then Finite 0
         else if take 2 t \<in> {''0x'', ''0X''} then js_radix_literal 16 (drop 2 t)
         else if take 2 t \<in> {''0o'', ''0O''} then js_radix_literal 8 (drop 2 t)
         else if take 2 t \<in> {''0b'', ''0B''} then js_radix_literal 2 (drop 2 t)
         else if u = ''Infinity'' then Infinite neg
         else case js_unsigned_decimal u of
             None \<Rightarrow> NaN
           | Some m \<Rightarrow> Finite (if neg then - m else m))"

definition js_lower_char :: "char \<Rightarrow> char" where
  "js_lower_char c = (let n = js_code c in
     if (65 \<le> n \<and> n \<le> 90) \<or> (192 \<le> n \<and> n \<le> 222 \<and> n \<noteq> 215) then char_of (n + 32) else c)"

definition js_to_lower :: "string \<Rightarrow> string" where
  "js_to_lower s = map js_lower_char s"

section \<open>Policy\<close>

definition PARAM_COALESCE_DEFAULT :: "(string \<times> bool) list" where
  "PARAM_COALESCE_DEFAULT = [(''subagent'', True)]"

definition WAITING_TTL_DEFAULT_HOURS :: "(string \<times> rat) list" where
  "WAITING_TTL_DEFAULT_HOURS = [(''subagent'', 48)]"

definition QUOTA_MAX_WAITING_DEFAULT :: "(string \<times> rat) list" where
  "QUOTA_MAX_WAITING_DEFAULT = []"

definition TTL_REASON_PREFIX :: string where
  "TTL_REASON_PREFIX = ''waiting_ttl_expired''"

record admission_policy =
  coalesceParams :: bool
  ttlWaitingHours :: "rat option"
  quotaMaxWaiting :: "rat option"

definition isOffValue :: "string \<Rightarrow> bool" where
  "isOffValue v = (js_to_lower (js_trim v) \<in> {''false'', ''0'', ''off'', ''no''})"

definition parsePositiveNumber :: "string option \<Rightarrow> rat option" where
  "parsePositiveNumber v =
     (case v of
        None \<Rightarrow> None
      | Some s \<Rightarrow>
          if js_trim s = [] then None
          else case js_Number s of
              Finite n \<Rightarrow> if n \<le> 0 then None else Some n
            | _ \<Rightarrow> None)"

definition safe_segment_char :: "char \<Rightarrow> bool" where
  "safe_segment_char c = (let n = js_code c in
     js_digit c \<or> (65 \<le> n \<and> n \<le> 90) \<or> (97 \<le> n \<and> n \<le> 122) \<or> c \<in> {CHR ''.'', CHR ''_'', CHR '':'', CHR ''-''})"

text \<open>\<open>/^[A-Za-z0-9][A-Za-z0-9._:-]{0,127}$/\<close>.\<close>

definition safeConfigSegment :: "string \<Rightarrow> string option" where
  "safeConfigSegment name =
     (case name of
        [] \<Rightarrow> None
      | c # r \<Rightarrow> if safe_segment_char c \<and> c \<notin> {CHR ''.'', CHR ''_'', CHR '':'', CHR ''-''} \<and>
                    length r \<le> 127 \<and> list_all safe_segment_char r
                 then Some name else None)"

text \<open>The config plane: \<open>getConfig key\<close>, and \<open>listConfigKeys prefix\<close> where the engine has it.\<close>

record config_engine =
  get_config :: "string \<Rightarrow> string option option"
  list_config_keys :: "(string \<Rightarrow> string list option) option"

type_synonym policy_cache = "(string \<times> (int \<times> admission_policy)) list"

definition default_policy :: "string \<Rightarrow> admission_policy" where
  "default_policy jobName = \<lparr>
     coalesceParams = (map_of PARAM_COALESCE_DEFAULT jobName = Some True),
     ttlWaitingHours = map_of WAITING_TTL_DEFAULT_HOURS jobName,
     quotaMaxWaiting = map_of QUOTA_MAX_WAITING_DEFAULT jobName\<rparr>"

definition set_value :: "string option \<Rightarrow> bool" where
  "set_value v = (case v of None \<Rightarrow> False | Some s \<Rightarrow> js_trim s \<noteq> [])"

definition configured_policy ::
  "admission_policy \<Rightarrow> string option \<Rightarrow> string option \<Rightarrow> string option \<Rightarrow> admission_policy" where
  "configured_policy p coalesceV ttlV quotaV = \<lparr>
     coalesceParams = (if set_value coalesceV then \<not> isOffValue (js_trim (the coalesceV))
                       else coalesceParams p),
     ttlWaitingHours = (if set_value ttlV then parsePositiveNumber ttlV else ttlWaitingHours p),
     quotaMaxWaiting = (if set_value quotaV then parsePositiveNumber quotaV
                        else quotaMaxWaiting p)\<rparr>"

text \<open>The three overrides are read together: when one read throws, the built-in defaults stand.\<close>

definition resolved_policy :: "config_engine \<Rightarrow> string \<Rightarrow> admission_policy" where
  "resolved_policy engine jobName =
     (case (get_config engine (''minions.coalesce_params.'' @ jobName),
            get_config engine (''minions.ttl_waiting_hours.'' @ jobName),
            get_config engine (''minions.quota_max_waiting.'' @ jobName)) of
        (Some coalesceV, Some ttlV, Some quotaV) \<Rightarrow>
          configured_policy (default_policy jobName) coalesceV ttlV quotaV
      | _ \<Rightarrow> default_policy jobName)"

text \<open>\<open>resolveAdmissionPolicy\<close>: \<open>killed\<close> is the environment switch, \<open>now\<close> is \<open>Date.now()\<close>.\<close>

definition resolveAdmissionPolicy ::
  "bool \<Rightarrow> config_engine \<Rightarrow> int \<Rightarrow> string \<Rightarrow> policy_cache \<Rightarrow> admission_policy \<times> policy_cache" where
  "resolveAdmissionPolicy killed engine now jobName policyCache =
     (if killed then (\<lparr>coalesceParams = False, ttlWaitingHours = None, quotaMaxWaiting = None\<rparr>, policyCache)
      else let policy = resolved_policy engine jobName;
               fresh = (policy, (jobName, (now, policy)) # filter (\<lambda>(k, _). k \<noteq> jobName) policyCache)
        in case map_of policyCache jobName of
            Some (t0, p) \<Rightarrow> if now - t0 < 60000 then (p, policyCache) else fresh
          | None \<Rightarrow> fresh)"

section \<open>Names with a waiting TTL\<close>

text \<open>\<open>Map.set\<close> and \<open>Map.delete\<close> on the entries of a \<open>Map\<close> in insertion order.\<close>

fun map_set :: "string \<Rightarrow> 'v \<Rightarrow> (string \<times> 'v) list \<Rightarrow> (string \<times> 'v) list" where
  "map_set k v [] = [(k, v)]"
| "map_set k v ((k', v') # ms) = (if k' = k then (k, v) # ms else (k', v') # map_set k v ms)"

definition map_delete :: "string \<Rightarrow> (string \<times> 'v) list \<Rightarrow> (string \<times> 'v) list" where
  "map_delete k ms = filter (\<lambda>(k', _). k' \<noteq> k) ms"

definition put_ttl :: "string \<Rightarrow> rat option \<Rightarrow> (string \<times> rat) list \<Rightarrow> (string \<times> rat) list" where
  "put_ttl name v out = (case v of None \<Rightarrow> map_delete name out | Some h \<Rightarrow> map_set name h out)"

definition TTL_PREFIX :: string where "TTL_PREFIX = ''minions.ttl_waiting_hours.''"

text \<open>The loop over the listed keys; a \<open>getConfig\<close> that throws ends it with what is there.\<close>

fun ttl_from_keys ::
  "config_engine \<Rightarrow> string list \<Rightarrow> (string \<times> rat) list \<Rightarrow> (string \<times> rat) list" where
  "ttl_from_keys engine [] out = out"
| "ttl_from_keys engine (key # keys) out =
     (let name = drop (length TTL_PREFIX) key in
      if name = [] then ttl_from_keys engine keys out
      else case get_config engine key of
          None \<Rightarrow> out
        | Some v \<Rightarrow> ttl_from_keys engine keys (put_ttl name (parsePositiveNumber v) out))"

fun ttl_from_defaults ::
  "config_engine \<Rightarrow> string list \<Rightarrow> (string \<times> rat) list \<Rightarrow> (string \<times> rat) list" where
  "ttl_from_defaults engine [] out = out"
| "ttl_from_defaults engine (name # names) out =
     (case get_config engine (TTL_PREFIX @ name) of
        None \<Rightarrow> out
      | Some v \<Rightarrow> ttl_from_defaults engine names
          (if set_value v then put_ttl name (parsePositiveNumber v) out else out))"

definition resolveTtlNames :: "bool \<Rightarrow> config_engine \<Rightarrow> (string \<times> rat) list" where
  "resolveTtlNames killed engine =
     (if killed then []
      else let out = WAITING_TTL_DEFAULT_HOURS in
        case list_config_keys engine of
          Some listing \<Rightarrow>
            (case listing TTL_PREFIX of None \<Rightarrow> out | Some keys \<Rightarrow> ttl_from_keys engine keys out)
        | None \<Rightarrow> ttl_from_defaults engine (map fst WAITING_TTL_DEFAULT_HOURS) out)"

text \<open>\<open>updated_at < now() - hours * interval '1 hour'\<close> on a waiting row of that name.\<close>

definition ttl_expired :: "int \<Rightarrow> string \<Rightarrow> rat \<Rightarrow> minion_job \<Rightarrow> bool" where
  "ttl_expired now name hours r =
     (j_name r = name \<and> j_status r = Waiting \<and>
      rat_of_int (j_updated_at r) < rat_of_int now - hours * 3600000000)"

definition countTtlExpiredWaiting ::
  "int \<Rightarrow> (string \<times> rat) list \<Rightarrow> minion_job list \<Rightarrow> int \<times> (string \<times> int) list" where
  "countTtlExpiredWaiting now ttlNames js =
     fold (\<lambda>(name, hours) (total, by_name).
        let n = int (length (filter (ttl_expired now name hours) js))
        in (total + n, map_set name n by_name)) ttlNames (0, [])"

section \<open>The warn-before-act tick\<close>

definition ttlNoticeGraceMs :: "string option \<Rightarrow> rat" where
  "ttlNoticeGraceMs env =
     (case env of
        None \<Rightarrow> 3600000
      | Some s \<Rightarrow> (case js_Number s of Finite v \<Rightarrow> if v \<ge> 0 then v else 3600000 | _ \<Rightarrow> 3600000))"

datatype ttl_phase = TickKilled | TickNotice int | TickGrace | TickSwept

text \<open>
  The decision of \<open>runWaitingTtlTick\<close> for the stored flag: \<open>date_parse\<close> is \<open>Date.parse\<close> (NaN is
  \<open>None\<close>), \<open>affected\<close> the total of \<open>countTtlExpiredWaiting\<close>.
\<close>

definition ttl_tick_phase ::
  "bool \<Rightarrow> (string \<Rightarrow> int option) \<Rightarrow> rat \<Rightarrow> int \<Rightarrow> string option \<Rightarrow> int \<Rightarrow> ttl_phase" where
  "ttl_tick_phase killed date_parse graceMs now flagV affected =
     (if killed then TickKilled
      else let flag = (case flagV of None \<Rightarrow> [] | Some s \<Rightarrow> js_trim s) in
        if flag = [] then TickNotice affected
        else if flag \<noteq> ''true'' \<and>
                (case date_parse flag of None \<Rightarrow> False | Some ts \<Rightarrow> of_int (now - ts) < graceMs)
        then TickGrace else TickSwept)"

section \<open>Facts\<close>

text \<open>Every TTL and quota a policy carries is positive: garbage, zero and negative settings
  disable, they never invert the comparison they feed.\<close>

definition policy_positive :: "admission_policy \<Rightarrow> bool" where
  "policy_positive p =
     ((case ttlWaitingHours p of None \<Rightarrow> True | Some h \<Rightarrow> 0 < h) \<and>
      (case quotaMaxWaiting p of None \<Rightarrow> True | Some q \<Rightarrow> 0 < q))"

lemma parsePositiveNumber_positive: "parsePositiveNumber v = Some n \<Longrightarrow> 0 < n"
  by (auto simp: parsePositiveNumber_def split: option.splits if_splits js_number.splits)

lemma default_policy_positive: "policy_positive (default_policy nm)"
  by (auto simp: policy_positive_def default_policy_def WAITING_TTL_DEFAULT_HOURS_def
      QUOTA_MAX_WAITING_DEFAULT_def)

lemma configured_policy_positive:
  "policy_positive p \<Longrightarrow> policy_positive (configured_policy p a b c)"
  by (auto simp: policy_positive_def configured_policy_def split: option.splits if_splits
      dest: parsePositiveNumber_positive)

definition cache_positive :: "policy_cache \<Rightarrow> bool" where
  "cache_positive cache = list_all (\<lambda>(k, t, p). policy_positive p) cache"

lemma resolved_policy_positive: "policy_positive (resolved_policy engine nm)"
  by (auto simp: resolved_policy_def default_policy_positive configured_policy_positive
      split: option.splits)

lemma resolveAdmissionPolicy_positive:
  assumes "resolveAdmissionPolicy killed engine now nm cache = (p, cache')"
    and "cache_positive cache"
  shows "policy_positive p \<and> cache_positive cache'"
proof -
  have hit: "policy_positive q" if "map_of cache nm = Some (t, q)" for t q
    using assms(2) map_of_SomeD [OF that] by (auto simp: cache_positive_def list_all_iff)
  have rest: "cache_positive (filter (\<lambda>(k, _). k \<noteq> nm) cache)"
    using assms(2) by (auto simp: cache_positive_def list_all_iff)
  have miss: "cache_positive ((nm, t, resolved_policy engine nm) # filter (\<lambda>(k, _). k \<noteq> nm) cache)" for t
    using rest resolved_policy_positive by (simp add: cache_positive_def)
  show ?thesis
  proof (cases killed)
    case True
    then show ?thesis using assms by (auto simp: resolveAdmissionPolicy_def Let_def policy_positive_def)
  next
    case False
    then show ?thesis using assms hit miss resolved_policy_positive
      by (cases "map_of cache nm") (auto simp: resolveAdmissionPolicy_def Let_def split: if_splits)
  qed
qed

definition hours_positive :: "(string \<times> rat) list \<Rightarrow> bool" where
  "hours_positive out = list_all (\<lambda>(k, h). 0 < h) out"

lemma map_set_positive: "hours_positive ms \<Longrightarrow> 0 < h \<Longrightarrow> hours_positive (map_set k h ms)"
  by (induction k h ms rule: map_set.induct) (auto simp: hours_positive_def)

lemma put_ttl_positive:
  "hours_positive out \<Longrightarrow> hours_positive (put_ttl name (parsePositiveNumber v) out)"
  by (cases "parsePositiveNumber v")
    (auto simp: put_ttl_def map_set_positive parsePositiveNumber_positive,
     auto simp: hours_positive_def map_delete_def list_all_iff)

lemma ttl_from_keys_positive: "hours_positive out \<Longrightarrow> hours_positive (ttl_from_keys engine keys out)"
  by (induction engine keys out rule: ttl_from_keys.induct)
    (auto simp: Let_def put_ttl_positive split: option.splits)

lemma ttl_from_defaults_positive:
  "hours_positive out \<Longrightarrow> hours_positive (ttl_from_defaults engine names out)"
  by (induction engine names out rule: ttl_from_defaults.induct)
    (auto simp: put_ttl_positive split: option.splits)

lemma default_hours_positive: "hours_positive WAITING_TTL_DEFAULT_HOURS" "hours_positive []"
  by (simp_all add: hours_positive_def WAITING_TTL_DEFAULT_HOURS_def)

lemma resolveTtlNames_positive: "hours_positive (resolveTtlNames killed engine)"
  by (simp add: resolveTtlNames_def Let_def default_hours_positive ttl_from_keys_positive
      ttl_from_defaults_positive split: option.splits)

end
