(* ===== verification/QueueSubmit.thy ===== *)
theory QueueSubmit
  imports Admission
begin

text \<open>
  \<open>MinionQueue.add\<close> of \<open>src/core/minions/queue.ts\<close>, in the order of its steps: name and trust
  gates, schema gate, admission policy and coalescing hash, then the transaction (idempotency,
  parameter coalescing, quota, backpressure, parent validation, insert, parent flip).

  The transaction is one atomic step, as its advisory and row locks make it; \<open>insert_job\<close> is a
  definition of its own so that the insert race (a row with the same key committed after the
  first lookup) can be stated too. An error rolls everything back. \<open>classifyCapabilities\<close>
  (\<open>src/core/ai\<close>), SHA-256 and the clocks are arguments. Numeric options are integers.
\<close>

section \<open>Inputs and errors\<close>

record job_input =
  o_queue :: "string option"
  o_priority :: "int option"
  o_max_attempts :: "int option"
  o_backoff_type :: "backoff_type option"
  o_backoff_delay :: "int option"
  o_backoff_jitter :: "rat option"
  o_max_stalled :: "int option"
  o_delay :: "int option"
  o_parent_job_id :: "int option"
  o_on_child_fail :: "child_fail_policy option"
  o_max_children :: "int option"
  o_timeout_ms :: "int option"
  o_lock_duration_ms :: "int option"
  o_remove_on_complete :: "bool option"
  o_remove_on_fail :: "bool option"
  o_max_spawn_depth :: "int option"
  o_idempotency_key :: "string option"
  o_private_queue_owner_job_id :: "int option"
  o_private_queue_owner_token :: "string option"
  o_private_queue_lease_ms :: "int option"
  o_maxWaiting :: "int option"
  o_maxPending :: "int option"
  o_coalesce_params :: "bool option"
  o_quiet_hours :: "json option"
  o_stagger_key :: "string option"

definition no_opts :: job_input where
  "no_opts = \<lparr>o_queue = None, o_priority = None, o_max_attempts = None, o_backoff_type = None,
     o_backoff_delay = None, o_backoff_jitter = None, o_max_stalled = None, o_delay = None,
     o_parent_job_id = None, o_on_child_fail = None, o_max_children = None, o_timeout_ms = None,
     o_lock_duration_ms = None, o_remove_on_complete = None, o_remove_on_fail = None,
     o_max_spawn_depth = None, o_idempotency_key = None, o_private_queue_owner_job_id = None,
     o_private_queue_owner_token = None, o_private_queue_lease_ms = None, o_maxWaiting = None,
     o_maxPending = None, o_coalesce_params = None, o_quiet_hours = None, o_stagger_key = None\<rparr>"

record trusted_opts =
  t_allowProtectedSubmit :: bool
  t_allowPgliteInlineWorker :: bool

datatype capability =
    CapOk | CapNoCaching | CapNoParallel | CapNoTools | CapNoSubagentLoop | CapUnknown

datatype submit_error =
    EmptyJobName
  | EmbedAdmission embed_admission_error
  | ProtectedJobName string
  | SubagentModelRejected string capability
  | SchemaTooOld int
  | QueueQuotaExceeded string int rat
  | ParentNotFound int
  | SpawnDepthExceeded int int
  | MaxChildrenExceeded int int int
  | CheckViolation
  | ForeignKeyViolation
  | UniqueViolation
  | IdempotencyRowLost string

text \<open>What a submission reads from its surroundings: the database clock \<open>now()\<close> of the
  transaction, \<open>Date.now()\<close> in milliseconds, the engine, and the queue's own limits.\<close>

record submit_env =
  e_now :: int
  e_js_now :: int
  e_engine :: engine_kind
  e_classify :: "string \<Rightarrow> capability"
  e_sha256 :: "string \<Rightarrow> string"
  e_maxSpawnDepth :: int

text \<open>The audit payload of a coalesced submission.\<close>

datatype coalesce_audit =
    AuditParamHash string string int string
  | AuditPending string string int int int
  | AuditWaiting string string int int int

section \<open>Gates before the transaction\<close>

definition subagent_model :: "json_obj \<Rightarrow> string option" where
  "subagent_model data =
     (case map_of data ''model'' of Some (JStr m) \<Rightarrow> (if m = [] then None else Some m) | _ \<Rightarrow> None)"

definition add_gates ::
  "submit_env \<Rightarrow> trusted_opts \<Rightarrow> string \<Rightarrow> json_obj \<Rightarrow> submit_error + string" where
  "add_gates env trusted name data =
     (let jobName = js_trim name in
      if jobName = [] then Inl EmptyJobName
      else case assertEmbedBackfillQueueAdmission (e_engine env) jobName data
                  (t_allowPgliteInlineWorker trusted) of
          Some e \<Rightarrow> Inl (EmbedAdmission e)
        | None \<Rightarrow>
            if isProtectedJobName jobName \<and> \<not> t_allowProtectedSubmit trusted
            then Inl (ProtectedJobName jobName)
            else if jobName = ''subagent'' then
              (case subagent_model data of
                 None \<Rightarrow> Inr jobName
               | Some m \<Rightarrow>
                   if e_classify env m \<in> {CapNoTools, CapNoSubagentLoop, CapUnknown}
                   then Inl (SubagentModelRejected m (e_classify env m))
                   else Inr jobName)
            else Inr jobName)"

definition ensureSchema :: "(string \<Rightarrow> string option) \<Rightarrow> submit_error option" where
  "ensureSchema config =
     (let ver = (case config ''version'' of None \<Rightarrow> ''1'' | Some v \<Rightarrow> if v = [] then ''1'' else v)
      in case js_parse_int ver of
          None \<Rightarrow> None
        | Some current \<Rightarrow> if current < 7 then Some (SchemaTooOld current) else None)"

section \<open>The coalescing hash of a submission\<close>

definition child_status :: "job_input \<Rightarrow> job_status" where
  "child_status opts =
     (case o_delay opts of None \<Rightarrow> Waiting | Some d \<Rightarrow> if d = 0 then Waiting else Delayed)"

text \<open>\<open>if (opts?.idempotency_key)\<close>, \<open>if (opts?.parent_job_id)\<close>: absent, empty and zero are
  false.\<close>

definition given_key :: "job_input \<Rightarrow> string option" where
  "given_key opts = or_null (o_idempotency_key opts)"

definition given_parent :: "job_input \<Rightarrow> int option" where
  "given_parent opts =
     (case o_parent_job_id opts of None \<Rightarrow> None | Some p \<Rightarrow> if p = 0 then None else Some p)"

definition coalesce_active :: "admission_policy \<Rightarrow> json_obj \<Rightarrow> job_input \<Rightarrow> bool" where
  "coalesce_active policy data opts =
     ((case o_coalesce_params opts of None \<Rightarrow> coalesceParams policy | Some b \<Rightarrow> b) \<and>
      given_parent opts = None \<and> given_key opts = None \<and>
      list_ex (\<lambda>(k, v). k \<notin> set PARAM_HASH_EXCLUDED_KEYS) data \<and>
      child_status opts = Waiting)"

definition opt_member :: "string \<Rightarrow> json option \<Rightarrow> json_obj" where
  "opt_member k v = (case v of None \<Rightarrow> [] | Some x \<Rightarrow> [(k, x)])"

text \<open>\<open>delay_ms\<close>, the sixth key of the loop, is no field of the options and never set.\<close>

definition opt_identity :: "job_input \<Rightarrow> json_obj" where
  "opt_identity opts =
     opt_member ''priority'' (map_option JNum (o_priority opts)) @
     opt_member ''timeout_ms'' (map_option JNum (o_timeout_ms opts)) @
     opt_member ''max_attempts'' (map_option JNum (o_max_attempts opts)) @
     opt_member ''quiet_hours'' (o_quiet_hours opts) @
     opt_member ''lock_duration_ms'' (map_option JNum (o_lock_duration_ms opts)) @
     opt_member ''max_stalled'' (map_option JNum (o_max_stalled opts))"

definition submission_hash :: "(string \<Rightarrow> string) \<Rightarrow> json_obj \<Rightarrow> job_input \<Rightarrow> string" where
  "submission_hash sha256 data opts =
     computeParamHash sha256
       (if opt_identity opts = [] then data
        else obj_put ''__opts_identity'' (JObj (opt_identity opts)) data)"

section \<open>The steps of the transaction\<close>

text \<open>1. The idempotency key: a live row is the answer, a dead or cancelled row gives the key up.\<close>

definition idempotency_step :: "string option \<Rightarrow> queue_db \<Rightarrow> minion_job option \<times> queue_db" where
  "idempotency_step key s =
     (case key of
        None \<Rightarrow> (None, s)
      | Some k \<Rightarrow>
          (case find (\<lambda>r. j_idempotency_key r = Some k) (d_jobs s) of
             None \<Rightarrow> (None, s)
           | Some r \<Rightarrow>
               if j_status r = Dead \<or> j_status r = Cancelled
               then (None, s\<lparr>d_jobs := upd_where (\<lambda>x. j_id x = j_id r)
                                 (\<lambda>x. x\<lparr>j_idempotency_key := None\<rparr>) (d_jobs s)\<rparr>)
               else (Some (rowToMinionJob r), s)))"

text \<open>1a. The newest waiting row with the same name, queue and hash, young enough.\<close>

definition coalesce_match ::
  "int \<Rightarrow> rat option \<Rightarrow> string \<Rightarrow> string \<Rightarrow> string \<Rightarrow> minion_job \<Rightarrow> bool" where
  "coalesce_match now ttlHours name queue hash r =
     (j_name r = name \<and> j_queue r = queue \<and> j_status r = Waiting \<and> j_parent_job_id r = None \<and>
      json_get_text (j_data r) ''__param_hash'' = Some hash \<and>
      (case ttlHours of
         None \<Rightarrow> True
       | Some h \<Rightarrow> rat_of_int (j_updated_at r) > rat_of_int now - (h / 2) * 3600000000))"

definition newest :: "minion_job \<Rightarrow> int \<times> int" where
  "newest r = (- j_created_at r, - j_id r)"

definition coalesce_step ::
  "int \<Rightarrow> rat option \<Rightarrow> string \<Rightarrow> string \<Rightarrow> string \<Rightarrow> queue_db \<Rightarrow> minion_job option" where
  "coalesce_step now ttlHours name queue hash s =
     min_row newest (filter (coalesce_match now ttlHours name queue hash) (d_jobs s))"

text \<open>1a2. The name-global quota on waiting rows.\<close>

definition waiting_count :: "string \<Rightarrow> minion_job list \<Rightarrow> int" where
  "waiting_count name js =
     int (length (filter (\<lambda>r. j_name r = name \<and> j_status r = Waiting) js))"

definition quota_step :: "string \<Rightarrow> rat option \<Rightarrow> queue_db \<Rightarrow> submit_error option" where
  "quota_step name quota s =
     (case quota of
        None \<Rightarrow> None
      | Some q \<Rightarrow> (let n = waiting_count name (d_jobs s) in
          if rat_of_int n \<ge> q then Some (QueueQuotaExceeded name n q) else None))"

text \<open>1b. Backpressure. The scope of a submission and of a row is its source id.\<close>

definition submit_source :: "json_obj \<Rightarrow> string option" where
  "submit_source data =
     (case map_of data ''sourceId'' of
        Some (JStr s) \<Rightarrow> Some s
      | _ \<Rightarrow> (case map_of data ''source_id'' of Some (JStr s) \<Rightarrow> Some s | _ \<Rightarrow> None))"

definition row_source :: "minion_job \<Rightarrow> string option" where
  "row_source r =
     coalesce (json_get_text (j_data r) ''sourceId'') (json_get_text (j_data r) ''source_id'')"

definition pending_row :: "int \<Rightarrow> string \<Rightarrow> string \<Rightarrow> string option \<Rightarrow> minion_job \<Rightarrow> bool" where
  "pending_row now name queue src r =
     (j_name r = name \<and> j_queue r = queue \<and>
      (j_status r = Waiting \<or> (j_status r = Active \<and> sql_gt (j_lock_until r) now)) \<and>
      row_source r = src)"

definition pending_step ::
  "int \<Rightarrow> string \<Rightarrow> string \<Rightarrow> string option \<Rightarrow> int \<Rightarrow> queue_db \<Rightarrow> (minion_job \<times> coalesce_audit) option"
where
  "pending_step now name queue src limit s =
     (let maxPending = max 1 limit;
          rows = filter (pending_row now name queue src) (d_jobs s);
          n = int (length rows)
      in if n \<ge> maxPending
         then map_option (\<lambda>r. (rowToMinionJob r, AuditPending queue name (j_id r) n maxPending))
                (min_row (\<lambda>r. (if j_status r = Waiting then 0 else 1 :: int, newest r)) rows)
         else None)"

definition waiting_row :: "string \<Rightarrow> string \<Rightarrow> string option \<Rightarrow> minion_job \<Rightarrow> bool" where
  "waiting_row name queue src r =
     (j_name r = name \<and> j_queue r = queue \<and> j_status r = Waiting \<and>
      (src = None \<or> row_source r = src))"

definition waiting_step ::
  "string \<Rightarrow> string \<Rightarrow> string option \<Rightarrow> int \<Rightarrow> queue_db \<Rightarrow> (minion_job \<times> coalesce_audit) option" where
  "waiting_step name queue src limit s =
     (let maxWaiting = max 1 limit;
          rows = filter (waiting_row name queue src) (d_jobs s);
          n = int (length rows)
      in if n \<ge> maxWaiting
         then map_option (\<lambda>r. (rowToMinionJob r, AuditWaiting queue name (j_id r) n maxWaiting))
                (min_row newest rows)
         else None)"

definition backpressure_step ::
  "int \<Rightarrow> string \<Rightarrow> json_obj \<Rightarrow> job_input \<Rightarrow> queue_db \<Rightarrow> (minion_job \<times> coalesce_audit) option" where
  "backpressure_step now name data opts s =
     (let queue = (case o_queue opts of None \<Rightarrow> ''default'' | Some q \<Rightarrow> q);
          src = submit_source data;
          pend = (case o_maxPending opts of None \<Rightarrow> None
                  | Some n \<Rightarrow> pending_step now name queue src n s)
      in case pend of
          Some x \<Rightarrow> Some x
        | None \<Rightarrow> (case o_maxWaiting opts of None \<Rightarrow> None
                   | Some n \<Rightarrow> waiting_step name queue src n s))"

text \<open>2. The parent: it exists, the depth is allowed, it has room for a child.\<close>

definition live_children :: "int \<Rightarrow> minion_job list \<Rightarrow> int" where
  "live_children p js = int (length (filter (open_child_of p) js))"

definition parent_step :: "int \<Rightarrow> job_input \<Rightarrow> queue_db \<Rightarrow> submit_error + int" where
  "parent_step queueMaxDepth opts s =
     (case given_parent opts of
        None \<Rightarrow> Inr 0
      | Some p \<Rightarrow>
          (case find_job p (d_jobs s) of
             None \<Rightarrow> Inl (ParentNotFound p)
           | Some parent \<Rightarrow>
               let depth = j_depth parent + 1;
                   maxSpawnDepth = (case o_max_spawn_depth opts of None \<Rightarrow> queueMaxDepth | Some n \<Rightarrow> n)
               in if depth > maxSpawnDepth then Inl (SpawnDepthExceeded depth maxSpawnDepth)
                  else case j_max_children parent of
                      None \<Rightarrow> Inr depth
                    | Some m \<Rightarrow> (let live = live_children p (d_jobs s) in
                        if live \<ge> m then Inl (MaxChildrenExceeded p live m) else Inr depth)))"

text \<open>3. The row that is inserted: columns the statement leaves out take their schema defaults.\<close>

definition new_job_row ::
  "submit_env \<Rightarrow> string \<Rightarrow> json_obj \<Rightarrow> job_input \<Rightarrow> int \<Rightarrow> int \<Rightarrow> minion_job" where
  "new_job_row env jobName data opts depth i = \<lparr>
     j_id = i,
     j_name = jobName,
     j_queue = or_default ''default'' (o_queue opts),
     j_status = child_status opts,
     j_priority = or_default 0 (o_priority opts),
     j_data = data,
     j_max_attempts = or_default 3 (o_max_attempts opts),
     j_attempts_made = 0,
     j_attempts_started = 0,
     j_backoff_type = or_default BackoffExponential (o_backoff_type opts),
     j_backoff_delay = or_default 1000 (o_backoff_delay opts),
     j_backoff_jitter = or_default (1 / 5) (o_backoff_jitter opts),
     j_stalled_counter = 0,
     j_max_stalled = (case o_max_stalled opts of None \<Rightarrow> 5 | Some n \<Rightarrow> max 1 (min 100 n)),
     j_lock_token = None,
     j_lock_until = None,
     j_delay_until = (case o_delay opts of None \<Rightarrow> None
        | Some d \<Rightarrow> if d = 0 then None else Some ((e_js_now env + d) * 1000)),
     j_parent_job_id = o_parent_job_id opts,
     j_on_child_fail = or_default FailParent (o_on_child_fail opts),
     j_tokens_input = 0,
     j_tokens_output = 0,
     j_tokens_cache_read = 0,
     j_depth = depth,
     j_max_children = o_max_children opts,
     j_timeout_ms = (case o_timeout_ms opts of None \<Rightarrow> defaultTimeoutMsFor jobName | Some n \<Rightarrow> Some n),
     j_timeout_at = None,
     j_lock_duration_ms = (case o_lock_duration_ms opts of
        None \<Rightarrow> defaultLockDurationMsFor jobName | Some n \<Rightarrow> Some (clampLockDurationMs n)),
     j_remove_on_complete = or_default False (o_remove_on_complete opts),
     j_remove_on_fail = or_default False (o_remove_on_fail opts),
     j_idempotency_key = o_idempotency_key opts,
     j_private_queue_owner_job_id = o_private_queue_owner_job_id opts,
     j_private_queue_owner_token = o_private_queue_owner_token opts,
     j_private_queue_lease_until = (case o_private_queue_lease_ms opts of
        None \<Rightarrow> None | Some n \<Rightarrow> Some ((e_js_now env + max 1 n) * 1000)),
     j_quiet_hours = o_quiet_hours opts,
     j_stagger_key = o_stagger_key opts,
     j_result = None,
     j_progress = None,
     j_error_text = None,
     j_stacktrace = [],
     j_created_at = e_now env,
     j_started_at = None,
     j_finished_at = None,
     j_updated_at = e_now env\<rparr>"

text \<open>The foreign keys of the new row.\<close>

definition ref_ok :: "minion_job list \<Rightarrow> int option \<Rightarrow> bool" where
  "ref_ok js p = (case p of None \<Rightarrow> True | Some i \<Rightarrow> list_ex (\<lambda>r. j_id r = i) js)"

text \<open>4. The flip of the parent.\<close>

definition flip_parent :: "int \<Rightarrow> int option \<Rightarrow> queue_db \<Rightarrow> queue_db" where
  "flip_parent now p s =
     (case p of
        None \<Rightarrow> s
      | Some i \<Rightarrow> s\<lparr>d_jobs :=
          upd_where (\<lambda>r. j_id r = i \<and> j_status r \<in> {Waiting, Active, Delayed})
            (\<lambda>r. r\<lparr>j_status := WaitingChildren, j_updated_at := now\<rparr>) (d_jobs s)\<rparr>)"

text \<open>
  The INSERT with its CHECKs, unique index and foreign keys. With a key, a conflicting row is
  fetched and returned as coalesced; the empty key is stored but takes the plain INSERT, which
  fails on the second row. The result is the job and the \<open>coalesced\<close> mark.
\<close>

definition insert_job ::
  "submit_env \<Rightarrow> string \<Rightarrow> json_obj \<Rightarrow> job_input \<Rightarrow> int \<Rightarrow> queue_db \<Rightarrow>
     submit_error + (minion_job \<times> bool) \<times> queue_db" where
  "insert_job env jobName data opts depth s =
     (let row = new_job_row env jobName data opts depth (d_next_job_id s);
          clash = find (\<lambda>r. j_idempotency_key r = o_idempotency_key opts) (d_jobs s)
      in if \<not> row_check row then Inl CheckViolation
         else if o_idempotency_key opts \<noteq> None \<and> clash \<noteq> None then
           (if given_key opts = None then Inl UniqueViolation
            else Inr ((rowToMinionJob (the clash), True), s))
         else if \<not> (ref_ok (d_jobs s) (j_parent_job_id row) \<and>
                    ref_ok (d_jobs s) (j_private_queue_owner_job_id row))
         then Inl ForeignKeyViolation
         else Inr ((rowToMinionJob row, False),
                   flip_parent (e_now env) (given_parent opts)
                     (s\<lparr>d_jobs := d_jobs s @ [row], d_next_job_id := d_next_job_id s + 1\<rparr>)))"

section \<open>The submission\<close>

type_synonym add_result = "(minion_job \<times> bool) \<times> coalesce_audit option"

definition add_transaction ::
  "submit_env \<Rightarrow> admission_policy \<Rightarrow> string \<Rightarrow> json_obj \<Rightarrow> job_input \<Rightarrow> queue_db \<Rightarrow>
     submit_error + add_result \<times> queue_db" where
  "add_transaction env policy jobName data0 opts s =
     (let active = coalesce_active policy data0 opts;
          hash = submission_hash (e_sha256 env) data0 opts;
          data = (if active then obj_put ''__param_hash'' (JStr hash) data0 else data0);
          queue = or_default ''default'' (o_queue opts)
      in case idempotency_step (given_key opts) s of
          (Some r, s') \<Rightarrow> Inr (((r, True), None), s')
        | (None, s') \<Rightarrow>
            (case (if active
                   then coalesce_step (e_now env) (ttlWaitingHours policy) jobName queue hash s'
                   else None) of
               Some r \<Rightarrow> Inr (((rowToMinionJob r, True),
                             Some (AuditParamHash queue jobName (j_id r) hash)), s')
             | None \<Rightarrow>
                 (case quota_step jobName (quotaMaxWaiting policy) s' of
                    Some e \<Rightarrow> Inl e
                  | None \<Rightarrow>
                      (case backpressure_step (e_now env) jobName data opts s' of
                         Some (r, audit) \<Rightarrow> Inr (((r, True), Some audit), s')
                       | None \<Rightarrow>
                           (case parent_step (e_maxSpawnDepth env) opts s' of
                              Inl e \<Rightarrow> Inl e
                            | Inr depth \<Rightarrow>
                                (case insert_job env jobName data opts depth s' of
                                   Inl e \<Rightarrow> Inl e
                                 | Inr (r, s'') \<Rightarrow> Inr ((r, None), s'')))))))"

definition add_job ::
  "submit_env \<Rightarrow> admission_policy \<Rightarrow> string \<Rightarrow> json_obj \<Rightarrow> job_input \<Rightarrow> trusted_opts \<Rightarrow> queue_db \<Rightarrow>
     submit_error + add_result \<times> queue_db" where
  "add_job env policy name data opts trusted s =
     (case add_gates env trusted name data of
        Inl e \<Rightarrow> Inl e
      | Inr jobName \<Rightarrow>
          (case ensureSchema (d_config s) of
             Some e \<Rightarrow> Inl e
           | None \<Rightarrow> add_transaction env policy jobName data opts s))"

end
