(* ===== verification/QueueRun.thy ===== *)
theory QueueRun
  imports QueueSubmit
begin

text \<open>
  The life of a claimed job (\<open>src/core/minions/queue.ts\<close>): claim, lock renewal, progress and
  token updates, completion, failure, the lease-full release, and the inbox. Each operation is
  one transaction; \<open>now\<close> is its database clock. \<open>busy\<close> is the set of row ids that concurrent
  transactions hold locked, which \<open>FOR UPDATE SKIP LOCKED\<close> passes over. The sum of an integer
  column stays within \<open>int4\<close>.
\<close>

definition ms :: "int \<Rightarrow> int" where
  "ms n = n * 1000"

section \<open>Claim\<close>

definition claimable :: "string \<Rightarrow> string list \<Rightarrow> int set \<Rightarrow> minion_job \<Rightarrow> bool" where
  "claimable queue names busy r =
     (j_queue r = queue \<and> j_status r = Waiting \<and> j_name r \<in> set names \<and> j_id r \<notin> busy)"

text \<open>The lease: row, else handler map, clamped to [5 s, 1 h]; else the worker's own.\<close>

definition claim_lease :: "minion_job \<Rightarrow> int option" where
  "claim_lease r =
     map_option (\<lambda>n. min (max n 5000) 3600000)
       (coalesce (j_lock_duration_ms r) (defaultLockDurationMsFor (j_name r)))"

definition claim_timeout :: "minion_job \<Rightarrow> int option" where
  "claim_timeout r = coalesce (j_timeout_ms r) (defaultTimeoutMsFor (j_name r))"

definition claim_row :: "string \<Rightarrow> int \<Rightarrow> int \<Rightarrow> minion_job \<Rightarrow> minion_job" where
  "claim_row lockToken lockDurationMs now r = r\<lparr>
     j_status := Active,
     j_lock_token := Some lockToken,
     j_lock_until := Some (now + ms (case claim_lease r of None \<Rightarrow> lockDurationMs | Some n \<Rightarrow> n)),
     j_lock_duration_ms := claim_lease r,
     j_timeout_ms := claim_timeout r,
     j_timeout_at := map_option (\<lambda>n. now + ms n) (claim_timeout r),
     j_attempts_started := j_attempts_started r + 1,
     j_started_at := coalesce (j_started_at r) (Some now),
     j_updated_at := now\<rparr>"

definition claim ::
  "string \<Rightarrow> int \<Rightarrow> string \<Rightarrow> string list \<Rightarrow> int \<Rightarrow> int set \<Rightarrow> queue_db \<Rightarrow>
     minion_job option \<times> queue_db" where
  "claim lockToken lockDurationMs queue registeredNames now busy s =
     (if registeredNames = [] then (None, s)
      else case min_row (\<lambda>r. (j_priority r, j_created_at r))
                  (filter (claimable queue registeredNames busy) (d_jobs s)) of
          None \<Rightarrow> (None, s)
        | Some r \<Rightarrow>
            (Some (rowToMinionJob (claim_row lockToken lockDurationMs now r)),
             s\<lparr>d_jobs := upd_where (\<lambda>x. j_id x = j_id r)
                 (claim_row lockToken lockDurationMs now) (d_jobs s)\<rparr>))"

section \<open>Token-fenced updates\<close>

text \<open>\<open>WHERE id = $1 AND status = 'active' AND lock_token = $2\<close>.\<close>

definition holds :: "int \<Rightarrow> string \<Rightarrow> minion_job \<Rightarrow> bool" where
  "holds i token r = (j_id r = i \<and> j_status r = Active \<and> j_lock_token r = Some token)"

definition fenced_update ::
  "int \<Rightarrow> string \<Rightarrow> (minion_job \<Rightarrow> minion_job) \<Rightarrow> queue_db \<Rightarrow> minion_job list \<times> queue_db" where
  "fenced_update i token f s =
     (returning (holds i token) f (d_jobs s),
      s\<lparr>d_jobs := upd_where (holds i token) f (d_jobs s)\<rparr>)"

definition renewLock :: "int \<Rightarrow> string \<Rightarrow> int \<Rightarrow> int \<Rightarrow> queue_db \<Rightarrow> bool \<times> queue_db" where
  "renewLock i lockToken lockDurationMs now s =
     (case fenced_update i lockToken
        (\<lambda>r. r\<lparr>j_lock_until := Some (now + ms lockDurationMs), j_updated_at := now\<rparr>) s of
        (rows, s') \<Rightarrow> (rows \<noteq> [], s'))"

definition updateProgress :: "int \<Rightarrow> string \<Rightarrow> json \<Rightarrow> int \<Rightarrow> queue_db \<Rightarrow> bool \<times> queue_db" where
  "updateProgress i lockToken progress now s =
     (case fenced_update i lockToken
        (\<lambda>r. r\<lparr>j_progress := (if progress = JNull then None else Some progress), j_updated_at := now\<rparr>) s of
        (rows, s') \<Rightarrow> (rows \<noteq> [], s'))"

definition add_tokens :: "int \<Rightarrow> int \<Rightarrow> int \<Rightarrow> int \<Rightarrow> minion_job \<Rightarrow> minion_job" where
  "add_tokens inp outp cache now r = r\<lparr>
     j_tokens_input := j_tokens_input r + inp,
     j_tokens_output := j_tokens_output r + outp,
     j_tokens_cache_read := j_tokens_cache_read r + cache,
     j_updated_at := now\<rparr>"

definition updateTokens ::
  "int \<Rightarrow> string \<Rightarrow> int option \<Rightarrow> int option \<Rightarrow> int option \<Rightarrow> int \<Rightarrow> queue_db \<Rightarrow> bool \<times> queue_db" where
  "updateTokens i lockToken inp outp cache now s =
     (case fenced_update i lockToken
        (add_tokens (or_default 0 inp) (or_default 0 outp) (or_default 0 cache) now) s of
        (rows, s') \<Rightarrow> (rows \<noteq> [], s'))"

section \<open>Completion\<close>

definition complete_row :: "json option \<Rightarrow> int \<Rightarrow> minion_job \<Rightarrow> minion_job" where
  "complete_row result now r = r\<lparr>j_status := Completed, j_result := result,
     j_finished_at := Some now, j_lock_token := None, j_lock_until := None, j_updated_at := now\<rparr>"

text \<open>\<open>if (completed.parent_job_id)\<close>.\<close>

definition parent_of :: "minion_job \<Rightarrow> int option" where
  "parent_of r = (case j_parent_job_id r of None \<Rightarrow> None | Some p \<Rightarrow> if p = 0 then None else Some p)"

definition roll_up_tokens :: "minion_job \<Rightarrow> int \<Rightarrow> int \<Rightarrow> queue_db \<Rightarrow> queue_db" where
  "roll_up_tokens c p now s =
     (if j_tokens_input c > 0 \<or> j_tokens_output c > 0 \<or> j_tokens_cache_read c > 0
      then s\<lparr>d_jobs := upd_where (\<lambda>r. j_id r = p \<and> \<not> terminal r)
             (add_tokens (j_tokens_input c) (j_tokens_output c) (j_tokens_cache_read c) now)
             (d_jobs s)\<rparr>
      else s)"

definition complete_parent :: "json option \<Rightarrow> int \<Rightarrow> minion_job \<Rightarrow> queue_db \<Rightarrow> queue_db" where
  "complete_parent result now c s =
     (case parent_of c of
        None \<Rightarrow> s
      | Some p \<Rightarrow>
          unblock_parent now p
            (post_to_open_parent now p
               (child_done (j_id c) (j_name c) (or_default JNull result) OComplete None)
               (roll_up_tokens c p now s)))"

definition completeJob ::
  "int \<Rightarrow> string \<Rightarrow> json option \<Rightarrow> int \<Rightarrow> queue_db \<Rightarrow> minion_job option \<times> queue_db" where
  "completeJob i lockToken result now s =
     (case fenced_update i lockToken (complete_row result now) s of
        ([], _) \<Rightarrow> (None, s)
      | (row # _, s1) \<Rightarrow>
          let completed = rowToMinionJob row;
              s2 = complete_parent result now completed s1
          in (Some completed,
              if j_remove_on_complete completed then delete_jobs (\<lambda>r. j_id r = j_id completed) s2
              else s2))"

section \<open>Failure\<close>

datatype fail_status = ToDelayed | ToFailed | ToDead

fun fail_job_status :: "fail_status \<Rightarrow> job_status" where
  "fail_job_status ToDelayed = Delayed"
| "fail_job_status ToFailed = Failed"
| "fail_job_status ToDead = Dead"

text \<open>A \<open>double precision\<close> number of milliseconds as an interval: rounded to microseconds.\<close>

definition frac_ms :: "rat \<Rightarrow> int" where
  "frac_ms x = round (x * 1000)"

lemma frac_ms_of_int [simp]: "frac_ms (of_int n) = ms n"
proof -
  have "rat_of_int n * 1000 = of_int (n * 1000)" by simp
  then show ?thesis unfolding frac_ms_def ms_def by (simp only: round_of_int)
qed

definition fail_row :: "string \<Rightarrow> fail_status \<Rightarrow> rat \<Rightarrow> int \<Rightarrow> minion_job \<Rightarrow> minion_job" where
  "fail_row errorText newStatus backoffMs now r = r\<lparr>
     j_status := fail_job_status newStatus,
     j_error_text := Some errorText,
     j_attempts_made := j_attempts_made r + 1,
     j_stacktrace := j_stacktrace r @ [errorText],
     j_delay_until := (if newStatus = ToDelayed then Some (now + frac_ms backoffMs) else None),
     j_finished_at := (if newStatus = ToDelayed then None else Some now),
     j_started_at := (if newStatus = ToDelayed then None else j_started_at r),
     j_lock_token := None, j_lock_until := None, j_updated_at := now\<rparr>"

definition child_failed_text :: "int \<Rightarrow> string \<Rightarrow> string" where
  "child_failed_text childId errorText =
     ''child job '' @ int_str childId @ '' failed: '' @ errorText"

definition fail_parent_row :: "string \<Rightarrow> int \<Rightarrow> minion_job \<Rightarrow> minion_job" where
  "fail_parent_row text now r = r\<lparr>j_status := Failed, j_error_text := Some text,
     j_finished_at := Some now, j_updated_at := now\<rparr>"

definition fail_waiting_parent :: "int \<Rightarrow> string \<Rightarrow> int \<Rightarrow> queue_db \<Rightarrow> queue_db" where
  "fail_waiting_parent p text now s = s\<lparr>d_jobs :=
     upd_where (\<lambda>r. j_id r = p \<and> j_status r = WaitingChildren) (fail_parent_row text now) (d_jobs s)\<rparr>"

definition drop_parent :: "int \<Rightarrow> int \<Rightarrow> queue_db \<Rightarrow> queue_db" where
  "drop_parent i now s = s\<lparr>d_jobs :=
     upd_where (\<lambda>r. j_id r = i) (\<lambda>r. r\<lparr>j_parent_job_id := None, j_updated_at := now\<rparr>) (d_jobs s)\<rparr>"

definition fail_parent_hook :: "string \<Rightarrow> fail_status \<Rightarrow> int \<Rightarrow> minion_job \<Rightarrow> queue_db \<Rightarrow> queue_db" where
  "fail_parent_hook errorText newStatus now c s =
     (case parent_of c of
        None \<Rightarrow> s
      | Some p \<Rightarrow>
          let s1 = post_to_open_parent now p
                (child_done (j_id c) (j_name c) JNull
                   (if newStatus = ToDead then ODead else OFailed) (Some errorText)) s
          in (case j_on_child_fail c of
                FailParent \<Rightarrow> fail_waiting_parent p (child_failed_text (j_id c) errorText) now s1
              | RemoveDep \<Rightarrow> unblock_parent now p (drop_parent (j_id c) now s1)
              | Ignore \<Rightarrow> unblock_parent now p s1
              | Continue \<Rightarrow> unblock_parent now p s1))"

definition failJob ::
  "int \<Rightarrow> string \<Rightarrow> string \<Rightarrow> fail_status \<Rightarrow> rat option \<Rightarrow> int \<Rightarrow> queue_db \<Rightarrow>
     minion_job option \<times> queue_db" where
  "failJob i lockToken errorText newStatus backoffMs now s =
     (case fenced_update i lockToken (fail_row errorText newStatus (or_default 0 backoffMs) now) s of
        ([], _) \<Rightarrow> (None, s)
      | (row # _, s1) \<Rightarrow>
          let failed = rowToMinionJob row;
              is_terminal = (newStatus \<noteq> ToDelayed);
              s2 = (if is_terminal then fail_parent_hook errorText newStatus now failed s1 else s1)
          in (Some failed,
              if is_terminal \<and> j_remove_on_fail failed
              then delete_jobs (\<lambda>r. j_id r = j_id failed) s2 else s2))"

text \<open>The lease-full bounce: back to \<open>delayed\<close>, no attempt spent.\<close>

definition release_row :: "string \<Rightarrow> int \<Rightarrow> int \<Rightarrow> minion_job \<Rightarrow> minion_job" where
  "release_row errorText backoffMs now r = r\<lparr>
     j_status := Delayed,
     j_error_text := Some errorText,
     j_stacktrace := j_stacktrace r @ [errorText],
     j_delay_until := Some (now + ms backoffMs),
     j_started_at := None,
     j_lock_token := None, j_lock_until := None, j_updated_at := now\<rparr>"

definition releaseLeaseFullJob ::
  "int \<Rightarrow> string \<Rightarrow> string \<Rightarrow> int \<Rightarrow> int \<Rightarrow> queue_db \<Rightarrow> minion_job option \<times> queue_db" where
  "releaseLeaseFullJob i lockToken errorText backoffMs now s =
     (case fenced_update i lockToken (release_row errorText backoffMs now) s of
        ([], _) \<Rightarrow> (None, s)
      | (row # _, s1) \<Rightarrow> (Some (rowToMinionJob row), s1))"

section \<open>The inbox\<close>

definition sendMessage ::
  "int \<Rightarrow> json \<Rightarrow> string \<Rightarrow> int \<Rightarrow> queue_db \<Rightarrow> inbox_message option \<times> queue_db" where
  "sendMessage jobId payload sender now s =
     (case find_job jobId (d_jobs s) of
        None \<Rightarrow> (None, s)
      | Some job \<Rightarrow>
          if terminal job then (None, s)
          else if sender \<noteq> ''admin'' \<and>
                  sender \<noteq> (case j_parent_job_id job of None \<Rightarrow> ''null'' | Some p \<Rightarrow> int_str p)
          then (None, s)
          else let s' = insert_inbox now jobId sender payload s
               in (Some (last (d_inbox s')), s'))"

definition lock_held :: "int \<Rightarrow> string \<Rightarrow> queue_db \<Rightarrow> bool" where
  "lock_held i token s = list_ex (holds i token) (d_jobs s)"

definition unread :: "int \<Rightarrow> inbox_message \<Rightarrow> bool" where
  "unread jobId m = (m_job_id m = jobId \<and> m_read_at m = None)"

definition readInbox :: "int \<Rightarrow> string \<Rightarrow> int \<Rightarrow> queue_db \<Rightarrow> inbox_message list \<times> queue_db" where
  "readInbox jobId lockToken now s =
     (if \<not> lock_held jobId lockToken s then ([], s)
      else (returning (unread jobId) (\<lambda>m. m\<lparr>m_read_at := Some now\<rparr>) (d_inbox s),
            s\<lparr>d_inbox := upd_where (unread jobId) (\<lambda>m. m\<lparr>m_read_at := Some now\<rparr>) (d_inbox s)\<rparr>))"

definition readChildCompletions :: "int \<Rightarrow> string \<Rightarrow> int option \<Rightarrow> queue_db \<Rightarrow> json list" where
  "readChildCompletions parentId lockToken since s =
     (if \<not> lock_held parentId lockToken s then []
      else map m_payload
        (sort_key m_sent_at
          (filter (\<lambda>m. m_job_id m = parentId \<and>
                       json_field_text (m_payload m) ''type'' = Some ''child_done'' \<and>
                       (case since of None \<Rightarrow> True | Some t \<Rightarrow> m_sent_at m > t)) (d_inbox s))))"

end
