(* ===== verification/QueueSweep.thy ===== *)
theory QueueSweep
  imports QueueRun
begin

text \<open>
  The maintenance sweeps of \<open>src/core/minions/queue.ts\<close>: promotion of delayed jobs, the timeout
  and wall-clock reapers, the stall sweep, and the waiting-TTL and cancellation machinery they
  share. \<open>lockParentsOrdered\<close> takes row locks only and changes no row, so it has no counterpart
  here; a sweep is one atomic step, with \<open>busy\<close> the rows its \<open>SKIP LOCKED\<close> passes over.
\<close>

section \<open>Promotion\<close>

definition promotable :: "int \<Rightarrow> minion_job \<Rightarrow> bool" where
  "promotable now r = (j_status r = Delayed \<and> sql_le (j_delay_until r) now)"

definition promote_row :: "int \<Rightarrow> minion_job \<Rightarrow> minion_job" where
  "promote_row now r = r\<lparr>j_status := Waiting, j_delay_until := None, j_started_at := None,
     j_lock_token := None, j_lock_until := None, j_updated_at := now\<rparr>"

definition promoteDelayed :: "int \<Rightarrow> queue_db \<Rightarrow> minion_job list \<times> queue_db" where
  "promoteDelayed now s =
     (map rowToMinionJob (returning (promotable now) (promote_row now) (d_jobs s)),
      s\<lparr>d_jobs := upd_where (promotable now) (promote_row now) (d_jobs s)\<rparr>)"

section \<open>The shared kill tail\<close>

text \<open>Messages first, then the parents in ascending id order (\<open>JsSet\<close>, then sorted).\<close>

definition notify_parent :: "int \<Rightarrow> child_outcome \<Rightarrow> string \<Rightarrow> minion_job \<Rightarrow> queue_db \<Rightarrow> queue_db" where
  "notify_parent now outcome errorText r s =
     (case j_parent_job_id r of
        None \<Rightarrow> s
      | Some p \<Rightarrow> post_to_open_parent now p
          (child_done (j_id r) (j_name r) JNull outcome (Some errorText)) s)"

definition parents_of :: "minion_job list \<Rightarrow> int list" where
  "parents_of rows = nub (List.map_filter j_parent_job_id rows)"

definition killJobs ::
  "int \<Rightarrow> minion_job list \<Rightarrow> child_outcome \<Rightarrow> string \<Rightarrow> queue_db \<Rightarrow> queue_db" where
  "killJobs now rows outcome errorText s =
     fold (unblock_parent now) (sort (parents_of rows))
       (fold (notify_parent now outcome errorText) rows s)"

definition kill_row :: "string \<Rightarrow> int \<Rightarrow> minion_job \<Rightarrow> minion_job" where
  "kill_row errorText now r = r\<lparr>j_status := Dead, j_error_text := Some errorText,
     j_attempts_made := j_attempts_made r + 1, j_lock_token := None, j_lock_until := None,
     j_finished_at := Some now, j_updated_at := now\<rparr>"

section \<open>Per-job timeouts\<close>

definition timed_out :: "int \<Rightarrow> int set \<Rightarrow> minion_job \<Rightarrow> bool" where
  "timed_out now busy r =
     (j_status r = Active \<and> sql_lt (j_timeout_at r) now \<and> sql_gt (j_lock_until r) now \<and>
      j_id r \<notin> busy)"

definition handleTimeouts :: "int \<Rightarrow> int set \<Rightarrow> queue_db \<Rightarrow> minion_job list \<times> queue_db" where
  "handleTimeouts now busy s =
     (let kill = kill_row ''timeout exceeded'' now;
          rows = returning (timed_out now busy) kill (d_jobs s)
      in (map rowToMinionJob rows,
          killJobs now rows OTimeout ''timeout exceeded''
            (s\<lparr>d_jobs := upd_where (timed_out now busy) kill (d_jobs s)\<rparr>)))"

section \<open>Wall-clock timeouts\<close>

text \<open>
  \<open>timeout_ms * 2\<close> is \<open>int4\<close> arithmetic: out of range it raises, and the statement fails. The
  other branch is \<open>double precision\<close>.
\<close>

definition int4_ok :: "int \<Rightarrow> bool" where
  "int4_ok n = (- 2147483648 \<le> n \<and> n \<le> 2147483647)"

definition wall_threshold_ms :: "int \<Rightarrow> minion_job \<Rightarrow> int option" where
  "wall_threshold_ms lockDurationMs r =
     (case j_timeout_ms r of
        Some t \<Rightarrow> if int4_ok (t * 2) then Some (t * 2) else None
      | None \<Rightarrow> Some (or_default lockDurationMs (j_lock_duration_ms r) * 2 * max (j_max_stalled r) 1))"

definition running :: "minion_job \<Rightarrow> bool" where
  "running r = (j_status r = Active \<and> j_started_at r \<noteq> None)"

definition over_wall_clock :: "int \<Rightarrow> int \<Rightarrow> int set \<Rightarrow> minion_job \<Rightarrow> bool" where
  "over_wall_clock lockDurationMs now busy r =
     (running r \<and> j_id r \<notin> busy \<and>
      (case wall_threshold_ms lockDurationMs r of
         None \<Rightarrow> False
       | Some t \<Rightarrow> now - the (j_started_at r) > ms t))"

datatype sql_error = IntegerOutOfRange

definition handleWallClockTimeouts ::
  "int \<Rightarrow> int \<Rightarrow> int set \<Rightarrow> queue_db \<Rightarrow> sql_error + minion_job list \<times> queue_db" where
  "handleWallClockTimeouts lockDurationMs now busy s =
     (if list_ex (\<lambda>r. running r \<and> wall_threshold_ms lockDurationMs r = None) (d_jobs s)
      then Inl IntegerOutOfRange
      else let kill = kill_row ''wall-clock timeout exceeded'' now;
               P = over_wall_clock lockDurationMs now busy;
               rows = returning P kill (d_jobs s)
           in Inr (map rowToMinionJob rows,
                   killJobs now rows OTimeout ''wall-clock timeout exceeded''
                     (s\<lparr>d_jobs := upd_where P kill (d_jobs s)\<rparr>)))"

section \<open>The stall sweep\<close>

text \<open>\<open>raw\<close> is the environment variable; at most ten minutes, zero allowed.\<close>

definition resolveStallReclaimGraceMs :: "string option \<Rightarrow> int" where
  "resolveStallReclaimGraceMs raw =
     (case raw of
        None \<Rightarrow> 15000
      | Some v \<Rightarrow>
          let t = js_trim v in
          if t = [] then 15000
          else if \<not> list_all js_digit t then 15000
          else if dec_val t > 600000 then 600000 else dec_val t)"

definition stalled :: "int \<Rightarrow> int \<Rightarrow> int set \<Rightarrow> minion_job \<Rightarrow> bool" where
  "stalled graceMs now busy r =
     (j_status r = Active \<and> sql_lt (j_lock_until r) (now - ms graceMs) \<and> j_id r \<notin> busy)"

definition stall_requeue :: "int \<Rightarrow> int \<Rightarrow> int set \<Rightarrow> minion_job \<Rightarrow> bool" where
  "stall_requeue graceMs now busy r =
     (stalled graceMs now busy r \<and> j_stalled_counter r + 1 < j_max_stalled r)"

definition stall_dead :: "int \<Rightarrow> int \<Rightarrow> int set \<Rightarrow> minion_job \<Rightarrow> bool" where
  "stall_dead graceMs now busy r =
     (stalled graceMs now busy r \<and> j_stalled_counter r + 1 \<ge> j_max_stalled r)"

definition requeue_row :: "int \<Rightarrow> minion_job \<Rightarrow> minion_job" where
  "requeue_row now r = r\<lparr>j_status := Waiting, j_stalled_counter := j_stalled_counter r + 1,
     j_started_at := None, j_lock_token := None, j_lock_until := None, j_updated_at := now\<rparr>"

definition stall_kill_row :: "int \<Rightarrow> minion_job \<Rightarrow> minion_job" where
  "stall_kill_row now r = (kill_row ''max stalled count exceeded'' now r)
     \<lparr>j_stalled_counter := j_stalled_counter r + 1\<rparr>"

text \<open>The idempotent sweep that follows: every parent without an open child is unblocked.\<close>

definition unblock_all :: "int \<Rightarrow> queue_db \<Rightarrow> queue_db" where
  "unblock_all now s = s\<lparr>d_jobs := upd_where (unblockable (d_jobs s)) (unblock_row now) (d_jobs s)\<rparr>"

definition handleStalled ::
  "int \<Rightarrow> int \<Rightarrow> int set \<Rightarrow> queue_db \<Rightarrow> (minion_job list \<times> minion_job list) \<times> queue_db" where
  "handleStalled graceMs now busy s =
     (let requeue = stall_requeue graceMs now busy;
          dead = stall_dead graceMs now busy;
          requeued = returning requeue (requeue_row now) (d_jobs s);
          js1 = upd_where requeue (requeue_row now) (d_jobs s);
          deadRows = returning dead (stall_kill_row now) js1;
          js2 = upd_where dead (stall_kill_row now) js1
      in ((map rowToMinionJob requeued, map rowToMinionJob deadRows),
          unblock_all now
            (killJobs now deadRows ODead ''max stalled count exceeded'' (s\<lparr>d_jobs := js2\<rparr>))))"

section \<open>Cancellation\<close>

text \<open>
  The recursive query: the seed rows, then level by level their children, to depth 100. Only the
  set of ids matters.
\<close>

definition children_ids :: "minion_job list \<Rightarrow> int list \<Rightarrow> int list" where
  "children_ids js ids =
     map j_id (filter (\<lambda>r. \<exists>p \<in> set ids. j_parent_job_id r = Some p) js)"

fun descend :: "nat \<Rightarrow> minion_job list \<Rightarrow> int list \<Rightarrow> int list" where
  "descend 0 js ids = ids"
| "descend (Suc n) js ids = ids @ (if ids = [] then [] else descend n js (children_ids js ids))"

definition cancel_seed :: "int list \<Rightarrow> job_status list option \<Rightarrow> string option \<Rightarrow> minion_job \<Rightarrow> bool" where
  "cancel_seed ids rootStatuses ownerClientId r =
     (j_id r \<in> set ids \<and>
      (case rootStatuses of None \<Rightarrow> True | Some sts \<Rightarrow> j_status r \<in> set sts) \<and>
      (case ownerClientId of None \<Rightarrow> True
       | Some c \<Rightarrow> json_get_text (j_data r) ''__owner_client_id'' = Some c))"

definition cancel_set ::
  "int list \<Rightarrow> job_status list option \<Rightarrow> string option \<Rightarrow> minion_job list \<Rightarrow> int list" where
  "cancel_set ids rootStatuses ownerClientId js =
     descend 100 js (map j_id (filter (cancel_seed ids rootStatuses ownerClientId) js))"

definition cancel_row :: "int list \<Rightarrow> string option \<Rightarrow> int \<Rightarrow> minion_job \<Rightarrow> minion_job" where
  "cancel_row ids reason now r = r\<lparr>j_status := Cancelled, j_lock_token := None,
     j_lock_until := None,
     j_error_text := (if j_id r \<in> set ids then coalesce reason (j_error_text r) else j_error_text r),
     j_finished_at := Some now, j_updated_at := now\<rparr>"

definition cancelJobs ::
  "int list \<Rightarrow> string option \<Rightarrow> job_status list option \<Rightarrow> string option \<Rightarrow> int \<Rightarrow> queue_db \<Rightarrow>
     minion_job list \<times> queue_db" where
  "cancelJobs ids reason rootStatuses ownerClientId now s =
     (if ids = [] then ([], s)
      else let targets = cancel_set ids rootStatuses ownerClientId (d_jobs s);
               P = (\<lambda>r. j_id r \<in> set targets \<and> j_status r \<in> set non_terminal_statuses);
               rows = returning P (cancel_row ids reason now) (d_jobs s);
               s1 = s\<lparr>d_jobs := upd_where P (cancel_row ids reason now) (d_jobs s)\<rparr>
           in (map rowToMinionJob rows,
               fold (unblock_parent now) (parents_of rows)
                 (fold (notify_parent now OCancelled ''cancelled'') rows s1)))"

definition cancelJob ::
  "int \<Rightarrow> string option \<Rightarrow> int \<Rightarrow> queue_db \<Rightarrow> minion_job option \<times> queue_db" where
  "cancelJob i ownerClientId now s =
     (case cancelJobs [i] None None (or_null ownerClientId) now s of
        (cancelled, s') \<Rightarrow> (find (\<lambda>j. j_id j = i) cancelled, s'))"

section \<open>The waiting-TTL sweep\<close>

text \<open>\<open>reason_of name hours\<close> is the reason text (the number format of a double is left open).\<close>

definition ttl_stale :: "int \<Rightarrow> string \<Rightarrow> rat \<Rightarrow> int \<Rightarrow> minion_job list \<Rightarrow> int list" where
  "ttl_stale now name hours budget js =
     map j_id (take (nat budget) (sort_key j_updated_at (filter (ttl_expired now name hours) js)))"

fun ttl_loop ::
  "(string \<Rightarrow> rat \<Rightarrow> string) \<Rightarrow> int \<Rightarrow> int \<Rightarrow> (string \<times> rat) list \<Rightarrow>
     int \<times> (string \<times> int) list \<Rightarrow> queue_db \<Rightarrow> (int \<times> (string \<times> int) list) \<times> queue_db" where
  "ttl_loop reason_of maxPerTick now [] acc s = (acc, s)"
| "ttl_loop reason_of maxPerTick now ((name, hours) # names) (cancelled, by_name) s =
     (if cancelled \<ge> maxPerTick then ((cancelled, by_name), s)
      else let stale = ttl_stale now name hours (maxPerTick - cancelled) (d_jobs s) in
        if stale = [] then ttl_loop reason_of maxPerTick now names (cancelled, by_name) s
        else case cancelJobs stale (Some (reason_of name hours)) (Some [Waiting]) None now s of
            (swept, s') \<Rightarrow>
              let rootCount = int (length (filter (\<lambda>j. j_id j \<in> set stale) swept));
                  old = or_default 0 (map_of by_name name)
              in ttl_loop reason_of maxPerTick now names
                   (cancelled + rootCount, map_set name (old + rootCount) by_name) s')"

definition handleWaitingTTL ::
  "(string \<Rightarrow> rat \<Rightarrow> string) \<Rightarrow> int option \<Rightarrow> bool \<Rightarrow> config_engine \<Rightarrow> int \<Rightarrow> queue_db \<Rightarrow>
     (int \<times> (string \<times> int) list) \<times> queue_db" where
  "handleWaitingTTL reason_of maxPerTick killed engine now s =
     ttl_loop reason_of (max 1 (or_default 500 maxPerTick)) now (resolveTtlNames killed engine) (0, []) s"

end
