(* ===== verification/QueueAdmin.thy ===== *)
theory QueueAdmin
  imports QueueSweep
begin

text \<open>
  The operator side of \<open>src/core/minions/queue.ts\<close>: lookup and listing, removal and pruning,
  retry, pause and resume, replay, the two parent operations the worker used to call, the wedge
  signal, and attachments with their validation (\<open>attachments.ts\<close>).
\<close>

section \<open>Lookup\<close>

definition getJob :: "int \<Rightarrow> queue_db \<Rightarrow> minion_job option" where
  "getJob i s = map_option rowToMinionJob (find_job i (d_jobs s))"

record list_filter =
  f_status :: "job_status option"
  f_queue :: "string option"
  f_name :: "string option"
  f_ownerClientId :: "string option"
  f_limit :: "int option"
  f_offset :: "int option"

definition text_filter :: "string option \<Rightarrow> string option \<Rightarrow> bool" where
  "text_filter wanted actual = (case or_null wanted of None \<Rightarrow> True | Some v \<Rightarrow> actual = Some v)"

definition list_match :: "list_filter \<Rightarrow> minion_job \<Rightarrow> bool" where
  "list_match f r =
     ((case f_status f of None \<Rightarrow> True | Some st \<Rightarrow> j_status r = st) \<and>
      text_filter (f_queue f) (Some (j_queue r)) \<and>
      text_filter (f_name f) (Some (j_name r)) \<and>
      text_filter (f_ownerClientId f) (json_get_text (j_data r) ''__owner_client_id''))"

definition getJobs :: "list_filter \<Rightarrow> queue_db \<Rightarrow> minion_job list" where
  "getJobs f s =
     map rowToMinionJob
       (take (nat (or_default 50 (f_limit f)))
         (drop (nat (or_default 0 (f_offset f)))
           (sort_key (\<lambda>r. - j_created_at r) (filter (list_match f) (d_jobs s)))))"

section \<open>Removal\<close>

definition removeJob :: "int \<Rightarrow> queue_db \<Rightarrow> bool \<times> queue_db" where
  "removeJob i s =
     (let P = (\<lambda>r. j_id r = i \<and> terminal r) in
      (list_ex P (d_jobs s), delete_jobs P s))"

definition prunable :: "job_status list \<Rightarrow> int \<Rightarrow> minion_job \<Rightarrow> bool" where
  "prunable statuses olderThan r = (j_status r \<in> set statuses \<and> j_updated_at r < olderThan)"

text \<open>The defaults: \<open>completed\<close>, \<open>dead\<close> and \<open>cancelled\<close>, thirty days before \<open>Date.now()\<close>.\<close>

definition prune ::
  "int option \<Rightarrow> job_status list option \<Rightarrow> bool \<Rightarrow> int \<Rightarrow> queue_db \<Rightarrow> int \<times> queue_db" where
  "prune olderThan statuses dryRun js_now s =
     (let P = prunable (or_default [Completed, Dead, Cancelled] statuses)
                (or_default (ms (js_now - 30 * 86400000)) olderThan);
          n = int (length (filter P (d_jobs s)))
      in if dryRun then (n, s) else (n, delete_jobs P s))"

section \<open>State changes\<close>

text \<open>An UPDATE of one row by id and guard, and the row it returns.\<close>

definition update_one ::
  "(minion_job \<Rightarrow> bool) \<Rightarrow> (minion_job \<Rightarrow> minion_job) \<Rightarrow> queue_db \<Rightarrow> minion_job option \<times> queue_db" where
  "update_one P f s =
     ((case returning P f (d_jobs s) of [] \<Rightarrow> None | r # _ \<Rightarrow> Some (rowToMinionJob r)),
      s\<lparr>d_jobs := upd_where P f (d_jobs s)\<rparr>)"

definition retry_row :: "int \<Rightarrow> minion_job \<Rightarrow> minion_job" where
  "retry_row now r = r\<lparr>j_status := Waiting, j_error_text := None, j_lock_token := None,
     j_lock_until := None, j_delay_until := None, j_finished_at := None, j_started_at := None,
     j_attempts_made := 0, j_attempts_started := 0, j_stalled_counter := 0, j_updated_at := now\<rparr>"

definition retryJob :: "int \<Rightarrow> int \<Rightarrow> queue_db \<Rightarrow> minion_job option \<times> queue_db" where
  "retryJob i now s =
     update_one (\<lambda>r. j_id r = i \<and> j_status r \<in> {Failed, Dead}) (retry_row now) s"

definition pause_row :: "int \<Rightarrow> minion_job \<Rightarrow> minion_job" where
  "pause_row now r = r\<lparr>j_status := Paused, j_lock_token := None, j_lock_until := None,
     j_updated_at := now\<rparr>"

definition pauseJob :: "int \<Rightarrow> int \<Rightarrow> queue_db \<Rightarrow> minion_job option \<times> queue_db" where
  "pauseJob i now s =
     update_one (\<lambda>r. j_id r = i \<and> j_status r \<in> {Waiting, Active, Delayed}) (pause_row now) s"

definition resume_row :: "int \<Rightarrow> minion_job \<Rightarrow> minion_job" where
  "resume_row now r = r\<lparr>j_status := Waiting, j_lock_token := None, j_lock_until := None,
     j_updated_at := now\<rparr>"

definition resumeJob :: "int \<Rightarrow> int \<Rightarrow> queue_db \<Rightarrow> minion_job option \<times> queue_db" where
  "resumeJob i now s = update_one (\<lambda>r. j_id r = i \<and> j_status r = Paused) (resume_row now) s"

definition resolveParent :: "int \<Rightarrow> int \<Rightarrow> queue_db \<Rightarrow> minion_job option \<times> queue_db" where
  "resolveParent parentId now s =
     update_one (\<lambda>r. j_id r = parentId \<and> unblockable (d_jobs s) r) (unblock_row now) s"

definition failParent ::
  "int \<Rightarrow> int \<Rightarrow> string \<Rightarrow> int \<Rightarrow> queue_db \<Rightarrow> minion_job option \<times> queue_db" where
  "failParent parentId childId errorText now s =
     update_one (\<lambda>r. j_id r = parentId \<and> j_status r = WaitingChildren)
       (fail_parent_row (child_failed_text childId errorText) now) s"

definition removeChildDependency :: "int \<Rightarrow> int \<Rightarrow> queue_db \<Rightarrow> queue_db" where
  "removeChildDependency childId now s = drop_parent childId now s"

text \<open>\<open>replayJob\<close> submits a copy of a finished job; \<open>dataOverrides\<close> are spread over its data.\<close>

definition replay_opts :: "minion_job \<Rightarrow> job_input" where
  "replay_opts source = no_opts\<lparr>
     o_queue := Some (j_queue source),
     o_priority := Some (j_priority source),
     o_max_attempts := Some (j_max_attempts source),
     o_backoff_type := Some (j_backoff_type source),
     o_backoff_delay := Some (j_backoff_delay source),
     o_backoff_jitter := Some (j_backoff_jitter source)\<rparr>"

definition replayJob ::
  "submit_env \<Rightarrow> admission_policy \<Rightarrow> int \<Rightarrow> json_obj option \<Rightarrow> queue_db \<Rightarrow>
     submit_error + add_result option \<times> queue_db" where
  "replayJob env policy i dataOverrides s =
     (case getJob i s of
        None \<Rightarrow> Inr (None, s)
      | Some source \<Rightarrow>
          if j_status source \<notin> {Completed, Failed, Dead} then Inr (None, s)
          else let data = (case dataOverrides of None \<Rightarrow> j_data source
                           | Some o' \<Rightarrow> obj_spread (j_data source) o')
               in case add_job env policy (j_name source) data (replay_opts source)
                        \<lparr>t_allowProtectedSubmit = False, t_allowPgliteInlineWorker = False\<rparr> s of
                    Inl e \<Rightarrow> Inl e
                  | Inr (r, s') \<Rightarrow> Inr (Some r, s'))"

section \<open>The wedge signal\<close>

definition isDreamInlinePrivateQueue :: "string \<Rightarrow> bool" where
  "isDreamInlinePrivateQueue queueName = js_starts_with queueName ''dream-inline-''"

record wedge_stats =
  w_queue :: "string option"
  w_active_healthy :: int
  w_waiting :: int
  w_minutes_since_completion :: "int option"

text \<open>The result: wedged, threshold in minutes, private queue.\<close>

definition deriveWedgeSignal :: "string option \<Rightarrow> wedge_stats \<Rightarrow> bool \<times> int \<times> bool" where
  "deriveWedgeSignal env wedge =
     (let threshold = (case js_parse_int (or_default [] env) of
             None \<Rightarrow> 15 | Some raw \<Rightarrow> if raw > 0 then raw else 15);
          private_queue = (case w_queue wedge of None \<Rightarrow> False | Some q \<Rightarrow> isDreamInlinePrivateQueue q);
          wedged = (\<not> private_queue \<and> w_active_healthy wedge = 0 \<and> w_waiting wedge > 0 \<and>
            (case w_minutes_since_completion wedge of None \<Rightarrow> True | Some m \<Rightarrow> m > threshold))
      in (wedged, threshold, private_queue))"

section \<open>Attachment validation\<close>

definition b64_val :: "char \<Rightarrow> nat option" where
  "b64_val c = (let n = js_code c in
     if 65 \<le> n \<and> n \<le> 90 then Some (n - 65)
     else if 97 \<le> n \<and> n \<le> 122 then Some (n - 71)
     else if 48 \<le> n \<and> n \<le> 57 then Some (n + 4)
     else if n = 43 then Some 62 else if n = 47 then Some 63 else None)"

text \<open>\<open>/^[A-Za-z0-9+/]*={0,2}$/\<close>.\<close>

definition base64_re :: "string \<Rightarrow> bool" where
  "base64_re s = (let r = dropWhile (\<lambda>c. b64_val c \<noteq> None) s in r \<in> {[], ''='', ''==''})"

fun decode_sextets :: "nat list \<Rightarrow> nat list" where
  "decode_sextets (a # b # c # d # r) =
     (a * 4 + b div 16) # (b mod 16 * 16 + c div 4) # (c mod 4 * 64 + d) # decode_sextets r"
| "decode_sextets [a, b, c] = [a * 4 + b div 16, b mod 16 * 16 + c div 4]"
| "decode_sextets [a, b] = [a * 4 + b div 16]"
| "decode_sextets _ = []"

text \<open>\<open>Buffer.from(s, 'base64')\<close> on a text that passed the check above.\<close>

definition base64_decode :: "string \<Rightarrow> nat list" where
  "base64_decode s = decode_sextets (List.map_filter b64_val s)"

definition media_char :: "char \<Rightarrow> bool" where
  "media_char c = (let n = js_code c in
     js_digit c \<or> (65 \<le> n \<and> n \<le> 90) \<or> (97 \<le> n \<and> n \<le> 122) \<or>
     c \<in> set ''!#$&^_.+-'')"

text \<open>The parameters of \<open>CONTENT_TYPE_RE\<close>: \<open>(;\s*[..]+=[.."]+)*$\<close>; \<open>fuel\<close> is the text's length,
  since every round consumes its semicolon.\<close>

fun media_params :: "nat \<Rightarrow> string \<Rightarrow> bool" where
  "media_params n [] = True"
| "media_params 0 s = False"
| "media_params (Suc n) (c # t) =
     (if c \<noteq> CHR '';'' then False
      else let u = dropWhile js_space t;
               k = takeWhile media_char u; r = dropWhile media_char u
           in k \<noteq> [] \<and>
              (case r of
                 [] \<Rightarrow> False
               | e # v \<Rightarrow> e = CHR ''='' \<and>
                   takeWhile (\<lambda>x. media_char x \<or> x = CHR 0x22) v \<noteq> [] \<and>
                   media_params n (dropWhile (\<lambda>x. media_char x \<or> x = CHR 0x22) v)))"

definition content_type_re :: "string \<Rightarrow> bool" where
  "content_type_re s =
     (let k = takeWhile media_char s; r = dropWhile media_char s
      in k \<noteq> [] \<and>
         (case r of
            [] \<Rightarrow> False
          | e # v \<Rightarrow> e = CHR ''/'' \<and> takeWhile media_char v \<noteq> [] \<and>
              media_params (length v) (dropWhile media_char v)))"

fun has_dotdot :: "string \<Rightarrow> bool" where
  "has_dotdot (a # b # r) = ((a = CHR ''.'' \<and> b = CHR ''.'') \<or> has_dotdot (b # r))"
| "has_dotdot _ = False"

datatype attachment_error =
    FilenameRequired
  | FilenameInvalid string
  | ContentTypeMalformed
  | ContentEmpty
  | ContentInvalidChars
  | EmptyAfterDecode
  | AttachmentTooLarge int int
  | FilenameExists string

record attachment_input =
  i_filename :: string
  i_content_type :: string
  i_content_base64 :: string

record normalized_attachment =
  n_filename :: string
  n_content_type :: string
  n_bytes :: "nat list"
  n_size_bytes :: int
  n_sha256 :: string

definition validateAttachment ::
  "(nat list \<Rightarrow> string) \<Rightarrow> attachment_input \<Rightarrow> int \<Rightarrow> string list \<Rightarrow>
     attachment_error + normalized_attachment" where
  "validateAttachment sha256 input maxBytes existingFilenames =
     (let filename = i_filename input; bytes = base64_decode (i_content_base64 input) in
      if js_trim filename = [] then Inl FilenameRequired
      else if CHR ''/'' \<in> set filename \<or> CHR 0x5C \<in> set filename \<or> has_dotdot filename \<or>
              CHR 0x00 \<in> set filename
      then Inl (FilenameInvalid filename)
      else if \<not> content_type_re (i_content_type input) then Inl ContentTypeMalformed
      else if i_content_base64 input = [] then Inl ContentEmpty
      else if \<not> base64_re (i_content_base64 input) then Inl ContentInvalidChars
      else if bytes = [] then Inl EmptyAfterDecode
      else if int (length bytes) > maxBytes then Inl (AttachmentTooLarge (int (length bytes)) maxBytes)
      else if filename \<in> set existingFilenames then Inl (FilenameExists filename)
      else Inr \<lparr>n_filename = filename, n_content_type = i_content_type input, n_bytes = bytes,
                 n_size_bytes = int (length bytes), n_sha256 = sha256 bytes\<rparr>)"

section \<open>Attachments of a job\<close>

datatype add_attachment_error =
    AttachmentSchema submit_error
  | AttachmentJobMissing int
  | AttachmentInvalid attachment_error

definition addAttachment ::
  "(nat list \<Rightarrow> string) \<Rightarrow> int \<Rightarrow> int \<Rightarrow> attachment_input \<Rightarrow> int \<Rightarrow> queue_db \<Rightarrow>
     add_attachment_error + attachment \<times> queue_db" where
  "addAttachment sha256 maxAttachmentBytes jobId input now s =
     (case ensureSchema (d_config s) of
        Some e \<Rightarrow> Inl (AttachmentSchema e)
      | None \<Rightarrow>
          if find_job jobId (d_jobs s) = None then Inl (AttachmentJobMissing jobId)
          else case validateAttachment sha256 input maxAttachmentBytes
                 (map a_filename (filter (\<lambda>a. a_job_id a = jobId) (d_attachments s))) of
              Inl e \<Rightarrow> Inl (AttachmentInvalid e)
            | Inr n \<Rightarrow>
                let a = \<lparr>a_id = d_next_attachment_id s, a_job_id = jobId, a_filename = n_filename n,
                         a_content_type = n_content_type n, a_bytes = n_bytes n,
                         a_storage_uri = None, a_size_bytes = n_size_bytes n,
                         a_sha256 = n_sha256 n, a_created_at = now\<rparr>
                in Inr (a, s\<lparr>d_attachments := d_attachments s @ [a],
                             d_next_attachment_id := d_next_attachment_id s + 1\<rparr>))"

definition listAttachments :: "int \<Rightarrow> queue_db \<Rightarrow> attachment list" where
  "listAttachments jobId s =
     sort_key (\<lambda>a. (a_created_at a, a_id a)) (filter (\<lambda>a. a_job_id a = jobId) (d_attachments s))"

definition getAttachment :: "int \<Rightarrow> string \<Rightarrow> queue_db \<Rightarrow> (attachment \<times> nat list) option" where
  "getAttachment jobId filename s =
     map_option (\<lambda>a. (a, a_bytes a))
       (find (\<lambda>a. a_job_id a = jobId \<and> a_filename a = filename) (d_attachments s))"

definition deleteAttachment :: "int \<Rightarrow> string \<Rightarrow> queue_db \<Rightarrow> bool \<times> queue_db" where
  "deleteAttachment jobId filename s =
     (let P = (\<lambda>a. a_job_id a = jobId \<and> a_filename a = filename) in
      (list_ex P (d_attachments s), s\<lparr>d_attachments := filter (\<lambda>a. \<not> P a) (d_attachments s)\<rparr>))"

end
