(* ===== verification/QueuePrivate.thy ===== *)
theory QueuePrivate
  imports QueueAdmin
begin

text \<open>
  Private \<open>dream-inline-*\<close> queues (\<open>src/core/minions/queue.ts\<close>): the owner lease, its throttled
  renewal, reconciliation, and crash recovery of orphaned queues. Recovery reads the database in
  several statements; what other sessions commit between the first verdict and the second is the
  argument \<open>other\<close>, so its theorems hold for every interleaving at those points.
\<close>

section \<open>Leases and reconciliation\<close>

definition open_in_queue :: "string \<Rightarrow> minion_job \<Rightarrow> bool" where
  "open_in_queue q r = (j_queue r = q \<and> j_status r \<in> set non_terminal_statuses)"

datatype private_error = NotPrivateQueue string | EmptyOwnerToken

definition RECONCILE_PREFIX :: string where
  "RECONCILE_PREFIX = ''private_queue_reconciled''"

definition reconcile_reason :: "string \<Rightarrow> string" where
  "reconcile_reason reason =
     (if js_starts_with reason RECONCILE_PREFIX then reason
      else RECONCILE_PREFIX @ '': '' @ reason)"

definition reconcilePrivateQueue ::
  "string \<Rightarrow> string \<Rightarrow> int \<Rightarrow> queue_db \<Rightarrow> private_error + minion_job list \<times> queue_db" where
  "reconcilePrivateQueue queueName reason now s =
     (if \<not> isDreamInlinePrivateQueue queueName then Inl (NotPrivateQueue queueName)
      else let ids = sort (map j_id (filter (open_in_queue queueName) (d_jobs s))) in
        if ids = [] then Inr ([], s)
        else Inr (cancelJobs ids (Some (reconcile_reason reason)) (Some non_terminal_statuses)
                    None now s))"

definition lease_row :: "int \<Rightarrow> int \<Rightarrow> minion_job \<Rightarrow> minion_job" where
  "lease_row leaseMs now r = r\<lparr>
     j_private_queue_lease_until :=
       Some (max (or_default 0 (j_private_queue_lease_until r)) (now + ms (max 1 leaseMs))),
     j_updated_at := now\<rparr>"

definition owned_open :: "string \<Rightarrow> string \<Rightarrow> minion_job \<Rightarrow> bool" where
  "owned_open q token r = (open_in_queue q r \<and> j_private_queue_owner_token r = Some token)"

definition renewPrivateQueueLease ::
  "string \<Rightarrow> string \<Rightarrow> int option \<Rightarrow> int \<Rightarrow> queue_db \<Rightarrow> private_error + int \<times> queue_db" where
  "renewPrivateQueueLease queueName ownerToken leaseMs now s =
     (if \<not> isDreamInlinePrivateQueue queueName then Inl (NotPrivateQueue queueName)
      else if ownerToken = [] then Inl EmptyOwnerToken
      else let P = owned_open queueName ownerToken; f = lease_row (or_default 600000 leaseMs) now in
        Inr (int (length (returning P f (d_jobs s))), s\<lparr>d_jobs := upd_where P f (d_jobs s)\<rparr>))"

text \<open>
  The closure of \<open>makeThrottledLeaseRenewer\<close>: its variable \<open>lastRenewalAtMs\<close> is the state; the
  result is the new state and, when the throttle lets the call through, the renewal.
\<close>

definition throttled_renew ::
  "int \<Rightarrow> string \<Rightarrow> string \<Rightarrow> int \<Rightarrow> int \<Rightarrow> int \<Rightarrow> queue_db \<Rightarrow>
     int \<times> (private_error + int \<times> queue_db) option" where
  "throttled_renew throttleMs queueName ownerToken lastRenewalAtMs nowMs now s =
     (if nowMs - lastRenewalAtMs < throttleMs then (lastRenewalAtMs, None)
      else (nowMs, Some (renewPrivateQueueLease queueName ownerToken None now s)))"

section \<open>The recovery verdict\<close>

datatype queue_verdict = VOrphan | VLive | VUnowned | VNotOrphan

definition has_metadata :: "minion_job \<Rightarrow> bool" where
  "has_metadata r =
     (j_private_queue_owner_job_id r \<noteq> None \<or> j_private_queue_lease_until r \<noteq> None)"

text \<open>The distinct owners of a queue's open rows, each with its row where it exists.\<close>

definition queue_owner_ids :: "string \<Rightarrow> minion_job list \<Rightarrow> int list" where
  "queue_owner_ids q js =
     nub (List.map_filter j_private_queue_owner_job_id (filter (open_in_queue q) js))"

definition owner_rows :: "string \<Rightarrow> minion_job list \<Rightarrow> minion_job list" where
  "owner_rows q js = filter (\<lambda>r. j_id r \<in> set (queue_owner_ids q js)) js"

definition healthy :: "int \<Rightarrow> minion_job \<Rightarrow> bool" where
  "healthy now r = (j_status r = Active \<and> sql_gt (j_lock_until r) now)"

definition max_lease :: "minion_job list \<Rightarrow> int option" where
  "max_lease rows = (case List.map_filter j_private_queue_lease_until rows of
     [] \<Rightarrow> None | t # ts \<Rightarrow> Some (fold max ts t))"

definition classifyPrivateQueueForRecovery ::
  "string \<Rightarrow> int \<Rightarrow> int \<Rightarrow> queue_db \<Rightarrow> queue_verdict" where
  "classifyPrivateQueueForRecovery q now js_now s =
     (let rows = filter (open_in_queue q) (d_jobs s);
          owners = owner_rows q (d_jobs s)
      in if list_ex (healthy now) rows \<or> list_ex (healthy now) owners then VLive
         else if \<not> list_ex has_metadata rows then VUnowned
         else if list_ex (\<lambda>r. j_updated_at r > now - 120000000) rows then VLive
         else if queue_owner_ids q (d_jobs s) \<noteq> [] \<and>
                 \<not> list_ex (\<lambda>r. j_status r \<in> set non_terminal_statuses) owners then VOrphan
         else if list_ex (\<lambda>r. sql_gt (j_private_queue_lease_until r) now) rows then VLive
         else case max_lease rows of
             None \<Rightarrow> VNotOrphan
           | Some t \<Rightarrow> if t div 1000 \<le> js_now then VOrphan else VNotOrphan)"

section \<open>Recovery\<close>

text \<open>The scan: private queues with open rows and metadata, oldest first.\<close>

definition recoverable_row :: "minion_job \<Rightarrow> bool" where
  "recoverable_row r =
     (isDreamInlinePrivateQueue (j_queue r) \<and> j_status r \<in> set non_terminal_statuses)"

definition queue_age :: "minion_job list \<Rightarrow> string \<Rightarrow> int" where
  "queue_age rows q =
     (case map j_created_at (filter (\<lambda>r. j_queue r = q) rows) of [] \<Rightarrow> 0 | t # ts \<Rightarrow> fold min ts t)"

definition recovery_scan :: "int \<Rightarrow> minion_job list \<Rightarrow> string list" where
  "recovery_scan maxQueues js =
     (let rows = filter recoverable_row js;
          groups = filter (\<lambda>q. list_ex (\<lambda>r. j_queue r = q \<and> has_metadata r) rows)
                     (nub (map j_queue rows))
      in take (nat maxQueues) (sort_key (\<lambda>q. (queue_age rows q, q)) groups))"

record recovery_result =
  scanned_queues :: int
  cancelled_queues :: int
  cancelled_jobs :: int
  skipped_live_queues :: int
  skipped_unowned_queues :: int
  skipped_non_orphan_queues :: int

text \<open>One queue of the loop: verdict, other sessions, second verdict, cancellation.\<close>

definition recover_queue ::
  "string \<Rightarrow> int \<Rightarrow> int \<Rightarrow> (queue_db \<Rightarrow> queue_db) \<Rightarrow> string \<Rightarrow> recovery_result \<times> queue_db \<Rightarrow>
     recovery_result \<times> queue_db" where
  "recover_queue reason now js_now other q acc =
     (case acc of (res, s) \<Rightarrow>
       (case classifyPrivateQueueForRecovery q now js_now s of
          VLive \<Rightarrow> (res\<lparr>skipped_live_queues := skipped_live_queues res + 1\<rparr>, s)
        | VUnowned \<Rightarrow> (res\<lparr>skipped_unowned_queues := skipped_unowned_queues res + 1\<rparr>, s)
        | VNotOrphan \<Rightarrow> (res\<lparr>skipped_non_orphan_queues := skipped_non_orphan_queues res + 1\<rparr>, s)
        | VOrphan \<Rightarrow>
            let s1 = other s in
            if classifyPrivateQueueForRecovery q now js_now s1 \<noteq> VOrphan
            then (res\<lparr>skipped_non_orphan_queues := skipped_non_orphan_queues res + 1\<rparr>, s1)
            else case reconcilePrivateQueue q reason now s1 of
                Inl _ \<Rightarrow> (res, s1)
              | Inr (cancelled, s2) \<Rightarrow>
                  (if cancelled = [] then res
                   else res\<lparr>cancelled_queues := cancelled_queues res + 1,
                            cancelled_jobs := cancelled_jobs res + int (length cancelled)\<rparr>, s2)))"

definition reconcileOrphanedPrivateQueues ::
  "string option \<Rightarrow> int option \<Rightarrow> int \<Rightarrow> int \<Rightarrow> (string \<Rightarrow> queue_db \<Rightarrow> queue_db) \<Rightarrow> queue_db \<Rightarrow>
     recovery_result \<times> queue_db" where
  "reconcileOrphanedPrivateQueues reason maxQueues now js_now other s =
     (let queues = recovery_scan (max 1 (or_default 100 maxQueues)) (d_jobs s);
          text = or_default ''startup recovery: orphaned dream-inline private queue'' reason;
          res = \<lparr>scanned_queues = int (length queues), cancelled_queues = 0, cancelled_jobs = 0,
                 skipped_live_queues = 0, skipped_unowned_queues = 0,
                 skipped_non_orphan_queues = 0\<rparr>
      in fold (\<lambda>q. recover_queue text now js_now (other q) q) queues (res, s))"

end
