(* ===== verification/QueueInv.thy ===== *)
theory QueueInv
  imports QueuePrivate
begin

text \<open>
  The invariant of the queue database and its preservation. \<open>row_ok\<close> is the CHECK constraints
  plus what the state machine keeps between status and the other columns of a row; \<open>db_ok\<close> adds the
  table-level facts (serial ids, the parent reference with its depth, the unique idempotency
  key) and the references of the inbox and attachment rows. An UPDATE that keeps \<open>row_ok\<close> row by
  row and changes no key column keeps \<open>db_ok\<close> (\<open>ok_update\<close>), so an operation's proof is the row
  facts of its assignments.
\<close>

named_theorems row_defs \<open>the row assignments of the queue operations\<close>

lemmas [row_defs] = claim_row_def complete_row_def fail_row_def release_row_def add_tokens_def
  fail_parent_row_def promote_row_def kill_row_def requeue_row_def stall_kill_row_def
  cancel_row_def retry_row_def pause_row_def resume_row_def unblock_row_def lease_row_def

section \<open>The invariant\<close>

definition active_ok :: "minion_job \<Rightarrow> bool" where
  "active_ok r = (j_status r = Active \<longrightarrow>
     j_lock_token r \<noteq> None \<and> j_lock_until r \<noteq> None \<and> j_started_at r \<noteq> None \<and>
     j_attempts_made r < j_attempts_started r)"

definition row_ok :: "minion_job \<Rightarrow> bool" where
  "row_ok r =
     (row_check r \<and> 1 \<le> j_id r \<and> active_ok r \<and>
      (terminal r \<longleftrightarrow> j_finished_at r \<noteq> None) \<and>
      (j_status r = Delayed \<longrightarrow> j_delay_until r \<noteq> None))"

definition parent_ok :: "minion_job list \<Rightarrow> minion_job \<Rightarrow> bool" where
  "parent_ok js r = (\<forall>p. j_parent_job_id r = Some p \<longrightarrow>
     (\<exists>q \<in> set js. j_id q = p \<and> j_depth r = j_depth q + 1))"

definition keys_unique :: "minion_job list \<Rightarrow> bool" where
  "keys_unique js = (\<forall>r \<in> set js. \<forall>r' \<in> set js. \<forall>k.
     j_idempotency_key r = Some k \<longrightarrow> j_idempotency_key r' = Some k \<longrightarrow> j_id r = j_id r')"

definition table_ok :: "minion_job list \<Rightarrow> int \<Rightarrow> bool" where
  "table_ok js n =
     (distinct (map j_id js) \<and> 1 \<le> n \<and>
      (\<forall>r \<in> set js. row_ok r \<and> j_id r < n \<and> parent_ok js r) \<and> keys_unique js)"

definition refs_ok :: "queue_db \<Rightarrow> bool" where
  "refs_ok s =
     ((\<forall>m \<in> set (d_inbox s). m_job_id m \<in> j_id ` set (d_jobs s)) \<and>
      (\<forall>a \<in> set (d_attachments s). a_job_id a \<in> j_id ` set (d_jobs s)) \<and>
      distinct (map (\<lambda>a. (a_job_id a, a_filename a)) (d_attachments s)))"

definition db_ok :: "queue_db \<Rightarrow> bool" where
  "db_ok s = (table_ok (d_jobs s) (d_next_job_id s) \<and> refs_ok s)"

lemmas db_ok_defs = db_ok_def table_ok_def refs_ok_def

lemma ok_row_ok: "db_ok s \<Longrightarrow> r \<in> set (d_jobs s) \<Longrightarrow> row_ok r"
  by (simp add: db_ok_def table_ok_def)

lemma ok_distinct: "db_ok s \<Longrightarrow> distinct (map j_id (d_jobs s))"
  by (simp add: db_ok_def table_ok_def)

lemma ok_unique:
  "db_ok s \<Longrightarrow> r \<in> set (d_jobs s) \<Longrightarrow> r' \<in> set (d_jobs s) \<Longrightarrow> j_id r = j_id r' \<Longrightarrow> r = r'"
  by (blast intro: distinct_map_unique ok_distinct)

section \<open>Updates that keep the keys\<close>

definition key_ok :: "minion_job \<Rightarrow> minion_job \<Rightarrow> bool" where
  "key_ok r r' =
     (j_id r' = j_id r \<and> j_depth r' = j_depth r \<and>
      (j_parent_job_id r' = j_parent_job_id r \<or> j_parent_job_id r' = None) \<and>
      (j_idempotency_key r' = j_idempotency_key r \<or> j_idempotency_key r' = None))"

definition row_step :: "minion_job \<Rightarrow> minion_job \<Rightarrow> bool" where
  "row_step r r' = (row_ok r' \<and> key_ok r r')"

lemma row_stepI: "row_ok r' \<Longrightarrow> key_ok r r' \<Longrightarrow> row_step r r'"
  by (simp add: row_step_def)

lemma parent_ok_upd:
  assumes "parent_ok js r" and "key_ok r r'" and "\<And>q. q \<in> set js \<Longrightarrow> P q \<Longrightarrow> key_ok q (f q)"
  shows "parent_ok (upd_where P f js) r'"
  unfolding parent_ok_def
proof (intro allI impI)
  fix p assume p: "j_parent_job_id r' = Some p"
  with assms(2) have "j_parent_job_id r = Some p" by (auto simp: key_ok_def)
  with assms(1) obtain q where q: "q \<in> set js" "j_id q = p" "j_depth r = j_depth q + 1"
    by (auto simp: parent_ok_def)
  let ?q = "if P q then f q else q"
  have "?q \<in> set (upd_where P f js)" using q(1) by (simp add: set_upd_where)
  moreover have "j_id ?q = p" "j_depth ?q = j_depth q"
    using q assms(3) by (auto simp: key_ok_def)
  moreover have "j_depth r' = j_depth r" using assms(2) by (simp add: key_ok_def)
  ultimately show "\<exists>q \<in> set (upd_where P f js). j_id q = p \<and> j_depth r' = j_depth q + 1"
    using q(3) by (intro bexI [of _ ?q]) simp_all
qed

lemma table_ok_upd:
  assumes ok: "table_ok js n"
    and upd: "\<And>r. r \<in> set js \<Longrightarrow> P r \<Longrightarrow> row_ok r \<Longrightarrow> row_step r (f r)"
  shows "table_ok (upd_where P f js) n"
proof -
  have rows: "row_ok r" "j_id r < n" "parent_ok js r" if "r \<in> set js" for r
    using ok that by (auto simp: table_ok_def)
  have key: "key_ok r (f r)" if "r \<in> set js" "P r" for r
    using upd rows that by (auto simp: row_step_def)
  have ids: "map j_id (upd_where P f js) = map j_id js"
    using key by (intro map_upd_where) (auto simp: key_ok_def)
  have "row_ok x \<and> j_id x < n \<and> parent_ok (upd_where P f js) x"
    if "x \<in> set (upd_where P f js)" for x
    using that
  proof (cases rule: in_upd_where_cases)
    case (1 r)
    then show ?thesis using upd [of r] rows [of r] key [of r] parent_ok_upd [of js r "f r" P f] key
      by (auto simp: key_ok_def row_step_def)
  next
    case 2
    then show ?thesis using rows [of x] parent_ok_upd [of js x x P f] key
      by (auto simp: key_ok_def)
  qed
  moreover have "keys_unique (upd_where P f js)"
  proof -
    have orig: "\<exists>y \<in> set js. j_id y = j_id x \<and> j_idempotency_key y = Some k"
      if "x \<in> set (upd_where P f js)" "j_idempotency_key x = Some k" for x k
      using that(1)
    proof (cases rule: in_upd_where_cases)
      case (1 r)
      with key [of r] that(2) have "j_id r = j_id x \<and> j_idempotency_key r = Some k"
        by (auto simp: key_ok_def)
      with 1 show ?thesis by blast
    next
      case 2
      with that(2) show ?thesis by blast
    qed
    from ok have ku: "keys_unique js" by (simp add: table_ok_def)
    show ?thesis unfolding keys_unique_def
    proof (intro ballI allI impI)
      fix r r' k
      assume "r \<in> set (upd_where P f js)" "r' \<in> set (upd_where P f js)"
        "j_idempotency_key r = Some k" "j_idempotency_key r' = Some k"
      then obtain y y' where "y \<in> set js" "y' \<in> set js" "j_id y = j_id r" "j_id y' = j_id r'"
        "j_idempotency_key y = Some k" "j_idempotency_key y' = Some k"
        using orig by meson
      with ku show "j_id r = j_id r'" unfolding keys_unique_def by metis
    qed
  qed
  ultimately show ?thesis using ok by (auto simp: table_ok_def ids)
qed

lemma ids_upd_where:
  "(\<And>r. r \<in> set js \<Longrightarrow> P r \<Longrightarrow> j_id (f r) = j_id r) \<Longrightarrow> j_id ` set (upd_where P f js) = j_id ` set js"
  by (metis map_upd_where set_map)

lemma ok_update:
  assumes "db_ok s"
    and "\<And>r. r \<in> set (d_jobs s) \<Longrightarrow> P r \<Longrightarrow> row_ok r \<Longrightarrow> row_step r (f r)"
  shows "db_ok (s\<lparr>d_jobs := upd_where P f (d_jobs s)\<rparr>)"
proof -
  have "j_id ` set (upd_where P f (d_jobs s)) = j_id ` set (d_jobs s)"
    using assms ok_row_ok [OF assms(1)] by (intro ids_upd_where) (auto simp: key_ok_def row_step_def)
  with assms show ?thesis by (simp add: db_ok_def refs_ok_def table_ok_upd)
qed

section \<open>Row facts\<close>

named_theorems row_facts \<open>assignments that keep a good row good\<close>

lemmas row_simps = row_step_def row_ok_def row_check_def active_ok_def key_ok_def terminal_iff

lemma claim_lease_range:
  "case claim_lease r of None \<Rightarrow> True | Some n \<Rightarrow> 5000 \<le> n \<and> n \<le> 3600000"
  by (auto simp: claim_lease_def split: option.splits)

lemma claim_timeout_pos:
  "row_check r \<Longrightarrow> case claim_timeout r of None \<Rightarrow> True | Some n \<Rightarrow> 0 < n"
  by (auto simp: claim_timeout_def coalesce_def row_check_def defaultTimeoutMsFor_positive split: option.splits)

lemma claim_row_ok [row_facts]:
  "row_ok r \<Longrightarrow> j_status r = Waiting \<Longrightarrow> row_step r (claim_row t d now r)"
  using claim_lease_range [of r] claim_timeout_pos [of r]
  by (auto simp: row_simps claim_row_def coalesce_def split: option.splits)

lemma complete_row_ok [row_facts]:
  "row_ok r \<Longrightarrow> j_status r = Active \<Longrightarrow> row_step r (complete_row res now r)"
  by (auto simp: row_simps complete_row_def)

lemma fail_row_ok [row_facts]:
  "row_ok r \<Longrightarrow> j_status r = Active \<Longrightarrow> row_step r (fail_row e st b now r)"
  by (cases st) (auto simp: row_simps fail_row_def)

lemma release_row_ok [row_facts]:
  "row_ok r \<Longrightarrow> j_status r = Active \<Longrightarrow> row_step r (release_row e b now r)"
  by (auto simp: row_simps release_row_def)

lemma renew_row_ok [row_facts]:
  "row_ok r \<Longrightarrow> row_step r (r\<lparr>j_lock_until := Some u, j_updated_at := now\<rparr>)"
  by (auto simp: row_simps)

lemma progress_row_ok [row_facts]:
  "row_ok r \<Longrightarrow> row_step r (r\<lparr>j_progress := p, j_updated_at := now\<rparr>)"
  by (auto simp: row_simps)

lemma add_tokens_ok [row_facts]: "row_ok r \<Longrightarrow> row_step r (add_tokens a b c now r)"
  by (auto simp: row_simps add_tokens_def)

lemma fail_parent_row_ok [row_facts]:
  "row_ok r \<Longrightarrow> j_status r = WaitingChildren \<Longrightarrow> row_step r (fail_parent_row e now r)"
  by (auto simp: row_simps fail_parent_row_def)

lemma drop_parent_row_ok [row_facts]:
  "row_ok r \<Longrightarrow> row_step r (r\<lparr>j_parent_job_id := None, j_updated_at := now\<rparr>)"
  by (auto simp: row_simps)

lemma drop_key_row_ok [row_facts]: "row_ok r \<Longrightarrow> row_step r (r\<lparr>j_idempotency_key := None\<rparr>)"
  by (auto simp: row_simps)

lemma flip_row_ok [row_facts]:
  "row_ok r \<Longrightarrow> \<not> terminal r \<Longrightarrow>
     row_step r (r\<lparr>j_status := WaitingChildren, j_updated_at := now\<rparr>)"
  by (auto simp: row_simps)

lemma unblock_row_ok [row_facts]:
  "row_ok r \<Longrightarrow> j_status r = WaitingChildren \<Longrightarrow> row_step r (unblock_row now r)"
  by (auto simp: row_simps unblock_row_def)

lemma promote_row_ok [row_facts]:
  "row_ok r \<Longrightarrow> j_status r = Delayed \<Longrightarrow> row_step r (promote_row now r)"
  by (auto simp: row_simps promote_row_def)

lemma kill_row_ok [row_facts]:
  "row_ok r \<Longrightarrow> j_status r = Active \<Longrightarrow> row_step r (kill_row e now r)"
  by (auto simp: row_simps kill_row_def)

lemma requeue_row_ok [row_facts]:
  "row_ok r \<Longrightarrow> j_status r = Active \<Longrightarrow> row_step r (requeue_row now r)"
  by (auto simp: row_simps requeue_row_def)

lemma stall_kill_row_ok [row_facts]:
  "row_ok r \<Longrightarrow> j_status r = Active \<Longrightarrow> row_step r (stall_kill_row now r)"
  by (auto simp: row_simps stall_kill_row_def kill_row_def)

lemma cancel_row_ok [row_facts]: "row_ok r \<Longrightarrow> row_step r (cancel_row ids e now r)"
  by (auto simp: row_simps cancel_row_def)

lemma retry_row_ok [row_facts]: "row_ok r \<Longrightarrow> row_step r (retry_row now r)"
  by (auto simp: row_simps retry_row_def)

lemma pause_row_ok [row_facts]:
  "row_ok r \<Longrightarrow> \<not> terminal r \<Longrightarrow> row_step r (pause_row now r)"
  by (auto simp: row_simps pause_row_def)

lemma resume_row_ok [row_facts]:
  "row_ok r \<Longrightarrow> j_status r = Paused \<Longrightarrow> row_step r (resume_row now r)"
  by (auto simp: row_simps resume_row_def)

lemma lease_row_ok [row_facts]: "row_ok r \<Longrightarrow> row_step r (lease_row l now r)"
  by (auto simp: row_simps lease_row_def)

end
