(* ===== verification/QueueSteps.thy ===== *)
theory QueueSteps
  imports QueueInv
begin

text \<open>
  Every operation of the queue keeps \<open>db_ok\<close>, and the system they form: \<open>queue_step\<close> has one rule per
  operation that changes the database, whoever calls it and at whatever time, so \<open>reachable\<close>
  covers every interleaving of submitters, workers, sweeps and operators. The rules carry no
  assumption on clocks, tokens, arguments or the order of calls.
\<close>

section \<open>Statements\<close>

lemma ok_upd:
  assumes "db_ok s" and "s' = s\<lparr>d_jobs := upd_where P f (d_jobs s)\<rparr>"
    and "\<And>r. P r \<Longrightarrow> row_ok r \<Longrightarrow> row_step r (f r)"
  shows "db_ok s'"
  unfolding assms(2) by (rule ok_update [OF assms(1)]) (rule assms(3))

lemma ok_updI:
  "db_ok s \<Longrightarrow> (\<And>r. P r \<Longrightarrow> row_ok r \<Longrightarrow> row_step r (f r)) \<Longrightarrow>
     db_ok (s\<lparr>d_jobs := upd_where P f (d_jobs s)\<rparr>)"
  by (rule ok_upd [OF _ refl])

lemma ok_insert_inbox: "db_ok s \<Longrightarrow> jid \<in> j_id ` set (d_jobs s) \<Longrightarrow> db_ok (insert_inbox now jid sender p s)"
  by (simp add: db_ok_def refs_ok_def insert_inbox_def)

lemma ok_post [intro]: "db_ok s \<Longrightarrow> db_ok (post_to_open_parent now p payload s)"
  by (auto simp: post_to_open_parent_def list_ex_iff intro!: ok_insert_inbox)

lemma ok_unblock [intro]: "db_ok s \<Longrightarrow> db_ok (unblock_parent now p s)"
  by (erule ok_upd [OF _ unblock_parent_def]) (auto simp: unblockable_def intro: row_facts)

lemma ok_unblock_all [intro]: "db_ok s \<Longrightarrow> db_ok (unblock_all now s)"
  by (erule ok_upd [OF _ unblock_all_def]) (auto simp: unblockable_def intro: row_facts)

lemma ok_notify [intro]: "db_ok s \<Longrightarrow> db_ok (notify_parent now oc e r s)"
  by (auto simp: notify_parent_def split: option.splits)

lemma ok_killJobs [intro]: "db_ok s \<Longrightarrow> db_ok (killJobs now rows oc e s)"
  unfolding killJobs_def by (rule fold_invariant, rule fold_invariant) (rule ok_notify ok_unblock | assumption)+

lemma drop_ref_simps [simp]:
  "j_id (drop_ref ids r) = j_id r" "j_depth (drop_ref ids r) = j_depth r"
  "j_idempotency_key (drop_ref ids r) = j_idempotency_key r"
  "j_status (drop_ref ids r) = j_status r"
  by (simp_all add: drop_ref_def)

lemma drop_ref_row_ok: "row_ok r \<Longrightarrow> row_ok (drop_ref ids r)"
  by (auto simp: row_ok_def row_check_def active_ok_def terminal_iff drop_ref_def)

lemma drop_ref_parent:
  "j_parent_job_id (drop_ref ids r) = Some p \<longleftrightarrow> j_parent_job_id r = Some p \<and> p \<notin> set ids"
  by (auto simp: drop_ref_def split: option.splits)

lemma ok_delete_jobs [intro]:
  assumes "db_ok s"
  shows "db_ok (delete_jobs P s)"
proof -
  let ?js = "d_jobs s" and ?ids = "map j_id (filter P (d_jobs s))"
  let ?js' = "map (drop_ref ?ids) (filter (\<lambda>r. \<not> P r) ?js)"
  have rows: "row_ok r" "j_id r < d_next_job_id s" "parent_ok ?js r" if "r \<in> set ?js" for r
    using assms that by (auto simp: db_ok_def table_ok_def)
  have par: "parent_ok ?js' (drop_ref ?ids r)" if "r \<in> set ?js" for r
    unfolding parent_ok_def
  proof (intro allI impI)
    fix p assume "j_parent_job_id (drop_ref ?ids r) = Some p"
    then have p: "j_parent_job_id r = Some p" "p \<notin> set ?ids"
      using drop_ref_parent by blast+
    with rows(3) [OF that] obtain q where q: "q \<in> set ?js" "j_id q = p" "j_depth r = j_depth q + 1"
      by (auto simp: parent_ok_def)
    with p(2) have "drop_ref ?ids q \<in> set ?js'" by auto
    with q show "\<exists>q \<in> set ?js'. j_id q = p \<and> j_depth (drop_ref ?ids r) = j_depth q + 1"
      by (intro bexI [of _ "drop_ref ?ids q"]) simp_all
  qed
  have ids: "map j_id ?js' = map j_id (filter (\<lambda>r. \<not> P r) ?js)" by simp
  have "keys_unique ?js" using assms by (simp add: db_ok_def table_ok_def)
  then have "keys_unique ?js'" unfolding keys_unique_def by (simp add: ball_conj_distrib)
  moreover have "distinct (map j_id ?js')"
    unfolding ids using ok_distinct [OF assms] by (simp add: distinct_map_filter)
  moreover have "1 \<le> d_next_job_id s" using assms by (simp add: db_ok_def table_ok_def)
  ultimately have "table_ok ?js' (d_next_job_id s)"
    using rows par by (auto simp: table_ok_def drop_ref_row_ok)
  moreover have "j_id ` set ?js' = j_id ` set ?js - set ?ids"
    using ok_distinct [OF assms] by (auto simp: image_iff distinct_map inj_on_def) blast
  ultimately show ?thesis using assms
    by (auto simp: db_ok_def refs_ok_def delete_jobs_def Let_def distinct_map_filter)
qed

section \<open>Operations\<close>

lemma ok_fenced:
  assumes "db_ok s" and "\<And>r. j_status r = Active \<Longrightarrow> row_ok r \<Longrightarrow> row_step r (f r)"
  shows "db_ok (snd (fenced_update i t f s))"
  using assms by (auto simp: fenced_update_def holds_def intro: ok_upd [OF _ refl])

lemmas fenced_simps = fenced_update_def split_beta

lemma ok_claim:
  assumes ok: "db_ok s"
  shows "db_ok (snd (claim t d q names now busy s))"
proof -
  have "db_ok (s\<lparr>d_jobs := upd_where (\<lambda>x. j_id x = j_id r) (claim_row t d now) (d_jobs s)\<rparr>)"
    if "min_row (\<lambda>r. (j_priority r, j_created_at r)) (filter (claimable q names busy) (d_jobs s)) = Some r" for r
  proof -
    from that have r: "r \<in> set (d_jobs s)" "j_status r = Waiting"
      by (auto dest!: min_row_Some(1) simp: claimable_def)
    then show ?thesis
      using ok_unique [OF ok _ r(1)] by (intro ok_update [OF ok] claim_row_ok) auto
  qed
  with ok show ?thesis unfolding claim_def by (auto split: option.split)
qed

lemma ok_renewLock: "db_ok s \<Longrightarrow> db_ok (snd (renewLock i t d now s))"
  using ok_fenced [of s "\<lambda>r. r\<lparr>j_lock_until := Some (now + ms d), j_updated_at := now\<rparr>" i t]
  by (simp add: renewLock_def split_beta renew_row_ok)

lemma ok_updateProgress: "db_ok s \<Longrightarrow> db_ok (snd (updateProgress i t p now s))"
  using ok_fenced [of s "\<lambda>r. r\<lparr>j_progress := (if p = JNull then None else Some p), j_updated_at := now\<rparr>" i t]
  by (simp add: updateProgress_def split_beta progress_row_ok)

lemma ok_updateTokens: "db_ok s \<Longrightarrow> db_ok (snd (updateTokens i t a b c now s))"
  using ok_fenced [of s "add_tokens (or_default 0 a) (or_default 0 b) (or_default 0 c) now" i t]
  by (simp add: updateTokens_def split_beta add_tokens_ok)

lemma ok_roll_up [intro]: "db_ok s \<Longrightarrow> db_ok (roll_up_tokens c p now s)"
  by (auto simp: roll_up_tokens_def intro!: ok_updI intro: row_facts)

lemma ok_complete_parent [intro]: "db_ok s \<Longrightarrow> db_ok (complete_parent res now c s)"
  by (auto simp: complete_parent_def split: option.splits)

lemma ok_completeJob:
  assumes "db_ok s"
  shows "db_ok (snd (completeJob i t res now s))"
proof -
  have "db_ok (snd (fenced_update i t (complete_row res now) s))"
    using assms by (rule ok_fenced) (rule complete_row_ok)
  then show ?thesis using assms
    by (cases "fenced_update i t (complete_row res now) s")
       (simp add: completeJob_def Let_def ok_delete_jobs ok_complete_parent split: list.splits)
qed

lemma ok_fail_waiting_parent [intro]: "db_ok s \<Longrightarrow> db_ok (fail_waiting_parent p e now s)"
  by (erule ok_upd [OF _ fail_waiting_parent_def]) (auto intro: row_facts)

lemma ok_drop_parent [intro]: "db_ok s \<Longrightarrow> db_ok (drop_parent i now s)"
  by (erule ok_upd [OF _ drop_parent_def]) (auto intro: row_facts)

lemma ok_fail_parent_hook [intro]: "db_ok s \<Longrightarrow> db_ok (fail_parent_hook e st now c s)"
  by (auto simp: fail_parent_hook_def Let_def split: option.splits child_fail_policy.splits)

lemma ok_failJob:
  assumes "db_ok s"
  shows "db_ok (snd (failJob i t e st b now s))"
proof -
  have "db_ok (snd (fenced_update i t (fail_row e st (or_default 0 b) now) s))"
    using assms by (rule ok_fenced) (rule fail_row_ok)
  then show ?thesis using assms
    by (cases "fenced_update i t (fail_row e st (or_default 0 b) now) s")
       (simp add: failJob_def Let_def ok_delete_jobs ok_fail_parent_hook split: list.splits)
qed

lemma ok_releaseLeaseFullJob: "db_ok s \<Longrightarrow> db_ok (snd (releaseLeaseFullJob i t e b now s))"
  using ok_fenced [of s "release_row e b now" i t]
  by (auto simp: releaseLeaseFullJob_def Let_def release_row_ok split: prod.splits list.splits)

lemma ok_sendMessage: "db_ok s \<Longrightarrow> db_ok (snd (sendMessage i p sender now s))"
  by (auto simp: sendMessage_def Let_def split: option.splits dest!: find_job_Some intro!: ok_insert_inbox)

lemma ok_readInbox: "db_ok s \<Longrightarrow> db_ok (snd (readInbox i t now s))"
  by (auto simp: readInbox_def db_ok_def refs_ok_def set_upd_where)

lemma ok_promoteDelayed: "db_ok s \<Longrightarrow> db_ok (snd (promoteDelayed now s))"
  by (auto simp: promoteDelayed_def promotable_def intro!: ok_updI intro: row_facts)

lemma ok_handleTimeouts: "db_ok s \<Longrightarrow> db_ok (snd (handleTimeouts now busy s))"
  by (auto simp: handleTimeouts_def Let_def timed_out_def intro!: ok_killJobs ok_updI intro: row_facts)

lemma ok_handleWallClockTimeouts:
  "db_ok s \<Longrightarrow> handleWallClockTimeouts d now busy s = Inr (rows, s') \<Longrightarrow> db_ok s'"
  by (auto simp: handleWallClockTimeouts_def Let_def over_wall_clock_def running_def
      intro!: ok_killJobs ok_updI intro: row_facts split: if_splits)

lemma ok_handleStalled: "db_ok s \<Longrightarrow> db_ok (snd (handleStalled g now busy s))"
proof -
  assume ok: "db_ok s"
  let ?s1 = "s\<lparr>d_jobs := upd_where (stall_requeue g now busy) (requeue_row now) (d_jobs s)\<rparr>"
  let ?s2 = "?s1\<lparr>d_jobs := upd_where (stall_dead g now busy) (stall_kill_row now) (d_jobs ?s1)\<rparr>"
  have "db_ok ?s1"
    by (rule ok_upd [OF ok refl]) (auto simp: stall_requeue_def stalled_def intro: row_facts)
  then have "db_ok ?s2"
    by (rule ok_upd [OF _ refl]) (auto simp: stall_dead_def stalled_def intro: row_facts)
  then show ?thesis by (auto simp: handleStalled_def Let_def)
qed

lemma ok_fold_unblock: "db_ok s \<Longrightarrow> db_ok (fold (unblock_parent now) ps s)"
  by (rule fold_invariant) (rule ok_unblock | assumption)+

lemma ok_fold_notify: "db_ok s \<Longrightarrow> db_ok (fold (notify_parent now oc e) rows s)"
  by (rule fold_invariant) (rule ok_notify | assumption)+

lemma ok_cancelJobs: "db_ok s \<Longrightarrow> db_ok (snd (cancelJobs ids why sts own now s))"
  unfolding cancelJobs_def Let_def
  by (auto intro!: ok_fold_unblock ok_fold_notify ok_updI cancel_row_ok)

lemma ok_cancelJob: "db_ok s \<Longrightarrow> db_ok (snd (cancelJob i own now s))"
  using ok_cancelJobs [of s "[i]" None None "or_null own" now]
  by (simp add: cancelJob_def split_beta)

lemma ok_ttl_loop: "db_ok s \<Longrightarrow> db_ok (snd (ttl_loop reason_of m now names acc s))"
proof (induction reason_of m now names acc s rule: ttl_loop.induct)
  case (2 reason_of m now name hours names cancelled by_name s)
  then show ?case
    using ok_cancelJobs [of s "ttl_stale now name hours (m - cancelled) (d_jobs s)"
        "Some (reason_of name hours)" "Some [Waiting]" None now]
    by (auto simp: Let_def split: prod.split)
qed simp

lemma ok_handleWaitingTTL: "db_ok s \<Longrightarrow> db_ok (snd (handleWaitingTTL reason_of m killed eng now s))"
  unfolding handleWaitingTTL_def by (rule ok_ttl_loop)

lemma ok_removeJob: "db_ok s \<Longrightarrow> db_ok (snd (removeJob i s))"
  by (auto simp: removeJob_def Let_def)

lemma ok_prune: "db_ok s \<Longrightarrow> db_ok (snd (prune old sts dry js_now s))"
  by (auto simp: prune_def Let_def)

lemma ok_update_one:
  "db_ok s \<Longrightarrow> (\<And>r. P r \<Longrightarrow> row_ok r \<Longrightarrow> row_step r (f r)) \<Longrightarrow> db_ok (snd (update_one P f s))"
  by (simp add: update_one_def ok_updI)

lemma ok_retryJob: "db_ok s \<Longrightarrow> db_ok (snd (retryJob i now s))"
  unfolding retryJob_def by (erule ok_update_one) (rule retry_row_ok)

lemma ok_pauseJob: "db_ok s \<Longrightarrow> db_ok (snd (pauseJob i now s))"
  unfolding pauseJob_def by (erule ok_update_one) (auto simp: terminal_iff intro: pause_row_ok)

lemma ok_resumeJob: "db_ok s \<Longrightarrow> db_ok (snd (resumeJob i now s))"
  unfolding resumeJob_def by (erule ok_update_one) (auto intro: resume_row_ok)

lemma ok_resolveParent: "db_ok s \<Longrightarrow> db_ok (snd (resolveParent i now s))"
  unfolding resolveParent_def
  by (erule ok_update_one) (auto simp: unblockable_def intro: unblock_row_ok)

lemma ok_failParent: "db_ok s \<Longrightarrow> db_ok (snd (failParent p c e now s))"
  unfolding failParent_def by (erule ok_update_one) (auto intro: fail_parent_row_ok)

lemma ok_removeChildDependency: "db_ok s \<Longrightarrow> db_ok (removeChildDependency c now s)"
  unfolding removeChildDependency_def by (rule ok_drop_parent)

lemma ok_reconcilePrivateQueue:
  "db_ok s \<Longrightarrow> reconcilePrivateQueue q why now s = Inr (rows, s') \<Longrightarrow> db_ok s'"
  using ok_cancelJobs [of s "sort (map j_id (filter (open_in_queue q) (d_jobs s)))"
      "Some (reconcile_reason why)" "Some non_terminal_statuses" None now]
  by (auto simp: reconcilePrivateQueue_def Let_def split: if_splits)

lemma ok_renewPrivateQueueLease:
  "db_ok s \<Longrightarrow> renewPrivateQueueLease q t l now s = Inr (n, s') \<Longrightarrow> db_ok s'"
  by (auto simp: renewPrivateQueueLease_def Let_def split: if_splits intro!: ok_updI lease_row_ok)

lemma ok_addAttachment:
  assumes "db_ok s" and "addAttachment sha m i inp now s = Inr (a, s')"
  shows "db_ok s'"
proof -
  let ?names = "map a_filename (filter (\<lambda>a. a_job_id a = i) (d_attachments s))"
  from assms(2) obtain n where n: "validateAttachment sha inp m ?names = Inr n"
    and job: "find_job i (d_jobs s) \<noteq> None"
    and s': "s' = s\<lparr>d_attachments := d_attachments s @ [a], d_next_attachment_id := d_next_attachment_id s + 1\<rparr>"
    and a: "a_job_id a = i" "a_filename a = n_filename n"
    by (auto simp: addAttachment_def Let_def split: option.splits if_splits sum.splits)
  from n have fresh: "n_filename n \<notin> set ?names"
    by (auto simp: validateAttachment_def Let_def split: if_splits)
  have new: "(a_job_id a, a_filename a) \<notin> set (map (\<lambda>a. (a_job_id a, a_filename a)) (d_attachments s))"
    using fresh a by auto
  from job have "i \<in> j_id ` set (d_jobs s)" by (auto dest!: find_job_Some)
  with assms(1) new s' a show ?thesis by (simp add: db_ok_def refs_ok_def)
qed

lemma ok_deleteAttachment: "db_ok s \<Longrightarrow> db_ok (snd (deleteAttachment i f s))"
  by (auto simp: deleteAttachment_def Let_def db_ok_def refs_ok_def distinct_map_filter)

section \<open>Submission\<close>

lemma ok_idempotency_step: "db_ok s \<Longrightarrow> db_ok (snd (idempotency_step key s))"
  by (auto simp: idempotency_step_def split: option.splits intro!: ok_updI drop_key_row_ok)

lemma ok_flip_parent: "db_ok s \<Longrightarrow> db_ok (flip_parent now p s)"
  by (auto simp: flip_parent_def terminal_iff split: option.splits intro!: ok_updI flip_row_ok)

text \<open>The depth that the parent step computes is that of the row it looked up.\<close>

definition depth_of_parent :: "minion_job list \<Rightarrow> job_input \<Rightarrow> int \<Rightarrow> bool" where
  "depth_of_parent js opts depth =
     (0 \<le> depth \<and>
      (\<forall>p. given_parent opts = Some p \<longrightarrow> (\<exists>q \<in> set js. j_id q = p \<and> depth = j_depth q + 1)))"

lemma parent_step_cases:
  assumes "parent_step d opts s = Inr depth"
  obtains "given_parent opts = None" "depth = 0"
  | p q where "given_parent opts = Some p" "q \<in> set (d_jobs s)" "j_id q = p"
      "depth = j_depth q + 1" "depth \<le> or_default d (o_max_spawn_depth opts)"
      "\<And>m. j_max_children q = Some m \<Longrightarrow> live_children p (d_jobs s) < m"
proof (cases "given_parent opts")
  case None
  with assms that show ?thesis by (simp add: parent_step_def)
next
  case (Some p)
  with assms obtain q where q: "find_job p (d_jobs s) = Some q"
    by (auto simp: parent_step_def split: option.splits)
  then have in_js: "q \<in> set (d_jobs s)" "j_id q = p" by (auto dest: find_job_Some)
  have "depth = j_depth q + 1 \<and> depth \<le> or_default d (o_max_spawn_depth opts) \<and>
      (\<forall>m. j_max_children q = Some m \<longrightarrow> live_children p (d_jobs s) < m)"
    using assms Some q
    by (auto simp: parent_step_def or_default_def Let_def not_le split: option.splits if_splits)
  then show ?thesis by (intro that(2) [OF Some in_js]) simp_all
qed

lemma parent_step_depth:
  assumes "db_ok s" and "parent_step d opts s = Inr depth"
  shows "depth_of_parent (d_jobs s) opts depth"
proof (rule parent_step_cases [OF assms(2)])
  fix p q assume a: "given_parent opts = Some p" "q \<in> set (d_jobs s)" "j_id q = p" "depth = j_depth q + 1"
  with ok_row_ok [OF assms(1)] have "0 \<le> j_depth q" by (auto simp: row_ok_def row_check_def)
  with a show ?thesis by (auto simp: depth_of_parent_def)
qed (simp add: depth_of_parent_def)

lemma new_row_ok:
  assumes "row_check (new_job_row env nm data opts depth i)" and "1 \<le> i"
  shows "row_ok (new_job_row env nm data opts depth i)"
  using assms
  by (auto simp: row_ok_def active_ok_def terminal_iff new_job_row_def child_status_def
      split: option.splits if_splits)

lemma keys_unique_insert:
  assumes "keys_unique js"
    and "\<And>k x. j_idempotency_key r = Some k \<Longrightarrow> x \<in> set js \<Longrightarrow> j_idempotency_key x \<noteq> Some k"
  shows "keys_unique (js @ [r])"
  unfolding keys_unique_def
proof (intro ballI allI impI)
  fix x y k
  assume xy: "x \<in> set (js @ [r])" "y \<in> set (js @ [r])"
    "j_idempotency_key x = Some k" "j_idempotency_key y = Some k"
  show "j_id x = j_id y"
  proof (cases "j_idempotency_key r = Some k")
    case True
    with assms(2) xy have "x = r" "y = r" by fastforce+
    then show ?thesis by simp
  next
    case False
    with xy have "x \<in> set js" "y \<in> set js" by auto
    with assms(1) xy show ?thesis unfolding keys_unique_def by blast
  qed
qed

lemma ok_insert_row:
  assumes ok: "db_ok s" and row: "row_ok r" "j_id r = d_next_job_id s"
    and par: "\<And>p. j_parent_job_id r = Some p \<Longrightarrow> \<exists>q \<in> set (d_jobs s). j_id q = p \<and> j_depth r = j_depth q + 1"
    and key: "\<And>k x. j_idempotency_key r = Some k \<Longrightarrow> x \<in> set (d_jobs s) \<Longrightarrow> j_idempotency_key x \<noteq> Some k"
  shows "db_ok (s\<lparr>d_jobs := d_jobs s @ [r], d_next_job_id := d_next_job_id s + 1\<rparr>)"
proof -
  let ?js = "d_jobs s"
  have t: "distinct (map j_id ?js)" "1 \<le> d_next_job_id s" "keys_unique ?js"
    and rows: "\<And>x. x \<in> set ?js \<Longrightarrow> row_ok x \<and> j_id x < d_next_job_id s \<and> parent_ok ?js x"
    using ok by (auto simp: db_ok_def table_ok_def)
  have "j_id r \<notin> j_id ` set ?js" using rows row(2) by fastforce
  moreover have "keys_unique (?js @ [r])"
    using keys_unique_insert [OF t(3)] key by blast
  moreover have "parent_ok (?js @ [r]) r" using par by (auto simp: parent_ok_def)
  moreover have "parent_ok (?js @ [r]) x" if "x \<in> set ?js" for x
    using rows [OF that] unfolding parent_ok_def set_append by blast
  moreover have "j_id x < d_next_job_id s + 1" if "x \<in> set ?js" for x
    using rows [OF that] by linarith
  ultimately have "table_ok (?js @ [r]) (d_next_job_id s + 1)"
    using t row rows by (simp add: table_ok_def)
  with ok show ?thesis by (auto simp: db_ok_def refs_ok_def)
qed

lemma ok_insert_job:
  assumes ok: "db_ok s" and par: "depth_of_parent (d_jobs s) opts depth"
    and ins: "insert_job env nm data opts depth s = Inr (r, s')"
  shows "db_ok s'"
proof -
  let ?row = "new_job_row env nm data opts depth (d_next_job_id s)"
  let ?clash = "find (\<lambda>r. j_idempotency_key r = o_idempotency_key opts) (d_jobs s)"
  let ?s1 = "s\<lparr>d_jobs := d_jobs s @ [?row], d_next_job_id := d_next_job_id s + 1\<rparr>"
  from ins consider "s' = s"
    | "row_check ?row" "o_idempotency_key opts = None \<or> ?clash = None"
      "ref_ok (d_jobs s) (j_parent_job_id ?row)" "s' = flip_parent (e_now env) (given_parent opts) ?s1"
    by (auto simp: insert_job_def Let_def split: if_splits)
  then show ?thesis
  proof cases
    case 1
    with ok show ?thesis by simp
  next
    case 2
    have row: "row_ok ?row"
      using 2(1) ok by (intro new_row_ok) (simp_all add: db_ok_def table_ok_def)
    have "db_ok ?s1"
    proof (rule ok_insert_row [OF ok row])
      show "j_id ?row = d_next_job_id s" by (simp add: new_job_row_def)
    next
      fix p assume p: "j_parent_job_id ?row = Some p"
      with 2(3) obtain q where "q \<in> set (d_jobs s)" "j_id q = p"
        by (auto simp: ref_ok_def list_ex_iff)
      with ok_row_ok [OF ok] have "p \<noteq> 0" by (force simp: row_ok_def)
      with p have "given_parent opts = Some p" by (simp add: given_parent_def new_job_row_def)
      with par show "\<exists>q \<in> set (d_jobs s). j_id q = p \<and> j_depth ?row = j_depth q + 1"
        by (simp add: depth_of_parent_def new_job_row_def)
    next
      fix k x assume "j_idempotency_key ?row = Some k" "x \<in> set (d_jobs s)"
      with 2(2) show "j_idempotency_key x \<noteq> Some k"
        by (auto simp: new_job_row_def find_None_iff)
    qed
    then show ?thesis unfolding 2(4) by (rule ok_flip_parent)
  qed
qed

lemma ok_add_transaction:
  assumes ok: "db_ok s" and add: "add_transaction env pol nm data opts s = Inr (res, s')"
  shows "db_ok s'"
proof -
  have ok1: "db_ok (snd (idempotency_step (given_key opts) s))"
    using ok by (rule ok_idempotency_step)
  from add consider "s' = snd (idempotency_step (given_key opts) s)"
    | data' depth r where
      "parent_step (e_maxSpawnDepth env) opts (snd (idempotency_step (given_key opts) s)) = Inr depth"
      "insert_job env nm data' opts depth (snd (idempotency_step (given_key opts) s)) = Inr (r, s')"
    by (auto simp: add_transaction_def Let_def split: prod.splits option.splits sum.splits)
  then show ?thesis
  proof cases
    case 1
    with ok1 show ?thesis by simp
  next
    case 2
    from parent_step_depth [OF ok1 2(1)] 2(2) show ?thesis by (rule ok_insert_job [OF ok1])
  qed
qed

lemma ok_add_job: "db_ok s \<Longrightarrow> add_job env pol nm data opts tr s = Inr (res, s') \<Longrightarrow> db_ok s'"
  by (auto simp: add_job_def split: sum.splits option.splits intro: ok_add_transaction)

lemma ok_replayJob: "db_ok s \<Longrightarrow> replayJob env pol i ov s = Inr (res, s') \<Longrightarrow> db_ok s'"
  by (auto simp: replayJob_def Let_def split: option.splits if_splits sum.splits intro: ok_add_job)

section \<open>The system\<close>

text \<open>A submission or a guarded call that fails rolls back.\<close>

definition committed :: "queue_db \<Rightarrow> 'e + 'r \<times> queue_db \<Rightarrow> queue_db" where
  "committed s r = (case r of Inl _ \<Rightarrow> s | Inr (_, s') \<Rightarrow> s')"

lemma ok_committed: "db_ok s \<Longrightarrow> (\<And>x s'. r = Inr (x, s') \<Longrightarrow> db_ok s') \<Longrightarrow> db_ok (committed s r)"
  by (auto simp: committed_def split: sum.split)

text \<open>The label of a step is the lock token it hands out: only \<open>claim\<close> has one.\<close>

inductive queue_step :: "string option \<Rightarrow> queue_db \<Rightarrow> queue_db \<Rightarrow> bool" where
  submit: "queue_step None s (committed s (add_job env pol nm data opts tr s))"
| replay: "queue_step None s (committed s (replayJob env pol i ov s))"
| claim: "queue_step (Some t) s (snd (claim t d q names now busy s))"
| renew: "queue_step None s (snd (renewLock i t d now s))"
| progress: "queue_step None s (snd (updateProgress i t p now s))"
| tokens: "queue_step None s (snd (updateTokens i t a b c now s))"
| complete: "queue_step None s (snd (completeJob i t res now s))"
| fail: "queue_step None s (snd (failJob i t e st b now s))"
| release: "queue_step None s (snd (releaseLeaseFullJob i t e bo now s))"
| send: "queue_step None s (snd (sendMessage i p sender now s))"
| inbox: "queue_step None s (snd (readInbox i t now s))"
| promote: "queue_step None s (snd (promoteDelayed now s))"
| timeouts: "queue_step None s (snd (handleTimeouts now busy s))"
| wall: "queue_step None s (committed s (handleWallClockTimeouts d now busy s))"
| stall: "queue_step None s (snd (handleStalled g now busy s))"
| ttl: "queue_step None s (snd (handleWaitingTTL reason_of m killed eng now s))"
| cancel: "queue_step None s (snd (cancelJobs ids why sts own now s))"
| remove: "queue_step None s (snd (removeJob i s))"
| pruned: "queue_step None s (snd (prune old keep dry js_now s))"
| retry: "queue_step None s (snd (retryJob i now s))"
| pause: "queue_step None s (snd (pauseJob i now s))"
| resume: "queue_step None s (snd (resumeJob i now s))"
| resolve: "queue_step None s (snd (resolveParent i now s))"
| fail_parent: "queue_step None s (snd (failParent i j e now s))"
| undepend: "queue_step None s (removeChildDependency i now s)"
| reconcile: "queue_step None s (committed s (reconcilePrivateQueue q why' now s))"
| lease: "queue_step None s (committed s (renewPrivateQueueLease q t l now s))"
| attach: "queue_step None s (committed s (addAttachment sha mx i inp now s))"
| detach: "queue_step None s (snd (deleteAttachment i f s))"
| config: "queue_step None s (s\<lparr>d_config := cfg\<rparr>)"

definition empty_db :: "(string \<Rightarrow> string option) \<Rightarrow> queue_db" where
  "empty_db cfg = \<lparr>d_jobs = [], d_inbox = [], d_attachments = [], d_next_job_id = 1,
     d_next_inbox_id = 1, d_next_attachment_id = 1, d_config = cfg\<rparr>"

inductive reachable :: "queue_db \<Rightarrow> bool" where
  start: "reachable (empty_db cfg)"
| step: "reachable s \<Longrightarrow> queue_step l s s' \<Longrightarrow> reachable s'"

lemmas ok_operations =
  ok_claim ok_renewLock ok_updateProgress ok_updateTokens ok_completeJob ok_failJob
  ok_releaseLeaseFullJob ok_sendMessage ok_readInbox ok_promoteDelayed ok_handleTimeouts
  ok_handleStalled ok_handleWaitingTTL ok_cancelJobs ok_removeJob ok_prune ok_retryJob ok_pauseJob
  ok_resumeJob ok_resolveParent ok_failParent ok_removeChildDependency ok_deleteAttachment

lemma ok_commit_submit: "db_ok s \<Longrightarrow> db_ok (committed s (add_job env pol nm data opts tr s))"
  by (rule ok_committed) (assumption, rule ok_add_job)

lemma ok_commit_replay: "db_ok s \<Longrightarrow> db_ok (committed s (replayJob env pol i ov s))"
  by (rule ok_committed) (assumption, rule ok_replayJob)

lemma ok_commit_wall: "db_ok s \<Longrightarrow> db_ok (committed s (handleWallClockTimeouts d now busy s))"
  by (rule ok_committed) (assumption, rule ok_handleWallClockTimeouts)

lemma ok_commit_reconcile: "db_ok s \<Longrightarrow> db_ok (committed s (reconcilePrivateQueue q why now s))"
  by (rule ok_committed) (assumption, rule ok_reconcilePrivateQueue)

lemma ok_commit_lease: "db_ok s \<Longrightarrow> db_ok (committed s (renewPrivateQueueLease q t l now s))"
  by (rule ok_committed) (assumption, rule ok_renewPrivateQueueLease)

lemma ok_commit_attach: "db_ok s \<Longrightarrow> db_ok (committed s (addAttachment sha mx i inp now s))"
  by (rule ok_committed) (assumption, rule ok_addAttachment)

lemmas ok_commits =
  ok_commit_submit ok_commit_replay ok_commit_wall ok_commit_reconcile ok_commit_lease
  ok_commit_attach

lemma db_ok_config: "db_ok s \<Longrightarrow> db_ok (s\<lparr>d_config := cfg\<rparr>)"
  by (simp add: db_ok_def refs_ok_def)

lemma ok_step: "queue_step l s s' \<Longrightarrow> db_ok s \<Longrightarrow> db_ok s'"
  by (induction rule: queue_step.induct)
     (erule ok_operations ok_commits db_ok_config)+

lemma ok_empty: "db_ok (empty_db cfg)"
  by (simp add: db_ok_def table_ok_def refs_ok_def keys_unique_def empty_db_def)

lemma ok_reachable: "reachable s \<Longrightarrow> db_ok s"
  by (induction rule: reachable.induct) (simp_all add: ok_empty ok_step)

end
