(* ===== verification/QueueHistory.thy ===== *)
theory QueueHistory
  imports QueueSteps
begin

text \<open>
  What a row's history can look like. \<open>row_history\<close> is the interface: a reflexive, transitive
  relation on the versions of a row that every assignment of the queue respects, but for the one
  of \<open>claim\<close>, which \<open>row_history_claim\<close> adds. Its lemmas lift the relation to whole operations, to
  \<open>queue_step\<close> and to runs. It is interpreted for three relations: the lock a row holds, the
  status transitions, and the columns no operation rewrites.
\<close>

section \<open>From rows to operations\<close>

definition rows_via ::
  "(minion_job \<Rightarrow> minion_job \<Rightarrow> bool) \<Rightarrow> (minion_job \<Rightarrow> bool) \<Rightarrow> queue_db \<Rightarrow> queue_db \<Rightarrow> bool" where
  "rows_via R N s s' =
     (d_next_job_id s \<le> d_next_job_id s' \<and>
      (\<forall>r' \<in> set (d_jobs s').
         (\<exists>r \<in> set (d_jobs s). R r r') \<or> (d_next_job_id s \<le> j_id r' \<and> N r')))"

lemma new_job_row_id [simp]: "j_id (new_job_row env nm data opts depth i) = i"
  by (simp add: new_job_row_def)

locale row_history =
  fixes R :: "minion_job \<Rightarrow> minion_job \<Rightarrow> bool" and N :: "minion_job \<Rightarrow> bool"
  assumes refl: "R r r"
    and trans: "R r r' \<Longrightarrow> R r' r'' \<Longrightarrow> R r r''"
    and same_id: "R r r' \<Longrightarrow> j_id r' = j_id r"
    and closed: "N r \<Longrightarrow> R r r' \<Longrightarrow> N r'"
    and new: "N (new_job_row env nm data opts depth i)"
    and renew: "j_status r = Active \<Longrightarrow> R r (r\<lparr>j_lock_until := u, j_updated_at := now\<rparr>)"
    and progress: "j_status r = Active \<Longrightarrow> R r (r\<lparr>j_progress := p, j_updated_at := now\<rparr>)"
    and tokens: "\<not> terminal r \<Longrightarrow> R r (add_tokens a b c now r)"
    and complete: "j_status r = Active \<Longrightarrow> R r (complete_row res now r)"
    and fail: "j_status r = Active \<Longrightarrow> R r (fail_row e st bk now r)"
    and release: "j_status r = Active \<Longrightarrow> R r (release_row e bo now r)"
    and fail_parent: "j_status r = WaitingChildren \<Longrightarrow> R r (fail_parent_row e now r)"
    and undepend: "R r (r\<lparr>j_parent_job_id := None, j_updated_at := now\<rparr>)"
    and drop_key: "R r (r\<lparr>j_idempotency_key := None\<rparr>)"
    and drop_ref: "R r (drop_ref ids r)"
    and flip: "j_status r \<in> {Waiting, Active, Delayed} \<Longrightarrow>
                 R r (r\<lparr>j_status := WaitingChildren, j_updated_at := now\<rparr>)"
    and unblock: "j_status r = WaitingChildren \<Longrightarrow> R r (unblock_row now r)"
    and promote: "j_status r = Delayed \<Longrightarrow> R r (promote_row now r)"
    and kill: "j_status r = Active \<Longrightarrow> R r (kill_row e now r)"
    and requeue: "j_status r = Active \<Longrightarrow> R r (requeue_row now r)"
    and stall_kill: "j_status r = Active \<Longrightarrow> R r (stall_kill_row now r)"
    and cancel: "\<not> terminal r \<Longrightarrow> R r (cancel_row ids why now r)"
    and retry: "j_status r \<in> {Failed, Dead} \<Longrightarrow> R r (retry_row now r)"
    and pause: "j_status r \<in> {Waiting, Active, Delayed} \<Longrightarrow> R r (pause_row now r)"
    and resume: "j_status r = Paused \<Longrightarrow> R r (resume_row now r)"
    and lease: "\<not> terminal r \<Longrightarrow> R r (lease_row l now r)"
begin

lemma via_same: "d_jobs s' = d_jobs s \<Longrightarrow> d_next_job_id s' = d_next_job_id s \<Longrightarrow> rows_via R N s s'"
  unfolding rows_via_def using refl by auto

lemma via_refl: "rows_via R N s s"
  by (rule via_same) simp_all

lemma via_trans:
  assumes "rows_via R N s s'" and "rows_via R N s' s''"
  shows "rows_via R N s s''"
  unfolding rows_via_def
proof (intro conjI ballI)
  show "d_next_job_id s \<le> d_next_job_id s''" using assms by (simp add: rows_via_def)
next
  fix r'' assume "r'' \<in> set (d_jobs s'')"
  with assms(2) consider r' where "r' \<in> set (d_jobs s')" "R r' r''"
    | "d_next_job_id s' \<le> j_id r''" "N r''"
    by (auto simp: rows_via_def)
  then show "(\<exists>r \<in> set (d_jobs s). R r r'') \<or> (d_next_job_id s \<le> j_id r'' \<and> N r'')"
  proof cases
    case 1
    with assms(1) consider r where "r \<in> set (d_jobs s)" "R r r'"
      | "d_next_job_id s \<le> j_id r'" "N r'"
      by (auto simp: rows_via_def)
    then show ?thesis
    proof cases
      case 1
      with \<open>R r' r''\<close> trans show ?thesis by blast
    next
      case 2
      with \<open>R r' r''\<close> show ?thesis using closed same_id by metis
    qed
  next
    case 2
    with assms(1) show ?thesis by (auto simp: rows_via_def)
  qed
qed

lemma via_upd:
  assumes "\<And>r. r \<in> set (d_jobs s) \<Longrightarrow> P r \<Longrightarrow> R r (f r)"
  shows "rows_via R N s (s\<lparr>d_jobs := upd_where P f (d_jobs s)\<rparr>)"
  using assms refl unfolding rows_via_def by (auto elim!: in_upd_where_cases)

lemma via_fold: "(\<And>x s. rows_via R N s (f x s)) \<Longrightarrow> rows_via R N s (fold f xs s)"
  by (induction xs arbitrary: s) (auto intro: via_refl via_trans)

lemma via_unblock: "rows_via R N s (unblock_parent now p s)"
  unfolding unblock_parent_def by (rule via_upd) (auto simp: unblockable_def intro: unblock)

lemma via_unblock_all: "rows_via R N s (unblock_all now s)"
  unfolding unblock_all_def by (rule via_upd) (auto simp: unblockable_def intro: unblock)

lemma via_post: "rows_via R N s (post_to_open_parent now p payload s)"
  by (rule via_same) (simp_all add: post_to_open_parent_def insert_inbox_def)

lemma via_notify: "rows_via R N s (notify_parent now oc e r s)"
  by (auto simp: notify_parent_def split: option.split intro: via_refl via_post)

lemma via_killJobs: "rows_via R N s (killJobs now rows oc e s)"
  unfolding killJobs_def by (rule via_trans; rule via_fold, rule via_notify via_unblock)

lemma via_delete: "rows_via R N s (delete_jobs P s)"
  unfolding rows_via_def delete_jobs_def Let_def using drop_ref by auto

lemma via_fenced:
  "(\<And>r. j_status r = Active \<Longrightarrow> R r (f r)) \<Longrightarrow> rows_via R N s (snd (fenced_update i t f s))"
  unfolding fenced_update_def snd_conv by (rule via_upd) (auto simp: holds_def)

lemma via_update_one: "(\<And>r. P r \<Longrightarrow> R r (f r)) \<Longrightarrow> rows_via R N s (snd (update_one P f s))"
  unfolding update_one_def snd_conv by (rule via_upd)

section \<open>Operations\<close>

lemma via_renewLock: "rows_via R N s (snd (renewLock i t d now s))"
  unfolding renewLock_def split_beta snd_conv by (rule via_fenced) (rule renew)

lemma via_updateProgress: "rows_via R N s (snd (updateProgress i t p now s))"
  unfolding updateProgress_def split_beta snd_conv by (rule via_fenced) (rule progress)

lemma via_updateTokens: "rows_via R N s (snd (updateTokens i t a b c now s))"
  unfolding updateTokens_def split_beta snd_conv by (rule via_fenced) (simp add: tokens terminal_iff)

lemma via_roll_up: "rows_via R N s (roll_up_tokens c p now s)"
  by (auto simp: roll_up_tokens_def intro: via_refl via_upd tokens)

lemma via_complete_parent: "rows_via R N s (complete_parent res now c s)"
  by (auto simp: complete_parent_def split: option.split
      intro: via_refl via_trans [OF via_trans [OF via_roll_up via_post] via_unblock])

lemma via_completeJob: "rows_via R N s (snd (completeJob i t res now s))"
proof -
  have f: "rows_via R N s (snd (fenced_update i t (complete_row res now) s))"
    by (rule via_fenced) (rule complete)
  have tail: "rows_via R N s (complete_parent res now c s1)"
    "rows_via R N s (delete_jobs P (complete_parent res now c s1))"
    if "rows_via R N s s1" for c s1 P
    using via_trans [OF that via_complete_parent] via_trans [OF _ via_delete] by blast+
  from f show ?thesis
    by (cases "fenced_update i t (complete_row res now) s")
       (simp add: completeJob_def Let_def tail via_refl split: list.split)
qed

lemma via_fail_waiting_parent: "rows_via R N s (fail_waiting_parent p e now s)"
  unfolding fail_waiting_parent_def by (rule via_upd) (auto intro: fail_parent)

lemma via_drop_parent: "rows_via R N s (drop_parent i now s)"
  unfolding drop_parent_def by (rule via_upd) (rule undepend)

lemma via_fail_parent_hook: "rows_via R N s (fail_parent_hook e st now c s)"
  unfolding fail_parent_hook_def Let_def
  by (auto split: option.split child_fail_policy.split
      intro: via_refl via_trans [OF via_post via_fail_waiting_parent] via_trans [OF via_post via_unblock]
        via_trans [OF via_trans [OF via_post via_drop_parent] via_unblock])

lemma via_failJob: "rows_via R N s (snd (failJob i t e st b now s))"
proof -
  have f: "rows_via R N s (snd (fenced_update i t (fail_row e st (or_default 0 b) now) s))"
    by (rule via_fenced) (rule fail)
  have tail: "rows_via R N s (fail_parent_hook e st now c s1)"
    "rows_via R N s (delete_jobs P (fail_parent_hook e st now c s1))"
    if "rows_via R N s s1" for c s1 P
    using via_trans [OF that via_fail_parent_hook] via_trans [OF _ via_delete] by blast+
  from f show ?thesis
    by (cases "fenced_update i t (fail_row e st (or_default 0 b) now) s")
       (simp add: failJob_def Let_def tail via_refl via_trans [OF _ via_delete] split: list.split)
qed

lemma via_releaseLeaseFullJob: "rows_via R N s (snd (releaseLeaseFullJob i t e b now s))"
proof -
  have "rows_via R N s (snd (fenced_update i t (release_row e b now) s))"
    by (rule via_fenced) (rule release)
  then show ?thesis
    by (cases "fenced_update i t (release_row e b now) s")
       (simp add: releaseLeaseFullJob_def via_refl split: list.split)
qed

lemma via_sendMessage: "rows_via R N s (snd (sendMessage i p sender now s))"
  by (rule via_same) (auto simp: sendMessage_def insert_inbox_def Let_def split: option.split)

lemma via_readInbox: "rows_via R N s (snd (readInbox i t now s))"
  by (rule via_same) (auto simp: readInbox_def)

lemma via_promoteDelayed: "rows_via R N s (snd (promoteDelayed now s))"
  unfolding promoteDelayed_def snd_conv by (rule via_upd) (auto simp: promotable_def intro: promote)

lemma via_handleTimeouts: "rows_via R N s (snd (handleTimeouts now busy s))"
  unfolding handleTimeouts_def Let_def snd_conv
  by (rule via_trans [OF via_upd via_killJobs]) (auto simp: timed_out_def intro: kill)

lemma via_handleWallClock:
  "rows_via R N s (committed s (handleWallClockTimeouts d now busy s))"
  unfolding handleWallClockTimeouts_def Let_def committed_def
  by (auto intro!: via_refl via_trans [OF via_upd via_killJobs] kill
      simp: over_wall_clock_def running_def)

lemma via_handleStalled: "rows_via R N s (snd (handleStalled g now busy s))"
proof -
  let ?s1 = "s\<lparr>d_jobs := upd_where (stall_requeue g now busy) (requeue_row now) (d_jobs s)\<rparr>"
  let ?s2 = "?s1\<lparr>d_jobs := upd_where (stall_dead g now busy) (stall_kill_row now) (d_jobs ?s1)\<rparr>"
  have "rows_via R N s ?s1" by (rule via_upd) (auto simp: stall_requeue_def stalled_def intro: requeue)
  moreover have "rows_via R N ?s1 ?s2"
    by (rule via_upd) (auto simp: stall_dead_def stalled_def intro: stall_kill)
  ultimately have "rows_via R N s ?s2" by (rule via_trans)
  from via_trans [OF via_trans [OF this via_killJobs] via_unblock_all] show ?thesis
    by (simp add: handleStalled_def Let_def)
qed

lemma via_cancelJobs: "rows_via R N s (snd (cancelJobs ids why sts own now s))"
proof -
  have tail: "rows_via R N s (fold (unblock_parent now) ps (fold (notify_parent now oc e) rows s))"
    for s ps oc e rows
    by (rule via_trans; rule via_fold, rule via_notify via_unblock)
  show ?thesis
    unfolding cancelJobs_def Let_def
    by (auto intro!: via_refl via_trans [OF via_upd tail] cancel simp: statuses_partition terminal_def)
qed

lemma via_ttl_loop: "rows_via R N s (snd (ttl_loop reason_of m now names acc s))"
proof (induction reason_of m now names acc s rule: ttl_loop.induct)
  case (2 reason_of m now name hours names cancelled by_name s)
  have "rows_via R N s (snd (cancelJobs (ttl_stale now name hours (m - cancelled) (d_jobs s))
      (Some (reason_of name hours)) (Some [Waiting]) None now s))"
    by (rule via_cancelJobs)
  with 2 show ?case by (auto simp: Let_def via_refl split: prod.split intro: via_trans)
qed (simp add: via_refl)

lemma via_handleWaitingTTL: "rows_via R N s (snd (handleWaitingTTL reason_of m killed eng now s))"
  unfolding handleWaitingTTL_def by (rule via_ttl_loop)

lemma via_removeJob: "rows_via R N s (snd (removeJob i s))"
  by (simp add: removeJob_def Let_def via_delete)

lemma via_prune: "rows_via R N s (snd (prune old sts dry js_now s))"
  by (simp add: prune_def Let_def via_delete via_refl)

lemma via_retryJob: "rows_via R N s (snd (retryJob i now s))"
  unfolding retryJob_def by (rule via_update_one) (auto intro: retry)

lemma via_pauseJob: "rows_via R N s (snd (pauseJob i now s))"
  unfolding pauseJob_def by (rule via_update_one) (auto intro: pause)

lemma via_resumeJob: "rows_via R N s (snd (resumeJob i now s))"
  unfolding resumeJob_def by (rule via_update_one) (auto intro: resume)

lemma via_resolveParent: "rows_via R N s (snd (resolveParent i now s))"
  unfolding resolveParent_def by (rule via_update_one) (auto simp: unblockable_def intro: unblock)

lemma via_failParent: "rows_via R N s (snd (failParent p c e now s))"
  unfolding failParent_def by (rule via_update_one) (auto intro: fail_parent)

lemma via_removeChildDependency: "rows_via R N s (removeChildDependency c now s)"
  unfolding removeChildDependency_def by (rule via_drop_parent)

lemma via_reconcile: "rows_via R N s (committed s (reconcilePrivateQueue q why now s))"
  by (auto simp: reconcilePrivateQueue_def committed_def Let_def split_beta
      intro: via_refl via_cancelJobs)

lemma via_lease: "rows_via R N s (committed s (renewPrivateQueueLease q t l now s))"
  by (auto simp: renewPrivateQueueLease_def committed_def Let_def owned_open_def open_in_queue_def
      statuses_partition terminal_def intro!: via_refl via_upd lease)

lemma via_addAttachment: "rows_via R N s (committed s (addAttachment sha mx i inp now s))"
  by (rule via_same)
     (auto simp: addAttachment_def committed_def Let_def split: option.split sum.split)

lemma via_deleteAttachment: "rows_via R N s (snd (deleteAttachment i f s))"
  by (rule via_same) (simp_all add: deleteAttachment_def Let_def)

lemma via_idempotency: "rows_via R N s (snd (idempotency_step key s))"
  by (auto simp: idempotency_step_def split: option.split intro!: via_refl via_upd drop_key)

lemma via_flip: "rows_via R N s (flip_parent now p s)"
  by (auto simp: flip_parent_def split: option.split intro!: via_refl via_upd flip)

lemma via_insert:
  "N row \<Longrightarrow> j_id row = d_next_job_id s \<Longrightarrow>
     rows_via R N s (s\<lparr>d_jobs := d_jobs s @ [row], d_next_job_id := d_next_job_id s + 1\<rparr>)"
  unfolding rows_via_def using refl by auto

lemma via_insert_job: "insert_job env nm data opts depth s = Inr (r, s') \<Longrightarrow> rows_via R N s s'"
  by (auto simp: insert_job_def Let_def via_refl split: if_splits
      intro!: via_trans [OF via_insert [OF new] via_flip])

lemma via_add_transaction:
  assumes "add_transaction env pol nm data opts s = Inr (res, s')"
  shows "rows_via R N s s'"
proof -
  let ?s1 = "snd (idempotency_step (given_key opts) s)"
  from assms consider "s' = ?s1"
    | data' depth r where "insert_job env nm data' opts depth ?s1 = Inr (r, s')"
    by (auto simp: add_transaction_def Let_def split: prod.splits option.splits sum.splits)
  then show ?thesis
    by cases (auto intro: via_idempotency via_trans [OF via_idempotency via_insert_job])
qed

lemma via_add_job: "add_job env pol nm data opts tr s = Inr (res, s') \<Longrightarrow> rows_via R N s s'"
  by (auto simp: add_job_def split: sum.splits option.splits intro: via_add_transaction)

lemma via_submit: "rows_via R N s (committed s (add_job env pol nm data opts tr s))"
  by (auto simp: committed_def split: sum.split intro: via_refl via_add_job)

lemma via_replay: "rows_via R N s (committed s (replayJob env pol i ov s))"
proof -
  have "rows_via R N s s'" if "replayJob env pol i ov s = Inr (res, s')" for res s'
    using that by (auto simp: replayJob_def Let_def via_refl split: option.splits if_splits sum.splits
        intro: via_add_job)
  then show ?thesis by (auto simp: committed_def split: sum.split intro: via_refl)
qed

lemma via_config: "rows_via R N s (s\<lparr>d_config := cfg\<rparr>)"
  by (rule via_same) simp_all

lemmas via_operations =
  via_submit via_replay via_renewLock via_updateProgress via_updateTokens via_completeJob
  via_failJob via_releaseLeaseFullJob via_sendMessage via_readInbox via_promoteDelayed
  via_handleTimeouts via_handleWallClock via_handleStalled via_handleWaitingTTL via_cancelJobs
  via_removeJob via_prune via_retryJob via_pauseJob via_resumeJob via_resolveParent via_failParent
  via_removeChildDependency via_reconcile via_lease via_addAttachment via_deleteAttachment via_config

lemma via_step: "queue_step l s s' \<Longrightarrow> l = None \<Longrightarrow> rows_via R N s s'"
  by (induction rule: queue_step.induct) (simp, (rule via_operations | simp)+)

end

section \<open>Histories that include claims\<close>

text \<open>\<open>T\<close> is a set of lock tokens; the claims under other tokens respect the relation.\<close>

locale row_history_claim = row_history +
  fixes T :: "string set"
  assumes claim: "t \<notin> T \<Longrightarrow> j_status r = Waiting \<Longrightarrow> R r (claim_row t d now r)"
begin

lemma via_claim:
  assumes ok: "db_ok s" and t: "t \<notin> T"
  shows "rows_via R N s (snd (claim t d q names now busy s))"
proof -
  have "rows_via R N s (s\<lparr>d_jobs := upd_where (\<lambda>x. j_id x = j_id r) (claim_row t d now) (d_jobs s)\<rparr>)"
    if "min_row (\<lambda>r. (j_priority r, j_created_at r)) (filter (claimable q names busy) (d_jobs s)) = Some r" for r
  proof -
    from that have r: "r \<in> set (d_jobs s)" "j_status r = Waiting"
      by (auto dest!: min_row_Some(1) simp: claimable_def)
    then show ?thesis using ok_unique [OF ok _ r(1)] t by (intro via_upd claim) auto
  qed
  then show ?thesis unfolding claim_def by (auto split: option.split intro: via_refl)
qed

lemma via_any_step:
  "queue_step l s s' \<Longrightarrow> db_ok s \<Longrightarrow> (\<And>t. l = Some t \<Longrightarrow> t \<notin> T) \<Longrightarrow> rows_via R N s s'"
  by (induction rule: queue_step.induct) (rule via_claim via_operations | simp)+

end

section \<open>Runs\<close>

text \<open>\<open>runs T s s'\<close>: from \<open>s\<close> to \<open>s'\<close> by steps none of which hands out a token of \<open>T\<close>.\<close>

inductive runs :: "string set \<Rightarrow> queue_db \<Rightarrow> queue_db \<Rightarrow> bool" for T :: "string set" where
  none: "runs T s s"
| more: "runs T s s' \<Longrightarrow> queue_step l s' s'' \<Longrightarrow> (\<And>t. l = Some t \<Longrightarrow> t \<notin> T) \<Longrightarrow> runs T s s''"

lemma runs_ok: "runs T s s' \<Longrightarrow> db_ok s \<Longrightarrow> db_ok s'"
  by (induction rule: runs.induct) (auto intro: ok_step)

lemma runs_reachable: "runs T s s' \<Longrightarrow> reachable s \<Longrightarrow> reachable s'"
  by (induction rule: runs.induct) (auto intro: reachable.step)

context row_history_claim begin

lemma via_runs: "runs T s s' \<Longrightarrow> db_ok s \<Longrightarrow> rows_via R N s s'"
proof (induction rule: runs.induct)
  case (more s s' l s'')
  from more.hyps(2) runs_ok [OF more.hyps(1) more.prems] more.hyps(3) have "rows_via R N s' s''"
    by (rule via_any_step)
  with more.IH [OF more.prems] show ?case by (rule via_trans)
qed (rule via_refl)

end

section \<open>Three histories\<close>

lemma row_ids:
  "j_id (complete_row res now r) = j_id r" "j_id (fail_row e st bk now r) = j_id r"
  "j_id (release_row e bo now r) = j_id r" "j_id (fail_parent_row e now r) = j_id r"
  "j_id (unblock_row now r) = j_id r" "j_id (promote_row now r) = j_id r"
  "j_id (kill_row e now r) = j_id r" "j_id (requeue_row now r) = j_id r"
  "j_id (stall_kill_row now r) = j_id r" "j_id (cancel_row ids why now r) = j_id r"
  "j_id (retry_row now r) = j_id r" "j_id (pause_row now r) = j_id r"
  "j_id (resume_row now r) = j_id r" "j_id (lease_row l now r) = j_id r"
  "j_id (add_tokens a b c now r) = j_id r" "j_id (claim_row t d now r) = j_id r"
  by (simp_all add: row_defs kill_row_def)

text \<open>A lock under a token of \<open>T\<close> is one the row already had.\<close>

definition keeps_lock :: "string set \<Rightarrow> minion_job \<Rightarrow> minion_job \<Rightarrow> bool" where
  "keeps_lock T r r' =
     (j_id r' = j_id r \<and>
      (\<forall>t \<in> T. j_status r' = Active \<longrightarrow> j_lock_token r' = Some t \<longrightarrow>
         j_status r = Active \<and> j_lock_token r = Some t))"

interpretation lock: row_history_claim "keeps_lock T"
  "\<lambda>r. j_status r = Active \<longrightarrow> (\<forall>t \<in> T. j_lock_token r \<noteq> Some t)" T for T
proof (unfold_locales, goal_cases)
  case (10 r e st bo now)
  then show ?case by (cases st) (auto simp: keeps_lock_def row_defs)
qed (auto simp: keeps_lock_def row_defs kill_row_def new_job_row_def child_status_def drop_ref_def
       split: option.split)

text \<open>A completed or cancelled row keeps every column but its references and \<open>updated_at\<close>.\<close>

definition settled :: "minion_job \<Rightarrow> minion_job" where
  "settled r = r\<lparr>j_parent_job_id := None, j_idempotency_key := None,
     j_private_queue_owner_job_id := None, j_updated_at := 0\<rparr>"

definition keeps_settled :: "minion_job \<Rightarrow> minion_job \<Rightarrow> bool" where
  "keeps_settled r r' =
     (j_id r' = j_id r \<and> (j_status r \<in> {Completed, Cancelled} \<longrightarrow> settled r' = settled r))"

lemma settled_status: "settled r' = settled r \<Longrightarrow> j_status r' = j_status r"
proof -
  have "j_status (settled x) = j_status x" for x by (simp add: settled_def)
  then show "settled r' = settled r \<Longrightarrow> j_status r' = j_status r" by metis
qed

lemma settled_fields:
  assumes "settled r' = settled r"
  shows "j_status r' = j_status r \<and> j_result r' = j_result r \<and> j_error_text r' = j_error_text r \<and>
    j_finished_at r' = j_finished_at r \<and> j_attempts_made r' = j_attempts_made r \<and>
    j_stacktrace r' = j_stacktrace r \<and> j_tokens_input r' = j_tokens_input r \<and>
    j_tokens_output r' = j_tokens_output r \<and> j_tokens_cache_read r' = j_tokens_cache_read r \<and>
    j_progress r' = j_progress r"
proof -
  note eq = arg_cong [OF assms]
  from eq [of j_status] eq [of j_result] eq [of j_error_text] eq [of j_finished_at]
    eq [of j_attempts_made] eq [of j_stacktrace] eq [of j_tokens_input]
    eq [of j_tokens_output] eq [of j_tokens_cache_read] eq [of j_progress]
  show ?thesis by (simp add: settled_def)
qed

lemma keeps_settled_trans: "keeps_settled r r' \<Longrightarrow> keeps_settled r' r'' \<Longrightarrow> keeps_settled r r''"
  using settled_status [of r' r] by (auto simp: keeps_settled_def)

lemma settled_refs:
  "settled (r\<lparr>j_parent_job_id := None, j_updated_at := now\<rparr>) = settled r"
  "settled (r\<lparr>j_idempotency_key := None\<rparr>) = settled r"
  "settled (drop_ref ids r) = settled r"
  by (simp_all add: settled_def drop_ref_def)

interpretation settle: row_history_claim keeps_settled "\<lambda>r. True" "{}"
proof (unfold_locales, goal_cases)
  case (2 r r' r'')
  then show ?case by (rule keeps_settled_trans)
qed (auto simp: keeps_settled_def terminal_iff row_ids settled_refs)

text \<open>The row that keeps its id is related to the row it was.\<close>

lemma same_row:
  assumes via: "rows_via R N s s'" and ok: "db_ok s"
    and rows: "r \<in> set (d_jobs s)" "r' \<in> set (d_jobs s')" "j_id r' = j_id r"
    and ids: "\<And>x y. R x y \<Longrightarrow> j_id y = j_id x"
  shows "R r r'"
proof -
  have "j_id r < d_next_job_id s" using ok rows(1) by (simp add: db_ok_def table_ok_def)
  with via rows obtain x where "x \<in> set (d_jobs s)" "R x r'" by (auto simp: rows_via_def)
  with ids ok_unique [OF ok, of x r] rows show ?thesis by metis
qed

text \<open>What a submission fixes for good.\<close>

definition identity_of :: "minion_job \<Rightarrow> _" where
  "identity_of r = (j_id r, j_name r, j_queue r, j_priority r, j_data r, j_max_attempts r,
     j_max_stalled r, j_depth r, j_on_child_fail r, j_max_children r, j_created_at r,
     j_private_queue_owner_token r)"

definition keeps_identity :: "minion_job \<Rightarrow> minion_job \<Rightarrow> bool" where
  "keeps_identity r r' = (identity_of r' = identity_of r)"

interpretation ident: row_history_claim keeps_identity "\<lambda>r. True" "{}"
  by unfold_locales
     (auto simp: keeps_identity_def identity_of_def row_defs kill_row_def drop_ref_def)

end
