(* ===== verification/Fencing.thy ===== *)
theory Fencing
  imports QueueHistory
begin

text \<open>
  The lock token as a fence. \<open>fenced_op\<close> is the contract of every operation a worker issues under
  its token: without the lock it answers \<open>refused\<close> and changes nothing; \<open>fenced_end\<close> adds that the
  operation gives the lock up. The lemmas proved from the contracts cover any later point of a
  run in which nobody is handed the same token again.
\<close>

section \<open>Losing a lock\<close>

lemma lock_held_iff:
  "lock_held i t s \<longleftrightarrow> (\<exists>r \<in> set (d_jobs s). j_id r = i \<and> j_status r = Active \<and> j_lock_token r = Some t)"
  by (auto simp: lock_held_def list_ex_iff holds_def)

lemma lock_not_regained:
  assumes "rows_via (keeps_lock {t}) (\<lambda>r. j_status r = Active \<longrightarrow> (\<forall>t' \<in> {t}. j_lock_token r \<noteq> Some t')) s s'"
    and "lock_held i t s'"
  shows "lock_held i t s"
  using assms by (fastforce simp: rows_via_def lock_held_iff keeps_lock_def)

lemma lock_lost_for_good:
  assumes "runs {t} s s'" and "db_ok s" and "\<not> lock_held i t s"
  shows "\<not> lock_held i t s'"
  using lock_not_regained [OF lock.via_runs [OF assms(1,2)]] assms(3) by blast

section \<open>The contracts\<close>

locale fenced_op =
  fixes run :: "int \<Rightarrow> string \<Rightarrow> queue_db \<Rightarrow> 'r \<times> queue_db" and refused :: 'r
  assumes refuses: "\<not> lock_held i t s \<Longrightarrow> run i t s = (refused, s)"
begin

lemma answer_needs_lock: "fst (run i t s) \<noteq> refused \<Longrightarrow> lock_held i t s"
  using refuses [of i t s] by fastforce

lemma effect_needs_lock: "snd (run i t s) \<noteq> s \<Longrightarrow> lock_held i t s"
  using refuses [of i t s] by fastforce

lemma zombie: "runs {t} s s' \<Longrightarrow> db_ok s \<Longrightarrow> \<not> lock_held i t s \<Longrightarrow> run i t s' = (refused, s')"
  by (rule refuses) (rule lock_lost_for_good)

end

locale fenced_end = fenced_op +
  assumes ends: "db_ok s \<Longrightarrow> \<not> lock_held i t (snd (run i t s))"
    and keeps: "db_ok s \<Longrightarrow> db_ok (snd (run i t s))"
begin

lemma lock_gone: "db_ok s \<Longrightarrow> runs {t} (snd (run i t s)) s' \<Longrightarrow> \<not> lock_held i t s'"
  using lock_lost_for_good ends keeps by blast

lemma at_most_once: "db_ok s \<Longrightarrow> runs {t} (snd (run i t s)) s' \<Longrightarrow> run i t s' = (refused, s')"
  by (rule refuses) (rule lock_gone)

end

section \<open>The operations of a worker\<close>

lemma fenced_refused: "\<not> lock_held i t s \<Longrightarrow> fenced_update i t f s = ([], s)"
  by (auto simp: fenced_update_def lock_held_def list_ex_iff returning_Nil_iff)

interpretation renewing: fenced_op "\<lambda>i t. renewLock i t d now" False for d now
  by unfold_locales (simp add: renewLock_def fenced_refused)

interpretation progressing: fenced_op "\<lambda>i t. updateProgress i t p now" False for p now
  by unfold_locales (simp add: updateProgress_def fenced_refused)

interpretation counting: fenced_op "\<lambda>i t. updateTokens i t a b c now" False for a b c now
  by unfold_locales (simp add: updateTokens_def fenced_refused)

interpretation reading: fenced_op "\<lambda>i t. readInbox i t now" "[]" for now
  by unfold_locales (simp add: readInbox_def)

text \<open>An update that leaves no row active under the token, followed by operations that give no
  lock out.\<close>

lemma fenced_release:
  assumes "\<And>r. j_status (f r) \<noteq> Active" and "\<And>r. j_id (f r) = j_id r"
  shows "\<not> lock_held i t (snd (fenced_update i t f s))"
  using assms by (auto simp: lock_held_iff fenced_update_def holds_def elim!: in_upd_where_cases)

lemma fenced_empty: "fenced_update i t f s = ([], s1) \<Longrightarrow> \<not> lock_held i t s"
  by (auto simp: fenced_update_def lock_held_def list_ex_iff returning_Nil_iff)

lemmas lock_kept_lost = lock_not_regained [OF lock.via_trans [OF lock.via_complete_parent lock.via_delete]]
  lock_not_regained [OF lock.via_trans [OF lock.via_fail_parent_hook lock.via_delete]]
  lock_not_regained [OF lock.via_complete_parent] lock_not_regained [OF lock.via_fail_parent_hook]
  lock_not_regained [OF lock.via_delete]

interpretation completing: fenced_end "\<lambda>i t. completeJob i t res now" None for res now
proof unfold_locales
  fix i t and s :: queue_db
  show "\<not> lock_held i t s \<Longrightarrow> completeJob i t res now s = (None, s)"
    by (simp add: completeJob_def fenced_refused)
  show "\<not> lock_held i t (snd (completeJob i t res now s))"
    using fenced_release [of "complete_row res now" i t s] fenced_empty [of i t "complete_row res now" s]
    by (auto simp: completeJob_def Let_def row_ids complete_row_def split: prod.splits list.splits
        dest: lock_kept_lost)
qed (rule ok_completeJob)

interpretation failing: fenced_end "\<lambda>i t. failJob i t e st bo now" None for e st bo now
proof unfold_locales
  fix i t and s :: queue_db
  show "\<not> lock_held i t s \<Longrightarrow> failJob i t e st bo now s = (None, s)"
    by (simp add: failJob_def fenced_refused)
  have "j_status (fail_row e st b now r) \<noteq> Active" for b r
    by (cases st) (simp_all add: fail_row_def)
  then show "\<not> lock_held i t (snd (failJob i t e st bo now s))"
    using fenced_release [of "fail_row e st (or_default 0 bo) now" i t s]
      fenced_empty [of i t "fail_row e st (or_default 0 bo) now" s]
    by (auto simp: failJob_def Let_def row_ids split: prod.splits list.splits dest: lock_kept_lost)
qed (rule ok_failJob)

interpretation releasing: fenced_end "\<lambda>i t. releaseLeaseFullJob i t e bo now" None for e bo now
proof unfold_locales
  fix i t and s :: queue_db
  show "\<not> lock_held i t s \<Longrightarrow> releaseLeaseFullJob i t e bo now s = (None, s)"
    by (simp add: releaseLeaseFullJob_def fenced_refused)
  show "\<not> lock_held i t (snd (releaseLeaseFullJob i t e bo now s))"
    using fenced_release [of "release_row e bo now" i t s] fenced_empty [of i t "release_row e bo now" s]
    by (auto simp: releaseLeaseFullJob_def Let_def row_ids release_row_def split: prod.splits list.splits)
qed (rule ok_releaseLeaseFullJob)

end
