(* ===== verification/QueueDemo.thy ===== *)
theory QueueDemo
  imports Fencing
begin

text \<open>
  Concrete states for the witnesses: an empty queue, rows as the INSERT makes them, and small
  tables with a parent and its children. They are reached or written with the operations of the
  model only where a witness needs that.
\<close>

definition demo_config :: "string \<Rightarrow> string option" where
  "demo_config k = (if k = ''version'' then Some ''11'' else None)"

definition demo_env :: submit_env where
  "demo_env = \<lparr>e_now = 5000000, e_js_now = 5000, e_engine = EnginePostgres, e_classify = (\<lambda>_. CapOk),
     e_sha256 = (\<lambda>x. x), e_maxSpawnDepth = 5\<rparr>"

definition demo_trust :: trusted_opts where
  "demo_trust = \<lparr>t_allowProtectedSubmit = False, t_allowPgliteInlineWorker = False\<rparr>"

definition demo_policy :: admission_policy where
  "demo_policy = \<lparr>coalesceParams = False, ttlWaitingHours = None, quotaMaxWaiting = None\<rparr>"

definition demo_row :: "int \<Rightarrow> minion_job" where
  "demo_row i = new_job_row demo_env ''sync'' [] no_opts 0 i"

definition demo_active :: "int \<Rightarrow> string \<Rightarrow> minion_job" where
  "demo_active i t = claim_row t 30000 6000000 (demo_row i)"

definition demo_db :: "minion_job list \<Rightarrow> int \<Rightarrow> queue_db" where
  "demo_db js n = (empty_db demo_config)\<lparr>d_jobs := js, d_next_job_id := n\<rparr>"

text \<open>A job whose first worker stalls and which a second worker then claims.\<close>

definition demo_submitted :: queue_db where
  "demo_submitted = committed (empty_db demo_config)
     (add_job demo_env demo_policy ''sync'' [] no_opts demo_trust (empty_db demo_config))"

definition demo_claimed :: queue_db where
  "demo_claimed = snd (claim ''a'' 30000 ''default'' [''sync''] 6000000 {} demo_submitted)"

definition demo_swept :: queue_db where
  "demo_swept = snd (handleStalled 15000 60000000 {} demo_claimed)"

definition demo_reclaimed :: queue_db where
  "demo_reclaimed = snd (claim ''b'' 30000 ''default'' [''sync''] 61000000 {} demo_swept)"

definition demo_completed :: queue_db where
  "demo_completed = snd (completeJob 1 ''b'' None 62000000 demo_reclaimed)"

lemma demo_reachable:
  "reachable demo_submitted" "reachable demo_claimed" "reachable demo_swept"
  "reachable demo_reclaimed" "reachable demo_completed"
proof -
  show 1: "reachable demo_submitted"
    unfolding demo_submitted_def by (rule reachable.step [OF reachable.start queue_step.submit])
  show 2: "reachable demo_claimed"
    unfolding demo_claimed_def by (rule reachable.step [OF 1 queue_step.claim])
  show 3: "reachable demo_swept"
    unfolding demo_swept_def by (rule reachable.step [OF 2 queue_step.stall])
  show 4: "reachable demo_reclaimed"
    unfolding demo_reclaimed_def by (rule reachable.step [OF 3 queue_step.claim])
  show "reachable demo_completed"
    unfolding demo_completed_def by (rule reachable.step [OF 4 queue_step.complete])
qed

lemma demo_run_reclaim: "runs {''a''} demo_swept demo_reclaimed"
  unfolding demo_reclaimed_def by (rule runs.more [OF runs.none queue_step.claim]) auto

text \<open>An operator who tries to cancel and to retry the finished job.\<close>

definition demo_settled :: queue_db where
  "demo_settled = snd (retryJob 1 64000000 (snd (cancelJobs [1] None None None 63000000 demo_completed)))"

lemma demo_run_settled: "runs {} demo_completed demo_settled"
  unfolding demo_settled_def
  by (rule runs.more [OF runs.more [OF runs.none queue_step.cancel] queue_step.retry]) auto

text \<open>Two jobs waiting.\<close>

definition demo_pair :: queue_db where
  "demo_pair = committed demo_submitted
     (add_job demo_env demo_policy ''sync'' [] no_opts demo_trust demo_submitted)"

lemma demo_pair_reachable: "reachable demo_pair"
  unfolding demo_pair_def by (rule reachable.step [OF demo_reachable(1) queue_step.submit])

text \<open>A parent that waits for its only child, the child claimed by \<open>t\<close>.\<close>

definition demo_family :: queue_db where
  "demo_family = snd (claim ''t'' 30000 ''default'' [''sync''] 8000000 {}
     (committed demo_submitted
       (add_job demo_env demo_policy ''sync'' [] (no_opts\<lparr>o_parent_job_id := Some 1\<rparr>) demo_trust
         demo_submitted)))"

lemma demo_family_reachable: "reachable demo_family"
  unfolding demo_family_def
  by (rule reachable.step [OF reachable.step [OF demo_reachable(1) queue_step.submit] queue_step.claim])

section \<open>The rows of these states\<close>

definition demo_parent :: minion_job where
  "demo_parent = (demo_row 1)\<lparr>j_status := WaitingChildren\<rparr>"

definition demo_child :: minion_job where
  "demo_child = claim_row ''t'' 30000 8000000
     (new_job_row demo_env ''sync'' [] (no_opts\<lparr>o_parent_job_id := Some 1\<rparr>) 1 2)"

definition demo_second :: minion_job where
  "demo_second = claim_row ''b'' 30000 61000000 (requeue_row 60000000 (demo_active 1 ''a''))"

definition demo_done :: minion_job where
  "demo_done = complete_row None 62000000 demo_second"

lemma demo_submitted_rows: "d_jobs demo_submitted = [demo_row 1]" by code_simp

lemma demo_claimed_rows: "d_jobs demo_claimed = [demo_active 1 ''a'']" by code_simp

lemma demo_swept_rows: "d_jobs demo_swept = [requeue_row 60000000 (demo_active 1 ''a'')]" by code_simp

lemma demo_reclaimed_rows: "d_jobs demo_reclaimed = [demo_second]" by code_simp

lemma demo_completed_rows: "d_jobs demo_completed = [demo_done]" by code_simp

lemma demo_settled_rows: "d_jobs demo_settled = [demo_done]" by code_simp

lemma demo_family_rows: "d_jobs demo_family = [demo_parent, demo_child]" by code_simp

lemmas demo_rows = demo_submitted_rows demo_claimed_rows demo_swept_rows demo_reclaimed_rows
  demo_completed_rows demo_settled_rows demo_family_rows

lemma demo_second_holds: "holds 1 ''b'' demo_second" by code_simp

lemma demo_child_holds:
  "holds 2 ''t'' demo_child" "j_parent_job_id demo_child = Some 1" "j_id demo_parent = 1"
  "j_status demo_parent = WaitingChildren" "j_on_child_fail demo_child = FailParent"
  "j_id demo_child = 2"
  by code_simp+

definition demo_late :: minion_job where
  "demo_late = (demo_active 1 ''a'')\<lparr>j_timeout_at := Some 6400000\<rparr>"

definition demo_patient :: minion_job where
  "demo_patient = (demo_active 2 ''b'')\<lparr>j_timeout_ms := Some 2000000000\<rparr>"

text \<open>An old waiting job of a private queue, its owner job unknown, its lease over.\<close>

definition demo_private :: minion_job where
  "demo_private = (demo_row 1)\<lparr>j_queue := ''dream-inline-x'', j_private_queue_owner_token := Some ''tok'',
     j_private_queue_lease_until := Some 5500000\<rparr>"

definition demo_result :: recovery_result where
  "demo_result = \<lparr>scanned_queues = 1, cancelled_queues = 0, cancelled_jobs = 0,
     skipped_live_queues = 0, skipped_unowned_queues = 0, skipped_non_orphan_queues = 0\<rparr>"

end
