(* ===== verification/QueueLifecycle.thy ===== *)
theory QueueLifecycle
  imports QueueDemo
begin

text \<open>
  What claim, completion, failure and the stall sweep do, on every branch: which job a claim
  takes, what becomes of the parent of a finished child, and that the sweep leaves no stranded
  parent.
\<close>

section \<open>Claim\<close>

lemma claim_cases:
  obtains "claim t d q names now busy s = (None, s)" "\<forall>x \<in> set (d_jobs s). \<not> claimable q names busy x"
  | r where "r \<in> set (d_jobs s)" "claimable q names busy r"
      "\<forall>x \<in> set (d_jobs s). claimable q names busy x \<longrightarrow>
         (j_priority r, j_created_at r) \<le> (j_priority x, j_created_at x)"
      "claim t d q names now busy s =
         (Some (rowToMinionJob (claim_row t d now r)),
          s\<lparr>d_jobs := upd_where (\<lambda>x. j_id x = j_id r) (claim_row t d now) (d_jobs s)\<rparr>)"
proof (cases "min_row (\<lambda>r. (j_priority r, j_created_at r)) (filter (claimable q names busy) (d_jobs s))")
  case None
  then have "\<forall>x \<in> set (d_jobs s). \<not> claimable q names busy x" by (simp only: min_row_None filter_empty_conv)
  moreover have "claim t d q names now busy s = (None, s)" unfolding claim_def None by simp
  ultimately show ?thesis using that(1) by blast
next
  case (Some r)
  from min_row_Some [OF this] have r: "r \<in> set (d_jobs s)" "claimable q names busy r"
    "\<forall>x \<in> set (d_jobs s). claimable q names busy x \<longrightarrow>
       (j_priority r, j_created_at r) \<le> (j_priority x, j_created_at x)"
    by auto
  moreover have "names \<noteq> []" using r(2) by (auto simp: claimable_def)
  ultimately show ?thesis using that(2) Some by (simp add: claim_def)
qed





text \<open>C23: two claims never hold the same job: the job of the second claim is another one, and the
  first claim's lock is intact.\<close>

theorem claim_exclusive:
  assumes "reachable s" and "claim t1 d1 q1 names1 now1 busy1 s = (Some j1, s1)"
    and "claim t2 d2 q2 names2 now2 busy2 s1 = (Some j2, s2)"
  shows "j_id j1 \<noteq> j_id j2 \<and> lock_held (j_id j1) t1 s2 \<and> lock_held (j_id j2) t2 s2"
proof -
  have ok: "db_ok s" using assms(1) by (rule ok_reachable)
  from assms(2) obtain r1 where r1: "r1 \<in> set (d_jobs s)" "claimable q1 names1 busy1 r1"
    "j1 = rowToMinionJob (claim_row t1 d1 now1 r1)"
    "s1 = s\<lparr>d_jobs := upd_where (\<lambda>x. j_id x = j_id r1) (claim_row t1 d1 now1) (d_jobs s)\<rparr>"
    by (cases rule: claim_cases [of t1 d1 q1 names1 now1 busy1 s]) auto
  from assms(3) obtain r2 where r2: "r2 \<in> set (d_jobs s1)" "claimable q2 names2 busy2 r2"
    "j2 = rowToMinionJob (claim_row t2 d2 now2 r2)"
    "s2 = s1\<lparr>d_jobs := upd_where (\<lambda>x. j_id x = j_id r2) (claim_row t2 d2 now2) (d_jobs s1)\<rparr>"
    by (cases rule: claim_cases [of t2 d2 q2 names2 now2 busy2 s1]) auto
  have ids: "j_id j1 = j_id r1" "j_id j2 = j_id r2" by (simp_all add: r1(3) r2(3) row_ids)
  let ?c1 = "claim_row t1 d1 now1 r1" and ?c2 = "claim_row t2 d2 now2 r2"
  have c1: "?c1 \<in> set (d_jobs s1)" using r1(1,4) by (auto simp: set_upd_where)
  have act: "j_status ?c1 = Active" "j_lock_token ?c1 = Some t1" "j_status ?c2 = Active"
    "j_lock_token ?c2 = Some t2" by (simp_all add: claim_row_def)
  have ne: "j_id r1 \<noteq> j_id r2"
  proof
    assume eq: "j_id r1 = j_id r2"
    from r2(1) r1(4) have "r2 \<in> set (upd_where (\<lambda>x. j_id x = j_id r1) (claim_row t1 d1 now1) (d_jobs s))"
      by simp
    then have "j_status r2 = Active"
      by (cases rule: in_upd_where_cases) (use eq in \<open>simp_all add: claim_row_def\<close>)
    with r2(2) show False by (simp add: claimable_def)
  qed
  then have in1: "?c1 \<in> set (d_jobs s2)" using c1 r2(4) by (auto simp: set_upd_where row_ids)
  have in2: "?c2 \<in> set (d_jobs s2)" using r2(1,4) by (auto simp: set_upd_where)
  have "lock_held (j_id r1) t1 s2"
    unfolding lock_held_iff by (rule bexI [OF _ in1]) (simp add: act row_ids)
  moreover have "lock_held (j_id r2) t2 s2"
    unfolding lock_held_iff by (rule bexI [OF _ in2]) (simp add: act row_ids)
  moreover note ne
  ultimately show ?thesis by (simp add: ids)
qed

lemma claim_exclusive_witness:
  "\<exists>j1 s1 j2 s2. claim ''a'' 30000 ''default'' [''sync''] 6000000 {} demo_pair = (Some j1, s1) \<and>
     claim ''b'' 30000 ''default'' [''sync''] 6000000 {} s1 = (Some j2, s2) \<and> j_id j1 \<noteq> j_id j2"
proof -
  let ?c1 = "claim ''a'' 30000 ''default'' [''sync''] 6000000 {} demo_pair"
  let ?c2 = "claim ''b'' 30000 ''default'' [''sync''] 6000000 {} (snd ?c1)"
  have "fst ?c1 \<noteq> None" "fst ?c2 \<noteq> None" by code_simp+
  then obtain j1 s1 j2 s2 where c: "?c1 = (Some j1, s1)"
    "claim ''b'' 30000 ''default'' [''sync''] 6000000 {} s1 = (Some j2, s2)"
    by (metis not_None_eq prod.collapse snd_conv)
  with claim_exclusive [OF demo_pair_reachable c] show ?thesis by blast
qed

section \<open>Completion\<close>

text \<open>The row under a lock is the only one the fenced statement touches.\<close>

lemma fenced_one:
  assumes ok: "db_ok s" and r: "r \<in> set (d_jobs s)" "holds i t r"
  shows "fenced_update i t f s =
    ([f r], s\<lparr>d_jobs := upd_where (\<lambda>x. j_id x = i) f (d_jobs s)\<rparr>)"
proof -
  have h: "holds i t x \<longleftrightarrow> j_id x = i" if "x \<in> set (d_jobs s)" for x
    using ok_unique [OF ok that r(1)] r(2) by (auto simp: holds_def)
  have "filter (holds i t) (d_jobs s) = [r]"
  proof (rule filter_unique)
    show "distinct (d_jobs s)" using ok_distinct [OF ok] by (simp add: distinct_map)
    show "holds i t y \<longleftrightarrow> y = r" if "y \<in> set (d_jobs s)" for y
      using ok_unique [OF ok that r(1)] r(2) by (auto simp: holds_def)
  qed (rule r(1))
  moreover have "upd_where (holds i t) f (d_jobs s) = upd_where (\<lambda>x. j_id x = i) f (d_jobs s)"
    by (rule upd_where_cong) (simp_all add: h)
  ultimately show ?thesis by (simp add: fenced_update_def returning_def)
qed

lemma open_child_upd:
  "(\<And>r. r \<in> set js \<Longrightarrow> P r \<Longrightarrow> open_child_of p (f r) = open_child_of p r) \<Longrightarrow>
     list_ex (open_child_of p) (upd_where P f js) = list_ex (open_child_of p) js"
  by (auto simp: list_ex_iff set_upd_where)

text \<open>The open children of \<open>p\<close> once the row \<open>i\<close> is closed.\<close>

definition other_open :: "int \<Rightarrow> int \<Rightarrow> minion_job list \<Rightarrow> bool" where
  "other_open p i js = (\<exists>c \<in> set js. open_child_of p c \<and> j_id c \<noteq> i)"

lemma open_after_closing:
  assumes "\<And>r. j_id r = i \<Longrightarrow> terminal (f r)"
  shows "list_ex (open_child_of p) (upd_where (\<lambda>x. j_id x = i) f js) = other_open p i js"
  using assms by (auto simp: list_ex_iff set_upd_where other_open_def open_child_of_def)

lemma in_delete:
  "q \<in> set (d_jobs s) \<Longrightarrow> \<not> P q \<Longrightarrow>
     drop_ref (map j_id (filter P (d_jobs s))) q \<in> set (d_jobs (delete_jobs P s))"
  by (simp add: delete_jobs_def Let_def)

lemma inbox_delete:
  "m \<in> set (d_inbox s) \<Longrightarrow> m_job_id m \<noteq> i \<Longrightarrow> m \<in> set (d_inbox (delete_jobs (\<lambda>r. j_id r = i) s))"
  by (auto simp: delete_jobs_def Let_def)

lemma post_inbox:
  "q \<in> set (d_jobs s) \<Longrightarrow> j_id q = p \<Longrightarrow> \<not> terminal q \<Longrightarrow>
     \<exists>m \<in> set (d_inbox (post_to_open_parent now p msg s)). m_job_id m = p \<and> m_payload m = msg"
  by (auto simp: post_to_open_parent_def insert_inbox_def list_ex_iff)

lemma post_jobs [simp]: "d_jobs (post_to_open_parent now p msg s) = d_jobs s"
  by (simp add: post_to_open_parent_def insert_inbox_def)

lemma unblock_inbox [simp]: "d_inbox (unblock_parent now p s) = d_inbox s"
  by (simp add: unblock_parent_def)

lemma unblock_waiting:
  assumes "q \<in> set (d_jobs s)" and "j_id q = p" and "j_status q = WaitingChildren"
  shows "\<exists>q' \<in> set (d_jobs (unblock_parent now p s)). j_id q' = p \<and>
    j_status q' = (if list_ex (open_child_of p) (d_jobs s) then WaitingChildren else Waiting) \<and>
    j_tokens_input q' = j_tokens_input q"
proof (cases "unblockable (d_jobs s) q")
  case True
  with assms have "unblock_row now q \<in> set (d_jobs (unblock_parent now p s))"
    by (auto simp: unblock_parent_def set_upd_where)
  with True assms show ?thesis
    by (intro bexI [of _ "unblock_row now q"]) (auto simp: unblock_row_def unblockable_def)
next
  case False
  with assms have "q \<in> set (d_jobs (unblock_parent now p s))"
    by (auto simp: unblock_parent_def set_upd_where intro!: image_eqI [of _ _ q])
  with False assms show ?thesis by (intro bexI [of _ q]) (auto simp: unblockable_def)
qed

text \<open>\<open>complete_parent\<close> on a state where the child \<open>c\<close> is closed.\<close>

lemma complete_parent_effect:
  assumes q: "q \<in> set (d_jobs s)" "j_id q = p" "j_status q = WaitingChildren"
    and c: "parent_of c = Some p" and s'_def: "s' = complete_parent res now c s"
  shows "\<exists>q' \<in> set (d_jobs s'). j_id q' = p \<and>
      j_status q' = (if list_ex (open_child_of p) (d_jobs s) then WaitingChildren else Waiting)"
    and "\<exists>m \<in> set (d_inbox s'). m_job_id m = p \<and>
      m_payload m = child_done (j_id c) (j_name c) (or_default JNull res) OComplete None"
proof -
  let ?sr = "roll_up_tokens c p now s"
  let ?msg = "child_done (j_id c) (j_name c) (or_default JNull res) OComplete None"
  have s': "s' = unblock_parent now p (post_to_open_parent now p ?msg ?sr)"
    using c by (simp add: s'_def complete_parent_def)
  have "\<exists>q1 \<in> set (d_jobs ?sr). j_id q1 = p \<and> j_status q1 = WaitingChildren"
  proof (cases "d_jobs ?sr = d_jobs s")
    case True
    with q show ?thesis by auto
  next
    case False
    with q have "add_tokens (j_tokens_input c) (j_tokens_output c) (j_tokens_cache_read c) now q
        \<in> set (d_jobs ?sr)"
      by (auto simp: roll_up_tokens_def set_upd_where terminal_iff split: if_splits)
    then show ?thesis using q by (rule_tac bexI) (simp_all add: add_tokens_def)
  qed
  then obtain q1 where q1: "q1 \<in> set (d_jobs ?sr)" "j_id q1 = p" "j_status q1 = WaitingChildren"
    by blast
  have "list_ex (open_child_of p) (d_jobs ?sr) = list_ex (open_child_of p) (d_jobs s)"
    by (auto simp: roll_up_tokens_def add_tokens_def open_child_of_def terminal_iff intro!: open_child_upd)
  with unblock_waiting [of q1 "post_to_open_parent now p ?msg ?sr" p now] q1
  show "\<exists>q' \<in> set (d_jobs s'). j_id q' = p \<and>
      j_status q' = (if list_ex (open_child_of p) (d_jobs s) then WaitingChildren else Waiting)"
    by (auto simp: s')
  from q1 show "\<exists>m \<in> set (d_inbox s'). m_job_id m = p \<and> m_payload m = ?msg"
    using post_inbox [of q1 ?sr p now ?msg] by (auto simp: s' terminal_iff)
qed

lemma complete_parent_other:
  "x \<in> set (d_jobs s) \<Longrightarrow> parent_of c = Some p \<Longrightarrow> j_id x \<noteq> p \<Longrightarrow>
     x \<in> set (d_jobs (complete_parent res now c s))"
  by (auto simp: complete_parent_def unblock_parent_def roll_up_tokens_def set_upd_where
      intro!: image_eqI [of _ _ x])

lemma delete_one: "x \<in> set (d_jobs (delete_jobs (\<lambda>r. j_id r = i) s)) \<Longrightarrow> j_id x \<noteq> i"
  by (auto simp: delete_jobs_def Let_def)

lemma delete_one_keeps:
  "q \<in> set (d_jobs s) \<Longrightarrow> j_id q \<noteq> i \<Longrightarrow>
     \<exists>q' \<in> set (d_jobs (delete_jobs (\<lambda>r. j_id r = i) s)). j_id q' = j_id q \<and> j_status q' = j_status q"
  by (rule bexI [OF _ in_delete]) simp_all

text \<open>C24: completing a child tells its waiting parent: the parent receives the \<open>child_done\<close> message
  with the result, and it goes back to \<open>waiting\<close> exactly when no other child is open; the child
  itself is completed with its result, or deleted when \<open>remove_on_complete\<close> is set.\<close>

theorem completeJob_parent:
  assumes "reachable s" and r: "r \<in> set (d_jobs s)" "holds i t r" "j_parent_job_id r = Some p"
    and q: "q \<in> set (d_jobs s)" "j_id q = p" "j_status q = WaitingChildren"
    and s': "s' = snd (completeJob i t res now s)"
  shows "(\<exists>q' \<in> set (d_jobs s'). j_id q' = p \<and>
        j_status q' = (if other_open p i (d_jobs s) then WaitingChildren else Waiting)) \<and>
    (\<exists>m \<in> set (d_inbox s'). m_job_id m = p \<and>
        m_payload m = child_done i (j_name r) (or_default JNull res) OComplete None) \<and>
    (if j_remove_on_complete r then \<forall>x \<in> set (d_jobs s'). j_id x \<noteq> i
     else \<exists>x \<in> set (d_jobs s'). j_id x = i \<and> j_status x = Completed \<and> j_result x = res)"
proof -
  have ok: "db_ok s" using assms(1) by (rule ok_reachable)
  let ?c = "rowToMinionJob (complete_row res now r)"
  let ?s1 = "s\<lparr>d_jobs := upd_where (\<lambda>x. j_id x = i) (complete_row res now) (d_jobs s)\<rparr>"
  let ?s2 = "complete_parent res now ?c ?s1"
  have i: "j_id r = i" "p \<noteq> i"
    using r(2) q ok_unique [OF ok q(1) r(1)] by (auto simp: holds_def)
  have p: "parent_of ?c = Some p"
    using r ok_row_ok [OF ok q(1)] q(2) by (auto simp: parent_of_def complete_row_def row_ok_def)
  have q1: "q \<in> set (d_jobs ?s1)" using q(1,2) i by (auto simp: set_upd_where intro!: image_eqI [of _ _ q])
  have op: "list_ex (open_child_of p) (d_jobs ?s1) = other_open p i (d_jobs s)"
    using open_after_closing [of i "complete_row res now" p "d_jobs s"]
    by (simp add: terminal_iff complete_row_def)
  have id: "j_id ?c = i" "j_name ?c = j_name r" "j_remove_on_complete ?c = j_remove_on_complete r"
    using i by (simp_all add: complete_row_def)
  have s'2: "s' = (if j_remove_on_complete r then delete_jobs (\<lambda>x. j_id x = i) ?s2 else ?s2)"
    using fenced_one [OF ok r(1,2), of "complete_row res now"] id
    by (simp add: s' completeJob_def Let_def)
  note eff = complete_parent_effect [OF q1 q(2,3) p refl, of res now, unfolded op id]
  have "complete_row res now r \<in> set (d_jobs ?s1)" using r(1) i by (auto simp: set_upd_where)
  from complete_parent_other [OF this p] i
  have closed: "complete_row res now r \<in> set (d_jobs ?s2)" by (simp add: complete_row_def)
  show ?thesis
  proof (cases "j_remove_on_complete r")
    case True
    then have s'3: "s' = delete_jobs (\<lambda>x. j_id x = i) ?s2" by (simp add: s'2)
    from eff(1) obtain q2 where q2: "q2 \<in> set (d_jobs ?s2)" "j_id q2 = p"
      "j_status q2 = (if other_open p i (d_jobs s) then WaitingChildren else Waiting)" by blast
    from eff(2) obtain m where m: "m \<in> set (d_inbox ?s2)" "m_job_id m = p"
      "m_payload m = child_done i (j_name r) (or_default JNull res) OComplete None" by blast
    from delete_one_keeps [OF q2(1), of i] q2 i have
      "\<exists>q' \<in> set (d_jobs s'). j_id q' = p \<and>
        j_status q' = (if other_open p i (d_jobs s) then WaitingChildren else Waiting)"
      unfolding s'3 by metis
    moreover from inbox_delete [OF m(1), of i] m i have
      "\<exists>m \<in> set (d_inbox s'). m_job_id m = p \<and>
        m_payload m = child_done i (j_name r) (or_default JNull res) OComplete None"
      unfolding s'3 by blast
    moreover have "\<forall>x \<in> set (d_jobs s'). j_id x \<noteq> i" unfolding s'3 using delete_one by blast
    ultimately show ?thesis using True by simp
  next
    case False
    then have s'3: "s' = ?s2" by (simp add: s'2)
    have "\<exists>x \<in> set (d_jobs s'). j_id x = i \<and> j_status x = Completed \<and> j_result x = res"
      unfolding s'3 using i by (intro bexI [OF _ closed]) (simp add: complete_row_def)
    with eff False show ?thesis unfolding s'3 by simp
  qed
qed

lemma completeJob_parent_witness:
  "\<exists>q' \<in> set (d_jobs (snd (completeJob 2 ''t'' None 9000000 demo_family))).
     j_id q' = 1 \<and> j_status q' = Waiting"
proof -
  have rows: "demo_child \<in> set (d_jobs demo_family)" "demo_parent \<in> set (d_jobs demo_family)"
    by (simp_all add: demo_rows)
  have "\<not> open_child_of 1 demo_parent" by code_simp
  then have "\<not> other_open 1 2 (d_jobs demo_family)" by (auto simp: other_open_def demo_rows demo_child_holds)
  with completeJob_parent [OF demo_family_reachable rows(1) demo_child_holds(1,2) rows(2)
      demo_child_holds(3,4) refl, of None 9000000]
  show ?thesis by simp
qed

section \<open>Failure\<close>

definition after_child_failed :: "child_fail_policy \<Rightarrow> bool \<Rightarrow> job_status" where
  "after_child_failed policy others_open =
     (if policy = FailParent then Failed else if others_open then WaitingChildren else Waiting)"

lemma fail_parent_hook_effect:
  assumes q: "q \<in> set (d_jobs s)" "j_id q = p" "j_status q = WaitingChildren"
    and c: "parent_of c = Some p" "j_id c \<noteq> p" "\<And>x. x \<in> set (d_jobs s) \<Longrightarrow> j_id x = j_id c \<Longrightarrow> terminal x"
    and s'_def: "s' = fail_parent_hook err st now c s"
  shows "\<exists>q' \<in> set (d_jobs s'). j_id q' = p \<and>
      j_status q' = after_child_failed (j_on_child_fail c) (list_ex (open_child_of p) (d_jobs s))"
    and "\<exists>m \<in> set (d_inbox s'). m_job_id m = p \<and>
      m_payload m = child_done (j_id c) (j_name c) JNull (if st = ToDead then ODead else OFailed) (Some err)"
proof -
  let ?msg = "child_done (j_id c) (j_name c) JNull (if st = ToDead then ODead else OFailed) (Some err)"
  let ?s1 = "post_to_open_parent now p ?msg s"
  have q1: "q \<in> set (d_jobs ?s1)" using q by simp
  have "\<exists>q' \<in> set (d_jobs s'). j_id q' = p \<and> j_status q' =
      after_child_failed (j_on_child_fail c) (list_ex (open_child_of p) (d_jobs s))"
  proof (cases "j_on_child_fail c")
    case FailParent
    then have "s' = fail_waiting_parent p (child_failed_text (j_id c) err) now ?s1"
      using c by (simp add: s'_def fail_parent_hook_def)
    moreover have "fail_parent_row (child_failed_text (j_id c) err) now q \<in> set (d_jobs \<dots>)"
      using q by (auto simp: fail_waiting_parent_def set_upd_where)
    ultimately show ?thesis using q FailParent
      by (intro bexI) (auto simp: fail_parent_row_def after_child_failed_def)
  next
    case RemoveDep
    let ?s2 = "drop_parent (j_id c) now ?s1"
    from RemoveDep have s': "s' = unblock_parent now p ?s2"
      using c by (simp add: s'_def fail_parent_hook_def)
    have "q \<in> set (d_jobs ?s2)"
      using q c(2) by (auto simp: drop_parent_def set_upd_where intro!: image_eqI [of _ _ q])
    moreover have "list_ex (open_child_of p) (d_jobs ?s2) = list_ex (open_child_of p) (d_jobs s)"
      using c(3) by (auto simp: drop_parent_def open_child_of_def terminal_iff intro!: open_child_upd)
    ultimately show ?thesis using unblock_waiting [of q ?s2 p now] q RemoveDep
      by (auto simp: s' after_child_failed_def)
  next
    case Ignore
    with c have "s' = unblock_parent now p ?s1" by (simp add: s'_def fail_parent_hook_def)
    then show ?thesis using unblock_waiting [of q ?s1 p now] q Ignore by (auto simp: after_child_failed_def)
  next
    case Continue
    with c have "s' = unblock_parent now p ?s1" by (simp add: s'_def fail_parent_hook_def)
    then show ?thesis using unblock_waiting [of q ?s1 p now] q Continue by (auto simp: after_child_failed_def)
  qed
  then show "\<exists>q' \<in> set (d_jobs s'). j_id q' = p \<and> j_status q' =
      after_child_failed (j_on_child_fail c) (list_ex (open_child_of p) (d_jobs s))" .
  have "d_inbox s' = d_inbox ?s1"
    using c by (auto simp: s'_def fail_parent_hook_def fail_waiting_parent_def drop_parent_def Let_def
        split: child_fail_policy.split)
  then show "\<exists>m \<in> set (d_inbox s'). m_job_id m = p \<and> m_payload m = ?msg"
    using post_inbox [of q s p now ?msg] q by (simp add: terminal_iff)
qed

lemma unblock_other: "x \<in> set (d_jobs s) \<Longrightarrow> j_id x \<noteq> p \<Longrightarrow> x \<in> set (d_jobs (unblock_parent now p s))"
  unfolding unblock_parent_def by (simp add: in_upd_miss)

lemma fail_parent_hook_other:
  assumes "x \<in> set (d_jobs s)" and "parent_of c = Some p" and "j_id x \<noteq> p"
  shows "\<exists>x' \<in> set (d_jobs (fail_parent_hook err st now c s)). j_id x' = j_id x \<and>
       j_status x' = j_status x \<and> j_attempts_made x' = j_attempts_made x"
proof (cases "j_on_child_fail c")
  case FailParent
  with assms have "x \<in> set (d_jobs (fail_parent_hook err st now c s))"
    by (simp add: fail_parent_hook_def fail_waiting_parent_def in_upd_miss)
  then show ?thesis by blast
next
  case RemoveDep
  let ?f = "\<lambda>r. r\<lparr>j_parent_job_id := None, j_updated_at := now\<rparr>"
  have "(if j_id x = j_id c then ?f x else x) \<in> set (upd_where (\<lambda>r. j_id r = j_id c) ?f (d_jobs s))"
    using assms(1) by (simp add: set_upd_where)
  with assms RemoveDep have "(if j_id x = j_id c then ?f x else x) \<in> set (d_jobs (fail_parent_hook err st now c s))"
    by (simp add: fail_parent_hook_def drop_parent_def unblock_other)
  then show ?thesis by (rule bexI [rotated]) simp
next
  case Ignore
  with assms have "x \<in> set (d_jobs (fail_parent_hook err st now c s))"
    by (simp add: fail_parent_hook_def unblock_other)
  then show ?thesis by blast
next
  case Continue
  with assms have "x \<in> set (d_jobs (fail_parent_hook err st now c s))"
    by (simp add: fail_parent_hook_def unblock_other)
  then show ?thesis by blast
qed

text \<open>A child that fails for good (\<open>failed\<close> or \<open>dead\<close>) tells its waiting parent, and the
  child's policy decides the parent: \<open>fail_parent\<close> fails it; under \<open>remove_dep\<close>, \<open>ignore\<close> and
  \<open>continue\<close> it goes back to \<open>waiting\<close> exactly when no other child is open. The child has spent
  one more attempt, or is deleted when \<open>remove_on_fail\<close> is set.\<close>

theorem failJob_parent:
  assumes "reachable s" and r: "r \<in> set (d_jobs s)" "holds i t r" "j_parent_job_id r = Some p"
    and q: "q \<in> set (d_jobs s)" "j_id q = p" "j_status q = WaitingChildren"
    and st: "st \<noteq> ToDelayed"
    and s': "s' = snd (failJob i t err st bo now s)"
  shows "(\<exists>q' \<in> set (d_jobs s'). j_id q' = p \<and>
        j_status q' = after_child_failed (j_on_child_fail r) (other_open p i (d_jobs s))) \<and>
    (\<exists>m \<in> set (d_inbox s'). m_job_id m = p \<and>
        m_payload m = child_done i (j_name r) JNull (if st = ToDead then ODead else OFailed) (Some err)) \<and>
    (if j_remove_on_fail r then \<forall>x \<in> set (d_jobs s'). j_id x \<noteq> i
     else \<exists>x \<in> set (d_jobs s'). j_id x = i \<and> j_status x = fail_job_status st \<and>
            j_attempts_made x = j_attempts_made r + 1)"
proof -
  have ok: "db_ok s" using assms(1) by (rule ok_reachable)
  let ?f = "fail_row err st (or_default 0 bo) now"
  let ?c = "rowToMinionJob (?f r)"
  let ?s1 = "s\<lparr>d_jobs := upd_where (\<lambda>x. j_id x = i) ?f (d_jobs s)\<rparr>"
  let ?s2 = "fail_parent_hook err st now ?c ?s1"
  have i: "j_id r = i" "p \<noteq> i"
    using r(2) q ok_unique [OF ok q(1) r(1)] by (auto simp: holds_def)
  have p: "parent_of ?c = Some p"
    using r ok_row_ok [OF ok q(1)] q(2) by (auto simp: parent_of_def fail_row_def row_ok_def)
  have q1: "q \<in> set (d_jobs ?s1)" using q(1,2) i by (auto simp: set_upd_where intro!: image_eqI [of _ _ q])
  have term_f: "terminal (?f x)" for x using st by (cases st) (simp_all add: terminal_iff fail_row_def)
  then have op: "list_ex (open_child_of p) (d_jobs ?s1) = other_open p i (d_jobs s)"
    using open_after_closing [of i ?f p "d_jobs s"] by simp
  have id: "j_id ?c = i" "j_name ?c = j_name r" "j_remove_on_fail ?c = j_remove_on_fail r"
    "j_on_child_fail ?c = j_on_child_fail r"
    using i by (simp_all add: fail_row_def)
  have closed: "terminal x" if "x \<in> set (d_jobs ?s1)" "j_id x = j_id ?c" for x
    using that term_f id by (auto elim!: in_upd_where_cases)
  have s'2: "s' = (if j_remove_on_fail r then delete_jobs (\<lambda>x. j_id x = i) ?s2 else ?s2)"
    using fenced_one [OF ok r(1,2), of ?f] id st by (simp add: s' failJob_def Let_def)
  have "j_id ?c \<noteq> p" using i id by simp
  note eff = fail_parent_hook_effect [OF q1 q(2,3) p this closed refl, of err st now, unfolded op id]
  have "?f r \<in> set (d_jobs ?s1)" using r(1) i by (auto simp: set_upd_where)
  from fail_parent_hook_other [OF this p, of err st now] i
  have row: "\<exists>x \<in> set (d_jobs ?s2). j_id x = i \<and> j_status x = fail_job_status st \<and>
      j_attempts_made x = j_attempts_made r + 1"
    by (simp add: fail_row_def)
  show ?thesis
  proof (cases "j_remove_on_fail r")
    case True
    then have s'3: "s' = delete_jobs (\<lambda>x. j_id x = i) ?s2" by (simp add: s'2)
    from eff(1) obtain q2 where q2: "q2 \<in> set (d_jobs ?s2)" "j_id q2 = p"
      "j_status q2 = after_child_failed (j_on_child_fail r) (other_open p i (d_jobs s))" by blast
    from eff(2) obtain m where m: "m \<in> set (d_inbox ?s2)" "m_job_id m = p"
      "m_payload m = child_done i (j_name r) JNull (if st = ToDead then ODead else OFailed) (Some err)"
      by blast
    from delete_one_keeps [OF q2(1), of i] q2 i have "\<exists>q' \<in> set (d_jobs s'). j_id q' = p \<and>
        j_status q' = after_child_failed (j_on_child_fail r) (other_open p i (d_jobs s))"
      unfolding s'3 by metis
    moreover from inbox_delete [OF m(1), of i] m i have "\<exists>m \<in> set (d_inbox s'). m_job_id m = p \<and>
        m_payload m = child_done i (j_name r) JNull (if st = ToDead then ODead else OFailed) (Some err)"
      unfolding s'3 by blast
    moreover have "\<forall>x \<in> set (d_jobs s'). j_id x \<noteq> i" unfolding s'3 using delete_one by blast
    ultimately show ?thesis using True by simp
  next
    case False
    then have s'3: "s' = ?s2" by (simp add: s'2)
    show ?thesis unfolding s'3 if_not_P [OF False] by (intro conjI eff row)
  qed
qed

lemma failJob_parent_witness:
  "\<exists>q' \<in> set (d_jobs (snd (failJob 2 ''t'' ''boom'' ToDead None 9000000 demo_family))).
     j_id q' = 1 \<and> j_status q' = Failed"
proof -
  have rows: "demo_child \<in> set (d_jobs demo_family)" "demo_parent \<in> set (d_jobs demo_family)"
    by (simp_all add: demo_rows)
  from failJob_parent [OF demo_family_reachable rows(1) demo_child_holds(1,2) rows(2)
      demo_child_holds(3,4) _ refl, of ToDead "''boom''" None 9000000] demo_child_holds(5)
  show ?thesis by (simp add: after_child_failed_def)
qed

text \<open>A failed attempt that is retried leaves every other job and the inbox alone; the job is
  delayed with the attempt counted, no promotion before the due time makes it claimable, and the
  first one at or after the due time does.\<close>

theorem failJob_retry:
  assumes "reachable s" and r: "r \<in> set (d_jobs s)" "holds i t r"
    and s1: "s1 = snd (failJob i t err ToDelayed (Some bo) now s)"
    and s2: "s2 = snd (promoteDelayed later s1)"
  shows "d_jobs s1 = upd_where (\<lambda>x. j_id x = i) (fail_row err ToDelayed bo now) (d_jobs s) \<and>
    d_inbox s1 = d_inbox s \<and>
    (\<exists>x \<in> set (d_jobs s2). j_id x = i \<and> j_attempts_made x = j_attempts_made r + 1 \<and>
       j_lock_token x = None \<and> j_status x = (if later < now + frac_ms bo then Delayed else Waiting))"
proof -
  have ok: "db_ok s" using assms(1) by (rule ok_reachable)
  let ?f = "fail_row err ToDelayed bo now"
  have s1': "s1 = s\<lparr>d_jobs := upd_where (\<lambda>x. j_id x = i) ?f (d_jobs s)\<rparr>"
    using fenced_one [OF ok r, of ?f] by (simp add: s1 failJob_def Let_def or_default_def)
  have id: "j_id r = i" using r(2) by (simp add: holds_def)
  have fr: "?f r \<in> set (d_jobs s1)" using r(1) id by (auto simp: s1' set_upd_where)
  have prom: "promotable later (?f r) \<longleftrightarrow> now + frac_ms bo \<le> later"
    by (simp add: promotable_def fail_row_def)
  have "\<exists>x \<in> set (d_jobs s2). j_id x = i \<and> j_attempts_made x = j_attempts_made r + 1 \<and>
       j_lock_token x = None \<and> j_status x = (if later < now + frac_ms bo then Delayed else Waiting)"
  proof (cases "promotable later (?f r)")
    case True
    with fr have "promote_row later (?f r) \<in> set (d_jobs s2)"
      by (auto simp: s2 promoteDelayed_def set_upd_where)
    then show ?thesis using True prom id
      by (intro bexI [of _ "promote_row later (?f r)"]) (auto simp: promote_row_def fail_row_def)
  next
    case False
    with fr have "?f r \<in> set (d_jobs s2)"
      by (auto simp: s2 promoteDelayed_def set_upd_where intro!: image_eqI [of _ _ "?f r"])
    then show ?thesis using False prom id
      by (intro bexI [of _ "?f r"]) (auto simp: fail_row_def)
  qed
  then show ?thesis by (simp add: s1')
qed

lemma failJob_retry_witness:
  "\<exists>x \<in> set (d_jobs (snd (promoteDelayed 10000000
       (snd (failJob 1 ''b'' ''boom'' ToDelayed (Some 1000) 9000000 demo_reclaimed))))).
     j_id x = 1 \<and> j_status x = Waiting"
proof -
  have "demo_second \<in> set (d_jobs demo_reclaimed)" by (simp add: demo_rows)
  from failJob_retry [OF demo_reachable(4) this demo_second_holds refl refl, of "''boom''" 1000 9000000 10000000]
  show ?thesis by (simp add: frac_ms_def) blast
qed

section \<open>The stall sweep\<close>


end
