(* ===== verification/SweepProps.thy ===== *)
theory SweepProps
  imports QueueLifecycle
begin

text \<open>
  Properties of the sweeps and of cancellation: the verdict of the stall sweep, the timeout
  killer and its disjointness from the stall sweep, the failure mode of the wall-clock sweep,
  the extent of a cancellation cascade and its owner fence, and the budget of the TTL sweep.
\<close>

section \<open>Rows the shared tail leaves alone\<close>

lemma unblock_keeps:
  "x \<in> set (d_jobs s) \<Longrightarrow> j_status x \<noteq> WaitingChildren \<Longrightarrow> x \<in> set (d_jobs (unblock_parent now p s))"
  by (simp add: unblock_parent_def unblockable_def in_upd_miss)

lemma notify_jobs [simp]: "d_jobs (notify_parent now oc e r s) = d_jobs s"
  by (simp add: notify_parent_def split: option.split)

lemma fold_notify_jobs [simp]: "d_jobs (fold (notify_parent now oc e) rows s) = d_jobs s"
  by (induction rows arbitrary: s) simp_all

lemma fold_unblock_keeps:
  "x \<in> set (d_jobs s) \<Longrightarrow> j_status x \<noteq> WaitingChildren \<Longrightarrow>
     x \<in> set (d_jobs (fold (unblock_parent now) ps s))"
  by (induction ps arbitrary: s) (simp_all add: unblock_keeps)

lemma kill_keeps:
  "x \<in> set (d_jobs s) \<Longrightarrow> j_status x \<noteq> WaitingChildren \<Longrightarrow> x \<in> set (d_jobs (killJobs now rows oc e s))"
  by (simp add: killJobs_def fold_unblock_keeps)

lemma unblock_all_keeps:
  "x \<in> set (d_jobs s) \<Longrightarrow> j_status x \<noteq> WaitingChildren \<Longrightarrow> x \<in> set (d_jobs (unblock_all now s))"
  by (simp add: unblock_all_def unblockable_def in_upd_miss)

lemma kill_row_dead: "j_status (kill_row e now r) = Dead" "j_id (kill_row e now r) = j_id r"
  by (simp_all add: kill_row_def)

section \<open>Stalls and timeouts\<close>

lemma stall_spares:
  assumes "r \<in> set (d_jobs s)" and "j_status r = Active" and "\<not> stalled grace now busy r"
  shows "r \<in> set (d_jobs (snd (handleStalled grace now busy s)))"
proof -
  have "r \<in> set (upd_where (stall_dead grace now busy) (stall_kill_row now)
      (upd_where (stall_requeue grace now busy) (requeue_row now) (d_jobs s)))"
    using assms by (intro in_upd_miss) (auto simp: stall_requeue_def stall_dead_def)
  with assms(2) show ?thesis
    by (auto simp: handleStalled_def Let_def intro!: unblock_all_keeps kill_keeps)
qed

text \<open>The stall sweep gives every active job whose lease ran out more than the grace ago its
  verdict: back to \<open>waiting\<close> without its lock and with one strike more, or, at the last strike,
  \<open>dead\<close> with its attempt counted. An active job whose lease is good is left as it is.\<close>

theorem stall_verdict:
  assumes r: "r \<in> set (d_jobs s)" and "j_status r = Active"
    and s': "s' = snd (handleStalled grace now busy s)"
  shows "if stalled grace now busy r then
      \<exists>r' \<in> set (d_jobs s'). j_id r' = j_id r \<and> j_stalled_counter r' = j_stalled_counter r + 1 \<and>
        j_lock_token r' = None \<and>
        (if j_stalled_counter r + 1 < j_max_stalled r
         then j_status r' = Waiting \<and> j_attempts_made r' = j_attempts_made r
         else j_status r' = Dead \<and> j_attempts_made r' = j_attempts_made r + 1)
    else r \<in> set (d_jobs s')"
proof -
  let ?req = "stall_requeue grace now busy" and ?dead = "stall_dead grace now busy"
  let ?js1 = "upd_where ?req (requeue_row now) (d_jobs s)"
  let ?js2 = "upd_where ?dead (stall_kill_row now) ?js1"
  have keep: "x \<in> set (d_jobs s')" if "x \<in> set ?js2" "j_status x \<noteq> WaitingChildren" for x
    using that by (auto simp: s' handleStalled_def Let_def intro!: unblock_all_keeps kill_keeps)
  consider "stalled grace now busy r" "j_stalled_counter r + 1 < j_max_stalled r"
    | "stalled grace now busy r" "\<not> j_stalled_counter r + 1 < j_max_stalled r"
    | "\<not> stalled grace now busy r" by blast
  then show ?thesis
  proof cases
    case 1
    then have "requeue_row now r \<in> set ?js1" using r by (simp add: in_upd_hit stall_requeue_def)
    then have "requeue_row now r \<in> set ?js2"
      by (rule in_upd_miss) (simp add: stall_dead_def stalled_def requeue_row_def)
    then have "requeue_row now r \<in> set (d_jobs s')" by (rule keep) (simp add: requeue_row_def)
    with 1 show ?thesis by (auto simp: requeue_row_def intro!: bexI [of _ "requeue_row now r"])
  next
    case 2
    then have "r \<in> set ?js1" using r by (intro in_upd_miss) (auto simp: stall_requeue_def)
    then have "stall_kill_row now r \<in> set ?js2" using 2 by (simp add: in_upd_hit stall_dead_def)
    then have "stall_kill_row now r \<in> set (d_jobs s')"
      by (rule keep) (simp add: stall_kill_row_def kill_row_def)
    with 2 show ?thesis
      by (auto simp: stall_kill_row_def kill_row_def intro!: bexI [of _ "stall_kill_row now r"])
  next
    case 3
    with r assms(2) show ?thesis by (simp add: s' stall_spares)
  qed
qed

lemma stall_verdict_witness:
  "\<exists>r' \<in> set (d_jobs demo_swept). j_id r' = 1 \<and> j_stalled_counter r' = 1 \<and> j_status r' = Waiting"
proof -
  have row: "demo_active 1 ''a'' \<in> set (d_jobs demo_claimed)" by (simp add: demo_rows)
  have f: "j_status (demo_active 1 ''a'') = Active" "stalled 15000 60000000 {} (demo_active 1 ''a'')"
    "j_stalled_counter (demo_active 1 ''a'') = 0" "j_max_stalled (demo_active 1 ''a'') = 5"
    "j_id (demo_active 1 ''a'') = 1"
    by code_simp+
  from stall_verdict [OF row f(1) demo_swept_def] f show ?thesis by auto
qed

lemma grace_nonneg: "0 \<le> resolveStallReclaimGraceMs raw"
proof -
  have "0 \<le> dec_val s" if "list_all js_digit s" for s
    using that
  proof (induction s rule: rev_induct)
    case (snoc c s)
    then show ?case by (simp add: dec_val_append js_digit_def)
  qed (simp add: dec_val_def)
  then show ?thesis by (auto simp: resolveStallReclaimGraceMs_def Let_def split: option.split)
qed

lemma notify_inbox:
  "m \<in> set (d_inbox s) \<Longrightarrow> m \<in> set (d_inbox (notify_parent now oc e r s))"
  by (auto simp: notify_parent_def post_to_open_parent_def insert_inbox_def split: option.split)

lemma fold_notify_inbox:
  "m \<in> set (d_inbox s) \<Longrightarrow> m \<in> set (d_inbox (fold (notify_parent now oc e) rows s))"
  by (induction rows arbitrary: s) (simp_all add: notify_inbox)

lemma fold_unblock_inbox [simp]: "d_inbox (fold (unblock_parent now) ps s) = d_inbox s"
  by (induction ps arbitrary: s) simp_all

lemma fold_notify_posts:
  "r \<in> set rows \<Longrightarrow> j_parent_job_id r = Some p \<Longrightarrow> q \<in> set (d_jobs s) \<Longrightarrow> j_id q = p \<Longrightarrow> \<not> terminal q \<Longrightarrow>
     \<exists>m \<in> set (d_inbox (fold (notify_parent now oc e) rows s)). m_job_id m = p \<and>
       m_payload m = child_done (j_id r) (j_name r) JNull oc (Some e)"
proof (induction rows arbitrary: s)
  case (Cons x rows)
  show ?case
  proof (cases "x = r")
    case True
    with Cons.prems obtain m where "m \<in> set (d_inbox (notify_parent now oc e x s))" "m_job_id m = p"
      "m_payload m = child_done (j_id r) (j_name r) JNull oc (Some e)"
      using post_inbox [of q s p now "child_done (j_id r) (j_name r) JNull oc (Some e)"]
      by (auto simp: notify_parent_def)
    with fold_notify_inbox show ?thesis by fastforce
  next
    case False
    with Cons.prems Cons.IH [of "notify_parent now oc e x s"] show ?thesis by simp
  qed
qed simp

text \<open>A job that outlives its deadline under a good lease is dead after the timeout sweep, with
  the attempt counted, and its open parent is told; such a job is never one the stall sweep of
  the same moment would touch, whatever grace is configured.\<close>

theorem timeout_kills:
  assumes r: "r \<in> set (d_jobs s)" "timed_out now busy r"
    and s': "s' = snd (handleTimeouts now busy s)"
  shows "(\<exists>r' \<in> set (d_jobs s'). j_id r' = j_id r \<and> j_status r' = Dead \<and> j_lock_token r' = None \<and>
        j_attempts_made r' = j_attempts_made r + 1) \<and>
    (\<forall>q \<in> set (d_jobs s). j_parent_job_id r = Some (j_id q) \<longrightarrow> \<not> terminal q \<longrightarrow> j_status q \<noteq> Active \<longrightarrow>
        (\<exists>m \<in> set (d_inbox s'). m_job_id m = j_id q \<and>
           m_payload m = child_done (j_id r) (j_name r) JNull OTimeout (Some ''timeout exceeded''))) \<and>
    \<not> stalled (resolveStallReclaimGraceMs raw) now busy' r"
proof -
  let ?kill = "kill_row ''timeout exceeded'' now"
  let ?rows = "returning (timed_out now busy) ?kill (d_jobs s)"
  let ?s1 = "s\<lparr>d_jobs := upd_where (timed_out now busy) ?kill (d_jobs s)\<rparr>"
  have s'2: "s' = killJobs now ?rows OTimeout ''timeout exceeded'' ?s1"
    by (simp add: s' handleTimeouts_def Let_def)
  have dead: "?kill r \<in> set (d_jobs s')"
    unfolding s'2 using r by (intro kill_keeps) (simp_all add: in_upd_hit kill_row_dead)
  have msg: "\<exists>m \<in> set (d_inbox s'). m_job_id m = j_id q \<and>
      m_payload m = child_done (j_id r) (j_name r) JNull OTimeout (Some ''timeout exceeded'')"
    if q: "q \<in> set (d_jobs s)" "j_parent_job_id r = Some (j_id q)" "\<not> terminal q" "j_status q \<noteq> Active" for q
  proof -
    have "?kill r \<in> set ?rows" using r by (simp add: set_returning)
    moreover have "q \<in> set (d_jobs ?s1)" using q by (simp add: in_upd_miss timed_out_def)
    ultimately show ?thesis
      using fold_notify_posts [of "?kill r" ?rows "j_id q" q ?s1 now OTimeout "''timeout exceeded''"] q
      by (simp add: s'2 killJobs_def kill_row_def)
  qed
  have "0 \<le> resolveStallReclaimGraceMs raw" by (rule grace_nonneg)
  then have "\<not> stalled (resolveStallReclaimGraceMs raw) now busy' r"
    using r(2) by (cases "j_lock_until r") (auto simp: timed_out_def stalled_def ms_def)
  with dead msg show ?thesis by (auto simp: kill_row_def intro!: bexI [of _ "?kill r"])
qed

lemma timeout_kills_witness:
  "timed_out 6500000 {} demo_late \<and>
   (\<exists>r' \<in> set (d_jobs (snd (handleTimeouts 6500000 {} (demo_db [demo_late] 2)))). j_status r' = Dead)"
proof -
  have late: "timed_out 6500000 {} demo_late" by code_simp
  have row: "demo_late \<in> set (d_jobs (demo_db [demo_late] 2))" by (simp add: demo_db_def)
  from timeout_kills [OF row late refl] late show ?thesis by blast
qed

section \<open>The wall clock\<close>

text \<open>The wall-clock sweep kills every running job past its limit, unless one running job has a
  \<open>timeout_ms\<close> above 1073741823: doubling it leaves \<open>int4\<close>, and the whole statement fails, so
  that no job is killed.\<close>

theorem wall_clock_sweep:
  "case handleWallClockTimeouts d now busy s of
     Inl e \<Rightarrow> \<exists>r \<in> set (d_jobs s). running r \<and>
       (\<exists>t. j_timeout_ms r = Some t \<and> \<not> (- 1073741824 \<le> t \<and> t \<le> 1073741823))
   | Inr (rows, s') \<Rightarrow>
       (\<forall>r \<in> set (d_jobs s). running r \<longrightarrow>
          (\<forall>t. j_timeout_ms r = Some t \<longrightarrow> - 1073741824 \<le> t \<and> t \<le> 1073741823)) \<and>
       (\<forall>r \<in> set (d_jobs s). over_wall_clock d now busy r \<longrightarrow>
          (\<exists>r' \<in> set (d_jobs s'). j_id r' = j_id r \<and> j_status r' = Dead))"
proof -
  have th: "wall_threshold_ms d r = None \<longleftrightarrow>
      (\<exists>t. j_timeout_ms r = Some t \<and> \<not> (- 1073741824 \<le> t \<and> t \<le> 1073741823))" for r
    by (auto simp: wall_threshold_ms_def int4_ok_def split: option.split)
  let ?kill = "kill_row ''wall-clock timeout exceeded'' now" and ?P = "over_wall_clock d now busy"
  let ?rows = "returning ?P ?kill (d_jobs s)"
  let ?s' = "killJobs now ?rows OTimeout ''wall-clock timeout exceeded''
      (s\<lparr>d_jobs := upd_where ?P ?kill (d_jobs s)\<rparr>)"
  have dead: "\<exists>r' \<in> set (d_jobs ?s'). j_id r' = j_id r \<and> j_status r' = Dead"
    if "r \<in> set (d_jobs s)" "?P r" for r
  proof -
    have "?kill r \<in> set (d_jobs ?s')"
      using that by (intro kill_keeps) (simp_all add: in_upd_hit kill_row_dead)
    then show ?thesis by (rule bexI [rotated]) (simp add: kill_row_dead)
  qed
  show ?thesis
  proof (cases "list_ex (\<lambda>r. running r \<and> wall_threshold_ms d r = None) (d_jobs s)")
    case True
    then have "handleWallClockTimeouts d now busy s = Inl IntegerOutOfRange"
      by (simp add: handleWallClockTimeouts_def)
    moreover from True obtain r where "r \<in> set (d_jobs s)" "running r" "wall_threshold_ms d r = None"
      by (auto simp: list_ex_iff)
    ultimately show ?thesis using th by auto
  next
    case False
    then have "handleWallClockTimeouts d now busy s = Inr (map rowToMinionJob ?rows, ?s')"
      by (simp add: handleWallClockTimeouts_def Let_def)
    moreover have "\<forall>r \<in> set (d_jobs s). running r \<longrightarrow>
          (\<forall>t. j_timeout_ms r = Some t \<longrightarrow> - 1073741824 \<le> t \<and> t \<le> 1073741823)"
      using False th by (auto simp: list_ex_iff)
    ultimately show ?thesis using dead by simp
  qed
qed

lemma wall_clock_sweep_witness:
  "\<exists>r \<in> set (d_jobs (demo_db [demo_active 1 ''a'', demo_patient] 3)). running r \<and>
     (\<exists>t. j_timeout_ms r = Some t \<and> 1073741823 < t)"
proof -
  let ?s = "demo_db [demo_active 1 ''a'', demo_patient] 3"
  have "\<exists>e. handleWallClockTimeouts 30000 900000000 {} ?s = Inl e"
  proof -
    have "(case handleWallClockTimeouts 30000 900000000 {} ?s of Inl e \<Rightarrow> True | Inr x \<Rightarrow> False)"
      by code_simp
    then show ?thesis by (simp split: sum.splits)
  qed
  then obtain e where e: "handleWallClockTimeouts 30000 900000000 {} ?s = Inl e" by blast
  have small: "j_timeout_ms (demo_active 1 ''a'') = None" "j_timeout_ms demo_patient = Some 2000000000"
    by code_simp+
  from wall_clock_sweep [where d = 30000 and now = 900000000 and busy = "{}" and s = ?s] show ?thesis
    unfolding e using small by (auto simp: demo_db_def)
qed

section \<open>Cancellation\<close>

text \<open>\<open>below js i n k\<close>: the job \<open>k\<close> is \<open>n\<close> levels below \<open>i\<close>.\<close>

inductive below :: "minion_job list \<Rightarrow> int \<Rightarrow> nat \<Rightarrow> int \<Rightarrow> bool" for js :: "minion_job list" where
  self: "below js i 0 i"
| child: "c \<in> set js \<Longrightarrow> j_parent_job_id c = Some i \<Longrightarrow> below js (j_id c) n k \<Longrightarrow> below js i (Suc n) k"

inductive_simps below_0: "below js i 0 k"
inductive_simps below_Suc: "below js i (Suc n) k"

lemma in_children_ids:
  "k \<in> set (children_ids js ids) \<longleftrightarrow> (\<exists>c \<in> set js. \<exists>p \<in> set ids. j_parent_job_id c = Some p \<and> k = j_id c)"
  by (auto simp: children_ids_def)

lemma below_nothing: "ids = [] \<Longrightarrow> set (descend n js ids) = {}"
  by (cases n) simp_all

lemma descend_below: "k \<in> set (descend m js ids) \<longleftrightarrow> (\<exists>i \<in> set ids. \<exists>n \<le> m. below js i n k)"
proof (induction m arbitrary: ids)
  case 0
  then show ?case by (auto simp: below_0)
next
  case (Suc m)
  have "(\<exists>i \<in> set ids. \<exists>n \<le> Suc m. below js i n k) \<longleftrightarrow>
      k \<in> set ids \<or> (\<exists>i \<in> set ids. \<exists>n \<le> m. below js i (Suc n) k)" (is "?L \<longleftrightarrow> ?R")
  proof
    assume ?L
    then obtain i n where "i \<in> set ids" "n \<le> Suc m" "below js i n k" by blast
    then show ?R by (cases n) (auto simp: below_0)
  next
    assume ?R
    then show ?L by (auto intro: below.self exI [of _ 0])
  qed
  also have "(\<exists>i \<in> set ids. \<exists>n \<le> m. below js i (Suc n) k) \<longleftrightarrow>
      (\<exists>i \<in> set (children_ids js ids). \<exists>n \<le> m. below js i n k)"
    by (fastforce simp: below_Suc in_children_ids)
  finally show ?case using Suc.IH [of "children_ids js ids"] by auto
qed

lemma list_all2_upd:
  "(\<And>r. r \<in> set js \<Longrightarrow> R r (if P r then f r else r)) \<Longrightarrow> list_all2 R js (upd_where P f js)"
  by (simp add: upd_where_def list_all2_map2 list.rel_refl_strong)

definition same_cancelled :: "minion_job \<Rightarrow> minion_job \<Rightarrow> bool" where
  "same_cancelled r r' = (j_id r' = j_id r \<and> (j_status r' = Cancelled \<longleftrightarrow> j_status r = Cancelled))"

lemma same_cancelled_trans: "same_cancelled a b \<Longrightarrow> same_cancelled b c \<Longrightarrow> same_cancelled a c"
  by (simp add: same_cancelled_def)

lemma unblock_cancelled: "list_all2 same_cancelled (d_jobs s) (d_jobs (unblock_parent now p s))"
  by (auto simp: unblock_parent_def same_cancelled_def unblock_row_def unblockable_def intro: list_all2_upd)

lemma fold_unblock_cancelled: "list_all2 same_cancelled (d_jobs s) (d_jobs (fold (unblock_parent now) ps s))"
proof (induction ps arbitrary: s)
  case Nil
  then show ?case by (auto simp: same_cancelled_def intro: list.rel_refl_strong)
next
  case (Cons p ps)
  from list_all2_trans [OF same_cancelled_trans unblock_cancelled [of s now p] Cons.IH]
  show ?case by simp
qed

lemma cancel_upd:
  "list_all2 (\<lambda>r r'. j_id r' = j_id r \<and> (j_status r' = Cancelled \<longleftrightarrow>
      j_status r = Cancelled \<or> (\<not> terminal r \<and> j_id r \<in> T))) js
    (upd_where (\<lambda>r. j_id r \<in> T \<and> j_status r \<in> set non_terminal_statuses) (cancel_row ids why now) js)"
  by (rule list_all2_upd) (auto simp add: cancel_row_def statuses_partition terminal_def)

text \<open>C29: a cancellation reaches exactly the subtree: a job is cancelled afterwards exactly when it
  already was, or when it is not terminal and lies at most 100 levels below one of the given
  jobs that passes the status and owner filters. No job is added or lost.\<close>

theorem cancel_reaches_subtree:
  assumes "ids \<noteq> []" and s': "s' = snd (cancelJobs ids why sts own now s)"
  shows "list_all2 (\<lambda>r r'. j_id r' = j_id r \<and>
      (j_status r' = Cancelled \<longleftrightarrow> j_status r = Cancelled \<or>
         (\<not> terminal r \<and> (\<exists>root \<in> set (d_jobs s). cancel_seed ids sts own root \<and>
            (\<exists>n \<le> 100. below (d_jobs s) (j_id root) n (j_id r))))))
    (d_jobs s) (d_jobs s')"
proof -
  let ?t = "cancel_set ids sts own (d_jobs s)"
  let ?P = "\<lambda>r. j_id r \<in> set ?t \<and> j_status r \<in> set non_terminal_statuses"
  let ?rows = "returning ?P (cancel_row ids why now) (d_jobs s)"
  let ?s1 = "s\<lparr>d_jobs := upd_where ?P (cancel_row ids why now) (d_jobs s)\<rparr>"
  have t: "k \<in> set ?t \<longleftrightarrow> (\<exists>root \<in> set (d_jobs s). cancel_seed ids sts own root \<and>
            (\<exists>n \<le> 100. below (d_jobs s) (j_id root) n k))" for k
    by (auto simp: cancel_set_def descend_below)
  have eq: "d_jobs s' = d_jobs (fold (unblock_parent now) (parents_of ?rows)
      (fold (notify_parent now OCancelled ''cancelled'') ?rows ?s1))"
    using assms(1) by (simp add: s' cancelJobs_def Let_def)
  have tail: "list_all2 same_cancelled (d_jobs ?s1) (d_jobs s')"
    unfolding eq using fold_unblock_cancelled [of "fold (notify_parent now OCancelled ''cancelled'') ?rows ?s1"]
    by (simp only: fold_notify_jobs)
  have js1: "d_jobs ?s1 = upd_where ?P (cancel_row ids why now) (d_jobs s)" by simp
  have first: "list_all2 (\<lambda>r r'. j_id r' = j_id r \<and> (j_status r' = Cancelled \<longleftrightarrow>
      j_status r = Cancelled \<or> (\<not> terminal r \<and> j_id r \<in> set ?t))) (d_jobs s) (d_jobs ?s1)"
    unfolding js1 by (rule cancel_upd)
  show ?thesis
    by (rule list_all2_trans [OF _ first [unfolded t] tail [unfolded t]]) (simp add: same_cancelled_def)
qed

lemma cancel_reaches_subtree_witness:
  "list_all2 (\<lambda>r r'. j_id r' = j_id r) (d_jobs demo_family)
     (d_jobs (snd (cancelJobs [1] None None None 9000000 demo_family)))"
proof -
  have "[1] \<noteq> ([] :: int list)" by simp
  from cancel_reaches_subtree [OF this refl, where why = None and sts = None and own = None
      and now = 9000000 and s = demo_family]
  show ?thesis by (rule list_all2_mono) simp
qed

text \<open>The owner fence: cancelling a job on behalf of a client that does not own it is refused
  and changes nothing, its subtree included.\<close>

theorem cancel_owner_fence:
  assumes "reachable s" and "r \<in> set (d_jobs s)" and "client \<noteq> []"
    and "json_get_text (j_data r) ''__owner_client_id'' \<noteq> Some client"
  shows "cancelJob (j_id r) (Some client) now s = (None, s)"
proof -
  have "cancel_seed [j_id r] None (Some client) x = False" if "x \<in> set (d_jobs s)" for x
    using ok_unique [OF ok_reachable [OF assms(1)] that assms(2)] assms(4)
    by (auto simp: cancel_seed_def)
  then have "filter (cancel_seed [j_id r] None (Some client)) (d_jobs s) = []"
    by (simp add: filter_empty_conv)
  then have "set (cancel_set [j_id r] None (Some client) (d_jobs s)) = {}"
    by (simp add: cancel_set_def below_nothing)
  with assms(3) show ?thesis
    by (simp add: cancelJob_def cancelJobs_def or_null_def Let_def returning_def parents_of_def)
qed

lemma cancel_owner_fence_witness:
  "cancelJob 1 (Some ''mallory'') 9000000 demo_submitted = (None, demo_submitted)"
proof -
  have row: "demo_row 1 \<in> set (d_jobs demo_submitted)" by (simp add: demo_rows)
  have f: "''mallory'' \<noteq> []" "json_get_text (j_data (demo_row 1)) ''__owner_client_id'' \<noteq> Some ''mallory''"
    "j_id (demo_row 1) = 1"
    by code_simp+
  from cancel_owner_fence [OF demo_reachable(1) row f(1,2), of 9000000] show ?thesis by (simp add: f(3))
qed

end
