(* ===== verification/AdminProps.thy ===== *)
theory AdminProps
  imports SweepProps
begin

text \<open>
  Properties of the TTL sweep's budget, of the private-queue lease and recovery, of the inbox and
  of the operator's operations.
\<close>

section \<open>The TTL budget\<close>

lemma sum_map_set:
  "sum_list (map snd (map_set k (or_default 0 (map_of xs k) + n) xs)) = sum_list (map snd xs) + (n :: int)"
  by (induction xs) (auto simp: or_default_def)

lemma count_in_ids:
  assumes "distinct (map j_id rows)"
  shows "length (filter (\<lambda>j. j_id j \<in> set ids) rows) \<le> length ids"
proof -
  let ?f = "filter (\<lambda>j. j_id j \<in> set ids) rows"
  have "length ?f = card (set (map j_id ?f))"
    using assms distinct_card [of "map j_id ?f"] by (simp add: distinct_map_filter)
  also have "\<dots> \<le> card (set ids)" by (intro card_mono) auto
  also have "\<dots> \<le> length ids" by (rule card_length)
  finally show ?thesis .
qed

lemma swept_distinct:
  assumes "db_ok s"
  shows "distinct (map j_id (fst (cancelJobs ids why sts own now s)))"
proof -
  have "map j_id (map rowToMinionJob (returning P (cancel_row ids why now) (d_jobs s))) =
      map j_id (filter P (d_jobs s))" for P
    by (simp add: returning_def row_ids)
  with ok_distinct [OF assms] show ?thesis
    by (simp add: cancelJobs_def Let_def distinct_map_filter del: map_map)
qed

lemma ttl_loop_budget:
  assumes "db_ok s" and "0 \<le> c" and "c \<le> m" and "sum_list (map snd by_name) = c"
  shows "case ttl_loop reason_of m now names (c, by_name) s of ((c', by'), s') \<Rightarrow>
    0 \<le> c' \<and> c' \<le> m \<and> sum_list (map snd by') = c'"
  using assms
proof (induction names arbitrary: c by_name s)
  case (Cons nh names)
  obtain name hours where nh: "nh = (name, hours)" by (cases nh)
  let ?stale = "ttl_stale now name hours (m - c) (d_jobs s)"
  let ?r = "cancelJobs ?stale (Some (reason_of name hours)) (Some [Waiting]) None now s"
  let ?n = "int (length (filter (\<lambda>j. j_id j \<in> set ?stale) (fst ?r)))"
  show ?case
  proof (cases "c \<ge> m \<or> ?stale = []")
    case True
    show ?thesis
    proof (cases "c \<ge> m")
      case True
      with Cons.prems show ?thesis by (simp add: nh)
    next
      case False
      with True Cons.IH [OF Cons.prems] show ?thesis by (simp add: nh)
    qed
  next
    case False
    have "length (filter (\<lambda>j. j_id j \<in> set ?stale) (fst ?r)) \<le> length ?stale"
      by (rule count_in_ids [OF swept_distinct [OF Cons.prems(1)]])
    also have "\<dots> \<le> nat (m - c)" by (simp add: ttl_stale_def)
    finally have n: "?n \<le> m - c" using Cons.prems(3) by (simp add: le_nat_iff)
    have ok: "db_ok (snd ?r)" by (rule ok_cancelJobs [OF Cons.prems(1)])
    have "case ttl_loop reason_of m now names (c + ?n, map_set name (or_default 0 (map_of by_name name) + ?n) by_name) (snd ?r)
        of ((c', by'), s') \<Rightarrow> 0 \<le> c' \<and> c' \<le> m \<and> sum_list (map snd by') = c'"
      using Cons.IH [OF ok, of "c + ?n"] Cons.prems n by (simp add: sum_map_set)
    then show ?thesis using False by (simp add: nh Let_def split_beta)
  qed
qed simp

text \<open>One tick of the TTL sweep cancels at most its budget of expired jobs, however many names
  have a TTL, and its per-name counts add up to its total.\<close>

theorem ttl_sweep_budget:
  assumes "reachable s"
  shows "case handleWaitingTTL reason_of maxPerTick killed engine now s of ((cancelled, by_name), s') \<Rightarrow>
    0 \<le> cancelled \<and> cancelled \<le> max 1 (or_default 500 maxPerTick) \<and>
    sum_list (map snd by_name) = cancelled"
  unfolding handleWaitingTTL_def by (rule ttl_loop_budget [OF ok_reachable [OF assms]]) simp_all

definition demo_engine :: config_engine where
  "demo_engine = \<lparr>get_config = (\<lambda>k. Some (if k = ''minions.ttl_waiting_hours.sync'' then Some ''1'' else None)),
     list_config_keys = Some (\<lambda>p. Some [''minions.ttl_waiting_hours.sync''])\<rparr>"

lemma ttl_sweep_budget_witness:
  "\<exists>cancelled by_name s'. handleWaitingTTL (\<lambda>_ _. ''old'') (Some 1) False demo_engine 3700000000000 demo_pair =
     ((cancelled, by_name), s') \<and> cancelled = 1 \<and> cancelled \<le> max 1 (or_default 500 (Some 1))"
proof -
  let ?r = "handleWaitingTTL (\<lambda>_ _. ''old'') (Some 1) False demo_engine 3700000000000 demo_pair"
  have "fst (fst ?r) = 1" by code_simp
  with ttl_sweep_budget [OF demo_pair_reachable, where reason_of = "\<lambda>_ _. ''old''" and maxPerTick = "Some 1"
      and killed = False and engine = demo_engine and now = 3700000000000]
  show ?thesis by (cases ?r) (auto split: prod.splits)
qed

section \<open>Private queues\<close>

text \<open>Crash recovery cancels nothing alive: if it changes the database at all beyond what other
  sessions did, then, on the state they left, the queue is private and its verdict is orphan:
  none of its open jobs runs under a good lock or was touched in the last two minutes, none of
  its owner jobs runs under a good lock, some open job carries owner metadata, and either owners
  are named and all of them are over, or no lease on the queue is still running.\<close>

theorem recovery_spares_live:
  assumes "snd (recover_queue why now js_now other q (res, s)) \<noteq> s"
    and "snd (recover_queue why now js_now other q (res, s)) \<noteq> other s"
  shows "isDreamInlinePrivateQueue q \<and>
    (\<forall>r \<in> set (d_jobs (other s)). open_in_queue q r \<longrightarrow>
       \<not> healthy now r \<and> j_updated_at r \<le> now - 120000000) \<and>
    (\<forall>o' \<in> set (owner_rows q (d_jobs (other s))). \<not> healthy now o') \<and>
    (\<exists>r \<in> set (d_jobs (other s)). open_in_queue q r \<and> has_metadata r) \<and>
    ((queue_owner_ids q (d_jobs (other s)) \<noteq> [] \<and>
        (\<forall>o' \<in> set (owner_rows q (d_jobs (other s))). terminal o')) \<or>
     (\<forall>r \<in> set (d_jobs (other s)). open_in_queue q r \<longrightarrow> \<not> sql_gt (j_private_queue_lease_until r) now))"
proof -
  let ?s1 = "other s"
  from assms have orphan: "classifyPrivateQueueForRecovery q now js_now ?s1 = VOrphan"
    by (auto simp: recover_queue_def Let_def split: queue_verdict.splits if_splits)
  from assms have "isDreamInlinePrivateQueue q"
    by (auto simp: recover_queue_def reconcilePrivateQueue_def Let_def split: queue_verdict.splits if_splits)
  moreover have "\<not> list_ex (healthy now) (filter (open_in_queue q) (d_jobs ?s1))"
    "\<not> list_ex (healthy now) (owner_rows q (d_jobs ?s1))"
    "list_ex has_metadata (filter (open_in_queue q) (d_jobs ?s1))"
    "\<not> list_ex (\<lambda>r. j_updated_at r > now - 120000000) (filter (open_in_queue q) (d_jobs ?s1))"
    "(queue_owner_ids q (d_jobs ?s1) \<noteq> [] \<and>
        \<not> list_ex (\<lambda>r. j_status r \<in> set non_terminal_statuses) (owner_rows q (d_jobs ?s1))) \<or>
      \<not> list_ex (\<lambda>r. sql_gt (j_private_queue_lease_until r) now) (filter (open_in_queue q) (d_jobs ?s1))"
    using orphan unfolding classifyPrivateQueueForRecovery_def Let_def
    by (meson queue_verdict.distinct)+
  ultimately show ?thesis
    by (auto simp: list_ex_iff statuses_partition terminal_def not_less)
qed

text \<open>Renewing a private queue's lease touches only the open jobs of that queue that carry the
  owner's token, never shortens a lease, and reports how many it renewed.\<close>

theorem lease_only_extends:
  assumes "renewPrivateQueueLease q token leaseMs now s = Inr (n, s')"
  shows "n = int (length (filter (owned_open q token) (d_jobs s))) \<and>
    list_all2 (\<lambda>r r'. if owned_open q token r
        then (\<exists>t. j_private_queue_lease_until r' = Some t \<and> now < t \<and>
               (\<forall>t0. j_private_queue_lease_until r = Some t0 \<longrightarrow> t0 \<le> t)) \<and>
             r'\<lparr>j_private_queue_lease_until := None, j_updated_at := 0\<rparr> =
             r\<lparr>j_private_queue_lease_until := None, j_updated_at := 0\<rparr>
        else r' = r) (d_jobs s) (d_jobs s')"
proof -
  let ?f = "lease_row (or_default 600000 leaseMs) now"
  from assms have "n = int (length (returning (owned_open q token) ?f (d_jobs s)))"
    and s': "s' = s\<lparr>d_jobs := upd_where (owned_open q token) ?f (d_jobs s)\<rparr>"
    by (auto simp: renewPrivateQueueLease_def Let_def split: if_splits)
  moreover have "now < now + ms (max 1 (or_default 600000 leaseMs))" by (simp add: ms_def)
  moreover have "or_default 0 (Some t) = t" for t :: int by (simp add: or_default_def)
  ultimately show ?thesis
    by (auto simp: returning_def lease_row_def less_max_iff_disj intro!: list_all2_upd)
qed

lemma lease_only_extends_witness:
  "\<exists>n s'. renewPrivateQueueLease ''dream-inline-x'' ''tok'' None 6000000 (demo_db [demo_private] 2) = Inr (n, s') \<and> n = 1"
proof -
  let ?s = "demo_db [demo_private] 2"
  have "(case renewPrivateQueueLease ''dream-inline-x'' ''tok'' None 6000000 ?s of Inr (n, s') \<Rightarrow> True | Inl _ \<Rightarrow> False)"
    by code_simp
  then obtain n s' where r: "renewPrivateQueueLease ''dream-inline-x'' ''tok'' None 6000000 ?s = Inr (n, s')"
    by (auto split: sum.splits prod.splits)
  have "filter (owned_open ''dream-inline-x'' ''tok'') (d_jobs ?s) = [demo_private]" by code_simp
  with lease_only_extends [OF r] r show ?thesis by simp
qed

lemma recovery_spares_live_witness:
  "isDreamInlinePrivateQueue ''dream-inline-x'' \<and>
   d_jobs (snd (recover_queue ''r'' 900000000 900000 (\<lambda>s. s) ''dream-inline-x''
     (demo_result, demo_db [demo_private] 2))) \<noteq> [demo_private]"
proof -
  let ?s = "demo_db [demo_private] 2"
  let ?s' = "snd (recover_queue ''r'' 900000000 900000 (\<lambda>s. s) ''dream-inline-x'' (demo_result, ?s))"
  have ne: "d_jobs ?s' \<noteq> [demo_private]" by code_simp
  then have "?s' \<noteq> ?s" by (auto simp: demo_db_def)
  from recovery_spares_live [OF this this] ne show ?thesis by blast
qed

section \<open>The inbox\<close>

text \<open>Only the operator and the job's parent reach a job's inbox, and only while the job is not
  over: a message is accepted exactly then, and a refused one leaves no trace.\<close>

theorem sendMessage_authorised:
  assumes "reachable s" and "job \<in> set (d_jobs s)"
  shows "if \<not> terminal job \<and>
        (sender = ''admin'' \<or> (case j_parent_job_id job of None \<Rightarrow> sender = ''null'' | Some p \<Rightarrow> sender = int_str p))
    then \<exists>m. sendMessage (j_id job) payload sender now s =
           (Some m, insert_inbox now (j_id job) sender payload s) \<and>
         m_job_id m = j_id job \<and> m_payload m = payload \<and> m_sender m = sender \<and> m_read_at m = None
    else sendMessage (j_id job) payload sender now s = (None, s)"
proof -
  have "find_job (j_id job) (d_jobs s) = Some job"
    by (rule find_job_distinct [OF ok_distinct [OF ok_reachable [OF assms(1)]] assms(2)])
  then show ?thesis
    by (auto simp: sendMessage_def insert_inbox_def Let_def split: option.split)
qed

lemma sendMessage_authorised_witness:
  "sendMessage 1 JNull ''7'' 6000000 demo_submitted = (None, demo_submitted)"
proof -
  have row: "demo_row 1 \<in> set (d_jobs demo_submitted)" by (simp add: demo_rows)
  have f: "j_parent_job_id (demo_row 1) = None" "j_id (demo_row 1) = 1" by code_simp+
  from sendMessage_authorised [OF demo_reachable(1) row, of "''7''" JNull 6000000] show ?thesis
    by (simp add: f)
qed

text \<open>Under its lock a job reads every unread message once: the first read returns them all and
  marks them, so an immediate second read returns nothing.\<close>

theorem readInbox_once:
  assumes "lock_held i t s" and "readInbox i t now s = (msgs, s1)"
  shows "map m_payload msgs = map m_payload (filter (unread i) (d_inbox s)) \<and>
    list_all (\<lambda>m. m_read_at m = Some now) msgs \<and>
    fst (readInbox i t now' s1) = [] \<and> d_jobs s1 = d_jobs s"
proof -
  let ?mark = "\<lambda>m. m\<lparr>m_read_at := Some now\<rparr>"
  from assms have msgs: "msgs = map ?mark (filter (unread i) (d_inbox s))"
    and s1: "s1 = s\<lparr>d_inbox := upd_where (unread i) ?mark (d_inbox s)\<rparr>"
    by (simp_all add: readInbox_def returning_def)
  have "\<not> unread i m" if "m \<in> set (d_inbox s1)" for m
  proof -
    from that have "m \<in> set (upd_where (unread i) ?mark (d_inbox s))" by (simp add: s1)
    then show ?thesis by (cases rule: in_upd_where_cases) (simp_all add: unread_def)
  qed
  then have "returning (unread i) f (d_inbox s1) = []" for f :: "inbox_message \<Rightarrow> inbox_message"
    by (simp add: returning_Nil_iff)
  then have "fst (readInbox i t now' s1) = []" by (simp add: readInbox_def)
  then show ?thesis by (simp add: msgs s1 list_all_iff comp_def)
qed

lemma readInbox_once_witness:
  "\<exists>msgs s1. readInbox 1 ''b'' 63000000 demo_reclaimed = (msgs, s1) \<and>
     fst (readInbox 1 ''b'' 64000000 s1) = []"
proof -
  have "lock_held 1 ''b'' demo_reclaimed" by (simp add: lock_held_def demo_rows demo_second_holds)
  moreover obtain msgs s1 where r: "readInbox 1 ''b'' 63000000 demo_reclaimed = (msgs, s1)" by fastforce
  ultimately show ?thesis using readInbox_once [OF _ r, of 64000000] by auto
qed

section \<open>Operators\<close>

text \<open>A dead or failed job that is retried starts over: waiting, no error, no lock, no attempt or
  strike counted, no finish time; a job in any other status is left alone.\<close>

theorem retry_starts_over:
  assumes "reachable s" and "r \<in> set (d_jobs s)" and s': "s' = snd (retryJob (j_id r) now s)"
  shows "if j_status r \<in> {Failed, Dead}
    then \<exists>r' \<in> set (d_jobs s'). j_id r' = j_id r \<and> j_status r' = Waiting \<and> j_error_text r' = None \<and>
      j_lock_token r' = None \<and> j_attempts_made r' = 0 \<and> j_attempts_started r' = 0 \<and>
      j_stalled_counter r' = 0 \<and> j_finished_at r' = None \<and> j_delay_until r' = None
    else s' = s"
proof (cases "j_status r \<in> {Failed, Dead}")
  case True
  then have "retry_row now r \<in> set (d_jobs s')"
    using assms(2) by (auto simp: s' retryJob_def update_one_def set_upd_where)
  with True show ?thesis by (auto simp: retry_row_def intro!: bexI [of _ "retry_row now r"])
next
  case False
  have "\<forall>x \<in> set (d_jobs s). \<not> (j_id x = j_id r \<and> j_status x \<in> {Failed, Dead})"
    using ok_unique [OF ok_reachable [OF assms(1)] _ assms(2)] False by blast
  then have "upd_where (\<lambda>x. j_id x = j_id r \<and> j_status x \<in> {Failed, Dead}) (retry_row now) (d_jobs s) = d_jobs s"
    by (rule upd_where_none)
  with False show ?thesis by (simp add: s' retryJob_def update_one_def)
qed

lemma retry_starts_over_witness: "snd (retryJob 1 7000000 demo_submitted) = demo_submitted"
proof -
  have row: "demo_row 1 \<in> set (d_jobs demo_submitted)" by (simp add: demo_rows)
  have f: "j_status (demo_row 1) = Waiting" "j_id (demo_row 1) = 1" by code_simp+
  from retry_starts_over [OF demo_reachable(1) row refl, of 7000000] show ?thesis by (simp add: f)
qed

text \<open>Removing a job works only once it is over, and leaves nothing dangling: the row, its inbox
  and its attachments are gone, its children are kept as roots, and every other row is kept.\<close>

theorem removeJob_leaves_no_reference:
  assumes "reachable s" and "r \<in> set (d_jobs s)" and rm: "removeJob (j_id r) s = (gone, s')"
  shows "if terminal r
    then gone \<and> list_all (\<lambda>x. j_id x \<noteq> j_id r \<and> j_parent_job_id x \<noteq> Some (j_id r)) (d_jobs s') \<and>
      list_all (\<lambda>m. m_job_id m \<noteq> j_id r) (d_inbox s') \<and>
      list_all (\<lambda>a. a_job_id a \<noteq> j_id r) (d_attachments s') \<and>
      map j_id (d_jobs s') = filter (\<lambda>i. i \<noteq> j_id r) (map j_id (d_jobs s))
    else \<not> gone \<and> map j_id (d_jobs s') = map j_id (d_jobs s) \<and> map j_status (d_jobs s') = map j_status (d_jobs s)"
proof -
  let ?P = "\<lambda>x. j_id x = j_id r \<and> terminal x"
  have uniq: "x = r" if "x \<in> set (d_jobs s)" "j_id x = j_id r" for x
    by (rule ok_unique [OF ok_reachable [OF assms(1)] that(1) assms(2) that(2)])
  from rm have rm': "gone = list_ex ?P (d_jobs s)" "s' = delete_jobs ?P s"
    by (auto simp: removeJob_def Let_def)
  show ?thesis
  proof (cases "terminal r")
    case True
    have "distinct (d_jobs s)"
      using ok_distinct [OF ok_reachable [OF assms(1)]] by (simp add: distinct_map)
    then have one: "filter ?P (d_jobs s) = [r]"
      using assms(2) uniq True by (intro filter_unique) auto
    have rest: "filter (\<lambda>x. \<not> ?P x) (d_jobs s) = filter (\<lambda>x. j_id x \<noteq> j_id r) (d_jobs s)"
      using uniq True by (intro filter_cong) auto
    have "gone" using assms(2) True by (auto simp: rm' list_ex_iff)
    with True show ?thesis
      unfolding rm'(2) delete_jobs_def Let_def one rest
      by (simp add: list_all_iff drop_ref_parent filter_map comp_def)
  next
    case False
    then have none: "filter ?P (d_jobs s) = []" using uniq by (auto simp: filter_empty_conv)
    have "filter (\<lambda>x. \<not> ?P x) (d_jobs s) = d_jobs s" using uniq False by (auto simp: filter_id_conv)
    moreover have "\<not> gone" using none by (auto simp: rm' list_ex_iff filter_empty_conv)
    ultimately show ?thesis using False unfolding rm'(2) delete_jobs_def Let_def none by simp
  qed
qed

lemma removeJob_leaves_no_reference_witness:
  "fst (removeJob 1 demo_completed) \<and> d_jobs (snd (removeJob 1 demo_completed)) = []"
proof -
  have row: "demo_done \<in> set (d_jobs demo_completed)" by (simp add: demo_rows)
  have f: "j_id demo_done = 1" "terminal demo_done" by code_simp+
  obtain b s' where r: "removeJob 1 demo_completed = (b, s')" by fastforce
  from removeJob_leaves_no_reference [OF demo_reachable(5) row, of b s'] r show ?thesis
    by (simp add: f demo_rows)
qed

end
