(* ===== verification/SubmitProps.thy ===== *)
theory SubmitProps
  imports QueueDemo
begin

text \<open>
  What a submission promises (\<open>MinionQueue.add\<close>): the answer to a resubmitted idempotency key, and
  the limits that hold after every submission that inserted a row.
\<close>

section \<open>The submission that inserts\<close>

lemma insert_job_fresh:
  assumes "insert_job env nm data opts depth s = Inr ((j, False), s')"
  defines "row \<equiv> new_job_row env nm data opts depth (d_next_job_id s)"
  shows "j = rowToMinionJob row" and "row_check row"
    and "\<And>x k. o_idempotency_key opts = Some k \<Longrightarrow> x \<in> set (d_jobs s) \<Longrightarrow> j_idempotency_key x \<noteq> Some k"
    and "s' = flip_parent (e_now env) (given_parent opts)
      (s\<lparr>d_jobs := d_jobs s @ [row], d_next_job_id := d_next_job_id s + 1\<rparr>)"
  using assms by (auto simp: insert_job_def Let_def find_None_iff split: if_splits)

definition hashed_data :: "submit_env \<Rightarrow> admission_policy \<Rightarrow> json_obj \<Rightarrow> job_input \<Rightarrow> json_obj" where
  "hashed_data env pol data opts =
     (if coalesce_active pol data opts
      then obj_put ''__param_hash'' (JStr (submission_hash (e_sha256 env) data opts)) data else data)"

lemma hashed_data_source: "submit_source (hashed_data env pol data opts) = submit_source data"
proof -
  have "map_of (obj_put ''__param_hash'' v data) ''source_id'' = map_of data ''source_id''"
    "map_of (obj_put ''__param_hash'' v data) ''sourceId'' = map_of data ''sourceId''" for v
    by simp_all
  then have "submit_source (obj_put ''__param_hash'' v data) = submit_source data" for v
    unfolding submit_source_def by (simp only:)
  then show ?thesis by (simp add: hashed_data_def)
qed

lemma add_job_fresh:
  assumes "add_job env pol name data opts tr s = Inr (((j, False), au), s')"
  obtains s1 depth where
    "s1 = snd (idempotency_step (given_key opts) s)"
    "add_gates env tr name data = Inr (js_trim name)"
    "quota_step (js_trim name) (quotaMaxWaiting pol) s1 = None"
    "backpressure_step (e_now env) (js_trim name) (hashed_data env pol data opts) opts s1 = None"
    "parent_step (e_maxSpawnDepth env) opts s1 = Inr depth"
    "insert_job env (js_trim name) (hashed_data env pol data opts) opts depth s1 = Inr ((j, False), s')"
proof -
  from assms obtain jn where g: "add_gates env tr name data = Inr jn"
    and t: "add_transaction env pol jn data opts s = Inr (((j, False), au), s')"
    by (auto simp: add_job_def split: sum.splits option.splits)
  from g have jn: "jn = js_trim name"
    by (auto simp: add_gates_def Let_def split: if_splits option.splits)
  obtain i s1 where i: "idempotency_step (given_key opts) s = (i, s1)" by fastforce
  with t have "i = None" by (auto simp: add_transaction_def Let_def split: option.splits)
  with i t that [of s1] g show ?thesis
    by (auto simp: add_transaction_def Let_def jn hashed_data_def split: option.splits sum.splits)
qed

lemma idempotency_status:
  "map j_status (d_jobs (snd (idempotency_step key s))) = map j_status (d_jobs s)"
  by (auto simp: idempotency_step_def split: option.split intro!: map_upd_where)

text \<open>A submission's answer that inserted a row and left these rows.\<close>

definition inserts :: "minion_job list \<Rightarrow> submit_error + add_result \<times> queue_db \<Rightarrow> bool" where
  "inserts rows r = (case r of Inr (((j, False), None), s') \<Rightarrow> d_jobs s' = rows | _ \<Rightarrow> False)"

lemma insertsE:
  assumes "inserts rows r"
  obtains j s' where "r = Inr (((j, False), None), s')" "d_jobs s' = rows"
  using assms by (auto simp: inserts_def split: sum.splits prod.splits option.splits bool.splits)

section \<open>Counting rows\<close>

lemma count_upd_le:
  assumes "\<And>r. r \<in> set js \<Longrightarrow> Q r \<Longrightarrow> P (f r) \<Longrightarrow> P r"
  shows "length (filter P (upd_where Q f js)) \<le> length (filter P js)"
  using assms by (induction js) auto

lemma count_flip_le:
  assumes "\<And>r. \<not> terminal r \<Longrightarrow> P (r\<lparr>j_status := WaitingChildren, j_updated_at := now\<rparr>) \<Longrightarrow> P r"
  shows "length (filter P (d_jobs (flip_parent now p s))) \<le> length (filter P (d_jobs s))"
  using assms by (auto simp: flip_parent_def terminal_iff split: option.split intro!: count_upd_le)

lemma fresh_count:
  assumes ins: "insert_job env nm data opts depth s1 = Inr ((j, False), s')"
    and flip: "\<And>r now. \<not> terminal r \<Longrightarrow> P (r\<lparr>j_status := WaitingChildren, j_updated_at := now\<rparr>) \<Longrightarrow> P r"
  shows "length (filter P (d_jobs s')) \<le> length (filter P (d_jobs s1)) + 1"
  unfolding insert_job_fresh(4) [OF ins]
  by (rule order_trans [OF count_flip_le]) (auto intro: flip)

text \<open>Backpressure lets a submission through only below its limit.\<close>

lemma pending_step_None:
  "pending_step now name queue src m s = None \<Longrightarrow>
     int (length (filter (pending_row now name queue src) (d_jobs s))) < max 1 m"
  by (auto simp: pending_step_def Let_def not_le split: if_splits simp del: filter_empty_conv)

lemma waiting_step_None:
  "waiting_step name queue src m s = None \<Longrightarrow>
     int (length (filter (waiting_row name queue src) (d_jobs s))) < max 1 m"
  by (auto simp: waiting_step_def Let_def not_le split: if_splits simp del: filter_empty_conv)

lemma backpressure_None:
  assumes "backpressure_step now name data opts s = None"
  shows "o_maxPending opts = Some m \<Longrightarrow>
      pending_step now name (or_default ''default'' (o_queue opts)) (submit_source data) m s = None"
    and "o_maxWaiting opts = Some m \<Longrightarrow>
      waiting_step name (or_default ''default'' (o_queue opts)) (submit_source data) m s = None"
  using assms by (auto simp: backpressure_step_def Let_def or_default_def split: option.splits)

text \<open>C26: the per-name quota and the two backpressure limits hold after every submission that
  inserted a row: at most the quota of waiting jobs of that name, at most \<open>maxPending\<close> pending
  (waiting, or active with a live lease) jobs of that name, queue and source, at most
  \<open>maxWaiting\<close> waiting ones.\<close>

theorem submission_caps:
  assumes "add_job env pol name data opts tr s = Inr (((j, False), au), s')"
  shows "(\<forall>q. quotaMaxWaiting pol = Some q \<longrightarrow>
        rat_of_int (waiting_count (js_trim name) (d_jobs s')) < q + 1) \<and>
    (\<forall>m. o_maxPending opts = Some m \<longrightarrow>
        int (length (filter (pending_row (e_now env) (js_trim name) (or_default ''default'' (o_queue opts))
          (submit_source data)) (d_jobs s'))) \<le> max 1 m) \<and>
    (\<forall>m. o_maxWaiting opts = Some m \<longrightarrow>
        int (length (filter (waiting_row (js_trim name) (or_default ''default'' (o_queue opts))
          (submit_source data)) (d_jobs s'))) \<le> max 1 m)"
proof -
  from assms obtain s1 depth where
    quota: "quota_step (js_trim name) (quotaMaxWaiting pol) s1 = None"
    and bp: "backpressure_step (e_now env) (js_trim name) (hashed_data env pol data opts) opts s1 = None"
    and ins: "insert_job env (js_trim name) (hashed_data env pol data opts) opts depth s1 = Inr ((j, False), s')"
    by (rule add_job_fresh)
  note src = hashed_data_source [of env pol data opts]
  have w: "waiting_count (js_trim name) (d_jobs s') \<le> waiting_count (js_trim name) (d_jobs s1) + 1"
    unfolding waiting_count_def
    using fresh_count [OF ins, of "\<lambda>r. j_name r = js_trim name \<and> j_status r = Waiting"] by simp
  have "rat_of_int (waiting_count (js_trim name) (d_jobs s')) < q + 1" if "quotaMaxWaiting pol = Some q" for q
  proof -
    have "rat_of_int (waiting_count (js_trim name) (d_jobs s1)) < q"
      using quota that by (simp add: quota_step_def Let_def not_le split: if_splits)
    moreover have "rat_of_int (waiting_count (js_trim name) (d_jobs s'))
        \<le> rat_of_int (waiting_count (js_trim name) (d_jobs s1)) + 1"
      using w by (metis of_int_1 of_int_add of_int_le_iff)
    ultimately show ?thesis by linarith
  qed
  moreover have "int (length (filter (pending_row (e_now env) (js_trim name)
        (or_default ''default'' (o_queue opts)) (submit_source data)) (d_jobs s'))) \<le> max 1 m"
    if "o_maxPending opts = Some m" for m
  proof -
    note pending_step_None [OF backpressure_None(1) [OF bp that], unfolded src]
    moreover note fresh_count [OF ins, of "pending_row (e_now env) (js_trim name)
        (or_default ''default'' (o_queue opts)) (submit_source data)"]
    ultimately show ?thesis by (simp add: pending_row_def)
  qed
  moreover have "int (length (filter (waiting_row (js_trim name) (or_default ''default'' (o_queue opts))
          (submit_source data)) (d_jobs s'))) \<le> max 1 m"
    if "o_maxWaiting opts = Some m" for m
  proof -
    note waiting_step_None [OF backpressure_None(2) [OF bp that], unfolded src]
    moreover note fresh_count [OF ins, of "waiting_row (js_trim name)
        (or_default ''default'' (o_queue opts)) (submit_source data)"]
    ultimately show ?thesis by (simp add: waiting_row_def)
  qed
  ultimately show ?thesis by blast
qed

lemma submission_caps_witness:
  "\<exists>j s'. add_job demo_env (demo_policy\<lparr>quotaMaxWaiting := Some 1\<rparr>) ''sync'' [] no_opts demo_trust
       (empty_db demo_config) = Inr (((j, False), None), s') \<and>
     rat_of_int (waiting_count (js_trim ''sync'') (d_jobs s')) < 1 + 1"
proof -
  let ?pol = "demo_policy\<lparr>quotaMaxWaiting := Some 1\<rparr>"
  have "inserts [demo_row 1] (add_job demo_env ?pol ''sync'' [] no_opts demo_trust (empty_db demo_config))"
    by code_simp
  from insertsE [OF this] obtain j s' where
    r: "add_job demo_env ?pol ''sync'' [] no_opts demo_trust (empty_db demo_config) = Inr (((j, False), None), s')" .
  moreover from submission_caps [OF r]
  have "rat_of_int (waiting_count (js_trim ''sync'') (d_jobs s')) < 1 + 1" by simp
  ultimately show ?thesis by blast
qed

section \<open>Parents and children\<close>

lemma idempotency_row:
  assumes "q \<in> set (d_jobs (snd (idempotency_step key s)))"
  obtains q0 where "q0 \<in> set (d_jobs s)" "j_id q = j_id q0" "j_depth q = j_depth q0"
    "j_max_children q = j_max_children q0" "j_status q = j_status q0"
  using assms
  by (auto simp: idempotency_step_def split: option.splits if_splits elim!: in_upd_where_cases)

lemma flip_effect:
  assumes "q \<in> set (d_jobs s)" and "j_id q = p"
  shows "\<exists>q' \<in> set (d_jobs (flip_parent now (Some p) s)). j_id q' = p \<and>
    j_status q' = (if j_status q \<in> {Waiting, Active, Delayed} then WaitingChildren else j_status q)"
proof (cases "j_status q \<in> {Waiting, Active, Delayed}")
  case True
  with assms have "q\<lparr>j_status := WaitingChildren, j_updated_at := now\<rparr> \<in> set (d_jobs (flip_parent now (Some p) s))"
    by (auto simp: flip_parent_def set_upd_where)
  then show ?thesis using True assms by (rule_tac bexI) simp_all
next
  case False
  with assms have "q \<in> set (d_jobs (flip_parent now (Some p) s))"
    by (simp add: flip_parent_def in_upd_miss)
  then show ?thesis using False assms by (rule_tac bexI) simp_all
qed

text \<open>A child is only ever inserted within the limits: one level below its parent, at most the
  allowed depth, and the parent's open children, the new one included, at most its
  \<open>max_children\<close>. A parent that was waiting, active or delayed now waits for its children.\<close>

theorem spawn_caps:
  assumes "add_job env pol name data opts tr s = Inr (((j, False), au), s')"
    and "given_parent opts = Some p"
  shows "\<exists>q \<in> set (d_jobs s). j_id q = p \<and> j_depth j = j_depth q + 1 \<and>
    j_depth j \<le> or_default (e_maxSpawnDepth env) (o_max_spawn_depth opts) \<and>
    (\<forall>m. j_max_children q = Some m \<longrightarrow> live_children p (d_jobs s') \<le> m) \<and>
    (\<exists>q' \<in> set (d_jobs s'). j_id q' = p \<and>
       j_status q' = (if j_status q \<in> {Waiting, Active, Delayed} then WaitingChildren else j_status q))"
proof -
  from assms(1) obtain s1 depth where s1: "s1 = snd (idempotency_step (given_key opts) s)"
    and par: "parent_step (e_maxSpawnDepth env) opts s1 = Inr depth"
    and ins: "insert_job env (js_trim name) (hashed_data env pol data opts) opts depth s1 = Inr ((j, False), s')"
    by (rule add_job_fresh)
  from par assms(2) obtain q where q: "q \<in> set (d_jobs s1)" "j_id q = p" "depth = j_depth q + 1"
    "depth \<le> or_default (e_maxSpawnDepth env) (o_max_spawn_depth opts)"
    "\<And>m. j_max_children q = Some m \<Longrightarrow> live_children p (d_jobs s1) < m"
    by (cases rule: parent_step_cases) auto
  from q(1) obtain q0 where q0: "q0 \<in> set (d_jobs s)" "j_id q = j_id q0" "j_depth q = j_depth q0"
    "j_max_children q = j_max_children q0" "j_status q = j_status q0"
    unfolding s1 by (rule idempotency_row)
  have "j_depth j = depth" unfolding insert_job_fresh(1) [OF ins] by (simp add: new_job_row_def)
  moreover have "live_children p (d_jobs s') \<le> live_children p (d_jobs s1) + 1"
    unfolding live_children_def
    using fresh_count [OF ins, of "open_child_of p"] by (fastforce simp: open_child_of_def)
  moreover have "\<exists>q' \<in> set (d_jobs s'). j_id q' = p \<and>
       j_status q' = (if j_status q \<in> {Waiting, Active, Delayed} then WaitingChildren else j_status q)"
    unfolding insert_job_fresh(4) [OF ins] assms(2) using q(1,2) by (intro flip_effect) simp_all
  ultimately show ?thesis using q q0 by (intro bexI [OF _ q0(1)]) fastforce
qed

section \<open>Idempotency keys\<close>

lemma find_key:
  assumes "reachable s" and "r \<in> set (d_jobs s)" and "j_idempotency_key r = Some k"
  shows "find (\<lambda>x. j_idempotency_key x = Some k) (d_jobs s) = Some r"
proof (cases "find (\<lambda>x. j_idempotency_key x = Some k) (d_jobs s)")
  case None
  with assms show ?thesis by (auto simp: find_None_iff)
next
  case (Some x)
  then have x: "x \<in> set (d_jobs s)" "j_idempotency_key x = Some k" by (auto simp: find_Some_iff)
  have ok: "db_ok s" using assms(1) by (rule ok_reachable)
  then have "keys_unique (d_jobs s)" by (simp add: db_ok_def table_ok_def)
  with x assms have "j_id x = j_id r" unfolding keys_unique_def by blast
  with ok_unique [OF ok x(1) assms(2)] Some show ?thesis by simp
qed

text \<open>Submitting again under the idempotency key of a job that is not dead or cancelled answers
  with that job and changes nothing, whatever the rest of the submission says.\<close>

theorem resubmission_returns_existing:
  assumes "reachable s" and "r \<in> set (d_jobs s)" and "j_idempotency_key r = Some k"
    and "j_status r \<noteq> Dead" and "j_status r \<noteq> Cancelled"
    and "o_idempotency_key opts = Some k" and "k \<noteq> []"
    and "add_gates env tr name data = Inr jn" and "ensureSchema (d_config s) = None"
  shows "add_job env pol name data opts tr s = Inr (((rowToMinionJob r, True), None), s)"
proof -
  have "given_key opts = Some k" using assms(6,7) by (simp add: given_key_def or_null_def)
  with find_key [OF assms(1-3)] assms(4,5) show ?thesis
    by (simp add: add_job_def assms(8,9) add_transaction_def idempotency_step_def Let_def)
qed

text \<open>A dead or cancelled job gives its idempotency key up: a submission under that key that
  inserts a row makes the new row the only holder of the key.\<close>

theorem dead_key_is_reused:
  assumes "reachable s" and "o_idempotency_key opts = Some k"
    and "add_job env pol name data opts tr s = Inr (((j, False), au), s')"
  shows "\<forall>x \<in> set (d_jobs s'). j_idempotency_key x = Some k \<longleftrightarrow> j_id x = d_next_job_id s"
proof -
  from assms(3) obtain s1 depth where s1: "s1 = snd (idempotency_step (given_key opts) s)"
    and ins: "insert_job env (js_trim name) (hashed_data env pol data opts) opts depth s1 = Inr ((j, False), s')"
    by (rule add_job_fresh)
  have ok1: "db_ok s1" unfolding s1 by (rule ok_idempotency_step [OF ok_reachable [OF assms(1)]])
  have next1: "d_next_job_id s1 = d_next_job_id s"
    by (auto simp: s1 idempotency_step_def split: option.split)
  let ?row = "new_job_row env (js_trim name) (hashed_data env pol data opts) opts depth (d_next_job_id s1)"
  have old: "j_idempotency_key x \<noteq> Some k \<and> j_id x \<noteq> d_next_job_id s" if "x \<in> set (d_jobs s1)" for x
    using insert_job_fresh(3) [OF ins assms(2) that] ok1 that next1
    by (auto simp: db_ok_def table_ok_def)
  have all: "j_idempotency_key x = Some k \<longleftrightarrow> j_id x = d_next_job_id s"
    if "x \<in> set (d_jobs s1 @ [?row])" for x
    using that old assms(2) next1 by (auto simp: new_job_row_def)
  show ?thesis
    unfolding insert_job_fresh(4) [OF ins]
    using all by (auto simp: flip_parent_def split: option.split elim!: in_upd_where_cases)
qed

lemma spawn_caps_witness:
  "\<exists>j s'. add_job demo_env demo_policy ''sync'' [] (no_opts\<lparr>o_parent_job_id := Some 1\<rparr>) demo_trust
       demo_submitted = Inr (((j, False), None), s') \<and> j_depth j = 1"
proof -
  let ?opts = "no_opts\<lparr>o_parent_job_id := Some 1\<rparr>"
  have "inserts [(demo_row 1)\<lparr>j_status := WaitingChildren\<rparr>, new_job_row demo_env ''sync'' [] ?opts 1 2]
      (add_job demo_env demo_policy ''sync'' [] ?opts demo_trust demo_submitted)"
    by code_simp
  from insertsE [OF this] obtain j s' where
    r: "add_job demo_env demo_policy ''sync'' [] ?opts demo_trust demo_submitted = Inr (((j, False), None), s')" .
  have "given_parent ?opts = Some 1" "j_depth (demo_row 1) = 0" by code_simp+
  with spawn_caps [OF r this(1)] r show ?thesis by (auto simp: demo_rows)
qed

definition demo_keyed :: queue_db where
  "demo_keyed = committed (empty_db demo_config)
     (add_job demo_env demo_policy ''sync'' [] (no_opts\<lparr>o_idempotency_key := Some ''k''\<rparr>) demo_trust
       (empty_db demo_config))"

definition demo_keyed_row :: minion_job where
  "demo_keyed_row = new_job_row demo_env ''sync'' [] (no_opts\<lparr>o_idempotency_key := Some ''k''\<rparr>) 0 1"

lemma demo_keyed_reachable: "reachable demo_keyed"
  unfolding demo_keyed_def by (rule reachable.step [OF reachable.start queue_step.submit])

lemma demo_keyed_rows: "d_jobs demo_keyed = [demo_keyed_row]" by code_simp

lemma resubmission_returns_existing_witness:
  "add_job demo_env demo_policy ''other'' [(''x'', JNum 1)] (no_opts\<lparr>o_idempotency_key := Some ''k''\<rparr>)
     demo_trust demo_keyed = Inr (((rowToMinionJob demo_keyed_row, True), None), demo_keyed)"
proof -
  have row: "demo_keyed_row \<in> set (d_jobs demo_keyed)" by (simp add: demo_keyed_rows)
  have f: "j_idempotency_key demo_keyed_row = Some ''k''" "j_status demo_keyed_row \<noteq> Dead"
    "j_status demo_keyed_row \<noteq> Cancelled"
    "o_idempotency_key (no_opts\<lparr>o_idempotency_key := Some ''k''\<rparr>) = Some ''k''" "''k'' \<noteq> []"
    "add_gates demo_env demo_trust ''other'' [(''x'', JNum 1)] = Inr ''other''"
    "ensureSchema (d_config demo_keyed) = None"
    by code_simp+
  show ?thesis by (rule resubmission_returns_existing [OF demo_keyed_reachable row f])
qed

definition demo_cancelled :: queue_db where
  "demo_cancelled = snd (cancelJobs [1] None None None 7000000 demo_keyed)"

lemma demo_cancelled_reachable: "reachable demo_cancelled"
  unfolding demo_cancelled_def by (rule reachable.step [OF demo_keyed_reachable queue_step.cancel])

lemma dead_key_is_reused_witness:
  "\<exists>j s'. add_job demo_env demo_policy ''sync'' [] (no_opts\<lparr>o_idempotency_key := Some ''k''\<rparr>) demo_trust
       demo_cancelled = Inr (((j, False), None), s') \<and> length (d_jobs s') = 2 \<and>
     list_all (\<lambda>x. j_idempotency_key x = Some ''k'' \<longleftrightarrow> j_id x = 2) (d_jobs s')"
proof -
  let ?opts = "no_opts\<lparr>o_idempotency_key := Some ''k''\<rparr>"
  have "inserts [(cancel_row [1] None 7000000 demo_keyed_row)\<lparr>j_idempotency_key := None\<rparr>,
        new_job_row demo_env ''sync'' [] ?opts 0 2]
      (add_job demo_env demo_policy ''sync'' [] ?opts demo_trust demo_cancelled)"
    by code_simp
  from insertsE [OF this] obtain j s' where
    r: "add_job demo_env demo_policy ''sync'' [] ?opts demo_trust demo_cancelled = Inr (((j, False), None), s')"
    and len: "length (d_jobs s') = 2" by (metis length_Cons list.size(3) numeral_2_eq_2)
  have "o_idempotency_key ?opts = Some ''k''" "d_next_job_id demo_cancelled = 2" by code_simp+
  with dead_key_is_reused [OF demo_cancelled_reachable this(1) r] r len show ?thesis
    by (simp add: list_all_iff)
qed

section \<open>Gates\<close>

text \<open>Nothing gets into the queue past the gates: the job a submission inserts has a non-empty
  trimmed name, and a protected name, or a subagent job whose model cannot run the loop, only
  with the trust or the capability that allows it.\<close>

theorem submission_gates:
  assumes "add_job env pol name data opts tr s = Inr (((j, False), au), s')"
  shows "j_name j = js_trim name \<and> j_name j \<noteq> [] \<and>
    (isProtectedJobName (j_name j) \<longrightarrow> t_allowProtectedSubmit tr) \<and>
    (\<forall>m. j_name j = ''subagent'' \<longrightarrow> subagent_model data = Some m \<longrightarrow>
       e_classify env m \<notin> {CapNoTools, CapNoSubagentLoop, CapUnknown}) \<and>
    assertEmbedBackfillQueueAdmission (e_engine env) (j_name j) data (t_allowPgliteInlineWorker tr) = None"
proof -
  from assms obtain s1 depth where g: "add_gates env tr name data = Inr (js_trim name)"
    and ins: "insert_job env (js_trim name) (hashed_data env pol data opts) opts depth s1 = Inr ((j, False), s')"
    by (rule add_job_fresh)
  have "j_name j = js_trim name" unfolding insert_job_fresh(1) [OF ins] by (simp add: new_job_row_def)
  with g show ?thesis by (auto simp: add_gates_def Let_def split: if_splits option.splits)
qed

lemma submission_gates_witness:
  "\<exists>j s'. add_job demo_env demo_policy ''  sync '' [] no_opts demo_trust (empty_db demo_config) =
     Inr (((j, False), None), s') \<and> j_name j = js_trim ''  sync ''"
proof -
  have "inserts [demo_row 1] (add_job demo_env demo_policy ''  sync '' [] no_opts demo_trust (empty_db demo_config))"
    by code_simp
  from insertsE [OF this] obtain j s' where
    r: "add_job demo_env demo_policy ''  sync '' [] no_opts demo_trust (empty_db demo_config) = Inr (((j, False), None), s')" .
  with submission_gates [OF r] show ?thesis by blast
qed

section \<open>Coalescing\<close>

text \<open>The row that a coalescing submission leaves behind is found by the next lookup of its hash.\<close>

lemma fresh_row_coalesces:
  assumes ok: "db_ok s" and act: "coalesce_active pol data opts"
    and ins: "insert_job env jn (hashed_data env pol data opts) opts depth s = Inr ((j, False), s')"
    and young: "\<And>h. ttl = Some h \<Longrightarrow> rat_of_int now - h / 2 * 3600000000 < rat_of_int (e_now env)"
  shows "coalesce_step now ttl jn (or_default ''default'' (o_queue opts))
           (submission_hash (e_sha256 env) data opts) s' \<noteq> None"
proof -
  let ?row = "new_job_row env jn (hashed_data env pol data opts) opts depth (d_next_job_id s)"
  let ?match = "coalesce_match now ttl jn (or_default ''default'' (o_queue opts))
           (submission_hash (e_sha256 env) data opts)"
  have "given_parent opts = None" "child_status opts = Waiting"
    using act by (simp_all add: coalesce_active_def)
  then have "o_parent_job_id opts \<in> {None, Some 0}"
    by (auto simp: given_parent_def split: option.splits if_splits)
  moreover have "ref_ok (d_jobs s) (o_parent_job_id opts)"
    using ins by (auto simp: insert_job_def Let_def new_job_row_def split: if_splits)
  ultimately have par: "o_parent_job_id opts = None"
    using ok_row_ok [OF ok] by (force simp: ref_ok_def list_ex_iff row_ok_def)
  have "json_get_text (hashed_data env pol data opts) ''__param_hash'' =
      Some (submission_hash (e_sha256 env) data opts)"
    using act by (simp add: hashed_data_def json_get_text_def)
  with par \<open>child_status opts = Waiting\<close> young have "?match ?row"
    by (auto simp: coalesce_match_def new_job_row_def split: option.split)
  moreover have "?row \<in> set (d_jobs s')"
    unfolding insert_job_fresh(4) [OF ins] \<open>given_parent opts = None\<close> by (simp add: flip_parent_def)
  ultimately show ?thesis unfolding coalesce_step_def by (auto simp: filter_empty_conv)
qed

text \<open>A second submission of a payload with the same coalescing hash (the same payload up to the
  order of object members) while the first job still waits, within half the waiting TTL, inserts
  nothing: it is answered with a waiting job of the queue.\<close>

theorem equal_payloads_coalesce:
  assumes "reachable s"
    and first: "add_job env pol name d1 opts tr s = Inr (((j, False), au), s')"
    and act: "coalesce_active pol d1 opts" "coalesce_active pol d2 opts"
    and hash: "submission_hash (e_sha256 env) d2 opts = submission_hash (e_sha256 env) d1 opts"
    and env2: "e_sha256 env2 = e_sha256 env" "add_gates env2 tr name d2 = Inr (js_trim name)"
    and young: "\<And>h. ttlWaitingHours pol = Some h \<Longrightarrow>
      rat_of_int (e_now env2) - h / 2 * 3600000000 < rat_of_int (e_now env)"
  shows "\<exists>r audit. r \<in> set (d_jobs s') \<and> j_status r = Waiting \<and> j_name r = js_trim name \<and>
    add_job env2 pol name d2 opts tr s' = Inr (((rowToMinionJob r, True), Some audit), s')"
proof -
  have nokey: "given_key opts = None" using act by (simp add: coalesce_active_def)
  from first obtain depth where
    ins: "insert_job env (js_trim name) (hashed_data env pol d1 opts) opts depth s = Inr ((j, False), s')"
    by (rule add_job_fresh) (simp add: nokey idempotency_step_def)
  have schema: "ensureSchema (d_config s') = None"
    using first unfolding insert_job_fresh(4) [OF ins]
    by (auto simp: add_job_def flip_parent_def split: sum.splits option.splits)
  let ?q = "or_default ''default'' (o_queue opts)" and ?h = "submission_hash (e_sha256 env2) d2 opts"
  have "coalesce_step (e_now env2) (ttlWaitingHours pol) (js_trim name) ?q ?h s' \<noteq> None"
    unfolding env2(1) hash
    by (rule fresh_row_coalesces [OF ok_reachable [OF assms(1)] act(1) ins]) (rule young)
  then obtain r where r: "coalesce_step (e_now env2) (ttlWaitingHours pol) (js_trim name) ?q ?h s' = Some r"
    by blast
  then have "r \<in> set (d_jobs s')" "j_status r = Waiting" "j_name r = js_trim name"
    using min_row_Some(1) [OF r [unfolded coalesce_step_def]] by (auto simp: coalesce_match_def)
  moreover have "add_job env2 pol name d2 opts tr s' = Inr (((rowToMinionJob r, True),
      Some (AuditParamHash ?q (js_trim name) (j_id r) ?h)), s')"
    using r act(2) by (simp add: add_job_def env2(2) schema add_transaction_def nokey idempotency_step_def Let_def)
  ultimately show ?thesis by blast
qed

lemma equal_payloads_coalesce_witness:
  "\<exists>j s' r audit. add_job demo_env (demo_policy\<lparr>coalesceParams := True\<rparr>) ''sync''
       [(''a'', JNum 1), (''b'', JNum 2)] no_opts demo_trust (empty_db demo_config) =
         Inr (((j, False), None), s') \<and>
     add_job demo_env (demo_policy\<lparr>coalesceParams := True\<rparr>) ''sync''
       [(''b'', JNum 2), (''a'', JNum 1)] no_opts demo_trust s' =
         Inr (((rowToMinionJob r, True), Some audit), s')"
proof -
  let ?pol = "demo_policy\<lparr>coalesceParams := True\<rparr>"
  let ?d1 = "[(''a'', JNum 1), (''b'', JNum 2)]" and ?d2 = "[(''b'', JNum 2), (''a'', JNum 1)]"
  let ?r = "add_job demo_env ?pol ''sync'' ?d1 no_opts demo_trust (empty_db demo_config)"
  have "inserts [new_job_row demo_env ''sync'' (hashed_data demo_env ?pol ?d1 no_opts) no_opts 0 1] ?r"
    by code_simp
  from insertsE [OF this] obtain j s' where r: "?r = Inr (((j, False), None), s')" .
  have f: "coalesce_active ?pol ?d1 no_opts" "coalesce_active ?pol ?d2 no_opts"
    "submission_hash (e_sha256 demo_env) ?d2 no_opts = submission_hash (e_sha256 demo_env) ?d1 no_opts"
    "add_gates demo_env demo_trust ''sync'' ?d2 = Inr (js_trim ''sync'')"
    "ttlWaitingHours ?pol = None"
    by code_simp+
  have "\<exists>r audit. r \<in> set (d_jobs s') \<and> j_status r = Waiting \<and> j_name r = js_trim ''sync'' \<and>
      add_job demo_env ?pol ''sync'' ?d2 no_opts demo_trust s' = Inr (((rowToMinionJob r, True), Some audit), s')"
    by (rule equal_payloads_coalesce [OF reachable.start r f(1,2,3) refl f(4)]) (simp add: f(5))
  with r show ?thesis by blast
qed

end
