(* ===== verification/PolicyProps.thy ===== *)
theory PolicyProps
  imports QueueDemo
begin

text \<open>
  The warn-before-act tick (\<open>runWaitingTtlTick\<close> of \<open>admission.ts\<close>) on the queue database, and the
  properties of the pure policy code: the canonical serialisation, the admission policy, quiet
  hours, retry backoff and attachment validation.
\<close>

section \<open>The warn-before-act tick\<close>

definition TTL_NOTICE_SHOWN_KEY :: string where
  "TTL_NOTICE_SHOWN_KEY = ''minions.ttl_notice_shown''"

record ttl_tick_result =
  tk_phase :: ttl_phase
  tk_cancelled :: int
  tk_by_name :: "(string \<times> int) list"

text \<open>\<open>listing\<close> is \<open>listConfigKeys\<close>; the other reads of the config plane are those of the database.
  \<open>toISO\<close> and \<open>date_parse\<close> are \<open>toISOString\<close> and \<open>Date.parse\<close>, \<open>js_now\<close> is \<open>Date.now()\<close>.\<close>

definition db_engine :: "(string \<Rightarrow> string list option) option \<Rightarrow> queue_db \<Rightarrow> config_engine" where
  "db_engine listing s = \<lparr>get_config = (\<lambda>k. Some (d_config s k)), list_config_keys = listing\<rparr>"

definition runWaitingTtlTick ::
  "(string \<Rightarrow> rat \<Rightarrow> string) \<Rightarrow> (string \<Rightarrow> int option) \<Rightarrow> (int \<Rightarrow> string) \<Rightarrow>
     (string \<Rightarrow> string list option) option \<Rightarrow> bool \<Rightarrow> string option \<Rightarrow> int \<Rightarrow> int \<Rightarrow> queue_db \<Rightarrow>
     ttl_tick_result \<times> queue_db" where
  "runWaitingTtlTick reason_of date_parse toISO listing killed graceEnv js_now now s =
     (let engine = db_engine listing s;
          affected = fst (countTtlExpiredWaiting now (resolveTtlNames killed engine) (d_jobs s))
      in case ttl_tick_phase killed date_parse (ttlNoticeGraceMs graceEnv) js_now
                (d_config s TTL_NOTICE_SHOWN_KEY) affected of
           TickKilled \<Rightarrow> (\<lparr>tk_phase = TickKilled, tk_cancelled = 0, tk_by_name = []\<rparr>, s)
         | TickNotice n \<Rightarrow> (\<lparr>tk_phase = TickNotice n, tk_cancelled = 0, tk_by_name = []\<rparr>,
             s\<lparr>d_config := (d_config s)(TTL_NOTICE_SHOWN_KEY \<mapsto> toISO js_now)\<rparr>)
         | TickGrace \<Rightarrow> (\<lparr>tk_phase = TickGrace, tk_cancelled = 0, tk_by_name = []\<rparr>, s)
         | TickSwept \<Rightarrow>
             (case handleWaitingTTL reason_of None killed engine now s of
                ((cancelled, by_name), s') \<Rightarrow>
                  (\<lparr>tk_phase = TickSwept, tk_cancelled = cancelled, tk_by_name = by_name\<rparr>, s')))"

text \<open>The TTL sweep warns before it acts: from a state in which no notice was shown, the first
  tick cancels nothing and records its time, and no tick before the grace has run out since then
  cancels anything; the first one after it sweeps.\<close>

theorem ttl_warns_before_acting:
  assumes "d_config s TTL_NOTICE_SHOWN_KEY = None"
    and "date_parse (toISO t1) = Some t1" and "js_trim (toISO t1) = toISO t1"
    and "toISO t1 \<noteq> []" and "toISO t1 \<noteq> ''true''"
    and "runWaitingTtlTick reason_of date_parse toISO listing False grace t1 now1 s = (res1, s1)"
    and "runWaitingTtlTick reason_of date_parse toISO listing2 False grace t2 now2 s1 = (res2, s2)"
  shows "d_jobs s1 = d_jobs s \<and> tk_cancelled res1 = 0 \<and>
    (if of_int (t2 - t1) < ttlNoticeGraceMs grace
     then tk_phase res2 = TickGrace \<and> tk_cancelled res2 = 0 \<and> s2 = s1
     else tk_phase res2 = TickSwept)"
proof -
  from assms(1,6) have s1: "s1 = s\<lparr>d_config := (d_config s)(TTL_NOTICE_SHOWN_KEY \<mapsto> toISO t1)\<rparr>"
    and r1: "tk_cancelled res1 = 0"
    by (auto simp: runWaitingTtlTick_def ttl_tick_phase_def Let_def)
  then have flag: "d_config s1 TTL_NOTICE_SHOWN_KEY = Some (toISO t1)" by simp
  have phase: "ttl_tick_phase False date_parse (ttlNoticeGraceMs grace) t2 (d_config s1 TTL_NOTICE_SHOWN_KEY) n =
      (if of_int (t2 - t1) < ttlNoticeGraceMs grace then TickGrace else TickSwept)" for n
    using assms(2-5) by (simp add: ttl_tick_phase_def flag Let_def)
  have "if of_int (t2 - t1) < ttlNoticeGraceMs grace
     then tk_phase res2 = TickGrace \<and> tk_cancelled res2 = 0 \<and> s2 = s1
     else tk_phase res2 = TickSwept"
    using assms(7) unfolding runWaitingTtlTick_def Let_def phase by (auto split: if_splits prod.splits)
  with s1 r1 show ?thesis by simp
qed

lemma ttl_warns_before_acting_witness:
  "\<exists>res1 s1. runWaitingTtlTick (\<lambda>_ _. ''old'') js_parse_int int_str None False None 5 5000 demo_submitted = (res1, s1) \<and>
     snd (runWaitingTtlTick (\<lambda>_ _. ''old'') js_parse_int int_str None False None 6 6000 s1) = s1"
proof -
  let ?t = "\<lambda>t n. runWaitingTtlTick (\<lambda>_ _. ''old'') js_parse_int int_str None False None t n"
  obtain res1 s1 where r1: "?t 5 5000 demo_submitted = (res1, s1)" by fastforce
  obtain res2 s2 where r2: "?t 6 6000 s1 = (res2, s2)" by fastforce
  have f: "d_config demo_submitted TTL_NOTICE_SHOWN_KEY = None" "js_parse_int (int_str 5) = Some 5"
    "js_trim (int_str 5) = int_str 5" "int_str 5 \<noteq> []" "int_str 5 \<noteq> ''true''"
    "ttlNoticeGraceMs None = 3600000"
    by code_simp+
  from ttl_warns_before_acting [OF f(1-5) r1 r2] f(6) have "s2 = s1" by simp
  with r1 r2 show ?thesis by auto
qed

section \<open>Pure policy\<close>

text \<open>The canonical text behind the coalescing hash identifies a payload exactly up to the order
  of its object members, at every depth: two payloads have the same text just when sorting their
  members makes them equal.\<close>

theorem stableStringify_identifies:
  "stableStringify v = stableStringify w \<longleftrightarrow> json_canon v = json_canon w"
proof
  assume "stableStringify v = stableStringify w"
  then have "json_text (json_canon v) @ [] = json_text (json_canon w) @ []"
    by (simp add: stableStringify_canon)
  from json_text_prefix [OF this] show "json_canon v = json_canon w" by (simp add: delim_def)
qed (simp add: stableStringify_canon)

text \<open>No configuration can turn a limit around: every TTL and quota a submission gets, from the
  defaults, the overrides or the cache, is positive or absent, and so is every TTL of the sweep.\<close>

theorem admission_limits_positive:
  assumes "cache_positive cache"
  shows "case resolveAdmissionPolicy killed engine now name cache of (p, cache') \<Rightarrow>
    policy_positive p \<and> cache_positive cache' \<and> hours_positive (resolveTtlNames killed engine)"
  using resolveAdmissionPolicy_positive [OF _ assms] resolveTtlNames_positive by (auto split: prod.split)

definition demo_bad_engine :: config_engine where
  "demo_bad_engine = \<lparr>get_config = (\<lambda>k. Some (Some ''-3'')), list_config_keys = None\<rparr>"

lemma admission_limits_positive_witness:
  "cache_positive [] \<and> (case resolveAdmissionPolicy False demo_bad_engine 0 ''subagent'' [] of (p, cache') \<Rightarrow>
     policy_positive p \<and> ttlWaitingHours p = None)"
proof -
  let ?r = "resolveAdmissionPolicy False demo_bad_engine 0 ''subagent'' []"
  have "cache_positive []" by (simp add: cache_positive_def)
  moreover from admission_limits_positive [OF this, of False demo_bad_engine 0 "''subagent''"]
  have "policy_positive (fst ?r)" by (simp split: prod.splits)
  moreover have "ttlWaitingHours (fst ?r) = None" by code_simp
  ultimately show ?thesis by (simp add: split_beta)
qed

text \<open>Quiet hours, whether the window wraps around midnight or not, are exactly the hours reached
  from the start in fewer steps than the end; there the verdict is the configured one, and
  everywhere else, and for every invalid configuration, it is \<open>allow\<close>.\<close>

theorem quiet_hours_window:
  assumes "localHour hour_text now (q_tz cfg) = Some h"
  shows "evaluateQuietHours hour_text (Some cfg) now =
    (if isValidConfig cfg \<and> (h - q_start cfg) mod 24 < (q_end cfg - q_start cfg) mod 24
     then (if q_policy cfg = Some PolicySkip then QSkip else QDefer) else QAllow)"
proof -
  from assms have "0 \<le> h" "h < 24" by (auto simp: localHour_def split: option.splits)
  with in_window_cyclic [of cfg h] assms show ?thesis by (simp add: evaluateQuietHours_def)
qed

lemma quiet_hours_window_witness:
  "evaluateQuietHours (\<lambda>_ _. Some ''02'') (Some \<lparr>q_start = 22, q_end = 7, q_tz = ''UTC'', q_policy = None\<rparr>) 0 = QDefer"
proof -
  have h: "localHour (\<lambda>_ _. Some ''02'') 0 (q_tz \<lparr>q_start = 22, q_end = 7, q_tz = ''UTC'', q_policy = None\<rparr>) = Some 2"
    by code_simp
  show ?thesis by (subst quiet_hours_window [OF h]) (simp add: isValidConfig_def)
qed

text \<open>The delay before a retry stays within the jitter band around \<open>2^(n-1)\<close> times the base delay
  (or the base delay), it is never negative, and without jitter it never shrinks from one
  attempt to the next.\<close>

theorem backoff_band:
  assumes "row_check job" and "0 \<le> j_backoff_delay job" and "0 \<le> rnd" and "rnd \<le> 1"
  defines "base \<equiv> backoff_base (j_backoff_type job) (j_backoff_delay job) (j_attempts_made job)"
  shows "base * (1 - j_backoff_jitter job) \<le> calculateBackoff rnd job \<and>
    calculateBackoff rnd job \<le> base * (1 + j_backoff_jitter job) \<and> 0 \<le> calculateBackoff rnd job \<and>
    base \<le> backoff_base (j_backoff_type job) (j_backoff_delay job) (j_attempts_made job + 1)"
proof -
  let ?j = "j_backoff_jitter job"
  have j: "0 \<le> ?j" "?j \<le> 1" using assms(1) by (simp_all add: row_check_def)
  have b: "0 \<le> base" unfolding base_def by (rule backoff_base_nonneg [OF assms(2)])
  have mono: "base \<le> backoff_base (j_backoff_type job) (j_backoff_delay job) (j_attempts_made job + 1)"
    unfolding base_def by (rule backoff_base_mono [OF assms(2)]) simp
  have bj: "0 \<le> base * ?j" using b j by simp
  have up: "rnd * (base * ?j) * 2 \<le> base * ?j * 2"
    using mult_right_mono [OF assms(4) bj] by simp
  have low: "0 \<le> rnd * (base * ?j) * 2" using assms(3) bj by simp
  have c: "calculateBackoff rnd job = max (base + (rnd * (base * ?j) * 2 - base * ?j)) 0"
    using j by (cases "?j = 0") (simp_all add: calculateBackoff_def base_def Let_def)
  have "base * ?j \<le> base" using b j by (simp add: mult_left_le)
  then show ?thesis using up low mono b unfolding c by (simp add: algebra_simps)
qed

lemma backoff_band_witness: "calculateBackoff 1 (demo_row 1) \<le> 1000 * (1 + 1 / 5)"
proof -
  have f: "row_check (demo_row 1)" "0 \<le> j_backoff_delay (demo_row 1)"
    "backoff_base (j_backoff_type (demo_row 1)) (j_backoff_delay (demo_row 1)) (j_attempts_made (demo_row 1)) = 1000"
    "j_backoff_jitter (demo_row 1) = 1 / 5"
    by code_simp+
  from backoff_band [OF f(1,2), of 1] f(3,4) show ?thesis by simp
qed

text \<open>An attachment that passes validation has a file name that cannot leave its directory (no
  slash, backslash, \<open>..\<close> or NUL, and not blank) and that the job does not use yet, and at least
  one and at most the allowed number of bytes, which are those of the base64 text.\<close>

theorem validated_attachment_is_safe:
  assumes "validateAttachment sha256 input maxBytes existing = Inr n"
  shows "CHR ''/'' \<notin> set (n_filename n) \<and> CHR 0x5C \<notin> set (n_filename n) \<and> CHR 0x00 \<notin> set (n_filename n) \<and>
    \<not> has_dotdot (n_filename n) \<and> js_trim (n_filename n) \<noteq> [] \<and> n_filename n \<notin> set existing \<and>
    n_filename n = i_filename input \<and> n_bytes n = base64_decode (i_content_base64 input) \<and>
    n_bytes n \<noteq> [] \<and> int (length (n_bytes n)) \<le> maxBytes \<and> n_size_bytes n = int (length (n_bytes n)) \<and>
    n_sha256 n = sha256 (n_bytes n)"
  using assms by (auto simp: validateAttachment_def Let_def split: if_splits)

lemma validated_attachment_is_safe_witness:
  "\<exists>n. validateAttachment (\<lambda>_. ''h'') \<lparr>i_filename = ''a.txt'', i_content_type = ''text/plain'',
      i_content_base64 = ''aGk=''\<rparr> 10 [] = Inr n \<and> n_bytes n = [104, 105]"
proof -
  let ?in = "\<lparr>i_filename = ''a.txt'', i_content_type = ''text/plain'', i_content_base64 = ''aGk=''\<rparr>"
  have "(case validateAttachment (\<lambda>_. ''h'') ?in 10 [] of Inr n \<Rightarrow> True | Inl _ \<Rightarrow> False)" by code_simp
  then obtain n where n: "validateAttachment (\<lambda>_. ''h'') ?in 10 [] = Inr n" by (auto split: sum.splits)
  have "base64_decode (i_content_base64 ?in) = [104, 105]" by code_simp
  with validated_attachment_is_safe [OF n] n show ?thesis by auto
qed

end
