(* ===== verification/LockRenewal.thy ===== *)
theory LockRenewal
  imports SweepProps
begin

text \<open>
  The heartbeat that keeps a claimed job alive (\<open>lock-renewal-tick.ts\<close>): its knobs, one tick, and
  a sequence of ticks. The tick is a function of what it observes: the clock at each reading, the
  \<open>cancelled\<close> flag at each check, and the outcome of each bounded renewal attempt, which is either
  the answer of the database or a failure the caller cannot tell from a lost one. The world the
  attempts act on is a parameter; the last sections instantiate it with the queue database and
  the interleaved steps of other sessions.

  Readings of the monotonic clock (\<open>performance.now()\<close>, fractional milliseconds) are rationals. The
  audit calls are the list of events a tick returns; their load snapshot is telemetry and left out.
\<close>

section \<open>The knobs\<close>

definition RENEWAL_INTERVAL_CAP_MS :: int where "RENEWAL_INTERVAL_CAP_MS = 60000"

definition renewalIntervalFor :: "int \<Rightarrow> int" where
  "renewalIntervalFor lockDurationMs = max 1 (min (lockDurationMs div 2) RENEWAL_INTERVAL_CAP_MS)"

record renewal_knobs =
  maxFailuresForAudit :: int
  callTimeoutMs :: int
  safetyMarginMs :: int
  hardEvictMs :: int

text \<open>The four environment variables, unset as \<open>None\<close>.\<close>

record renewal_env =
  env_max_failures :: "string option"
  env_call_timeout :: "string option"
  env_safety_margin :: "string option"
  env_hard_evict :: "string option"

text \<open>\<open>Number\<close> of a run of digits is finite below this bound (it rounds to infinity from there on);
  below it the value is taken exactly.\<close>

definition js_infinite_from :: int where "js_infinite_from = 2 ^ 1024 - 2 ^ 970"

definition parsePositiveInt :: "string option \<Rightarrow> int \<Rightarrow> int" where
  "parsePositiveInt raw fallback =
     (case raw of
        None \<Rightarrow> fallback
      | Some v \<Rightarrow>
          let t = js_trim v in
          if v = [] then fallback
          else if t = [] \<or> \<not> list_all js_digit t then fallback
          else if dec_val t \<ge> js_infinite_from \<or> dec_val t \<le> 0 then fallback
          else dec_val t)"

definition resolveLockRenewalKnobs :: "renewal_env \<Rightarrow> int \<Rightarrow> int \<Rightarrow> renewal_knobs" where
  "resolveLockRenewalKnobs env lockDurationMs intervalMs =
     (let defaultCallTimeout = min (max 1 (lockDurationMs div 3)) 15000;
          defaultSafetyMargin = min (max 1 (lockDurationMs div 6)) 30000;
          defaultHardEvict = lockDurationMs * 2;
          maxFailures = parsePositiveInt (env_max_failures env) 3;
          call0 = parsePositiveInt (env_call_timeout env) defaultCallTimeout;
          margin0 = parsePositiveInt (env_safety_margin env) defaultSafetyMargin;
          hard0 = parsePositiveInt (env_hard_evict env) defaultHardEvict;
          margin = (if 2 * margin0 \<ge> lockDurationMs then defaultSafetyMargin else margin0);
          call = (if call0 > intervalMs then intervalMs else call0);
          softDeadline = lockDurationMs - margin;
          hard = (if hard0 < softDeadline then softDeadline else hard0)
      in \<lparr>maxFailuresForAudit = maxFailures, callTimeoutMs = call, safetyMarginMs = margin,
          hardEvictMs = hard\<rparr>)"

section \<open>One tick\<close>

datatype failure_cause = CallTimeout | Refused

datatype attempt = Answered bool | Unanswered failure_cause

datatype via = ViaRenewal | ViaVerify

datatype tick_result =
    TickOk
  | TickCancelled
  | LockLost via
  | ShouldAbort failure_cause rat rat int

text \<open>\<open>logFailure\<close> with its attempt number, cause, lateness, overlap skips and deferral mark,
  \<open>logSuccessAfterFailure\<close> and \<open>logGaveUp\<close>.\<close>

datatype audit_event =
    AuditFailure int failure_cause rat int bool
  | AuditRecovered int via
  | AuditGaveUp int failure_cause rat int

record renewal_state =
  rs_job :: int
  rs_token :: string
  rs_duration :: int
  rs_knobs :: renewal_knobs
  rs_last_success :: rat
  rs_failures :: int
  rs_interval :: int
  rs_last_tick :: rat
  rs_overlap :: int

text \<open>What one tick reads: the clock on entry, after a failed renewal, after a success and after a
  failed verify; the cancelled flag at its four checks; and the times at which the interval fires
  again while the tick still waits for the renewal, the verify or the reconnect.\<close>

record tick_reads =
  tr_enter :: rat
  tr_failed :: rat
  tr_success :: rat
  tr_verified :: rat
  tr_gone_enter :: bool
  tr_gone_renewal :: bool
  tr_gone_verify :: bool
  tr_gone_reconnect :: bool
  tr_skips_renewal :: "rat list"
  tr_skips_verify :: "rat list"
  tr_skips_reconnect :: "rat list"

text \<open>An interval callback that finds the tick still in flight only counts the skip.\<close>

definition skip_tick :: "rat \<Rightarrow> renewal_state \<Rightarrow> renewal_state" where
  "skip_tick now st = st\<lparr>rs_overlap := rs_overlap st + 1, rs_last_tick := now\<rparr>"

definition skips :: "rat list \<Rightarrow> renewal_state \<Rightarrow> renewal_state" where
  "skips ts st = fold skip_tick ts st"

definition soft_deadline :: "renewal_state \<Rightarrow> int" where
  "soft_deadline st = rs_duration st - safetyMarginMs (rs_knobs st)"

definition near_deadline :: "renewal_state \<Rightarrow> rat \<Rightarrow> bool" where
  "near_deadline st now =
     (now - rs_last_success st + of_int (rs_interval st) \<ge> of_int (soft_deadline st))"

definition renewed_at :: "rat \<Rightarrow> renewal_state \<Rightarrow> renewal_state" where
  "renewed_at now st = st\<lparr>rs_failures := 0, rs_last_success := now\<rparr>"

definition count_failure :: "renewal_state \<Rightarrow> renewal_state" where
  "count_failure st = st\<lparr>rs_failures := rs_failures st + 1\<rparr>"

text \<open>The reconnect changes nothing the tick can see; after it the flag is checked once more.\<close>

definition after_reconnect :: "tick_reads \<Rightarrow> renewal_state \<Rightarrow> tick_result \<times> renewal_state" where
  "after_reconnect rd st =
     (if tr_gone_reconnect rd then TickCancelled else TickOk, skips (tr_skips_reconnect rd) st)"

text \<open>The verify at the deadline, entered with the first failure already counted and logged.\<close>

definition verify_renewal ::
  "('w \<Rightarrow> attempt \<times> 'w) \<Rightarrow> tick_reads \<Rightarrow> rat \<Rightarrow> renewal_state \<Rightarrow> 'w \<Rightarrow>
     tick_result \<times> audit_event list \<times> renewal_state \<times> 'w" where
  "verify_renewal renew rd lateness st0 w =
     (case renew w of
        (answer, w') \<Rightarrow>
          let st = skips (tr_skips_verify rd) st0 in
          if tr_gone_verify rd then (TickCancelled, [], st, w')
          else (case answer of
             Answered True \<Rightarrow>
               (TickOk, [AuditRecovered (rs_failures st) ViaVerify], renewed_at (tr_success rd) st, w')
           | Answered False \<Rightarrow> (LockLost ViaVerify, [], st, w')
           | Unanswered cause \<Rightarrow>
               let st' = count_failure st;
                   since = tr_verified rd - rs_last_success st'
               in if since \<ge> of_int (hardEvictMs (rs_knobs st'))
                  then (ShouldAbort cause lateness since (rs_overlap st'),
                        [AuditGaveUp (rs_failures st') cause lateness (rs_overlap st')], st', w')
                  else (case after_reconnect rd st' of (res, st'') \<Rightarrow>
                        (res, [AuditFailure (rs_failures st') cause lateness (rs_overlap st') True],
                         st'', w'))))"

definition runLockRenewalTick ::
  "('w \<Rightarrow> attempt \<times> 'w) \<Rightarrow> tick_reads \<Rightarrow> renewal_state \<Rightarrow> 'w \<Rightarrow>
     tick_result \<times> audit_event list \<times> renewal_state \<times> 'w" where
  "runLockRenewalTick renew rd st0 w =
     (let lateness = max 0 (tr_enter rd - rs_last_tick st0 - of_int (rs_interval st0));
          st1 = st0\<lparr>rs_last_tick := tr_enter rd\<rparr>
      in if tr_gone_enter rd then (TickCancelled, [], st1, w)
         else (case renew w of
           (answer, w') \<Rightarrow>
             let st = skips (tr_skips_renewal rd) st1 in
             if tr_gone_renewal rd then (TickCancelled, [], st, w')
             else (case answer of
                 Unanswered cause \<Rightarrow>
                   let st' = count_failure st;
                       failed = AuditFailure (rs_failures st') cause lateness (rs_overlap st') False
                   in if near_deadline st' (tr_failed rd)
                      then (case verify_renewal renew rd lateness st' w' of
                              (res, evs, st'', w'') \<Rightarrow> (res, failed # evs, st'', w''))
                      else (case after_reconnect rd st' of (res, st'') \<Rightarrow> (res, [failed], st'', w'))
               | Answered False \<Rightarrow> (LockLost ViaRenewal, [], st, w')
               | Answered True \<Rightarrow>
                   (TickOk,
                    (if rs_failures st > 0 then [AuditRecovered (rs_failures st) ViaRenewal] else []),
                    renewed_at (tr_success rd) st, w'))))"

section \<open>The launch of a job's heartbeat\<close>

text \<open>\<open>launchJob\<close>: the effective lease is the row's, clamped, or the worker's default.\<close>


definition effective_lease :: "int \<Rightarrow> minion_job \<Rightarrow> int" where
  "effective_lease worker_default job =
     (case j_lock_duration_ms job of None \<Rightarrow> worker_default | Some d \<Rightarrow> clampLockDurationMs d)"

definition launch_state :: "renewal_env \<Rightarrow> int \<Rightarrow> rat \<Rightarrow> minion_job \<Rightarrow> string \<Rightarrow> renewal_state" where
  "launch_state env worker_default now job token =
     (let d = effective_lease worker_default job;
          i = renewalIntervalFor d
      in \<lparr>rs_job = j_id job, rs_token = token, rs_duration = d,
          rs_knobs = resolveLockRenewalKnobs env d i, rs_last_success = now, rs_failures = 0,
          rs_interval = i, rs_last_tick = now, rs_overlap = 0\<rparr>)"

section \<open>The knobs fit together\<close>






section \<open>What a tick can do\<close>

lemma skips_fields [simp]:
  "rs_last_success (skips ts st) = rs_last_success st" "rs_knobs (skips ts st) = rs_knobs st"
  "rs_interval (skips ts st) = rs_interval st" "rs_duration (skips ts st) = rs_duration st"
  "rs_job (skips ts st) = rs_job st" "rs_token (skips ts st) = rs_token st"
  "rs_failures (skips ts st) = rs_failures st"
proof -
  have "rs_last_success (fold skip_tick ts st) = rs_last_success st \<and>
    rs_knobs (fold skip_tick ts st) = rs_knobs st \<and> rs_interval (fold skip_tick ts st) = rs_interval st \<and>
    rs_duration (fold skip_tick ts st) = rs_duration st \<and> rs_job (fold skip_tick ts st) = rs_job st \<and>
    rs_token (fold skip_tick ts st) = rs_token st \<and> rs_failures (fold skip_tick ts st) = rs_failures st"
    by (rule Prelude.fold_invariant) (auto simp: skip_tick_def)
  then show "rs_last_success (skips ts st) = rs_last_success st" "rs_knobs (skips ts st) = rs_knobs st"
    "rs_interval (skips ts st) = rs_interval st" "rs_duration (skips ts st) = rs_duration st"
    "rs_job (skips ts st) = rs_job st" "rs_token (skips ts st) = rs_token st"
    "rs_failures (skips ts st) = rs_failures st"
    by (simp_all add: skips_def)
qed

lemma count_failure_fields [simp]:
  "rs_last_success (count_failure st) = rs_last_success st" "rs_knobs (count_failure st) = rs_knobs st"
  "rs_interval (count_failure st) = rs_interval st" "rs_duration (count_failure st) = rs_duration st"
  "rs_job (count_failure st) = rs_job st" "rs_token (count_failure st) = rs_token st"
  by (simp_all add: count_failure_def)

lemma near_deadline_counted [simp]:
  "near_deadline (count_failure st) t = near_deadline st t" "near_deadline (skips ts st) t = near_deadline st t"
  "near_deadline (st\<lparr>rs_last_tick := n\<rparr>) t = near_deadline st t"
  by (simp_all add: near_deadline_def soft_deadline_def)

section \<open>Running blind\<close>






definition demo_beat :: renewal_state where
  "demo_beat = launch_state \<lparr>env_max_failures = None, env_call_timeout = None, env_safety_margin = None,
     env_hard_evict = None\<rparr> 30000 0 (demo_active 1 ''a'') ''a''"

definition demo_read :: "rat \<Rightarrow> tick_reads" where
  "demo_read t = \<lparr>tr_enter = t, tr_failed = t + 10000, tr_success = t + 5, tr_verified = t + 20000,
     tr_gone_enter = False, tr_gone_renewal = False, tr_gone_verify = False, tr_gone_reconnect = False,
     tr_skips_renewal = [], tr_skips_verify = [t + 15000], tr_skips_reconnect = []\<rparr>"


section \<open>The heartbeat on the queue database\<close>

text \<open>A renewal attempt as the database sees it: first the steps other sessions took, then the
  UPDATE at database time. Its answer arrives, or the caller sees a failure although the UPDATE may
  have landed.\<close>

datatype delivery = Delivered | Unseen bool failure_cause

type_synonym attempt_plan = "((queue_db \<Rightarrow> queue_db) \<times> int \<times> delivery) list"

fun db_renew :: "int \<Rightarrow> string \<Rightarrow> int \<Rightarrow> attempt_plan \<times> queue_db \<Rightarrow> attempt \<times> attempt_plan \<times> queue_db" where
  "db_renew i t d ([], s) = (Unanswered CallTimeout, [], s)"
| "db_renew i t d ((others, now, del) # plan, s) =
     (case renewLock i t d now (others s) of
        (renewed, s') \<Rightarrow>
          (case del of
             Delivered \<Rightarrow> (Answered renewed, plan, s')
           | Unseen landed cause \<Rightarrow> (Unanswered cause, plan, if landed then s' else others s)))"

definition db_tick ::
  "tick_reads \<Rightarrow> renewal_state \<Rightarrow> attempt_plan \<times> queue_db \<Rightarrow>
     tick_result \<times> audit_event list \<times> renewal_state \<times> attempt_plan \<times> queue_db" where
  "db_tick rd st w = runLockRenewalTick (db_renew (rs_job st) (rs_token st) (rs_duration st)) rd st w"

text \<open>Nobody else is handed the token: what the other sessions do is a run without it.\<close>

definition plan_ok :: "string \<Rightarrow> attempt_plan \<Rightarrow> bool" where
  "plan_ok t plan = (\<forall>(others, now, del) \<in> set plan. \<forall>s. db_ok s \<longrightarrow> runs {t} s (others s))"

lemma db_renew_runs:
  assumes "db_renew i t d (plan, s) = (a, plan', s')" and "db_ok s" and "plan_ok t plan"
  shows "runs {t} s s' \<and> db_ok s' \<and> plan_ok t plan' \<and> (a = Answered False \<longrightarrow> \<not> lock_held i t s')"
proof (cases plan)
  case Nil
  with assms show ?thesis by (auto intro: runs.none)
next
  case (Cons p rest)
  obtain others now del where p: "p = (others, now, del)" by (cases p)
  obtain b s2 where r: "renewLock i t d now (others s) = (b, s2)" by fastforce
  have o: "runs {t} s (others s)" and rest: "plan_ok t rest"
    using assms(2,3) Cons p by (auto simp: plan_ok_def)
  have ok: "db_ok (others s)" using o assms(2) by (rule runs_ok)
  have "queue_step None (others s) s2" using queue_step.renew [of "others s" i t d now] r by simp
  then have "runs {t} s s2" using o by (auto intro: runs.more)
  moreover have "\<not> lock_held i t s2" if "\<not> b"
  proof -
    have n: "\<not> lock_held i t (others s)"
      using r that by (auto simp: renewLock_def fenced_update_def lock_held_def list_ex_iff returning_Nil_iff)
    then have "renewLock i t d now (others s) = (False, others s)" by (rule renewing.refuses)
    with r n show ?thesis by simp
  qed
  ultimately show ?thesis
    using assms(1,2) Cons p r o rest ok runs_ok [of "{t}" s s2]
    by (auto split: delivery.splits)
qed

lemma runs_trans: "runs T s s' \<Longrightarrow> runs T s' s'' \<Longrightarrow> runs T s s''"
  by (rotate_tac, induction rule: runs.induct) (auto intro: runs.more)

lemma db_renew_unanswered:
  "db_renew i t d (plan, s) = (Unanswered c, plan', s') \<Longrightarrow> \<not> (\<exists>g n rest. plan = (g, n, Delivered) # rest)"
  by (cases plan) (auto split: prod.splits)

lemma tick_effects:
  assumes "db_tick rd st (plan, s) = (res, evs, st', plan', s')" and "db_ok s" and "plan_ok (rs_token st) plan"
  shows "runs {rs_token st} s s' \<and> db_ok s' \<and>
    (\<forall>v. res = LockLost v \<longrightarrow> \<not> lock_held (rs_job st) (rs_token st) s')"
proof -
  let ?renew = "db_renew (rs_job st) (rs_token st) (rs_duration st)"
  obtain a p1 s1 where 1: "?renew (plan, s) = (a, p1, s1)" by (metis prod_cases3)
  obtain a2 p2 s2 where 2: "?renew (p1, s1) = (a2, p2, s2)" by (metis prod_cases3)
  note e1 = db_renew_runs [OF 1 assms(2,3)]
  then have e2: "runs {rs_token st} s1 s2 \<and> db_ok s2 \<and>
      (a2 = Answered False \<longrightarrow> \<not> lock_held (rs_job st) (rs_token st) s2)"
    using db_renew_runs [OF 2] by blast
  have 3: "runs {rs_token st} s s2" using e1 e2 by (blast intro: runs_trans)
  show ?thesis
    using assms(1,2) 1 2 e1 e2 3
    by (auto simp: db_tick_def runLockRenewalTick_def verify_renewal_def after_reconnect_def Let_def
        intro: runs.none split: if_splits attempt.splits bool.splits)
qed

text \<open>The heartbeat evicts a job only with cause. If a tick reports the lock lost, the database
  said so, and the worker's claim is over for good: at any later point its completion and its
  failure are refused. If a tick gives up, the database answered neither attempt of the tick and
  the last answered renewal is at least \<open>hardEvictMs\<close> ago. In particular no answered renewal of a
  lock that is still held ends in an eviction.\<close>

theorem eviction_needs_cause:
  assumes "reachable s" and "plan_ok (rs_token st) plan"
    and tick: "db_tick rd st (plan, s) = (res, evs, st', plan', s')"
    and "runs {rs_token st} s' s''"
  shows "case res of
      LockLost v \<Rightarrow>
        completeJob (rs_job st) (rs_token st) result now s'' = (None, s'') \<and>
        failJob (rs_job st) (rs_token st) err ns bo now s'' = (None, s'')
    | ShouldAbort c late since skipped \<Rightarrow>
        (\<forall>g n g' n' rest d. plan \<noteq> (g, n, Delivered) # rest \<and> plan \<noteq> (g, n, d) # (g', n', Delivered) # rest) \<and>
        of_int (hardEvictMs (rs_knobs st)) \<le> since
    | _ \<Rightarrow> True"
proof (cases res)
  case (LockLost v)
  note ok = ok_reachable [OF assms(1)]
  have "\<not> lock_held (rs_job st) (rs_token st) s'" "db_ok s'"
    using tick_effects [OF tick ok assms(2)] LockLost by auto
  then have "\<not> lock_held (rs_job st) (rs_token st) s''"
    using lock_lost_for_good [OF assms(4)] by blast
  then show ?thesis using LockLost by (simp add: completing.refuses failing.refuses)
next
  case (ShouldAbort c late since skipped)
  let ?renew = "db_renew (rs_job st) (rs_token st) (rs_duration st)"
  obtain a p1 s1 where 1: "?renew (plan, s) = (a, p1, s1)" by (metis prod_cases3)
  obtain a2 p2 s2 where 2: "?renew (p1, s1) = (a2, p2, s2)" by (metis prod_cases3)
  from tick ShouldAbort 1 2 obtain c1 where a: "a = Unanswered c1" "a2 = Unanswered c"
    "of_int (hardEvictMs (rs_knobs st)) \<le> since"
    by (auto simp: db_tick_def runLockRenewalTick_def verify_renewal_def after_reconnect_def Let_def
        split: if_splits attempt.splits bool.splits)
  have "plan \<noteq> (g, n, Delivered) # rest" for g n rest
    using db_renew_unanswered 1 a(1) by blast
  moreover have "plan \<noteq> (g, n, d) # (g', n', Delivered) # rest" for g n d g' n' rest
  proof
    assume p: "plan = (g, n, d) # (g', n', Delivered) # rest"
    with 1 have "p1 = (g', n', Delivered) # rest" by (auto split: prod.splits delivery.splits)
    with 2 a(2) db_renew_unanswered show False by blast
  qed
  ultimately show ?thesis using ShouldAbort a(3) by simp
qed simp_all

lemma eviction_needs_cause_witness:
  "fst (db_tick (demo_read 15000) demo_beat ([(\<lambda>s. s, 62000000, Delivered)], demo_reclaimed)) = LockLost ViaRenewal \<and>
   completeJob 1 ''a'' None 63000000
     (snd (snd (snd (snd (db_tick (demo_read 15000) demo_beat ([(\<lambda>s. s, 62000000, Delivered)], demo_reclaimed)))))) =
   (None, snd (snd (snd (snd (db_tick (demo_read 15000) demo_beat ([(\<lambda>s. s, 62000000, Delivered)], demo_reclaimed))))))"
proof -
  let ?w = "db_tick (demo_read 15000) demo_beat ([(\<lambda>s. s, 62000000, Delivered)], demo_reclaimed)"
  have lost: "fst ?w = LockLost ViaRenewal" by code_simp
  have b: "rs_job demo_beat = 1" "rs_token demo_beat = ''a''" by code_simp+
  have p: "plan_ok (rs_token demo_beat) [(\<lambda>s. s, 62000000, Delivered)]"
    by (simp add: plan_ok_def runs.none)
  have w: "?w = (fst ?w, fst (snd ?w), fst (snd (snd ?w)), fst (snd (snd (snd ?w))), snd (snd (snd (snd ?w))))"
    by simp
  from eviction_needs_cause [OF demo_reachable(4) p w runs.none, where result = None and now = 63000000]
  show ?thesis unfolding lost b by simp
qed

text \<open>A heartbeat that gets through keeps the job: if the database answers the renewal while the
  lock is held, the tick succeeds, the failure count is back at zero, the lease runs for the full
  duration from that moment, and no stall sweep up to its end takes the job away.\<close>

theorem answered_heartbeat_keeps_job:
  assumes "db_ok s" and "plan_ok (rs_token st) ((others, now, Delivered) # plan)"
    and held: "lock_held (rs_job st) (rs_token st) (others s)"
    and "\<not> tr_gone_enter rd" and "\<not> tr_gone_renewal rd" and "0 \<le> grace"
    and "now' \<le> now + ms (rs_duration st)"
    and tick: "db_tick rd st ((others, now, Delivered) # plan, s) = (res, evs, st', plan', s')"
  shows "res = TickOk \<and> rs_failures st' = 0 \<and> rs_last_success st' = tr_success rd \<and>
    list_ex (\<lambda>r. holds (rs_job st) (rs_token st) r \<and> j_lock_until r = Some (now + ms (rs_duration st))) (d_jobs s') \<and>
    lock_held (rs_job st) (rs_token st) (snd (handleStalled grace now' busy s'))"
proof -
  let ?i = "rs_job st" and ?t = "rs_token st"
  have ok: "db_ok (others s)" using assms(1,2) runs_ok by (fastforce simp: plan_ok_def)
  from held obtain r where r: "r \<in> set (d_jobs (others s))" "holds ?i ?t r"
    by (auto simp: lock_held_def list_ex_iff)
  define r' where "r' = r\<lparr>j_lock_until := Some (now + ms (rs_duration st)), j_updated_at := now\<rparr>"
  obtain b s2 where l2: "renewLock ?i ?t (rs_duration st) now (others s) = (b, s2)" by fastforce
  have b using l2 r by (auto simp: renewLock_def fenced_update_def returning_Nil_iff)
  have t: "s' = s2 \<and> res = TickOk \<and> rs_failures st' = 0 \<and> rs_last_success st' = tr_success rd"
    using tick l2 \<open>b\<close> assms(4,5)
    by (auto simp: db_tick_def runLockRenewalTick_def Let_def renewed_at_def)
  then have l: "renewLock ?i ?t (rs_duration st) now (others s) = (b, s')" using l2 by simp
  have r': "r' \<in> set (d_jobs s')"
    using l r unfolding renewLock_def fenced_update_def r'_def by (auto intro: in_upd_hit)
  have "db_ok s'" using l ok ok_renewLock [OF ok, of ?i ?t "rs_duration st" now] by simp
  moreover have "j_status r' = Active" "j_id r' = ?i" "j_lock_token r' = Some ?t"
    "j_lock_until r' = Some (now + ms (rs_duration st))"
    using r(2) by (simp_all add: r'_def holds_def)
  moreover have "0 \<le> ms grace" using assms(6) by (simp add: ms_def)
  ultimately have "r' \<in> set (d_jobs (snd (handleStalled grace now' busy s')))"
    using r' assms(7) by (intro stall_spares) (auto simp: stalled_def sql_defs)
  then have "lock_held ?i ?t (snd (handleStalled grace now' busy s'))"
    using \<open>j_status r' = Active\<close> \<open>j_id r' = ?i\<close> \<open>j_lock_token r' = Some ?t\<close> by (auto simp: lock_held_iff)
  moreover have "list_ex (\<lambda>r. holds ?i ?t r \<and> j_lock_until r = Some (now + ms (rs_duration st))) (d_jobs s')"
    using r' \<open>j_status r' = Active\<close> \<open>j_id r' = ?i\<close> \<open>j_lock_token r' = Some ?t\<close>
      \<open>j_lock_until r' = Some (now + ms (rs_duration st))\<close> by (auto simp: list_ex_iff holds_def)
  ultimately show ?thesis using t by blast
qed

lemma answered_heartbeat_keeps_job_witness:
  "lock_held 1 ''a'' (snd (handleStalled 0 36000000 {}
     (snd (snd (snd (snd (db_tick (demo_read 15000) demo_beat ([(\<lambda>s. s, 6000000, Delivered)], demo_claimed))))))))"
proof -
  let ?w = "db_tick (demo_read 15000) demo_beat ([(\<lambda>s. s, 6000000, Delivered)], demo_claimed)"
  have b: "rs_job demo_beat = 1" "rs_token demo_beat = ''a''" "rs_duration demo_beat = 30000" by code_simp+
  have p: "plan_ok (rs_token demo_beat) [(\<lambda>s. s, 6000000, Delivered)]"
    by (simp add: plan_ok_def runs.none)
  have h: "lock_held (rs_job demo_beat) (rs_token demo_beat) demo_claimed" by code_simp
  have g: "\<not> tr_gone_enter (demo_read 15000)" "\<not> tr_gone_renewal (demo_read 15000)"
    by (simp_all add: demo_read_def)
  have w: "?w = (fst ?w, fst (snd ?w), fst (snd (snd ?w)), fst (snd (snd (snd ?w))), snd (snd (snd (snd ?w))))"
    by simp
  from answered_heartbeat_keeps_job [OF ok_reachable [OF demo_reachable(2)] p _ g _ _ w, of 0 36000000 "{}"] h
  show ?thesis by (simp add: b ms_def)
qed

end
