(* ===== verification/Retry.thy ===== *)
theory Retry
  imports QueueDemo
begin

text \<open>
  Retrying after a lost connection: the error classes of \<open>retry-matcher.ts\<close>, the delays, the loop
  and the environment settings of \<open>retry.ts\<close>, and \<open>lockRetry\<close> of \<open>queue.ts\<close>, which wraps
  \<open>promoteDelayed\<close>. A thrown value is its \<open>code\<close>, \<open>message\<close> and \<open>problem\<close> members; the call that is
  retried is a function of the world that answers or throws and in both cases may have changed
  the world; the random numbers are an argument.
\<close>

section \<open>Matching error messages\<close>

definition lower_ci :: "string \<Rightarrow> string" where
  "lower_ci s = map (\<lambda>c. if 65 \<le> js_code c \<and> js_code c \<le> 90 then char_of (js_code c + 32) else c) s"

fun js_includes :: "string \<Rightarrow> string \<Rightarrow> bool" where
  "js_includes [] p = (p = [])"
| "js_includes (c # s) p = (js_starts_with (c # s) p \<or> js_includes s p)"

text \<open>\<open>p1.*p2.*..\<close>: the pieces in order, with no line terminator in the gaps.\<close>

fun gap_match :: "string list \<Rightarrow> string \<Rightarrow> bool" where
  "gap_match [] s = True"
| "gap_match (p # ps) s =
     list_ex (\<lambda>k. list_all (\<lambda>c. js_code c \<noteq> 10 \<and> js_code c \<noteq> 13) (take k s) \<and>
                 js_starts_with (drop k s) p \<and> gap_match ps (drop (k + length p) s))
       [0..<Suc (length s)]"

definition pieces_match :: "string list \<Rightarrow> string \<Rightarrow> bool" where
  "pieces_match ps s =
     (case ps of [] \<Rightarrow> True
      | p # qs \<Rightarrow> list_ex (\<lambda>k. js_starts_with (drop k s) p \<and> gap_match qs (drop (k + length p) s))
                    [0..<Suc (length s)])"

section \<open>Error classes\<close>

record thrown =
  th_code :: "string option"
  th_message :: string
  th_problem :: "string option"

text \<open>\<open>CONN_PATTERNS\<close>, lower case, each the pieces between its \<open>.*\<close>; the optional \<open>s\<close> of \<open>clients?\<close>
  is absorbed by the \<open>.*\<close> that follows it.\<close>

definition CONN_PATTERNS :: "string list list" where
  "CONN_PATTERNS =
     [[''password authentication failed''], [''connection refused''],
      [''the database system is starting up''], [''connection terminated unexpectedly''],
      [''econnreset''], [''connection'', ''closed''], [''server closed the connection''],
      [''could not connect to server''], [''no database connection''], [''connection_ended''],
      [''emaxconnsession''], [''too many clients already''],
      [''max'', ''client'', ''in session mode''], [''remaining connection slots are reserved'']]"

definition isStatementTimeoutError :: "thrown \<Rightarrow> bool" where
  "isStatementTimeoutError e =
     (th_code e = Some ''57014'' \<or>
      js_includes (lower_ci (th_message e)) ''statement_timeout'' \<or>
      js_includes (lower_ci (th_message e)) ''canceling statement due to statement timeout'')"

definition isLockTimeoutError :: "thrown \<Rightarrow> bool" where
  "isLockTimeoutError e =
     (th_code e = Some ''55P03'' \<or>
      js_includes (lower_ci (th_message e)) ''lock_not_available'' \<or>
      js_includes (lower_ci (th_message e)) ''could not obtain lock'')"

definition retryable_code :: "string option \<Rightarrow> bool" where
  "retryable_code c =
     (case c of
        None \<Rightarrow> False
      | Some k \<Rightarrow> js_starts_with k ''08'' \<or> k = ''CONNECTION_ENDED'' \<or> k = ''CONNECTION_CLOSED'' \<or>
                  k = ''53300'')"

definition isRetryableConnError :: "thrown \<Rightarrow> bool" where
  "isRetryableConnError e =
     (if isStatementTimeoutError e \<or> isLockTimeoutError e then False
      else retryable_code (th_code e) \<or>
           th_problem e = Some ''No database connection'' \<or>
           list_ex (\<lambda>p. pieces_match p (lower_ci (th_message e))) CONN_PATTERNS)"

section \<open>Delays\<close>

datatype jitter_mode = JitterNone | JitterFull | JitterDecorrelated

definition computeNextDelay :: "nat \<Rightarrow> rat \<Rightarrow> rat \<Rightarrow> rat \<Rightarrow> jitter_mode \<Rightarrow> rat \<Rightarrow> rat" where
  "computeNextDelay attempt prevDelay base maxDelay jitter rng =
     (case jitter of
        JitterDecorrelated \<Rightarrow>
          (let capped = min (max base (prevDelay * 3)) maxDelay
           in min capped (max base (of_int \<lfloor>base + rng * (capped - base + 1)\<rfloor>)))
      | JitterFull \<Rightarrow> of_int \<lfloor>rng * min (base * 2 ^ attempt) maxDelay\<rfloor>
      | JitterNone \<Rightarrow> min (base * 2 ^ attempt) maxDelay)"

record retry_opts =
  ro_maxRetries :: nat
  ro_delayMs :: rat
  ro_delayMaxMs :: rat
  ro_jitter :: jitter_mode

definition BULK_RETRY_OPTS :: retry_opts where
  "BULK_RETRY_OPTS = \<lparr>ro_maxRetries = 3, ro_delayMs = 1000, ro_delayMaxMs = 10000,
     ro_jitter = JitterDecorrelated\<rparr>"

text \<open>The settings: \<open>Left\<close> names the variable whose value is refused.\<close>

definition js_integer :: "js_number \<Rightarrow> int option" where
  "js_integer n = (case n of Finite q \<Rightarrow> if of_int \<lfloor>q\<rfloor> = q then Some \<lfloor>q\<rfloor> else None | _ \<Rightarrow> None)"

definition env_int :: "string \<Rightarrow> int \<Rightarrow> int \<Rightarrow> string option \<Rightarrow> string + int" where
  "env_int name lo dflt raw =
     (case raw of
        None \<Rightarrow> Inr dflt
      | Some v \<Rightarrow>
          if v = [] then Inr dflt
          else (case js_integer (js_Number v) of
                  None \<Rightarrow> Inl name
                | Some n \<Rightarrow> if n < lo then Inl name else Inr n))"

definition resolveBulkRetryOpts ::
  "string option \<Rightarrow> string option \<Rightarrow> string option \<Rightarrow> string + retry_opts" where
  "resolveBulkRetryOpts envRetries envBase envMax =
     (case env_int ''GBRAIN_BULK_MAX_RETRIES'' 0 3 envRetries of
        Inl e \<Rightarrow> Inl e
      | Inr n \<Rightarrow>
          (case env_int ''GBRAIN_BULK_RETRY_BASE_MS'' 1 1000 envBase of
             Inl e \<Rightarrow> Inl e
           | Inr b \<Rightarrow>
               (case env_int ''GBRAIN_BULK_RETRY_MAX_MS'' b 10000 envMax of
                  Inl e \<Rightarrow> Inl e
                | Inr m \<Rightarrow> Inr \<lparr>ro_maxRetries = nat n, ro_delayMs = of_int b,
                                ro_delayMaxMs = of_int m, ro_jitter = JitterDecorrelated\<rparr>)))"

section \<open>The loop\<close>

text \<open>One call: its answer or what it threw, and the world it left. \<open>ab\<close> tells whether the abort
  signal has fired before the attempt, before the reconnect and during the sleep; a reconnect
  that throws replaces the error.\<close>

datatype 'a outcome = Value 'a | Thrown thrown

record retry_env =
  re_aborted_before :: bool
  re_aborted_reconnect :: bool
  re_reconnect :: "thrown option option"
  re_aborted_sleep :: bool
  re_rng :: rat

datatype 'a retry_result = Returns 'a | Throws thrown | Aborted

datatype pause_result = Slept | PauseThrows thrown | PauseAborted

definition retry_pause :: "retry_env \<Rightarrow> pause_result" where
  "retry_pause e =
     (let sleep = (if re_aborted_sleep e then PauseAborted else Slept)
      in case re_reconnect e of
           None \<Rightarrow> sleep
         | Some r \<Rightarrow>
             if re_aborted_reconnect e then PauseAborted
             else (case r of Some err \<Rightarrow> PauseThrows err | None \<Rightarrow> sleep))"

text \<open>\<open>left\<close> is the number of retries left, \<open>attempt\<close> counts from 0; the delays slept are returned
  with the result. \<open>envs\<close> gives the surroundings of each attempt.\<close>

fun retry_loop ::
  "('w \<Rightarrow> 'a outcome \<times> 'w) \<Rightarrow> retry_opts \<Rightarrow> (nat \<Rightarrow> retry_env) \<Rightarrow> nat \<Rightarrow> nat \<Rightarrow> rat \<Rightarrow> 'w \<Rightarrow>
     'a retry_result \<times> rat list \<times> 'w" where
  "retry_loop f opts envs left attempt prev w =
     (if re_aborted_before (envs attempt) then (Aborted, [], w)
      else (case f w of
          (Value a, w') \<Rightarrow> (Returns a, [], w')
        | (Thrown err, w') \<Rightarrow>
            if \<not> isRetryableConnError err then (Throws err, [], w')
            else (case left of
                0 \<Rightarrow> (Throws err, [], w')
              | Suc n \<Rightarrow>
                  (case retry_pause (envs attempt) of
                     PauseAborted \<Rightarrow> (Aborted, [], w')
                   | PauseThrows err' \<Rightarrow> (Throws err', [], w')
                   | Slept \<Rightarrow>
                       (let d = computeNextDelay attempt prev (ro_delayMs opts) (ro_delayMaxMs opts)
                                  (ro_jitter opts) (re_rng (envs attempt))
                        in case retry_loop f opts envs n (Suc attempt) d w' of
                             (res, ds, w'') \<Rightarrow> (res, d # ds, w''))))))"

declare retry_loop.simps [simp del]

definition withRetry ::
  "('w \<Rightarrow> 'a outcome \<times> 'w) \<Rightarrow> retry_opts \<Rightarrow> (nat \<Rightarrow> retry_env) \<Rightarrow> 'w \<Rightarrow> 'a retry_result \<times> rat list \<times> 'w" where
  "withRetry f opts envs w = retry_loop f opts envs (ro_maxRetries opts) 0 0 w"

definition lockRetry ::
  "('w \<Rightarrow> 'a outcome \<times> 'w) \<Rightarrow> string option \<Rightarrow> string option \<Rightarrow> string option \<Rightarrow> (nat \<Rightarrow> retry_env) \<Rightarrow> 'w \<Rightarrow>
     string + 'a retry_result \<times> rat list \<times> 'w" where
  "lockRetry f envRetries envBase envMax envs w =
     (case resolveBulkRetryOpts envRetries envBase envMax of
        Inl e \<Rightarrow> Inl e
      | Inr opts \<Rightarrow> Inr (withRetry f opts envs w))"

section \<open>What the loop guarantees\<close>

definition delay_ok :: "retry_opts \<Rightarrow> rat \<Rightarrow> bool" where
  "delay_ok opts d =
     (0 \<le> d \<and> d \<le> ro_delayMaxMs opts \<and>
      (ro_jitter opts = JitterDecorrelated \<longrightarrow> min (ro_delayMs opts) (ro_delayMaxMs opts) \<le> d))"

lemma computeNextDelay_ok:
  assumes "0 \<le> ro_delayMs opts" and "0 \<le> ro_delayMaxMs opts" and "0 \<le> rng" and "rng \<le> 1"
  shows "delay_ok opts (computeNextDelay attempt prev (ro_delayMs opts) (ro_delayMaxMs opts) (ro_jitter opts) rng)"
proof (cases "ro_jitter opts")
  case JitterNone
  with assms show ?thesis by (simp add: delay_ok_def computeNextDelay_def)
next
  case JitterFull
  define e where "e = min (ro_delayMs opts * 2 ^ attempt) (ro_delayMaxMs opts)"
  have e: "0 \<le> e" "e \<le> ro_delayMaxMs opts" using assms(1,2) by (simp_all add: e_def)
  have "0 \<le> rng * e" using assms(3) e(1) by (rule mult_nonneg_nonneg)
  moreover have "rng * e \<le> e" using mult_left_le_one_le [OF e(1) assms(3,4)] .
  ultimately have "0 \<le> \<lfloor>rng * e\<rfloor>" "of_int \<lfloor>rng * e\<rfloor> \<le> ro_delayMaxMs opts"
    using e(2) of_int_floor_le [of "rng * e"] by (simp, linarith)
  with JitterFull show ?thesis by (simp add: delay_ok_def computeNextDelay_def e_def)
next
  case JitterDecorrelated
  define c where "c = min (max (ro_delayMs opts) (prev * 3)) (ro_delayMaxMs opts)"
  define x where "x = rat_of_int \<lfloor>ro_delayMs opts + rng * (c - ro_delayMs opts + 1)\<rfloor>"
  have "min (ro_delayMs opts) (ro_delayMaxMs opts) \<le> c" "c \<le> ro_delayMaxMs opts" "0 \<le> c"
    using assms(1,2) by (auto simp: c_def)
  moreover have "computeNextDelay attempt prev (ro_delayMs opts) (ro_delayMaxMs opts) (ro_jitter opts) rng =
      min c (max (ro_delayMs opts) x)"
    using JitterDecorrelated by (simp add: computeNextDelay_def Let_def c_def x_def)
  ultimately show ?thesis using assms(1) by (auto simp: delay_ok_def min_def max_def split: if_splits)
qed

text \<open>The state after \<open>k\<close> calls, and whether each of them threw an error that is retried.\<close>

fun after_calls :: "('w \<Rightarrow> 'a outcome \<times> 'w) \<Rightarrow> nat \<Rightarrow> 'w \<Rightarrow> 'w" where
  "after_calls f 0 w = w"
| "after_calls f (Suc k) w = after_calls f k (snd (f w))"

fun all_retryable :: "('w \<Rightarrow> 'a outcome \<times> 'w) \<Rightarrow> nat \<Rightarrow> 'w \<Rightarrow> bool" where
  "all_retryable f 0 w = True"
| "all_retryable f (Suc k) w =
     ((case fst (f w) of Value _ \<Rightarrow> False | Thrown e \<Rightarrow> isRetryableConnError e) \<and>
      all_retryable f k (snd (f w)))"

definition rng_ok :: "(nat \<Rightarrow> retry_env) \<Rightarrow> bool" where
  "rng_ok envs = (\<forall>k. 0 \<le> re_rng (envs k) \<and> re_rng (envs k) \<le> 1)"

definition retry_verdict ::
  "('w \<Rightarrow> 'a outcome \<times> 'w) \<Rightarrow> retry_opts \<Rightarrow> nat \<Rightarrow> 'w \<Rightarrow> 'a retry_result \<times> rat list \<times> 'w \<Rightarrow> bool" where
  "retry_verdict f opts left w out =
     (case out of (res, ds, w') \<Rightarrow>
        length ds \<le> left \<and> list_all (delay_ok opts) ds \<and> all_retryable f (length ds) w \<and>
        (let last = after_calls f (length ds) w
         in w' = last \<and> res = Aborted \<or>
            w' = snd (f last) \<and>
              (case fst (f last) of
                 Value a \<Rightarrow> res = Returns a
               | Thrown e \<Rightarrow> (isRetryableConnError e \<and> (res = Aborted \<or> (\<exists>e'. res = Throws e'))) \<or> res = Throws e)))"

lemma retry_loop_verdict:
  assumes "rng_ok envs" and "0 \<le> ro_delayMs opts" and "0 \<le> ro_delayMaxMs opts"
  shows "retry_verdict f opts left w (retry_loop f opts envs left attempt prev w)"
proof (induction left arbitrary: attempt prev w)
  case 0
  show ?case
    by (subst retry_loop.simps)
      (auto simp: retry_verdict_def Let_def split: outcome.splits prod.splits)
next
  case (Suc n)
  let ?d = "computeNextDelay attempt prev (ro_delayMs opts) (ro_delayMaxMs opts) (ro_jitter opts) (re_rng (envs attempt))"
  have d: "delay_ok opts ?d" using assms by (intro computeNextDelay_ok) (simp_all add: rng_ok_def)
  show ?case
  proof (cases "re_aborted_before (envs attempt)")
    case True
    then show ?thesis by (subst retry_loop.simps) (simp add: retry_verdict_def)
  next
    case False
    obtain o1 w1 where f: "f w = (o1, w1)" by fastforce
    obtain res ds w2 where r: "retry_loop f opts envs n (Suc attempt) ?d w1 = (res, ds, w2)" by (rule prod_cases3)
    have "retry_verdict f opts n w1 (res, ds, w2)" using Suc.IH [of w1 "Suc attempt" ?d] r by simp
    with False f r d show ?thesis
      by (subst retry_loop.simps)
        (auto simp: retry_verdict_def Let_def split: outcome.splits pause_result.splits)
  qed
qed

section \<open>Promotion under retry\<close>

lemma resolveBulkRetryOpts_ok:
  "resolveBulkRetryOpts er eb em = Inr opts \<Longrightarrow>
     1 \<le> ro_delayMs opts \<and> 1 \<le> ro_delayMaxMs opts \<and> ro_jitter opts = JitterDecorrelated"
  by (auto simp: resolveBulkRetryOpts_def env_int_def split: sum.splits option.splits if_splits)

text \<open>\<open>promoteDelayed\<close> over a connection: each call has a database time, and either the rows come back
  or an error does, the UPDATE having landed or not.\<close>

type_synonym promote_plan = "(int \<times> bool \<times> thrown option) list"

fun promote_call :: "promote_plan \<times> queue_db \<Rightarrow> minion_job list outcome \<times> promote_plan \<times> queue_db" where
  "promote_call ([], s) = (Value [], [], s)"
| "promote_call ((now, landed, failure) # plan, s) =
     (case promoteDelayed now s of
        (rows, s') \<Rightarrow>
          (case failure of
             None \<Rightarrow> (Value rows, plan, s')
           | Some e \<Rightarrow> (Thrown e, plan, if landed then s' else s)))"

definition promoted_once :: "minion_job \<Rightarrow> minion_job \<Rightarrow> bool" where
  "promoted_once r r' = (r' = r \<or> (\<exists>now. promotable now r \<and> r' = promote_row now r))"

definition promoted_db :: "queue_db \<Rightarrow> queue_db \<Rightarrow> bool" where
  "promoted_db s s' = (list_all2 promoted_once (d_jobs s) (d_jobs s') \<and> d_inbox s' = d_inbox s)"

lemma promoted_once_trans: "promoted_once r r' \<Longrightarrow> promoted_once r' r'' \<Longrightarrow> promoted_once r r''"
  by (auto simp: promoted_once_def promotable_def promote_row_def)

lemma promoted_db_refl: "promoted_db s s"
  by (simp add: promoted_db_def list_all2_refl promoted_once_def)

lemma promoted_db_trans: "promoted_db s s' \<Longrightarrow> promoted_db s' s'' \<Longrightarrow> promoted_db s s''"
  unfolding promoted_db_def by (auto intro: list_all2_trans [OF promoted_once_trans])

lemma promote_call_promotes: "promoted_db s (snd (snd (promote_call (plan, s))))"
proof (cases plan)
  case Nil
  then show ?thesis by (simp add: promoted_db_refl)
next
  case (Cons c rest)
  obtain now landed failure where c: "c = (now, landed, failure)" by (rule prod_cases3)
  have "promoted_db s (snd (promoteDelayed now s))"
    by (auto simp: promoted_db_def promoteDelayed_def upd_where_def list_all2_map2 promoted_once_def
        intro!: list_all2_refl)
  then show ?thesis
    using Cons c promoted_db_refl by (cases "promoteDelayed now s") (auto split: option.split)
qed

lemma calls_promote: "promoted_db (snd w) (snd (after_calls promote_call k w))"
proof (induction k arbitrary: w)
  case (Suc k)
  have "promoted_db (snd w) (snd (snd (promote_call w)))"
    using promote_call_promotes [of "snd w" "fst w"] by simp
  then show ?case using Suc [of "snd (promote_call w)"] by (simp add: promoted_db_trans)
qed (simp add: promoted_db_refl)

text \<open>Promoting due jobs survives a flaky connection: however many attempts fail, and whether or
  not the failed ones had landed, the loop ends after at most the configured number of retries,
  each delay between the base and the cap (the cap where it is below the base), and every job
  row was promoted at most once, at a moment at which it was due; nothing else changed.\<close>

theorem promotion_retries_safely:
  assumes "resolveBulkRetryOpts envRetries envBase envMax = Inr opts" and "rng_ok envs"
    and "lockRetry promote_call envRetries envBase envMax envs (plan, s) = Inr (res, ds, plan', s')"
  shows "length ds \<le> ro_maxRetries opts \<and>
    list_all (\<lambda>d. min (ro_delayMs opts) (ro_delayMaxMs opts) \<le> d \<and> d \<le> ro_delayMaxMs opts) ds \<and>
    list_all2 (\<lambda>r r'. r' = r \<or> (\<exists>now. promotable now r \<and> r' = promote_row now r)) (d_jobs s) (d_jobs s') \<and>
    d_inbox s' = d_inbox s"
proof -
  note o = resolveBulkRetryOpts_ok [OF assms(1)]
  have run: "retry_loop promote_call opts envs (ro_maxRetries opts) 0 0 (plan, s) = (res, ds, plan', s')"
    using assms(1,3) by (simp add: lockRetry_def withRetry_def)
  have "retry_verdict promote_call opts (ro_maxRetries opts) (plan, s)
      (retry_loop promote_call opts envs (ro_maxRetries opts) 0 0 (plan, s))"
    using assms(2) o by (intro retry_loop_verdict) simp_all
  then have v: "length ds \<le> ro_maxRetries opts" "list_all (delay_ok opts) ds"
    "(plan', s') = after_calls promote_call (length ds) (plan, s) \<or>
     (plan', s') = snd (promote_call (after_calls promote_call (length ds) (plan, s)))"
    by (auto simp: run retry_verdict_def Let_def)
  have "promoted_db s s'"
    using v(3)
  proof
    assume "(plan', s') = after_calls promote_call (length ds) (plan, s)"
    then show ?thesis using calls_promote [of "(plan, s)" "length ds"] by (metis snd_conv)
  next
    assume e: "(plan', s') = snd (promote_call (after_calls promote_call (length ds) (plan, s)))"
    let ?w = "after_calls promote_call (length ds) (plan, s)"
    have "promoted_db s (snd ?w)" using calls_promote [of "(plan, s)" "length ds"] by simp
    moreover have "promoted_db (snd ?w) s'"
      using promote_call_promotes [of "snd ?w" "fst ?w"] e by (metis prod.collapse snd_conv)
    ultimately show ?thesis by (rule promoted_db_trans)
  qed
  moreover have "list_all (\<lambda>d. min (ro_delayMs opts) (ro_delayMaxMs opts) \<le> d \<and> d \<le> ro_delayMaxMs opts) ds"
    using v(2) o by (auto simp: list_all_iff delay_ok_def)
  ultimately show ?thesis
    using v(1) by (simp add: promoted_db_def promoted_once_def [abs_def])
qed

definition demo_delayed :: queue_db where
  "demo_delayed = snd (failJob 1 ''b'' ''boom'' ToDelayed (Some 1000) 62000000 demo_reclaimed)"

definition demo_reset :: thrown where
  "demo_reset = \<lparr>th_code = Some ''CONNECTION_ENDED'', th_message = '''', th_problem = None\<rparr>"

definition demo_retry_env :: "nat \<Rightarrow> retry_env" where
  "demo_retry_env k = \<lparr>re_aborted_before = False, re_aborted_reconnect = False, re_reconnect = Some None,
     re_aborted_sleep = False, re_rng = 1 / 2\<rparr>"

definition demo_promotion :: "string + minion_job list retry_result \<times> rat list \<times> promote_plan \<times> queue_db" where
  "demo_promotion = lockRetry promote_call None None None demo_retry_env
     ([(63000000, True, Some demo_reset), (64000000, True, None)], demo_delayed)"

lemma promotion_retries_safely_witness:
  "list_all (\<lambda>d. d \<le> 10000) (fst (snd (projr demo_promotion))) \<and>
   map j_status (d_jobs (snd (snd (snd (projr demo_promotion))))) = [Waiting]"
proof -
  have o: "resolveBulkRetryOpts None None None =
      Inr \<lparr>ro_maxRetries = 3, ro_delayMs = 1000, ro_delayMaxMs = 10000, ro_jitter = JitterDecorrelated\<rparr>"
    by (simp add: resolveBulkRetryOpts_def env_int_def)
  have r: "rng_ok demo_retry_env" by (simp add: rng_ok_def demo_retry_env_def)
  have w: "map j_status (d_jobs (snd (snd (snd (projr demo_promotion))))) = [Waiting]" "isl demo_promotion = False"
    by code_simp+
  then have "demo_promotion = Inr (projr demo_promotion)" by simp
  then obtain res ds plan' s' where d: "demo_promotion = Inr (res, ds, plan', s')" by (metis prod_cases4)
  from promotion_retries_safely [OF o r d [unfolded demo_promotion_def]] w
  show ?thesis by (auto simp: d list_all_iff)
qed

end
