(* ===== verification/RateLimits.thy ===== *)
theory RateLimits
  imports JobDefaults Admission "HOL-Library.Word"
begin

text \<open>
  The rate limiter of outbound providers (\<open>src/core/minions/rate-leases.ts\<close>), the controller that
  adapts its cap (\<open>lease-cap-controller.ts\<close>) and the stagger slots (\<open>stagger.ts\<close>). Leases are rows
  with an expiry; an acquisition is one transaction. A statement of the controller that throws
  leaves its default in place. Rates, shares and durations are exact
  rationals where the code has doubles; \<open>show_num\<close> is \<open>String(n)\<close>. FNV-1a works on machine words.
\<close>

unbundle bit_operations_syntax

section \<open>Stagger slots and lock keys\<close>

definition fnv32 :: "string \<Rightarrow> 32 word" where
  "fnv32 key = fold (\<lambda>c h. (h XOR of_nat (js_code c)) * 0x01000193) key 0x811c9dc5"

definition staggerMinuteOffset :: "string \<Rightarrow> nat" where
  "staggerMinuteOffset key = (if key = [] then 0 else unat (fnv32 key) mod 60)"

definition staggerSecondOffset :: "string \<Rightarrow> nat" where
  "staggerSecondOffset key = staggerMinuteOffset key * 60"

definition hashKey :: "string \<Rightarrow> 64 word" where
  "hashKey key =
     fold (\<lambda>c h. (h XOR of_nat (js_code c)) * 0x100000001b3) key 0xcbf29ce484222325
       AND (0x8000000000000000 - 1)"

section \<open>Leases\<close>

record rate_lease =
  l_id :: int
  l_key :: string
  l_owner_job_id :: int
  l_acquired_at :: int
  l_expires_at :: int

record lease_db =
  ld_rows :: "rate_lease list"
  ld_next_id :: int

record acquire_result =
  acquired :: bool
  leaseId :: "int option"
  activeCount :: int
  maxConcurrent :: int

datatype lease_error = OwnerMissing int

definition DEFAULT_LEASE_TTL_MS :: int where "DEFAULT_LEASE_TTL_MS = 120000"

definition lease_expired :: "string \<Rightarrow> int \<Rightarrow> rate_lease \<Rightarrow> bool" where
  "lease_expired key now l = (l_key l = key \<and> l_expires_at l \<le> now)"

definition count_key :: "string \<Rightarrow> rate_lease list \<Rightarrow> int" where
  "count_key key rows = int (length (filter (\<lambda>l. l_key l = key) rows))"

text \<open>\<open>owners\<close> are the ids of the jobs that exist: the foreign key of \<open>owner_job_id\<close>.\<close>

definition acquireLease ::
  "string \<Rightarrow> int \<Rightarrow> int \<Rightarrow> int option \<Rightarrow> int list \<Rightarrow> int \<Rightarrow> lease_db \<Rightarrow>
     lease_error + acquire_result \<times> lease_db" where
  "acquireLease key ownerJobId maxC ttlMs owners now s =
     (let ttl = (case ttlMs of None \<Rightarrow> DEFAULT_LEASE_TTL_MS | Some t \<Rightarrow> t);
          rows = filter (\<lambda>l. \<not> lease_expired key now l) (ld_rows s);
          active = count_key key rows
      in if active \<ge> maxC
         then Inr (\<lparr>acquired = False, leaseId = None, activeCount = active, maxConcurrent = maxC\<rparr>,
                   s\<lparr>ld_rows := rows\<rparr>)
         else if ownerJobId \<notin> set owners then Inl (OwnerMissing ownerJobId)
         else Inr (\<lparr>acquired = True, leaseId = Some (ld_next_id s), activeCount = active + 1,
                    maxConcurrent = maxC\<rparr>,
                   s\<lparr>ld_rows := rows @ [\<lparr>l_id = ld_next_id s, l_key = key,
                        l_owner_job_id = ownerJobId, l_acquired_at = now,
                        l_expires_at = now + ttl * 1000\<rparr>],
                     ld_next_id := ld_next_id s + 1\<rparr>))"

definition renewLease :: "int \<Rightarrow> int \<Rightarrow> int \<Rightarrow> lease_db \<Rightarrow> bool \<times> lease_db" where
  "renewLease i ttlMs now s =
     (list_ex (\<lambda>l. l_id l = i) (ld_rows s),
      s\<lparr>ld_rows := upd_where (\<lambda>l. l_id l = i) (\<lambda>l. l\<lparr>l_expires_at := now + ttlMs * 1000\<rparr>) (ld_rows s)\<rparr>)"

definition releaseLease :: "int \<Rightarrow> lease_db \<Rightarrow> lease_db" where
  "releaseLease i s = s\<lparr>ld_rows := filter (\<lambda>l. l_id l \<noteq> i) (ld_rows s)\<rparr>"

text \<open>Four attempts; \<open>blips\<close> says which of them throw, \<open>at\<close> the database time of each.\<close>

fun renew_attempts :: "int \<Rightarrow> int \<Rightarrow> (bool \<times> int) list \<Rightarrow> lease_db \<Rightarrow> bool \<times> lease_db" where
  "renew_attempts i ttlMs [] s = (False, s)"
| "renew_attempts i ttlMs ((blip, now) # rest) s =
     (if blip then renew_attempts i ttlMs rest s else renewLease i ttlMs now s)"

definition renewLeaseWithBackoff ::
  "int \<Rightarrow> int \<Rightarrow> (nat \<Rightarrow> bool) \<Rightarrow> (nat \<Rightarrow> int) \<Rightarrow> lease_db \<Rightarrow> bool \<times> lease_db" where
  "renewLeaseWithBackoff i ttlMs blips clock s =
     renew_attempts i ttlMs (map (\<lambda>k. (blips k, clock k)) [0, 1, 2, 3]) s"

text \<open>The cascade: a deleted job takes its leases with it.\<close>

definition drop_owner :: "int \<Rightarrow> lease_db \<Rightarrow> lease_db" where
  "drop_owner i s = s\<lparr>ld_rows := filter (\<lambda>l. l_owner_job_id l \<noteq> i) (ld_rows s)\<rparr>"

text \<open>\<open>1000 + floor(random * 2000)\<close>, \<open>r\<close> the random number.\<close>

definition leaseFullBackoffMs :: "rat \<Rightarrow> int" where
  "leaseFullBackoffMs r = 1000 + \<lfloor>r * 2000\<rfloor>"

section \<open>The control law\<close>

record window_stats =
  bounce_count :: int
  upstream_429_count :: int
  lease_utilization :: rat
  latency_stable :: bool
  window_ms :: int

record controller_opts =
  initial_cap :: rat
  ramp_up_step :: rat
  ramp_down_step :: rat
  min_floor :: rat
  max_ceiling :: rat
  bounce_rate_starving_threshold :: rat
  upstream_429_threshold_per_min :: rat
  utilization_ramp_threshold :: rat

definition DEFAULT_CONTROLLER_OPTS :: controller_opts where
  "DEFAULT_CONTROLLER_OPTS = \<lparr>initial_cap = 32, ramp_up_step = 4, ramp_down_step = 8,
     min_floor = 4, max_ceiling = 128, bounce_rate_starving_threshold = 1,
     upstream_429_threshold_per_min = 1 / 2, utilization_ramp_threshold = 1 / 2\<rparr>"

definition nextLeaseCap :: "rat \<Rightarrow> window_stats \<Rightarrow> controller_opts \<Rightarrow> rat" where
  "nextLeaseCap current w opts =
     (let windowMin = max (1 / 1000000) (rat_of_int (window_ms w) / 60000);
          bounceRate = rat_of_int (bounce_count w) / windowMin;
          rate429 = rat_of_int (upstream_429_count w) / windowMin
      in if rate429 > upstream_429_threshold_per_min opts \<or> \<not> latency_stable w
         then max (current - ramp_down_step opts) (min_floor opts)
         else if bounceRate > bounce_rate_starving_threshold opts \<and> rate429 = 0 \<and> latency_stable w
         then min (current + ramp_up_step opts) (max_ceiling opts)
         else if bounceRate = 0 \<and> rate429 = 0 \<and>
                 lease_utilization w > utilization_ramp_threshold opts \<and> latency_stable w
         then min (current + ramp_up_step opts) (max_ceiling opts)
         else current)"

section \<open>The controller's window\<close>

record pressure_row =
  p_bounced_at :: int
  p_active_at_bounce :: int
  p_max_concurrent :: int

definition within_window :: "int \<Rightarrow> int \<Rightarrow> int \<Rightarrow> bool" where
  "within_window now windowMs t = (t > now - windowMs * 1000)"

definition contains_text :: "string \<Rightarrow> string \<Rightarrow> bool" where
  "contains_text p s = list_ex (\<lambda>n. take (length p) (drop n s) = p) [0..<Suc (length s)]"

text \<open>\<open>ILIKE\<close> of a pattern in lower case.\<close>

definition looks_rate_limited :: "minion_job \<Rightarrow> bool" where
  "looks_rate_limited r = (case j_error_text r of None \<Rightarrow> False
     | Some e \<Rightarrow> contains_text ''429'' e \<or> contains_text ''rate limit'' (js_to_lower e))"

definition recent :: "int \<Rightarrow> int \<Rightarrow> int option \<Rightarrow> bool" where
  "recent now windowMs t = (case t of None \<Rightarrow> False | Some x \<Rightarrow> within_window now windowMs x)"

text \<open>\<open>AVG(active / NULLIF(max, 0))\<close>: rows with a zero maximum do not count.\<close>

definition mean_utilization :: "pressure_row list \<Rightarrow> rat" where
  "mean_utilization rows =
     (let us = map (\<lambda>p. rat_of_int (p_active_at_bounce p) / rat_of_int (p_max_concurrent p))
                 (filter (\<lambda>p. p_max_concurrent p \<noteq> 0) rows)
      in if us = [] then 0 else sum_list us / of_nat (length us))"

text \<open>\<open>percentile_cont\<close>: linear interpolation between the two nearest values; 0 when there is none.\<close>

definition percentile_cont :: "rat \<Rightarrow> rat list \<Rightarrow> rat" where
  "percentile_cont f xs =
     (if xs = [] then 0
      else let ys = sort xs; pos = f * of_nat (length ys - 1);
               lo = nat \<lfloor>pos\<rfloor>; hi = nat \<lceil>pos\<rceil>
           in ys ! lo + (pos - of_nat lo) * (ys ! hi - ys ! lo))"

definition finished_subagent :: "int \<Rightarrow> int \<Rightarrow> minion_job \<Rightarrow> bool" where
  "finished_subagent now windowMs r =
     (j_status r = Completed \<and> j_name r = ''subagent'' \<and> j_started_at r \<noteq> None \<and>
      recent now windowMs (j_finished_at r))"

definition job_seconds :: "minion_job \<Rightarrow> rat" where
  "job_seconds r = rat_of_int (the (j_finished_at r) - the (j_started_at r)) / 1000000"

definition latency_ok :: "rat list \<Rightarrow> bool" where
  "latency_ok ds =
     (let p50 = percentile_cont (1 / 2) ds; p95 = percentile_cont (19 / 20) ds
      in if length ds \<ge> 3 \<and> p50 > 0 then p95 / p50 < 2 else True)"

text \<open>The rows each of the four statements sees; \<open>None\<close> is a statement that throws.\<close>

record window_rows =
  wr_bounces :: "pressure_row list option"
  wr_failures :: "minion_job list option"
  wr_pressure :: "pressure_row list option"
  wr_finished :: "minion_job list option"

definition bounced_rows :: "int \<Rightarrow> int \<Rightarrow> pressure_row list \<Rightarrow> pressure_row list" where
  "bounced_rows now windowMs rows = filter (\<lambda>p. within_window now windowMs (p_bounced_at p)) rows"

definition readControllerWindow :: "int \<Rightarrow> int \<Rightarrow> window_rows \<Rightarrow> window_stats" where
  "readControllerWindow windowMs now db =
     (\<lparr>bounce_count = (case wr_bounces db of None \<Rightarrow> 0
             | Some rows \<Rightarrow> int (length (bounced_rows now windowMs rows))),
          upstream_429_count = (case wr_failures db of None \<Rightarrow> 0
             | Some js \<Rightarrow> int (length (filter (\<lambda>r. recent now windowMs (j_finished_at r) \<and>
                 j_status r \<in> {Failed, Dead} \<and> looks_rate_limited r) js))),
          lease_utilization = (case wr_pressure db of None \<Rightarrow> 0
             | Some rows \<Rightarrow> mean_utilization (bounced_rows now windowMs rows)),
          latency_stable = (case wr_finished db of None \<Rightarrow> True
             | Some js \<Rightarrow> latency_ok (map job_seconds (filter (finished_subagent now windowMs) js))),
          window_ms = windowMs\<rparr>)"

section \<open>The cap in the config plane\<close>

definition CAP_KEY :: string where "CAP_KEY = ''minions.lease_cap_current''"

definition readCurrentLeaseCap :: "(string \<Rightarrow> string option) \<Rightarrow> controller_opts \<Rightarrow> rat" where
  "readCurrentLeaseCap config opts =
     (case config CAP_KEY of
        None \<Rightarrow> initial_cap opts
      | Some v \<Rightarrow>
          if v = [] then initial_cap opts
          else case js_Number v of
              Finite n \<Rightarrow> if n \<ge> min_floor opts \<and> n \<le> max_ceiling opts then n else initial_cap opts
            | _ \<Rightarrow> initial_cap opts)"

definition writeLeaseCap ::
  "(rat \<Rightarrow> string) \<Rightarrow> rat \<Rightarrow> (string \<Rightarrow> string option) \<Rightarrow> string \<Rightarrow> string option" where
  "writeLeaseCap show_num cap config = config(CAP_KEY \<mapsto> show_num cap)"

record tick_result =
  previous_cap :: rat
  next_cap :: rat
  cap_changed :: bool

text \<open>\<open>elected\<close>: this worker won the tick.\<close>

definition controllerTick ::
  "(rat \<Rightarrow> string) \<Rightarrow> bool \<Rightarrow> controller_opts \<Rightarrow> int \<Rightarrow> int \<Rightarrow> window_rows \<Rightarrow> (string \<Rightarrow> string option) \<Rightarrow>
     tick_result option \<times> (string \<Rightarrow> string option)" where
  "controllerTick show_num elected opts windowMs now db config =
     (if \<not> elected then (None, config)
      else let w = readControllerWindow windowMs now db;
               current = readCurrentLeaseCap config opts;
               nxt = nextLeaseCap current w opts
           in (Some \<lparr>previous_cap = current, next_cap = nxt, cap_changed = (nxt \<noteq> current)\<rparr>,
               if nxt \<noteq> current then writeLeaseCap show_num nxt config else config))"

section \<open>Leases are bounded\<close>

text \<open>The operations on the lease table; an acquisition's cap is at most \<open>M\<close>.\<close>

inductive lease_step :: "string \<Rightarrow> int \<Rightarrow> lease_db \<Rightarrow> lease_db \<Rightarrow> bool" for key :: string and M :: int where
  acquire: "maxC \<le> M \<Longrightarrow> acquireLease key own maxC ttl owners now s = Inr (r, s') \<Longrightarrow> lease_step key M s s'"
| acquire_other: "other \<noteq> key \<Longrightarrow> acquireLease other own maxC ttl owners now s = Inr (r, s') \<Longrightarrow>
    lease_step key M s s'"
| renew: "lease_step key M s (snd (renewLease i ttlMs now s))"
| release: "lease_step key M s (releaseLease i s)"
| cascade: "lease_step key M s (drop_owner i s)"

lemma count_filter_le: "count_key key (filter P rows) \<le> count_key key rows"
  by (induction rows) (auto simp: count_key_def)

lemma count_append: "count_key key (rows @ [l]) = count_key key rows + (if l_key l = key then 1 else 0)"
  by (simp add: count_key_def)

lemma count_upd_expiry:
  "count_key key (upd_where P (\<lambda>l. l\<lparr>l_expires_at := x\<rparr>) rows) = count_key key rows"
  by (induction rows) (auto simp: count_key_def)

lemma count_renew: "count_key key (ld_rows (snd (renewLease i ttlMs now s))) = count_key key (ld_rows s)"
  by (simp add: renewLease_def count_upd_expiry)

lemma acquire_cases:
  assumes "acquireLease key own maxC ttl owners now s = Inr (r, s')"
  defines "rows \<equiv> filter (\<lambda>l. \<not> lease_expired key now l) (ld_rows s)"
  obtains "\<not> acquired r" "ld_rows s' = rows" "maxC \<le> count_key key rows"
  | l where "acquired r" "ld_rows s' = rows @ [l]" "l_key l = key" "l_owner_job_id l = own"
      "leaseId r = Some (l_id l)"
      "count_key key rows < maxC" "own \<in> set owners"
proof (cases "maxC \<le> count_key key rows")
  case True
  with assms that(1) show ?thesis by (auto simp: acquireLease_def Let_def)
next
  case False
  let ?l = "\<lparr>l_id = ld_next_id s, l_key = key, l_owner_job_id = own, l_acquired_at = now,
    l_expires_at = now + (case ttl of None \<Rightarrow> DEFAULT_LEASE_TTL_MS | Some t \<Rightarrow> t) * 1000\<rparr>"
  from False assms have "acquired r" "ld_rows s' = rows @ [?l]" "leaseId r = Some (l_id ?l)" "own \<in> set owners"
    by (auto simp: acquireLease_def Let_def split: if_splits)
  with False show ?thesis by (intro that(2) [of ?l]) simp_all
qed

lemma lease_step_count:
  "lease_step key M s s' \<Longrightarrow> count_key key (ld_rows s) \<le> M \<Longrightarrow> count_key key (ld_rows s') \<le> M"
proof (induction rule: lease_step.induct)
  case (acquire maxC own ttl owners now s r s')
  have le: "count_key key (filter P (ld_rows s)) \<le> M" for P
    using count_filter_le [of key P "ld_rows s"] acquire.prems by linarith
  from acquire.hyps(2) show ?case
    by (cases rule: acquire_cases) (use le acquire.hyps(1) in \<open>auto simp: count_append\<close>)
next
  case (acquire_other other own maxC ttl owners now s r s')
  have le: "count_key key (filter P (ld_rows s)) \<le> M" for P
    using count_filter_le [of key P "ld_rows s"] acquire_other.prems by linarith
  from acquire_other.hyps(2) show ?case
    by (cases rule: acquire_cases) (use le acquire_other.hyps(1) in \<open>auto simp: count_append\<close>)
next
  case (renew s i ttlMs now)
  then show ?case by (simp only: count_renew)
next
  case (release s i)
  then show ?case using count_filter_le [of key "\<lambda>l. l_id l \<noteq> i" "ld_rows s"] by (simp add: releaseLease_def)
next
  case (cascade s i)
  then show ?case
    using count_filter_le [of key "\<lambda>l. l_owner_job_id l \<noteq> i" "ld_rows s"] by (simp add: drop_owner_def)
qed

definition no_leases :: lease_db where
  "no_leases = \<lparr>ld_rows = [], ld_next_id = 1\<rparr>"

text \<open>C30: the leases of a key never outnumber the largest cap an acquisition of that key was made
  with, over every interleaving of acquisitions of any key, renewals (also of a lease that has
  expired but was not pruned yet), releases and cascading deletes.\<close>

theorem leases_bounded:
  assumes "(lease_step key M)\<^sup>*\<^sup>* no_leases s" and "0 \<le> M"
  shows "count_key key (ld_rows s) \<le> M"
  using assms(1)
proof (induction rule: rtranclp_induct)
  case base
  then show ?case using assms(2) by (simp add: no_leases_def count_key_def)
next
  case (step s s')
  then show ?case by (blast intro: lease_step_count)
qed

lemma leases_bounded_witness:
  "\<exists>s. (lease_step ''k'' 1)\<^sup>*\<^sup>* no_leases s \<and> length (ld_rows s) = 1 \<and> count_key ''k'' (ld_rows s) \<le> 1"
proof -
  have "(case acquireLease ''k'' 7 1 None [7] 0 no_leases of Inr (r, s) \<Rightarrow> length (ld_rows s) = 1 | _ \<Rightarrow> False)"
    by code_simp
  then obtain r s where r: "acquireLease ''k'' 7 1 None [7] 0 no_leases = Inr (r, s)" "length (ld_rows s) = 1"
    by (auto split: sum.splits prod.splits)
  from lease_step.acquire [OF order_refl r(1)] have reach: "(lease_step ''k'' 1)\<^sup>*\<^sup>* no_leases s" by blast
  from leases_bounded [OF this] r(2) reach show ?thesis by auto
qed

text \<open>An acquisition is granted exactly when fewer than the cap of unexpired leases of its key
  remain, and a lease past its expiry never blocks one: a crashed worker's slot comes back.\<close>

theorem acquire_granted_iff:
  assumes "acquireLease key own maxC ttl owners now s = Inr (r, s')"
  shows "(acquired r \<longleftrightarrow>
      count_key key (filter (\<lambda>l. l_expires_at l > now) (ld_rows s)) < maxC) \<and>
    list_all (\<lambda>l. l_key l = key \<longrightarrow> l_expires_at l > now \<or> (acquired r \<and> Some (l_id l) = leaseId r)) (ld_rows s')"
proof -
  have "count_key key (filter (\<lambda>l. l_key l = key \<longrightarrow> now < l_expires_at l) (ld_rows s)) =
      count_key key (filter (\<lambda>l. now < l_expires_at l) (ld_rows s))"
    unfolding count_key_def filter_filter by (intro arg_cong [of _ _ int] arg_cong [of _ _ length] filter_cong) auto
  note eq = this
  from assms show ?thesis
    by (cases rule: acquire_cases) (simp_all add: eq list_all_iff lease_expired_def not_le)
qed

lemma acquire_granted_iff_witness:
  "\<exists>r s'. acquireLease ''k'' 7 1 None [7] 5 \<lparr>ld_rows = [\<lparr>l_id = 1, l_key = ''k'', l_owner_job_id = 3,
       l_acquired_at = 0, l_expires_at = 4\<rparr>], ld_next_id = 2\<rparr> = Inr (r, s') \<and> acquired r"
proof -
  let ?s = "\<lparr>ld_rows = [\<lparr>l_id = 1, l_key = ''k'', l_owner_job_id = 3, l_acquired_at = 0, l_expires_at = 4\<rparr>],
    ld_next_id = 2\<rparr>"
  have "(case acquireLease ''k'' 7 1 None [7] 5 ?s of Inr (r, s) \<Rightarrow> True | _ \<Rightarrow> False)" by code_simp
  then obtain r s' where r: "acquireLease ''k'' 7 1 None [7] 5 ?s = Inr (r, s')"
    by (auto split: sum.splits prod.splits)
  from acquire_granted_iff [OF this] have "acquired r" by (simp add: count_key_def)
  with r show ?thesis by blast
qed

section \<open>The controller\<close>

definition opts_ok :: "controller_opts \<Rightarrow> bool" where
  "opts_ok opts = (min_floor opts \<le> initial_cap opts \<and> initial_cap opts \<le> max_ceiling opts \<and>
     0 \<le> ramp_up_step opts \<and> 0 \<le> ramp_down_step opts)"

lemma readCurrentLeaseCap_range:
  "opts_ok opts \<Longrightarrow> min_floor opts \<le> readCurrentLeaseCap config opts \<and>
     readCurrentLeaseCap config opts \<le> max_ceiling opts"
  by (auto simp: opts_ok_def readCurrentLeaseCap_def split: option.split js_number.split)

lemma nextLeaseCap_range:
  "opts_ok opts \<Longrightarrow> min_floor opts \<le> c \<Longrightarrow> c \<le> max_ceiling opts \<Longrightarrow>
     min_floor opts \<le> nextLeaseCap c w opts \<and> nextLeaseCap c w opts \<le> max_ceiling opts"
  by (auto simp: opts_ok_def nextLeaseCap_def Let_def min_def max_def)

definition demo_window :: window_rows where
  "demo_window = \<lparr>wr_bounces = Some [\<lparr>p_bounced_at = 99000000, p_active_at_bounce = 32, p_max_concurrent = 32\<rparr>,
      \<lparr>p_bounced_at = 99500000, p_active_at_bounce = 32, p_max_concurrent = 32\<rparr>],
     wr_failures = Some [], wr_pressure = Some [], wr_finished = Some []\<rparr>"

text \<open>Whatever is stored as the cap and whatever the window shows, a controller tick stays
  between floor and ceiling, lowers the cap when upstream pushes back or latency is unstable
  and never raises it then; the value it writes is the one the next read returns.\<close>

theorem controller_tick_safe:
  assumes "opts_ok opts"
    and "js_Number (show_num (next_cap r)) = Finite (next_cap r)" and "show_num (next_cap r) \<noteq> []"
    and "controllerTick show_num True opts windowMs now db config = (Some r, config')"
  shows "min_floor opts \<le> next_cap r \<and> next_cap r \<le> max_ceiling opts \<and>
    readCurrentLeaseCap config' opts = next_cap r \<and>
    (\<not> latency_stable (readControllerWindow windowMs now db) \<longrightarrow> next_cap r \<le> previous_cap r)"
proof -
  let ?w = "readControllerWindow windowMs now db" and ?c = "readCurrentLeaseCap config opts"
  have r: "previous_cap r = ?c" "next_cap r = nextLeaseCap ?c ?w opts"
    "config' = (if nextLeaseCap ?c ?w opts \<noteq> ?c then writeLeaseCap show_num (nextLeaseCap ?c ?w opts) config else config)"
    using assms(4) by (auto simp: controllerTick_def Let_def)
  have c: "min_floor opts \<le> ?c" "?c \<le> max_ceiling opts" using readCurrentLeaseCap_range [OF assms(1)] by blast+
  note n = nextLeaseCap_range [OF assms(1) c, of ?w]
  have "readCurrentLeaseCap config' opts = next_cap r"
    using n assms(2,3) r by (auto simp: writeLeaseCap_def readCurrentLeaseCap_def [of "config(CAP_KEY \<mapsto> x)" for x])
  moreover have "nextLeaseCap ?c ?w opts \<le> ?c" if "\<not> latency_stable ?w"
    using that c assms(1) by (auto simp: nextLeaseCap_def Let_def opts_ok_def)
  ultimately show ?thesis using n r by simp
qed

lemma controller_tick_safe_witness:
  "\<exists>r config'. controllerTick (\<lambda>n. int_str \<lfloor>n\<rfloor>) True DEFAULT_CONTROLLER_OPTS 60000 100000000 demo_window
     (\<lambda>_. None) = (Some r, config') \<and> readCurrentLeaseCap config' DEFAULT_CONTROLLER_OPTS = 36"
proof -
  let ?t = "controllerTick (\<lambda>n. int_str \<lfloor>n\<rfloor>) True DEFAULT_CONTROLLER_OPTS 60000 100000000 demo_window (\<lambda>_. None)"
  have "map_option next_cap (fst ?t) = Some 36" "js_Number (int_str \<lfloor>36 :: rat\<rfloor>) = Finite 36"
    "int_str \<lfloor>36 :: rat\<rfloor> \<noteq> []" "opts_ok DEFAULT_CONTROLLER_OPTS"
    by code_simp+
  moreover obtain x config' where t: "?t = (x, config')" by fastforce
  ultimately obtain r where r: "?t = (Some r, config')" "next_cap r = 36" by auto
  from controller_tick_safe [OF \<open>opts_ok DEFAULT_CONTROLLER_OPTS\<close> _ _ r(1)] r(2)
    \<open>js_Number (int_str \<lfloor>36 :: rat\<rfloor>) = Finite 36\<close> \<open>int_str \<lfloor>36 :: rat\<rfloor> \<noteq> []\<close>
  have "readCurrentLeaseCap config' DEFAULT_CONTROLLER_OPTS = 36" by simp
  with r(1) show ?thesis by blast
qed

text \<open>The slow ramp is dead code: with the statistics the controller reads, a window without a
  bounce has utilization 0, so such a tick never raises the cap, however busy the workers
  are (the thresholds being non-negative).\<close>

theorem slow_ramp_never_fires:
  assumes "wr_bounces db = Some rows" and "wr_pressure db = Some rows"
    and "bounced_rows now windowMs rows = []"
    and "0 \<le> utilization_ramp_threshold opts" and "0 \<le> bounce_rate_starving_threshold opts"
    and "0 \<le> ramp_down_step opts" and "min_floor opts \<le> c"
  shows "lease_utilization (readControllerWindow windowMs now db) = 0 \<and>
    nextLeaseCap c (readControllerWindow windowMs now db) opts \<le> c"
  using assms by (auto simp: readControllerWindow_def nextLeaseCap_def mean_utilization_def Let_def)

lemma slow_ramp_never_fires_witness:
  "nextLeaseCap 32 (readControllerWindow 60000 100000000
      \<lparr>wr_bounces = Some [], wr_failures = Some [], wr_pressure = Some [], wr_finished = Some []\<rparr>)
      DEFAULT_CONTROLLER_OPTS \<le> 32"
  using slow_ramp_never_fires [of "\<lparr>wr_bounces = Some [], wr_failures = Some [], wr_pressure = Some [],
      wr_finished = Some []\<rparr>" "[]" 100000000 60000 DEFAULT_CONTROLLER_OPTS 32]
  by (simp add: bounced_rows_def DEFAULT_CONTROLLER_OPTS_def)

end
