(* ===== verification/Worker.thy ===== *)
theory Worker
  imports LockRenewal Retry RateLimits
begin

text \<open>
  The worker around the queue (\<open>worker.ts\<close>): what becomes of a claim before it runs (the pause
  marker, quiet hours), how an execution is settled (\<open>executeJob\<close>), the forced eviction of a
  handler that ignores its abort, and the table of executions in flight. Handlers are a
  parameter: an execution yields a result or an error. A database call may throw, having landed
  or not.
\<close>

section \<open>Errors of an execution\<close>

datatype job_error =
    PlainError thrown
  | UnrecoverableError string
  | RateLeaseUnavailable string string int int "int option"
  | ChildSpawnInfra string
  | ChildWorkerShutdown string
  | ChildNotClaimed string

fun error_message :: "job_error \<Rightarrow> string" where
  "error_message (PlainError e) = th_message e"
| "error_message (UnrecoverableError m) = m"
| "error_message (RateLeaseUnavailable m _ _ _ _) = m"
| "error_message (ChildSpawnInfra m) = m"
| "error_message (ChildWorkerShutdown m) = m"
| "error_message (ChildNotClaimed m) = m"

definition INFRASTRUCTURE_ABORT_REASONS :: "string list" where
  "INFRASTRUCTURE_ABORT_REASONS = [''lock-renewal-failed'', ''lock-lost'']"

text \<open>The message of the abort signal's reason, when it fired.\<close>

definition error_text :: "string option \<Rightarrow> job_error \<Rightarrow> string" where
  "error_text aborted err =
     (case aborted of Some reason \<Rightarrow> ''aborted: '' @ reason | None \<Rightarrow> error_message err)"

definition infrastructure_abort :: "string option \<Rightarrow> bool" where
  "infrastructure_abort aborted =
     (case aborted of None \<Rightarrow> False | Some reason \<Rightarrow> reason \<in> set INFRASTRUCTURE_ABORT_REASONS)"

section \<open>The verdict on a failed execution\<close>

datatype settlement =
    LeaveToStallSweep
  | BounceLease string int
  | RecordFailure string fail_status rat

definition attempts_exhausted :: "minion_job \<Rightarrow> bool" where
  "attempts_exhausted job = (j_attempts_made job + 1 \<ge> j_max_attempts job)"

definition retry_backoff :: "rat \<Rightarrow> minion_job \<Rightarrow> rat" where
  "retry_backoff rnd job = calculateBackoff rnd (job\<lparr>j_attempts_made := j_attempts_made job + 1\<rparr>)"

definition settle_error :: "rat \<Rightarrow> string option \<Rightarrow> job_error \<Rightarrow> minion_job \<Rightarrow> settlement" where
  "settle_error rnd aborted err job =
     (let text = error_text aborted err
      in if infrastructure_abort aborted then LeaveToStallSweep
         else (case err of
             ChildSpawnInfra _ \<Rightarrow> LeaveToStallSweep
           | ChildWorkerShutdown _ \<Rightarrow> LeaveToStallSweep
           | ChildNotClaimed _ \<Rightarrow> LeaveToStallSweep
           | RateLeaseUnavailable _ _ _ _ retryIn \<Rightarrow>
               BounceLease text (or_default (leaseFullBackoffMs rnd) retryIn)
           | _ \<Rightarrow>
               (let newStatus = (if (case err of UnrecoverableError _ \<Rightarrow> True | _ \<Rightarrow> False) \<or>
                                    attempts_exhausted job then ToDead else ToDelayed)
                in RecordFailure text newStatus
                     (if newStatus = ToDelayed then retry_backoff rnd job else 0))))"

text \<open>The breaker on a broken child command: consecutive spawn failures, reset by anything else.\<close>

definition CHILD_SPAWN_FAIL_EXIT_AFTER :: nat where "CHILD_SPAWN_FAIL_EXIT_AFTER = 3"

definition spawn_failures :: "string option \<Rightarrow> job_error option \<Rightarrow> nat \<Rightarrow> nat \<times> bool" where
  "spawn_failures aborted outcome n =
     (case outcome of
        None \<Rightarrow> (0, False)
      | Some err \<Rightarrow>
          if infrastructure_abort aborted then (n, False)
          else (case err of
                  ChildSpawnInfra _ \<Rightarrow> (n + 1, n + 1 \<ge> CHILD_SPAWN_FAIL_EXIT_AFTER)
                | _ \<Rightarrow> (0, False)))"

section \<open>Settling against the database\<close>

text \<open>A call as the worker sees it: it answers, or it throws and may have landed.\<close>

datatype call_fate = CallAnswers | CallThrows bool thrown

definition db_call :: "call_fate \<Rightarrow> (queue_db \<Rightarrow> 'a \<times> queue_db) \<Rightarrow> queue_db \<Rightarrow> (thrown + 'a) \<times> queue_db" where
  "db_call fate f s =
     (case f s of
        (a, s') \<Rightarrow> (case fate of
                     CallAnswers \<Rightarrow> (Inr a, s')
                   | CallThrows landed e \<Rightarrow> (Inl e, if landed then s' else s)))"

datatype settled_as =
    SettledCompleted | SettledDropped | SettledReleased | SettledBounced | SettledFailed fail_status
  | RecordingThrew | LeftAfterRetry

text \<open>Recording a failure: once, and once more after a reconnect if the connection was lost; other
  sessions act in between.\<close>

definition record_failure ::
  "call_fate \<Rightarrow> call_fate \<Rightarrow> (queue_db \<Rightarrow> queue_db) \<Rightarrow> int \<Rightarrow> string \<Rightarrow> string \<Rightarrow> fail_status \<Rightarrow> rat \<Rightarrow> int \<Rightarrow> int \<Rightarrow>
     queue_db \<Rightarrow> settled_as \<times> queue_db" where
  "record_failure fate1 fate2 others i t text st bo now1 now2 s =
     (case db_call fate1 (failJob i t text st (Some bo) now1) s of
        (Inr r, s1) \<Rightarrow> (if r = None then SettledDropped else SettledFailed st, s1)
      | (Inl e, s1) \<Rightarrow>
          if \<not> isRetryableConnError e then (RecordingThrew, s1)
          else (case db_call fate2 (failJob i t text st (Some bo) now2) (others s1) of
              (Inr r, s2) \<Rightarrow> (if r = None then SettledDropped else SettledFailed st, s2)
            | (Inl _, s2) \<Rightarrow> (LeftAfterRetry, s2)))"

datatype execution = Returned "json option" | Raised job_error

text \<open>A result that is no object is wrapped; no result completes without one.\<close>

definition completion_result :: "json option \<Rightarrow> json option" where
  "completion_result r =
     (case r of
        None \<Rightarrow> None
      | Some JNull \<Rightarrow> None
      | Some (JObj m) \<Rightarrow> Some (JObj m)
      | Some (JArr xs) \<Rightarrow> Some (JArr xs)
      | Some v \<Rightarrow> Some (JObj [(''value'', v)]))"

record exec_env =
  x_rnd :: rat
  x_aborted :: "string option"
  x_complete :: call_fate
  x_record :: call_fate
  x_retry :: call_fate
  x_others :: "queue_db \<Rightarrow> queue_db"
  x_between :: "queue_db \<Rightarrow> queue_db"
  x_now1 :: int
  x_now2 :: int
  x_now3 :: int

definition settle_failure ::
  "exec_env \<Rightarrow> minion_job \<Rightarrow> string \<Rightarrow> job_error \<Rightarrow> queue_db \<Rightarrow> settled_as \<times> queue_db" where
  "settle_failure x job t err s =
     (case settle_error (x_rnd x) (x_aborted x) err job of
        LeaveToStallSweep \<Rightarrow> (SettledReleased, s)
      | BounceLease text wait \<Rightarrow>
          (case db_call (x_record x) (releaseLeaseFullJob (j_id job) t text wait (x_now2 x)) s of
             (Inr r, s') \<Rightarrow> (if r = None then SettledDropped else SettledBounced, s')
           | (Inl _, s') \<Rightarrow> (RecordingThrew, s'))
      | RecordFailure text st bo \<Rightarrow>
          record_failure (x_record x) (x_retry x) (x_between x) (j_id job) t text st bo
            (x_now2 x) (x_now3 x) s)"

text \<open>\<open>executeJob\<close>: without a handler the job is dead. The completion stands inside the \<open>try\<close>, so an
  error it throws is settled like one of the handler.\<close>

definition executeJob ::
  "string list \<Rightarrow> exec_env \<Rightarrow> minion_job \<Rightarrow> string \<Rightarrow> execution \<Rightarrow> queue_db \<Rightarrow> settled_as \<times> queue_db" where
  "executeJob handlers x job t outcome s =
     (if j_name job \<notin> set handlers then
        (case db_call (x_record x) (failJob (j_id job) t
                (''No handler for job type '' @ [CHR 39] @ j_name job @ [CHR 39]) ToDead None (x_now1 x)) s of
           (Inr r, s') \<Rightarrow> (SettledFailed ToDead, s')
         | (Inl _, s') \<Rightarrow> (RecordingThrew, s'))
      else (case outcome of
          Raised err \<Rightarrow> settle_failure x job t err s
        | Returned result \<Rightarrow>
            (case db_call (x_complete x) (completeJob (j_id job) t (completion_result result) (x_now1 x)) s of
               (Inr r, s') \<Rightarrow> (if r = None then SettledDropped else SettledCompleted, s')
             | (Inl e, s') \<Rightarrow> settle_failure x job t (PlainError e) (x_others x s'))))"

text \<open>Thirty seconds after an abort the execution is evicted; the job is dead unless the abort was
  one of infrastructure or the handler runs in a child process.\<close>

definition grace_evict ::
  "bool \<Rightarrow> string \<Rightarrow> minion_job \<Rightarrow> string \<Rightarrow> int \<Rightarrow> queue_db \<Rightarrow> queue_db" where
  "grace_evict isolated reason job t now s =
     (if reason \<in> set INFRASTRUCTURE_ABORT_REASONS \<or> isolated then s
      else snd (failJob (j_id job) t ''handler ignored abort signal (force-evicted)'' ToDead None now s))"

section \<open>Claims given back before they run\<close>

text \<open>\<open>releaseClaimForPause\<close> and the deferral of \<open>handleQuietHoursDefer\<close> are the same statement with
  another delay. It checks the token, not the status.\<close>

definition defer_claim_row :: "int \<Rightarrow> int \<Rightarrow> minion_job \<Rightarrow> minion_job" where
  "defer_claim_row delay now r = r\<lparr>j_status := Delayed, j_lock_token := None, j_lock_until := None,
     j_delay_until := Some (now + delay), j_updated_at := now\<rparr>"

definition defer_claim :: "int \<Rightarrow> int \<Rightarrow> string \<Rightarrow> int \<Rightarrow> queue_db \<Rightarrow> queue_db" where
  "defer_claim delay i t now s = s\<lparr>d_jobs :=
     upd_where (\<lambda>r. j_id r = i \<and> j_lock_token r = Some t) (defer_claim_row delay now) (d_jobs s)\<rparr>"

definition releaseClaimForPause :: "minion_job \<Rightarrow> string \<Rightarrow> int \<Rightarrow> queue_db \<Rightarrow> queue_db" where
  "releaseClaimForPause job t now s = defer_claim 60000000 (j_id job) t now s"

definition drop_claim_lock :: "int \<Rightarrow> string \<Rightarrow> int \<Rightarrow> queue_db \<Rightarrow> queue_db" where
  "drop_claim_lock i t now s = s\<lparr>d_jobs :=
     upd_where (\<lambda>r. j_id r = i \<and> j_lock_token r = Some t)
       (\<lambda>r. r\<lparr>j_lock_token := None, j_lock_until := None, j_updated_at := now\<rparr>) (d_jobs s)\<rparr>"

definition force_cancel :: "int \<Rightarrow> int \<Rightarrow> queue_db \<Rightarrow> queue_db" where
  "force_cancel i now s = s\<lparr>d_jobs :=
     upd_where (\<lambda>r. j_id r = i \<and> j_status r \<notin> {Completed, Failed, Dead})
       (\<lambda>r. r\<lparr>j_status := Cancelled, j_error_text := Some ''skipped_quiet_hours'', j_updated_at := now\<rparr>)
       (d_jobs s)\<rparr>"

text \<open>\<open>cancel_throws\<close>: the cancellation fails (its transaction rolls back) and the fallback runs.\<close>

definition handleQuietHoursDefer ::
  "bool \<Rightarrow> bool \<Rightarrow> minion_job \<Rightarrow> string \<Rightarrow> int \<Rightarrow> queue_db \<Rightarrow> queue_db" where
  "handleQuietHoursDefer skip cancel_throws job t now s =
     (if skip then
        let s1 = drop_claim_lock (j_id job) t now s
        in if cancel_throws then force_cancel (j_id job) now s1
           else snd (cancelJob (j_id job) None now s1)
      else defer_claim 900000000 (j_id job) t now s)"

section \<open>One pass of the poll loop\<close>

text \<open>The table of executions in flight maps a job id to the token of its claim.\<close>

type_synonym in_flight = "(int \<times> string) list"

definition flight_set :: "int \<Rightarrow> string \<Rightarrow> in_flight \<Rightarrow> in_flight" where
  "flight_set i t fl = (i, t) # filter (\<lambda>(j, _). j \<noteq> i) fl"

text \<open>Both the eviction and the end of an execution remove only their own generation.\<close>

definition flight_remove :: "int \<Rightarrow> string \<Rightarrow> in_flight \<Rightarrow> in_flight" where
  "flight_remove i t fl = (if map_of fl i = Some t then filter (\<lambda>(j, _). j \<noteq> i) fl else fl)"

definition quiet_config :: "minion_job \<Rightarrow> quiet_cfg option" where
  "quiet_config job =
     (case j_quiet_hours job of
        Some (JObj m) \<Rightarrow>
          (case (map_of m ''start'', map_of m ''end'', map_of m ''tz'') of
             (Some (JNum a), Some (JNum b), Some (JStr z)) \<Rightarrow>
               Some \<lparr>q_start = a, q_end = b, q_tz = z,
                     q_policy = (if map_of m ''policy'' = Some (JStr ''skip'') then Some PolicySkip
                                 else Some PolicyDefer)\<rparr>
           | _ \<Rightarrow> None)
      | _ \<Rightarrow> None)"

text \<open>\<open>p_promote\<close> and \<open>p_claim\<close> are the fates of the two calls, \<open>p_others1\<close> and \<open>p_others2\<close> what other sessions
  do between the statements. A promotion that fails is logged. A claim that fails is not tried
  again in this pass: on a lost connection the worker reconnects, any other error ends it.\<close>

datatype poll_action = Parked | AtLimit | Idle | ClaimLost thrown | WorkerDown thrown
  | GivenBack minion_job | QuietSkipped minion_job | QuietDeferred minion_job | Launched minion_job

record poll_env =
  p_queue :: string
  p_names :: "string list"
  p_concurrency :: nat
  p_lockDuration :: int
  p_hour_text :: "string \<Rightarrow> int \<Rightarrow> string option"
  p_token :: string
  p_marker_before :: bool
  p_marker_after :: bool
  p_cancel_throws :: bool
  p_promote :: call_fate
  p_claim :: call_fate
  p_others1 :: "queue_db \<Rightarrow> queue_db"
  p_others2 :: "queue_db \<Rightarrow> queue_db"
  p_busy :: "int set"
  p_js_now :: int
  p_now1 :: int
  p_now2 :: int
  p_now3 :: int

definition poll_claimed :: "poll_env \<Rightarrow> in_flight \<Rightarrow> minion_job \<Rightarrow> queue_db \<Rightarrow> poll_action \<times> in_flight \<times> queue_db" where
  "poll_claimed p fl job s =
     (if p_marker_after p then (GivenBack job, fl, releaseClaimForPause job (p_token p) (p_now3 p) s)
      else (case evaluateQuietHours (p_hour_text p) (quiet_config job) (p_js_now p) of
          QAllow \<Rightarrow> (Launched job, flight_set (j_id job) (p_token p) fl, s)
        | QSkip \<Rightarrow> (QuietSkipped job, fl,
            handleQuietHoursDefer True (p_cancel_throws p) job (p_token p) (p_now3 p) s)
        | QDefer \<Rightarrow> (QuietDeferred job, fl,
            handleQuietHoursDefer False (p_cancel_throws p) job (p_token p) (p_now3 p) s)))"

definition poll_once :: "poll_env \<Rightarrow> in_flight \<Rightarrow> queue_db \<Rightarrow> poll_action \<times> in_flight \<times> queue_db" where
  "poll_once p fl s =
     (let s1 = p_others1 p (snd (db_call (p_promote p) (promoteDelayed (p_now1 p)) s))
      in if p_marker_before p then (Parked, fl, s1)
         else if \<not> length fl < p_concurrency p then (AtLimit, fl, s1)
         else (case db_call (p_claim p)
                 (claim (p_token p) (p_lockDuration p) (p_queue p) (p_names p) (p_now2 p) (p_busy p)) s1 of
             (Inl e, s2) \<Rightarrow> ((if isRetryableConnError e then ClaimLost e else WorkerDown e), fl, s2)
           | (Inr None, s2) \<Rightarrow> (Idle, fl, s2)
           | (Inr (Some job), s2) \<Rightarrow> poll_claimed p fl job (p_others2 p s2)))"

end
