(* ===== verification/WorkerProps.thy ===== *)
theory WorkerProps
  imports Worker
begin

text \<open>
  What the worker promises around the queue: the table of executions in flight, one claim per
  pass, claims given back without an attempt spent, the accounting of a failed execution, and
  that an outcome once landed stands. Other sessions act between its statements; they are runs
  that never hand out the worker's own token.
\<close>

section \<open>The table of executions in flight\<close>

text \<open>\<open>Leave\<close> is the end of an execution or its forced eviction; it names the token of its claim.\<close>

datatype flight_event = Launch int string | Leave int string

fun flight_step :: "flight_event \<Rightarrow> in_flight \<Rightarrow> in_flight" where
  "flight_step (Launch i t) fl = flight_set i t fl"
| "flight_step (Leave i t) fl = flight_remove i t fl"

definition flights :: "flight_event list \<Rightarrow> in_flight" where
  "flights evs = fold flight_step evs []"

lemma map_of_without: "map_of (filter (\<lambda>(k, _). k \<noteq> i) fl) j = (if j = i then None else map_of fl j)"
  by (induction fl) auto

lemma distinct_without:
  "distinct (map fst fl) \<Longrightarrow> distinct (map fst (filter (\<lambda>(k, _). k \<noteq> i) fl))"
  by (rule distinct_map_filter)

lemma map_of_flight:
  "map_of (flight_step (Launch i t) fl) j = (if j = i then Some t else map_of fl j)"
  "map_of (flight_step (Leave i t) fl) j = (if j = i \<and> map_of fl i = Some t then None else map_of fl j)"
  by (auto simp: flight_set_def flight_remove_def map_of_without)

lemma flights_snoc: "flights (evs @ [e]) = flight_step e (flights evs)"
  by (simp add: flights_def)

lemma flight_step_distinct: "distinct (map fst fl) \<Longrightarrow> distinct (map fst (flight_step e fl))"
  by (cases e) (auto simp: flight_set_def flight_remove_def distinct_without)

text \<open>Whatever the order of launches, ends and forced evictions, an execution is in the table
  exactly when it is the newest launch of its job and has neither ended nor been evicted: the end
  of an evicted predecessor never removes its successor.\<close>

theorem flights_track_newest:
  "map_of (flights evs) i = Some t \<longleftrightarrow>
     (\<exists>before after. evs = before @ Launch i t # after \<and>
        Leave i t \<notin> set after \<and> Launch i ` UNIV \<inter> set after = {})"
proof (induction evs rule: rev_induct)
  case Nil
  then show ?case by (simp add: flights_def)
next
  case (snoc e evs)
  let ?ok = "\<lambda>ys. Leave i t \<notin> set ys \<and> Launch i ` UNIV \<inter> set ys = {}"
  have split: "(\<exists>b a. evs @ [e] = b @ Launch i t # a \<and> ?ok a) \<longleftrightarrow>
      e = Launch i t \<or> ?ok [e] \<and> (\<exists>b a. evs = b @ Launch i t # a \<and> ?ok a)" (is "?l \<longleftrightarrow> ?r")
  proof
    assume ?l
    then obtain b a where *: "evs @ [e] = b @ Launch i t # a" "?ok a" by blast
    show ?r
    proof (cases a rule: rev_cases)
      case Nil
      with * show ?thesis by simp
    next
      case (snoc ys y)
      with * have "evs = b @ Launch i t # ys" "e = y" by simp_all
      with * snoc show ?thesis by auto
    qed
  next
    assume ?r
    then show ?l
    proof
      assume "e = Launch i t"
      then show ?l by (intro exI [of _ evs] exI [of _ "[]"]) simp
    next
      assume *: "?ok [e] \<and> (\<exists>b a. evs = b @ Launch i t # a \<and> ?ok a)"
      then obtain b a where "evs = b @ Launch i t # a" "?ok a" by blast
      with * show ?l by (intro exI [of _ b] exI [of _ "a @ [e]"]) auto
    qed
  qed
  show ?case unfolding split flights_snoc snoc [symmetric]
    by (cases e) (auto simp: map_of_flight simp del: flight_step.simps)
qed

section \<open>The breaker on spawn failures\<close>

type_synonym settled_run = "string option \<times> job_error option"

definition counted :: "settled_run \<Rightarrow> bool" where
  "counted x = (snd x = None \<or> \<not> infrastructure_abort (fst x))"

definition spawn_failed :: "settled_run \<Rightarrow> bool" where
  "spawn_failed x = (case snd x of Some (ChildSpawnInfra _) \<Rightarrow> True | _ \<Rightarrow> False)"

definition breaker :: "settled_run list \<Rightarrow> nat \<times> bool" where
  "breaker past = fold (\<lambda>(aborted, outcome) (n, _). spawn_failures aborted outcome n) past (0, False)"

lemma breaker_snoc: "breaker (past @ [x]) = spawn_failures (fst x) (snd x) (fst (breaker past))"
  by (simp add: breaker_def split_beta)

lemma spawn_failures_cases:
  "spawn_failures (fst x) (snd x) n =
     (if \<not> counted x then (n, False) else if spawn_failed x then (n + 1, n + 1 \<ge> 3) else (0, False))"
  by (auto simp: spawn_failures_def counted_def spawn_failed_def CHILD_SPAWN_FAIL_EXIT_AFTER_def
      split: option.splits job_error.splits)

lemma breaker_count: "fst (breaker past) = length (takeWhile spawn_failed (rev (filter counted past)))"
proof (induction past rule: rev_induct)
  case Nil
  then show ?case by (simp add: breaker_def)
next
  case (snoc x past)
  then show ?case by (simp add: breaker_snoc spawn_failures_cases)
qed

text \<open>The worker reports its child command as broken exactly when the execution that has just
  ended is a spawn failure and so are the two before it, those left out that an infrastructure
  abort ended; a success or any other error starts the count anew.\<close>

theorem breaker_exact:
  "snd (breaker (past @ [x])) \<longleftrightarrow>
     counted x \<and> 3 \<le> length (takeWhile spawn_failed (rev (filter counted (past @ [x]))))"
  by (simp add: breaker_snoc spawn_failures_cases breaker_count)

section \<open>One pass takes at most one job\<close>

lemma claim_takes_one:
  assumes ok: "db_ok s" and held: "lock_held i t (snd (claim t d q names now busy s))"
    and not: "\<not> lock_held i t s"
  shows "\<exists>job. fst (claim t d q names now busy s) = Some job \<and> j_id job = i"
proof (cases rule: claim_cases [of t d q names now busy s])
  case 1
  with held not show ?thesis by simp
next
  case (2 r)
  from held obtain x where x: "x \<in> set (d_jobs (snd (claim t d q names now busy s)))"
    "holds i t x" by (auto simp: lock_held_def list_ex_iff)
  from x(1) 2(4) have "x \<in> set (upd_where (\<lambda>x. j_id x = j_id r) (claim_row t d now) (d_jobs s))" by simp
  then have "j_id r = i"
  proof (cases rule: in_upd_where_cases)
    case (1 y)
    with x(2) show ?thesis by (simp add: holds_def claim_row_def)
  next
    case 2
    with x(2) not show ?thesis by (auto simp: lock_held_def list_ex_iff)
  qed
  then show ?thesis using 2(4) by (simp add: rowToMinionJob_def claim_row_def)
qed

lemma claim_answer_held:
  assumes ok: "db_ok s" and c: "claim t d q names now busy s = (Some job, s')"
  shows "lock_held (j_id job) t s'"
proof (cases rule: claim_cases [of t d q names now busy s])
  case 1
  with c show ?thesis by simp
next
  case (2 r)
  from 2(1) have "claim_row t d now r \<in> set (upd_where (\<lambda>x. j_id x = j_id r) (claim_row t d now) (d_jobs s))"
    by (rule in_upd_hit) simp
  with 2(4) c show ?thesis
    by (auto simp: lock_held_iff rowToMinionJob_def claim_row_def intro!: bexI [of _ "claim_row t d now r"])
qed

text \<open>Giving a claim back takes no lock.\<close>

lemma given_back_not_held:
  "lock_held i t (defer_claim delay j t' now s) \<Longrightarrow> lock_held i t s"
  "lock_held i t (drop_claim_lock j t' now s) \<Longrightarrow> lock_held i t s"
  "lock_held i t (force_cancel j now s) \<Longrightarrow> lock_held i t s"
  by (auto simp: lock_held_iff defer_claim_def drop_claim_lock_def force_cancel_def
      defer_claim_row_def elim!: in_upd_where_cases split: if_splits)

lemma cancelJob_not_held: "lock_held i t (snd (cancelJob j own now s)) \<Longrightarrow> lock_held i t s"
  using lock_not_regained [OF lock.via_cancelJobs] by (auto simp: cancelJob_def split_beta)

lemma handleQuietHoursDefer_not_held:
  "lock_held i t (handleQuietHoursDefer skip thr job t' now s) \<Longrightarrow> lock_held i t s"
  by (auto simp: handleQuietHoursDefer_def Let_def split: if_splits
      dest!: cancelJob_not_held dest: given_back_not_held)

lemma poll_claimed_not_held:
  "poll_claimed p fl job s = (act, fl', s') \<Longrightarrow> lock_held i t s' \<Longrightarrow> lock_held i t s"
  by (auto simp: poll_claimed_def releaseClaimForPause_def split: if_splits quiet_verdict.splits
      dest: given_back_not_held handleQuietHoursDefer_not_held)

lemma promote_not_held:
  assumes "db_ok s" and held: "lock_held i t (snd (db_call f (promoteDelayed now) s))"
  shows "lock_held i t s"
proof (rule ccontr)
  assume no: "\<not> lock_held i t s"
  have "runs {t} s (snd (promoteDelayed now s))"
    by (rule runs.more [OF runs.none queue_step.promote]) simp
  then have "\<not> lock_held i t (snd (promoteDelayed now s))" using assms(1) no by (rule lock_lost_for_good)
  with no held show False by (auto simp: db_call_def split: prod.splits call_fate.splits if_splits)
qed

lemma ok_db_call: "db_ok s \<Longrightarrow> (\<And>s. db_ok s \<Longrightarrow> db_ok (snd (f s))) \<Longrightarrow> db_ok (snd (db_call fate f s))"
  by (auto simp: db_call_def split: prod.splits call_fate.splits) (metis snd_conv)+

lemma db_call_answer: "db_call fate f s = (Inr a, s') \<Longrightarrow> f s = (a, s')"
  by (auto simp: db_call_def split: prod.splits call_fate.splits)

lemma flight_set_size: "length fl < n \<Longrightarrow> length (flight_set i t fl) \<le> n"
  using le_less_trans [OF length_filter_le] by (simp add: flight_set_def Suc_le_eq)

lemma poll_claimed_flight:
  assumes "poll_claimed p fl job s = (act, fl', s')" and "length fl < p_concurrency p"
  shows "length fl' \<le> p_concurrency p"
    and "(\<exists>j. act = Launched j) \<or> fl' = fl"
    and "act = Launched j \<Longrightarrow> j = job \<and> s' = s \<and> fl' = flight_set (j_id job) (p_token p) fl \<and> \<not> p_marker_after p"
  using assms flight_set_size [OF assms(2)]
  by (auto simp: poll_claimed_def split: if_splits quiet_verdict.splits)

lemma lost_call_takes_one:
  assumes "db_ok s" and "\<And>k. \<not> lock_held k t s"
    and "db_call fate (claim t d q names now busy) s = (r, s')" and "lock_held i t s'"
  shows "\<exists>job. fst (claim t d q names now busy s) = Some job \<and> j_id job = i"
  using assms claim_takes_one [OF assms(1), of i t d q names now busy]
  by (auto simp: db_call_def split: prod.splits call_fate.splits if_splits)

text \<open>One pass of the poll loop takes at most one job, even when the answer to its claim is lost
  on the way, and none at all while the pause marker is there or every slot is taken. The table of
  executions stays within the concurrency limit; a job is launched only when no pause marker has
  appeared, it is the job the claim returned, and it enters the table under the token of this
  pass.\<close>

theorem poll_takes_at_most_one:
  assumes "db_ok s"
    and others: "\<And>x. runs {p_token p} x (p_others1 p x)" "\<And>x. runs {p_token p} x (p_others2 p x)"
    and fresh: "\<And>k. \<not> lock_held k (p_token p) s"
    and room: "length fl \<le> p_concurrency p"
    and pass: "poll_once p fl s = (act, fl', s')"
  shows "length fl' \<le> p_concurrency p \<and>
    (lock_held i (p_token p) s' \<longrightarrow> lock_held j (p_token p) s' \<longrightarrow> i = j) \<and>
    (act \<in> {Parked, AtLimit, Idle} \<longrightarrow> \<not> lock_held i (p_token p) s') \<and>
    (p_marker_before p \<longrightarrow> act = Parked) \<and>
    (act = Launched job \<longrightarrow> \<not> p_marker_after p \<and> map_of fl' (j_id job) = Some (p_token p) \<and>
       (lock_held i (p_token p) s' \<longrightarrow> i = j_id job))"
proof -
  let ?t = "p_token p"
  let ?claim = "claim ?t (p_lockDuration p) (p_queue p) (p_names p) (p_now2 p) (p_busy p)"
  define s0 where "s0 = snd (db_call (p_promote p) (promoteDelayed (p_now1 p)) s)"
  define s1 where "s1 = p_others1 p s0"
  obtain r s2 where call: "db_call (p_claim p) ?claim s1 = (r, s2)" by (cases "db_call (p_claim p) ?claim s1")
  have ok0: "db_ok s0" unfolding s0_def by (rule ok_db_call [OF assms(1) ok_promoteDelayed])
  have ok1: "db_ok s1" unfolding s1_def by (rule runs_ok [OF others(1) ok0])
  have no0: "\<not> lock_held k ?t s0" for k unfolding s0_def using promote_not_held [OF assms(1)] fresh by blast
  have no1: "\<not> lock_held k ?t s1" for k unfolding s1_def by (rule lock_lost_for_good [OF others(1) ok0 no0])
  have "db_ok (snd (db_call (p_claim p) ?claim s1))" by (rule ok_db_call [OF ok1]) (rule ok_claim)
  then have ok2: "db_ok s2" unfolding call by (simp only: snd_conv)
  have held2: "\<exists>jb. fst (?claim s1) = Some jb \<and> j_id jb = k" if "lock_held k ?t s2" for k
    by (rule lost_call_takes_one [OF ok1 no1 call that])
  have held3: "\<exists>jb. fst (?claim s1) = Some jb \<and> j_id jb = k" if "lock_held k ?t (p_others2 p s2)" for k
    using held2 lock_lost_for_good [OF others(2) ok2] that by blast
  have pass': "poll_once p fl s = (if p_marker_before p then (Parked, fl, s1)
      else if \<not> length fl < p_concurrency p then (AtLimit, fl, s1)
      else (case (r, s2) of
             (Inl e, s2) \<Rightarrow> ((if isRetryableConnError e then ClaimLost e else WorkerDown e), fl, s2)
           | (Inr None, s2) \<Rightarrow> (Idle, fl, s2)
           | (Inr (Some job), s2) \<Rightarrow> poll_claimed p fl job (p_others2 p s2)))"
    unfolding poll_once_def Let_def s0_def [symmetric] s1_def [symmetric] call by (rule refl)
  consider "act = Parked" "fl' = fl" "s' = s1"
    | "\<not> p_marker_before p" "act = AtLimit" "fl' = fl" "s' = s1"
    | e where "\<not> p_marker_before p" "act = ClaimLost e \<or> act = WorkerDown e" "fl' = fl" "s' = s2"
    | "\<not> p_marker_before p" "r = Inr None" "act = Idle" "fl' = fl" "s' = s2"
    | jb where "\<not> p_marker_before p" "length fl < p_concurrency p" "r = Inr (Some jb)"
        "poll_claimed p fl jb (p_others2 p s2) = (act, fl', s')"
    using pass unfolding pass' by (auto split: if_splits sum.splits option.splits)
  then show ?thesis
  proof cases
    case 5
    have answer: "fst (?claim s1) = Some jb"
      using db_call_answer [OF call [unfolded 5(3)]] by simp
    have held: "lock_held k ?t s' \<Longrightarrow> k = j_id jb" for k
      using poll_claimed_not_held [OF 5(4)] held3 answer by fastforce
    note fl = poll_claimed_flight [OF 5(4,2)]
    have "act \<notin> {Parked, AtLimit, Idle}"
      using 5(4) by (auto simp: poll_claimed_def split: if_splits quiet_verdict.splits)
    moreover have "map_of fl' (j_id job) = Some ?t" "job = jb" "\<not> p_marker_after p" if "act = Launched job"
      using fl(3) [OF that] by (simp_all add: flight_set_def)
    ultimately show ?thesis using fl(1) held 5(1) by blast
  next
    case 4
    have "fst (?claim s1) = None" using db_call_answer [OF call [unfolded 4(2)]] by simp
    then have "\<not> lock_held k ?t s2" for k using held2 by fastforce
    with 4 room show ?thesis by auto
  next
    case 3
    have "i = j" if "lock_held i ?t s2" "lock_held j ?t s2"
      using held2 [OF that(1)] held2 [OF that(2)] by (metis option.inject)
    with 3 room show ?thesis by auto
  qed (use room no1 in auto)
qed

definition demo_poll :: poll_env where
  "demo_poll = \<lparr>p_queue = ''default'', p_names = [''sync''], p_concurrency = 1, p_lockDuration = 30000,
     p_hour_text = (\<lambda>_ _. None), p_token = ''a'', p_marker_before = False, p_marker_after = False,
     p_cancel_throws = False, p_promote = CallAnswers, p_claim = CallAnswers, p_others1 = (\<lambda>s. s),
     p_others2 = (\<lambda>s. s), p_busy = {}, p_js_now = 6000, p_now1 = 6000000, p_now2 = 6000000,
     p_now3 = 6000000\<rparr>"

lemma poll_takes_at_most_one_witness:
  "map_of (fst (snd (poll_once demo_poll [] demo_submitted))) 1 = Some ''a''"
proof -
  obtain act fl' s' where pass: "poll_once demo_poll [] demo_submitted = (act, fl', s')"
    by (rule prod_cases3)
  have "case fst (poll_once demo_poll [] demo_submitted) of Launched j \<Rightarrow> j_id j = 1 | _ \<Rightarrow> False" by code_simp
  then obtain job where job: "act = Launched job" "j_id job = 1"
    unfolding pass by (auto split: poll_action.splits)
  have none: "\<not> lock_held k (p_token demo_poll) demo_submitted" for k
    by (simp add: lock_held_iff demo_submitted_rows demo_row_def new_job_row_def child_status_def no_opts_def)
  have room: "length ([] :: in_flight) \<le> p_concurrency demo_poll" by simp
  have others: "runs {p_token demo_poll} x (p_others1 demo_poll x)"
    "runs {p_token demo_poll} x (p_others2 demo_poll x)" for x
    by (simp_all add: demo_poll_def runs.none)
  from poll_takes_at_most_one [OF ok_reachable [OF demo_reachable(1)] others none room pass, where job = job] job
  show ?thesis unfolding pass by (simp add: demo_poll_def)
qed

section \<open>Claims given back\<close>

lemma promote_one:
  assumes "x \<in> set (d_jobs s)"
  shows "(if promotable later x then promote_row later x else x) \<in> set (d_jobs (snd (promoteDelayed later s)))"
  using assms by (auto simp: promoteDelayed_def set_upd_where)

lemma defer_after_claim:
  assumes "d_jobs s1 = upd_where (\<lambda>x. j_id x = i) (claim_row t d now) (d_jobs s)"
  shows "d_jobs (defer_claim delay i t later s1) =
    upd_where (\<lambda>x. j_id x = i) (\<lambda>x. defer_claim_row delay later (claim_row t d now x)) (d_jobs s)"
  using assms by (auto simp: defer_claim_def upd_where_def claim_row_def)

lemma defer_row_ok: "row_ok r \<Longrightarrow> \<not> terminal r \<Longrightarrow> row_step r (defer_claim_row delay now r)"
  by (auto simp: row_simps defer_claim_row_def)

lemma ok_defer_claim:
  assumes "db_ok s"
    and "\<And>r. r \<in> set (d_jobs s) \<Longrightarrow> j_id r = i \<Longrightarrow> j_lock_token r = Some t \<Longrightarrow> \<not> terminal r"
  shows "db_ok (defer_claim delay i t now s)"
  unfolding defer_claim_def by (rule ok_update [OF assms(1)]) (elim conjE, rule defer_row_ok, assumption, rule assms(2))

text \<open>A claim given back because of the pause marker or of quiet hours costs the job nothing: no
  other row changes, no attempt is counted, the lock is gone, and the first promotion once the
  delay is over (one minute, fifteen minutes) and no earlier makes the job claimable again.\<close>

theorem claim_given_back:
  assumes ok: "db_ok s" and c: "claim t d q names now busy s = (Some job, s1)"
    and given: "delay = 60000000 \<and> s2 = releaseClaimForPause job t now2 s1 \<or>
               delay = 900000000 \<and> s2 = handleQuietHoursDefer False thr job t now2 s1"
  shows "db_ok s2 \<and> \<not> lock_held (j_id job) t s2 \<and>
    d_jobs s2 = upd_where (\<lambda>x. j_id x = j_id job) (\<lambda>x. defer_claim_row delay now2 (claim_row t d now x)) (d_jobs s) \<and>
    (\<exists>x \<in> set (d_jobs (snd (promoteDelayed later s2))). j_id x = j_id job \<and>
       j_attempts_made x = j_attempts_made job \<and> j_lock_token x = None \<and>
       j_status x = (if later < now2 + delay then Delayed else Waiting))"
proof -
  from c obtain r where r: "r \<in> set (d_jobs s)" "claimable q names busy r"
    and job: "job = rowToMinionJob (claim_row t d now r)"
    and s1: "s1 = s\<lparr>d_jobs := upd_where (\<lambda>x. j_id x = j_id r) (claim_row t d now) (d_jobs s)\<rparr>"
    by (cases rule: claim_cases [of t d q names now busy s]) auto
  have i: "j_id job = j_id r" "j_attempts_made job = j_attempts_made r"
    by (simp_all add: job rowToMinionJob_def claim_row_def)
  have s2: "s2 = defer_claim delay (j_id r) t now2 s1"
    using given by (auto simp: releaseClaimForPause_def handleQuietHoursDefer_def i)
  have rows: "d_jobs s2 = upd_where (\<lambda>x. j_id x = j_id r) (\<lambda>x. defer_claim_row delay now2 (claim_row t d now x)) (d_jobs s)"
    unfolding s2 by (rule defer_after_claim) (simp add: s1)
  have ok1: "db_ok s1" using ok_claim [OF ok, of t d q names now busy] by (simp add: c)
  have "db_ok s2" unfolding s2
  proof (rule ok_defer_claim [OF ok1])
    fix x assume "x \<in> set (d_jobs s1)" "j_id x = j_id r"
    then show "\<not> terminal x" unfolding s1
      by (auto simp: claim_row_def terminal_iff elim!: in_upd_where_cases)
  qed
  moreover have "\<not> lock_held (j_id r) t s2"
    by (auto simp: lock_held_iff rows defer_claim_row_def claim_row_def elim!: in_upd_where_cases)
  moreover have "\<exists>x \<in> set (d_jobs (snd (promoteDelayed later s2))). j_id x = j_id r \<and>
       j_attempts_made x = j_attempts_made r \<and> j_lock_token x = None \<and>
       j_status x = (if later < now2 + delay then Delayed else Waiting)"
  proof -
    let ?x = "defer_claim_row delay now2 (claim_row t d now r)"
    have "?x \<in> set (d_jobs s2)" unfolding rows using r(1) by (auto simp: set_upd_where)
    from promote_one [OF this, of later]
    show ?thesis
      by (rule rev_bexI) (auto simp: promotable_def promote_row_def defer_claim_row_def claim_row_def)
  qed
  ultimately show ?thesis unfolding i using rows by blast
qed

lemma claim_given_back_witness:
  "\<exists>x \<in> set (d_jobs (snd (promoteDelayed 66000000
       (releaseClaimForPause (demo_active 1 ''a'') ''a'' 6000000 demo_claimed)))).
     j_status x = Waiting \<and> j_attempts_made x = 0"
proof -
  have c: "claim ''a'' 30000 ''default'' [''sync''] 6000000 {} demo_submitted = (Some (demo_active 1 ''a''), demo_claimed)"
  proof (rule prod_eqI)
    show "fst (claim ''a'' 30000 ''default'' [''sync''] 6000000 {} demo_submitted) =
      fst (Some (demo_active 1 ''a''), demo_claimed)" unfolding fst_conv by code_simp
  qed (simp only: demo_claimed_def snd_conv)
  have "j_attempts_made (demo_active 1 ''a'') = 0" by code_simp
  with claim_given_back [OF ok_reachable [OF demo_reachable(1)] c disjI1 [OF conjI [OF refl refl]],
      of 6000000 66000000]
  show ?thesis by auto
qed

text \<open>The statement that gives a claim back checks the token but not the status. While the row is
  not settled it keeps the tables consistent, whatever happened since the claim; on a settled row
  that still carries the token, and only there, it breaks them: the row becomes delayed and
  keeps its finish time.\<close>

theorem late_release:
  assumes ok: "db_ok s" and r: "r \<in> set (d_jobs s)" "j_id r = j_id job" "j_lock_token r = Some t"
  shows "db_ok (releaseClaimForPause job t now s) \<longleftrightarrow> \<not> terminal r"
proof
  assume "db_ok (releaseClaimForPause job t now s)"
  moreover have "defer_claim_row 60000000 now r \<in> set (d_jobs (releaseClaimForPause job t now s))"
    using r by (auto simp: releaseClaimForPause_def defer_claim_def intro!: in_upd_hit)
  ultimately have "row_ok (defer_claim_row 60000000 now r)" by (rule ok_row_ok)
  then have "j_finished_at r = None" by (simp add: row_ok_def defer_claim_row_def terminal_iff)
  with ok_row_ok [OF ok r(1)] show "\<not> terminal r" by (simp add: row_ok_def)
next
  assume "\<not> terminal r"
  then show "db_ok (releaseClaimForPause job t now s)"
    unfolding releaseClaimForPause_def using ok_unique [OF ok _ r(1)] r(2)
    by (intro ok_defer_claim [OF ok]) auto
qed

text \<open>A parent claimed by \<open>t\<close> gets a child that fails for good before the claim is given back.\<close>

definition demo_race :: queue_db where
  "demo_race = snd (failJob 2 ''u'' ''boom'' ToDead None 9000000
     (snd (claim ''u'' 30000 ''default'' [''sync''] 8000000 {}
       (committed demo_claimed
         (add_job demo_env demo_policy ''sync'' [] (no_opts\<lparr>o_parent_job_id := Some 1\<rparr>) demo_trust
           demo_claimed)))))"

lemma demo_race_reachable: "reachable demo_race"
  unfolding demo_race_def
  by (rule reachable.step [OF reachable.step [OF reachable.step [OF demo_reachable(2) queue_step.submit]
        queue_step.claim] queue_step.fail])

lemma late_release_witness:
  "reachable demo_race \<and> \<not> db_ok (releaseClaimForPause (demo_active 1 ''a'') ''a'' 9500000 demo_race)"
proof -
  have "list_ex (\<lambda>r. j_id r = j_id (demo_active 1 ''a'') \<and> j_lock_token r = Some ''a'' \<and> terminal r) (d_jobs demo_race)"
    by code_simp
  then obtain r where r: "r \<in> set (d_jobs demo_race)" "j_id r = j_id (demo_active 1 ''a'')"
    "j_lock_token r = Some ''a''" "terminal r" by (auto simp: list_ex_iff)
  from late_release [OF ok_reachable [OF demo_race_reachable] r(1-3)] r(4) demo_race_reachable
  show ?thesis by blast
qed

section \<open>Quiet hours: the job is skipped\<close>

text \<open>Between the two statements that skip a job in quiet hours its row is active with no lock, and
  there it would stay: the stall sweep and the timeout sweep pass over it at any later time, and no
  worker holds it.\<close>

theorem skip_window_unswept:
  assumes ok: "db_ok s" and r: "r \<in> set (d_jobs s)" "holds i t r" and s1: "s1 = drop_claim_lock i t now s"
  shows "\<exists>x \<in> set (d_jobs s1). j_id x = i \<and> j_status x = Active \<and> \<not> lock_held i u s1 \<and>
    x \<in> set (d_jobs (snd (handleStalled grace later busy s1))) \<and>
    x \<in> set (d_jobs (snd (handleTimeouts later busy s1)))"
proof -
  let ?x = "r\<lparr>j_lock_token := None, j_lock_until := None, j_updated_at := now\<rparr>"
  have x: "?x \<in> set (d_jobs s1)" unfolding s1 drop_claim_lock_def using r
    by (auto simp: holds_def set_upd_where)
  have "\<not> lock_held i u s1"
    using ok_unique [OF ok _ r(1)] r(2)
    by (auto simp: s1 lock_held_iff drop_claim_lock_def holds_def elim!: in_upd_where_cases)
  moreover have "?x \<in> set (d_jobs (snd (handleStalled grace later busy s1)))"
    using r(2) by (intro stall_spares [OF x]) (simp_all add: stalled_def holds_def)
  moreover have "?x \<in> set (d_jobs (snd (handleTimeouts later busy s1)))"
    using x r(2) by (auto simp: handleTimeouts_def Let_def timed_out_def holds_def intro!: kill_keeps in_upd_miss)
  ultimately show ?thesis using x r(2) by (intro bexI [of _ ?x]) (auto simp: holds_def)
qed

lemma skip_window_unswept_witness:
  "\<exists>x \<in> set (d_jobs (snd (handleStalled 15000 900000000 {}
       (drop_claim_lock 1 ''b'' 62000000 demo_reclaimed)))). j_status x = Active"
proof -
  have "demo_second \<in> set (d_jobs demo_reclaimed)" by (simp add: demo_rows)
  from skip_window_unswept [OF ok_reachable [OF demo_reachable(4)] this demo_second_holds refl]
  show ?thesis by blast
qed

section \<open>Settling an execution\<close>

definition attempts_stay :: "int \<Rightarrow> queue_db \<Rightarrow> queue_db \<Rightarrow> bool" where
  "attempts_stay i s s' = (\<forall>x \<in> set (d_jobs s'). j_id x = i \<longrightarrow>
     (\<exists>y \<in> set (d_jobs s). j_id y = i \<and> j_attempts_made y = j_attempts_made x))"

lemma stay_refl: "d_jobs s' = d_jobs s \<Longrightarrow> attempts_stay i s s'"
  by (auto simp: attempts_stay_def)

lemma stay_trans: "attempts_stay i s s' \<Longrightarrow> attempts_stay i s' s'' \<Longrightarrow> attempts_stay i s s''"
  by (fastforce simp: attempts_stay_def)

lemma stay_upd:
  assumes "\<And>r. j_id (f r) = j_id r" and "\<And>r. j_attempts_made (f r) = j_attempts_made r"
    and "d_jobs s' = upd_where P f (d_jobs s)"
  shows "attempts_stay i s s'"
  using assms by (auto simp: attempts_stay_def elim!: in_upd_where_cases)

lemma stay_unblock: "attempts_stay i s (unblock_parent now p s)"
  by (rule stay_upd [of "unblock_row now"]) (auto simp: unblock_parent_def unblock_row_def)

lemma stay_drop: "attempts_stay i s (drop_parent j now s)"
  by (rule stay_upd [of "\<lambda>r. r\<lparr>j_parent_job_id := None, j_updated_at := now\<rparr>"]) (auto simp: drop_parent_def)

lemma stay_fail_waiting: "attempts_stay i s (fail_waiting_parent p e now s)"
  by (rule stay_upd [of "fail_parent_row e now"]) (auto simp: fail_waiting_parent_def fail_parent_row_def)

lemma stay_delete: "attempts_stay i s (delete_jobs P s)"
  by (auto simp: attempts_stay_def delete_jobs_def Let_def drop_ref_def)

lemma stay_hook: "attempts_stay i s (fail_parent_hook e st now c s)"
  unfolding fail_parent_hook_def Let_def
  by (auto split: option.split child_fail_policy.split intro: stay_refl
      intro!: stay_trans [OF stay_refl stay_fail_waiting] stay_trans [OF stay_refl stay_unblock]
        stay_trans [OF stay_trans [OF stay_refl stay_drop] stay_unblock])

lemma one_row_upd:
  assumes "db_ok s" and "r \<in> set (d_jobs s)" "j_id r = i"
    and "x \<in> set (upd_where (\<lambda>x. j_id x = i) f (d_jobs s))" "j_id x = i"
  shows "x = f r"
  using assms(4)
proof (cases rule: in_upd_where_cases)
  case (1 y)
  with ok_unique [OF assms(1) 1(1) assms(2)] assms(3) show ?thesis by simp
next
  case 2
  with assms(5) show ?thesis by simp
qed

lemma failJob_attempts:
  assumes ok: "db_ok s" and r: "r \<in> set (d_jobs s)" "holds i t r"
    and f: "failJob i t e st bo now s = (a, s')"
  shows "a \<noteq> None" and "x \<in> set (d_jobs s') \<Longrightarrow> j_id x = i \<Longrightarrow> j_attempts_made x = j_attempts_made r + 1"
proof -
  let ?f = "fail_row e st (or_default 0 bo) now"
  let ?s1 = "s\<lparr>d_jobs := upd_where (\<lambda>x. j_id x = i) ?f (d_jobs s)\<rparr>"
  note f' = f [unfolded failJob_def fenced_one [OF ok r], simplified, unfolded Let_def]
  then show "a \<noteq> None" by (auto split: if_splits)
  from f' have stay: "attempts_stay i ?s1 s'"
    by (auto split: if_splits intro: stay_refl stay_hook stay_trans [OF stay_hook stay_delete])
  assume "x \<in> set (d_jobs s')" "j_id x = i"
  with stay obtain y where y: "y \<in> set (d_jobs ?s1)" "j_id y = i" "j_attempts_made y = j_attempts_made x"
    by (auto simp: attempts_stay_def)
  have "j_id r = i" using r(2) by (simp add: holds_def)
  from one_row_upd [OF ok r(1) this, of y ?f] y(1,2) have "y = ?f r" by simp
  with y(3) show "j_attempts_made x = j_attempts_made r + 1" by (simp add: fail_row_def)
qed

lemma release_attempts:
  assumes ok: "db_ok s" and r: "r \<in> set (d_jobs s)" "holds i t r"
    and f: "releaseLeaseFullJob i t e bo now s = (a, s')"
  shows "a \<noteq> None" and "x \<in> set (d_jobs s') \<Longrightarrow> j_id x = i \<Longrightarrow>
    j_attempts_made x = j_attempts_made r \<and> j_status x = Delayed"
proof -
  note f' = f [unfolded releaseLeaseFullJob_def fenced_one [OF ok r], simplified]
  then show "a \<noteq> None" by auto
  assume x: "x \<in> set (d_jobs s')" "j_id x = i"
  have "j_id r = i" using r(2) by (simp add: holds_def)
  from one_row_upd [OF ok r(1) this _ x(2)] x(1) f' have "x = release_row e bo now r" by auto
  then show "j_attempts_made x = j_attempts_made r \<and> j_status x = Delayed" by (simp add: release_row_def)
qed

definition attempts_are :: "int \<Rightarrow> int set \<Rightarrow> queue_db \<Rightarrow> bool" where
  "attempts_are i A s = (\<forall>x \<in> set (d_jobs s). j_id x = i \<longrightarrow> j_attempts_made x \<in> A)"

lemma attempts_weaken: "attempts_are i A s \<Longrightarrow> A \<subseteq> B \<Longrightarrow> attempts_are i B s"
  by (auto simp: attempts_are_def)

lemma attempts_now:
  assumes "db_ok s" and "r \<in> set (d_jobs s)" "j_id r = i"
  shows "attempts_are i {j_attempts_made r} s"
  using ok_unique [OF assms(1) _ assms(2)] assms(3) by (auto simp: attempts_are_def)

lemma failJob_counts:
  assumes "db_ok s" and "r \<in> set (d_jobs s)" "holds i t r" and "failJob i t e st bo now s = (a, s')"
  shows "a \<noteq> None" and "attempts_are i {j_attempts_made r + 1} s'"
  using failJob_attempts [OF assms] by (simp_all add: attempts_are_def)

lemma record_failure_counts:
  assumes ok: "db_ok s" and r: "r \<in> set (d_jobs s)" "holds i t r"
    and rec: "record_failure f1 f2 (\<lambda>s. s) i t msg st bo n1 n2 s = (how, s')"
  shows "attempts_are i {j_attempts_made r, j_attempts_made r + 1} s' \<and>
    (how = SettledFailed st \<and> attempts_are i {j_attempts_made r + 1} s' \<or>
     how \<in> {SettledDropped, RecordingThrew, LeftAfterRetry})"
proof -
  let ?fail = "\<lambda>n. failJob i t msg st (Some bo) n" and ?a = "j_attempts_made r"
  have id: "j_id r = i" using r(2) by (simp add: holds_def)
  have same: "attempts_are i {?a, ?a + 1} s" by (rule attempts_weaken [OF attempts_now [OF ok r(1) id]]) simp
  obtain a1 s1 where c1: "?fail n1 s = (a1, s1)" by fastforce
  obtain a2 s2 where c2: "?fail n2 s = (a2, s2)" by fastforce
  note one = failJob_counts [OF ok r c1] and two = failJob_counts [OF ok r c2]
  have both: "attempts_are i {?a, ?a + 1} s1" "attempts_are i {?a, ?a + 1} s2"
    using attempts_weaken one(2) two(2) by blast+
  have again: "?fail n2 s1 = (None, s1)"
    using failing.at_most_once [OF ok runs.none, of i t msg st "Some bo" n2]
      failing.lock_gone [OF ok runs.none, of i t msg st "Some bo" n1] c1
    by (metis failing.refuses snd_conv)
  have first: "db_call f1 (?fail n1) s = (case f1 of CallAnswers \<Rightarrow> (Inr a1, s1)
      | CallThrows landed e \<Rightarrow> (Inl e, if landed then s1 else s))"
    by (simp add: db_call_def c1)
  have second: "db_call f2 (?fail n2) s = (case f2 of CallAnswers \<Rightarrow> (Inr a2, s2)
      | CallThrows landed e \<Rightarrow> (Inl e, if landed then s2 else s))"
    "db_call f2 (?fail n2) s1 = (case f2 of CallAnswers \<Rightarrow> (Inr None, s1)
      | CallThrows landed e \<Rightarrow> (Inl e, s1))"
    by (simp_all add: db_call_def c2 again split: call_fate.split)
  show ?thesis
    using rec one two both same unfolding record_failure_def first
    by (auto simp: second split: call_fate.splits if_splits)
qed

text \<open>Errors that are no fault of the job.\<close>

fun infrastructure_error :: "job_error \<Rightarrow> bool" where
  "infrastructure_error (ChildSpawnInfra _) = True"
| "infrastructure_error (ChildWorkerShutdown _) = True"
| "infrastructure_error (ChildNotClaimed _) = True"
| "infrastructure_error _ = False"

fun lease_full :: "job_error \<Rightarrow> bool" where
  "lease_full (RateLeaseUnavailable _ _ _ _ _) = True"
| "lease_full _ = False"

fun unrecoverable :: "job_error \<Rightarrow> bool" where
  "unrecoverable (UnrecoverableError _) = True"
| "unrecoverable _ = False"

lemma settle_error_cases:
  obtains "infrastructure_abort aborted \<or> infrastructure_error err" "settle_error rnd aborted err job = LeaveToStallSweep"
  | msg wait where "\<not> infrastructure_abort aborted" "\<not> infrastructure_error err" "lease_full err"
      "settle_error rnd aborted err job = BounceLease msg wait"
  | msg st bo where "\<not> infrastructure_abort aborted" "\<not> infrastructure_error err" "\<not> lease_full err"
      "settle_error rnd aborted err job = RecordFailure msg st bo"
      "st = (if unrecoverable err \<or> attempts_exhausted job then ToDead else ToDelayed)"
  by (cases "infrastructure_abort aborted"; cases err; simp add: settle_error_def Let_def)

text \<open>What a failed execution costs its job. An abort for infrastructure, a child that could not
  be spawned, was shut down or had lost its claim leave the tables untouched; a full rate lease costs
  no attempt; every other error costs one attempt and never two, even when the first recording of
  the failure landed and its answer was lost, and the job is dead exactly when the error is
  unrecoverable or the attempts are used up.\<close>

theorem settlement_accounting:
  assumes ok: "db_ok s" and r: "r \<in> set (d_jobs s)" "holds (j_id job) t r"
    and snapshot: "j_attempts_made job = j_attempts_made r"
    and alone: "x_between x = (\<lambda>s. s)"
    and settle: "settle_failure x job t err s = (how, s')"
  shows "if infrastructure_abort (x_aborted x) \<or> infrastructure_error err then how = SettledReleased \<and> s' = s
    else if lease_full err then attempts_are (j_id job) {j_attempts_made r} s' \<and> how \<in> {SettledBounced, RecordingThrew}
    else attempts_are (j_id job) {j_attempts_made r, j_attempts_made r + 1} s' \<and>
      (how \<in> {SettledDropped, RecordingThrew, LeftAfterRetry} \<or>
       attempts_are (j_id job) {j_attempts_made r + 1} s' \<and>
       how = SettledFailed (if unrecoverable err \<or> j_attempts_made r + 1 \<ge> j_max_attempts job then ToDead else ToDelayed))"
proof (cases rule: settle_error_cases [of "x_aborted x" err "x_rnd x" job])
  case 1
  with settle show ?thesis by (simp add: settle_failure_def)
next
  case (2 msg wait)
  have id: "j_id r = j_id job" using r(2) by (simp add: holds_def)
  obtain a s1 where rel: "releaseLeaseFullJob (j_id job) t msg wait (x_now2 x) s = (a, s1)" by fastforce
  have s1: "attempts_are (j_id job) {j_attempts_made r} s1"
    using release_attempts(2) [OF ok r rel] by (simp add: attempts_are_def)
  from settle 2 rel release_attempts(1) [OF ok r rel] s1 attempts_now [OF ok r(1) id] show ?thesis
    by (auto simp: settle_failure_def db_call_def split: call_fate.splits if_splits)
next
  case (3 msg st bo)
  from settle have "record_failure (x_record x) (x_retry x) (\<lambda>s. s) (j_id job) t msg st bo
      (x_now2 x) (x_now3 x) s = (how, s')"
    by (simp add: settle_failure_def 3(4) alone)
  from record_failure_counts [OF ok r this] 3 snapshot show ?thesis
    by (auto simp: attempts_exhausted_def)
qed

definition demo_exec :: exec_env where
  "demo_exec = \<lparr>x_rnd = 0, x_aborted = None, x_complete = CallThrows True demo_reset,
     x_record = CallThrows True demo_reset, x_retry = CallAnswers, x_others = (\<lambda>s. s), x_between = (\<lambda>s. s),
     x_now1 = 62000000, x_now2 = 63000000, x_now3 = 64000000\<rparr>"

lemma settlement_accounting_witness:
  "attempts_are 1 {0, 1} (snd (settle_failure demo_exec demo_second ''b'' (ChildSpawnInfra ''x'') demo_reclaimed)) \<and>
   attempts_are 1 {0, 1} (snd (settle_failure demo_exec demo_second ''b'' (PlainError demo_reset) demo_reclaimed))"
proof -
  have mem: "demo_second \<in> set (d_jobs demo_reclaimed)" by (simp add: demo_rows)
  have id: "j_id demo_second = 1" "j_attempts_made demo_second = 0" by code_simp+
  note ok = ok_reachable [OF demo_reachable(4)]
  have holds: "holds (j_id demo_second) ''b'' demo_second" using demo_second_holds by (simp add: id)
  have alone: "x_between demo_exec = (\<lambda>s. s)" "x_aborted demo_exec = None" by (simp_all add: demo_exec_def)
  show ?thesis
    using settlement_accounting [OF ok mem holds refl alone(1) surjective_pairing, of "ChildSpawnInfra ''x''"]
      settlement_accounting [OF ok mem holds refl alone(1) surjective_pairing, of "PlainError demo_reset"]
      attempts_weaken [OF attempts_now [OF ok mem id(1)], of "{0, 1}"]
    by (simp add: id alone infrastructure_abort_def)
qed

text \<open>C27: a completion that landed stands although its answer was lost. What the worker then does, it
  settles the lost answer like an error of the handler, reports no outcome of its own and leaves
  the tables as the other sessions made them since.\<close>

theorem landed_completion_stands:
  assumes ok: "db_ok s"
    and others: "\<And>y. runs {t} y (x_others x y)" "\<And>y. runs {t} y (x_between x y)"
    and handler: "j_name job \<in> set handlers"
    and lost: "x_complete x = CallThrows True e"
    and exec: "executeJob handlers x job t (Returned res) s = (how, s')"
    and landed: "s1 = x_others x (snd (completeJob (j_id job) t (completion_result res) (x_now1 x) s))"
  shows "(s' = s1 \<or> s' = x_between x s1) \<and> how \<notin> {SettledCompleted, SettledBounced} \<and>
    (\<forall>st. how \<noteq> SettledFailed st)"
proof -
  let ?done = "snd (completeJob (j_id job) t (completion_result res) (x_now1 x) s)"
  have ok1: "db_ok ?done" by (rule ok_completeJob [OF ok])
  have run1: "runs {t} ?done s1" unfolding landed by (rule others(1))
  have gone1: "\<not> lock_held (j_id job) t s1" by (rule completing.lock_gone [OF ok run1])
  have gone2: "\<not> lock_held (j_id job) t (x_between x s1)"
    by (rule lock_lost_for_good [OF others(2) runs_ok [OF run1 ok1] gone1])
  have refused: "failJob (j_id job) t m st bo n s1 = (None, s1)"
    "failJob (j_id job) t m st bo n (x_between x s1) = (None, x_between x s1)" for m st bo n
    by (rule failing.refuses, rule gone1) (rule failing.refuses, rule gone2)
  have settle: "settle_failure x job t (PlainError e) s1 = (how, s')"
    using exec handler by (auto simp: executeJob_def db_call_def lost landed split: prod.splits)
  show ?thesis
  proof (cases rule: settle_error_cases [of "x_aborted x" "PlainError e" "x_rnd x" job])
    case 1
    with settle show ?thesis by (auto simp: settle_failure_def)
  next
    case (2 msg wait)
    then show ?thesis by simp
  next
    case (3 msg st bo)
    with settle show ?thesis
      by (auto simp: settle_failure_def record_failure_def db_call_def refused split: call_fate.splits if_splits)
  qed
qed

lemma landed_completion_stands_witness:
  "fst (executeJob [''sync''] demo_exec demo_second ''b'' (Returned None) demo_reclaimed) \<noteq> SettledCompleted"
proof -
  have name: "j_name demo_second \<in> set [''sync'']" by code_simp
  have others: "runs {''b''} y (x_others demo_exec y)" "runs {''b''} y (x_between demo_exec y)" for y
    by (simp_all add: demo_exec_def runs.none)
  have lost: "x_complete demo_exec = CallThrows True demo_reset" by (simp add: demo_exec_def)
  from landed_completion_stands [OF ok_reachable [OF demo_reachable(4)] others name lost surjective_pairing refl]
  show ?thesis by blast
qed

end
