(* ===== verification/SearchFusion.thy ===== *)
theory SearchFusion
  imports Admission Canon JobDefaults "HOL-Library.Multiset"
begin

text \<open>
  The fusion stage of hybrid search (\<open>src/core/search/\<close>): the composition of the fusion lists
  (\<open>fusion-lists.ts\<close>, \<open>arm-confidence.ts\<close>), reciprocal rank fusion and the scope of the query cache
  (\<open>hybrid.ts\<close>), with their properties. Scores are finite numbers, taken exactly.
\<close>

section \<open>Results\<close>

datatype chunk_source = CompiledTruth | Timeline

text \<open>The columns of a result the pipeline reads. A flag that is absent is \<open>False\<close>.\<close>

record search_result =
  r_slug :: string
  r_page_id :: int
  r_title :: string
  r_type :: string
  r_chunk_text :: string
  r_chunk_source :: chunk_source
  r_chunk_id :: "int option"
  r_score :: rat
  r_source_id :: "string option"
  r_keyword_hit :: bool
  r_unverified :: bool

definition source_of :: "search_result \<Rightarrow> string" where
  "source_of r = or_default ''default'' (r_source_id r)"

text \<open>\<open>sort((a, b) => b.score - a.score)\<close>, which is stable.\<close>

definition by_score :: "search_result list \<Rightarrow> search_result list" where
  "by_score rs = sort_key (\<lambda>r. - r_score r) rs"

section \<open>Composing the fusion lists\<close>

datatype arm_role = Original | Variant | Clause | Image

record vector_arm =
  a_list :: "search_result list"
  a_role :: arm_role

record fusion_entry =
  e_list :: "search_result list"
  e_k :: rat
  e_weight :: "rat option"

definition pushVectorList ::
  "vector_arm list \<Rightarrow> search_result list \<Rightarrow> arm_role \<Rightarrow> vector_arm list" where
  "pushVectorList arms rs role = arms @ [\<lparr>a_list = rs, a_role = role\<rparr>]"

definition textArmsNonEmpty :: "vector_arm list \<Rightarrow> bool" where
  "textArmsNonEmpty arms = list_ex (\<lambda>a. a_role a \<noteq> Image \<and> a_list a \<noteq> []) arms"

record fusion_ks =
  k_vector :: rat
  k_text :: rat
  k_image :: rat
  k_keyword :: rat
  k_base :: rat

definition EXPANSION_VARIANT_BUDGET_MAX :: rat where "EXPANSION_VARIANT_BUDGET_MAX = 4"

text \<open>The two range contracts. \<open>None\<close>: unset, \<open>Some None\<close>: the literal that switches the knob off.\<close>

datatype knob_value = KnobNull | KnobFalse | KnobText string | KnobNumber js_number | KnobOther

definition knob_in_range :: "rat \<Rightarrow> js_number \<Rightarrow> rat option option" where
  "knob_in_range hi n =
     (case n of Finite x \<Rightarrow> if 0 < x \<and> x \<le> hi then Some (Some x) else None | _ \<Rightarrow> None)"

definition normalizeExpansionVariantBudget :: "knob_value \<Rightarrow> rat option option" where
  "normalizeExpansionVariantBudget v =
     (case v of
        KnobNull \<Rightarrow> Some None
      | KnobText s \<Rightarrow>
          let lit = js_to_lower (js_trim s)
          in if lit = ''legacy'' \<or> lit = ''null'' then Some None
             else if lit = [] then None
             else knob_in_range EXPANSION_VARIANT_BUDGET_MAX (js_Number lit)
      | KnobNumber n \<Rightarrow> knob_in_range EXPANSION_VARIANT_BUDGET_MAX n
      | _ \<Rightarrow> None)"

definition KEYWORD_ARM_WEAK_WEIGHT :: rat where "KEYWORD_ARM_WEAK_WEIGHT = 1 / 2"

definition KEYWORD_ARM_CONFIDENCE_FLOOR_MAX :: rat where "KEYWORD_ARM_CONFIDENCE_FLOOR_MAX = 1"

definition normalizeKeywordArmConfidenceFloor :: "knob_value \<Rightarrow> rat option option" where
  "normalizeKeywordArmConfidenceFloor v =
     (case v of
        KnobNull \<Rightarrow> Some None
      | KnobFalse \<Rightarrow> Some None
      | KnobText s \<Rightarrow>
          let lit = js_to_lower (js_trim s)
          in if lit = ''off'' \<or> lit = ''null'' \<or> lit = ''false'' then Some None
             else if lit = [] then None
             else knob_in_range KEYWORD_ARM_CONFIDENCE_FLOOR_MAX (js_Number lit)
      | KnobNumber n \<Rightarrow> knob_in_range KEYWORD_ARM_CONFIDENCE_FLOOR_MAX n
      | KnobOther \<Rightarrow> None)"

text \<open>The two largest scores, kept in one pass.\<close>

definition top_two :: "search_result list \<Rightarrow> rat \<times> rat" where
  "top_two rows = fold (\<lambda>r (best, snd_best).
     let s = max 0 (r_score r)
     in if s > best then (s, best) else if s > snd_best then (best, s) else (best, snd_best)) rows (0, 0)"

definition keywordArmConfidence :: "search_result list \<Rightarrow> rat \<times> rat" where
  "keywordArmConfidence rows =
     (if rows = [] then (0, 0)
      else case top_two rows of
          (best, snd_best) \<Rightarrow>
            if best \<le> 0 then (0, 0)
            else if length rows = 1 then (1, best)
            else (best / (best + snd_best), best))"

definition decideKeywordArmWeight ::
  "search_result list \<Rightarrow> rat option \<Rightarrow> bool \<Rightarrow> bool \<Rightarrow> rat option" where
  "decideKeywordArmWeight keywordList armFloor vectorArmVoted relationalQuery =
     (case armFloor of
        None \<Rightarrow> None
      | Some fl \<Rightarrow>
          if keywordList \<noteq> [] \<and> vectorArmVoted \<and> \<not> relationalQuery \<and>
             fst (keywordArmConfidence keywordList) < fl
          then Some KEYWORD_ARM_WEAK_WEIGHT else None)"

record fusion_input =
  i_arms :: "vector_arm list"
  i_keyword :: "search_result list"
  i_title :: "search_result list"
  i_relational :: "search_result list"
  i_includeRelational :: bool
  i_relationalQuery :: bool
  i_ks :: fusion_ks
  i_budget :: "rat option"
  i_floor :: "rat option"

definition isExpansionRole :: "arm_role \<Rightarrow> bool" where
  "isExpansionRole role = (role = Variant \<or> role = Clause)"

definition voting_expansion :: "vector_arm \<Rightarrow> bool" where
  "voting_expansion a = (isExpansionRole (a_role a) \<and> a_list a \<noteq> [])"

definition expansion_weight :: "rat option \<Rightarrow> vector_arm list \<Rightarrow> rat option" where
  "expansion_weight budget arms =
     (let n = length (filter voting_expansion arms)
      in case budget of None \<Rightarrow> None | Some b \<Rightarrow> if n = 0 then None else Some (b / of_nat n))"

definition arm_entry :: "fusion_ks \<Rightarrow> bool \<Rightarrow> rat option \<Rightarrow> vector_arm \<Rightarrow> fusion_entry" where
  "arm_entry ks bothMode weight a =
     (let textK = (if bothMode then k_text ks else k_vector ks);
          imageK = (if bothMode then k_image ks else k_vector ks)
      in if a_role a = Image then \<lparr>e_list = a_list a, e_k = imageK, e_weight = None\<rparr>
         else if voting_expansion a then \<lparr>e_list = a_list a, e_k = textK, e_weight = weight\<rparr>
         else \<lparr>e_list = a_list a, e_k = textK, e_weight = None\<rparr>)"

definition composeFusionLists :: "fusion_input \<Rightarrow> fusion_entry list" where
  "composeFusionLists i =
     (let arms = i_arms i; ks = i_ks i;
          hasImageArm = list_ex (\<lambda>a. a_role a = Image) arms;
          hasTextArm = list_ex (\<lambda>a. a_role a \<noteq> Image) arms;
          lexical = decideKeywordArmWeight (i_keyword i) (i_floor i) (textArmsNonEmpty arms) (i_relationalQuery i)
      in map (arm_entry ks (hasImageArm \<and> hasTextArm) (expansion_weight (i_budget i) arms)) arms @
         [\<lparr>e_list = i_keyword i, e_k = k_keyword ks, e_weight = lexical\<rparr>] @
         (if i_title i \<noteq> [] then [\<lparr>e_list = i_title i, e_k = k_keyword ks, e_weight = lexical\<rparr>] else []) @
         (if i_includeRelational i \<and> i_relational i \<noteq> []
          then [\<lparr>e_list = i_relational i, e_k = k_base ks, e_weight = None\<rparr>] else []))"

section \<open>Reciprocal rank fusion\<close>

definition RRF_K :: rat where "RRF_K = 60"

definition COMPILED_TRUTH_BOOST :: rat where "COMPILED_TRUTH_BOOST = 2"

definition shouldBoostCompiledTruth :: "string option \<Rightarrow> bool" where
  "shouldBoostCompiledTruth detail = (detail = Some ''low'')"

definition compiledTruthBoost :: "search_result \<Rightarrow> bool \<Rightarrow> rat" where
  "compiledTruthBoost r applyBoost =
     (let syntheticTitleRow = (r_chunk_id r = Some 0 \<and> js_trim (r_chunk_text r) = [])
      in if applyBoost \<and> r_chunk_source r = CompiledTruth \<and> \<not> r_unverified r \<and> \<not> syntheticTitleRow
         then COMPILED_TRUTH_BOOST else 1)"

definition rrfKey :: "search_result \<Rightarrow> string" where
  "rrfKey r = source_of r @ '':'' @ r_slug r @ '':'' @
     (case r_chunk_id r of Some n \<Rightarrow> int_str n | None \<Rightarrow> take 50 (r_chunk_text r))"

text \<open>The map from key to accumulated score, in insertion order.\<close>

record fused =
  f_key :: string
  f_result :: search_result
  f_score :: rat
  f_hit :: bool

definition rrf_vote :: "rat \<Rightarrow> search_result \<Rightarrow> fused list \<Rightarrow> fused list" where
  "rrf_vote x r acc =
     (if list_ex (\<lambda>e. f_key e = rrfKey r) acc
      then map (\<lambda>e. if f_key e = rrfKey r
             then e\<lparr>f_score := f_score e + x, f_hit := f_hit e \<or> r_keyword_hit r\<rparr> else e) acc
      else acc @ [\<lparr>f_key = rrfKey r, f_result = r, f_score = x, f_hit = r_keyword_hit r\<rparr>])"

fun rrf_rank_loop :: "rat \<Rightarrow> rat \<Rightarrow> nat \<Rightarrow> search_result list \<Rightarrow> fused list \<Rightarrow> fused list" where
  "rrf_rank_loop w k rank [] acc = acc"
| "rrf_rank_loop w k rank (r # rs) acc =
     rrf_rank_loop w k (rank + 1) rs (rrf_vote (w / (k + of_nat rank)) r acc)"

definition rrf_accumulate :: "fusion_entry list \<Rightarrow> fused list" where
  "rrf_accumulate rankings =
     fold (\<lambda>e. rrf_rank_loop (or_default 1 (e_weight e)) (e_k e) 0 (e_list e)) rankings []"

definition rrf_finish :: "fused \<Rightarrow> search_result" where
  "rrf_finish e =
     (if f_hit e \<and> \<not> r_keyword_hit (f_result e)
      then (f_result e)\<lparr>r_score := f_score e, r_keyword_hit := True\<rparr>
      else (f_result e)\<lparr>r_score := f_score e\<rparr>)"

definition rrf_output :: "bool \<Rightarrow> fused list \<Rightarrow> search_result list" where
  "rrf_output applyBoost es =
     (if es = [] then []
      else let maxScore = Max (set (map f_score es));
               es' = (if maxScore > 0
                      then map (\<lambda>e. e\<lparr>f_score := f_score e / maxScore * compiledTruthBoost (f_result e) applyBoost\<rparr>) es
                      else es)
           in map rrf_finish (sort_key (\<lambda>e. - f_score e) es'))"

definition rrfFusionWeighted :: "fusion_entry list \<Rightarrow> bool \<Rightarrow> search_result list" where
  "rrfFusionWeighted rankings applyBoost = rrf_output applyBoost (rrf_accumulate rankings)"

fun rrf_plain_loop :: "rat \<Rightarrow> nat \<Rightarrow> search_result list \<Rightarrow> fused list \<Rightarrow> fused list" where
  "rrf_plain_loop k rank [] acc = acc"
| "rrf_plain_loop k rank (r # rs) acc =
     rrf_plain_loop k (rank + 1) rs (rrf_vote (1 / (k + of_nat rank)) r acc)"

definition rrfFusion :: "search_result list list \<Rightarrow> rat \<Rightarrow> bool \<Rightarrow> search_result list" where
  "rrfFusion rankings k applyBoost = rrf_output applyBoost (fold (rrf_plain_loop k 0) rankings [])"

section \<open>The scope of a cached result\<close>

record read_scope =
  s_sourceId :: "string option"
  s_sourceIds :: "string list option"

definition cacheScopeKey :: "read_scope \<Rightarrow> string" where
  "cacheScopeKey sc =
     (case s_sourceIds sc of
        Some (x # xs) \<Rightarrow> ''__set__:'' @ join_with '','' (sort (x # xs))
      | _ \<Rightarrow> or_default ''__unscoped__'' (s_sourceId sc))"

definition filterResultsByCallerScope :: "search_result list \<Rightarrow> read_scope \<Rightarrow> search_result list" where
  "filterResultsByCallerScope rs sc =
     (case s_sourceIds sc of
        Some (x # xs) \<Rightarrow> filter (\<lambda>r. source_of r \<in> set (x # xs)) rs
      | _ \<Rightarrow> (case s_sourceId sc of
               Some i \<Rightarrow> filter (\<lambda>r. source_of r = i) rs
             | None \<Rightarrow> rs))"

section \<open>Fusion adds up the votes\<close>

text \<open>The votes in the order the two loops cast them, and the tally of one key.\<close>

fun rank_votes :: "rat \<Rightarrow> rat \<Rightarrow> nat \<Rightarrow> search_result list \<Rightarrow> (rat \<times> search_result) list" where
  "rank_votes w k n [] = []"
| "rank_votes w k n (r # rs) = (w / (k + of_nat n), r) # rank_votes w k (n + 1) rs"

definition entry_votes :: "fusion_entry \<Rightarrow> (rat \<times> search_result) list" where
  "entry_votes e = rank_votes (or_default 1 (e_weight e)) (e_k e) 0 (e_list e)"

definition ballots :: "fusion_entry list \<Rightarrow> (rat \<times> search_result) list" where
  "ballots entries = concat (map entry_votes entries)"

definition votes_for :: "string \<Rightarrow> (rat \<times> search_result) list \<Rightarrow> (rat \<times> search_result) list" where
  "votes_for key bs = filter (\<lambda>(x, r). rrfKey r = key) bs"

definition tally :: "(rat \<times> search_result) list \<Rightarrow> string \<Rightarrow> fused" where
  "tally bs key = \<lparr>f_key = key, f_result = snd (hd (votes_for key bs)),
     f_score = sum_list (map fst (votes_for key bs)),
     f_hit = list_ex (\<lambda>(x, r). r_keyword_hit r) (votes_for key bs)\<rparr>"

lemma nub_snoc: "nub (xs @ [x]) = (if x \<in> set xs then nub xs else nub xs @ [x])"
  by (induction xs) auto

lemma rrf_rank_loop_votes:
  "rrf_rank_loop w k n rs acc = fold (\<lambda>(x, r). rrf_vote x r) (rank_votes w k n rs) acc"
  by (induction rs arbitrary: n acc) auto

lemma rrf_accumulate_votes: "rrf_accumulate entries = fold (\<lambda>(x, r). rrf_vote x r) (ballots entries) []"
proof -
  have "fold (\<lambda>e. rrf_rank_loop (or_default 1 (e_weight e)) (e_k e) 0 (e_list e)) entries acc =
      fold (\<lambda>(x, r). rrf_vote x r) (ballots entries) acc" for acc
    by (induction entries arbitrary: acc)
       (simp_all add: ballots_def rrf_rank_loop_votes entry_votes_def)
  then show ?thesis by (simp add: rrf_accumulate_def)
qed

lemma tally_snoc_other: "rrfKey r \<noteq> key \<Longrightarrow> tally (bs @ [(x, r)]) key = tally bs key"
  by (simp add: tally_def votes_for_def)

lemma tally_snoc_same:
  assumes "key \<in> set (map (\<lambda>b. rrfKey (snd b)) bs)" and "rrfKey r = key"
  shows "tally (bs @ [(x, r)]) key = (tally bs key)
    \<lparr>f_score := f_score (tally bs key) + x, f_hit := f_hit (tally bs key) \<or> r_keyword_hit r\<rparr>"
proof -
  have "votes_for key bs \<noteq> []" using assms(1) by (auto simp: votes_for_def filter_empty_conv)
  then show ?thesis using assms(2) by (simp add: tally_def votes_for_def)
qed

lemma rrf_accumulate_tally:
  "rrf_accumulate entries = map (tally (ballots entries)) (nub (map (\<lambda>b. rrfKey (snd b)) (ballots entries)))"
proof -
  have "fold (\<lambda>(x, r). rrf_vote x r) bs [] = map (tally bs) (nub (map (\<lambda>b. rrfKey (snd b)) bs))" for bs
  proof (induction bs rule: rev_induct)
    case (snoc b bs)
    obtain x r where b: "b = (x, r)" by fastforce
    let ?keys = "map (\<lambda>b. rrfKey (snd b)) bs"
    have ex: "list_ex (\<lambda>e. f_key e = rrfKey r) (map (tally bs) (nub ?keys)) \<longleftrightarrow> rrfKey r \<in> set ?keys"
      by (auto simp: list_ex_iff tally_def)
    show ?case
    proof (cases "rrfKey r \<in> set ?keys")
      case True
      have "f_key (tally bs k) = k" for k by (simp add: tally_def)
      then have "rrf_vote x r (map (tally bs) (nub ?keys)) = map (tally (bs @ [(x, r)])) (nub ?keys)"
        using True by (simp add: rrf_vote_def ex[unfolded map_map] del: nub.simps)
          (auto simp: tally_snoc_same tally_snoc_other)
      then show ?thesis using True snoc by (simp add: b nub_snoc)
    next
      case False
      then have "tally (bs @ [(x, r)]) k = tally bs k" if "k \<in> set (nub ?keys)" for k
        using that by (intro tally_snoc_other) auto
      moreover have "tally (bs @ [(x, r)]) (rrfKey r) =
          \<lparr>f_key = rrfKey r, f_result = r, f_score = x, f_hit = r_keyword_hit r\<rparr>"
      proof -
        have "votes_for (rrfKey r) bs = []" using False by (force simp: votes_for_def filter_empty_conv)
        then show ?thesis by (simp add: tally_def votes_for_def)
      qed
      ultimately show ?thesis using False snoc ex
        by (simp add: b nub_snoc rrf_vote_def)
    qed
  qed simp
  then show ?thesis by (simp add: rrf_accumulate_votes)
qed

text \<open>C37: fusion computes for every key, in the order the keys are first seen, the sum of
  weight / (k + rank) over all positions at which any list ranks a row of that key; the row shown is
  the first one seen, and it counts as a keyword hit as soon as one of the rows does.\<close>

theorem rrf_adds_up_votes:
  "rrf_accumulate entries = map (tally (ballots entries)) (nub (map (\<lambda>b. rrfKey (snd b)) (ballots entries)))"
  by (rule rrf_accumulate_tally)

section \<open>The ranking\<close>

lemma sum_fst_pos: "xs \<noteq> [] \<Longrightarrow> (\<And>b. b \<in> set xs \<Longrightarrow> (0::rat) < fst b) \<Longrightarrow> 0 < sum_list (map fst xs)"
proof (induction xs)
  case (Cons x xs)
  show ?case
  proof (cases "xs = []")
    case True
    with Cons.prems show ?thesis by simp
  next
    case False
    with Cons have "0 < sum_list (map fst xs)" "0 < fst x" by simp_all
    then show ?thesis by simp
  qed
qed simp

lemma rank_votes_pos: "0 < k \<Longrightarrow> 0 < w \<Longrightarrow> b \<in> set (rank_votes w k n rs) \<Longrightarrow> 0 < fst b"
  by (induction rs arbitrary: n) (auto intro!: divide_pos_pos add_pos_nonneg)

lemma tally_key: "key \<in> set (map (\<lambda>b. rrfKey (snd b)) bs) \<Longrightarrow> rrfKey (f_result (tally bs key)) = key"
proof -
  assume "key \<in> set (map (\<lambda>b. rrfKey (snd b)) bs)"
  then have "votes_for key bs \<noteq> []" by (auto simp: votes_for_def filter_empty_conv)
  then have "hd (votes_for key bs) \<in> set (votes_for key bs)" by simp
  then show ?thesis by (auto simp: tally_def votes_for_def)
qed

lemma finish_simps [simp]:
  "rrfKey (rrf_finish e) = rrfKey (f_result e)" "r_score (rrf_finish e) = f_score e"
  by (simp_all add: rrf_finish_def rrfKey_def source_of_def split: option.split)

lemma boost_range: "1 \<le> compiledTruthBoost r b" "compiledTruthBoost r b \<le> (if b then 2 else 1)"
  by (simp_all add: compiledTruthBoost_def COMPILED_TRUTH_BOOST_def Let_def)

lemma sort_key_sorted_wrt: "sorted_wrt (\<lambda>a b. f b \<le> f a) (sort_key (\<lambda>e. - (f e :: rat)) xs)"
proof -
  have "sorted (map (\<lambda>e. - f e) (sort_key (\<lambda>e. - f e) xs))" by simp
  then show ?thesis by (simp add: sorted_wrt_map)
qed

definition good_entry :: "fusion_entry \<Rightarrow> bool" where
  "good_entry e = (0 < e_k e \<and> 0 < or_default 1 (e_weight e))"

text \<open>The fused ranking holds every key of the input lists exactly once, best score first; scores
  are positive and at most 1, or at most 2 where compiled truth is boosted, and without that boost
  the best row scores exactly 1.\<close>

theorem rrf_ranking:
  assumes good: "list_all good_entry entries" and out: "out = rrfFusionWeighted entries boost"
  shows "sorted_wrt (\<lambda>a b. r_score b \<le> r_score a) out \<and> distinct (map rrfKey out) \<and>
    set (map rrfKey out) = set (map rrfKey (concat (map e_list entries))) \<and>
    list_all (\<lambda>r. 0 < r_score r \<and> r_score r \<le> (if boost then 2 else 1)) out \<and>
    (boost \<or> out = [] \<or> r_score (hd out) = 1)"
proof -
  let ?bs = "ballots entries" and ?es = "rrf_accumulate entries"
  let ?keys = "nub (map (\<lambda>b. rrfKey (snd b)) ?bs)"
  have es: "?es = map (tally ?bs) ?keys" by (rule rrf_accumulate_tally)
  have rows: "snd ` set (rank_votes w k n rs) = set rs" for w k n rs
    by (induction rs arbitrary: n) auto
  have snd_bs: "snd ` set ?bs = set (concat (map e_list entries))"
    by (simp add: ballots_def entry_votes_def image_UN rows)
  have keys: "set ?keys = set (map rrfKey (concat (map e_list entries)))"
    unfolding set_nub set_map snd_bs [symmetric] by (simp add: image_image)
  have pos: "0 < f_score (tally ?bs k)" if "k \<in> set ?keys" for k
  proof -
    have "votes_for k ?bs \<noteq> []" using that by (auto simp: votes_for_def filter_empty_conv)
    moreover have "0 < fst b" if "b \<in> set (votes_for k ?bs)" for b
      using that good by (auto simp: votes_for_def ballots_def entry_votes_def list_all_iff good_entry_def
          intro: rank_votes_pos)
    ultimately show ?thesis unfolding tally_def by (simp add: sum_fst_pos)
  qed
  show ?thesis
  proof (cases "?es = []")
    case True
    then have "?keys = []" using es by simp
    with keys have "set (map rrfKey (concat (map e_list entries))) = {}" by (metis list.set(1))
    with True show ?thesis by (simp add: out rrfFusionWeighted_def rrf_output_def)
  next
    case False
    define m where "m = Max (set (map f_score ?es))"
    define up where "up = (\<lambda>e :: fused. e\<lparr>f_score := f_score e / m * compiledTruthBoost (f_result e) boost\<rparr>)"
    have le: "f_score e \<le> m" if "e \<in> set ?es" for e
      unfolding m_def using that by (intro Max_ge) simp_all
    have gt: "0 < f_score e" if "e \<in> set ?es" for e
      using that pos unfolding es by (auto simp del: set_nub)
    have "m \<in> set (map f_score ?es)" unfolding m_def using False by (intro Max_in) simp_all
    then obtain best where best: "best \<in> set ?es" "f_score best = m" by auto
    with gt have m: "0 < m" by metis
    have out': "out = map rrf_finish (sort_key (\<lambda>e. - f_score e) (map up ?es))"
      unfolding out rrfFusionWeighted_def rrf_output_def Let_def m_def [symmetric] up_def
      using False m by (simp only: if_False if_True)
    have up: "f_result (up e) = f_result e" for e by (simp add: up_def)
    have "sorted_wrt (\<lambda>a b. r_score b \<le> r_score a) out"
      unfolding out' by (simp add: sorted_wrt_map sort_key_sorted_wrt)
    moreover have mset: "mset (map rrfKey out) = mset ?keys"
    proof -
      have "mset (map rrfKey out) = mset (map (\<lambda>e. rrfKey (f_result e)) ?es)"
        unfolding out' by (simp add: comp_def up image_mset.compositionality)
      also have "map (\<lambda>e. rrfKey (f_result e)) ?es = ?keys"
        unfolding es map_map by (rule map_idI) (simp add: tally_key)
      finally show ?thesis .
    qed
    then have "distinct (map rrfKey out)" "set (map rrfKey out) = set ?keys"
      using distinct_nub by (metis mset_eq_imp_distinct_iff, metis mset_eq_setD)
    moreover have range: "0 < r_score r \<and> r_score r \<le> (if boost then 2 else 1)" if r: "r \<in> set out" for r
    proof -
      from r obtain e where e: "e \<in> set ?es" "r_score r = f_score e / m * compiledTruthBoost (f_result e) boost"
        unfolding out' by (auto simp: up_def)
      let ?q = "f_score e / m" and ?b = "compiledTruthBoost (f_result e) boost"
      have q: "0 < ?q" "?q \<le> 1" using le [OF e(1)] gt [OF e(1)] m by simp_all
      have b: "1 \<le> ?b" by (rule boost_range(1))
      have "0 < ?q * ?b" using q(1) b by (intro mult_pos_pos) simp_all
      moreover have "?q * ?b \<le> 1 * ?b" using q(2) b by (intro mult_right_mono) simp_all
      ultimately have "0 < r_score r" "r_score r \<le> ?b" unfolding e(2) by simp_all
      with boost_range(2) [of "f_result e" boost] show ?thesis by simp
    qed
    have top: "r_score (hd out) = 1" if "\<not> boost"
    proof -
      have "compiledTruthBoost r False = 1" for r by (simp add: compiledTruthBoost_def)
      then have one: "r_score (rrf_finish (up best)) = 1" using best m that by (simp add: up_def)
      have "rrf_finish (up best) \<in> set out" unfolding out' set_map set_sort
        by (intro imageI) (rule best(1))
      moreover have "out \<noteq> []" using calculation(1) by auto
      moreover have "r_score x \<le> r_score (hd out)" if "x \<in> set out" for x
        using \<open>sorted_wrt (\<lambda>a b. r_score b \<le> r_score a) out\<close> that by (cases out) auto
      ultimately have "1 \<le> r_score (hd out)" using one by metis
      moreover have "r_score (hd out) \<le> 1" using range [of "hd out"] \<open>out \<noteq> []\<close> that by simp
      ultimately show ?thesis by simp
    qed
    moreover have "boost \<or> out = [] \<or> r_score (hd out) = 1" using top by blast
    moreover have "list_all (\<lambda>r. 0 < r_score r \<and> r_score r \<le> (if boost then 2 else 1)) out"
      unfolding list_all_iff using range by blast
    ultimately show ?thesis unfolding keys by (intro conjI)
  qed
qed

definition demo_hit :: "string \<Rightarrow> int \<Rightarrow> search_result" where
  "demo_hit slug n = \<lparr>r_slug = slug, r_page_id = n, r_title = slug, r_type = ''note'', r_chunk_text = slug,
     r_chunk_source = CompiledTruth, r_chunk_id = Some n, r_score = 1, r_source_id = None,
     r_keyword_hit = False, r_unverified = False\<rparr>"

definition demo_lists :: "fusion_entry list" where
  "demo_lists = [\<lparr>e_list = [demo_hit ''a'' 1, demo_hit ''b'' 2], e_k = 60, e_weight = None\<rparr>,
     \<lparr>e_list = [demo_hit ''b'' 2], e_k = 60, e_weight = Some (1 / 2)\<rparr>]"

lemma rrf_ranking_witness:
  "r_score (hd (rrfFusionWeighted demo_lists False)) = 1 \<and> r_slug (hd (rrfFusionWeighted demo_lists False)) = ''b''"
proof -
  have "list_all good_entry demo_lists" by (simp add: demo_lists_def good_entry_def or_default_def)
  from rrf_ranking [OF this refl, of False] show ?thesis
    by (simp add: demo_lists_def demo_hit_def rrfFusionWeighted_def rrf_output_def rrf_accumulate_def rrf_vote_def
        rrfKey_def source_of_def or_default_def int_str_def nat_str.simps digit_char_def Let_def rrf_finish_def
        compiledTruthBoost_def js_trim_def)
qed

section \<open>The share of query expansion\<close>

lemma one_vote:
  assumes "0 < k" and "0 \<le> w" and "distinct (map rrfKey rs)"
  shows "sum_list (map fst (votes_for key (rank_votes w k n rs))) \<le> w / k \<and>
    (key \<notin> set (map rrfKey rs) \<longrightarrow> votes_for key (rank_votes w k n rs) = [])"
  using assms(3)
proof (induction rs arbitrary: n)
  case Nil
  then show ?case using assms by (simp add: votes_for_def)
next
  case (Cons r rs)
  then have IH: "sum_list (map fst (votes_for key (rank_votes w k (n + 1) rs))) \<le> w / k"
    "key \<notin> set (map rrfKey rs) \<Longrightarrow> votes_for key (rank_votes w k (n + 1) rs) = []"
    by simp_all
  show ?case
  proof (cases "rrfKey r = key")
    case True
    with Cons.prems have "votes_for key (rank_votes w k (n + 1) rs) = []" using IH(2) by auto
    moreover have "w / (k + of_nat n) \<le> w / k" using assms(1,2) by (intro divide_left_mono) auto
    ultimately show ?thesis using True by (simp add: votes_for_def)
  next
    case False
    with IH show ?thesis by (auto simp: votes_for_def)
  qed
qed

lemma votes_append: "votes_for key (bs @ cs) = votes_for key bs @ votes_for key cs"
  by (simp add: votes_for_def)

text \<open>The entries the composition makes of the expansion arms that vote.\<close>

definition expansion_entries :: "fusion_input \<Rightarrow> fusion_entry list" where
  "expansion_entries i =
     map fst (filter (\<lambda>(e, a). voting_expansion a) (zip (composeFusionLists i) (i_arms i)))"

lemma expansion_entries_eq:
  "expansion_entries i = map (arm_entry (i_ks i)
      (list_ex (\<lambda>a. a_role a = Image) (i_arms i) \<and> list_ex (\<lambda>a. a_role a \<noteq> Image) (i_arms i))
      (expansion_weight (i_budget i) (i_arms i))) (filter voting_expansion (i_arms i))"
proof -
  have "map fst (filter (\<lambda>(e, a). P a) (zip (map f as @ zs) as)) = map f (filter P as)" for P :: "vector_arm \<Rightarrow> bool" and f :: "vector_arm \<Rightarrow> fusion_entry" and as zs
    by (induction as) auto
  then show ?thesis unfolding expansion_entries_def composeFusionLists_def Let_def by blast
qed

text \<open>Under a budget the weights of all expansion arms that vote add up to the budget, however many
  there are, and together they give no row more than budget / k, the vote of one list of that
  weight that ranks it first.\<close>

theorem expansion_budget_bounds:
  assumes b: "i_budget i = Some b" "0 \<le> b" and some: "list_ex voting_expansion (i_arms i)"
    and k: "0 < k" "k \<le> k_vector (i_ks i)" "k \<le> k_text (i_ks i)"
    and once: "list_all (\<lambda>a. distinct (map rrfKey (a_list a))) (i_arms i)"
  shows "sum_list (map (\<lambda>e. or_default 1 (e_weight e)) (expansion_entries i)) = b \<and>
    sum_list (map fst (votes_for key (ballots (expansion_entries i)))) \<le> b / k"
proof -
  let ?v = "filter voting_expansion (i_arms i)"
  let ?n = "length ?v"
  define f where "f = arm_entry (i_ks i)
      (list_ex (\<lambda>a. a_role a = Image) (i_arms i) \<and> list_ex (\<lambda>a. a_role a \<noteq> Image) (i_arms i))
      (expansion_weight (i_budget i) (i_arms i))"
  define c where "c = b / of_nat ?n / k"
  have eq: "expansion_entries i = map f ?v" unfolding f_def by (rule expansion_entries_eq)
  have "?v \<noteq> []" using some by (auto simp: list_ex_iff filter_empty_conv)
  then have n: "0 < ?n" by simp
  have w: "e_weight (f a) = Some (b / of_nat ?n)" "e_list (f a) = a_list a" "k \<le> e_k (f a)"
    if "a \<in> set ?v" for a
    using that n k b
    unfolding f_def by (auto simp: arm_entry_def Let_def voting_expansion_def isExpansionRole_def expansion_weight_def)
  have each: "sum_list (map fst (votes_for key (entry_votes (f a)))) \<le> c" if a: "a \<in> set ?v" for a
  proof -
    have "distinct (map rrfKey (a_list a))" using once a by (simp add: list_all_iff)
    with one_vote [of "e_k (f a)" "b / of_nat ?n" "a_list a" key 0] k w [OF a] b(2)
    have "sum_list (map fst (votes_for key (entry_votes (f a)))) \<le> b / of_nat ?n / e_k (f a)"
      by (simp add: entry_votes_def or_default_def)
    also have "\<dots> \<le> b / of_nat ?n / k" using w(3) [OF a] k b(2) by (intro divide_left_mono) auto
    finally show ?thesis unfolding c_def .
  qed
  have sums: "sum_list (map fst (votes_for key (ballots (map f as)))) \<le> of_nat (length as) * c"
    if "set as \<subseteq> set ?v" for as
    using that
  proof (induction as)
    case (Cons a as)
    then have "sum_list (map fst (votes_for key (ballots (map f as)))) \<le> of_nat (length as) * c"
      by simp
    moreover have "a \<in> set ?v" using Cons.prems by auto
    ultimately show ?case using each [of a] by (simp add: ballots_def votes_append algebra_simps)
  qed (simp add: ballots_def votes_for_def)
  have "sum_list (map (\<lambda>e. or_default 1 (e_weight e)) (map f ?v)) = sum_list (map (\<lambda>a. b / of_nat ?n) ?v)"
    unfolding map_map by (rule arg_cong [where f = sum_list], rule map_cong [OF refl]) (simp add: w or_default_def)
  also have "\<dots> = b" using n by (simp add: sum_list_triv)
  finally have "sum_list (map (\<lambda>e. or_default 1 (e_weight e)) (expansion_entries i)) = b"
    unfolding eq .
  moreover have "sum_list (map fst (votes_for key (ballots (expansion_entries i)))) \<le> b / k"
    using sums [OF subset_refl] n unfolding eq c_def by simp
  ultimately show ?thesis by simp
qed

definition demo_fusion :: fusion_input where
  "demo_fusion = \<lparr>i_arms = [\<lparr>a_list = [demo_hit ''a'' 1], a_role = Original\<rparr>,
       \<lparr>a_list = [demo_hit ''b'' 2], a_role = Variant\<rparr>, \<lparr>a_list = [demo_hit ''b'' 2], a_role = Clause\<rparr>],
     i_keyword = [], i_title = [], i_relational = [], i_includeRelational = False, i_relationalQuery = False,
     i_ks = \<lparr>k_vector = 60, k_text = 60, k_image = 60, k_keyword = 60, k_base = 60\<rparr>,
     i_budget = Some 1, i_floor = None\<rparr>"

lemma expansion_budget_bounds_witness:
  "map (\<lambda>e. or_default 1 (e_weight e)) (expansion_entries demo_fusion) = [1 / 2, 1 / 2] \<and>
   sum_list (map fst (votes_for (rrfKey (demo_hit ''b'' 2)) (ballots (expansion_entries demo_fusion)))) \<le> 1 / 60"
proof -
  have "sum_list (map fst (votes_for (rrfKey (demo_hit ''b'' 2)) (ballots (expansion_entries demo_fusion)))) \<le> 1 / 60"
    by (rule conjunct2 [OF expansion_budget_bounds])
       (simp_all add: demo_fusion_def voting_expansion_def isExpansionRole_def)
  moreover have "map (\<lambda>e. or_default 1 (e_weight e)) (expansion_entries demo_fusion) = [1 / 2, 1 / 2]"
    by (simp add: expansion_entries_eq demo_fusion_def voting_expansion_def isExpansionRole_def arm_entry_def
        expansion_weight_def or_default_def)
  ultimately show ?thesis by simp
qed

section \<open>The cache scope\<close>

lemma join_comma_split:
  assumes "CHR '','' \<notin> set x"
  shows "takeWhile (\<lambda>c. c \<noteq> CHR '','') (join_with '','' (x # xs)) = x"
    and "dropWhile (\<lambda>c. c \<noteq> CHR '','') (join_with '','' (x # xs)) =
      (if xs = [] then [] else CHR '','' # join_with '','' xs)"
proof -
  have "\<forall>c \<in> set x. c \<noteq> CHR '',''" using assms by blast
  then show "takeWhile (\<lambda>c. c \<noteq> CHR '','') (join_with '','' (x # xs)) = x"
    and "dropWhile (\<lambda>c. c \<noteq> CHR '','') (join_with '','' (x # xs)) =
      (if xs = [] then [] else CHR '','' # join_with '','' xs)"
    by (cases xs; simp add: takeWhile_append2 dropWhile_append2)+
qed

lemma join_comma_step:
  assumes eq: "join_with '','' (x # xs) = join_with '','' (y # ys)"
    and "CHR '','' \<notin> set x" "CHR '','' \<notin> set y"
  shows "x = y" and "xs = [] \<and> ys = [] \<or> xs \<noteq> [] \<and> ys \<noteq> [] \<and> join_with '','' xs = join_with '','' ys"
proof -
  note x = join_comma_split [OF assms(2), of xs] and y = join_comma_split [OF assms(3), of ys]
  show "x = y" using x(1) y(1) unfolding eq by (rule trans [OF sym])
  have "(if xs = [] then [] else CHR '','' # join_with '','' xs) =
      (if ys = [] then [] else CHR '','' # join_with '','' ys)"
    using x(2) y(2) unfolding eq by (rule trans [OF sym])
  then show "xs = [] \<and> ys = [] \<or> xs \<noteq> [] \<and> ys \<noteq> [] \<and> join_with '','' xs = join_with '','' ys"
    by (simp split: if_splits)
qed

lemma join_comma_inj:
  assumes "join_with '','' (x # xs) = join_with '','' (y # ys)"
    and "list_all (\<lambda>x. CHR '','' \<notin> set x) (x # xs)" "list_all (\<lambda>x. CHR '','' \<notin> set x) (y # ys)"
  shows "x # xs = y # ys"
  using assms
proof (induction xs arbitrary: x y ys)
  case Nil
  with join_comma_step [OF Nil(1)] show ?case by simp
next
  case (Cons x' xs)
  then have "CHR '','' \<notin> set x" "CHR '','' \<notin> set y" by simp_all
  note step = join_comma_step [OF Cons.prems(1) this]
  then obtain y' ys' where ys: "ys = y' # ys'" by (cases ys) auto
  with step(2) have "join_with '','' (x' # xs) = join_with '','' (y' # ys')" by blast
  moreover have "list_all (\<lambda>x. CHR '','' \<notin> set x) (x' # xs)" "list_all (\<lambda>x. CHR '','' \<notin> set x) (y' # ys')"
    using Cons.prems(2,3) ys by simp_all
  ultimately have "x' # xs = y' # ys'" by (rule Cons.IH)
  with step(1) ys show ?case by simp
qed

definition scope_ids :: "read_scope \<Rightarrow> string list" where
  "scope_ids sc = (case s_sourceIds sc of Some xs \<Rightarrow> xs | None \<Rightarrow> []) @
     (case s_sourceId sc of Some i \<Rightarrow> [i] | None \<Rightarrow> [])"

lemma valid_no_comma: "isValidSourceId i \<Longrightarrow> CHR '','' \<notin> set i"
  by (auto simp: isValidSourceId_def list_all_iff lower_alnum_def js_digit_def js_code_def)

lemma valid_no_underscore: "isValidSourceId i \<Longrightarrow> CHR ''_'' \<notin> set i"
  by (auto simp: isValidSourceId_def list_all_iff lower_alnum_def js_digit_def js_code_def)

text \<open>Two reads that share a row of the query cache see the same sources: equal cache keys of
  scopes over valid source ids filter every result list alike, so a federated, a single-source and
  an unscoped read never serve one another's rows.\<close>

theorem cache_key_separates_scopes:
  assumes key: "cacheScopeKey a = cacheScopeKey b"
    and ids: "list_all isValidSourceId (scope_ids a @ scope_ids b)"
  shows "filterResultsByCallerScope rs a = filterResultsByCallerScope rs b"
proof -
  have under: "CHR ''_'' \<notin> set i" if "isValidSourceId i" for i by (rule valid_no_underscore [OF that])
  have shape: "s_sourceIds c \<noteq> None \<and> s_sourceIds c \<noteq> Some [] \<and> cacheScopeKey c = ''__set__:'' @ join_with '','' (sort (the (s_sourceIds c))) \<or>
      (s_sourceIds c = None \<or> s_sourceIds c = Some []) \<and> cacheScopeKey c = or_default ''__unscoped__'' (s_sourceId c)" for c
    by (cases "s_sourceIds c"; cases "the (s_sourceIds c)") (auto simp: cacheScopeKey_def)
  have scalar: "or_default ''__unscoped__'' (s_sourceId c) \<noteq> ''__set__:'' @ t"
    if "list_all isValidSourceId (scope_ids c)" for c t
    using that by (cases "s_sourceId c") (auto simp: or_default_def scope_ids_def dest!: under)
  have set_eq: "set xs = set ys"
    if eq: "join_with '','' (sort xs) = join_with '','' (sort ys)" and ne: "xs \<noteq> []" "ys \<noteq> []"
      and ok: "list_all isValidSourceId (xs @ ys)" for xs ys
  proof -
    obtain x xs' y ys' where s: "sort xs = x # xs'" "sort ys = y # ys'"
      using ne by (metis list.exhaust length_0_conv length_sort)
    have "list_all (\<lambda>x. CHR '','' \<notin> set x) (sort xs)" "list_all (\<lambda>x. CHR '','' \<notin> set x) (sort ys)"
      using ok valid_no_comma by (auto simp: list_all_iff)
    with eq s join_comma_inj have "sort xs = sort ys" by metis
    then show ?thesis by (metis set_sort)
  qed
  have valid: "list_all isValidSourceId (scope_ids a)" "list_all isValidSourceId (scope_ids b)"
    using ids by simp_all
  have fst: "filterResultsByCallerScope rs c = (if s_sourceIds c = None \<or> s_sourceIds c = Some []
      then (case s_sourceId c of Some i \<Rightarrow> filter (\<lambda>r. source_of r = i) rs | None \<Rightarrow> rs)
      else filter (\<lambda>r. source_of r \<in> set (the (s_sourceIds c))) rs)" for c
    by (auto simp: filterResultsByCallerScope_def split: option.split list.split)
  let ?set = "\<lambda>c. ''__set__:'' @ join_with '','' (sort (the (s_sourceIds c)))"
    and ?one = "\<lambda>c. or_default ''__unscoped__'' (s_sourceId c)"
    and ?none = "\<lambda>c. s_sourceIds c = None \<or> s_sourceIds c = Some []"
  consider "?none a" "?none b" "?one a = ?one b"
    | "\<not> ?none a" "\<not> ?none b" "?set a = ?set b"
    | "?one a = ?set b" | "?one b = ?set a"
    using shape [of a] shape [of b] key by metis
  then show ?thesis
  proof cases
    case 1
    moreover have "s_sourceId c \<noteq> Some ''__unscoped__''" if "list_all isValidSourceId (scope_ids c)" for c
      using that by (auto simp: scope_ids_def dest!: under)
    ultimately have "s_sourceId a = s_sourceId b"
      using valid by (cases "s_sourceId a"; cases "s_sourceId b") (auto simp: or_default_def)
    with 1(1,2) show ?thesis unfolding fst by simp
  next
    case 2
    then have "set (the (s_sourceIds a)) = set (the (s_sourceIds b))"
      using ids by (intro set_eq) (auto simp: scope_ids_def)
    then show ?thesis unfolding fst if_not_P [OF 2(1)] if_not_P [OF 2(2)] by (rule arg_cong)
  qed (use scalar valid in metis)+
qed

lemma cache_key_separates_scopes_witness:
  "filterResultsByCallerScope [demo_hit ''x'' 1] \<lparr>s_sourceId = None, s_sourceIds = Some [''b'', ''a'']\<rparr> =
   filterResultsByCallerScope [demo_hit ''x'' 1] \<lparr>s_sourceId = Some ''c'', s_sourceIds = Some [''a'', ''b'']\<rparr>"
  by (rule cache_key_separates_scopes) code_simp+

end
