(* ===== verification/SearchTrim.thy ===== *)
theory SearchTrim
  imports SearchFusion
begin

text \<open>
  What hybrid search drops from a ranking: the four layers of deduplication and the compiled-truth
  guarantee (\<open>dedup.ts\<close>), the two result-sizing gates (\<open>autocut.ts\<close>, \<open>return-policy.ts\<close>) and the token
  budget (\<open>token-budget.ts\<close>), all under \<open>src/core/search/\<close>.
\<close>

section \<open>Deduplication\<close>

definition COSINE_DEDUP_THRESHOLD :: rat where "COSINE_DEDUP_THRESHOLD = 85 / 100"
definition MAX_TYPE_RATIO :: rat where "MAX_TYPE_RATIO = 6 / 10"
definition MAX_PER_PAGE :: nat where "MAX_PER_PAGE = 2"

definition pageKey :: "search_result \<Rightarrow> string" where
  "pageKey r = source_of r @ '':'' @ r_slug r"

text \<open>Grouping in a \<open>Map\<close>: the keys in the order of their first row.\<close>

definition by_page :: "search_result list \<Rightarrow> search_result list list" where
  "by_page rs = map (\<lambda>k. filter (\<lambda>r. pageKey r = k) rs) (nub (map pageKey rs))"

definition dedupBySource :: "search_result list \<Rightarrow> search_result list" where
  "dedupBySource rs = by_score (concat (map (\<lambda>chunks. take 3 (by_score chunks)) (by_page rs)))"

text \<open>A loop that appends the rows it keeps, looking at the rows kept so far.\<close>

definition sift :: "('a \<Rightarrow> 'a list \<Rightarrow> bool) \<Rightarrow> 'a list \<Rightarrow> 'a list" where
  "sift P rs = fold (\<lambda>r kept. if P r kept then kept @ [r] else kept) rs []"

text \<open>\<open>split(/\s+/)\<close>.\<close>

function split_spaces :: "string \<Rightarrow> string \<Rightarrow> string list" where
  "split_spaces cur [] = [rev cur]"
| "split_spaces cur (c # cs) =
     (if js_space c then rev cur # split_spaces [] (dropWhile js_space cs) else split_spaces (c # cur) cs)"
  by pat_completeness auto

termination
  by (relation "measure (\<lambda>(cur, cs). length cs)") (auto simp: le_imp_less_Suc length_dropWhile_le)

definition word_set :: "search_result \<Rightarrow> string set" where
  "word_set r = set (split_spaces [] (js_to_lower (r_chunk_text r)))"

definition jaccard :: "search_result \<Rightarrow> search_result \<Rightarrow> rat" where
  "jaccard r x = of_nat (card (word_set r \<inter> word_set x)) / of_nat (card (word_set r \<union> word_set x))"

definition dedupByTextSimilarity :: "rat \<Rightarrow> search_result list \<Rightarrow> search_result list" where
  "dedupByTextSimilarity threshold rs =
     sift (\<lambda>r kept. \<not> list_ex (\<lambda>x. pageKey x = pageKey r \<and> jaccard r x > threshold) kept) rs"

text \<open>At most \<open>n\<close> rows per key, the first ones.\<close>

definition cap_by :: "('a \<Rightarrow> 'k) \<Rightarrow> nat \<Rightarrow> 'a list \<Rightarrow> 'a list" where
  "cap_by key n rs = sift (\<lambda>r kept. length (filter (\<lambda>x. key x = key r) kept) < n) rs"

definition enforceTypeDiversity :: "rat \<Rightarrow> search_result list \<Rightarrow> search_result list" where
  "enforceTypeDiversity maxRatio rs =
     (if card (set (map r_type rs)) \<le> 1 then rs
      else cap_by r_type (nat (max 1 \<lceil>of_nat (length rs) * maxRatio\<rceil>)) rs)"

definition capPerPage :: "nat \<Rightarrow> search_result list \<Rightarrow> search_result list" where
  "capPerPage maxPerPage rs = cap_by pageKey maxPerPage rs"

definition truth_on :: "string \<Rightarrow> search_result \<Rightarrow> bool" where
  "truth_on key r = (pageKey r = key \<and> r_chunk_source r = CompiledTruth)"

text \<open>The first row with the lowest score of a page.\<close>

fun lowest_from :: "string \<Rightarrow> nat \<Rightarrow> (nat \<times> rat) option \<Rightarrow> search_result list \<Rightarrow> (nat \<times> rat) option" where
  "lowest_from key idx m [] = m"
| "lowest_from key idx m (r # rs) =
     lowest_from key (idx + 1)
       (if pageKey r \<noteq> key then m
        else case m of
            None \<Rightarrow> Some (idx, r_score r)
          | Some (mi, s) \<Rightarrow> if r_score r < s then Some (idx, r_score r) else m) rs"

definition swap_in_truth ::
  "search_result list \<Rightarrow> search_result list \<Rightarrow> string \<Rightarrow> search_result list \<Rightarrow> search_result list" where
  "swap_in_truth results preDedup key out =
     (if list_ex (truth_on key) results then out
      else (case by_score (filter (truth_on key) preDedup) of
          [] \<Rightarrow> out
        | candidate # _ \<Rightarrow>
            (case lowest_from key 0 None out of
               None \<Rightarrow> out
             | Some (idx, _) \<Rightarrow> out[idx := candidate])))"

definition guaranteeCompiledTruth :: "search_result list \<Rightarrow> search_result list \<Rightarrow> search_result list" where
  "guaranteeCompiledTruth results preDedup =
     fold (swap_in_truth results preDedup) (nub (map pageKey results)) results"

definition dedupResults ::
  "search_result list \<Rightarrow> rat option \<Rightarrow> rat option \<Rightarrow> nat option \<Rightarrow> search_result list" where
  "dedupResults results cosineThreshold maxTypeRatio maxPerPage =
     guaranteeCompiledTruth
       (capPerPage (or_default MAX_PER_PAGE maxPerPage)
         (enforceTypeDiversity (or_default MAX_TYPE_RATIO maxTypeRatio)
           (dedupByTextSimilarity (or_default COSINE_DEDUP_THRESHOLD cosineThreshold)
             (dedupBySource results))))
       results"

section \<open>Autocut\<close>

record autocut_config =
  ac_enabled :: bool
  ac_jumpRatio :: rat
  ac_minKeep :: int
  ac_minTopScore :: rat

definition DEFAULT_AUTOCUT :: autocut_config where
  "DEFAULT_AUTOCUT = \<lparr>ac_enabled = True, ac_jumpRatio = 2 / 10, ac_minKeep = 1, ac_minTopScore = 35 / 100\<rparr>"

record autocut_decision =
  ad_applied :: bool
  ad_rerank :: bool
  ad_kept :: nat
  ad_total :: nat
  ad_gapRatio :: rat

definition noOp :: "'a list \<Rightarrow> 'a list \<times> autocut_decision" where
  "noOp results = (results, \<lparr>ad_applied = False, ad_rerank = False, ad_kept = length results,
     ad_total = length results, ad_gapRatio = 0\<rparr>)"

text \<open>The largest gap between neighbours from index \<open>i\<close> on, the first of equals.\<close>

fun best_gap :: "rat list \<Rightarrow> nat \<Rightarrow> nat \<Rightarrow> rat \<times> nat option \<Rightarrow> rat \<times> nat option" where
  "best_gap nrm i 0 best = best"
| "best_gap nrm i (Suc n) best =
     best_gap nrm (i + 1) n
       (if nrm ! i - nrm ! (i + 1) > fst best then (nrm ! i - nrm ! (i + 1), Some i) else best)"

text \<open>\<open>scoreOf\<close> yields \<open>None\<close> where the row has no finite rerank score.\<close>

definition applyAutocut ::
  "'a list \<Rightarrow> ('a \<Rightarrow> rat option) \<Rightarrow> autocut_config \<Rightarrow> ('a \<Rightarrow> bool) \<Rightarrow> 'a list \<times> autocut_decision" where
  "applyAutocut results scoreOf cfg preserve =
     (if \<not> ac_enabled cfg \<or> length results < 2 then noOp results
      else let scores = List.map_filter scoreOf results
           in if length scores < 2 then noOp results
              else let best = Max (set scores)
                   in if best \<le> 0 \<or> best < ac_minTopScore cfg then noOp results
                      else let sorted_scores = rev (sort scores);
                               nrm = map (\<lambda>s. s / best) sorted_scores;
                               minKeep = nat (max 1 (ac_minKeep cfg));
                               gap = best_gap nrm (minKeep - 1) (length nrm - minKeep) (-1, None)
                           in (case snd gap of
                                 None \<Rightarrow> (results, \<lparr>ad_applied = False, ad_rerank = False,
                                   ad_kept = length results, ad_total = length results, ad_gapRatio = 0\<rparr>)
                               | Some idx \<Rightarrow>
                                   if fst gap < ac_jumpRatio cfg
                                   then (results, \<lparr>ad_applied = False, ad_rerank = False,
                                     ad_kept = length results, ad_total = length results, ad_gapRatio = fst gap\<rparr>)
                                   else let threshold = sorted_scores ! idx;
                                            kept = filter (\<lambda>r. preserve r \<or>
                                              (case scoreOf r of None \<Rightarrow> False | Some s \<Rightarrow> threshold \<le> s)) results
                                        in if kept = [] then noOp results
                                           else (kept, \<lparr>ad_applied = length kept < length results,
                                             ad_rerank = length kept < length results, ad_kept = length kept,
                                             ad_total = length results, ad_gapRatio = fst gap\<rparr>)))"

section \<open>Adaptive return\<close>

datatype query_intent = IntentEntity | IntentTemporal | IntentEvent | IntentConcept | IntentGeneral

record adaptive_config =
  ar_enabled :: bool
  ar_entityMax :: int
  ar_otherMax :: int
  ar_minKeep :: int

definition DEFAULT_ADAPTIVE_RETURN :: adaptive_config where
  "DEFAULT_ADAPTIVE_RETURN = \<lparr>ar_enabled = False, ar_entityMax = 2, ar_otherMax = 6, ar_minKeep = 1\<rparr>"

definition applyAdaptiveReturn :: "'a list \<Rightarrow> query_intent \<Rightarrow> adaptive_config \<Rightarrow> 'a list" where
  "applyAdaptiveReturn results intent cfg =
     (if \<not> ar_enabled cfg \<or> results = [] then results
      else let cap = (if intent = IntentEntity then ar_entityMax cfg else ar_otherMax cfg);
               minKeep = max 1 (ar_minKeep cfg)
           in take (nat (max minKeep (min cap (int (length results))))) results)"

section \<open>Token budget\<close>

definition estimateTokens :: "string \<Rightarrow> int" where
  "estimateTokens s = (int (length s) + 3) div 4"

definition resultTokens :: "search_result \<Rightarrow> int" where
  "resultTokens r = estimateTokens (r_title r) + estimateTokens (r_chunk_text r)"

record budget_meta =
  b_budget :: rat
  b_used :: int
  b_dropped :: nat
  b_kept :: nat
  b_truncated :: bool

fun pack_loop :: "('a \<Rightarrow> int) \<Rightarrow> rat \<Rightarrow> int \<Rightarrow> 'a list \<Rightarrow> 'a list \<times> int" where
  "pack_loop cost budget used [] = ([], used)"
| "pack_loop cost budget used (x # xs) =
     (if of_int (used + cost x) > budget then ([], used)
      else (case pack_loop cost budget (used + cost x) xs of (kept, u) \<Rightarrow> (x # kept, u)))"

definition packToBudget :: "'a list \<Rightarrow> ('a \<Rightarrow> int) \<Rightarrow> rat option \<Rightarrow> 'a list \<times> budget_meta" where
  "packToBudget items cost budget =
     (let safeBudget = (case budget of Some b \<Rightarrow> if b > 0 then b else 0 | None \<Rightarrow> 0)
      in if safeBudget = 0 \<or> items = []
         then (items, \<lparr>b_budget = safeBudget, b_used = sum_list (map cost items), b_dropped = 0,
                b_kept = length items, b_truncated = False\<rparr>)
         else (case pack_loop cost safeBudget 0 items of
             (kept, used) \<Rightarrow> (kept, \<lparr>b_budget = safeBudget, b_used = used,
                b_dropped = length items - length kept, b_kept = length kept, b_truncated = False\<rparr>)))"

text \<open>\<open>slice(0, x)\<close> truncates its bound.\<close>

definition slice_to :: "rat \<Rightarrow> string \<Rightarrow> string" where
  "slice_to x s = take (nat \<lfloor>x\<rfloor>) s"

definition truncated_first :: "rat \<Rightarrow> search_result \<Rightarrow> search_result" where
  "truncated_first budget first =
     (let title = slice_to (budget * 4) (r_title first);
          chunkChars = max 0 ((budget - of_int (estimateTokens title)) * 4)
      in first\<lparr>r_title := title, r_chunk_text := slice_to chunkChars (r_chunk_text first)\<rparr>)"

definition enforceTokenBudget ::
  "bool \<Rightarrow> search_result list \<Rightarrow> rat option \<Rightarrow> search_result list \<times> budget_meta" where
  "enforceTokenBudget salvage results budget =
     (case packToBudget results resultTokens budget of
        (items, meta) \<Rightarrow>
          if items = [] \<and> results \<noteq> [] \<and> b_budget meta > 0 \<and> salvage
          then let copy = truncated_first (b_budget meta) (hd results)
               in ([copy], \<lparr>b_budget = b_budget meta, b_used = resultTokens copy,
                    b_dropped = length results - 1, b_kept = 1, b_truncated = True\<rparr>)
          else (items, meta))"

section \<open>What deduplication keeps\<close>

lemma sift_snoc: "sift P (rs @ [r]) = (if P r (sift P rs) then sift P rs @ [r] else sift P rs)"
  by (simp add: sift_def)

lemma sift_subset: "set (sift P rs) \<subseteq> set rs"
  by (induction rs rule: rev_induct) (auto simp: sift_snoc, simp add: sift_def)

lemma sift_length: "length (sift P rs) \<le> length rs"
  by (induction rs rule: rev_induct) (auto simp: sift_snoc, simp add: sift_def)

text \<open>A loop that never refuses the first row of a key keeps every key.\<close>

lemma sift_keys:
  assumes first: "\<And>r kept. \<forall>x \<in> set kept. key x \<noteq> key r \<Longrightarrow> P r kept"
  shows "key ` set (sift P rs) = key ` set rs"
proof (induction rs rule: rev_induct)
  case (snoc r rs)
  show ?case
  proof (cases "P r (sift P rs)")
    case True
    with snoc show ?thesis by (simp add: sift_snoc)
  next
    case False
    then obtain x where "x \<in> set (sift P rs)" "key x = key r" using first by blast
    then have "key r \<in> key ` set (sift P rs)" by (metis image_eqI)
    with snoc False show ?thesis by (auto simp: sift_snoc)
  qed
qed (simp add: sift_def)

lemma cap_by_count: "length (filter (\<lambda>x. key x = k) (cap_by key n rs)) \<le> n"
proof (induction rs rule: rev_induct)
  case (snoc r rs)
  then show ?case unfolding cap_by_def by (auto simp: sift_snoc)
qed (simp add: cap_by_def sift_def)

lemma cap_by_keys: "0 < n \<Longrightarrow> key ` set (cap_by key n rs) = key ` set rs"
  unfolding cap_by_def
proof (rule sift_keys)
  fix r kept assume "0 < n" "\<forall>x \<in> set kept. key x \<noteq> key r"
  then have "filter (\<lambda>x. key x = key r) kept = []" by (simp add: filter_empty_conv)
  with \<open>0 < n\<close> show "length (filter (\<lambda>x. key x = key r) kept) < n" by simp
qed

lemma similarity_pages: "pageKey ` set (dedupByTextSimilarity t rs) = pageKey ` set rs"
  unfolding dedupByTextSimilarity_def by (rule sift_keys) (simp add: list_ex_iff)

lemma set_by_score [simp]: "set (by_score rs) = set rs" "length (by_score rs) = length rs"
  by (simp_all add: by_score_def)

lemma in_by_page: "chunks \<in> set (by_page rs) \<longleftrightarrow> (\<exists>r \<in> set rs. chunks = filter (\<lambda>x. pageKey x = pageKey r) rs)"
  by (auto simp: by_page_def)

lemma by_source_subset: "set (dedupBySource rs) \<subseteq> set rs"
proof
  fix r assume "r \<in> set (dedupBySource rs)"
  then obtain chunks where "chunks \<in> set (by_page rs)" "r \<in> set (by_score chunks)"
    by (auto simp: dedupBySource_def dest: in_set_takeD)
  then show "r \<in> set rs" by (auto simp: in_by_page)
qed

lemma by_source_pages: "pageKey ` set (dedupBySource rs) = pageKey ` set rs"
proof
  show "pageKey ` set (dedupBySource rs) \<subseteq> pageKey ` set rs" using by_source_subset by (rule image_mono)
  show "pageKey ` set rs \<subseteq> pageKey ` set (dedupBySource rs)"
  proof
    fix k assume "k \<in> pageKey ` set rs"
    then obtain r where r: "r \<in> set rs" "k = pageKey r" by blast
    let ?c = "by_score (filter (\<lambda>x. pageKey x = k) rs)"
    have "r \<in> set ?c" using r by simp
    then have "?c \<noteq> []" by (metis list.set(1) empty_iff)
    then have hd: "hd ?c \<in> set (take 3 ?c)" "hd ?c \<in> set ?c" by (cases ?c; simp)+
    then have "pageKey (hd ?c) = k" by auto
    moreover have "hd ?c \<in> set (dedupBySource rs)"
      using hd(1) r by (auto simp: dedupBySource_def by_page_def)
    ultimately show "k \<in> pageKey ` set (dedupBySource rs)" by force
  qed
qed

lemma lowest_in_page:
  "lowest_from key n m rs = Some (i, s) \<Longrightarrow>
     m = Some (i, s) \<or> n \<le> i \<and> i < n + length rs \<and> pageKey (rs ! (i - n)) = key"
proof (induction key n m rs rule: lowest_from.induct)
  case (2 key n m r rs)
  let ?m = "if pageKey r \<noteq> key then m
        else case m of None \<Rightarrow> Some (n, r_score r)
          | Some (mi, s) \<Rightarrow> if r_score r < s then Some (n, r_score r) else m"
  from 2 have "?m = Some (i, s) \<or> n + 1 \<le> i \<and> i < n + 1 + length rs \<and> pageKey (rs ! (i - (n + 1))) = key"
    by simp
  then show ?case
  proof
    assume "?m = Some (i, s)"
    then show ?thesis by (auto split: if_splits option.splits)
  next
    assume *: "n + 1 \<le> i \<and> i < n + 1 + length rs \<and> pageKey (rs ! (i - (n + 1))) = key"
    then have "(r # rs) ! (i - n) = rs ! (i - (n + 1))" by (simp add: nth_Cons')
    with * show ?thesis by auto
  qed
qed simp

lemma lowest_found:
  "m \<noteq> None \<or> key \<in> pageKey ` set rs \<Longrightarrow> lowest_from key n m rs \<noteq> None"
  by (induction key n m rs rule: lowest_from.induct) (auto split: option.split)

text \<open>A swap replaces a row by one of the same page.\<close>

lemma swap_cases:
  obtains "swap_in_truth results pre key out = out"
      "list_ex (truth_on key) results \<or> \<not> list_ex (truth_on key) pre \<or> key \<notin> pageKey ` set out"
  | i c where "i < length out" "pageKey (out ! i) = key" "c \<in> set pre" "truth_on key c"
      "swap_in_truth results pre key out = out[i := c]"
proof (cases "list_ex (truth_on key) results")
  case True
  with that(1) show ?thesis by (simp add: swap_in_truth_def)
next
  case no: False
  show ?thesis
  proof (cases "by_score (filter (truth_on key) pre)")
    case Nil
    then have "filter (truth_on key) pre = []" by (metis set_by_score(2) length_0_conv)
    then have "\<not> list_ex (truth_on key) pre" by (simp add: list_ex_iff filter_empty_conv)
    with that(1) Nil no show ?thesis by (simp add: swap_in_truth_def)
  next
    case (Cons c cs)
    then have c: "c \<in> set (filter (truth_on key) pre)" by (metis list.set_intros(1) set_by_score(1))
    show ?thesis
    proof (cases "lowest_from key 0 None out")
      case None
      then have "key \<notin> pageKey ` set out" using lowest_found [of None key out 0] by blast
      with that(1) None no Cons show ?thesis by (simp add: swap_in_truth_def)
    next
      case (Some p)
      then obtain i x where p: "p = (i, x)" by fastforce
      with lowest_in_page [of key 0 None out i x] Some have "i < length out" "pageKey (out ! i) = key" by simp_all
      with that(2) [of i c] c no Cons Some p show ?thesis by (simp add: swap_in_truth_def)
    qed
  qed
qed

lemma swap_keeps:
  "map pageKey (swap_in_truth results pre key out) = map pageKey out"
  "set (swap_in_truth results pre key out) \<subseteq> set out \<union> set pre"
proof -
  show "map pageKey (swap_in_truth results pre key out) = map pageKey out"
  proof (cases rule: swap_cases [of results pre key out])
    case (2 i c)
    then have "pageKey c = pageKey (out ! i)" by (simp add: truth_on_def)
    with 2(1,5) show ?thesis by (metis list_update_id map_update)
  qed simp
  show "set (swap_in_truth results pre key out) \<subseteq> set out \<union> set pre"
    by (cases rule: swap_cases [of results pre key out])
       (use set_update_subset_insert in fastforce)+
qed

lemma swaps_keep:
  "map pageKey (fold (swap_in_truth results pre) ks out) = map pageKey out \<and>
   set (fold (swap_in_truth results pre) ks out) \<subseteq> set out \<union> set pre"
proof (induction ks arbitrary: out)
  case (Cons k ks)
  show ?case using Cons.IH [of "swap_in_truth results pre k out"] swap_keeps [of results pre k out] by auto
qed simp

text \<open>A compiled-truth row of a page is never swapped out again: only rows of other pages are.\<close>

lemma truth_stays:
  assumes "list_ex (truth_on k) out" and "k \<notin> set ks"
  shows "list_ex (truth_on k) (fold (swap_in_truth results pre) ks out)"
  using assms
proof (induction ks arbitrary: out)
  case (Cons k' ks)
  from Cons.prems(1) obtain j where j: "j < length out" "truth_on k (out ! j)"
    by (auto simp: list_ex_length)
  have "list_ex (truth_on k) (swap_in_truth results pre k' out)"
  proof (cases rule: swap_cases [of results pre k' out])
    case 1
    with Cons.prems show ?thesis by simp
  next
    case (2 i c)
    then have "i \<noteq> j" using j Cons.prems(2) by (auto simp: truth_on_def)
    with 2 j show ?thesis by (auto simp: list_ex_length)
  qed
  with Cons show ?case by simp
qed simp

lemma guarantee_truth:
  assumes "list_ex (truth_on k) pre" and "k \<in> pageKey ` set results"
  shows "list_ex (truth_on k) (guaranteeCompiledTruth results pre)"
proof -
  have "k \<in> set (nub (map pageKey results))" using assms(2) by simp
  then obtain xs ys where split: "nub (map pageKey results) = xs @ k # ys" "k \<notin> set ys"
    by (metis split_list_last)
  let ?mid = "fold (swap_in_truth results pre) xs results"
  have pages: "map pageKey ?mid = map pageKey results" using swaps_keep by blast
  then have page: "k \<in> pageKey ` set ?mid" using assms(2) by (metis set_map)
  have "list_ex (truth_on k) (swap_in_truth results pre k ?mid)"
  proof (cases rule: swap_cases [of results pre k ?mid])
    case 1
    with assms(1) page have "list_ex (truth_on k) results" by blast
    moreover have "k \<notin> set xs" using split distinct_nub [of "map pageKey results"] by auto
    ultimately have "list_ex (truth_on k) ?mid" by (rule truth_stays)
    with 1 show ?thesis by simp
  next
    case (2 i c)
    then show ?thesis by (auto simp: list_ex_length intro!: exI [of _ i])
  qed
  from truth_stays [OF this split(2)] show ?thesis
    by (simp add: guaranteeCompiledTruth_def split(1))
qed

lemma diversity_subset: "set (enforceTypeDiversity ratio rs) \<subseteq> set rs" "length (enforceTypeDiversity ratio rs) \<le> length rs"
  by (simp_all add: enforceTypeDiversity_def cap_by_def sift_subset sift_length)

lemma cap_by_nonempty: "0 < n \<Longrightarrow> rs \<noteq> [] \<Longrightarrow> cap_by key n rs \<noteq> []"
  using cap_by_keys [of n key rs] by force

lemma diversity_nonempty: "rs \<noteq> [] \<Longrightarrow> enforceTypeDiversity ratio rs \<noteq> []"
  using cap_by_nonempty [of "nat (max 1 \<lceil>of_nat (length rs) * ratio\<rceil>)" rs r_type]
  by (simp add: enforceTypeDiversity_def)

lemma by_source_nonempty: "dedupBySource rs = [] \<longleftrightarrow> rs = []"
  using by_source_pages [of rs] by auto

lemma count_pages: "length (filter (\<lambda>r. pageKey r = k) rs) = length (filter (\<lambda>p. p = k) (map pageKey rs))"
  by (induction rs) auto

text \<open>C38: deduplication returns rows of the input only, at most the given number per page; a page that
  survives and has compiled truth among the candidates shows some of it; a search with results never
  ends empty; and if the candidates are of one page type, no page is lost.\<close>

theorem dedup_contract:
  assumes n: "0 < or_default MAX_PER_PAGE n" and out: "out = dedupResults rs t ratio n"
  shows "set out \<subseteq> set rs \<and>
    length (filter (\<lambda>r. pageKey r = k) out) \<le> or_default MAX_PER_PAGE n \<and>
    (k \<in> pageKey ` set out \<longrightarrow> list_ex (truth_on k) rs \<longrightarrow> list_ex (truth_on k) out) \<and>
    (rs \<noteq> [] \<longrightarrow> out \<noteq> []) \<and>
    (card (set (map r_type rs)) \<le> 1 \<longrightarrow> pageKey ` set out = pageKey ` set rs)"
proof -
  let ?d1 = "dedupBySource rs"
  let ?d2 = "dedupByTextSimilarity (or_default COSINE_DEDUP_THRESHOLD t) ?d1"
  let ?d3 = "enforceTypeDiversity (or_default MAX_TYPE_RATIO ratio) ?d2"
  let ?d4 = "capPerPage (or_default MAX_PER_PAGE n) ?d3"
  have out': "out = guaranteeCompiledTruth ?d4 rs" by (simp add: out dedupResults_def)
  have keep: "map pageKey out = map pageKey ?d4" "set out \<subseteq> set ?d4 \<union> set rs"
    using swaps_keep [of ?d4 rs] unfolding out' guaranteeCompiledTruth_def by blast+
  have sub: "set ?d2 \<subseteq> set rs" "set ?d4 \<subseteq> set rs"
  proof -
    show d2: "set ?d2 \<subseteq> set rs"
      unfolding dedupByTextSimilarity_def using sift_subset by_source_subset by (rule subset_trans)
    have "set ?d4 \<subseteq> set ?d3" unfolding capPerPage_def cap_by_def by (rule sift_subset)
    with d2 diversity_subset show "set ?d4 \<subseteq> set rs" by blast
  qed
  have pages4: "pageKey ` set ?d4 = pageKey ` set ?d3" unfolding capPerPage_def by (rule cap_by_keys [OF n])
  have pages2: "pageKey ` set ?d2 = pageKey ` set rs" by (simp add: similarity_pages by_source_pages)
  have pages: "pageKey ` set out = pageKey ` set ?d4" using keep(1) by (metis set_map)
  have "length (filter (\<lambda>r. pageKey r = k) out) = length (filter (\<lambda>r. pageKey r = k) ?d4)"
    by (simp only: count_pages keep(1))
  also have "\<dots> \<le> or_default MAX_PER_PAGE n" unfolding capPerPage_def by (rule cap_by_count)
  finally have count: "length (filter (\<lambda>r. pageKey r = k) out) \<le> or_default MAX_PER_PAGE n" .
  have truth: "list_ex (truth_on k) out" if "k \<in> pageKey ` set out" "list_ex (truth_on k) rs"
    unfolding out' by (rule guarantee_truth) (use that pages in simp_all)
  have "?d3 \<noteq> []" if "rs \<noteq> []"
  proof -
    have "?d2 \<noteq> []" using pages2 that by auto
    then show ?thesis by (rule diversity_nonempty)
  qed
  then have nonempty: "out \<noteq> []" if "rs \<noteq> []" using that pages pages4 by auto
  have "pageKey ` set out = pageKey ` set rs" if "card (set (map r_type rs)) \<le> 1"
  proof -
    have "card (set (map r_type ?d2)) \<le> card (set (map r_type rs))"
      using sub(1) by (auto intro!: card_mono)
    with that have "?d3 = ?d2" by (simp add: enforceTypeDiversity_def)
    with pages pages4 pages2 show ?thesis by simp
  qed
  with keep(2) sub(2) count truth nonempty show ?thesis by blast
qed

definition demo_chunk :: "string \<Rightarrow> int \<Rightarrow> chunk_source \<Rightarrow> rat \<Rightarrow> search_result" where
  "demo_chunk body n src score = (demo_hit ''p'' n)\<lparr>r_chunk_text := body, r_chunk_source := src, r_score := score\<rparr>"

definition demo_results :: "search_result list" where
  "demo_results = [demo_chunk ''alpha beta'' 1 Timeline 9, demo_chunk ''gamma'' 2 Timeline 8,
     demo_chunk ''delta'' 3 Timeline 7, demo_chunk ''truth'' 4 CompiledTruth 1]"

lemma dedup_contract_witness:
  "list_ex (truth_on ''default:p'') (dedupResults demo_results None None None)"
proof -
  have n: "0 < or_default MAX_PER_PAGE None" by (simp add: or_default_def MAX_PER_PAGE_def)
  have one: "card (set (map r_type demo_results)) \<le> 1" by code_simp
  have k: "''default:p'' \<in> pageKey ` set demo_results" by code_simp
  have t: "list_ex (truth_on ''default:p'') demo_results" by code_simp
  from dedup_contract [OF n refl, of demo_results None None "''default:p''"] one k t show ?thesis by blast
qed

section \<open>What autocut cuts\<close>

lemma best_gap_inv:
  assumes "best_gap nrm i n best = (g, x)"
  shows "(g, x) = best \<or> (\<exists>j. x = Some j \<and> i \<le> j \<and> j < i + n \<and> g = nrm ! j - nrm ! (j + 1))"
  using assms
proof (induction nrm i n best rule: best_gap.induct)
  case (2 nrm i n best)
  let ?best = "if nrm ! i - nrm ! (i + 1) > fst best then (nrm ! i - nrm ! (i + 1), Some i) else best"
  from 2 have "(g, x) = ?best \<or> (\<exists>j. x = Some j \<and> i + 1 \<le> j \<and> j < i + 1 + n \<and> g = nrm ! j - nrm ! (j + 1))"
    by simp
  then show ?case
  proof
    assume "(g, x) = ?best"
    then show ?thesis by (auto split: if_splits)
  next
    assume "\<exists>j. x = Some j \<and> i + 1 \<le> j \<and> j < i + 1 + n \<and> g = nrm ! j - nrm ! (j + 1)"
    then show ?thesis by auto
  qed
qed simp

lemma sorted_down_nth: "i \<le> j \<Longrightarrow> j < length xs \<Longrightarrow> rev (sort xs) ! j \<le> rev (sort (xs :: rat list)) ! i"
  by (simp add: rev_nth sorted_nth_mono)

lemma filter_rev_sort: "length (filter P (rev (sort xs))) = length (filter P (xs :: rat list))"
  by (metis filter_sort length_rev length_sort rev_filter)

text \<open>The facts about a cut at index \<open>idx\<close> of the descending scores.\<close>

lemma cut_facts:
  fixes scores :: "rat list"
  defines "down \<equiv> rev (sort scores)"
  assumes idx: "idx + 1 < length scores" and best: "0 < best"
    and gap: "j \<le> down ! idx / best - down ! (idx + 1) / best"
  shows "s \<in> set scores \<Longrightarrow> down ! idx \<le> s \<or> s \<le> down ! idx - j * best"
    and "idx + 1 \<le> length (filter (\<lambda>s. down ! idx \<le> s) scores)"
proof -
  have len: "length down = length scores" "set down = set scores" by (simp_all add: down_def)
  have "j \<le> (down ! idx - down ! (idx + 1)) / best" using gap by (simp add: diff_divide_distrib)
  then have low: "down ! (idx + 1) \<le> down ! idx - j * best" using best by (simp add: pos_le_divide_eq algebra_simps)
  show "down ! idx \<le> s \<or> s \<le> down ! idx - j * best" if s: "s \<in> set scores"
  proof -
    obtain i where i: "i < length down" "s = down ! i" using s len by (metis in_set_conv_nth)
    show ?thesis
    proof (cases "i \<le> idx")
      case True
      then have "down ! idx \<le> s" unfolding i(2) down_def using idx by (intro sorted_down_nth) simp_all
      then show ?thesis ..
    next
      case False
      then have "s \<le> down ! (idx + 1)" unfolding i(2) down_def using i(1) len(1) by (intro sorted_down_nth) simp_all
      with low show ?thesis by simp
    qed
  qed
  have "\<forall>s \<in> set (take (idx + 1) down). down ! idx \<le> s"
  proof
    fix s assume "s \<in> set (take (idx + 1) down)"
    then obtain i where "i < idx + 1" "s = down ! i" by (auto simp: in_set_conv_nth)
    then show "down ! idx \<le> s" unfolding down_def using idx sorted_down_nth [of i idx scores] by simp
  qed
  then have "filter (\<lambda>s. down ! idx \<le> s) (take (idx + 1) down) = take (idx + 1) down" by simp
  moreover have "length (filter (\<lambda>s. down ! idx \<le> s) down) =
      length (filter (\<lambda>s. down ! idx \<le> s) (take (idx + 1) down)) +
      length (filter (\<lambda>s. down ! idx \<le> s) (drop (idx + 1) down))"
    by (metis append_take_drop_id filter_append length_append)
  ultimately have "idx + 1 \<le> length (filter (\<lambda>s. down ! idx \<le> s) down)" using idx len by simp
  then show "idx + 1 \<le> length (filter (\<lambda>s. down ! idx \<le> s) scores)" unfolding down_def filter_rev_sort .
qed

text \<open>Autocut never returns nothing and never less than the input unless it found a cliff: then it
  keeps, in order, exactly the preserved rows and those scored at or above a threshold; every
  scored row it drops lies below the threshold by at least the jump ratio of the best score; at
  least \<open>minKeep\<close> scored rows stay; and the best score reaches the floor for a trusted list.\<close>

theorem autocut_cuts_at_cliff:
  assumes cut: "applyAutocut results scoreOf cfg preserve = (kept, d)" and some: "results \<noteq> []"
  shows "kept \<noteq> [] \<and> (kept = results \<or>
    (\<exists>thr best. kept = filter (\<lambda>r. preserve r \<or> (case scoreOf r of None \<Rightarrow> False | Some s \<Rightarrow> thr \<le> s)) results \<and>
       0 < best \<and> ac_minTopScore cfg \<le> best \<and> best \<in> set (List.map_filter scoreOf results) \<and>
       list_all (\<lambda>s. s \<le> best \<and> (thr \<le> s \<or> s \<le> thr - ac_jumpRatio cfg * best)) (List.map_filter scoreOf results) \<and>
       max 1 (ac_minKeep cfg) \<le> int (length (filter (\<lambda>s. thr \<le> s) (List.map_filter scoreOf results)))))"
proof -
  define scores where "scores = List.map_filter scoreOf results"
  define best where "best = Max (set scores)"
  define down where "down = rev (sort scores)"
  define mk where "mk = nat (max 1 (ac_minKeep cfg))"
  define gap where "gap = best_gap (map (\<lambda>s. s / best) down) (mk - 1) (length (map (\<lambda>s. s / best) down) - mk) (-1, None)"
  note defs = scores_def [symmetric] best_def [symmetric] down_def [symmetric] mk_def [symmetric] gap_def [symmetric]
  show ?thesis
  proof (cases "kept = results")
    case True
    with some show ?thesis by simp
  next
    case False
    obtain idx where idx: "snd gap = Some idx" and pos: "0 < best" "ac_minTopScore cfg \<le> best"
      and jump: "ac_jumpRatio cfg \<le> fst gap" and two: "2 \<le> length scores" and ne: "kept \<noteq> []"
      and kept: "kept = filter (\<lambda>r. preserve r \<or> (case scoreOf r of None \<Rightarrow> False | Some s \<Rightarrow> down ! idx \<le> s)) results"
      using cut False unfolding applyAutocut_def Let_def defs
      by (auto simp: noOp_def not_le not_less split: if_splits option.splits)
    have "gap = (fst gap, Some idx)" using idx by (simp add: prod_eq_iff)
    then have j: "mk - 1 \<le> idx" "idx < mk - 1 + (length down - mk)"
      "fst gap = map (\<lambda>s. s / best) down ! idx - map (\<lambda>s. s / best) down ! (idx + 1)"
      using best_gap_inv [of "map (\<lambda>s. s / best) down" "mk - 1" "length (map (\<lambda>s. s / best) down) - mk" "(-1, None)" "fst gap" "Some idx"]
      unfolding gap_def by auto
    have mk: "1 \<le> mk" by (simp add: mk_def)
    have len: "length down = length scores" by (simp add: down_def)
    have range: "idx + 1 < length scores" using j(1,2) mk len by linarith
    have "ac_jumpRatio cfg \<le> down ! idx / best - down ! (idx + 1) / best"
      using jump j(3) range len by simp
    note facts = cut_facts [OF range pos(1) this [unfolded down_def]]
    have "scores \<noteq> []" using two by auto
    then have bs: "best \<in> set scores" "\<forall>s \<in> set scores. s \<le> best" by (simp_all add: best_def)
    have "list_all (\<lambda>s. s \<le> best \<and> (down ! idx \<le> s \<or> s \<le> down ! idx - ac_jumpRatio cfg * best)) scores"
      using bs facts(1) by (simp add: list_all_iff down_def)
    moreover have "max 1 (ac_minKeep cfg) \<le> int (length (filter (\<lambda>s. down ! idx \<le> s) scores))"
      using facts(2) j(1) mk unfolding down_def mk_def by linarith
    ultimately show ?thesis using ne kept pos bs(1) unfolding scores_def by blast
  qed
qed

definition demo_cut :: "rat list \<times> autocut_decision" where
  "demo_cut = applyAutocut [9 / 10, 8 / 10, 1 / 10, 1 / 20] Some DEFAULT_AUTOCUT (\<lambda>r. False)"

lemma autocut_cuts_at_cliff_witness: "fst demo_cut \<noteq> [] \<and> fst demo_cut = [9 / 10, 8 / 10]"
proof -
  have "fst demo_cut \<noteq> []"
    using autocut_cuts_at_cliff [OF surjective_pairing, of "[9 / 10, 8 / 10, 1 / 10, 1 / 20 :: rat]"]
    unfolding demo_cut_def by blast
  moreover have "fst demo_cut = [9 / 10, 8 / 10]" by code_simp
  ultimately show ?thesis by blast
qed

section \<open>The token budget\<close>

lemma pack_loop_spec:
  assumes "pack_loop cost b used xs = (kept, u)" and "of_int used \<le> b"
  shows "kept = take (length kept) xs \<and> u = used + sum_list (map cost kept) \<and> of_int u \<le> b \<and>
    (length kept < length xs \<longrightarrow> b < of_int (u + cost (xs ! length kept)))"
  using assms
proof (induction cost b used xs arbitrary: kept u rule: pack_loop.induct)
  case (2 cost b used x xs)
  show ?case
  proof (cases "of_int (used + cost x) > b")
    case True
    with 2 show ?thesis by auto
  next
    case False
    with 2(2) obtain k where k: "pack_loop cost b (used + cost x) xs = (k, u)" "kept = x # k"
      by (auto split: prod.splits)
    have "of_int (used + cost x) \<le> b" using False by simp
    from 2(1) [OF False k(1) this] k(2) show ?thesis by (auto simp: add.assoc)
  qed
qed simp

lemma tokens_pos: "s \<noteq> [] \<Longrightarrow> 1 \<le> estimateTokens s" "0 \<le> estimateTokens s"
  by (cases s) (simp_all add: estimateTokens_def)

lemma tokens_slice: "0 \<le> n \<Longrightarrow> estimateTokens (slice_to (of_int n * 4) s) \<le> n"
proof -
  assume "0 \<le> n"
  have "\<lfloor>of_int n * (4 :: rat)\<rfloor> = n * 4"
    by (metis floor_of_int of_int_mult of_int_numeral)
  then have "int (length (slice_to (of_int n * 4) s)) \<le> n * 4" using \<open>0 \<le> n\<close> by (simp add: slice_to_def)
  then show ?thesis by (simp add: estimateTokens_def)
qed

lemma truncated_cost: "0 < b \<Longrightarrow> resultTokens (truncated_first (of_int b) r) \<le> b"
proof -
  assume b: "0 < b"
  define t where "t = slice_to (of_int b * 4) (r_title r)"
  have t: "estimateTokens t \<le> b" unfolding t_def using b by (intro tokens_slice) simp
  have "max 0 ((of_int b - of_int (estimateTokens t)) * 4) = (of_int (b - estimateTokens t) * 4 :: rat)"
    using t by (simp add: max_def)
  then have "resultTokens (truncated_first (of_int b) r) =
      estimateTokens t + estimateTokens (slice_to (of_int (b - estimateTokens t) * 4) (r_chunk_text r))"
    by (simp add: truncated_first_def resultTokens_def Let_def t_def [symmetric])
  with tokens_slice [of "b - estimateTokens t" "r_chunk_text r"] t show ?thesis by simp
qed

text \<open>Under a whole-number budget the results returned never cost more than the budget; unless the
  first was truncated they are the longest prefix of the ranking that fits, every result is
  accounted for as kept or dropped, and with the salvage switch on a search with results never
  comes back empty.\<close>

theorem budget_respected:
  assumes b: "0 < b" and run: "enforceTokenBudget salvage results (Some (of_int b)) = (out, meta)"
  shows "b_used meta = sum_list (map resultTokens out) \<and> b_used meta \<le> b \<and>
    b_kept meta = length out \<and> b_kept meta + b_dropped meta = length results \<and>
    (salvage \<and> results \<noteq> [] \<longrightarrow> out \<noteq> []) \<and>
    (if b_truncated meta then out = [truncated_first (of_int b) (hd results)]
     else out = take (length out) results \<and>
       (length out < length results \<longrightarrow> b < sum_list (map resultTokens (take (length out + 1) results))))"
proof (cases "results = []")
  case True
  with run b show ?thesis by (auto simp: enforceTokenBudget_def packToBudget_def)
next
  case False
  obtain kept used where loop: "pack_loop resultTokens (of_int b) 0 results = (kept, used)" by fastforce
  have zero: "(of_int 0 :: rat) \<le> of_int b" using b by simp
  note spec = pack_loop_spec [OF loop zero]
  have pack: "packToBudget results resultTokens (Some (of_int b)) =
      (kept, \<lparr>b_budget = of_int b, b_used = used, b_dropped = length results - length kept,
         b_kept = length kept, b_truncated = False\<rparr>)"
    using False b loop by (simp add: packToBudget_def Let_def)
  show ?thesis
  proof (cases "kept = [] \<and> salvage")
    case True
    with run False b have "out = [truncated_first (of_int b) (hd results)]" "b_truncated meta"
      "b_used meta = resultTokens (truncated_first (of_int b) (hd results))"
      "b_kept meta = 1" "b_dropped meta = length results - 1"
      by (auto simp: enforceTokenBudget_def pack Let_def)
    moreover have "0 < length results" using False by simp
    ultimately show ?thesis using truncated_cost [OF b, of "hd results"] by simp
  next
    case keep: False
    with run have out: "out = kept" "b_used meta = used" "b_kept meta = length kept"
      "b_dropped meta = length results - length kept" "\<not> b_truncated meta"
      by (auto simp: enforceTokenBudget_def pack Let_def split: if_splits)
    have len: "length kept \<le> length results" using spec by (metis length_take min.cobounded1)
    have "b < sum_list (map resultTokens (take (length kept + 1) results))" if "length kept < length results"
    proof -
      have "take (length kept + 1) results = kept @ [results ! length kept]"
        using that spec by (simp add: take_Suc_conv_app_nth) 
      moreover have "of_int b < (of_int (used + resultTokens (results ! length kept)) :: rat)" using spec that by blast
      ultimately show ?thesis using spec by (simp del: of_int_add)
    qed
    moreover have "used \<le> b" using spec by simp
    ultimately show ?thesis using spec out len keep by auto
  qed
qed

lemma budget_respected_witness:
  "b_used (snd (enforceTokenBudget True demo_results (Some (of_int 2)))) \<le> 2"
proof -
  have "(0 :: int) < 2" by simp
  from budget_respected [OF this surjective_pairing, of True demo_results] show ?thesis by blast
qed

text \<open>The cap is not a cap for a fractional budget, which the configuration accepts: with a budget
  between a quarter of a token and one token, a titled first result is truncated to a copy that
  costs more than the budget.\<close>

theorem fractional_budget_overrun:
  assumes b: "1 / 4 \<le> b" "b < 1" and title: "r_title r \<noteq> []"
  shows "b < of_int (b_used (snd (enforceTokenBudget True (r # rs) (Some b))))"
proof -
  have pos: "0 < b" using b by simp
  have "1 \<le> estimateTokens (r_title r)" "0 \<le> estimateTokens (r_chunk_text r)"
    using title by (simp_all add: tokens_pos)
  then have "1 \<le> resultTokens r" by (simp add: resultTokens_def)
  then have "b < of_int (resultTokens r)" using b(2) by (metis of_int_1_le_iff less_le_trans)
  then have "packToBudget (r # rs) resultTokens (Some b) = ([], \<lparr>b_budget = b, b_used = 0,
      b_dropped = length (r # rs), b_kept = 0, b_truncated = False\<rparr>)"
    using pos by (simp add: packToBudget_def)
  then have used: "b_used (snd (enforceTokenBudget True (r # rs) (Some b))) = resultTokens (truncated_first b r)"
    using pos by (simp add: enforceTokenBudget_def Let_def)
  have "1 \<le> \<lfloor>b * 4\<rfloor>" using b(1) by (simp add: le_floor_iff)
  then have "slice_to (b * 4) (r_title r) \<noteq> []" using title by (simp add: slice_to_def)
  then have "1 \<le> estimateTokens (slice_to (b * 4) (r_title r))" by (rule tokens_pos)
  moreover have "0 \<le> estimateTokens s" for s by (rule tokens_pos)
  ultimately have "1 \<le> resultTokens (truncated_first b r)"
    by (simp add: truncated_first_def resultTokens_def Let_def add_increasing2)
  then show ?thesis unfolding used using b(2) by (metis of_int_1_le_iff less_le_trans)
qed

lemma fractional_budget_overrun_witness:
  "1 / 2 < (of_int (b_used (snd (enforceTokenBudget True [demo_hit ''title'' 1] (Some (1 / 2))))) :: rat)"
  by (rule fractional_budget_overrun) (simp_all add: demo_hit_def)

end
