(* ===== verification/SchemaAlias.thy ===== *)
theory SchemaAlias
  imports Prelude "HOL-Library.List_Lexorder"
begin

text \<open>
  The alias graph of a schema pack (\<open>src/core/schema-pack/closure.ts\<close>): how it is built from the
  alias declarations, the depth-first search that rejects cycles when a pack is loaded, and the
  breadth-first closure that every typed query is expanded with. The search is shown to terminate,
  to visit every type once, and to accept exactly the forests; the closure is the ball of radius
  four.
\<close>

section \<open>The graph\<close>

text \<open>A \<open>Map\<close> of \<open>Set\<close>s, both in insertion order.\<close>

type_synonym alias_graph = "(string \<times> string list) list"

definition ALIAS_CLOSURE_MAX_DEPTH :: nat where "ALIAS_CLOSURE_MAX_DEPTH = 4"

record pack_type =
  pt_name :: string
  pt_aliases :: "string list"

definition neighbours :: "alias_graph \<Rightarrow> string \<Rightarrow> string list" where
  "neighbours g t = (case map_of g t of None \<Rightarrow> [] | Some ns \<Rightarrow> ns)"

definition ensure_type :: "string \<Rightarrow> alias_graph \<Rightarrow> alias_graph" where
  "ensure_type t g = (if map_of g t = None then g @ [(t, [])] else g)"

text \<open>\<open>ensure(t).add(a)\<close>.\<close>

definition add_neighbour :: "string \<Rightarrow> string \<Rightarrow> alias_graph \<Rightarrow> alias_graph" where
  "add_neighbour t a g =
     map (\<lambda>(k, ns). (k, if k = t \<and> a \<notin> set ns then ns @ [a] else ns)) (ensure_type t g)"

definition add_type :: "pack_type \<Rightarrow> alias_graph \<Rightarrow> alias_graph" where
  "add_type pt g =
     fold (\<lambda>a g. add_neighbour a (pt_name pt) (add_neighbour (pt_name pt) a g)) (pt_aliases pt)
       (ensure_type (pt_name pt) g)"

definition alias_edges :: "pack_type list \<Rightarrow> alias_graph" where
  "alias_edges page_types = fold add_type page_types []"

section \<open>Cycle detection\<close>

text \<open>\<open>path\<close> holds the gray types, the current one last; \<open>black\<close> the finished ones. The search of a
  type's neighbours either finds a cycle (\<open>Inl\<close>) or returns the finished types.\<close>

definition back_edge :: "string list \<Rightarrow> string \<Rightarrow> bool" where
  "back_edge path nxt = (nxt \<in> set path \<and> 2 \<le> length path \<and> path ! (length path - 2) \<noteq> nxt)"

definition cycle_from :: "string list \<Rightarrow> string \<Rightarrow> string list" where
  "cycle_from path nxt = dropWhile (\<lambda>x. x \<noteq> nxt) path @ [nxt]"

function visit ::
  "alias_graph \<Rightarrow> string list \<Rightarrow> string list \<Rightarrow> string list \<Rightarrow> string list + string list" where
  "visit g [] path black = Inr black"
| "visit g (nxt # ns) path black =
     (if back_edge path nxt then Inl (cycle_from path nxt)
      else if nxt \<notin> set path \<and> nxt \<notin> set black then
        (case visit g (neighbours g nxt) (path @ [nxt]) black of
           Inl c \<Rightarrow> Inl c
         | Inr black' \<Rightarrow> visit g ns path (black' @ [nxt]))
      else visit g ns path black)"
  by pat_completeness auto

text \<open>Each search leaves the finished types finished, so every nested one has fewer white types.\<close>

definition universe :: "alias_graph \<Rightarrow> string list \<Rightarrow> string set" where
  "universe g ns = set ns \<union> set (map fst g) \<union> (\<Union>(k, ms) \<in> set g. set ms)"

lemma finite_universe [simp]: "finite (universe g ns)"
  by (auto simp: universe_def)

lemma neighbours_universe: "set (neighbours g t) \<subseteq> universe g ns"
proof (cases "map_of g t")
  case (Some ms)
  then have "(t, ms) \<in> set g" by (rule map_of_SomeD)
  with Some show ?thesis by (auto simp: neighbours_def universe_def)
qed (simp add: neighbours_def)

lemma visit_grows:
  "visit_dom (g, ns, path, black) \<Longrightarrow> visit g ns path black = Inr b \<Longrightarrow> set black \<subseteq> set b"
proof (induction g ns path black arbitrary: b rule: visit.pinduct)
  case (1 g path black)
  then show ?case by (simp add: visit.psimps)
next
  case (2 g nxt ns path black)
  note step = 2(5) [unfolded visit.psimps(2) [OF 2(1)]]
  show ?case
  proof (cases "back_edge path nxt")
    case True
    with step show ?thesis by simp
  next
    case no: False
    show ?thesis
    proof (cases "nxt \<notin> set path \<and> nxt \<notin> set black")
      case True
      with no step obtain b1 where b1: "visit g (neighbours g nxt) (path @ [nxt]) black = Inr b1"
        "visit g ns path (b1 @ [nxt]) = Inr b" by (auto split: sum.splits)
      from 2(2) [OF no True b1(1)] 2(3) [OF no True b1(1) b1(2)] show ?thesis by auto
    next
      case False
      with no step have "visit g ns path black = Inr b" by simp
      with 2(4) [OF no] False show ?thesis by blast
    qed
  qed
qed

definition whites :: "alias_graph \<Rightarrow> string list \<Rightarrow> string list \<Rightarrow> string list \<Rightarrow> nat" where
  "whites g ns path black = card ((set ns \<union> universe g []) - set path - set black)"

lemma whites_less:
  assumes "nxt \<notin> set path" "nxt \<notin> set black" and "set black \<subseteq> set b"
  shows "whites g (neighbours g nxt) (path @ [nxt]) black < whites g (nxt # ns) path black"
    and "whites g ns path (b @ [nxt]) < whites g (nxt # ns) path black"
  unfolding whites_def
  using assms neighbours_universe [of g nxt "[]"]
  by (intro psubset_card_mono; auto)+

termination visit
proof (relation "measures [\<lambda>(g, ns, path, black). whites g ns path black, \<lambda>(g, ns, path, black). length ns]",
    goal_cases)
  case (2 g nxt ns path black)
  then show ?case using whites_less(1) [of nxt path black black g ns] by simp
next
  case (3 g nxt ns path black b)
  then have "set black \<subseteq> set b" using visit_grows by metis
  with 3 show ?case using whites_less(2) [of nxt path black b g ns] by simp
next
  case (4 g nxt ns path black)
  have "whites g ns path black \<le> whites g (nxt # ns) path black"
    unfolding whites_def by (intro card_mono) auto
  then show ?case by auto
qed simp

definition detectCycles :: "alias_graph \<Rightarrow> string list + string list" where
  "detectCycles g = visit g (map fst g) [] []"

datatype alias_error = AliasCycleError "string list"

definition buildAliasGraph :: "pack_type list \<Rightarrow> alias_error + alias_graph" where
  "buildAliasGraph page_types =
     (let adj = alias_edges page_types
      in case detectCycles adj of Inl c \<Rightarrow> Inl (AliasCycleError c) | Inr _ \<Rightarrow> Inr adj)"

section \<open>The closure of a query type\<close>

definition bfs_add :: "string \<Rightarrow> string list \<times> string list \<Rightarrow> string list \<times> string list" where
  "bfs_add n vn = (case vn of (visited, nxt) \<Rightarrow>
     if n \<in> set visited then (visited, nxt) else (visited @ [n], nxt @ [n]))"

definition bfs_round :: "alias_graph \<Rightarrow> string list \<Rightarrow> string list \<Rightarrow> string list \<times> string list" where
  "bfs_round g visited frontier = fold (\<lambda>t. fold bfs_add (neighbours g t)) frontier (visited, [])"

fun bfs_loop :: "alias_graph \<Rightarrow> nat \<Rightarrow> string list \<Rightarrow> string list \<Rightarrow> string list \<times> string list" where
  "bfs_loop g 0 visited frontier = (visited, frontier)"
| "bfs_loop g (Suc rounds) visited frontier =
     (if frontier = [] then (visited, frontier)
      else case bfs_round g visited frontier of (v, f) \<Rightarrow> bfs_loop g rounds v f)"

definition expandClosure :: "string \<Rightarrow> alias_graph \<Rightarrow> string list" where
  "expandClosure queryType g = sort (fst (bfs_loop g ALIAS_CLOSURE_MAX_DEPTH [queryType] [queryType]))"

text \<open>The \<open>onDepthExceeded\<close> callback fires. A frontier is left only after all rounds.\<close>

definition depthExceeded :: "string \<Rightarrow> alias_graph \<Rightarrow> bool" where
  "depthExceeded queryType g =
     (case bfs_loop g ALIAS_CLOSURE_MAX_DEPTH [queryType] [queryType] of (visited, frontier) \<Rightarrow>
        filter (\<lambda>n. n \<notin> set visited) (concat (map (neighbours g) frontier)) \<noteq> [])"

section \<open>The graph of a pack\<close>

definition adjacent :: "alias_graph \<Rightarrow> string \<Rightarrow> string \<Rightarrow> bool" where
  "adjacent g u v = (v \<in> set (neighbours g u))"

definition aliased :: "pack_type list \<Rightarrow> string \<Rightarrow> string \<Rightarrow> bool" where
  "aliased pts u v = (\<exists>pt \<in> set pts. pt_name pt = u \<and> v \<in> set (pt_aliases pt) \<or>
     pt_name pt = v \<and> u \<in> set (pt_aliases pt))"

lemma map_of_map_values: "map_of (map (\<lambda>(k, x). (k, f k x)) g) t = map_option (f t) (map_of g t)"
  by (induction g) auto

lemma neighbours_ensure [simp]: "neighbours (ensure_type t g) u = neighbours g u"
  by (auto simp: neighbours_def ensure_type_def map_add_def split: option.split)

lemma adjacent_add: "adjacent (add_neighbour t a g) u v \<longleftrightarrow> adjacent g u v \<or> u = t \<and> v = a"
proof -
  have "map_of (add_neighbour t a g) u = map_option (\<lambda>ns. if u = t \<and> a \<notin> set ns then ns @ [a] else ns)
      (map_of (ensure_type t g) u)"
    unfolding add_neighbour_def by (rule map_of_map_values)
  moreover have "map_of (ensure_type t g) t \<noteq> None"
    by (auto simp: ensure_type_def map_add_def split: option.split)
  moreover have "adjacent g u v \<longleftrightarrow> v \<in> set (neighbours (ensure_type t g) u)" by (simp add: adjacent_def)
  ultimately show ?thesis by (auto simp: adjacent_def neighbours_def split: option.splits)
qed

lemma adjacent_add_type:
  "adjacent (add_type pt g) u v \<longleftrightarrow> adjacent g u v \<or> aliased [pt] u v"
proof -
  have "adjacent (fold (\<lambda>a g. add_neighbour a n (add_neighbour n a g)) as g) u v \<longleftrightarrow>
      adjacent g u v \<or> n = u \<and> v \<in> set as \<or> n = v \<and> u \<in> set as" for as n g
    by (induction as arbitrary: g) (auto simp: adjacent_add)
  moreover have "adjacent (ensure_type n g) u v \<longleftrightarrow> adjacent g u v" for n g by (simp add: adjacent_def)
  ultimately show ?thesis by (simp add: add_type_def aliased_def)
qed

lemma adjacent_edges: "adjacent (alias_edges pts) u v \<longleftrightarrow> aliased pts u v"
proof -
  have "adjacent (fold add_type pts g) u v \<longleftrightarrow> adjacent g u v \<or> aliased pts u v" for g
    by (induction pts arbitrary: g) (auto simp: adjacent_add_type aliased_def)
  then show ?thesis by (simp add: alias_edges_def adjacent_def neighbours_def)
qed

lemma aliased_sym: "aliased pts u v \<longleftrightarrow> aliased pts v u"
  by (auto simp: aliased_def)

lemma keys_add: "set (map fst (add_neighbour t a g)) = insert t (set (map fst g))"
  by (auto simp: add_neighbour_def ensure_type_def split_beta image_image map_of_eq_None_iff)

lemma keys_edges:
  "set (map fst (alias_edges pts)) = pt_name ` set pts \<union> (\<Union>pt \<in> set pts. set (pt_aliases pt))"
proof -
  have one: "set (map fst (fold (\<lambda>a g. add_neighbour a n (add_neighbour n a g)) as g)) =
      set (map fst g) \<union> (if as = [] then {} else insert n (set as))" for as n g
    by (induction as arbitrary: g) (auto simp: keys_add simp del: set_map)
  have ens: "set (map fst (ensure_type n g)) = insert n (set (map fst g))" for n g
    by (auto simp: ensure_type_def map_of_eq_None_iff image_iff)
  have "set (map fst (add_type pt g)) = set (map fst g) \<union> insert (pt_name pt) (set (pt_aliases pt))" for pt g
    unfolding add_type_def one ens by auto
  then have "set (map fst (fold add_type pts g)) =
      set (map fst g) \<union> pt_name ` set pts \<union> (\<Union>pt \<in> set pts. set (pt_aliases pt))" for g
    by (induction pts arbitrary: g) (auto simp del: set_map)
  then show ?thesis by (simp add: alias_edges_def)
qed

section \<open>A rejected pack has a cycle\<close>

text \<open>A closed walk that repeats no type but its first: a type that is its own alias, or at least
  three types.\<close>

definition alias_cycle :: "alias_graph \<Rightarrow> string list \<Rightarrow> bool" where
  "alias_cycle g c = (successively (adjacent g) c \<and> 2 \<le> length c \<and> hd c = last c \<and> distinct (butlast c) \<and>
     (length c = 2 \<or> 4 \<le> length c))"

lemma back_edge_cycle:
  assumes walk: "successively (adjacent g) path" "distinct path" and edge: "adjacent g (last path) nxt"
    and bk: "back_edge path nxt"
  shows "alias_cycle g (cycle_from path nxt)"
proof -
  from bk obtain xs ys where path: "path = xs @ nxt # ys" "nxt \<notin> set xs"
    by (metis back_edge_def split_list_first)
  have c: "cycle_from path nxt = nxt # ys @ [nxt]"
    unfolding cycle_from_def path(1) using path(2) by (subst dropWhile_append2) auto
  have "successively (adjacent g) (nxt # ys)" using walk(1) path(1) by (simp add: successively_append_iff)
  moreover have "last path = last (nxt # ys)" using path(1) by simp
  ultimately have "successively (adjacent g) (nxt # ys @ [nxt])"
    using edge successively_append_iff [of "adjacent g" "nxt # ys" "[nxt]"] by simp
  moreover have "distinct (nxt # ys)" using walk(2) path(1) by simp
  moreover have "length ys \<noteq> 1"
  proof
    assume "length ys = 1"
    then obtain y where "ys = [y]" by (cases ys) auto
    then have "path ! (length path - 2) = nxt" using path(1) by (simp add: nth_append)
    with bk show False by (simp add: back_edge_def)
  qed
  then have "length ys = 0 \<or> 2 \<le> length ys" by linarith
  ultimately show ?thesis unfolding c by (auto simp: alias_cycle_def butlast_append)
qed

lemma visit_cycle:
  assumes "visit g ns path black = Inl c" and "successively (adjacent g) path" "distinct path"
    and "path \<noteq> [] \<Longrightarrow> set ns \<subseteq> set (neighbours g (last path))"
  shows "alias_cycle g c"
  using assms
proof (induction g ns path black rule: visit.induct)
  case (2 g nxt ns path black)
  have edge: "adjacent g (last path) nxt" if "path \<noteq> []" using 2 that by (simp add: adjacent_def)
  show ?case
  proof (cases "back_edge path nxt")
    case True
    then have "path \<noteq> []" by (auto simp: back_edge_def)
    then show ?thesis using back_edge_cycle [OF 2(5,6) edge True] 2(4) True by simp
  next
    case no: False
    show ?thesis
    proof (cases "nxt \<notin> set path \<and> nxt \<notin> set black")
      case new: True
      have walk: "successively (adjacent g) (path @ [nxt])" "distinct (path @ [nxt])"
        using 2(5,6) new edge by (auto simp: successively_append_iff)
      show ?thesis
      proof (cases "visit g (neighbours g nxt) (path @ [nxt]) black")
        case (Inl c')
        with 2(4) no new have "c' = c" by simp
        with Inl show ?thesis using 2(1) [OF no new] walk by simp
      next
        case (Inr b)
        with 2(4) no new have "visit g ns path (b @ [nxt]) = Inl c" by simp
        with 2(2) [OF no new Inr] 2(5-7) show ?thesis by simp
      qed
    next
      case False
      with 2(4) no have "visit g ns path black = Inl c" by auto
      with 2(3) [OF no False] 2(5-7) show ?thesis by simp
    qed
  qed
qed simp

section \<open>An accepted pack is a forest\<close>

text \<open>An elimination order: when a type is finished, at most one of its neighbours, itself apart, is
  not finished yet.\<close>

fun elimination :: "alias_graph \<Rightarrow> string list \<Rightarrow> bool" where
  "elimination g [] = True"
| "elimination g (u # earlier) =
     (elimination g earlier \<and> (\<exists>p. set (neighbours g u) \<subseteq> set earlier \<union> {u, p}))"

lemma visit_done:
  assumes "visit g ns path black = Inr b"
    and "distinct black" "set black \<inter> set path = {}" "elimination g (rev black)"
  shows "distinct b \<and> set b \<inter> set path = {} \<and> elimination g (rev b) \<and> set black \<subseteq> set b \<and>
    set ns \<subseteq> set path \<union> set b \<and> set b \<subseteq> set black \<union> universe g ns \<and> (\<forall>n \<in> set ns. \<not> back_edge path n)"
  using assms
proof (induction g ns path black arbitrary: b rule: visit.induct)
  case (2 g nxt ns path black)
  have no: "\<not> back_edge path nxt" using 2(4) by (auto split: if_splits)
  show ?case
  proof (cases "nxt \<notin> set path \<and> nxt \<notin> set black")
    case new: True
    with 2(4) no obtain b1 where b1: "visit g (neighbours g nxt) (path @ [nxt]) black = Inr b1"
      and b: "visit g ns path (b1 @ [nxt]) = Inr b" by (auto split: sum.splits)
    have "set black \<inter> set (path @ [nxt]) = {}" using 2(6) new by auto
    from 2(1) [OF no new b1 2(5) this 2(7)]
    have in1: "distinct b1" "set b1 \<inter> set (path @ [nxt]) = {}" "elimination g (rev b1)" "set black \<subseteq> set b1"
      "set (neighbours g nxt) \<subseteq> set (path @ [nxt]) \<union> set b1" "set b1 \<subseteq> set black \<union> universe g (neighbours g nxt)"
      "\<And>n. n \<in> set (neighbours g nxt) \<Longrightarrow> \<not> back_edge (path @ [nxt]) n"
      by blast+
    have "n \<in> set b1 \<union> {nxt, last path}" if n: "n \<in> set (neighbours g nxt)" for n
    proof (cases "n \<in> set path")
      case True
      then have "path \<noteq> []" by auto
      then have "(path @ [nxt]) ! (length (path @ [nxt]) - 2) = last path"
        by (simp add: nth_append last_conv_nth)
      with in1(7) [OF n] True \<open>path \<noteq> []\<close> show ?thesis by (auto simp: back_edge_def Suc_le_eq)
    next
      case False
      with in1(5) n show ?thesis by auto
    qed
    then have "elimination g (rev (b1 @ [nxt]))" using in1(3) by auto
    moreover have "distinct (b1 @ [nxt])" "set (b1 @ [nxt]) \<inter> set path = {}" using in1(1,2) new by auto
    ultimately have rest: "distinct b" "set b \<inter> set path = {}" "elimination g (rev b)" "set (b1 @ [nxt]) \<subseteq> set b"
      "set ns \<subseteq> set path \<union> set b" "set b \<subseteq> set (b1 @ [nxt]) \<union> universe g ns" "\<forall>n \<in> set ns. \<not> back_edge path n"
      using 2(2) [OF no new b1 b] by blast+
    have "universe g (neighbours g nxt) \<subseteq> universe g (nxt # ns)" "universe g ns \<subseteq> universe g (nxt # ns)"
      "nxt \<in> universe g (nxt # ns)"
      using neighbours_universe [of g nxt "[]"] by (auto simp: universe_def)
    then have "set b \<subseteq> set black \<union> universe g (nxt # ns)" using rest(6) in1(6) by fastforce
    moreover have "set black \<subseteq> set b" "nxt \<in> set b" using rest(4) in1(4) by auto
    ultimately show ?thesis using rest(1-3,5,7) no by simp
  next
    case False
    with 2(4) no have "visit g ns path black = Inr b" by auto
    from 2(3) [OF no False this 2(5-7)] False no show ?thesis by (auto simp: universe_def)
  qed
qed (auto simp: universe_def)

lemma elimination_nth:
  assumes "elimination g (rev b)" and "b = xs @ u # ys"
  shows "\<exists>p. set (neighbours g u) \<subseteq> set xs \<union> {u, p}"
proof -
  have "elimination g (zs @ u # rev xs) \<Longrightarrow> ?thesis" for zs
    by (induction zs) auto
  then show ?thesis using assms by simp
qed

text \<open>Every type on a cycle of at least three has two different neighbours on it.\<close>

lemma cycle_neighbours:
  assumes cyc: "alias_cycle g c" "4 \<le> length c" and u: "u \<in> set c"
    and sym: "\<And>x y. adjacent g x y \<Longrightarrow> adjacent g y x"
  shows "\<exists>v w. v \<in> set c \<and> w \<in> set c \<and> v \<noteq> w \<and> v \<noteq> u \<and> w \<noteq> u \<and> adjacent g u v \<and> adjacent g u w"
proof -
  define k where "k = length c - 1"
  have k: "3 \<le> k" "length c = Suc k" using cyc(2) by (simp_all add: k_def)
  have step: "adjacent g (c ! i) (c ! Suc i)" if "i < k" for i
    using cyc(1) that k by (simp add: alias_cycle_def successively_conv_nth)
  have close: "c ! k = c ! 0"
    using cyc(1) k by (metis alias_cycle_def diff_Suc_1 hd_conv_nth last_conv_nth length_0_conv nat.distinct(1))
  have inj: "c ! i = c ! j \<longleftrightarrow> i = j" if "i < k" "j < k" for i j
    using cyc(1) that k nth_eq_iff_index_eq [of "butlast c" i j] by (simp add: alias_cycle_def nth_butlast)
  have mem: "c ! i \<in> set c" if "i \<le> k" for i using that k by simp
  obtain i where i: "i < k" "u = c ! i"
    using u k close by (metis in_set_conv_nth less_Suc_eq less_le_trans zero_less_numeral)
  show ?thesis
  proof (cases "i = 0")
    case True
    have "adjacent g (c ! 0) (c ! (k - 1))" using step [of "k - 1"] k close sym by simp
    moreover have "adjacent g (c ! 0) (c ! 1)" using step [of 0] k by simp
    moreover have "c ! 1 \<noteq> c ! (k - 1)" "c ! 1 \<noteq> c ! 0" "c ! (k - 1) \<noteq> c ! 0"
      using k inj [of 1 "k - 1"] inj [of 1 0] inj [of "k - 1" 0] by simp_all
    moreover have "c ! 1 \<in> set c" "c ! (k - 1) \<in> set c" using mem k by simp_all
    ultimately show ?thesis unfolding i(2) True by blast
  next
    case False
    define j where "j = (if Suc i = k then 0 else Suc i)"
    have j: "j < k" "j \<noteq> i" "j \<noteq> i - 1" using i False k by (auto simp: j_def)
    have "adjacent g (c ! i) (c ! j)" using step [OF i(1)] close by (auto simp: j_def)
    moreover have "adjacent g (c ! i) (c ! (i - 1))" using step [of "i - 1"] i False sym by simp
    moreover have "c ! j \<noteq> c ! (i - 1)" "c ! j \<noteq> c ! i" "c ! (i - 1) \<noteq> c ! i"
      using inj [of j "i - 1"] inj [of j i] inj [of "i - 1" i] i j False by auto
    moreover have "c ! j \<in> set c" "c ! (i - 1) \<in> set c" using mem i j by simp_all
    ultimately show ?thesis unfolding i(2) by blast
  qed
qed

lemma elimination_acyclic:
  assumes elim: "elimination g (rev b)" "distinct b" "set (map fst g) \<subseteq> set b"
    and sym: "\<And>x y. adjacent g x y \<Longrightarrow> adjacent g y x"
    and cyc: "alias_cycle g c" "4 \<le> length c"
  shows False
proof -
  have mem: "u \<in> set b" if "u \<in> set c" for u
  proof -
    from cycle_neighbours [OF cyc that sym] obtain v where "adjacent g u v" by blast
    then have "map_of g u \<noteq> None" by (cases "map_of g u") (simp_all add: adjacent_def neighbours_def)
    then have "u \<in> fst ` set g" by (simp add: map_of_eq_None_iff)
    then show ?thesis using elim(3) by auto
  qed
  have "c \<noteq> []" using cyc(2) by auto
  then have "\<exists>x \<in> set b. x \<in> set c" using mem by (cases c) auto
  then obtain xs u ys where b: "b = xs @ u # ys" "u \<in> set c" "\<forall>x \<in> set xs. x \<notin> set c"
    using split_list_first_prop [of b "\<lambda>x. x \<in> set c"] by blast
  from elimination_nth [OF elim(1) b(1)] obtain p where p: "set (neighbours g u) \<subseteq> set xs \<union> {u, p}" by blast
  from cycle_neighbours [OF cyc b(2) sym] obtain v w where "v \<in> set c" "w \<in> set c" "v \<noteq> w" "v \<noteq> u" "w \<noteq> u"
    "adjacent g u v" "adjacent g u w" by metis
  moreover from this have "v \<in> set xs \<union> {u, p}" "w \<in> set xs \<union> {u, p}"
    using p by (auto simp: adjacent_def)
  ultimately show False using b(3) by blast
qed

section \<open>What loading a pack decides\<close>

lemma adjacent_edges_sym: "adjacent (alias_edges pts) u v \<Longrightarrow> adjacent (alias_edges pts) v u"
  by (simp add: adjacent_edges aliased_sym)

lemma distinct_ensure: "distinct (map fst g) \<Longrightarrow> distinct (map fst (ensure_type t g))"
  by (auto simp: ensure_type_def map_of_eq_None_iff)

lemma distinct_add: "distinct (map fst g) \<Longrightarrow> distinct (map fst (add_neighbour t a g))"
  using distinct_ensure [of g t] by (simp add: add_neighbour_def split_beta comp_def)

lemma distinct_edges: "distinct (map fst (alias_edges pts))"
proof -
  have "distinct (map fst g) \<Longrightarrow> distinct (map fst (fold (\<lambda>a g. add_neighbour a n (add_neighbour n a g)) as g))"
    for n as g by (induction as arbitrary: g) (auto intro: distinct_add)
  then have "distinct (map fst g) \<Longrightarrow> distinct (map fst (add_type pt g))" for pt g
    using distinct_ensure by (simp add: add_type_def)
  then have "distinct (map fst g) \<Longrightarrow> distinct (map fst (fold add_type pts g))" for g
    by (induction pts arbitrary: g) auto
  then show ?thesis by (simp add: alias_edges_def)
qed

lemma universe_edges: "universe (alias_edges pts) (map fst (alias_edges pts)) = set (map fst (alias_edges pts))"
proof -
  have "u \<in> set (map fst (alias_edges pts))" if "(k, ms) \<in> set (alias_edges pts)" "u \<in> set ms" for k ms u
  proof -
    have "map_of (alias_edges pts) k = Some ms" using that(1) distinct_edges by simp
    then have "aliased pts k u" using that(2) by (simp add: adjacent_edges [symmetric] adjacent_def neighbours_def)
    then show ?thesis unfolding keys_edges by (auto simp: aliased_def)
  qed
  then show ?thesis by (auto simp: universe_def)
qed

text \<open>The cycle search of a pack visits every type the pack names exactly once: when it accepts,
  its order of finished types has no repetition and is the types declared or used as an alias. (The
  model of the recursive search is a total function, by the number of white types.)\<close>

theorem cycle_search_visits_once:
  assumes "detectCycles (alias_edges pts) = Inr order"
  shows "distinct order \<and> set order = pt_name ` set pts \<union> (\<Union>pt \<in> set pts. set (pt_aliases pt)) \<and>
    length order = card (pt_name ` set pts \<union> (\<Union>pt \<in> set pts. set (pt_aliases pt)))"
proof -
  from visit_done [OF assms [unfolded detectCycles_def]]
  have "distinct order" "set (map fst (alias_edges pts)) \<subseteq> set order"
    "set order \<subseteq> universe (alias_edges pts) (map fst (alias_edges pts))"
    by simp_all
  moreover from this have "set order = set (map fst (alias_edges pts))" using universe_edges [of pts] by blast
  ultimately show ?thesis unfolding keys_edges using distinct_card [of order] by simp
qed

theorem cycle_search_visits_once_witness:
  "detectCycles (alias_edges [\<lparr>pt_name = ''r'', pt_aliases = [''p'']\<rparr>, \<lparr>pt_name = ''x'', pt_aliases = []\<rparr>]) =
     Inr [''p'', ''r'', ''x''] \<and>
   length [''p'', ''r'', ''x''] = card (pt_name ` set [\<lparr>pt_name = ''r'', pt_aliases = [''p'']\<rparr>, \<lparr>pt_name = ''x'', pt_aliases = []\<rparr>] \<union>
     (\<Union>pt \<in> set [\<lparr>pt_name = ''r'', pt_aliases = [''p'']\<rparr>, \<lparr>pt_name = ''x'', pt_aliases = []\<rparr>]. set (pt_aliases pt)))"
proof -
  have run: "detectCycles (alias_edges [\<lparr>pt_name = ''r'', pt_aliases = [''p'']\<rparr>, \<lparr>pt_name = ''x'', pt_aliases = []\<rparr>]) =
     Inr [''p'', ''r'', ''x'']" by code_simp
  show ?thesis using cycle_search_visits_once [OF run] run by simp
qed

text \<open>A closed walk along the declarations, in either direction, through at least three types and
  none of them twice.\<close>

definition alias_loop :: "pack_type list \<Rightarrow> string list \<Rightarrow> bool" where
  "alias_loop pts c = (successively (aliased pts) c \<and> 4 \<le> length c \<and> hd c = last c \<and> distinct (butlast c))"

lemma alias_loop_cycle: "alias_loop pts c \<longleftrightarrow> alias_cycle (alias_edges pts) c \<and> 4 \<le> length c"
proof -
  have "adjacent (alias_edges pts) = aliased pts" by (intro ext) (rule adjacent_edges)
  then show ?thesis by (auto simp: alias_loop_def alias_cycle_def)
qed

lemma no_self_edge:
  assumes "\<forall>pt \<in> set pts. pt_name pt \<notin> set (pt_aliases pt)" and "alias_cycle (alias_edges pts) c"
  shows "4 \<le> length c"
proof (rule ccontr)
  assume "\<not> 4 \<le> length c"
  with assms(2) have "length c = 2" by (simp add: alias_cycle_def)
  then obtain u v where "c = [u, v]" by (auto simp: length_Suc_conv numeral_2_eq_2)
  with assms(2) have "aliased pts u u" by (auto simp: alias_cycle_def adjacent_edges)
  with assms(1) show False by (auto simp: aliased_def)
qed

text \<open>C39: a pack in which no type is its own alias is refused only with a cycle of its alias relation,
  of at least three types, and the path of the error is that cycle; it is accepted only when the
  relation has no such cycle, and then the graph is the symmetric closure of the declarations.\<close>

theorem alias_graph_accepts_forests:
  assumes "\<forall>pt \<in> set pts. pt_name pt \<notin> set (pt_aliases pt)"
  shows "case buildAliasGraph pts of
      Inl (AliasCycleError c) \<Rightarrow> alias_loop pts c
    | Inr g \<Rightarrow> (\<nexists>c. alias_loop pts c) \<and> (\<forall>u v. v \<in> set (neighbours g u) \<longleftrightarrow> aliased pts u v)"
proof (cases "detectCycles (alias_edges pts)")
  case (Inl c)
  then have "alias_cycle (alias_edges pts) c"
    using visit_cycle [of "alias_edges pts" _ "[]" "[]" c] by (simp add: detectCycles_def)
  with no_self_edge [OF assms] have "alias_loop pts c" by (simp add: alias_loop_cycle)
  with Inl show ?thesis by (simp add: buildAliasGraph_def)
next
  case (Inr order)
  from visit_done [OF Inr [unfolded detectCycles_def]]
  have order: "elimination (alias_edges pts) (rev order)" "distinct order"
    "set (map fst (alias_edges pts)) \<subseteq> set order" by simp_all
  have "\<not> alias_loop pts c" for c
    using elimination_acyclic [OF order adjacent_edges_sym] by (auto simp: alias_loop_cycle)
  with Inr show ?thesis
    by (simp add: buildAliasGraph_def adjacent_edges [symmetric] adjacent_def)
qed

theorem alias_graph_accepts_forests_witness:
  "alias_loop [\<lparr>pt_name = ''a'', pt_aliases = [''b'', ''c'']\<rparr>, \<lparr>pt_name = ''b'', pt_aliases = [''c'']\<rparr>]
     [''a'', ''b'', ''c'', ''a'']"
proof -
  have "buildAliasGraph [\<lparr>pt_name = ''a'', pt_aliases = [''b'', ''c'']\<rparr>, \<lparr>pt_name = ''b'', pt_aliases = [''c'']\<rparr>] =
      Inl (AliasCycleError [''a'', ''b'', ''c'', ''a''])" by code_simp
  then show ?thesis
    using alias_graph_accepts_forests [of "[\<lparr>pt_name = ''a'', pt_aliases = [''b'', ''c'']\<rparr>, \<lparr>pt_name = ''b'', pt_aliases = [''c'']\<rparr>]"]
    by simp
qed

text \<open>Whether a type that lists itself as an alias is refused depends on the order of the
  declarations: the same two types are accepted in one order and refused as a cycle in the other,
  because the self edge is only seen when the search reaches the type from another one.\<close>

theorem self_alias_depends_on_order:
  "buildAliasGraph [\<lparr>pt_name = ''a'', pt_aliases = [''a'', ''b'']\<rparr>, \<lparr>pt_name = ''b'', pt_aliases = []\<rparr>] =
     Inr [(''a'', [''a'', ''b'']), (''b'', [''a''])] \<and>
   buildAliasGraph [\<lparr>pt_name = ''b'', pt_aliases = []\<rparr>, \<lparr>pt_name = ''a'', pt_aliases = [''a'', ''b'']\<rparr>] =
     Inl (AliasCycleError [''a'', ''a''])"
  by (rule conjI; code_simp)

section \<open>The closure is a ball\<close>

definition within :: "alias_graph \<Rightarrow> nat \<Rightarrow> string \<Rightarrow> string set" where
  "within g n u = {v. \<exists>k \<le> n. (u, v) \<in> {(x, y). adjacent g x y} ^^ k}"

definition reach :: "alias_graph \<Rightarrow> string set \<Rightarrow> string set" where
  "reach g V = V \<union> (\<Union>u \<in> V. set (neighbours g u))"

lemma within_0: "within g 0 u = {u}"
  by (simp add: within_def)

lemma within_Suc: "within g (Suc n) u = reach g (within g n u)"
proof -
  have "v \<in> within g (Suc n) u \<longleftrightarrow> v \<in> within g n u \<or> (\<exists>w \<in> within g n u. adjacent g w v)" for v
  proof
    assume "v \<in> within g (Suc n) u"
    then obtain k where k: "k \<le> Suc n" "(u, v) \<in> {(x, y). adjacent g x y} ^^ k" by (auto simp: within_def)
    show "v \<in> within g n u \<or> (\<exists>w \<in> within g n u. adjacent g w v)"
    proof (cases k)
      case 0
      then show ?thesis using k by (auto simp: within_def)
    next
      case (Suc m)
      with k obtain w where "(u, w) \<in> {(x, y). adjacent g x y} ^^ m" "adjacent g w v" by auto
      with k Suc show ?thesis by (auto simp: within_def)
    qed
  next
    assume "v \<in> within g n u \<or> (\<exists>w \<in> within g n u. adjacent g w v)"
    then show "v \<in> within g (Suc n) u"
    proof
      assume "v \<in> within g n u"
      then show ?thesis by (auto simp: within_def intro: le_SucI)
    next
      assume "\<exists>w \<in> within g n u. adjacent g w v"
      then obtain w k where "k \<le> n" "(u, w) \<in> {(x, y). adjacent g x y} ^^ k" "adjacent g w v"
        by (auto simp: within_def)
      then show ?thesis by (auto simp: within_def intro!: exI [of _ "Suc k"])
    qed
  qed
  then show ?thesis by (auto simp: reach_def adjacent_def)
qed

text \<open>What a round starts from: only the frontier can have a neighbour not visited yet.\<close>

definition bfs_ok :: "alias_graph \<Rightarrow> string list \<Rightarrow> string list \<Rightarrow> bool" where
  "bfs_ok g visited frontier = (distinct visited \<and> set frontier \<subseteq> set visited \<and>
     reach g (set visited - set frontier) \<subseteq> set visited)"

lemma bfs_ok_reach:
  assumes "bfs_ok g v f" shows "reach g (set v) = set v \<union> (\<Union>u \<in> set f. set (neighbours g u))"
proof -
  have "set (neighbours g u) \<subseteq> set v" if "u \<in> set v" "u \<notin> set f" for u
    using assms that by (auto simp: bfs_ok_def reach_def)
  then show ?thesis using assms unfolding bfs_ok_def reach_def by blast
qed

lemma bfs_add_fold:
  "fold bfs_add ns (v, f) = (v', f') \<Longrightarrow> distinct v \<Longrightarrow>
     distinct v' \<and> set v' = set v \<union> set ns \<and> set f' = set f \<union> (set ns - set v)"
  by (induction ns arbitrary: v f) (fastforce simp: bfs_add_def split: if_splits)+

lemma bfs_round_spec:
  assumes "bfs_round g v f = (v', f')" "distinct v"
  shows "distinct v' \<and> set v' = set v \<union> (\<Union>u \<in> set f. set (neighbours g u)) \<and> set f' = set v' - set v"
proof -
  have "fold (\<lambda>t. fold bfs_add (neighbours g t)) ts (w, n) = (w', n') \<Longrightarrow> distinct w \<Longrightarrow> set n = set w - set v \<Longrightarrow>
      set v \<subseteq> set w \<Longrightarrow>
      distinct w' \<and> set w' = set w \<union> (\<Union>u \<in> set ts. set (neighbours g u)) \<and> set n' = set w' - set v" for ts w n w' n'
  proof (induction ts arbitrary: w n)
    case (Cons t ts)
    obtain w1 n1 where one: "fold bfs_add (neighbours g t) (w, n) = (w1, n1)" by fastforce
    from bfs_add_fold [OF one Cons.prems(2)] have s: "distinct w1" "set w1 = set w \<union> set (neighbours g t)"
      "set n1 = set n \<union> (set (neighbours g t) - set w)" by auto
    have "set n1 = set w1 - set v" "set v \<subseteq> set w1" using s(2,3) Cons.prems(3,4) by auto
    with Cons.IH [OF _ s(1)] Cons.prems(1) one s(2) show ?case by auto
  qed simp
  from this [of f v "[]" v' f'] assms show ?thesis by (simp add: bfs_round_def)
qed

lemma bfs_loop_spec:
  "bfs_loop g n v f = (v', f') \<Longrightarrow> bfs_ok g v f \<Longrightarrow> set v = within g m u \<Longrightarrow>
     bfs_ok g v' f' \<and> set v' = within g (m + n) u"
proof (induction g n v f arbitrary: m rule: bfs_loop.induct)
  case (2 g n v f)
  show ?case
  proof (cases "f = []")
    case True
    then have fix1: "reach g (set v) = set v" using bfs_ok_reach [OF 2(3)] by simp
    have "within g (m + k) u = set v" for k
    proof (induction k)
      case (Suc k)
      then show ?case using within_Suc [of g "m + k" u] fix1 by simp
    qed (simp add: 2(4))
    from this [of "Suc n"] True 2(2-4) show ?thesis by simp
  next
    case False
    obtain v1 f1 where round: "bfs_round g v f = (v1, f1)" by fastforce
    from bfs_round_spec [OF this] 2(3)
    have s: "distinct v1" "set v1 = set v \<union> (\<Union>u \<in> set f. set (neighbours g u))" "set f1 = set v1 - set v"
      by (auto simp: bfs_ok_def)
    have reach: "set v1 = reach g (set v)" using s(2) bfs_ok_reach [OF 2(3)] by simp
    have "set v1 - set f1 = set v" using s(2,3) by auto
    with reach s have "bfs_ok g v1 f1" by (auto simp: bfs_ok_def)
    moreover have "set v1 = within g (Suc m) u" using reach 2(4) by (simp add: within_Suc)
    ultimately show ?thesis using 2(1) [OF False round [symmetric], of "Suc m"] 2(2) False round by simp
  qed
qed simp

lemma closure_loop:
  obtains v f where "bfs_loop g 4 [q] [q] = (v, f)" "bfs_ok g v f" "set v = within g 4 q"
proof -
  obtain v f where vf: "bfs_loop g 4 [q] [q] = (v, f)" by fastforce
  have "bfs_ok g [q] [q]" by (simp add: bfs_ok_def reach_def)
  from bfs_loop_spec [OF vf this, of 0 q] that [OF vf] show ?thesis by (simp add: within_0)
qed

lemma mem_expandClosure: "set (expandClosure q g) = within g 4 q"
  using closure_loop [of g q] by (metis expandClosure_def ALIAS_CLOSURE_MAX_DEPTH_def fst_conv set_sort)

lemma depthExceeded_iff: "depthExceeded q g \<longleftrightarrow> within g 5 q \<noteq> within g 4 q"
proof -
  obtain v f where vf: "bfs_loop g 4 [q] [q] = (v, f)" "bfs_ok g v f" "set v = within g 4 q"
    by (rule closure_loop)
  note bfs_ok_reach [OF vf(2)]
  moreover have "within g 5 q = reach g (set v)" using within_Suc [of g 4 q] vf(3) by simp
  ultimately show ?thesis using vf(1,3)
    by (auto simp: depthExceeded_def ALIAS_CLOSURE_MAX_DEPTH_def filter_empty_conv)
qed

text \<open>The types a query is expanded to are, sorted and without repetition, those at most four
  alias steps from its type; the depth warning fires exactly when some type is five steps away and
  no fewer. In the graph of a pack the expansion is symmetric: \<open>u\<close> is searched with \<open>v\<close> when \<open>v\<close> is
  searched with \<open>u\<close>.\<close>

theorem closure_is_ball:
  "sorted (expandClosure q g) \<and> distinct (expandClosure q g) \<and>
   (v \<in> set (expandClosure q g) \<longleftrightarrow> (\<exists>k \<le> 4. (q, v) \<in> {(x, y). y \<in> set (neighbours g x)} ^^ k)) \<and>
   (depthExceeded q g \<longleftrightarrow> within g 5 q \<noteq> within g 4 q) \<and>
   (u \<in> set (expandClosure v (alias_edges pts)) \<longleftrightarrow> v \<in> set (expandClosure u (alias_edges pts)))"
proof -
  have "distinct (expandClosure q g)"
    using closure_loop [of g q]
    by (metis expandClosure_def ALIAS_CLOSURE_MAX_DEPTH_def fst_conv distinct_sort bfs_ok_def)
  moreover have "sorted (expandClosure q g)" by (simp add: expandClosure_def)
  moreover have "u \<in> within (alias_edges pts) 4 v \<longleftrightarrow> v \<in> within (alias_edges pts) 4 u"
  proof -
    let ?R = "{(x, y). adjacent (alias_edges pts) x y}"
    have "(x, y) \<in> ?R ^^ k \<Longrightarrow> (y, x) \<in> ?R ^^ k" for x y k
    proof (induction k arbitrary: y)
      case (Suc k)
      then obtain z where "(x, z) \<in> ?R ^^ k" "(z, y) \<in> ?R" by auto
      with Suc.IH adjacent_edges_sym [of pts z y] have "(z, x) \<in> ?R ^^ k" "(y, z) \<in> ?R" by auto
      then show ?case by (blast intro: relpow_Suc_I2)
    qed auto
    then show ?thesis by (auto simp: within_def)
  qed
  ultimately show ?thesis
    by (auto simp: mem_expandClosure depthExceeded_iff within_def adjacent_def)
qed

end
