(* ===== verification/FenceText.thy ===== *)
theory FenceText
  imports Prelude Complex_Main "HOL-Library.Sublist"
begin

text \<open>
  What the two fenced tables of a page share: strings as lists of UTF-16 code units with the
  JavaScript string and number functions the parsers call, the row primitives of
  \<open>src/core/fence-shared.ts\<close>, the search for the markers, and the lemmas by which a rendered table
  is read back.
\<close>

named_theorems text_lits \<open>evaluation of text literals\<close>

section \<open>Strings of code units\<close>

type_synonym js_text = "nat list"

definition units :: "string \<Rightarrow> js_text" where
  [text_lits]: "units s = map of_char s"

text \<open>White space of \<open>trim\<close> and \<open>\s\<close>, and the characters \<open>.\<close> does not match.\<close>

definition u_space :: "nat \<Rightarrow> bool" where
  "u_space c = (c \<in> {9, 10, 11, 12, 13, 32, 160, 5760, 8232, 8233, 8239, 8287, 12288, 65279} \<or>
     8192 \<le> c \<and> c \<le> 8202)"

definition line_end :: "nat \<Rightarrow> bool" where
  "line_end c = (c \<in> {10, 13, 8232, 8233})"

definition u_trim :: "js_text \<Rightarrow> js_text" where
  "u_trim s = rev (dropWhile u_space (rev (dropWhile u_space s)))"

text \<open>\<open>toLowerCase\<close> as far as a comparison with ASCII words sees it: besides the ASCII capitals only
  the Kelvin sign has an ASCII lower case.\<close>

definition u_lower :: "js_text \<Rightarrow> js_text" where
  "u_lower s = map (\<lambda>c. if 65 \<le> c \<and> c \<le> 90 then c + 32 else if c = 8490 then 107 else c) s"

text \<open>\<open>indexOf(pat)\<close> for a non-empty pattern.\<close>

fun index_of :: "js_text \<Rightarrow> js_text \<Rightarrow> nat option" where
  "index_of pat [] = None"
| "index_of pat (c # cs) = (if prefix pat (c # cs) then Some 0 else map_option Suc (index_of pat cs))"

fun split_lines :: "js_text \<Rightarrow> js_text list" where
  "split_lines [] = [[]]"
| "split_lines (c # cs) =
     (if c = 10 then [] # split_lines cs
      else case split_lines cs of [] \<Rightarrow> [[c]] | l # ls \<Rightarrow> (c # l) # ls)"

fun join_lines :: "js_text list \<Rightarrow> js_text" where
  "join_lines [] = []"
| "join_lines [l] = l"
| "join_lines (l # ls) = l @ 10 # join_lines ls"

definition string_cell :: "js_text \<Rightarrow> js_text option" where
  "string_cell raw = (if u_trim raw = [] then None else Some (u_trim raw))"

definition high_surrogate :: "nat \<Rightarrow> bool" where
  "high_surrogate c = (55296 \<le> c \<and> c \<le> 56319)"

definition low_surrogate :: "nat \<Rightarrow> bool" where
  "low_surrogate c = (56320 \<le> c \<and> c \<le> 57343)"

text \<open>The code points a regular expression with the \<open>u\<close> flag sees.\<close>

fun code_points :: "js_text \<Rightarrow> nat list" where
  "code_points [] = []"
| "code_points [c] = [c]"
| "code_points (c # d # s) =
     (if high_surrogate c \<and> low_surrogate d then (65536 + (c - 55296) * 1024 + (d - 56320)) # code_points s
      else c # code_points (d # s))"

section \<open>Numbers\<close>

definition u_digit :: "nat \<Rightarrow> bool" where
  "u_digit c = (48 \<le> c \<and> c \<le> 57)"

definition dec_nat :: "js_text \<Rightarrow> nat" where
  "dec_nat s = foldl (\<lambda>a c. 10 * a + (c - 48)) 0 s"

text \<open>Values that round to a finite double.\<close>

definition finite_value :: "rat \<Rightarrow> bool" where
  "finite_value x = (\<bar>x\<bar> < 2 ^ 1024 - 2 ^ 970)"

definition signed :: "js_text \<Rightarrow> bool \<times> js_text" where
  "signed s = (case s of [] \<Rightarrow> (False, []) | c # r \<Rightarrow> if c = 45 then (True, r) else if c = 43 then (False, r) else (False, s))"

text \<open>\<open>parseInt(s, 10)\<close> and \<open>parseFloat(s)\<close>; \<open>None\<close> where the result is not finite.\<close>

definition u_parse_int :: "js_text \<Rightarrow> int option" where
  "u_parse_int s =
     (case signed (dropWhile u_space s) of (neg, u) \<Rightarrow>
        let ds = takeWhile u_digit u; n = int (dec_nat ds)
        in if ds = [] \<or> \<not> finite_value (of_int n) then None else Some (if neg then - n else n))"

definition exponent_of :: "js_text \<Rightarrow> int" where
  "exponent_of r =
     (case r of [] \<Rightarrow> 0
      | c # u \<Rightarrow>
          if c = 101 \<or> c = 69
          then (case signed u of (neg, ds) \<Rightarrow>
                  let n = int (dec_nat (takeWhile u_digit ds)) in if neg then - n else n)
          else 0)"

definition scale :: "rat \<Rightarrow> int \<Rightarrow> rat" where
  "scale x e = (if 0 \<le> e then x * 10 ^ nat e else x / 10 ^ nat (- e))"

definition u_parse_float :: "js_text \<Rightarrow> rat option" where
  "u_parse_float s =
     (case signed (dropWhile u_space s) of (neg, u) \<Rightarrow>
        let ip = takeWhile u_digit u;
            r1 = dropWhile u_digit u;
            dotted = (r1 \<noteq> [] \<and> hd r1 = 46);
            fp = (if dotted then takeWhile u_digit (tl r1) else []);
            r2 = (if dotted then dropWhile u_digit (tl r1) else r1);
            a = scale (of_nat (dec_nat (ip @ fp))) (exponent_of r2 - int (length fp));
            x = (if neg then - a else a)
        in if ip = [] \<and> fp = [] \<or> \<not> finite_value x then None else Some x)"

definition nat_text :: "nat \<Rightarrow> js_text" where
  "nat_text n = units (nat_str n)"

definition int_text :: "int \<Rightarrow> js_text" where
  "int_text i = (if i < 0 then 45 # nat_text (nat (- i)) else nat_text (nat i))"

definition is_int :: "rat \<Rightarrow> bool" where
  "is_int x = (of_int \<lfloor>x\<rfloor> = x)"

text \<open>A double is identified with the decimal it prints as; that has fewer than 400 places.\<close>

definition places :: "rat \<Rightarrow> nat" where
  "places x = (case find (\<lambda>k. is_int (x * 10 ^ k)) [0..<400] of None \<Rightarrow> 400 | Some k \<Rightarrow> k)"

text \<open>\<open>d.ddde+X\<close>, from the digits and the number of places behind the point.\<close>

definition exponent_text :: "js_text \<Rightarrow> nat \<Rightarrow> js_text" where
  "exponent_text ds k =
     (let sig = rev (dropWhile (\<lambda>c. c = 48) (rev ds)); e = int (length ds) - 1 - int k
      in hd sig # (if tl sig = [] then [] else 46 # tl sig) @ 101 # (if e < 0 then 45 else 43) # nat_text (nat \<bar>e\<bar>))"

text \<open>\<open>Number::toString\<close> of a number that is not negative, and of any finite number.\<close>

definition pos_text :: "rat \<Rightarrow> js_text" where
  "pos_text x =
     (let k = places x; m = nat \<lfloor>x * 10 ^ k\<rfloor>; frac = nat_text (m mod 10 ^ k)
      in if k = 0 then (if m < 10 ^ 21 then nat_text m else exponent_text (nat_text m) 0)
         else if 1 / 10 ^ 6 \<le> x
         then nat_text (m div 10 ^ k) @ 46 # replicate (k - length frac) 48 @ frac
         else exponent_text (nat_text m) k)"

definition num_text :: "rat \<Rightarrow> js_text" where
  "num_text x = (if x < 0 then 45 # pos_text (- x) else pos_text x)"

text \<open>\<open>formatWeight\<close> and \<open>formatConfidence\<close>: \<open>toFixed(1)\<close> for an integer, else \<open>toFixed(2)\<close> printed as a
  number again. \<open>toFixed\<close> rounds half up on the absolute value.\<close>

definition format_weight :: "rat \<Rightarrow> js_text" where
  "format_weight w =
     (if is_int w then (if \<bar>w\<bar> < 10 ^ 21 then int_text \<lfloor>w\<rfloor> @ [46, 48] else num_text w)
      else num_text (sgn w * of_int \<lfloor>\<bar>w\<bar> * 100 + 1 / 2\<rfloor> / 100))"

section \<open>Rows of a fenced table\<close>

function cell_loop :: "js_text \<Rightarrow> js_text \<Rightarrow> js_text list" where
  "cell_loop cur [] = [u_trim cur]"
| "cell_loop cur (c # cs) =
     (if c = 92 \<and> cs \<noteq> [] \<and> hd cs = 124 then cell_loop (cur @ [124]) (tl cs)
      else if c = 124 then u_trim cur # cell_loop [] cs
      else cell_loop (cur @ [c]) cs)"
  by pat_completeness auto

termination cell_loop
  by (relation "measure (\<lambda>(cur, cs). length cs)") auto

definition parseRowCells :: "js_text \<Rightarrow> js_text list option" where
  "parseRowCells line =
     (case u_trim line of
        [] \<Rightarrow> None
      | c # rest \<Rightarrow>
          if c = 124 \<and> 124 \<in> set rest
          then Some (cell_loop [] (if last rest = 124 then butlast rest else rest))
          else None)"

definition isSeparatorRow :: "js_text list \<Rightarrow> bool" where
  "isSeparatorRow cells =
     (cells \<noteq> [] \<and> list_all (\<lambda>c. c \<noteq> [] \<and> list_all (\<lambda>u. u = 45 \<or> u = 58 \<or> u_space u) c) cells)"

definition stripStrikethrough :: "js_text \<Rightarrow> js_text \<times> bool" where
  "stripStrikethrough s =
     (let mid = take (length s - 4) (drop 2 s)
      in if 5 \<le> length s \<and> take 2 s = [126, 126] \<and> drop (length s - 2) s = [126, 126] \<and>
           \<not> list_ex line_end mid
         then (u_trim mid, True) else (s, False))"

definition escapeFenceCell :: "js_text \<Rightarrow> js_text" where
  "escapeFenceCell s = concat (map (\<lambda>c. if c = 124 then [92, 124] else [c]) s)"

definition strike :: "bool \<Rightarrow> js_text \<Rightarrow> js_text" where
  "strike active s = (if active then s else [126, 126] @ s @ [126, 126])"

text \<open>\<open>| a | b | c |\<close>.\<close>

definition row_text :: "js_text list \<Rightarrow> js_text" where
  "row_text cells = 124 # concat (map (\<lambda>c. 32 # c @ [32, 124]) cells)"

section \<open>Markers\<close>

text \<open>\<open>indexOf\<close> of the begin marker, and of the end marker from the position the code computes,
  which is one less than the marker's length when there is no begin marker.\<close>

definition fence_bounds :: "js_text \<Rightarrow> js_text \<Rightarrow> js_text \<Rightarrow> nat option \<times> nat option" where
  "fence_bounds begin_mark end_mark body =
     (let b = index_of begin_mark body;
          start = (case b of None \<Rightarrow> length begin_mark - 1 | Some i \<Rightarrow> i + length begin_mark)
      in (b, map_option (\<lambda>e. start + e) (index_of end_mark (drop start body))))"

text \<open>The text between two offsets, and the body with the fence replaced.\<close>

definition slice :: "nat \<Rightarrow> nat \<Rightarrow> js_text \<Rightarrow> js_text" where
  "slice i j s = take (j - i) (drop i s)"

definition replace_fence :: "js_text \<Rightarrow> nat \<Rightarrow> nat \<Rightarrow> js_text \<Rightarrow> js_text \<Rightarrow> js_text" where
  "replace_fence body b e end_mark block = take b body @ block @ drop (e + length end_mark) body"

definition table_text :: "js_text \<Rightarrow> js_text \<Rightarrow> js_text list \<Rightarrow> js_text" where
  "table_text begin_mark end_mark table_lines = begin_mark @ join_lines ([] # [] # table_lines @ [[]]) @ end_mark"

section \<open>Trimming\<close>

lemma u_trim_Nil [simp]: "u_trim [] = []"
  by (simp add: u_trim_def)

lemma u_trim_id: "s = [] \<or> \<not> u_space (hd s) \<and> \<not> u_space (last s) \<Longrightarrow> u_trim s = s"
proof -
  assume "s = [] \<or> \<not> u_space (hd s) \<and> \<not> u_space (last s)"
  then have "dropWhile u_space s = s" "dropWhile u_space (rev s) = rev s"
    by (auto simp: dropWhile_eq_self_iff hd_rev)
  then show ?thesis by (simp add: u_trim_def)
qed

lemma u_trim_hd: "u_trim s \<noteq> [] \<Longrightarrow> \<not> u_space (hd (u_trim s))"
proof -
  assume ne: "u_trim s \<noteq> []"
  let ?d = "dropWhile u_space s"
  have "suffix (u_trim s) (rev (rev ?d)) \<or> prefix (u_trim s) ?d"
    by (metis suffix_dropWhile suffix_to_prefix u_trim_def rev_rev_ident)
  then have "prefix (u_trim s) ?d"
    by (metis suffix_dropWhile suffix_to_prefix u_trim_def rev_rev_ident)
  then obtain r where "?d = u_trim s @ r" by (auto simp: prefix_def)
  with ne have "hd ?d = hd (u_trim s)" "?d \<noteq> []" by auto
  with hd_dropWhile [of u_space s] show ?thesis by simp
qed

lemma u_trim_last: "u_trim s \<noteq> [] \<Longrightarrow> \<not> u_space (last (u_trim s))"
  using hd_dropWhile [of u_space "rev (dropWhile u_space s)"] by (simp add: u_trim_def last_rev)

lemma u_trim_idem [simp]: "u_trim (u_trim s) = u_trim s"
  using u_trim_id u_trim_hd u_trim_last by blast

lemma u_trim_pad [simp]: "u_trim (32 # s @ [32]) = u_trim s"
proof -
  have sp: "u_space 32" by (simp add: u_space_def)
  have "dropWhile u_space (rev (dropWhile u_space (s @ [32]))) = dropWhile u_space (rev (dropWhile u_space s))"
  proof (cases "\<forall>c \<in> set s. u_space c")
    case True
    then have "dropWhile u_space s = []" by simp
    with sp True show ?thesis by (simp only: dropWhile_append) simp
  next
    case False
    then show ?thesis using sp by (auto simp: dropWhile_append)
  qed
  then show ?thesis using sp by (simp add: u_trim_def)
qed

section \<open>Lines and markers\<close>

lemma split_lines_nonempty [simp]: "split_lines s \<noteq> []"
  by (induction s) (auto split: list.split)

lemma split_lines_append: "10 \<notin> set l \<Longrightarrow> split_lines (l @ 10 # s) = l # split_lines s"
  by (induction l) auto

lemma split_lines_single: "10 \<notin> set l \<Longrightarrow> split_lines l = [l]"
  by (induction l) auto

lemma split_join_lines:
  "ls \<noteq> [] \<Longrightarrow> list_all (\<lambda>l. 10 \<notin> set l) ls \<Longrightarrow> split_lines (join_lines ls) = ls"
  by (induction ls rule: join_lines.induct) (simp_all add: split_lines_append split_lines_single)

lemma index_of_None: "pat \<noteq> [] \<Longrightarrow> index_of pat s = None \<longleftrightarrow> \<not> sublist pat s"
  by (induction pat s rule: index_of.induct) (auto simp: sublist_Cons_right)

text \<open>A marker whose first character does not come again is found where it was put.\<close>

lemma index_of_found:
  assumes pat: "pat = p # ps" "p \<notin> set ps" and "\<not> sublist pat pre"
  shows "index_of pat (pre @ pat @ post) = Some (length pre)"
  using assms(3)
proof (induction pre)
  case Nil
  then show ?case using pat(1) by simp
next
  case (Cons c pre)
  have "\<not> prefix pat (c # pre @ pat @ post)"
  proof
    assume "prefix pat (c # pre @ pat @ post)"
    then have "prefix pat ((c # pre) @ pat @ post)" by simp
    then consider "prefix pat (c # pre)" | us where "pat = (c # pre) @ us" "prefix us (pat @ post)"
      unfolding prefix_append by blast
    then show False
    proof cases
      case 1
      with Cons.prems show False using prefix_imp_sublist by blast
    next
      case 2
      show False
      proof (cases us)
        case Nil
        with 2 Cons.prems show False by simp
      next
        case (Cons u vs)
        with 2(2) pat(1) have "u = p" by simp
        with Cons 2(1) pat show False by auto
      qed
    qed
  qed
  with Cons show ?case by (simp add: sublist_Cons_right)
qed

lemma index_of_Some:
  "index_of pat s = Some i \<Longrightarrow> \<exists>post. s = take i s @ pat @ post \<and> length (take i s) = i \<and> (pat \<noteq> [] \<longrightarrow> \<not> sublist pat (take i s))"
proof (induction pat s arbitrary: i rule: index_of.induct)
  case (2 pat c cs)
  show ?case
  proof (cases "prefix pat (c # cs)")
    case True
    with 2(2) show ?thesis by (auto simp: prefix_def)
  next
    case False
    with 2(2) obtain j where j: "i = Suc j" "index_of pat cs = Some j" by auto
    from 2(1) [OF False j(2)] obtain post where post: "cs = take j cs @ pat @ post" "length (take j cs) = j"
      "pat \<noteq> [] \<longrightarrow> \<not> sublist pat (take j cs)" by blast
    have "\<not> prefix pat (c # take j cs)"
    proof
      assume "prefix pat (c # take j cs)"
      from prefix_prefix [OF this, of "pat @ post"] have "prefix pat (c # take j cs @ pat @ post)" by simp
      with False post(1) show False by simp
    qed
    with post have "c # cs = take i (c # cs) @ pat @ post \<and> length (take i (c # cs)) = i \<and>
        (pat \<noteq> [] \<longrightarrow> \<not> sublist pat (take i (c # cs)))"
      unfolding j(1) take_Suc_Cons by (metis append_Cons length_Cons sublist_Cons_right)
    then show ?thesis by blast
  qed
qed simp

locale fence_markers =
  fixes begin_mark end_mark :: js_text
  assumes begin_border: "\<exists>p ps. begin_mark = p # ps \<and> p \<notin> set ps"
    and end_border: "\<exists>p ps. end_mark = p # ps \<and> p \<notin> set ps"
begin

lemma fence_found:
  assumes "\<not> sublist begin_mark pre" and "\<not> sublist end_mark inner"
  shows "fence_bounds begin_mark end_mark (pre @ begin_mark @ inner @ end_mark @ post) =
    (Some (length pre), Some (length pre + length begin_mark + length inner))"
proof -
  obtain p ps q qs where b: "begin_mark = p # ps" "p \<notin> set ps" and e: "end_mark = q # qs" "q \<notin> set qs"
    using begin_border end_border by blast
  show ?thesis
    unfolding fence_bounds_def index_of_found [OF b assms(1)]
    using index_of_found [OF e assms(2), of post] by simp
qed

lemma bounds_split:
  assumes "fence_bounds begin_mark end_mark body = (Some i, Some j)"
  obtains pre inner post where "body = pre @ begin_mark @ inner @ end_mark @ post" "length pre = i"
    "j = i + length begin_mark + length inner" "\<not> sublist begin_mark pre" "\<not> sublist end_mark inner"
proof -
  have ne: "begin_mark \<noteq> []" "end_mark \<noteq> []" using begin_border end_border by auto
  have b: "index_of begin_mark body = Some i" using assms by (simp add: fence_bounds_def Let_def)
  from index_of_Some [OF this] ne obtain rest where rest: "body = take i body @ begin_mark @ rest"
    "length (take i body) = i" "\<not> sublist begin_mark (take i body)" by blast
  have "drop (i + length begin_mark) body = drop (length (take i body @ begin_mark)) ((take i body @ begin_mark) @ rest)"
    using rest(1,2) by simp
  then have "drop (i + length begin_mark) body = rest" by (simp only: append_eq_conv_conj) simp
  with assms b obtain k where k: "index_of end_mark rest = Some k" "j = i + length begin_mark + k"
    by (auto simp: fence_bounds_def Let_def)
  from index_of_Some [OF k(1)] ne obtain post where post: "rest = take k rest @ end_mark @ post"
    "length (take k rest) = k" "\<not> sublist end_mark (take k rest)" by blast
  show thesis
    by (rule that [of "take i body" "take k rest" post]) (use rest post k in \<open>simp_all\<close>)
qed

lemma no_fence:
  assumes "\<not> sublist begin_mark body" shows "fst (fence_bounds begin_mark end_mark body) = None"
proof -
  have "begin_mark \<noteq> []" using begin_border by auto
  with assms show ?thesis by (simp add: fence_bounds_def index_of_None Let_def)
qed

lemma replace_found:
  "replace_fence (pre @ begin_mark @ inner @ end_mark @ post) (length pre)
     (length pre + length begin_mark + length inner) end_mark block = pre @ block @ post"
  by (simp add: replace_fence_def)

lemma slice_found:
  "slice (length pre + length begin_mark) (length pre + length begin_mark + length inner)
     (pre @ begin_mark @ inner @ end_mark @ post) = inner"
  by (simp add: slice_def)

end

section \<open>Texts that do not contain a marker\<close>

lemma sublist_split:
  assumes "sublist p (xs @ c # ys)" "c \<notin> set p" shows "sublist p xs \<or> sublist p ys"
proof -
  from assms(1) consider "sublist p xs" | "sublist p (c # ys)"
    | us vs where "p = us @ vs" "suffix us xs" "prefix vs (c # ys)"
    by (auto simp: sublist_append)
  then show ?thesis
  proof cases
    case 2
    then show ?thesis using assms(2)
      by (cases p) (auto simp: sublist_Cons_right)
  next
    case 3
    then have "vs = []" using assms(2) by (cases vs) auto
    with 3 show ?thesis by (auto intro: suffix_imp_sublist)
  qed simp
qed

lemma sublist_peel_left: "sublist p (x # xs) \<Longrightarrow> p \<noteq> [] \<Longrightarrow> hd p \<noteq> x \<Longrightarrow> sublist p xs"
  by (cases p) (auto simp: sublist_Cons_right)

lemma sublist_skip: "sublist p (xs @ ys) \<Longrightarrow> p \<noteq> [] \<Longrightarrow> hd p \<notin> set xs \<Longrightarrow> sublist p ys"
  by (induction xs) (auto dest: sublist_peel_left)

lemma sublist_peel_right: "sublist p (xs @ [x]) \<Longrightarrow> p \<noteq> [] \<Longrightarrow> last p \<noteq> x \<Longrightarrow> sublist p xs"
  by (cases p rule: rev_cases) (auto simp: sublist_snoc suffix_def)

lemma prefix_escape: "prefix p (escapeFenceCell s) \<Longrightarrow> 92 \<notin> set p \<Longrightarrow> prefix p s"
proof (induction s arbitrary: p)
  case (Cons c s)
  show ?case
  proof (cases p)
    case (Cons q p')
    with Cons.prems have "c \<noteq> 124" by (auto simp: escapeFenceCell_def)
    with Cons Cons.prems Cons.IH [of p'] show ?thesis by (simp add: escapeFenceCell_def)
  qed simp
qed (simp add: escapeFenceCell_def)

lemma sublist_escape:
  "sublist p (escapeFenceCell s) \<Longrightarrow> 92 \<notin> set p \<Longrightarrow> 124 \<notin> set p \<Longrightarrow> sublist p s"
proof (induction s)
  case (Cons c s)
  have esc: "escapeFenceCell (c # s) = (if c = 124 then [92, 124] else [c]) @ escapeFenceCell s"
    by (simp add: escapeFenceCell_def)
  show ?case
  proof (cases "c = 124")
    case True
    with Cons.prems esc have "sublist p ([92] @ 124 # escapeFenceCell s)" by simp
    from sublist_split [OF this Cons.prems(3)] consider "sublist p [92]" | "sublist p (escapeFenceCell s)"
      by fast
    then show ?thesis
    proof cases
      case 1
      then have "p = []" using Cons.prems(2) by (cases p) (auto simp: sublist_Cons_right)
      then show ?thesis by simp
    next
      case 2
      with Cons show ?thesis by (simp add: sublist_Cons_right)
    qed
  next
    case False
    with esc have "escapeFenceCell (c # s) = c # escapeFenceCell s" by simp
    with Cons.prems(1) consider "prefix p (escapeFenceCell (c # s))" | "sublist p (escapeFenceCell s)"
      by (metis sublist_Cons_right)
    then show ?thesis
    proof cases
      case 1
      with prefix_escape Cons.prems(2) show ?thesis by (metis prefix_imp_sublist)
    next
      case 2
      with Cons show ?thesis by (simp add: sublist_Cons_right)
    qed
  qed
qed (simp add: escapeFenceCell_def)

text \<open>A marker is an HTML comment: it starts with an angle bracket, ends with one, and holds neither a
  pipe nor a backslash nor a line feed.\<close>

definition comment_mark :: "js_text \<Rightarrow> bool" where
  "comment_mark p = (p \<noteq> [] \<and> hd p = 60 \<and> last p = 62 \<and> set p \<inter> {10, 92, 124, 8594} = {})"

lemma sublist_row:
  assumes p: "comment_mark p" and "sublist p (row_text cells)"
  shows "\<exists>c \<in> set cells. sublist p c"
proof -
  have mark: "p \<noteq> []" "hd p \<noteq> 32" "last p \<noteq> 32" "hd p \<noteq> 124" "124 \<notin> set p"
    using p by (auto simp: comment_mark_def)
  have "sublist p (concat (map (\<lambda>c. 32 # c @ [32, 124]) cs)) \<Longrightarrow> \<exists>c \<in> set cs. sublist p c" for cs
  proof (induction cs)
    case (Cons c cs)
    then have "sublist p ((32 # c @ [32]) @ 124 # concat (map (\<lambda>c. 32 # c @ [32, 124]) cs))" by simp
    from sublist_split [OF this mark(5)]
    consider "sublist p (32 # c @ [32])" | "sublist p (concat (map (\<lambda>c. 32 # c @ [32, 124]) cs))" by fast
    then show ?case
    proof cases
      case 1
      from sublist_peel_right [OF sublist_peel_left [OF this mark(1,2)] mark(1,3)] have "sublist p c" .
      then show ?thesis by simp
    qed (use Cons.IH in auto)
  qed (use mark(1) in simp)
  with sublist_peel_left [OF assms(2) [unfolded row_text_def] mark(1,4)] show ?thesis by blast
qed

lemma sublist_lines:
  assumes "sublist p (join_lines ls)" "10 \<notin> set p" "p \<noteq> []"
  shows "\<exists>l \<in> set ls. sublist p l"
  using assms by (induction ls rule: join_lines.induct) (auto dest: sublist_split)

lemma sublist_strike:
  assumes "comment_mark p" "sublist p (strike a s)" shows "sublist p s"
proof -
  have mark: "p \<noteq> []" "hd p \<noteq> 126" "last p \<noteq> 126" using assms(1) by (auto simp: comment_mark_def)
  show ?thesis
  proof (cases a)
    case False
    then have "sublist p (126 # 126 # ((s @ [126]) @ [126]))" using assms(2) by (simp add: strike_def)
    note sublist_peel_left [OF sublist_peel_left [OF this mark(1,2)] mark(1,2)]
    from sublist_peel_right [OF sublist_peel_right [OF this mark(1,3)] mark(1,3)] show ?thesis .
  qed (use assms in \<open>simp add: strike_def\<close>)
qed

text \<open>A marker does not arise where a line of text without an angle bracket is added.\<close>

lemma no_mark_append:
  assumes m: "comment_mark m" "10 \<notin> set m" and "\<not> sublist m xs" and "60 \<notin> set ys"
    and line: "xs = [] \<or> last xs = 10 \<or> ys = [] \<or> hd ys = 10"
  shows "\<not> sublist m (xs @ ys)"
proof
  have m60: "60 \<in> set m" using m(1) hd_in_set [of m] by (auto simp: comment_mark_def)
  have no: "\<not> sublist m zs" if "60 \<notin> set zs" for zs using m60 that by (auto simp: sublist_def)
  assume sub: "sublist m (xs @ ys)"
  consider "xs = []" | zs where "xs = zs @ [10]" | "ys = []" | zs where "ys = 10 # zs"
    using line by (metis append_butlast_last_id list.exhaust_sel)
  then show False
  proof cases
    case 1
    with sub no assms(4) show False by simp
  next
    case (2 zs)
    with sub have "sublist m (zs @ 10 # ys)" by simp
    from sublist_split [OF this m(2)] no [OF assms(4)] have "sublist m zs" by blast
    with 2 assms(3) show False by (simp add: sublist_append)
  next
    case 3
    with sub assms(3) show False by simp
  next
    case (4 zs)
    with sub have "sublist m (xs @ 10 # zs)" by simp
    from sublist_split [OF this m(2)] no [of zs] assms(3,4) 4 show False by simp
  qed
qed

section \<open>Reading a row back\<close>

lemma escape_Nil [simp]: "escapeFenceCell [] = []"
  by (simp add: escapeFenceCell_def)

lemma escape_id: "124 \<notin> set s \<Longrightarrow> escapeFenceCell s = s"
  by (induction s) (simp_all add: escapeFenceCell_def)

lemma hd_escape: "s \<noteq> [] \<Longrightarrow> hd (escapeFenceCell s) \<noteq> 124"
  by (cases s) (auto simp: escapeFenceCell_def)

lemma escape_neq_Nil: "escapeFenceCell s = [] \<longleftrightarrow> s = []"
  by (cases s) (auto simp: escapeFenceCell_def)

text \<open>The escaped text of a cell is read back up to the next unescaped pipe.\<close>

lemma cell_loop_escape:
  "rest = [] \<or> hd rest \<noteq> 124 \<Longrightarrow> cell_loop cur (escapeFenceCell s @ rest) = cell_loop (cur @ s) rest"
proof (induction s arbitrary: cur)
  case (Cons c s)
  show ?case
  proof (cases "c = 124")
    case True
    then have "escapeFenceCell (c # s) @ rest = 92 # 124 # escapeFenceCell s @ rest" by (simp add: escapeFenceCell_def)
    with Cons True show ?thesis by simp
  next
    case False
    then have e: "escapeFenceCell (c # s) @ rest = c # (escapeFenceCell s @ rest)" by (simp add: escapeFenceCell_def)
    have "\<not> (escapeFenceCell s @ rest \<noteq> [] \<and> hd (escapeFenceCell s @ rest) = 124)"
      using Cons.prems hd_escape [of s] escape_neq_Nil [of s] by (cases "s = []") auto
    then have "cell_loop cur (c # (escapeFenceCell s @ rest)) = cell_loop (cur @ [c]) (escapeFenceCell s @ rest)"
      using False by auto
    with e Cons show ?thesis by simp
  qed
qed simp

lemma cell_loop_row:
  "cs \<noteq> [] \<Longrightarrow> cell_loop [] (butlast (concat (map (\<lambda>c. 32 # escapeFenceCell c @ [32, 124]) cs))) = map u_trim cs"
proof (induction cs)
  case (Cons c cs)
  let ?row = "\<lambda>cs. concat (map (\<lambda>c. 32 # escapeFenceCell c @ [32, 124]) cs)"
  have one: "cell_loop [] (32 # escapeFenceCell c @ 32 # rest) = cell_loop (32 # c @ [32]) rest"
    if "rest = [] \<or> hd rest = 124" for rest
    using cell_loop_escape [of "32 # rest" "[32]" c] that by simp
  show ?case
  proof (cases cs)
    case Nil
    then show ?thesis using one [of "[]"] by (simp add: butlast_append)
  next
    case (Cons d ds)
    then have "butlast (?row (c # cs)) = 32 # escapeFenceCell c @ 32 # 124 # butlast (?row cs)"
      by (simp add: butlast_append)
    moreover have "cell_loop (32 # c @ [32]) (124 # butlast (?row cs)) = u_trim c # cell_loop [] (butlast (?row cs))"
      by simp
    ultimately show ?thesis using one [of "124 # butlast (?row cs)"] Cons.IH Cons by simp
  qed
qed simp

lemma last_cells: "cs \<noteq> [] \<Longrightarrow> last (concat (map (\<lambda>c. 32 # f c @ [32, 124]) cs)) = (124 :: nat)"
  by (induction cs) auto

lemma row_text_trim: "cs \<noteq> [] \<Longrightarrow> u_trim (row_text cs) = row_text cs"
  using last_cells [of cs id] by (intro u_trim_id) (auto simp: row_text_def u_space_def)

lemma parse_row_text:
  assumes "cs \<noteq> []"
  shows "parseRowCells (row_text (map escapeFenceCell cs)) = Some (map u_trim cs)"
proof -
  let ?in = "concat (map (\<lambda>c. 32 # escapeFenceCell c @ [32, 124]) cs)"
  have row: "row_text (map escapeFenceCell cs) = 124 # ?in" by (simp add: row_text_def comp_def)
  have "u_trim (124 # ?in) = 124 # ?in" using row_text_trim [of "map escapeFenceCell cs"] assms row by simp
  moreover have "124 \<in> set ?in" "last ?in = 124" using assms last_cells [OF assms] by (cases cs; simp)+
  ultimately show ?thesis using cell_loop_row [OF assms] by (simp add: parseRowCells_def row)
qed

lemma row_text_lines: "10 \<notin> set (row_text cs) \<longleftrightarrow> list_all (\<lambda>c. 10 \<notin> set c) cs"
  by (induction cs) (auto simp: row_text_def)

lemma set_escape: "c \<noteq> 92 \<Longrightarrow> c \<noteq> 124 \<Longrightarrow> c \<in> set (escapeFenceCell s) \<longleftrightarrow> c \<in> set s"
  by (induction s) (auto simp: escapeFenceCell_def)

text \<open>A struck claim is read back as its text.\<close>

lemma strip_strike:
  assumes "s \<noteq> []" "\<not> list_ex line_end s" shows "stripStrikethrough (strike False s) = (u_trim s, True)"
  using assms by (cases s) (auto simp: stripStrikethrough_def strike_def Let_def)

lemma trim_strike: "u_trim (strike False s) = strike False s"
  by (intro u_trim_id) (simp add: strike_def u_space_def)

section \<open>Reading numbers back\<close>

lemma u_digit_char: "u_digit (of_char c) \<longleftrightarrow> js_digit c"
  by (simp add: u_digit_def js_digit_def js_code_def)

lemma nat_text_digits: "list_all u_digit (nat_text n)"
  using nat_str_digits [of n] by (auto simp: nat_text_def units_def list_all_iff u_digit_char)

lemma nat_text_nonempty [simp]: "nat_text n \<noteq> []"
  by (simp add: nat_text_def units_def)

lemma nat_text_take [simp]: "takeWhile u_digit (nat_text n) = nat_text n"
  using nat_text_digits [of n] by (simp add: takeWhile_eq_all_conv list_all_iff)

lemma dec_nat_text: "dec_nat (nat_text n) = n"
proof -
  have "int (foldl (\<lambda>a c. 10 * a + (c - 48)) k (map of_char s)) = foldl (\<lambda>a c. 10 * a + (int (js_code c) - 48)) (int k) s"
    if "\<forall>c \<in> set s. js_digit c" for s k
    using that by (induction s arbitrary: k) (simp_all add: js_digit_def js_code_def of_nat_diff add_diff_eq)
  from this [of "nat_str n" 0] nat_str_digits dec_val_nat_str [of n] show ?thesis
    by (simp add: dec_nat_def nat_text_def units_def dec_val_def)
qed

lemma dec_nat_foldl: "foldl (\<lambda>a c. 10 * a + (c - 48)) k t = k * 10 ^ length t + dec_nat t"
proof (induction t rule: rev_induct)
  case (snoc c t)
  then show ?case by (simp add: dec_nat_def)
qed (simp add: dec_nat_def)

lemma dec_nat_append: "dec_nat (s @ t) = dec_nat s * 10 ^ length t + dec_nat t"
  using dec_nat_foldl [of "dec_nat s" t] by (simp add: dec_nat_def)

lemma dec_nat_zeros: "dec_nat (replicate n 48) = 0"
  by (induction n) (simp_all add: dec_nat_def)

lemma takeWhile_digits: "list_all u_digit ds \<Longrightarrow> rest = [] \<or> \<not> u_digit (hd rest) \<Longrightarrow>
    takeWhile u_digit (ds @ rest) = ds \<and> dropWhile u_digit (ds @ rest) = rest"
  by (induction ds) (cases rest; auto)+

lemma digit_not_space: "u_digit c \<Longrightarrow> \<not> u_space c \<and> c \<noteq> 45 \<and> c \<noteq> 43 \<and> c \<noteq> 124 \<and> c \<noteq> 10 \<and> c \<noteq> 60"
  by (auto simp: u_digit_def u_space_def)

lemma digit_not_colon: "u_digit c \<Longrightarrow> c \<noteq> 58"
  by (simp add: u_digit_def)

lemma signed_digits:
  assumes "list_all u_digit ds" "ds \<noteq> []"
  shows "signed (dropWhile u_space (ds @ rest)) = (False, ds @ rest)"
    and "signed (dropWhile u_space (45 # ds @ rest)) = (True, ds @ rest)"
proof -
  obtain d ds' where ds: "ds = d # ds'" "u_digit d" using assms by (cases ds) auto
  then show "signed (dropWhile u_space (ds @ rest)) = (False, ds @ rest)"
    using digit_not_space [of d] by (simp add: signed_def)
  have "\<not> u_space 45" by (simp add: u_space_def)
  then show "signed (dropWhile u_space (45 # ds @ rest)) = (True, ds @ rest)" by (simp add: signed_def)
qed

lemma parse_int_nat_text:
  assumes "n < 10 ^ 21" shows "u_parse_int (nat_text n) = Some (int n)"
proof -
  have "finite_value (of_nat n)"
  proof -
    have "(of_nat n :: rat) < 10 ^ 21" using assms by (metis of_nat_less_iff of_nat_numeral of_nat_power)
    moreover have "(10 :: rat) ^ 21 < 2 ^ 1024 - 2 ^ 970" by simp
    ultimately show ?thesis by (simp add: finite_value_def)
  qed
  then show ?thesis
    using signed_digits(1) [OF nat_text_digits nat_text_nonempty, of n "[]"]
    by (simp add: u_parse_int_def dec_nat_text Let_def)
qed

lemma finite_small: "\<bar>x\<bar> < 10 ^ 21 \<Longrightarrow> finite_value x"
proof -
  assume "\<bar>x\<bar> < 10 ^ 21"
  moreover have "(10 :: rat) ^ 21 < 2 ^ 1024 - 2 ^ 970" by simp
  ultimately show ?thesis unfolding finite_value_def by (rule less_trans)
qed

lemma parse_decimal:
  assumes ip: "list_all u_digit ip" "ip \<noteq> []" and fp: "list_all u_digit fp"
    and x: "x = of_nat (dec_nat (ip @ fp)) / 10 ^ length fp" "finite_value x"
  shows "u_parse_float (ip @ 46 # fp) = Some x" and "u_parse_float (45 # ip @ 46 # fp) = Some (- x)"
    and "fp = [] \<Longrightarrow> u_parse_float ip = Some x" and "fp = [] \<Longrightarrow> u_parse_float (45 # ip) = Some (- x)"
proof -
  have neg: "finite_value (- x)" using x(2) by (simp add: finite_value_def)
  have nd: "\<not> u_digit 46" by (simp add: u_digit_def)
  have split: "takeWhile u_digit (ip @ 46 # fp) = ip" "dropWhile u_digit (ip @ 46 # fp) = 46 # fp"
    using takeWhile_digits [OF ip(1), of "46 # fp"] nd by auto
  have fps: "takeWhile u_digit fp = fp" "dropWhile u_digit fp = []"
    using takeWhile_digits [OF fp, of "[]"] by auto
  have ips: "takeWhile u_digit ip = ip" "dropWhile u_digit ip = []"
    using takeWhile_digits [OF ip(1), of "[]"] by auto
  have sc: "scale (of_nat (dec_nat (ip @ fp))) (exponent_of [] - int (length fp)) = x"
    unfolding x(1) by (simp add: scale_def exponent_of_def)
  note sg = signed_digits [OF ip(1,2)]
  show "u_parse_float (ip @ 46 # fp) = Some x"
    unfolding u_parse_float_def sg(1) Let_def prod.case split by (simp add: nd fps sc x(2) ip(2))
  show "u_parse_float (45 # ip @ 46 # fp) = Some (- x)"
    unfolding u_parse_float_def sg(2) Let_def prod.case split by (simp add: nd fps sc neg ip(2))
  assume "fp = []"
  then have sc': "scale (of_nat (dec_nat ip)) (exponent_of []) = x" using sc by simp
  show "u_parse_float ip = Some x"
    using sg(1) [of "[]"] unfolding u_parse_float_def append_Nil2 by (simp add: ips sc' x(2) ip(2) Let_def)
  show "u_parse_float (45 # ip) = Some (- x)"
    using sg(2) [of "[]"] unfolding u_parse_float_def append_Nil2 by (simp add: ips sc' neg ip(2) Let_def)
qed

lemma length_nat_text: "n < 10 ^ k \<Longrightarrow> 0 < k \<Longrightarrow> length (nat_text n) \<le> k"
proof (induction k arbitrary: n)
  case (Suc k)
  show ?case
  proof (cases "n < 10")
    case True
    then have "nat_str n = [digit_char n]" by (subst nat_str.simps) simp
    then show ?thesis by (simp add: nat_text_def units_def)
  next
    case False
    then have "0 < k" using Suc.prems by (cases k) auto
    moreover have "n div 10 < 10 ^ k" using Suc.prems by (simp add: less_mult_imp_div_less mult.commute)
    ultimately have "length (nat_text (n div 10)) \<le> k" by (rule Suc.IH [rotated])
    moreover have "nat_str n = nat_str (n div 10) @ [digit_char (n mod 10)]"
      using False by (subst nat_str.simps) simp
    ultimately show ?thesis by (simp add: nat_text_def units_def)
  qed
qed simp

text \<open>The numbers that print without an exponent.\<close>

definition plain_number :: "rat \<Rightarrow> bool" where
  "plain_number x = (\<bar>x\<bar> < 10 ^ 21 \<and> (\<exists>k < 400. is_int (x * 10 ^ k)) \<and> (x = 0 \<or> 1 / 10 ^ 6 \<le> \<bar>x\<bar>))"

lemma places_int: "k < 400 \<Longrightarrow> is_int (x * 10 ^ k) \<Longrightarrow> is_int (x * 10 ^ places x)"
proof -
  assume "k < 400" "is_int (x * 10 ^ k)"
  then have "find (\<lambda>k. is_int (x * 10 ^ k)) [0..<400] \<noteq> None" by (auto simp: find_None_iff)
  then obtain j where j: "find (\<lambda>k. is_int (x * 10 ^ k)) [0..<400] = Some j" by blast
  then have "is_int (x * 10 ^ j)" by (auto simp: find_Some_iff)
  with j show ?thesis by (simp add: places_def)
qed

text \<open>A plain number prints as digits, with a point and more digits if it is no integer.\<close>

definition decimal_text :: "rat \<Rightarrow> js_text \<Rightarrow> bool" where
  "decimal_text x t = (\<exists>ip fp. list_all u_digit ip \<and> ip \<noteq> [] \<and> list_all u_digit fp \<and>
     (t = ip @ 46 # fp \<or> fp = [] \<and> t = ip) \<and> x = of_nat (dec_nat (ip @ fp)) / 10 ^ length fp)"

lemma pos_text_nat:
  assumes "m < 10 ^ 21" shows "pos_text (of_nat m) = nat_text m"
proof -
  have "find (\<lambda>k. is_int (of_nat m * 10 ^ k)) [0..<400] = Some 0" by (simp add: upt_rec [of 0] is_int_def)
  then have "places (of_nat m) = 0" by (simp add: places_def)
  with assms show ?thesis by (simp add: pos_text_def Let_def)
qed

lemma pos_text_decimal:
  assumes plain: "plain_number x" and pos: "0 \<le> x"
  shows "decimal_text x (pos_text x)"
proof -
  define k where "k = places x"
  define m where "m = nat \<lfloor>x * 10 ^ k\<rfloor>"
  have "is_int (x * 10 ^ k)" using plain places_int by (auto simp: plain_number_def k_def)
  then have "of_int \<lfloor>x * 10 ^ k\<rfloor> = x * 10 ^ k" by (simp add: is_int_def)
  moreover have "0 \<le> \<lfloor>x * 10 ^ k\<rfloor>" using pos by simp
  ultimately have m: "of_nat m = x * 10 ^ k" by (simp add: m_def)
  show ?thesis
  proof (cases "k = 0")
    case True
    with m have xm: "x = of_nat m" by simp
    with plain have "(of_nat m :: rat) < of_nat (10 ^ 21)" by (simp add: plain_number_def)
    then have "m < 10 ^ 21" by (simp only: of_nat_less_iff)
    then show ?thesis using nat_text_digits unfolding decimal_text_def xm pos_text_nat [OF \<open>m < 10 ^ 21\<close>]
      by (intro exI [of _ "nat_text m"] exI [of _ "[]"]) (simp add: dec_nat_text)
  next
    case False
    have "x \<noteq> 0"
    proof
      assume "x = 0"
      then have "find (\<lambda>k. is_int (x * 10 ^ k)) [0..<400] = Some 0" by (simp add: upt_rec [of 0] is_int_def)
      with False show "False" by (simp add: k_def places_def)
    qed
    then have big: "1 / 10 ^ 6 \<le> x" using plain pos by (simp add: plain_number_def)
    define ip where "ip = nat_text (m div 10 ^ k)"
    define fp where "fp = replicate (k - length (nat_text (m mod 10 ^ k))) 48 @ nat_text (m mod 10 ^ k)"
    have pt: "pos_text x = ip @ 46 # fp"
      using False big by (simp add: pos_text_def k_def [symmetric] m_def [symmetric] ip_def fp_def Let_def)
    have "length (nat_text (m mod 10 ^ k)) \<le> k" using False by (intro length_nat_text) simp_all
    then have len: "length fp = k" by (simp add: fp_def)
    have "dec_nat fp = m mod 10 ^ k" by (simp add: fp_def dec_nat_append dec_nat_zeros dec_nat_text)
    then have "dec_nat (ip @ fp) = m" by (simp only: dec_nat_append len ip_def dec_nat_text div_mult_mod_eq)
    then have "x = of_nat (dec_nat (ip @ fp)) / 10 ^ length fp" using m len by simp
    moreover have "list_all u_digit ip" "ip \<noteq> []" "list_all u_digit fp"
      using nat_text_digits by (auto simp: ip_def fp_def list_all_iff u_digit_def)
    ultimately show ?thesis unfolding decimal_text_def pt by blast
  qed
qed

text \<open>What a number cell consists of.\<close>

definition number_char :: "nat \<Rightarrow> bool" where
  "number_char c = (u_digit c \<or> c = 45 \<or> c = 46)"

definition signed_decimal :: "rat \<Rightarrow> js_text \<Rightarrow> bool" where
  "signed_decimal x t = (if x < 0 then (\<exists>u. t = 45 # u \<and> decimal_text (- x) u) else decimal_text x t)"

lemma signed_decimal_chars: "signed_decimal x t \<Longrightarrow> list_all number_char t \<and> t \<noteq> []"
  by (auto simp: signed_decimal_def decimal_text_def number_char_def list_all_iff split: if_splits)

lemma parse_signed_decimal:
  assumes "signed_decimal x t" "finite_value x" shows "u_parse_float t = Some x"
proof -
  have fin: "finite_value (- x)" using assms(2) by (simp add: finite_value_def)
  show ?thesis
  proof (cases "x < 0")
    case True
    then obtain u where "t = 45 # u" "decimal_text (- x) u" using assms(1) by (auto simp: signed_decimal_def)
    then show ?thesis unfolding decimal_text_def using parse_decimal(2,4) [OF _ _ _ _ fin] by fastforce
  next
    case False
    then show ?thesis using assms unfolding signed_decimal_def decimal_text_def
      using parse_decimal(1,3) by fastforce
  qed
qed

lemma number_cell:
  assumes "list_all number_char t" "t \<noteq> []"
  shows "u_trim t = t" and "124 \<notin> set t" and "10 \<notin> set t" and "60 \<notin> set t"
proof -
  have "\<not> u_space c \<and> c \<noteq> 124 \<and> c \<noteq> 10 \<and> c \<noteq> 60" if "number_char c" for c
    using that digit_not_space [of c] by (cases "u_digit c") (simp_all add: number_char_def, auto simp: u_space_def)
  with assms(1) have all: "\<not> u_space c \<and> c \<noteq> 124 \<and> c \<noteq> 10 \<and> c \<noteq> 60" if "c \<in> set t" for c
    using that unfolding list_all_iff by blast
  from all [OF hd_in_set [OF assms(2)]] all [OF last_in_set [OF assms(2)]] show "u_trim t = t"
    by (intro u_trim_id) blast
  show "124 \<notin> set t" "10 \<notin> set t" "60 \<notin> set t" using all by blast+
qed

lemma num_text_decimal:
  assumes "plain_number x" shows "signed_decimal x (num_text x)"
proof (cases "x < 0")
  case True
  then have "plain_number (- x)"
    using assms by (auto simp: plain_number_def is_int_def) (metis floor_of_int of_int_minus)
  with pos_text_decimal [OF this] True show ?thesis by (simp add: num_text_def signed_decimal_def)
next
  case False
  with pos_text_decimal [OF assms] show ?thesis by (simp add: num_text_def signed_decimal_def)
qed

lemma num_text_int:
  assumes "0 \<le> n" "n < 10 ^ 21" shows "num_text (of_int n) = nat_text (nat n)"
proof -
  have "(of_int n :: rat) = of_nat (nat n)" using assms(1) by simp
  moreover have "nat n < 10 ^ 21" using assms by (simp add: nat_less_iff)
  ultimately have "pos_text (of_int n) = nat_text (nat n)" using pos_text_nat by metis
  with assms(1) show ?thesis by (simp add: num_text_def)
qed

text \<open>A weight on the grid of hundredths survives rendering.\<close>

definition weight_ok :: "rat \<Rightarrow> bool" where
  "weight_ok w = (is_int (w * 100) \<and> \<bar>w\<bar> < 10 ^ 21)"

lemma format_weight_decimal:
  assumes "weight_ok w" shows "signed_decimal w (format_weight w)"
proof (cases "is_int w")
  case True
  define n where "n = nat \<bar>\<lfloor>w\<rfloor>\<bar>"
  have w: "\<bar>w\<bar> = of_nat n" "\<lfloor>w\<rfloor> < 0 \<longleftrightarrow> w < 0" using True by (auto simp: n_def is_int_def)
  have "(of_nat n :: rat) = of_nat (dec_nat (nat_text n @ [48])) / 10 ^ length [48 :: nat]"
    by (simp add: dec_nat_append dec_nat_text) (simp add: dec_nat_def)
  then have "decimal_text (of_nat n) (nat_text n @ 46 # [48])"
    unfolding decimal_text_def using nat_text_digits
    by (intro exI [of _ "nat_text n"] exI [of _ "[48]"]) (auto simp: u_digit_def)
  moreover have "format_weight w = (if w < 0 then 45 # nat_text n else nat_text n) @ [46, 48]"
    using True assms w(2) by (auto simp: format_weight_def weight_ok_def int_text_def n_def)
  ultimately show ?thesis using w(1) by (auto simp: signed_decimal_def abs_if split: if_splits)
next
  case False
  have int100: "of_int \<lfloor>w * 100\<rfloor> = w * 100" using assms by (simp add: weight_ok_def is_int_def)
  then have abs100: "\<bar>w\<bar> * 100 = of_int \<bar>\<lfloor>w * 100\<rfloor>\<bar>" by (metis abs_mult abs_numeral of_int_abs)
  then have "\<lfloor>\<bar>w\<bar> * 100 + 1 / 2\<rfloor> = \<bar>\<lfloor>w * 100\<rfloor>\<bar>" by linarith
  then have "sgn w * of_int \<lfloor>\<bar>w\<bar> * 100 + 1 / 2\<rfloor> / 100 = w"
    using abs100 sgn_mult_abs [of w] by (metis of_int_abs times_divide_eq_right nonzero_mult_div_cancel_right zero_neq_numeral)
  then have fmt: "format_weight w = num_text w" using False by (simp add: format_weight_def)
  have "\<lfloor>w * 100\<rfloor> \<noteq> 0"
  proof
    assume "\<lfloor>w * 100\<rfloor> = 0"
    with int100 have "w = 0" by simp
    with False show "False" by (simp add: is_int_def)
  qed
  then have "1 \<le> \<bar>\<lfloor>w * 100\<rfloor>\<bar>" by linarith
  then have "1 \<le> \<bar>w\<bar> * 100" unfolding abs100 by (metis of_int_1 of_int_le_iff)
  moreover have "is_int (w * 10 ^ 2)" using assms by (simp add: weight_ok_def)
  ultimately have "plain_number w" using assms unfolding plain_number_def weight_ok_def
    by (auto intro!: exI [of _ 2])
  with fmt show ?thesis by (simp add: num_text_decimal)
qed

lemma parse_format_weight: "weight_ok w \<Longrightarrow> u_parse_float (format_weight w) = Some w"
  using parse_signed_decimal [OF format_weight_decimal] finite_small by (simp add: weight_ok_def)

lemma parse_num_text: "plain_number x \<Longrightarrow> u_parse_float (num_text x) = Some x"
  using parse_signed_decimal [OF num_text_decimal] finite_small by (simp add: plain_number_def)

section \<open>Reading a table back\<close>

text \<open>The loop over the lines, common to both parsers: blank lines and lines without a pipe are
  skipped, the first row with the column names is the header, separator rows are skipped, and what a
  row does, or one before the header, is an argument.\<close>

definition table_line ::
  "(js_text list \<Rightarrow> js_text list \<Rightarrow> js_text \<Rightarrow> 's \<Rightarrow> 's) \<Rightarrow> (js_text \<Rightarrow> 's \<Rightarrow> 's) \<Rightarrow>
     js_text \<Rightarrow> js_text list option \<times> 's \<Rightarrow> js_text list option \<times> 's" where
  "table_line on_row on_early line hs =
     (case hs of (hdr, st) \<Rightarrow>
        if u_trim line = [] then hs
        else case parseRowCells line of
            None \<Rightarrow> hs
          | Some cells \<Rightarrow>
              (case hdr of
                 None \<Rightarrow>
                   (let lower = map u_lower cells
                    in if units ''claim'' \<in> set lower \<and> units ''kind'' \<in> set lower then (Some lower, st)
                       else (None, on_early (u_trim line) st))
               | Some h \<Rightarrow> if isSeparatorRow cells then hs else (hdr, on_row h cells (u_trim line) st)))"

definition read_table ::
  "(js_text list \<Rightarrow> js_text list \<Rightarrow> js_text \<Rightarrow> 's \<Rightarrow> 's) \<Rightarrow> (js_text \<Rightarrow> 's \<Rightarrow> 's) \<Rightarrow> 's \<Rightarrow> js_text \<Rightarrow>
     js_text list option \<times> 's" where
  "read_table on_row on_early st inner = fold (table_line on_row on_early) (split_lines inner) (None, st)"

text \<open>Cells that survive: trimmed, on one line, without the end marker.\<close>

definition cell_ok :: "js_text \<Rightarrow> js_text \<Rightarrow> bool" where
  "cell_ok mark c = (u_trim c = c \<and> 10 \<notin> set c \<and> \<not> sublist mark c)"

lemma table_line_blank: "table_line f e [] hs = hs"
  by (simp add: table_line_def split_beta)

lemma table_line_row:
  assumes "cs \<noteq> []" "\<not> isSeparatorRow (map u_trim cs)"
  shows "table_line f e (row_text (map escapeFenceCell cs)) (Some h, st) =
    (Some h, f h (map u_trim cs) (row_text (map escapeFenceCell cs)) st)"
proof -
  have "u_trim (row_text (map escapeFenceCell cs)) = row_text (map escapeFenceCell cs)"
    using row_text_trim [of "map escapeFenceCell cs"] assms(1) by simp
  then show ?thesis using assms(2) parse_row_text [OF assms(1)]
    by (simp add: table_line_def) (simp add: row_text_def)
qed

lemma read_rows:
  assumes hdr: "table_line f e header (None, st) = (Some h, st)" "10 \<notin> set header"
    and sep: "\<And>st. table_line f e sep (Some h, st) = (Some h, st)" "10 \<notin> set sep"
    and rows: "list_all (\<lambda>cs. cs \<noteq> [] \<and> \<not> isSeparatorRow (map u_trim cs) \<and> list_all (\<lambda>c. 10 \<notin> set c) cs) rows"
  shows "read_table f e st (join_lines ([] # [] # (header # sep # map (\<lambda>cs. row_text (map escapeFenceCell cs)) rows) @ [[]])) =
    (Some h, fold (\<lambda>cs. f h (map u_trim cs) (row_text (map escapeFenceCell cs))) rows st)"
proof -
  let ?r = "\<lambda>cs. row_text (map escapeFenceCell cs)"
  have "list_all (\<lambda>l. 10 \<notin> set l) (map ?r rows)"
    using rows by (simp add: list_all_iff row_text_lines set_escape)
  then have lines: "split_lines (join_lines ([] # [] # (header # sep # map ?r rows) @ [[]])) =
      [] # [] # header # sep # map ?r rows @ [[]]"
    using hdr(2) sep(2) by (subst split_join_lines) simp_all
  have "fold (table_line f e) (map ?r rows) (Some h, st) =
      (Some h, fold (\<lambda>cs. f h (map u_trim cs) (?r cs)) rows st)" for st
    using rows by (induction rows arbitrary: st) (simp_all add: table_line_row)
  then show ?thesis unfolding read_table_def lines by (simp add: table_line_blank hdr(1) sep(1))
qed

lemma table_no_mark:
  assumes mark: "comment_mark mark" and "\<not> sublist mark header" "\<not> sublist mark sep"
    and rows: "\<And>cs c. cs \<in> set rows \<Longrightarrow> c \<in> set cs \<Longrightarrow> \<not> sublist mark c"
  shows "\<not> sublist mark (join_lines ([] # [] # (header # sep # map (\<lambda>cs. row_text (map escapeFenceCell cs)) rows) @ [[]]))"
proof
  have m: "mark \<noteq> []" "10 \<notin> set mark" "92 \<notin> set mark" "124 \<notin> set mark" using mark by (auto simp: comment_mark_def)
  assume "sublist mark (join_lines ([] # [] # (header # sep # map (\<lambda>cs. row_text (map escapeFenceCell cs)) rows) @ [[]]))"
  from sublist_lines [OF this m(2,1)] assms(2,3) m(1)
  obtain cs where cs: "cs \<in> set rows" "sublist mark (row_text (map escapeFenceCell cs))" by auto
  from sublist_row [OF mark cs(2)] obtain c where "c \<in> set cs" "sublist mark (escapeFenceCell c)" by auto
  with rows [OF cs(1)] sublist_escape [OF _ m(3,4)] show False by blast
qed

section \<open>Cells of written rows\<close>

text \<open>An optional text is not empty, and a claim keeps its struck state.\<close>

definition opt_ok :: "(js_text \<Rightarrow> bool) \<Rightarrow> js_text option \<Rightarrow> bool" where
  "opt_ok P x = (case x of None \<Rightarrow> True | Some t \<Rightarrow> t \<noteq> [] \<and> P t)"

definition claim_ok :: "js_text \<Rightarrow> bool \<Rightarrow> js_text \<Rightarrow> bool" where
  "claim_ok mark active c = (cell_ok mark c \<and>
     (if active then stripStrikethrough c = (c, False) else c \<noteq> [] \<and> \<not> list_ex line_end c))"

text \<open>Cells made of characters that need no escape and are not part of a marker.\<close>

definition plain_cell :: "js_text \<Rightarrow> bool" where
  "plain_cell c = (u_trim c = c \<and> set c \<inter> {10, 60, 124} = {})"

lemma plain_cell_facts:
  assumes "plain_cell c" and "comment_mark m"
  shows "escapeFenceCell c = c" "10 \<notin> set c" "\<not> sublist m c" "u_trim c = c"
proof -
  show "escapeFenceCell c = c" "10 \<notin> set c" "u_trim c = c" using assms(1) escape_id by (auto simp: plain_cell_def)
  have "60 \<in> set m" using assms(2) hd_in_set [of m] by (auto simp: comment_mark_def)
  moreover have "60 \<notin> set c" using assms(1) by (auto simp: plain_cell_def)
  ultimately show "\<not> sublist m c" by (auto simp: sublist_def)
qed

lemma plain_number_cell: "list_all number_char t \<Longrightarrow> t \<noteq> [] \<Longrightarrow> plain_cell t"
  using number_cell [of t] by (simp add: plain_cell_def)

lemma row_number_text: "0 < n \<Longrightarrow> n < 10 ^ 21 \<Longrightarrow> num_text (of_int n) = nat_text (nat n)"
  by (rule num_text_int) simp_all

lemma nat_text_cell: "plain_cell (nat_text n)"
  using nat_text_digits [of n] by (intro plain_number_cell) (auto simp: list_all_iff number_char_def)

lemma number_text_cell:
  assumes "plain_number x"
  shows "plain_cell (num_text x)" "num_text x \<noteq> []" "list_all number_char (num_text x)"
  using signed_decimal_chars [OF num_text_decimal [OF assms]] plain_number_cell by blast+

lemma row_number_cell:
  assumes "0 < n" "n < 10 ^ 21"
  shows "plain_cell (num_text (of_int n))" "u_trim (num_text (of_int n)) = num_text (of_int n)"
    "u_parse_int (num_text (of_int n)) = Some n"
    "\<not> list_all (\<lambda>u. u = 45 \<or> u = 58 \<or> u_space u) (num_text (of_int n))"
proof -
  note n = row_number_text [OF assms]
  show cell: "plain_cell (num_text (of_int n))" unfolding n by (rule nat_text_cell)
  then show "u_trim (num_text (of_int n)) = num_text (of_int n)" by (simp add: plain_cell_def)
  have "nat n < 10 ^ 21" using assms by (simp add: nat_less_iff)
  then show "u_parse_int (num_text (of_int n)) = Some n" using parse_int_nat_text assms(1) n by simp
  have hd: "hd (nat_text k) \<in> set (nat_text k)" for k by simp
  then have d: "u_digit (hd (nat_text k))" for k using nat_text_digits [of k] unfolding list_all_iff by blast
  then have "hd (nat_text k) \<noteq> 58" for k by (metis digit_not_colon)
  with digit_not_space [OF d] hd show "\<not> list_all (\<lambda>u. u = 45 \<or> u = 58 \<or> u_space u) (num_text (of_int n))"
    unfolding n list_all_iff by blast
qed

lemma source_cell:
  assumes "opt_ok (cell_ok m) x" "comment_mark m"
  shows "string_cell (or_default [] x) = x" "10 \<notin> set (or_default [] x)" "\<not> sublist m (or_default [] x)"
    "u_trim (or_default [] x) = or_default [] x"
  using assms by (cases x; auto simp: opt_ok_def cell_ok_def string_cell_def or_default_def comment_mark_def)+

lemma claim_cell:
  assumes "claim_ok m a c" "comment_mark m"
  shows "stripStrikethrough (u_trim (strike a c)) = (c, \<not> a)" "10 \<notin> set (strike a c)" "\<not> sublist m (strike a c)"
proof -
  have c: "u_trim c = c" "10 \<notin> set c" "\<not> sublist m c" using assms(1) by (auto simp: claim_ok_def cell_ok_def)
  show "stripStrikethrough (u_trim (strike a c)) = (c, \<not> a)"
  proof (cases a)
    case True
    then show ?thesis using assms(1) c(1) by (simp add: claim_ok_def strike_def)
  next
    case False
    then show ?thesis using assms(1) c(1) strip_strike [of c] trim_strike by (simp add: claim_ok_def)
  qed
  show "10 \<notin> set (strike a c)" using c(2) by (simp add: strike_def)
  show "\<not> sublist m (strike a c)" using c(3) sublist_strike [OF assms(2)] by blast
qed

lemma weight_cell: "weight_ok w \<Longrightarrow> plain_cell (format_weight w)"
  using signed_decimal_chars [OF format_weight_decimal] plain_number_cell by blast

lemma read_table_invariant:
  assumes "P st" "\<And>h cells l st. P st \<Longrightarrow> P (f h cells l st)" "\<And>l st. P st \<Longrightarrow> P (g l st)"
  shows "P (snd (read_table f g st inner))"
proof -
  have "P (snd (table_line f g l hs))" if "P (snd hs)" for l hs
    using that assms(2,3) by (auto simp: table_line_def Let_def split: prod.splits option.splits)
  then have "P (snd (fold (table_line f g) ls hs))" if "P (snd hs)" for ls hs
    using that by (induction ls arbitrary: hs) simp_all
  with assms(1) show ?thesis by (simp add: read_table_def)
qed

lemma string_cell_ok: "opt_ok (\<lambda>s. u_trim s = s) (string_cell c)"
  by (simp add: string_cell_def opt_ok_def)

lemma parse_float_finite: "u_parse_float s = Some w \<Longrightarrow> finite_value w"
  by (auto simp: u_parse_float_def Let_def split: prod.splits if_splits)

text \<open>Column names.\<close>

definition name_char :: "nat \<Rightarrow> bool" where
  "name_char c = (c = 35 \<or> c = 95 \<or> 97 \<le> c \<and> c \<le> 122)"

lemma name_cells:
  assumes "list_all (list_all name_char) cs"
  shows "map escapeFenceCell cs = cs" "map u_trim cs = cs" "map u_lower cs = cs" "\<forall>c \<in> set cs. 10 \<notin> set c \<and> 60 \<notin> set c"
proof -
  have all: "name_char u" if "c \<in> set cs" "u \<in> set c" for c u using assms that by (simp add: list_all_iff)
  have ch: "u \<noteq> 124 \<and> \<not> u_space u \<and> \<not> (65 \<le> u \<and> u \<le> 90) \<and> u \<noteq> 8490 \<and> u \<noteq> 10 \<and> u \<noteq> 60" if "name_char u" for u
    using that by (auto simp: name_char_def u_space_def)
  show "map escapeFenceCell cs = cs" using all ch escape_id by (intro map_idI) blast
  show "map u_trim cs = cs"
  proof (rule map_idI)
    fix c assume "c \<in> set cs"
    then show "u_trim c = c" using all ch hd_in_set [of c] last_in_set [of c] by (intro u_trim_id) blast
  qed
  show "map u_lower cs = cs" unfolding u_lower_def using all ch by (intro map_idI) auto
  show "\<forall>c \<in> set cs. 10 \<notin> set c \<and> 60 \<notin> set c" using all ch by blast
qed

text \<open>A separator line: cells of hyphens.\<close>

definition dashes :: "nat list \<Rightarrow> js_text" where
  "dashes ns = 124 # concat (map (\<lambda>n. replicate (Suc n) 45 @ [124]) ns)"

lemma replicate_numeral_Cons [text_lits]: "replicate (numeral k) x = x # replicate (pred_numeral k) x"
  by (simp add: numeral_eq_Suc)

lemma dashes_read:
  assumes "ns \<noteq> []"
  shows "case parseRowCells (dashes ns) of None \<Rightarrow> False | Some cs \<Rightarrow> isSeparatorRow cs"
    and "u_trim (dashes ns) \<noteq> []" and "10 \<notin> set (dashes ns)" and "60 \<notin> set (dashes ns)"
proof -
  let ?in = "\<lambda>ns. concat (map (\<lambda>n. replicate (Suc n) 45 @ [124 :: nat]) ns)"
  have skip: "cell_loop cur (replicate n 45 @ rest) = cell_loop (cur @ replicate n 45) rest" for cur n rest
    by (induction n arbitrary: cur) (simp_all add: replicate_app_Cons_same)
  have trim: "u_trim (replicate (Suc n) 45) = replicate (Suc n) 45" for n
    using last_replicate [of "Suc n" 45] by (intro u_trim_id) (simp add: u_space_def)
  have cells: "cell_loop [] (butlast (?in ns)) = map (\<lambda>n. replicate (Suc n) 45) ns" if "ns \<noteq> []" for ns
    using that
  proof (induction ns)
    case (Cons n ns)
    show ?case
    proof (cases ns)
      case Nil
      then show ?thesis using skip [of "[]" "Suc n" "[]"] trim [of n] by (simp add: butlast_append)
    next
      case (Cons m ms)
      then have "butlast (?in (n # ns)) = replicate (Suc n) 45 @ 124 # butlast (?in ns)" by (simp add: butlast_append)
      moreover have "cell_loop (replicate (Suc n) 45) (124 # butlast (?in ns)) = replicate (Suc n) 45 # cell_loop [] (butlast (?in ns))"
        unfolding cell_loop.simps trim by simp
      ultimately show ?thesis using skip [of "[]" "Suc n"] Cons.IH Cons by simp
    qed
  qed simp
  have last: "last (?in ns) = 124 \<and> ?in ns \<noteq> []" if "ns \<noteq> []" for ns using that by (induction ns) auto
  have "124 \<in> set (?in ns)" "last (dashes ns) = 124" using last_in_set last [OF assms] by (force simp: dashes_def)+
  moreover from this have "u_trim (dashes ns) = dashes ns" by (intro u_trim_id) (simp add: dashes_def u_space_def)
  moreover have "isSeparatorRow (map (\<lambda>n. replicate (Suc n) 45) ns)"
    using assms by (auto simp: isSeparatorRow_def list_all_iff)
  ultimately show "case parseRowCells (dashes ns) of None \<Rightarrow> False | Some cs \<Rightarrow> isSeparatorRow cs" "u_trim (dashes ns) \<noteq> []"
    using last [OF assms] cells [OF assms] by (auto simp: parseRowCells_def dashes_def)
  show "10 \<notin> set (dashes ns)" "60 \<notin> set (dashes ns)" by (auto simp: dashes_def)
qed

text \<open>A table as the renderers write it: the header of its columns, a separator and one escaped row per
  record. The client gives the columns, the separator, the cells of a record and which records are
  writable; a table may have a narrow and a wide form.\<close>

definition written_table ::
  "js_text \<Rightarrow> js_text \<Rightarrow> js_text list \<Rightarrow> js_text \<Rightarrow> js_text list list \<Rightarrow> js_text" where
  "written_table begin_mark end_mark columns separator rows =
     table_text begin_mark end_mark (row_text columns # separator # map (\<lambda>cs. row_text (map escapeFenceCell cs)) rows)"

locale fenced_table = fence_markers +
  fixes columns :: "bool \<Rightarrow> js_text list" and separator :: "bool \<Rightarrow> js_text"
    and cells :: "bool \<Rightarrow> 'r \<Rightarrow> js_text list" and writable :: "bool \<Rightarrow> 'r \<Rightarrow> bool"
  assumes end_comment: "comment_mark end_mark"
    and column_texts: "map escapeFenceCell (columns w) = columns w" "map u_trim (columns w) = columns w"
      "map u_lower (columns w) = columns w" "units ''claim'' \<in> set (columns w)" "units ''kind'' \<in> set (columns w)"
      "\<forall>c \<in> set (columns w). 10 \<notin> set c \<and> 60 \<notin> set c"
    and separator_row: "u_trim (separator w) \<noteq> []" "10 \<notin> set (separator w)" "60 \<notin> set (separator w)"
      "case parseRowCells (separator w) of None \<Rightarrow> False | Some cs \<Rightarrow> isSeparatorRow cs"
    and row_cells: "writable w r \<Longrightarrow> cells w r \<noteq> []" "writable w r \<Longrightarrow> \<not> isSeparatorRow (map u_trim (cells w r))"
      "writable w r \<Longrightarrow> c \<in> set (cells w r) \<Longrightarrow> 10 \<notin> set c \<and> \<not> sublist end_mark c"
begin

lemma bracket_free: "60 \<notin> set s \<Longrightarrow> \<not> sublist end_mark s"
  using end_comment hd_in_set [of end_mark] by (auto simp: comment_mark_def sublist_def)

lemma header_read: "table_line f e (row_text (columns w)) (None, st) = (Some (columns w), st)"
proof -
  have ne: "columns w \<noteq> []" using column_texts(4) [of w] by auto
  then have parse: "parseRowCells (row_text (columns w)) = Some (columns w)"
    using parse_row_text [OF ne] by (simp only: column_texts)
  have "u_trim (row_text (columns w)) \<noteq> []"
    unfolding row_text_trim [OF ne] by (simp add: row_text_def)
  then show ?thesis using parse column_texts(4,5) [of w] by (simp add: table_line_def column_texts(3) Let_def)
qed

lemma separator_read: "table_line f e (separator w) (Some h, st) = (Some h, st)"
  using separator_row(1,4) [of w] by (auto simp: table_line_def split: option.splits)

lemma head_lines:
  "10 \<notin> set (row_text (columns w))" "\<not> sublist end_mark (row_text (columns w))" "\<not> sublist end_mark (separator w)"
proof -
  show "10 \<notin> set (row_text (columns w))" using column_texts(6) [of w] by (simp add: row_text_lines list_all_iff)
  have "60 \<notin> set (row_text (columns w))" using column_texts(6) [of w] by (auto simp: row_text_def)
  then show "\<not> sublist end_mark (row_text (columns w))" by (rule bracket_free)
  show "\<not> sublist end_mark (separator w)" using separator_row(3) by (rule bracket_free)
qed

lemma table_layout:
  assumes "list_all (writable w) rs"
  obtains inner where "written_table begin_mark end_mark (columns w) (separator w) (map (cells w) rs) = begin_mark @ inner @ end_mark"
    "\<not> sublist end_mark inner"
    "\<And>(f :: js_text list \<Rightarrow> js_text list \<Rightarrow> js_text \<Rightarrow> 's \<Rightarrow> 's) e st. read_table f e st inner = (Some (columns w),
       fold (\<lambda>cs. f (columns w) (map u_trim cs) (row_text (map escapeFenceCell cs))) (map (cells w) rs) st)"
proof -
  let ?inner = "join_lines ([] # [] # (row_text (columns w) # separator w #
    map (\<lambda>cs. row_text (map escapeFenceCell cs)) (map (cells w) rs)) @ [[]])"
  have row: "\<exists>r. cs = cells w r \<and> writable w r" if "cs \<in> set (map (cells w) rs)" for cs
    using assms that by (auto simp: list_all_iff)
  have nomark: "\<not> sublist end_mark ?inner"
  proof (rule table_no_mark [OF end_comment head_lines(2,3)])
    fix cs c assume "cs \<in> set (map (cells w) rs)" "c \<in> set cs"
    with row row_cells(3) show "\<not> sublist end_mark c" by blast
  qed
  have rows: "list_all (\<lambda>cs. cs \<noteq> [] \<and> \<not> isSeparatorRow (map u_trim cs) \<and> list_all (\<lambda>c. 10 \<notin> set c) cs) (map (cells w) rs)"
    unfolding list_all_iff
  proof (intro ballI)
    fix cs assume "cs \<in> set (map (cells w) rs)"
    then obtain r where r: "cs = cells w r" "writable w r" using row by blast
    show "cs \<noteq> [] \<and> \<not> isSeparatorRow (map u_trim cs) \<and> (\<forall>c \<in> set cs. 10 \<notin> set c)"
      unfolding r(1) using row_cells [OF r(2)] by blast
  qed
  show thesis
    by (rule that [OF _ nomark read_rows [OF header_read head_lines(1) separator_read separator_row(2) rows]])
      (simp only: written_table_def table_text_def)
qed

lemma table_bounds:
  assumes "list_all (writable w) rs" and "\<not> sublist begin_mark pre"
  defines "table \<equiv> written_table begin_mark end_mark (columns w) (separator w) (map (cells w) rs)"
  shows "fence_bounds begin_mark end_mark (pre @ table @ post) =
      (Some (length pre), Some (length pre + length table - length end_mark))"
    and "replace_fence (pre @ table @ post) (length pre) (length pre + length table - length end_mark) end_mark block =
      pre @ block @ post"
    and "\<And>(f :: js_text list \<Rightarrow> js_text list \<Rightarrow> js_text \<Rightarrow> 's \<Rightarrow> 's) e st.
      read_table f e st (slice (length pre + length begin_mark) (length pre + length table - length end_mark) (pre @ table @ post)) =
      (Some (columns w), fold (\<lambda>cs. f (columns w) (map u_trim cs) (row_text (map escapeFenceCell cs))) (map (cells w) rs) st)"
proof -
  obtain inner where inner: "table = begin_mark @ inner @ end_mark" "\<not> sublist end_mark inner"
    and read: "\<And>(f :: js_text list \<Rightarrow> js_text list \<Rightarrow> js_text \<Rightarrow> 's \<Rightarrow> 's) e st. read_table f e st inner = (Some (columns w),
       fold (\<lambda>cs. f (columns w) (map u_trim cs) (row_text (map escapeFenceCell cs))) (map (cells w) rs) st)"
    unfolding table_def using table_layout [OF assms(1)] by blast
  show "fence_bounds begin_mark end_mark (pre @ table @ post) =
      (Some (length pre), Some (length pre + length table - length end_mark))"
    using fence_found [OF assms(2) inner(2), of post] by (simp add: inner(1))
  show "replace_fence (pre @ table @ post) (length pre) (length pre + length table - length end_mark) end_mark block =
      pre @ block @ post"
    using replace_found [of pre inner post block] by (simp add: inner(1) add.assoc)
  show "read_table f e st (slice (length pre + length begin_mark) (length pre + length table - length end_mark) (pre @ table @ post)) =
      (Some (columns w), fold (\<lambda>cs. f (columns w) (map u_trim cs) (row_text (map escapeFenceCell cs))) (map (cells w) rs) st)"
    for f :: "js_text list \<Rightarrow> js_text list \<Rightarrow> js_text \<Rightarrow> 's \<Rightarrow> 's" and e st
    using slice_found [of pre inner post] read [of f e st] by (simp add: inner(1) add.assoc)
qed

end

end
