(* ===== verification/TakesFence.thy ===== *)
theory TakesFence
  imports FenceText
begin

text \<open>
  The takes table of a page (\<open>src/core/takes-fence.ts\<close>): the parser, the renderer, appending and
  superseding rows, and removing the table from the text that is chunked. The markdown is the
  source of truth, so what matters is that rendering and parsing are inverse and that an edit
  changes the rows it names and no others.
\<close>

section \<open>Rows\<close>

datatype take_quality = Correct | Incorrect | Partial | Unresolvable

record parsed_take =
  tk_rowNum :: int
  tk_claim :: js_text
  tk_kind :: js_text
  tk_holder :: js_text
  tk_weight :: rat
  tk_sinceDate :: "js_text option"
  tk_untilDate :: "js_text option"
  tk_source :: "js_text option"
  tk_active :: bool
  tk_resolvedAt :: "js_text option"
  tk_resolvedQuality :: "take_quality option"
  tk_resolvedOutcome :: "bool option"
  tk_resolvedEvidence :: "js_text option"
  tk_resolvedValue :: "rat option"
  tk_resolvedUnit :: "js_text option"
  tk_resolvedBy :: "js_text option"

text \<open>A warning with its payload in place of the text built from it.\<close>

datatype take_warning =
    NearMiss | Unbalanced | NoHeader
  | RowBeforeHeader js_text | TooFewCells nat js_text | InvalidRowNum js_text | RowNumCollision int
  | UnknownKind js_text | HolderInvalid js_text js_text | NonNumericWeight js_text

definition TAKES_FENCE_BEGIN :: js_text where
  [text_lits]: "TAKES_FENCE_BEGIN = units ''<!--- gbrain:takes:begin -->''"

definition TAKES_FENCE_END :: js_text where
  [text_lits]: "TAKES_FENCE_END = units ''<!--- gbrain:takes:end -->''"

text \<open>A slug segment consists of letters and digits of any script, which the parameter \<open>word\<close> knows, and
  of dots, underscores and hyphens.\<close>

definition slug_segment :: "(nat \<Rightarrow> bool) \<Rightarrow> js_text \<Rightarrow> bool" where
  "slug_segment word s = (s \<noteq> [] \<and> list_all (\<lambda>c. word c \<or> c = 46 \<or> c = 95 \<or> c = 45) (code_points s))"

definition isValidHolder :: "(nat \<Rightarrow> bool) \<Rightarrow> js_text \<Rightarrow> bool" where
  "isValidHolder word h =
     (h = units ''world'' \<or> h = units ''brain'' \<or>
      take 7 h = units ''people/'' \<and> slug_segment word (drop 7 h) \<or>
      take 10 h = units ''companies/'' \<and> slug_segment word (drop 10 h) \<or>
      slug_segment word h)"

definition TAKE_KIND_VALUES :: "js_text list" where
  "TAKE_KIND_VALUES = [units ''fact'', units ''take'', units ''bet'', units ''hunch'']"

definition quality_text :: "take_quality \<Rightarrow> js_text" where
  "quality_text q = (case q of Correct \<Rightarrow> units ''correct'' | Incorrect \<Rightarrow> units ''incorrect''
     | Partial \<Rightarrow> units ''partial'' | Unresolvable \<Rightarrow> units ''unresolvable'')"

definition parseQualityCell :: "js_text \<Rightarrow> take_quality option" where
  "parseQualityCell raw =
     find (\<lambda>q. u_lower (u_trim raw) = quality_text q) [Correct, Incorrect, Partial, Unresolvable]"

definition parseFloatCell :: "js_text \<Rightarrow> rat option" where
  "parseFloatCell raw = (if u_trim raw = [] then None else u_parse_float (u_trim raw))"

definition outcome_of :: "take_quality option \<Rightarrow> bool option" where
  "outcome_of q = (if q = Some Correct then Some True else if q = Some Incorrect then Some False else None)"

section \<open>The since cell\<close>

text \<open>What follows an arrow and the white space after it.\<close>

definition arrow_rest :: "js_text \<Rightarrow> js_text option" where
  "arrow_rest r =
     (case r of [] \<Rightarrow> None
      | c # s \<Rightarrow> if c = 8594 then Some (dropWhile u_space s)
          else if c = 45 \<and> s \<noteq> [] \<and> hd s = 62 then Some (dropWhile u_space (tl s)) else None)"

text \<open>The expression \<open>/^(.+?)\s*(?:\<rightarrow>|->)\s*(.+)$/\<close> matches with the first group of \<open>i\<close> characters.\<close>

definition range_at :: "js_text \<Rightarrow> nat \<Rightarrow> bool" where
  "range_at t i =
     (\<not> list_ex line_end (take i t) \<and>
      (case arrow_rest (dropWhile u_space (drop i t)) of
         None \<Rightarrow> False | Some m \<Rightarrow> m \<noteq> [] \<and> \<not> list_ex line_end m))"

definition parseSinceCell :: "js_text \<Rightarrow> js_text option \<times> js_text option" where
  "parseSinceCell raw =
     (let t = u_trim raw
      in if t = [] then (None, None)
         else case find (range_at t) [1..<length t] of
             None \<Rightarrow> (Some t, None)
           | Some i \<Rightarrow> (Some (u_trim (take i t)),
               map_option u_trim (arrow_rest (dropWhile u_space (drop i t)))))"

section \<open>Parsing\<close>

record take_state =
  ts_takes :: "parsed_take list"
  ts_warnings :: "take_warning list"
  ts_seen :: "int list"

definition take_warn :: "take_warning \<Rightarrow> take_state \<Rightarrow> take_state" where
  "take_warn w st = st\<lparr>ts_warnings := ts_warnings st @ [w]\<rparr>"

text \<open>The cell below a column name of the header.\<close>

definition cell_at :: "js_text list \<Rightarrow> js_text list \<Rightarrow> string \<Rightarrow> js_text option" where
  "cell_at header cells col =
     (case find (\<lambda>i. header ! i = units col) [0..<length header] of
        None \<Rightarrow> None
      | Some i \<Rightarrow> if i < length cells then Some (cells ! i) else None)"

definition text_at :: "js_text list \<Rightarrow> js_text list \<Rightarrow> string \<Rightarrow> js_text option" where
  "text_at header cells col = (case cell_at header cells col of None \<Rightarrow> None | Some c \<Rightarrow> string_cell c)"

definition take_of_cells :: "js_text list \<Rightarrow> js_text list \<Rightarrow> int \<Rightarrow> rat \<Rightarrow> parsed_take" where
  "take_of_cells header cells n w =
     (let sourceRaw = (if 6 < length cells then cells ! 6 else []);
          claim = stripStrikethrough (cells ! 1);
          dates = parseSinceCell (cells ! 5);
          quality = (case cell_at header cells ''quality'' of None \<Rightarrow> None | Some c \<Rightarrow> parseQualityCell c)
      in \<lparr>tk_rowNum = n, tk_claim = fst claim, tk_kind = u_lower (u_trim (cells ! 2)),
          tk_holder = u_trim (cells ! 3), tk_weight = w, tk_sinceDate = fst dates,
          tk_untilDate = snd dates, tk_source = string_cell sourceRaw, tk_active = (\<not> snd claim),
          tk_resolvedAt = text_at header cells ''resolved'', tk_resolvedQuality = quality,
          tk_resolvedOutcome = outcome_of quality, tk_resolvedEvidence = text_at header cells ''evidence'',
          tk_resolvedValue =
            (case cell_at header cells ''value'' of None \<Rightarrow> None | Some c \<Rightarrow> parseFloatCell c),
          tk_resolvedUnit = text_at header cells ''unit'', tk_resolvedBy = text_at header cells ''by''\<rparr>)"

definition take_row ::
  "(nat \<Rightarrow> bool) \<Rightarrow> js_text list \<Rightarrow> js_text list \<Rightarrow> js_text \<Rightarrow> take_state \<Rightarrow> take_state" where
  "take_row word header cells line st =
     (if length cells < 6 then take_warn (TooFewCells (length cells) line) st
      else case u_parse_int (cells ! 0) of
          None \<Rightarrow> take_warn (InvalidRowNum (cells ! 0)) st
        | Some n \<Rightarrow>
            if n \<le> 0 then take_warn (InvalidRowNum (cells ! 0)) st
            else if n \<in> set (ts_seen st) then take_warn (RowNumCollision n) st
            else let st1 = st\<lparr>ts_seen := n # ts_seen st\<rparr>
                 in if u_lower (u_trim (cells ! 2)) \<notin> set TAKE_KIND_VALUES
                    then take_warn (UnknownKind (cells ! 2)) st1
                    else let holder = u_trim (cells ! 3);
                             st2 = (if isValidHolder word holder then st1
                                    else take_warn (HolderInvalid holder (cells ! 0)) st1)
                         in case u_parse_float (cells ! 4) of
                              None \<Rightarrow> take_warn (NonNumericWeight (cells ! 4)) st2
                            | Some w \<Rightarrow> st2\<lparr>ts_takes := ts_takes st2 @ [take_of_cells header cells n w]\<rparr>)"

definition parseTakesFence :: "(nat \<Rightarrow> bool) \<Rightarrow> js_text \<Rightarrow> parsed_take list \<times> take_warning list" where
  "parseTakesFence word body =
     (case fence_bounds TAKES_FENCE_BEGIN TAKES_FENCE_END body of
        (None, None) \<Rightarrow> ([], if index_of (units ''gbrain:takes:begin'') body \<noteq> None then [NearMiss] else [])
      | (Some b, Some e) \<Rightarrow>
          if e < b then ([], [Unbalanced])
          else let inner = slice (b + length TAKES_FENCE_BEGIN) e body;
                   res = read_table (take_row word) (\<lambda>l. take_warn (RowBeforeHeader l))
                           \<lparr>ts_takes = [], ts_warnings = [], ts_seen = []\<rparr> inner;
                   st = snd res
               in (ts_takes st, ts_warnings st @
                     (if fst res = None \<and> ts_takes st = [] \<and>
                         list_ex (\<lambda>l. u_trim l \<noteq> [] \<and> hd (u_trim l) = 124) (split_lines inner)
                      then [NoHeader] else []))
      | _ \<Rightarrow> ([], [Unbalanced]))"

section \<open>Rendering\<close>

definition since_cell :: "parsed_take \<Rightarrow> js_text" where
  "since_cell t =
     (case tk_untilDate t of
        Some u \<Rightarrow> if u = [] then or_default [] (tk_sinceDate t) else or_default [] (tk_sinceDate t) @ [32, 8594, 32] @ u
      | None \<Rightarrow> or_default [] (tk_sinceDate t))"

definition base_cells :: "parsed_take \<Rightarrow> js_text list" where
  "base_cells t =
     [num_text (of_int (tk_rowNum t)), escapeFenceCell (strike (tk_active t) (tk_claim t)), tk_kind t,
      escapeFenceCell (tk_holder t), format_weight (tk_weight t), escapeFenceCell (since_cell t),
      escapeFenceCell (or_default [] (tk_source t))]"

definition resolution_cells :: "parsed_take \<Rightarrow> js_text list" where
  "resolution_cells t =
     [escapeFenceCell (or_default [] (tk_resolvedAt t)),
      (case tk_resolvedQuality t of None \<Rightarrow> [] | Some q \<Rightarrow> quality_text q),
      escapeFenceCell (or_default [] (tk_resolvedEvidence t)),
      (case tk_resolvedValue t of None \<Rightarrow> [] | Some v \<Rightarrow> num_text v),
      escapeFenceCell (or_default [] (tk_resolvedUnit t)), escapeFenceCell (or_default [] (tk_resolvedBy t))]"

definition takes_header :: "bool \<Rightarrow> js_text" where
  "takes_header wide = row_text (map units
     ([''#'', ''claim'', ''kind'', ''who'', ''weight'', ''since'', ''source''] @
      (if wide then [''resolved'', ''quality'', ''evidence'', ''value'', ''unit'', ''by''] else [])))"

definition takes_separator :: "bool \<Rightarrow> js_text" where
  "takes_separator wide =
     units (''|---|-------|------|-----|--------|-------|--------|'' @
       (if wide then ''----------|---------|----------|-------|------|----|'' else []))"

definition renderTakesFence :: "parsed_take list \<Rightarrow> js_text" where
  "renderTakesFence takes =
     (let wide = list_ex (\<lambda>t. tk_resolvedQuality t \<noteq> None) takes;
          row = (\<lambda>t. row_text (base_cells t @ (if wide then resolution_cells t else [])))
      in table_text TAKES_FENCE_BEGIN TAKES_FENCE_END
           (takes_header wide # takes_separator wide # map row takes))"

section \<open>Editing\<close>

text \<open>The fields of the argument; the resolution fields of a new row are not read. The type makes the weight
  mandatory; its default is for callers that bypass the type.\<close>

record new_take =
  nt_rowNum :: "int option"
  nt_claim :: js_text
  nt_kind :: js_text
  nt_holder :: js_text
  nt_weight :: "rat option"
  nt_sinceDate :: "js_text option"
  nt_untilDate :: "js_text option"
  nt_source :: "js_text option"
  nt_active :: "bool option"

definition next_row :: "parsed_take list \<Rightarrow> int" where
  "next_row takes = (if takes = [] then 1 else Max (set (map tk_rowNum takes)) + 1)"

definition take_of_new :: "new_take \<Rightarrow> int \<Rightarrow> parsed_take" where
  "take_of_new r n =
     \<lparr>tk_rowNum = n, tk_claim = nt_claim r, tk_kind = nt_kind r, tk_holder = nt_holder r,
      tk_weight = or_default (1 / 2) (nt_weight r), tk_sinceDate = nt_sinceDate r,
      tk_untilDate = nt_untilDate r, tk_source = nt_source r, tk_active = or_default True (nt_active r),
      tk_resolvedAt = None, tk_resolvedQuality = None, tk_resolvedOutcome = None,
      tk_resolvedEvidence = None, tk_resolvedValue = None, tk_resolvedUnit = None, tk_resolvedBy = None\<rparr>"

definition upsertTakeRow :: "(nat \<Rightarrow> bool) \<Rightarrow> js_text \<Rightarrow> new_take \<Rightarrow> js_text \<times> int" where
  "upsertTakeRow word body newRow =
     (let takes = fst (parseTakesFence word body);
          n = or_default (next_row takes) (nt_rowNum newRow);
          newFence = renderTakesFence (takes @ [take_of_new newRow n])
      in ((case fence_bounds TAKES_FENCE_BEGIN TAKES_FENCE_END body of
             (Some b, Some e) \<Rightarrow> replace_fence body b e TAKES_FENCE_END newFence
           | _ \<Rightarrow> body @ (if body \<noteq> [] \<and> last body = 10 then [10] else [10, 10]) @
               units ''## Takes'' @ [10, 10] @ newFence @ [10]), n))"

datatype take_error = RowNotFound int | MarkersMissing

definition supersedeRow ::
  "(nat \<Rightarrow> bool) \<Rightarrow> js_text \<Rightarrow> int \<Rightarrow> new_take \<Rightarrow> take_error + (js_text \<times> int)" where
  "supersedeRow word body oldRowNum repl =
     (let takes = fst (parseTakesFence word body)
      in case find (\<lambda>i. tk_rowNum (takes ! i) = oldRowNum) [0..<length takes] of
           None \<Rightarrow> Inl (RowNotFound oldRowNum)
         | Some idx \<Rightarrow>
             (let n = next_row takes;
                  source = or_default (units ''superseded by #'' @ num_text (of_int n)) (nt_source repl);
                  updated = takes[idx := (takes ! idx)\<lparr>tk_active := False\<rparr>] @
                    [take_of_new (repl\<lparr>nt_source := Some source, nt_active := Some True\<rparr>) n];
                  newFence = renderTakesFence updated
              in case fence_bounds TAKES_FENCE_BEGIN TAKES_FENCE_END body of
                   (Some b, Some e) \<Rightarrow> Inr (replace_fence body b e TAKES_FENCE_END newFence, n)
                 | _ \<Rightarrow> Inl MarkersMissing))"

definition stripTakesFence :: "js_text \<Rightarrow> js_text" where
  "stripTakesFence body =
     (case fence_bounds TAKES_FENCE_BEGIN TAKES_FENCE_END body of
        (Some b, Some e) \<Rightarrow> replace_fence body b e TAKES_FENCE_END []
      | _ \<Rightarrow> body)"

text \<open>The weight a write stores; a missing one is a half, and so is one that is not finite.\<close>

datatype weight_input = Missing | NotFinite | Number rat

definition normalizeWeightForStorage :: "weight_input \<Rightarrow> rat \<times> bool" where
  "normalizeWeightForStorage raw =
     (let wc = (case raw of
                  Missing \<Rightarrow> (1 / 2, False)
                | NotFinite \<Rightarrow> (1 / 2, True)
                | Number w \<Rightarrow> if w < 0 \<or> w > 1 then (max 0 (min 1 w), True) else (w, False))
      in (of_int \<lfloor>fst wc * 20 + 1 / 2\<rfloor> / 20, snd wc))"

lemma takes_end_mark: "comment_mark TAKES_FENCE_END"
  by (simp add: comment_mark_def text_lits)

section \<open>Rows that can be written\<close>

text \<open>A date has no white space and no arrow in it.\<close>

definition date_ok :: "js_text \<Rightarrow> bool" where
  "date_ok d = (d \<noteq> [] \<and> list_all (\<lambda>c. \<not> u_space c \<and> c \<noteq> 62 \<and> c \<noteq> 8594) d)"

definition dates_ok :: "parsed_take \<Rightarrow> bool" where
  "dates_ok t = (opt_ok date_ok (tk_sinceDate t) \<and> opt_ok date_ok (tk_untilDate t) \<and>
     (tk_untilDate t \<noteq> None \<longrightarrow> tk_sinceDate t \<noteq> None))"

definition resolution_ok :: "bool \<Rightarrow> parsed_take \<Rightarrow> bool" where
  "resolution_ok wide t =
     (tk_resolvedOutcome t = outcome_of (tk_resolvedQuality t) \<and>
      (if wide
       then opt_ok (cell_ok TAKES_FENCE_END) (tk_resolvedAt t) \<and> opt_ok (cell_ok TAKES_FENCE_END) (tk_resolvedEvidence t) \<and>
         (case tk_resolvedValue t of None \<Rightarrow> True | Some v \<Rightarrow> plain_number v) \<and>
         opt_ok (cell_ok TAKES_FENCE_END) (tk_resolvedUnit t) \<and> opt_ok (cell_ok TAKES_FENCE_END) (tk_resolvedBy t)
       else tk_resolvedAt t = None \<and> tk_resolvedQuality t = None \<and> tk_resolvedEvidence t = None \<and>
         tk_resolvedValue t = None \<and> tk_resolvedUnit t = None \<and> tk_resolvedBy t = None))"

text \<open>A row that keeps its cells when it is rendered, and one the parser accepts.\<close>

definition take_writable :: "bool \<Rightarrow> parsed_take \<Rightarrow> bool" where
  "take_writable wide t =
     (0 < tk_rowNum t \<and> tk_rowNum t < 10 ^ 21 \<and> claim_ok TAKES_FENCE_END (tk_active t) (tk_claim t) \<and>
      plain_cell (tk_kind t) \<and> cell_ok TAKES_FENCE_END (tk_holder t) \<and> weight_ok (tk_weight t) \<and>
      dates_ok t \<and> opt_ok (cell_ok TAKES_FENCE_END) (tk_source t) \<and> resolution_ok wide t)"

definition take_ok :: "bool \<Rightarrow> parsed_take \<Rightarrow> bool" where
  "take_ok wide t = (take_writable wide t \<and> tk_kind t \<in> set TAKE_KIND_VALUES)"

text \<open>A table that can be written: its rows can, and no row number comes twice. The resolution columns
  are there when some row has a quality.\<close>

definition is_wide :: "parsed_take list \<Rightarrow> bool" where
  "is_wide takes = list_ex (\<lambda>t. tk_resolvedQuality t \<noteq> None) takes"

definition takes_ok :: "parsed_take list \<Rightarrow> bool" where
  "takes_ok takes = (list_all (take_ok (is_wide takes)) takes \<and> distinct (map tk_rowNum takes))"

section \<open>A since cell is read back\<close>

lemma find_first:
  assumes "P k" "1 \<le> k" "k < n" "\<And>j. 1 \<le> j \<Longrightarrow> j < k \<Longrightarrow> \<not> P j"
  shows "find P [1..<n] = Some k"
  unfolding find_Some_iff using assms by (intro exI [of _ "k - 1"]) auto

lemma date_cell:
  assumes "date_ok d"
  shows "u_trim d = d" "d \<noteq> []" "10 \<notin> set d" "\<not> sublist TAKES_FENCE_END d" "\<not> list_ex line_end d"
proof -
  have all: "\<not> u_space c \<and> c \<noteq> 62 \<and> c \<noteq> 8594" if "c \<in> set d" for c
    using assms that by (simp add: date_ok_def list_all_iff)
  show "d \<noteq> []" using assms by (simp add: date_ok_def)
  then show "u_trim d = d" using all [OF hd_in_set] all [OF last_in_set] by (intro u_trim_id) blast
  show "10 \<notin> set d" using all [of 10] by (auto simp: u_space_def)
  show "\<not> sublist TAKES_FENCE_END d"
  proof
    assume "sublist TAKES_FENCE_END d"
    then have "set TAKES_FENCE_END \<subseteq> set d" by (auto simp: sublist_def)
    moreover have "62 \<in> set TAKES_FENCE_END" by (simp add: text_lits)
    ultimately show False using all [of 62] by blast
  qed
  have "line_end c \<Longrightarrow> u_space c" for c by (auto simp: line_end_def u_space_def)
  then show "\<not> list_ex line_end d" using all by (auto simp: list_ex_iff)
qed

lemma no_range_inside:
  assumes d: "date_ok d" and i: "i < length d" and rest: "rest = [] \<or> hd rest = 32"
  shows "\<not> range_at (d @ rest) i"
proof -
  have all: "\<not> u_space c \<and> c \<noteq> 62 \<and> c \<noteq> 8594" if "c \<in> set d" for c
    using d that by (simp add: date_ok_def list_all_iff)
  have cs: "drop i (d @ rest) = d ! i # drop (Suc i) d @ rest" using i by (simp add: Cons_nth_drop_Suc)
  have hd: "\<not> u_space (d ! i)" "d ! i \<noteq> 8594" using all [OF nth_mem [OF i]] by auto
  have "drop (Suc i) d @ rest = [] \<or> hd (drop (Suc i) d @ rest) \<noteq> 62"
  proof (cases "Suc i < length d")
    case True
    then show ?thesis using all [OF nth_mem [OF True]] by (simp add: hd_append hd_drop_conv_nth)
  next
    case False
    then show ?thesis using rest by auto
  qed
  then have "arrow_rest (dropWhile u_space (drop i (d @ rest))) = None"
    unfolding cs using hd by (auto simp: arrow_rest_def)
  then show ?thesis by (simp add: range_at_def)
qed

lemma parse_since_single: "date_ok d \<Longrightarrow> parseSinceCell d = (Some d, None)"
proof -
  assume d: "date_ok d"
  have "find (range_at d) [1..<length d] = None"
    using no_range_inside [OF d, of _ "[]"] by (auto simp: find_None_iff)
  with date_cell(1,2) [OF d] show ?thesis by (simp add: parseSinceCell_def)
qed

lemma parse_since_range:
  assumes d: "date_ok d" and u: "date_ok u"
  shows "parseSinceCell (d @ [32, 8594, 32] @ u) = (Some d, Some u)"
proof -
  let ?t = "d @ [32, 8594, 32] @ u"
  have sp: "u_space 32" "\<not> u_space 8594" by (simp_all add: u_space_def)
  have du: "dropWhile u_space u = u"
    using u by (cases u) (simp_all add: date_ok_def)
  have hd: "\<not> u_space (hd d)" "\<not> u_space (last u)"
    using d u by (auto simp: date_ok_def list_all_iff)
  have trim: "u_trim ?t = ?t" using date_cell(2) [OF d] date_cell(2) [OF u] hd by (intro u_trim_id) simp
  have arrow: "arrow_rest (dropWhile u_space (drop (length d) ?t)) = Some u"
    using sp du by (simp add: arrow_rest_def)
  then have here: "range_at ?t (length d)"
    using date_cell(2,5) [OF u] date_cell(5) [OF d] by (simp add: range_at_def)
  have "find (range_at ?t) [1..<length ?t] = Some (length d)"
  proof (rule find_first [where P = "range_at ?t", OF here])
    show "1 \<le> length d" using date_cell(2) [OF d] by (cases d) simp_all
    show "\<not> range_at ?t j" if "j < length d" for j using no_range_inside [OF d that, of "[32, 8594, 32] @ u"] by simp
  qed simp
  with trim arrow date_cell(1,2) [OF d] date_cell(1) [OF u] show ?thesis
    by (simp add: parseSinceCell_def Let_def)
qed

lemma parse_since_cell:
  assumes "dates_ok t"
  shows "parseSinceCell (u_trim (since_cell t)) = (tk_sinceDate t, tk_untilDate t)"
    and "10 \<notin> set (since_cell t)" and "\<not> sublist TAKES_FENCE_END (since_cell t)"
proof -
  consider "tk_sinceDate t = None" "tk_untilDate t = None"
    | d where "tk_sinceDate t = Some d" "tk_untilDate t = None" "date_ok d"
    | d u where "tk_sinceDate t = Some d" "tk_untilDate t = Some u" "date_ok d" "date_ok u"
    using assms by (auto simp: dates_ok_def opt_ok_def split: option.splits)
  then have "parseSinceCell (u_trim (since_cell t)) = (tk_sinceDate t, tk_untilDate t) \<and>
    10 \<notin> set (since_cell t) \<and> \<not> sublist TAKES_FENCE_END (since_cell t)"
  proof cases
    case 1
    then show ?thesis by (simp add: since_cell_def or_default_def parseSinceCell_def text_lits)
  next
    case 2
    then show ?thesis using date_cell [of d] parse_since_single by (simp add: since_cell_def or_default_def)
  next
    case 3
    have u: "u \<noteq> []" using date_cell(2) [OF 3(4)] .
    have cell: "since_cell t = d @ [32, 8594, 32] @ u" using 3 u by (simp add: since_cell_def or_default_def)
    have "u_trim (d @ [32, 8594, 32] @ u) = d @ [32, 8594, 32] @ u"
      using 3(3,4) u by (intro u_trim_id) (auto simp: date_ok_def list_all_iff)
    moreover have "\<not> sublist TAKES_FENCE_END (d @ [32, 8594, 32] @ u)"
    proof
      assume "sublist TAKES_FENCE_END (d @ [32, 8594, 32] @ u)"
      then have "sublist TAKES_FENCE_END ((d @ [32]) @ 8594 # 32 # u)" by simp
      moreover have m: "TAKES_FENCE_END \<noteq> []" "hd TAKES_FENCE_END \<noteq> 32" "last TAKES_FENCE_END \<noteq> 32" "8594 \<notin> set TAKES_FENCE_END"
        by (simp_all add: text_lits)
      ultimately consider "sublist TAKES_FENCE_END (d @ [32])" | "sublist TAKES_FENCE_END (32 # u)"
        using sublist_split by metis
      then show False
        using sublist_peel_right [OF _ m(1,3)] sublist_peel_left [OF _ m(1,2)] date_cell(4) [OF 3(3)] date_cell(4) [OF 3(4)]
        by metis
    qed
    ultimately show ?thesis using 3 date_cell(3) parse_since_range cell by auto
  qed
  then show "parseSinceCell (u_trim (since_cell t)) = (tk_sinceDate t, tk_untilDate t)"
    "10 \<notin> set (since_cell t)" "\<not> sublist TAKES_FENCE_END (since_cell t)" by blast+
qed

section \<open>A written row is read back\<close>

definition raw_cells :: "bool \<Rightarrow> parsed_take \<Rightarrow> js_text list" where
  "raw_cells wide t =
     [num_text (of_int (tk_rowNum t)), strike (tk_active t) (tk_claim t), tk_kind t, tk_holder t,
      format_weight (tk_weight t), since_cell t, or_default [] (tk_source t)] @
     (if wide then
       [or_default [] (tk_resolvedAt t), (case tk_resolvedQuality t of None \<Rightarrow> [] | Some q \<Rightarrow> quality_text q),
        or_default [] (tk_resolvedEvidence t), (case tk_resolvedValue t of None \<Rightarrow> [] | Some v \<Rightarrow> num_text v),
        or_default [] (tk_resolvedUnit t), or_default [] (tk_resolvedBy t)]
      else [])"

lemma kind_cell: "k \<in> set TAKE_KIND_VALUES \<Longrightarrow> plain_cell k \<and> u_lower k = k \<and> k \<noteq> []"
  by (auto simp: TAKE_KIND_VALUES_def text_lits plain_cell_def u_lower_def u_trim_def u_space_def)

lemma quality_cell: "plain_cell (quality_text q)" "parseQualityCell (quality_text q) = Some q"
  by (cases q; simp add: quality_text_def parseQualityCell_def text_lits plain_cell_def u_lower_def u_trim_def u_space_def)+

lemma value_cell:
  assumes "case v of None \<Rightarrow> True | Some x \<Rightarrow> plain_number x"
  defines "c \<equiv> (case v of None \<Rightarrow> [] | Some x \<Rightarrow> num_text x)"
  shows "plain_cell c" "parseFloatCell c = v"
proof -
  have "plain_cell c \<and> parseFloatCell c = v"
  proof (cases v)
    case (Some x)
    then have "plain_number x" using assms(1) by simp
    with number_text_cell [OF this] parse_num_text [OF this] Some show ?thesis
      by (simp add: c_def parseFloatCell_def plain_cell_def)
  qed (simp add: c_def plain_cell_def parseFloatCell_def)
  then show "plain_cell c" "parseFloatCell c = v" by blast+
qed

lemma row_escaped:
  assumes "take_writable wide t"
  shows "base_cells t @ (if wide then resolution_cells t else []) = map escapeFenceCell (raw_cells wide t)"
proof -
  note esc = plain_cell_facts(1) [OF _ takes_end_mark]
  have "0 < tk_rowNum t" "tk_rowNum t < 10 ^ 21" using assms by (auto simp: take_writable_def)
  then have n: "escapeFenceCell (num_text (of_int (tk_rowNum t))) = num_text (of_int (tk_rowNum t))"
    using esc row_number_cell(1) by blast
  have k: "escapeFenceCell (tk_kind t) = tk_kind t" "escapeFenceCell (format_weight (tk_weight t)) = format_weight (tk_weight t)"
    using assms esc weight_cell by (auto simp: take_writable_def)
  show ?thesis
  proof (cases wide)
    case True
    then have "case tk_resolvedValue t of None \<Rightarrow> True | Some v \<Rightarrow> plain_number v"
      using assms by (simp add: take_writable_def resolution_ok_def)
    from esc [OF value_cell(1) [OF this]]
    have v: "escapeFenceCell (case tk_resolvedValue t of None \<Rightarrow> [] | Some x \<Rightarrow> num_text x) =
        (case tk_resolvedValue t of None \<Rightarrow> [] | Some x \<Rightarrow> num_text x)" .
    have q: "escapeFenceCell (case tk_resolvedQuality t of None \<Rightarrow> [] | Some q \<Rightarrow> quality_text q) =
        (case tk_resolvedQuality t of None \<Rightarrow> [] | Some q \<Rightarrow> quality_text q)"
      using esc quality_cell(1) by (cases "tk_resolvedQuality t") simp_all
    show ?thesis using n k v q True by (simp add: base_cells_def resolution_cells_def raw_cells_def)
  next
    case False
    then show ?thesis using n k by (simp add: base_cells_def raw_cells_def)
  qed
qed

lemma raw_cells_ok:
  assumes "take_writable wide t" and "c \<in> set (raw_cells wide t)"
  shows "10 \<notin> set c" and "\<not> sublist TAKES_FENCE_END c"
proof -
  note plain = plain_cell_facts(2,3) [OF _ takes_end_mark]
  have ok: "tk_rowNum t < 10 ^ 21" "0 < tk_rowNum t" "claim_ok TAKES_FENCE_END (tk_active t) (tk_claim t)"
    "plain_cell (tk_kind t)" "cell_ok TAKES_FENCE_END (tk_holder t)" "weight_ok (tk_weight t)" "dates_ok t"
    "opt_ok (cell_ok TAKES_FENCE_END) (tk_source t)" "resolution_ok wide t" using assms(1) by (auto simp: take_writable_def)
  have wide: "opt_ok (cell_ok TAKES_FENCE_END) (tk_resolvedAt t)" "opt_ok (cell_ok TAKES_FENCE_END) (tk_resolvedEvidence t)"
    "case tk_resolvedValue t of None \<Rightarrow> True | Some v \<Rightarrow> plain_number v"
    "opt_ok (cell_ok TAKES_FENCE_END) (tk_resolvedUnit t)" "opt_ok (cell_ok TAKES_FENCE_END) (tk_resolvedBy t)" if wide
    using ok(9) that by (simp_all add: resolution_ok_def)
  have q: "plain_cell (case tk_resolvedQuality t of None \<Rightarrow> [] | Some q \<Rightarrow> quality_text q)"
    using quality_cell(1) by (simp add: plain_cell_def split: option.split)
  have n: "plain_cell (num_text (of_int (tk_rowNum t)))" using ok(1,2) by (intro row_number_cell)
  note facts = plain [OF n] plain [OF ok(4)] plain [OF weight_cell [OF ok(6)]] plain [OF q]
    claim_cell(2,3) [OF ok(3) takes_end_mark] parse_since_cell(2,3) [OF ok(7)] source_cell(2,3) [OF ok(8) takes_end_mark]
  have h: "10 \<notin> set (tk_holder t)" "\<not> sublist TAKES_FENCE_END (tk_holder t)" using ok(5) by (simp_all add: cell_ok_def)
  have "10 \<notin> set c \<and> \<not> sublist TAKES_FENCE_END c"
  proof (cases wide)
    case True
    note w = source_cell(2,3) [OF wide(1) [OF True] takes_end_mark] source_cell(2,3) [OF wide(2) [OF True] takes_end_mark]
      source_cell(2,3) [OF wide(4) [OF True] takes_end_mark] source_cell(2,3) [OF wide(5) [OF True] takes_end_mark]
      plain [OF value_cell(1) [OF wide(3) [OF True]]]
    show ?thesis using assms(2) True facts h w unfolding raw_cells_def if_P [OF True] by auto
  next
    case False
    show ?thesis using assms(2) False facts h unfolding raw_cells_def if_not_P [OF False] by auto
  qed
  then show "10 \<notin> set c" "\<not> sublist TAKES_FENCE_END c" by blast+
qed

definition takes_columns :: "bool \<Rightarrow> js_text list" where
  "takes_columns wide = map units
     ([''#'', ''claim'', ''kind'', ''who'', ''weight'', ''since'', ''source''] @
      (if wide then [''resolved'', ''quality'', ''evidence'', ''value'', ''unit'', ''by''] else []))"

lemma column_names: "list_all (list_all name_char) (takes_columns wide)"
  by (simp add: takes_columns_def text_lits name_char_def)

lemma raw_not_separator:
  assumes "take_writable wide t" shows "\<not> isSeparatorRow (map u_trim (raw_cells wide t))"
  using assms row_number_cell(2,4) [of "tk_rowNum t"] by (simp add: isSeparatorRow_def raw_cells_def take_writable_def)

lemma find_nth_Nil: "find (\<lambda>i. [] ! i = x) [0..<length []] = None"
  by simp

lemma find_nth_Cons:
  "find (\<lambda>i. (y # ys) ! i = x) [0..<length (y # ys)] =
     (if y = x then Some 0 else map_option Suc (find (\<lambda>i. ys ! i = x) [0..<length ys]))"
proof -
  have up: "[0..<length (y # ys)] = 0 # map Suc [0..<length ys]"
    unfolding map_Suc_upt by (simp add: upt_conv_Cons del: upt_Suc)
  have "find P (map Suc xs) = map_option Suc (find (\<lambda>i. P (Suc i)) xs)" for P xs by (induction xs) simp_all
  then show ?thesis unfolding up by simp
qed

lemma units_inj: "units s = units t \<longleftrightarrow> s = t"
proof -
  have "inj (of_char :: char \<Rightarrow> nat)" by (rule injI) simp
  from inj_map_eq_map [OF this] show ?thesis by (simp add: units_def)
qed

lemma column_index:
  "find (\<lambda>i. takes_columns True ! i = units ''resolved'') [0..<length (takes_columns True)] = Some 7"
  "find (\<lambda>i. takes_columns True ! i = units ''quality'') [0..<length (takes_columns True)] = Some 8"
  "find (\<lambda>i. takes_columns True ! i = units ''evidence'') [0..<length (takes_columns True)] = Some 9"
  "find (\<lambda>i. takes_columns True ! i = units ''value'') [0..<length (takes_columns True)] = Some 10"
  "find (\<lambda>i. takes_columns True ! i = units ''unit'') [0..<length (takes_columns True)] = Some 11"
  "find (\<lambda>i. takes_columns True ! i = units ''by'') [0..<length (takes_columns True)] = Some 12"
  "find (\<lambda>i. takes_columns False ! i = units ''resolved'') [0..<length (takes_columns False)] = None"
  "find (\<lambda>i. takes_columns False ! i = units ''quality'') [0..<length (takes_columns False)] = None"
  "find (\<lambda>i. takes_columns False ! i = units ''evidence'') [0..<length (takes_columns False)] = None"
  "find (\<lambda>i. takes_columns False ! i = units ''value'') [0..<length (takes_columns False)] = None"
  "find (\<lambda>i. takes_columns False ! i = units ''unit'') [0..<length (takes_columns False)] = None"
  "find (\<lambda>i. takes_columns False ! i = units ''by'') [0..<length (takes_columns False)] = None"
  by (simp_all only: takes_columns_def if_True if_False append.simps list.map find_nth_Cons find_nth_Nil units_inj) simp_all

definition holder_warning :: "(nat \<Rightarrow> bool) \<Rightarrow> parsed_take \<Rightarrow> take_warning list" where
  "holder_warning word t =
     (if isValidHolder word (tk_holder t) then [] else [HolderInvalid (tk_holder t) (num_text (of_int (tk_rowNum t)))])"

lemma take_of_raw_cells:
  assumes "take_ok wide t"
  shows "take_of_cells (takes_columns wide) (map u_trim (raw_cells wide t)) (tk_rowNum t) (tk_weight t) = t"
proof -
  have ok: "claim_ok TAKES_FENCE_END (tk_active t) (tk_claim t)" "tk_kind t \<in> set TAKE_KIND_VALUES"
    "cell_ok TAKES_FENCE_END (tk_holder t)" "dates_ok t" "opt_ok (cell_ok TAKES_FENCE_END) (tk_source t)"
    "resolution_ok wide t" using assms by (auto simp: take_ok_def take_writable_def)
  note claim = claim_cell(1) [OF ok(1) takes_end_mark]
  have kind: "u_trim (tk_kind t) = tk_kind t" "u_lower (tk_kind t) = tk_kind t"
    using kind_cell [OF ok(2)] by (auto simp: plain_cell_def)
  have holder: "u_trim (tk_holder t) = tk_holder t" using ok(3) by (simp add: cell_ok_def)
  note since = parse_since_cell(1) [OF ok(4)] and source = source_cell(1,4) [OF ok(5) takes_end_mark]
  show ?thesis
  proof (cases wide)
    case True
    then have w: "opt_ok (cell_ok TAKES_FENCE_END) (tk_resolvedAt t)" "opt_ok (cell_ok TAKES_FENCE_END) (tk_resolvedEvidence t)"
      "case tk_resolvedValue t of None \<Rightarrow> True | Some v \<Rightarrow> plain_number v" "opt_ok (cell_ok TAKES_FENCE_END) (tk_resolvedUnit t)"
      "opt_ok (cell_ok TAKES_FENCE_END) (tk_resolvedBy t)" "tk_resolvedOutcome t = outcome_of (tk_resolvedQuality t)"
      using ok(6) by (simp_all add: resolution_ok_def)
    have q: "parseQualityCell (u_trim (case tk_resolvedQuality t of None \<Rightarrow> [] | Some q \<Rightarrow> quality_text q)) = tk_resolvedQuality t"
    proof (cases "tk_resolvedQuality t")
      case None
      then show ?thesis by (simp add: parseQualityCell_def quality_text_def text_lits u_lower_def)
    next
      case (Some q)
      then show ?thesis using quality_cell [of q] by (simp add: plain_cell_def)
    qed
    have v: "parseFloatCell (u_trim (case tk_resolvedValue t of None \<Rightarrow> [] | Some v \<Rightarrow> num_text v)) = tk_resolvedValue t"
      using value_cell [OF w(3)] by (simp add: plain_cell_def)
    note texts = source_cell(1,4) [OF w(1) takes_end_mark] source_cell(1,4) [OF w(2) takes_end_mark]
      source_cell(1,4) [OF w(4) takes_end_mark] source_cell(1,4) [OF w(5) takes_end_mark]
    have "take_of_cells (takes_columns True) (map u_trim (raw_cells True t)) (tk_rowNum t) (tk_weight t) = t"
      by (rule parsed_take.equality)
        (simp_all add: take_of_cells_def raw_cells_def text_at_def cell_at_def column_index nth_Cons' claim kind holder since source texts q v
          w(6) Let_def)
    with True show ?thesis by simp
  next
    case False
    then have w: "tk_resolvedAt t = None" "tk_resolvedQuality t = None" "tk_resolvedEvidence t = None"
      "tk_resolvedValue t = None" "tk_resolvedUnit t = None" "tk_resolvedBy t = None" "tk_resolvedOutcome t = outcome_of None"
      using ok(6) by (simp_all add: resolution_ok_def)
    have "take_of_cells (takes_columns False) (map u_trim (raw_cells False t)) (tk_rowNum t) (tk_weight t) = t"
      by (rule parsed_take.equality)
        (simp_all add: w claim kind holder since [unfolded False] source take_of_cells_def raw_cells_def text_at_def cell_at_def column_index nth_Cons' Let_def)
    with False show ?thesis by simp
  qed
qed

lemma take_row_written:
  assumes ok: "take_ok wide t" and new: "tk_rowNum t \<notin> set (ts_seen st)"
  shows "take_row word (takes_columns wide) (map u_trim (raw_cells wide t)) line st =
    st\<lparr>ts_seen := tk_rowNum t # ts_seen st, ts_warnings := ts_warnings st @ holder_warning word t,
       ts_takes := ts_takes st @ [t]\<rparr>"
proof -
  let ?cells = "map u_trim (raw_cells wide t)"
  have o: "0 < tk_rowNum t" "tk_rowNum t < 10 ^ 21" "tk_kind t \<in> set TAKE_KIND_VALUES"
    "cell_ok TAKES_FENCE_END (tk_holder t)" "weight_ok (tk_weight t)" using ok by (auto simp: take_ok_def take_writable_def)
  have len: "\<not> length ?cells < 6" by (simp add: raw_cells_def)
  have c0: "?cells ! 0 = num_text (of_int (tk_rowNum t))" using row_number_cell(2) [OF o(1,2)] by (simp add: raw_cells_def)
  note p0 = row_number_cell(3) [OF o(1,2)]
  have c2: "u_lower (u_trim (?cells ! 2)) = tk_kind t" using kind_cell [OF o(3)] by (simp add: raw_cells_def plain_cell_def)
  have c3: "u_trim (?cells ! 3) = tk_holder t" using o(4) by (simp add: raw_cells_def cell_ok_def)
  have c4: "u_parse_float (?cells ! 4) = Some (tk_weight t)"
    using parse_format_weight [OF o(5)] weight_cell [OF o(5)] by (simp add: raw_cells_def plain_cell_def)
  have o1: "\<not> tk_rowNum t \<le> 0" using o(1) by simp
  show ?thesis
    unfolding take_row_def if_not_P [OF len] c0 p0 option.case if_not_P [OF o1] if_not_P [OF new] c2 Let_def c3 c4
    using o(3) take_of_raw_cells [OF ok] by (simp add: take_warn_def holder_warning_def)
qed

lemma take_rows_written:
  assumes "list_all (take_ok wide) takes" "distinct (map tk_rowNum takes)"
    "set (map tk_rowNum takes) \<inter> set (ts_seen st) = {}"
  shows "fold (\<lambda>cs. take_row word (takes_columns wide) (map u_trim cs) (row_text (map escapeFenceCell cs))) (map (raw_cells wide) takes) st =
    st\<lparr>ts_seen := rev (map tk_rowNum takes) @ ts_seen st,
       ts_warnings := ts_warnings st @ concat (map (holder_warning word) takes), ts_takes := ts_takes st @ takes\<rparr>"
  using assms
proof (induction takes arbitrary: st)
  case (Cons t takes)
  then have new: "tk_rowNum t \<notin> set (ts_seen st)" and ok: "take_ok wide t" by auto
  show ?case
    unfolding list.map fold_simps take_row_written [OF ok new] using Cons by (subst Cons.IH) auto
qed simp

section \<open>Rendering and parsing are inverse\<close>

lemma takes_separator_dashes:
  "takes_separator w = dashes ([2, 6, 5, 4, 7, 6, 7] @ (if w then [9, 8, 9, 6, 5, 3] else []))"
  by (simp add: takes_separator_def dashes_def text_lits)

interpretation takes_table: fenced_table TAKES_FENCE_BEGIN TAKES_FENCE_END takes_columns takes_separator raw_cells take_writable
proof unfold_locales
  fix w
  show "units ''claim'' \<in> set (takes_columns w)" "units ''kind'' \<in> set (takes_columns w)"
    by (simp_all add: takes_columns_def)
  show "map escapeFenceCell (takes_columns w) = takes_columns w" "map u_trim (takes_columns w) = takes_columns w"
    "map u_lower (takes_columns w) = takes_columns w" "\<forall>c \<in> set (takes_columns w). 10 \<notin> set c \<and> 60 \<notin> set c"
    by (rule name_cells [OF column_names])+
  show "u_trim (takes_separator w) \<noteq> []" "10 \<notin> set (takes_separator w)" "60 \<notin> set (takes_separator w)"
    "case parseRowCells (takes_separator w) of None \<Rightarrow> False | Some cs \<Rightarrow> isSeparatorRow cs"
    unfolding takes_separator_dashes by (rule dashes_read; simp)+
next
  fix w r c
  assume "take_writable w r" "c \<in> set (raw_cells w r)"
  with raw_cells_ok show "10 \<notin> set c \<and> \<not> sublist TAKES_FENCE_END c" by blast
qed (simp_all add: takes_end_mark raw_not_separator, simp_all add: raw_cells_def text_lits)

lemma takes_ok_writable: "takes_ok takes \<Longrightarrow> list_all (take_writable (is_wide takes)) takes"
  by (auto simp: takes_ok_def take_ok_def list_all_iff)

lemma render_written:
  assumes "list_all (take_writable (is_wide takes)) takes"
  shows "renderTakesFence takes = written_table TAKES_FENCE_BEGIN TAKES_FENCE_END (takes_columns (is_wide takes))
    (takes_separator (is_wide takes)) (map (raw_cells (is_wide takes)) takes)"
proof -
  have row: "map (\<lambda>t. row_text (base_cells t @ (if is_wide takes then resolution_cells t else []))) takes =
      map (\<lambda>cs. row_text (map escapeFenceCell cs)) (map (raw_cells (is_wide takes)) takes)"
    using assms row_escaped by (simp add: list_all_iff)
  have header: "takes_header w = row_text (takes_columns w)" for w by (simp add: takes_header_def takes_columns_def)
  show ?thesis
    unfolding renderTakesFence_def is_wide_def [symmetric] Let_def written_table_def row header by (rule refl)
qed

text \<open>Where the table stands, its end marker is the first one behind the begin marker.\<close>

lemma rendered_bounds:
  assumes "list_all (take_writable (is_wide takes)) takes" and "\<not> sublist TAKES_FENCE_BEGIN pre"
  shows "fence_bounds TAKES_FENCE_BEGIN TAKES_FENCE_END (pre @ renderTakesFence takes @ post) =
      (Some (length pre), Some (length pre + length (renderTakesFence takes) - length TAKES_FENCE_END))"
    and "replace_fence (pre @ renderTakesFence takes @ post) (length pre)
      (length pre + length (renderTakesFence takes) - length TAKES_FENCE_END) TAKES_FENCE_END block = pre @ block @ post"
  using takes_table.table_bounds(1,2) [OF assms] by (simp_all only: render_written [OF assms(1)])

lemma parse_written:
  assumes ok: "list_all (take_writable (is_wide takes)) takes" and pre: "\<not> sublist TAKES_FENCE_BEGIN pre"
  defines "st \<equiv> \<lambda>word. fold (\<lambda>cs. take_row word (takes_columns (is_wide takes)) (map u_trim cs) (row_text (map escapeFenceCell cs)))
         (map (raw_cells (is_wide takes)) takes) \<lparr>ts_takes = [], ts_warnings = [], ts_seen = []\<rparr>"
  shows "parseTakesFence word (pre @ renderTakesFence takes @ post) = (ts_takes (st word), ts_warnings (st word))"
proof -
  have "length TAKES_FENCE_END \<le> length (renderTakesFence takes)"
    by (simp add: renderTakesFence_def table_text_def Let_def)
  then have order: "\<not> length pre + length (renderTakesFence takes) - length TAKES_FENCE_END < length pre" by simp
  have read: "read_table (take_row word) (\<lambda>l. take_warn (RowBeforeHeader l)) \<lparr>ts_takes = [], ts_warnings = [], ts_seen = []\<rparr>
      (slice (length pre + length TAKES_FENCE_BEGIN) (length pre + length (renderTakesFence takes) - length TAKES_FENCE_END)
        (pre @ renderTakesFence takes @ post)) = (Some (takes_columns (is_wide takes)), st word)"
    unfolding st_def render_written [OF ok] by (rule takes_table.table_bounds(3) [OF ok pre])
  show ?thesis
    unfolding parseTakesFence_def rendered_bounds(1) [OF ok pre] by (simp add: order read Let_def)
qed

lemma parse_render:
  assumes "takes_ok takes" and "\<not> sublist TAKES_FENCE_BEGIN pre"
  shows "parseTakesFence word (pre @ renderTakesFence takes @ post) = (takes, concat (map (holder_warning word) takes))"
proof -
  have "list_all (take_ok (is_wide takes)) takes" "distinct (map tk_rowNum takes)" using assms(1) by (simp_all add: takes_ok_def)
  then show ?thesis
    unfolding parse_written [OF takes_ok_writable [OF assms(1)] assms(2)]
    by (simp only: take_rows_written take_state.simps list.set inf_bot_right) simp
qed

text \<open>C10: a takes table that can be written is read back exactly, wherever it stands on a page: the
  rows, their struck state, dates, weights and resolution columns, with no warning but those on the
  holders. Writable rows have positive distinct numbers, a known kind, trimmed one-line texts
  without the end marker, weights on the grid of hundredths and dates without white space.\<close>

theorem takes_round_trip:
  assumes "takes_ok takes" and "\<not> sublist TAKES_FENCE_BEGIN pre"
  shows "parseTakesFence word (pre @ renderTakesFence takes @ post) = (takes, concat (map (holder_warning word) takes))"
  by (rule parse_render [OF assms])

definition demo_take :: "int \<Rightarrow> string \<Rightarrow> bool \<Rightarrow> parsed_take" where
  "demo_take n claim active =
     \<lparr>tk_rowNum = n, tk_claim = units claim, tk_kind = units ''bet'', tk_holder = units ''people/garry'',
      tk_weight = 7 / 10, tk_sinceDate = Some (units ''2026-04-29''), tk_untilDate = Some (units ''2026-06''),
      tk_source = None, tk_active = active, tk_resolvedAt = None, tk_resolvedQuality = None,
      tk_resolvedOutcome = None, tk_resolvedEvidence = None, tk_resolvedValue = None,
      tk_resolvedUnit = None, tk_resolvedBy = None\<rparr>"

lemma no_mark_without_bracket: "60 \<notin> set s \<Longrightarrow> \<not> sublist TAKES_FENCE_END s \<and> \<not> sublist TAKES_FENCE_BEGIN s"
  by (auto simp: sublist_def text_lits)

lemma demo_take_ok: "0 < n \<Longrightarrow> n < 10 ^ 21 \<Longrightarrow> take_ok False (demo_take n ''Will reach $30B | or more'' a)"
  using no_mark_without_bracket [of "units ''Will reach $30B | or more''"] no_mark_without_bracket [of "units ''people/garry''"]
  by (cases a; simp add: take_ok_def take_writable_def plain_cell_def demo_take_def claim_ok_def cell_ok_def TAKE_KIND_VALUES_def weight_ok_def is_int_def
      dates_ok_def opt_ok_def date_ok_def resolution_ok_def outcome_of_def units_def u_trim_def u_space_def
      stripStrikethrough_def line_end_def)

lemma demo_takes_ok:
  "takes_ok [demo_take 3 ''Will reach $30B | or more'' False, demo_take 1 ''Will reach $30B | or more'' True]"
proof -
  have narrow: "\<not> is_wide [demo_take 3 c False, demo_take 1 c True]" for c by (simp add: is_wide_def demo_take_def)
  have "distinct (map tk_rowNum [demo_take 3 c False, demo_take 1 c True])" for c by (simp add: demo_take_def)
  with demo_take_ok show ?thesis unfolding takes_ok_def by (simp add: narrow)
qed

theorem takes_round_trip_witness:
  "parseTakesFence (\<lambda>c. 97 \<le> c \<and> c \<le> 122) (units ''# Page'' @
     renderTakesFence [demo_take 3 ''Will reach $30B | or more'' False, demo_take 1 ''Will reach $30B | or more'' True] @ units ''rest'') =
   ([demo_take 3 ''Will reach $30B | or more'' False, demo_take 1 ''Will reach $30B | or more'' True],
    concat (map (holder_warning (\<lambda>c. 97 \<le> c \<and> c \<le> 122))
      [demo_take 3 ''Will reach $30B | or more'' False, demo_take 1 ''Will reach $30B | or more'' True]))"
proof (rule takes_round_trip [OF demo_takes_ok])
  show "\<not> sublist TAKES_FENCE_BEGIN (units ''# Page'')"
    using no_mark_without_bracket [of "units ''# Page''"] by (simp add: text_lits)
qed

section \<open>What is parsed is well formed\<close>

definition parsed_ok :: "parsed_take \<Rightarrow> bool" where
  "parsed_ok t = (0 < tk_rowNum t \<and> tk_kind t \<in> set TAKE_KIND_VALUES \<and> u_trim (tk_holder t) = tk_holder t \<and>
     finite_value (tk_weight t) \<and> (tk_untilDate t \<noteq> None \<longrightarrow> tk_sinceDate t \<noteq> None) \<and>
     opt_ok (\<lambda>s. u_trim s = s) (tk_source t) \<and> tk_resolvedOutcome t = outcome_of (tk_resolvedQuality t))"

definition state_ok :: "take_state \<Rightarrow> bool" where
  "state_ok st = (list_all parsed_ok (ts_takes st) \<and> distinct (map tk_rowNum (ts_takes st)) \<and>
     set (map tk_rowNum (ts_takes st)) \<subseteq> set (ts_seen st))"

lemma parse_since_until: "snd (parseSinceCell c) \<noteq> None \<Longrightarrow> fst (parseSinceCell c) \<noteq> None"
  by (auto simp: parseSinceCell_def Let_def split: option.splits if_splits)

lemma take_row_state_ok:
  assumes "state_ok st" shows "state_ok (take_row word header cells line st)"
proof -
  have warn: "state_ok (take_warn w st)" if "state_ok st" for w st using that by (simp add: state_ok_def take_warn_def)
  have seen: "state_ok (st\<lparr>ts_seen := n # ts_seen st\<rparr>)" if "state_ok st" for n st using that by (auto simp: state_ok_def)
  have push: "state_ok (st\<lparr>ts_takes := ts_takes st @ [t]\<rparr>)"
    if "state_ok st" "parsed_ok t" "tk_rowNum t \<in> set (ts_seen st)" "tk_rowNum t \<notin> set (map tk_rowNum (ts_takes st))" for st t
    using that by (auto simp: state_ok_def)
  show ?thesis
  proof (cases "length cells < 6 \<or> u_parse_int (cells ! 0) = None")
    case True
    then show ?thesis using assms warn by (auto simp: take_row_def)
  next
    case False
    then obtain n where len: "\<not> length cells < 6" and n: "u_parse_int (cells ! 0) = Some n" by auto
    let ?st1 = "st\<lparr>ts_seen := n # ts_seen st\<rparr>"
    define st2 where "st2 = (if isValidHolder word (u_trim (cells ! 3)) then ?st1
      else take_warn (HolderInvalid (u_trim (cells ! 3)) (cells ! 0)) ?st1)"
    have st2: "state_ok st2" using warn seen [OF assms] by (simp add: st2_def)
    have st2': "ts_takes st2 = ts_takes st" "ts_seen st2 = n # ts_seen st" by (simp_all add: st2_def take_warn_def)
    show ?thesis
    proof (cases "n \<le> 0 \<or> n \<in> set (ts_seen st) \<or> u_lower (u_trim (cells ! 2)) \<notin> set TAKE_KIND_VALUES")
      case True
      then show ?thesis using assms warn seen len n by (auto simp: take_row_def Let_def)
    next
      case new: False
      then have row: "take_row word header cells line st =
          (case u_parse_float (cells ! 4) of None \<Rightarrow> take_warn (NonNumericWeight (cells ! 4)) st2
           | Some w \<Rightarrow> st2\<lparr>ts_takes := ts_takes st2 @ [take_of_cells header cells n w]\<rparr>)"
        unfolding st2_def using len n by (simp add: take_row_def Let_def)
      show ?thesis
      proof (cases "u_parse_float (cells ! 4)")
        case None
        then show ?thesis using row warn st2 by simp
      next
        case (Some w)
        have "parsed_ok (take_of_cells header cells n w)"
          using new parse_float_finite [OF Some] string_cell_ok parse_since_until
          by (simp add: parsed_ok_def take_of_cells_def Let_def)
        moreover have "tk_rowNum (take_of_cells header cells n w) = n" by (simp add: take_of_cells_def Let_def)
        ultimately show ?thesis
          using row Some push [OF st2] st2' new assms by (auto simp: state_ok_def)
      qed
    qed
  qed
qed

lemma parsed_takes_ok:
  "list_all parsed_ok (fst (parseTakesFence word body)) \<and> distinct (map tk_rowNum (fst (parseTakesFence word body)))"
proof -
  have "state_ok (snd (read_table (take_row word) (\<lambda>l. take_warn (RowBeforeHeader l))
      \<lparr>ts_takes = [], ts_warnings = [], ts_seen = []\<rparr> inner))" for inner
    by (rule read_table_invariant) (auto simp: take_row_state_ok, simp_all add: state_ok_def take_warn_def)
  then have st: "list_all parsed_ok (ts_takes (snd (read_table (take_row word) (\<lambda>l. take_warn (RowBeforeHeader l))
      \<lparr>ts_takes = [], ts_warnings = [], ts_seen = []\<rparr> inner))) \<and>
    distinct (map tk_rowNum (ts_takes (snd (read_table (take_row word) (\<lambda>l. take_warn (RowBeforeHeader l))
      \<lparr>ts_takes = [], ts_warnings = [], ts_seen = []\<rparr> inner))))" for inner unfolding state_ok_def by blast
  obtain b e where "fence_bounds TAKES_FENCE_BEGIN TAKES_FENCE_END body = (b, e)" by fastforce
  then show ?thesis using st
    by (cases b; cases e) (simp_all add: parseTakesFence_def Let_def)
qed

lemma parsed_takes_distinct: "distinct (map tk_rowNum (fst (parseTakesFence word body)))"
  using parsed_takes_ok by blast

text \<open>C40: whatever a page contains, the rows the takes parser returns are well formed: their numbers are
  positive and never repeat, the kind is one of the four, weights are finite, holders and sources
  are trimmed and a source is not empty, an end date comes with a start date, and the outcome is the
  one the quality stands for.\<close>

theorem parsed_takes_well_formed:
  "list_all parsed_ok (fst (parseTakesFence word body)) \<and> distinct (map tk_rowNum (fst (parseTakesFence word body)))"
  by (rule parsed_takes_ok)

end
