(* ===== verification/TakesEdit.thy ===== *)
theory TakesEdit
  imports TakesFence
begin

text \<open>
  What the edits of a takes table (\<open>src/core/takes-fence.ts\<close>) do to the rows the page holds. A page
  stands for its rows, \<open>takes_of\<close>; appending refines appending to a list, superseding refines
  striking one row and appending another, and the text around the table stays.
\<close>

definition takes_of :: "(nat \<Rightarrow> bool) \<Rightarrow> js_text \<Rightarrow> parsed_take list" where
  "takes_of word body = fst (parseTakesFence word body)"

text \<open>The page has both markers or no begin marker.\<close>

definition balanced :: "js_text \<Rightarrow> bool" where
  "balanced body = (case fence_bounds TAKES_FENCE_BEGIN TAKES_FENCE_END body of
     (Some b, None) \<Rightarrow> False | _ \<Rightarrow> True)"

lemma takes_begin_mark: "comment_mark TAKES_FENCE_BEGIN" "10 \<notin> set TAKES_FENCE_BEGIN"
  by (simp_all add: comment_mark_def text_lits)

lemma no_begin_before_table:
  assumes "\<not> sublist TAKES_FENCE_BEGIN body"
  shows "\<not> sublist TAKES_FENCE_BEGIN (body @ (if body \<noteq> [] \<and> last body = 10 then [10] else [10, 10]) @ units ''## Takes'' @ [10, 10])"
  by (rule no_mark_append [OF takes_begin_mark assms]) (simp_all add: units_def)

lemma begin_marker_found: "fst (fence_bounds TAKES_FENCE_BEGIN TAKES_FENCE_END body) = None \<longleftrightarrow> \<not> sublist TAKES_FENCE_BEGIN body"
proof -
  have "TAKES_FENCE_BEGIN \<noteq> []" by (simp add: text_lits)
  then show ?thesis by (simp add: fence_bounds_def index_of_None Let_def)
qed

text \<open>Where an edit puts its table.\<close>

lemma upsert_places_table:
  assumes "balanced body"
  obtains pre post where
    "fst (upsertTakeRow word body r) = pre @ renderTakesFence (takes_of word body @ [take_of_new r (snd (upsertTakeRow word body r))]) @ post"
    "\<not> sublist TAKES_FENCE_BEGIN pre"
    "sublist TAKES_FENCE_BEGIN body \<longrightarrow> stripTakesFence body = pre @ post"
    "\<not> sublist TAKES_FENCE_BEGIN body \<longrightarrow> prefix body pre"
proof (cases "fence_bounds TAKES_FENCE_BEGIN TAKES_FENCE_END body")
  case (Pair b e)
  let ?table = "renderTakesFence (takes_of word body @ [take_of_new r (snd (upsertTakeRow word body r))])"
  show thesis
  proof (cases b)
    case None
    let ?pre = "body @ (if body \<noteq> [] \<and> last body = 10 then [10] else [10, 10]) @ units ''## Takes'' @ [10, 10]"
    have no: "\<not> sublist TAKES_FENCE_BEGIN body" using begin_marker_found [of body] Pair None by simp
    have "fst (upsertTakeRow word body r) = ?pre @ ?table @ [10]"
      by (simp add: upsertTakeRow_def takes_of_def Let_def Pair None)
    with no_begin_before_table [OF no] no show thesis by (intro that [of ?pre "[10]"]) simp_all
  next
    case (Some i)
    with Pair assms obtain j where bounds: "fence_bounds TAKES_FENCE_BEGIN TAKES_FENCE_END body = (Some i, Some j)"
      by (cases e) (auto simp: balanced_def)
    from takes_table.bounds_split [OF this] obtain pre inner post where
      body: "body = pre @ TAKES_FENCE_BEGIN @ inner @ TAKES_FENCE_END @ post" "length pre = i"
      "j = i + length TAKES_FENCE_BEGIN + length inner" "\<not> sublist TAKES_FENCE_BEGIN pre" by blast
    have replace: "replace_fence body i j TAKES_FENCE_END block = pre @ block @ post" for block
      using takes_table.replace_found [of pre inner post block] body by simp
    have "fst (upsertTakeRow word body r) = pre @ ?table @ post"
      by (simp add: upsertTakeRow_def takes_of_def Let_def bounds replace)
    moreover have "stripTakesFence body = pre @ post" by (simp add: stripTakesFence_def bounds replace)
    moreover have "sublist TAKES_FENCE_BEGIN body" using body(1) by auto
    ultimately show thesis using body(4) by (intro that [of pre post]) simp_all
  qed
qed

lemma next_row_fresh: "t \<in> set takes \<Longrightarrow> tk_rowNum t < next_row takes"
proof -
  assume "t \<in> set takes"
  then have "tk_rowNum t \<le> Max (set (map tk_rowNum takes))" by (intro Max_ge) auto
  with \<open>t \<in> set takes\<close> show ?thesis by (auto simp: next_row_def)
qed

lemma upsert_number: "snd (upsertTakeRow word body r) = or_default (next_row (takes_of word body)) (nt_rowNum r)"
  by (simp add: upsertTakeRow_def takes_of_def Let_def)

lemma strip_written:
  assumes "list_all (take_writable (is_wide takes)) takes" "\<not> sublist TAKES_FENCE_BEGIN pre"
  shows "stripTakesFence (pre @ renderTakesFence takes @ post) = pre @ post"
  by (simp add: stripTakesFence_def rendered_bounds [OF assms])

text \<open>Appending a take refines appending to the list of rows a page stands for: the edited page
  stands for the old rows followed by the new one, whose number, if it is not given, is larger than
  all others; the text outside an existing table is unchanged, and a page without a table keeps its
  text in front of the new one. The page must not have a begin marker alone, and the resulting rows
  must be writable.\<close>

theorem upsert_refines_append:
  assumes "balanced body" and "(page, n) = upsertTakeRow word body r"
    and "takes_ok (takes_of word body @ [take_of_new r n])"
  shows "takes_of word page = takes_of word body @ [take_of_new r n] \<and>
    (nt_rowNum r = None \<longrightarrow> (\<forall>t \<in> set (takes_of word body). tk_rowNum t < n)) \<and>
    (if sublist TAKES_FENCE_BEGIN body then stripTakesFence page = stripTakesFence body else prefix body page)"
proof -
  have page: "page = fst (upsertTakeRow word body r)" and n: "n = snd (upsertTakeRow word body r)"
    using assms(2) by (simp_all add: prod_eq_iff)
  obtain pre post where put: "page = pre @ renderTakesFence (takes_of word body @ [take_of_new r n]) @ post"
    "\<not> sublist TAKES_FENCE_BEGIN pre" "sublist TAKES_FENCE_BEGIN body \<longrightarrow> stripTakesFence body = pre @ post"
    "\<not> sublist TAKES_FENCE_BEGIN body \<longrightarrow> prefix body pre"
    unfolding page n using upsert_places_table [OF assms(1), of word r] by blast
  have "takes_of word page = takes_of word body @ [take_of_new r n]"
    using parse_render [OF assms(3) put(2), of word post] unfolding put(1)
    by (simp only: takes_of_def [of word "_ @ _"] fst_conv)
  moreover have "stripTakesFence page = pre @ post"
    unfolding put(1) by (rule strip_written [OF takes_ok_writable [OF assms(3)] put(2)])
  moreover have "\<forall>t \<in> set (takes_of word body). tk_rowNum t < n" if "nt_rowNum r = None"
    using that next_row_fresh upsert_number [of word body r] n by (simp add: or_default_def)
  ultimately show ?thesis using put by auto
qed

definition demo_new :: "string \<Rightarrow> new_take" where
  "demo_new kind = \<lparr>nt_rowNum = None, nt_claim = units ''Will reach $30B | or more'', nt_kind = units kind,
     nt_holder = units ''people/garry'', nt_weight = Some (7 / 10), nt_sinceDate = Some (units ''2026-04-29''),
     nt_untilDate = Some (units ''2026-06''), nt_source = None, nt_active = None\<rparr>"

definition demo_page :: js_text where
  "demo_page = units ''# Page'' @
     renderTakesFence [demo_take 3 ''Will reach $30B | or more'' False, demo_take 1 ''Will reach $30B | or more'' True] @ units ''rest''"

lemma demo_page_takes:
  "takes_of word demo_page = [demo_take 3 ''Will reach $30B | or more'' False, demo_take 1 ''Will reach $30B | or more'' True]"
    (is "_ = ?rows")
  and demo_page_balanced: "balanced demo_page" and demo_page_begin: "sublist TAKES_FENCE_BEGIN demo_page"
proof -
  have pre: "\<not> sublist TAKES_FENCE_BEGIN (units ''# Page'')"
    using no_mark_without_bracket [of "units ''# Page''"] by (simp add: units_def)
  show "takes_of word demo_page = ?rows"
    unfolding takes_of_def demo_page_def parse_render [OF demo_takes_ok pre] by simp
  show "balanced demo_page"
    unfolding balanced_def demo_page_def rendered_bounds(1) [OF takes_ok_writable [OF demo_takes_ok] pre] by simp
  show "sublist TAKES_FENCE_BEGIN demo_page"
    by (simp add: demo_page_def renderTakesFence_def table_text_def Let_def)
qed

lemma demo_three_ok:
  assumes "0 < n" "n < 10 ^ 21" "n \<noteq> 3" "n \<noteq> 1"
  shows "takes_ok [demo_take 3 ''Will reach $30B | or more'' a, demo_take 1 ''Will reach $30B | or more'' b,
    demo_take n ''Will reach $30B | or more'' True]"
proof -
  have narrow: "\<not> is_wide [demo_take 3 c a, demo_take 1 c b, demo_take n c True]" for c by (simp add: is_wide_def demo_take_def)
  have "distinct (map tk_rowNum [demo_take 3 c a, demo_take 1 c b, demo_take n c True])" for c
    using assms by (simp add: demo_take_def)
  with demo_take_ok assms(1,2) show ?thesis unfolding takes_ok_def by (simp add: narrow)
qed

lemma demo_number: "snd (upsertTakeRow word demo_page (demo_new k)) = 4"
  unfolding upsert_number demo_page_takes by (simp add: demo_new_def or_default_def next_row_def demo_take_def)

lemma demo_new_take: "take_of_new (demo_new ''bet'') n = demo_take n ''Will reach $30B | or more'' True"
  by (simp add: take_of_new_def demo_new_def demo_take_def or_default_def)

theorem upsert_refines_append_witness:
  "takes_of (\<lambda>c. True) (fst (upsertTakeRow (\<lambda>c. True) demo_page (demo_new ''bet''))) =
     takes_of (\<lambda>c. True) demo_page @ [demo_take 4 ''Will reach $30B | or more'' True]"
proof -
  have ok: "takes_ok (takes_of (\<lambda>c. True) demo_page @ [take_of_new (demo_new ''bet'') 4])"
    unfolding demo_page_takes demo_new_take using demo_three_ok [of 4 False True] by simp
  have "(fst (upsertTakeRow (\<lambda>c. True) demo_page (demo_new ''bet'')), 4) = upsertTakeRow (\<lambda>c. True) demo_page (demo_new ''bet'')"
    using demo_number [of "\<lambda>c. True" "''bet''"] by (simp add: prod_eq_iff)
  from upsert_refines_append [OF demo_page_balanced this ok] show ?thesis by (simp add: demo_new_take)
qed

section \<open>Superseding\<close>

definition superseding :: "parsed_take list \<Rightarrow> new_take \<Rightarrow> parsed_take" where
  "superseding takes r =
     take_of_new (r\<lparr>nt_source := Some (or_default (units ''superseded by #'' @ num_text (of_int (next_row takes))) (nt_source r)),
       nt_active := Some True\<rparr>) (next_row takes)"

text \<open>Rows come only from a table with both markers.\<close>

lemma takes_have_markers:
  assumes "t \<in> set (takes_of word body)"
  obtains b e where "fence_bounds TAKES_FENCE_BEGIN TAKES_FENCE_END body = (Some b, Some e)"
proof -
  obtain x y where xy: "fence_bounds TAKES_FENCE_BEGIN TAKES_FENCE_END body = (x, y)" by fastforce
  with assms have "x \<noteq> None \<and> y \<noteq> None"
    by (cases x; cases y) (simp_all add: takes_of_def parseTakesFence_def)
  with xy that show thesis by auto
qed

lemma find_row:
  assumes "distinct (map tk_rowNum takes)" "idx < length takes" "tk_rowNum (takes ! idx) = n"
  shows "find (\<lambda>i. tk_rowNum (takes ! i) = n) [0..<length takes] = Some idx"
proof -
  have "\<forall>j < idx. tk_rowNum (takes ! j) \<noteq> n"
    using assms nth_eq_iff_index_eq [OF assms(1)] by fastforce
  then show ?thesis using assms(2,3) unfolding find_Some_iff by (intro exI [of _ idx]) auto
qed

text \<open>Superseding row \<open>n\<close> of a page strikes exactly that row and appends the replacement under a new
  number, with a reference to it as the default source; every other row and the text around the
  table stay. The resulting rows must be writable.\<close>

theorem supersede_strikes_and_appends:
  assumes "idx < length (takes_of word body)" and "tk_rowNum (takes_of word body ! idx) = old"
    and "takes_ok ((takes_of word body)[idx := (takes_of word body ! idx)\<lparr>tk_active := False\<rparr>] @
      [superseding (takes_of word body) r])"
  shows "\<exists>page. supersedeRow word body old r = Inr (page, next_row (takes_of word body)) \<and>
    takes_of word page = (takes_of word body)[idx := (takes_of word body ! idx)\<lparr>tk_active := False\<rparr>] @
      [superseding (takes_of word body) r] \<and>
    stripTakesFence page = stripTakesFence body"
proof -
  let ?takes = "takes_of word body"
  let ?new = "?takes[idx := (?takes ! idx)\<lparr>tk_active := False\<rparr>] @ [superseding ?takes r]"
  have dist: "distinct (map tk_rowNum ?takes)" using parsed_takes_distinct by (simp add: takes_of_def)
  obtain i j where bounds: "fence_bounds TAKES_FENCE_BEGIN TAKES_FENCE_END body = (Some i, Some j)"
    by (rule takes_have_markers [OF nth_mem [OF assms(1)]])
  from takes_table.bounds_split [OF this] obtain pre inner post where
    body: "body = pre @ TAKES_FENCE_BEGIN @ inner @ TAKES_FENCE_END @ post" "length pre = i"
    "j = i + length TAKES_FENCE_BEGIN + length inner" "\<not> sublist TAKES_FENCE_BEGIN pre" by blast
  have replace: "replace_fence body i j TAKES_FENCE_END block = pre @ block @ post" for block
    using takes_table.replace_found [of pre inner post block] body by simp
  have "supersedeRow word body old r = Inr (pre @ renderTakesFence ?new @ post, next_row ?takes)"
    using find_row [OF dist assms(1,2)]
    by (simp add: supersedeRow_def takes_of_def [symmetric] superseding_def Let_def bounds replace)
  moreover have "takes_of word (pre @ renderTakesFence ?new @ post) = ?new"
    unfolding takes_of_def [of word "pre @ renderTakesFence ?new @ post"] parse_render [OF assms(3) body(4)] by simp
  moreover have "stripTakesFence (pre @ renderTakesFence ?new @ post) = stripTakesFence body"
    unfolding strip_written [OF takes_ok_writable [OF assms(3)] body(4)]
    by (simp add: stripTakesFence_def bounds replace)
  ultimately show ?thesis by blast
qed

theorem supersede_strikes_and_appends_witness:
  "\<exists>page. supersedeRow (\<lambda>c. True) demo_page 1 ((demo_new ''bet'')\<lparr>nt_source := Some (units ''revised'')\<rparr>) = Inr (page, 4) \<and>
    map tk_active (takes_of (\<lambda>c. True) page) = [False, False, True]"
proof -
  let ?r = "(demo_new ''bet'')\<lparr>nt_source := Some (units ''revised'')\<rparr>"
  let ?t = "takes_of (\<lambda>c. True) demo_page"
  have n: "next_row ?t = 4" unfolding demo_page_takes by (simp add: next_row_def demo_take_def)
  have new: "superseding ?t ?r = (demo_take 4 ''Will reach $30B | or more'' True)\<lparr>tk_source := Some (units ''revised'')\<rparr>"
    by (simp add: superseding_def n take_of_new_def demo_new_def demo_take_def or_default_def)
  have src: "take_ok False ((demo_take 4 ''Will reach $30B | or more'' True)\<lparr>tk_source := Some (units ''revised'')\<rparr>)"
    using demo_take_ok [of 4 True] no_mark_without_bracket [of "units ''revised''"]
    by (simp add: take_ok_def take_writable_def dates_ok_def resolution_ok_def opt_ok_def cell_ok_def demo_take_def units_def u_trim_def u_space_def)
  have old: "(?t ! 1)\<lparr>tk_active := False\<rparr> = demo_take 1 ''Will reach $30B | or more'' False"
    unfolding demo_page_takes by (simp add: demo_take_def)
  have upd: "?t[1 := (?t ! 1)\<lparr>tk_active := False\<rparr>] @ [superseding ?t ?r] =
      [demo_take 3 ''Will reach $30B | or more'' False, demo_take 1 ''Will reach $30B | or more'' False,
       (demo_take 4 ''Will reach $30B | or more'' True)\<lparr>tk_source := Some (units ''revised'')\<rparr>]"
    unfolding old new unfolding demo_page_takes by simp
  have narrow: "\<not> is_wide [demo_take 3 c False, demo_take 1 c False, (demo_take 4 c True)\<lparr>tk_source := x\<rparr>]" for c x
    by (simp add: is_wide_def demo_take_def)
  have dist: "distinct (map tk_rowNum [demo_take 3 c False, demo_take 1 c False, (demo_take 4 c True)\<lparr>tk_source := x\<rparr>])" for c x
    by (simp add: demo_take_def)
  have ok: "takes_ok (?t[1 := (?t ! 1)\<lparr>tk_active := False\<rparr>] @ [superseding ?t ?r])"
    unfolding upd takes_ok_def using src demo_take_ok dist by (simp add: narrow)
  have "1 < length ?t" "tk_rowNum (?t ! 1) = 1" unfolding demo_page_takes by (simp_all add: demo_take_def)
  from supersede_strikes_and_appends [OF this ok] obtain page where page:
    "supersedeRow (\<lambda>c. True) demo_page 1 ?r = Inr (page, next_row ?t)" "takes_of (\<lambda>c. True) page =
      ?t[1 := (?t ! 1)\<lparr>tk_active := False\<rparr>] @ [superseding ?t ?r]" by blast
  have "map tk_active (takes_of (\<lambda>c. True) page) = [False, False, True]" unfolding page(2) upd by (simp add: demo_take_def)
  with page(1) n show ?thesis by auto
qed

text \<open>Superseding fails exactly when the page has no row with the number, and then with the error
  that names it; the second error of the code, missing markers, never happens.\<close>

theorem supersede_fails_iff_missing:
  "supersedeRow word body old r = Inl err \<longleftrightarrow> err = RowNotFound old \<and> old \<notin> tk_rowNum ` set (takes_of word body)"
proof (cases "find (\<lambda>i. tk_rowNum (takes_of word body ! i) = old) [0..<length (takes_of word body)]")
  case None
  then have "old \<notin> tk_rowNum ` set (takes_of word body)"
    by (auto simp: find_None_iff in_set_conv_nth)
  then show ?thesis using None by (auto simp: supersedeRow_def takes_of_def [symmetric] Let_def)
next
  case (Some idx)
  then have idx: "idx < length (takes_of word body)" "tk_rowNum (takes_of word body ! idx) = old"
    by (auto simp: find_Some_iff)
  obtain i j where bounds: "fence_bounds TAKES_FENCE_BEGIN TAKES_FENCE_END body = (Some i, Some j)"
    by (rule takes_have_markers [OF nth_mem [OF idx(1)]])
  have "old \<in> tk_rowNum ` set (takes_of word body)" using nth_mem [OF idx(1)] idx(2) by blast
  then show ?thesis using Some by (simp add: supersedeRow_def takes_of_def [symmetric] Let_def bounds)
qed

section \<open>Rows that get lost\<close>

text \<open>Stripping removes a table wherever it stands and nothing else, but only the first one: the rows
  of a second table are neither parsed nor removed from the text that is chunked.\<close>

theorem strip_removes_first_table_only:
  assumes "takes_ok takes" and "takes_ok hidden" and "\<not> sublist TAKES_FENCE_BEGIN pre"
  shows "stripTakesFence (pre @ renderTakesFence takes @ post) = pre @ post \<and>
    takes_of word (pre @ renderTakesFence takes @ mid @ renderTakesFence hidden @ post) = takes \<and>
    stripTakesFence (pre @ renderTakesFence takes @ mid @ renderTakesFence hidden @ post) =
      pre @ mid @ renderTakesFence hidden @ post"
  using strip_written [OF takes_ok_writable [OF assms(1)] assms(3)] parse_render [OF assms(1,3)]
  by (simp add: takes_of_def)

theorem strip_removes_first_table_only_witness:
  "stripTakesFence (units ''intro'' @ renderTakesFence [demo_take 3 ''Will reach $30B | or more'' False, demo_take 1 ''Will reach $30B | or more'' True]
     @ units ''outro'') = units ''intro'' @ units ''outro''"
proof -
  have "\<not> sublist TAKES_FENCE_BEGIN (units ''intro'')"
    using no_mark_without_bracket [of "units ''intro''"] by (simp add: units_def)
  from strip_removes_first_table_only [OF demo_takes_ok demo_takes_ok this] show ?thesis by blast
qed

text \<open>A written row of an unknown kind is refused when it is read.\<close>

lemma take_row_unknown:
  assumes ok: "take_writable wide t" and kind: "u_lower (tk_kind t) \<notin> set TAKE_KIND_VALUES" and new: "tk_rowNum t \<notin> set (ts_seen st)"
  shows "take_row word (takes_columns wide) (map u_trim (raw_cells wide t)) line st =
    st\<lparr>ts_seen := tk_rowNum t # ts_seen st, ts_warnings := ts_warnings st @ [UnknownKind (tk_kind t)]\<rparr>"
proof -
  let ?cells = "map u_trim (raw_cells wide t)"
  have o: "0 < tk_rowNum t" "tk_rowNum t < 10 ^ 21" "plain_cell (tk_kind t)" using ok by (auto simp: take_writable_def)
  have len: "\<not> length ?cells < 6" by (simp add: raw_cells_def)
  have c0: "?cells ! 0 = num_text (of_int (tk_rowNum t))" using row_number_cell(2) [OF o(1,2)] by (simp add: raw_cells_def)
  note p0 = row_number_cell(3) [OF o(1,2)]
  have c2: "?cells ! 2 = tk_kind t" using o(3) by (simp add: raw_cells_def plain_cell_def)
  have o1: "\<not> tk_rowNum t \<le> 0" using o(1) by simp
  have "u_lower (u_trim (tk_kind t)) \<notin> set TAKE_KIND_VALUES" using kind o(3) by (simp add: plain_cell_def)
  then show ?thesis
    unfolding take_row_def if_not_P [OF len] c0 p0 option.case if_not_P [OF o1] if_not_P [OF new] c2 Let_def
    by (simp add: take_warn_def)
qed

text \<open>Kinds are open in the types and in the renderer but not in the parser: a row appended with a kind
  outside the four is written to the page and read back as nothing but a warning, and the next
  append gives its number to another row and deletes it from the page.\<close>

theorem unknown_kind_row_is_lost:
  assumes "balanced body" and "(page, n) = upsertTakeRow word body r" and "nt_rowNum r = None"
    and rows: "takes_ok (takes_of word body)" "take_writable (is_wide (takes_of word body)) (take_of_new r n)"
    and kind: "u_lower (nt_kind r) \<notin> set TAKE_KIND_VALUES"
  shows "takes_of word page = takes_of word body \<and> UnknownKind (nt_kind r) \<in> set (snd (parseTakesFence word page)) \<and>
    (nt_rowNum r' = None \<longrightarrow> snd (upsertTakeRow word page r') = n)"
proof -
  let ?old = "takes_of word body" and ?t = "take_of_new r n"
  have page: "page = fst (upsertTakeRow word body r)" and n: "n = snd (upsertTakeRow word body r)"
    using assms(2) by (simp_all add: prod_eq_iff)
  obtain pre post where put: "page = pre @ renderTakesFence (?old @ [?t]) @ post" "\<not> sublist TAKES_FENCE_BEGIN pre"
    unfolding page n using upsert_places_table [OF assms(1), of word r] by blast
  have n': "n = next_row ?old" using upsert_number [of word body r] n assms(3) by (simp add: or_default_def)
  have wide: "is_wide (?old @ [?t]) = is_wide ?old" by (simp add: is_wide_def take_of_new_def)
  have writable: "list_all (take_writable (is_wide (?old @ [?t]))) (?old @ [?t])"
    using takes_ok_writable [OF rows(1)] rows(2) by (simp add: wide)
  have ok: "list_all (take_ok (is_wide ?old)) ?old" "distinct (map tk_rowNum ?old)" using rows(1) by (simp_all add: takes_ok_def)
  have t: "tk_rowNum ?t = n" "tk_kind ?t = nt_kind r" by (simp_all add: take_of_new_def)
  have fresh: "n \<notin> set (map tk_rowNum ?old)" using next_row_fresh n' by fastforce
  let ?st = "\<lparr>ts_takes = ?old, ts_warnings = concat (map (holder_warning word) ?old), ts_seen = rev (map tk_rowNum ?old)\<rparr>"
  have "fold (\<lambda>cs. take_row word (takes_columns (is_wide ?old)) (map u_trim cs) (row_text (map escapeFenceCell cs)))
      (map (raw_cells (is_wide ?old)) (?old @ [?t])) \<lparr>ts_takes = [], ts_warnings = [], ts_seen = []\<rparr> =
    ?st\<lparr>ts_seen := n # ts_seen ?st, ts_warnings := ts_warnings ?st @ [UnknownKind (nt_kind r)]\<rparr>"
    using take_rows_written [OF ok, of "\<lparr>ts_takes = [], ts_warnings = [], ts_seen = []\<rparr>" word]
      take_row_unknown [OF rows(2), of ?st word] kind fresh t by simp
  then have parse: "parseTakesFence word page = (?old, concat (map (holder_warning word) ?old) @ [UnknownKind (nt_kind r)])"
    unfolding put(1) parse_written [OF writable put(2)] wide by simp
  then have "takes_of word page = ?old" by (simp add: takes_of_def)
  with parse n' show ?thesis by (simp add: upsert_number or_default_def)
qed

theorem unknown_kind_row_is_lost_witness:
  "snd (upsertTakeRow (\<lambda>c. True) (fst (upsertTakeRow (\<lambda>c. True) demo_page (demo_new ''prediction''))) (demo_new ''bet'')) = 4 \<and>
   takes_of (\<lambda>c. True) (fst (upsertTakeRow (\<lambda>c. True) demo_page (demo_new ''prediction''))) = takes_of (\<lambda>c. True) demo_page"
proof -
  have "(fst (upsertTakeRow (\<lambda>c. True) demo_page (demo_new ''prediction'')), 4) = upsertTakeRow (\<lambda>c. True) demo_page (demo_new ''prediction'')"
    using demo_number [of "\<lambda>c. True" "''prediction''"] by (simp add: prod_eq_iff)
  moreover have "takes_ok (takes_of (\<lambda>c. True) demo_page)" unfolding demo_page_takes by (rule demo_takes_ok)
  moreover have "\<not> is_wide (takes_of (\<lambda>c. True) demo_page)" unfolding demo_page_takes by (simp add: is_wide_def demo_take_def)
  moreover have "take_writable False (take_of_new (demo_new ''prediction'') 4)"
    using demo_take_ok [of 4 True]
    by (simp add: take_ok_def take_writable_def take_of_new_def demo_new_def demo_take_def or_default_def plain_cell_def
        dates_ok_def resolution_ok_def units_def u_trim_def u_space_def)
  moreover have "u_lower (nt_kind (demo_new ''prediction'')) \<notin> set TAKE_KIND_VALUES"
    by (simp add: demo_new_def TAKE_KIND_VALUES_def units_def u_lower_def)
  moreover have "nt_rowNum (demo_new k) = None" for k by (simp add: demo_new_def)
  ultimately show ?thesis
    using unknown_kind_row_is_lost [OF demo_page_balanced, of _ 4 "\<lambda>c. True" "demo_new ''prediction''" "demo_new ''bet''"] by simp
qed

end
