(* ===== verification/FactsFence.thy ===== *)
theory FactsFence
  imports FenceText
begin

text \<open>
  The facts table of a page (\<open>src/core/facts-fence.ts\<close>): the parser, the renderer and the proof that they
  are inverse, as for the takes table. The columns, the three closed vocabularies and the two ways a
  struck row is read (superseded, forgotten) are its own.
\<close>

section \<open>Rows\<close>

datatype fact_kind = Event | Preference | Commitment | Belief | Fact | Idea
datatype fact_visibility = Private | World
datatype fact_notability = High | Medium | Low

record parsed_fact =
  pf_rowNum :: int
  pf_claim :: js_text
  pf_kind :: fact_kind
  pf_confidence :: rat
  pf_visibility :: fact_visibility
  pf_notability :: fact_notability
  pf_validFrom :: "js_text option"
  pf_validUntil :: "js_text option"
  pf_source :: "js_text option"
  pf_context :: "js_text option"
  pf_active :: bool
  pf_supersededBy :: "int option"
  pf_forgotten :: "bool option"
  pf_claimMetric :: "js_text option"
  pf_claimValue :: "rat option"
  pf_claimUnit :: "js_text option"
  pf_claimPeriod :: "js_text option"

datatype fact_warning =
    FactsUnbalanced | FactsNoHeader | FactBeforeHeader js_text | FactTooFewCells nat js_text
  | FactInvalidRowNum js_text | FactNumCollision int | FactUnknownKind js_text
  | FactUnknownVisibility js_text | FactUnknownNotability js_text | FactNonNumericConfidence js_text js_text

definition FACTS_FENCE_BEGIN :: js_text where
  [text_lits]: "FACTS_FENCE_BEGIN = units ''<!--- gbrain:facts:begin -->''"

definition FACTS_FENCE_END :: js_text where
  [text_lits]: "FACTS_FENCE_END = units ''<!--- gbrain:facts:end -->''"

definition kind_text :: "fact_kind \<Rightarrow> js_text" where
  "kind_text k = (case k of Event \<Rightarrow> units ''event'' | Preference \<Rightarrow> units ''preference''
     | Commitment \<Rightarrow> units ''commitment'' | Belief \<Rightarrow> units ''belief'' | Fact \<Rightarrow> units ''fact'' | Idea \<Rightarrow> units ''idea'')"

definition visibility_text :: "fact_visibility \<Rightarrow> js_text" where
  "visibility_text v = (case v of Private \<Rightarrow> units ''private'' | World \<Rightarrow> units ''world'')"

definition notability_text :: "fact_notability \<Rightarrow> js_text" where
  "notability_text n = (case n of High \<Rightarrow> units ''high'' | Medium \<Rightarrow> units ''medium'' | Low \<Rightarrow> units ''low'')"

definition KIND_VALUES :: "fact_kind list" where
  "KIND_VALUES = [Event, Preference, Commitment, Belief, Fact, Idea]"

definition VISIBILITY_VALUES :: "fact_visibility list" where
  "VISIBILITY_VALUES = [Private, World]"

definition NOTABILITY_VALUES :: "fact_notability list" where
  "NOTABILITY_VALUES = [High, Medium, Low]"

text \<open>Membership of a trimmed lower-case cell in a vocabulary, with the member it names.\<close>

definition word_of :: "('v \<Rightarrow> js_text) \<Rightarrow> 'v list \<Rightarrow> js_text \<Rightarrow> 'v option" where
  "word_of spell vs raw = find (\<lambda>v. u_lower (u_trim raw) = spell v) vs"

section \<open>Cells\<close>

definition parseConfidenceCell :: "js_text \<Rightarrow> rat option" where
  "parseConfidenceCell raw = (if u_trim raw = [] then None else u_parse_float (u_trim raw))"

definition parseNumericCell :: "js_text \<Rightarrow> rat option" where
  "parseNumericCell raw =
     (if u_trim raw = [] then None else u_parse_float (filter (\<lambda>c. c \<noteq> 44) (u_trim raw)))"

text \<open>Case folding of the \<open>i\<close> flag, which relates ASCII letters to ASCII letters only.\<close>

definition u_fold :: "nat \<Rightarrow> nat" where
  "u_fold c = (if 65 \<le> c \<and> c \<le> 90 then c + 32 else c)"

text \<open>\<open>/superseded by #(\d+)/i\<close> matches at offset \<open>i\<close>.\<close>

definition superseded_at :: "js_text \<Rightarrow> nat \<Rightarrow> bool" where
  "superseded_at s i =
     (map u_fold (take 15 (drop i s)) = units ''superseded by #'' \<and>
      (case drop (i + 15) s of [] \<Rightarrow> False | c # r \<Rightarrow> u_digit c))"

definition parseSupersededByFromContext :: "js_text option \<Rightarrow> int option" where
  "parseSupersededByFromContext ctx =
     (case ctx of None \<Rightarrow> None
      | Some s \<Rightarrow>
          (case find (superseded_at s) [0..<length s] of
             None \<Rightarrow> None
           | Some i \<Rightarrow>
               (case u_parse_int (takeWhile u_digit (drop (i + 15) s)) of
                  None \<Rightarrow> None
                | Some n \<Rightarrow> if 0 < n then Some n else None)))"

text \<open>\<open>/^forgotten\s*:/i\<close> on the trimmed text.\<close>

definition parseForgottenFromContext :: "js_text option \<Rightarrow> bool" where
  "parseForgottenFromContext ctx =
     (case ctx of None \<Rightarrow> False
      | Some s \<Rightarrow>
          map u_fold (take 9 (u_trim s)) = units ''forgotten'' \<and>
          (case dropWhile u_space (drop 9 (u_trim s)) of [] \<Rightarrow> False | c # r \<Rightarrow> c = 58))"

section \<open>Parsing\<close>

record fact_state =
  fs_facts :: "parsed_fact list"
  fs_warnings :: "fact_warning list"
  fs_seen :: "int list"

definition fact_warn :: "fact_warning \<Rightarrow> fact_state \<Rightarrow> fact_state" where
  "fact_warn w st = st\<lparr>fs_warnings := fs_warnings st @ [w]\<rparr>"

text \<open>A destructured cell with the default \<open>''\<close>.\<close>

definition cell_or :: "js_text list \<Rightarrow> nat \<Rightarrow> js_text" where
  "cell_or cells i = (if i < length cells then cells ! i else [])"

definition fact_of_cells ::
  "js_text list \<Rightarrow> int \<Rightarrow> fact_kind \<Rightarrow> fact_visibility \<Rightarrow> fact_notability \<Rightarrow> rat \<Rightarrow> parsed_fact" where
  "fact_of_cells cells n k v nb conf =
     (let claim = stripStrikethrough (cells ! 1);
          context = string_cell (cell_or cells 9)
      in \<lparr>pf_rowNum = n, pf_claim = fst claim, pf_kind = k, pf_confidence = conf, pf_visibility = v,
          pf_notability = nb, pf_validFrom = string_cell (cells ! 6), pf_validUntil = string_cell (cells ! 7),
          pf_source = string_cell (cells ! 8), pf_context = context, pf_active = (\<not> snd claim),
          pf_supersededBy = parseSupersededByFromContext context,
          pf_forgotten = Some (if snd claim then parseForgottenFromContext context else False),
          pf_claimMetric = string_cell (cell_or cells 10), pf_claimValue = parseNumericCell (cell_or cells 11),
          pf_claimUnit = string_cell (cell_or cells 12), pf_claimPeriod = string_cell (cell_or cells 13)\<rparr>)"

definition fact_row :: "js_text list \<Rightarrow> js_text \<Rightarrow> fact_state \<Rightarrow> fact_state" where
  "fact_row cells line st =
     (if length cells < 9 then fact_warn (FactTooFewCells (length cells) line) st
      else case u_parse_int (cells ! 0) of
          None \<Rightarrow> fact_warn (FactInvalidRowNum (cells ! 0)) st
        | Some n \<Rightarrow>
            if n \<le> 0 then fact_warn (FactInvalidRowNum (cells ! 0)) st
            else if n \<in> set (fs_seen st) then fact_warn (FactNumCollision n) st
            else let st1 = st\<lparr>fs_seen := n # fs_seen st\<rparr>
                 in case word_of kind_text KIND_VALUES (cells ! 2) of
                      None \<Rightarrow> fact_warn (FactUnknownKind (cells ! 2)) st1
                    | Some k \<Rightarrow>
                        (case word_of visibility_text VISIBILITY_VALUES (cells ! 4) of
                           None \<Rightarrow> fact_warn (FactUnknownVisibility (cells ! 4)) st1
                         | Some v \<Rightarrow>
                             (case word_of notability_text NOTABILITY_VALUES (cells ! 5) of
                                None \<Rightarrow> fact_warn (FactUnknownNotability (cells ! 5)) st1
                              | Some nb \<Rightarrow>
                                  (case parseConfidenceCell (cells ! 3) of
                                     None \<Rightarrow> fact_warn (FactNonNumericConfidence (cells ! 3) (cells ! 0)) st1
                                   | Some c \<Rightarrow>
                                       st1\<lparr>fs_facts := fs_facts st1 @ [fact_of_cells cells n k v nb c]\<rparr>))))"

definition parseFactsFence :: "js_text \<Rightarrow> parsed_fact list \<times> fact_warning list" where
  "parseFactsFence body =
     (case fence_bounds FACTS_FENCE_BEGIN FACTS_FENCE_END body of
        (None, None) \<Rightarrow> ([], [])
      | (Some b, Some e) \<Rightarrow>
          if e < b then ([], [FactsUnbalanced])
          else let inner = slice (b + length FACTS_FENCE_BEGIN) e body;
                   res = read_table (\<lambda>_. fact_row) (\<lambda>l. fact_warn (FactBeforeHeader l))
                           \<lparr>fs_facts = [], fs_warnings = [], fs_seen = []\<rparr> inner;
                   st = snd res
               in (fs_facts st, fs_warnings st @
                     (if fst res = None \<and> fs_facts st = [] \<and>
                         list_ex (\<lambda>l. u_trim l \<noteq> [] \<and> hd (u_trim l) = 124) (split_lines inner)
                      then [FactsNoHeader] else []))
      | _ \<Rightarrow> ([], [FactsUnbalanced]))"

section \<open>Rendering\<close>

definition is_typed :: "parsed_fact \<Rightarrow> bool" where
  "is_typed f = (pf_claimMetric f \<noteq> None \<or> pf_claimValue f \<noteq> None \<or> pf_claimUnit f \<noteq> None \<or> pf_claimPeriod f \<noteq> None)"

definition fact_base_cells :: "parsed_fact \<Rightarrow> js_text list" where
  "fact_base_cells f =
     [num_text (of_int (pf_rowNum f)), escapeFenceCell (strike (pf_active f) (pf_claim f)), kind_text (pf_kind f),
      format_weight (pf_confidence f), visibility_text (pf_visibility f), notability_text (pf_notability f),
      escapeFenceCell (or_default [] (pf_validFrom f)), escapeFenceCell (or_default [] (pf_validUntil f)),
      escapeFenceCell (or_default [] (pf_source f)), escapeFenceCell (or_default [] (pf_context f))]"

definition fact_value_text :: "rat option \<Rightarrow> js_text" where
  "fact_value_text v = (case v of None \<Rightarrow> [] | Some x \<Rightarrow> num_text x)"

definition fact_typed_cells :: "parsed_fact \<Rightarrow> js_text list" where
  "fact_typed_cells f =
     [escapeFenceCell (or_default [] (pf_claimMetric f)), escapeFenceCell (fact_value_text (pf_claimValue f)),
      escapeFenceCell (or_default [] (pf_claimUnit f)), escapeFenceCell (or_default [] (pf_claimPeriod f))]"

definition facts_header :: "bool \<Rightarrow> js_text" where
  "facts_header wide = row_text (map units
     ([''#'', ''claim'', ''kind'', ''confidence'', ''visibility'', ''notability'', ''valid_from'', ''valid_until'',
       ''source'', ''context''] @
      (if wide then [''claim_metric'', ''claim_value'', ''claim_unit'', ''claim_period''] else [])))"

definition facts_separator :: "bool \<Rightarrow> js_text" where
  "facts_separator wide =
     units (''|---|-------|------|------------|------------|------------|------------|-------------|--------|---------|'' @
       (if wide then ''--------------|-------------|------------|--------------|'' else []))"

definition renderFactsTable :: "parsed_fact list \<Rightarrow> js_text" where
  "renderFactsTable facts =
     (let anyTyped = list_ex is_typed facts;
          row = (\<lambda>f. row_text (fact_base_cells f @ (if anyTyped then fact_typed_cells f else [])))
      in table_text FACTS_FENCE_BEGIN FACTS_FENCE_END
           (facts_header anyTyped # facts_separator anyTyped # map row facts))"

section \<open>Rows that can be written\<close>

definition fact_writable :: "bool \<Rightarrow> parsed_fact \<Rightarrow> bool" where
  "fact_writable wide f =
     (0 < pf_rowNum f \<and> pf_rowNum f < 10 ^ 21 \<and> claim_ok FACTS_FENCE_END (pf_active f) (pf_claim f) \<and>
      weight_ok (pf_confidence f) \<and>
      list_all (opt_ok (cell_ok FACTS_FENCE_END)) [pf_validFrom f, pf_validUntil f, pf_source f, pf_context f] \<and>
      (if wide
       then list_all (opt_ok (cell_ok FACTS_FENCE_END)) [pf_claimMetric f, pf_claimUnit f, pf_claimPeriod f] \<and>
         (case pf_claimValue f of None \<Rightarrow> True | Some v \<Rightarrow> plain_number v)
       else \<not> is_typed f))"

definition facts_ok :: "parsed_fact list \<Rightarrow> bool" where
  "facts_ok facts = (list_all (fact_writable (list_ex is_typed facts)) facts \<and> distinct (map pf_rowNum facts))"

text \<open>What a row becomes when it is read again: the two flags are those the context cell stands for.\<close>

definition reread :: "parsed_fact \<Rightarrow> parsed_fact" where
  "reread f = f\<lparr>pf_supersededBy := parseSupersededByFromContext (pf_context f),
     pf_forgotten := Some (\<not> pf_active f \<and> parseForgottenFromContext (pf_context f))\<rparr>"

definition fact_cells :: "bool \<Rightarrow> parsed_fact \<Rightarrow> js_text list" where
  "fact_cells wide f =
     [num_text (of_int (pf_rowNum f)), strike (pf_active f) (pf_claim f), kind_text (pf_kind f),
      format_weight (pf_confidence f), visibility_text (pf_visibility f), notability_text (pf_notability f),
      or_default [] (pf_validFrom f), or_default [] (pf_validUntil f), or_default [] (pf_source f), or_default [] (pf_context f)] @
     (if wide
      then [or_default [] (pf_claimMetric f), fact_value_text (pf_claimValue f), or_default [] (pf_claimUnit f), or_default [] (pf_claimPeriod f)]
      else [])"

definition facts_columns :: "bool \<Rightarrow> js_text list" where
  "facts_columns wide = map units
     ([''#'', ''claim'', ''kind'', ''confidence'', ''visibility'', ''notability'', ''valid_from'', ''valid_until'',
       ''source'', ''context''] @
      (if wide then [''claim_metric'', ''claim_value'', ''claim_unit'', ''claim_period''] else []))"

lemma facts_end_mark: "comment_mark FACTS_FENCE_END"
  by (simp add: comment_mark_def text_lits)

lemma word_of_self:
  "plain_cell (spell v) \<Longrightarrow> u_lower (spell v) = spell v \<Longrightarrow> word_of spell vs (spell v) = find (\<lambda>w. spell v = spell w) vs"
  by (simp add: word_of_def plain_cell_def)

lemma vocabulary_cells:
  "plain_cell (kind_text k)" "word_of kind_text KIND_VALUES (kind_text k) = Some k"
  "plain_cell (visibility_text v)" "word_of visibility_text VISIBILITY_VALUES (visibility_text v) = Some v"
  "plain_cell (notability_text n)" "word_of notability_text NOTABILITY_VALUES (notability_text n) = Some n"
proof -
  show k: "plain_cell (kind_text k)" by (cases k; simp add: kind_text_def plain_cell_def text_lits u_trim_def u_space_def)
  show v: "plain_cell (visibility_text v)" by (cases v; simp add: visibility_text_def plain_cell_def text_lits u_trim_def u_space_def)
  show n: "plain_cell (notability_text n)" by (cases n; simp add: notability_text_def plain_cell_def text_lits u_trim_def u_space_def)
  have lk: "u_lower (kind_text k) = kind_text k" by (cases k; simp add: kind_text_def text_lits u_lower_def)
  have lv: "u_lower (visibility_text v) = visibility_text v" by (cases v; simp add: visibility_text_def text_lits u_lower_def)
  have ln: "u_lower (notability_text n) = notability_text n" by (cases n; simp add: notability_text_def text_lits u_lower_def)
  note self = word_of_self [where spell = kind_text, OF k lk] word_of_self [where spell = visibility_text, OF v lv]
    word_of_self [where spell = notability_text, OF n ln]
  show "word_of kind_text KIND_VALUES (kind_text k) = Some k"
    unfolding self KIND_VALUES_def by (cases k; simp add: kind_text_def text_lits)
  show "word_of visibility_text VISIBILITY_VALUES (visibility_text v) = Some v"
    unfolding self VISIBILITY_VALUES_def by (cases v; simp add: visibility_text_def text_lits)
  show "word_of notability_text NOTABILITY_VALUES (notability_text n) = Some n"
    unfolding self NOTABILITY_VALUES_def by (cases n; simp add: notability_text_def text_lits)
qed

lemma fact_value_cell:
  assumes "case v of None \<Rightarrow> True | Some x \<Rightarrow> plain_number x"
  shows "plain_cell (fact_value_text v)" "parseNumericCell (fact_value_text v) = v"
proof -
  have "plain_cell (fact_value_text v) \<and> parseNumericCell (fact_value_text v) = v"
  proof (cases v)
    case (Some x)
    then have x: "plain_number x" using assms by simp
    have "filter (\<lambda>c. c \<noteq> 44) (num_text x) = num_text x"
      using number_text_cell(3) [OF x] by (auto simp: filter_id_conv list_all_iff number_char_def u_digit_def)
    with number_text_cell(1,2) [OF x] parse_num_text [OF x] Some show ?thesis
      by (simp add: fact_value_text_def parseNumericCell_def plain_cell_def)
  qed (simp add: fact_value_text_def plain_cell_def parseNumericCell_def)
  then show "plain_cell (fact_value_text v)" "parseNumericCell (fact_value_text v) = v" by blast+
qed

text \<open>The cells of a writable row, each with the reason it survives.\<close>

lemma fact_cell_kinds:
  assumes "fact_writable wide f" and "c \<in> set (fact_cells wide f)"
  shows "plain_cell c \<or> (\<exists>x. opt_ok (cell_ok FACTS_FENCE_END) x \<and> c = or_default [] x) \<or> c = strike (pf_active f) (pf_claim f)"
proof -
  have ok: "0 < pf_rowNum f" "pf_rowNum f < 10 ^ 21" "weight_ok (pf_confidence f)"
    "list_all (opt_ok (cell_ok FACTS_FENCE_END)) [pf_validFrom f, pf_validUntil f, pf_source f, pf_context f]"
    using assms(1) by (auto simp: fact_writable_def)
  have num: "plain_cell (fact_value_text (pf_claimValue f))" and
    texts: "list_all (opt_ok (cell_ok FACTS_FENCE_END)) [pf_claimMetric f, pf_claimUnit f, pf_claimPeriod f]" if wide
    using assms(1) that fact_value_cell(1) by (simp_all add: fact_writable_def)
  have "list_all (\<lambda>c. plain_cell c \<or> (\<exists>x. opt_ok (cell_ok FACTS_FENCE_END) x \<and> c = or_default [] x) \<or> c = strike (pf_active f) (pf_claim f))
      (fact_cells wide f)"
    using num texts row_number_cell(1) [OF ok(1,2)] vocabulary_cells weight_cell [OF ok(3)] ok(4)
    by (cases wide) (auto simp: fact_cells_def)
  with assms(2) show ?thesis by (simp add: list_all_iff)
qed

lemma fact_cells_ok:
  assumes "fact_writable wide f" and "c \<in> set (fact_cells wide f)"
  shows "10 \<notin> set c \<and> \<not> sublist FACTS_FENCE_END c"
proof -
  have claim: "claim_ok FACTS_FENCE_END (pf_active f) (pf_claim f)" using assms(1) by (simp add: fact_writable_def)
  from fact_cell_kinds [OF assms] show ?thesis
    using plain_cell_facts(2,3) [OF _ facts_end_mark] source_cell(2,3) [OF _ facts_end_mark] claim_cell(2,3) [OF claim facts_end_mark]
    by blast
qed

lemma fact_row_escaped:
  assumes "fact_writable wide f"
  shows "fact_base_cells f @ (if wide then fact_typed_cells f else []) = map escapeFenceCell (fact_cells wide f)"
proof -
  note esc = plain_cell_facts(1) [OF _ facts_end_mark]
  have "0 < pf_rowNum f" "pf_rowNum f < 10 ^ 21" "weight_ok (pf_confidence f)" using assms by (auto simp: fact_writable_def)
  then show ?thesis
    using esc [OF row_number_cell(1)] esc [OF weight_cell] esc [OF vocabulary_cells(1)] esc [OF vocabulary_cells(3)] esc [OF vocabulary_cells(5)]
    by (simp add: fact_base_cells_def fact_typed_cells_def fact_cells_def)
qed

lemma facts_column_names: "list_all (list_all name_char) (facts_columns w)"
  by (simp add: facts_columns_def text_lits name_char_def)

lemma facts_separator_dashes:
  "facts_separator w = dashes ([2, 6, 5, 11, 11, 11, 11, 12, 7, 8] @ (if w then [13, 12, 11, 13] else []))"
  by (simp add: facts_separator_def dashes_def text_lits)

interpretation facts_table: fenced_table FACTS_FENCE_BEGIN FACTS_FENCE_END facts_columns facts_separator fact_cells fact_writable
proof unfold_locales
  show "\<exists>p ps. FACTS_FENCE_BEGIN = p # ps \<and> p \<notin> set ps" "\<exists>p ps. FACTS_FENCE_END = p # ps \<and> p \<notin> set ps"
    by (simp_all add: text_lits)
  show "comment_mark FACTS_FENCE_END" by (rule facts_end_mark)
next
  fix w
  show "map escapeFenceCell (facts_columns w) = facts_columns w" "map u_trim (facts_columns w) = facts_columns w"
    "map u_lower (facts_columns w) = facts_columns w" "\<forall>c \<in> set (facts_columns w). 10 \<notin> set c \<and> 60 \<notin> set c"
    by (rule name_cells [OF facts_column_names])+
  show "units ''claim'' \<in> set (facts_columns w)" "units ''kind'' \<in> set (facts_columns w)"
    by (simp_all add: facts_columns_def)
  show "u_trim (facts_separator w) \<noteq> []" "10 \<notin> set (facts_separator w)" "60 \<notin> set (facts_separator w)"
    "case parseRowCells (facts_separator w) of None \<Rightarrow> False | Some cs \<Rightarrow> isSeparatorRow cs"
    unfolding facts_separator_dashes by (rule dashes_read; simp)+
next
  fix w r c
  assume r: "fact_writable w r"
  show "fact_cells w r \<noteq> []" by (simp add: fact_cells_def)
  show "\<not> isSeparatorRow (map u_trim (fact_cells w r))"
    using r row_number_cell(2,4) [of "pf_rowNum r"] by (simp add: isSeparatorRow_def fact_cells_def fact_writable_def)
  assume "c \<in> set (fact_cells w r)"
  with r show "10 \<notin> set c \<and> \<not> sublist FACTS_FENCE_END c" by (rule fact_cells_ok)
qed

section \<open>Written rows are read back\<close>

lemma fact_of_written_cells:
  assumes "fact_writable wide f"
  shows "fact_of_cells (map u_trim (fact_cells wide f)) (pf_rowNum f) (pf_kind f) (pf_visibility f) (pf_notability f) (pf_confidence f) = reread f"
proof -
  have ok: "claim_ok FACTS_FENCE_END (pf_active f) (pf_claim f)" "opt_ok (cell_ok FACTS_FENCE_END) (pf_validFrom f)"
    "opt_ok (cell_ok FACTS_FENCE_END) (pf_validUntil f)" "opt_ok (cell_ok FACTS_FENCE_END) (pf_source f)"
    "opt_ok (cell_ok FACTS_FENCE_END) (pf_context f)" using assms by (auto simp: fact_writable_def)
  note claim = claim_cell(1) [OF ok(1) facts_end_mark]
  note texts = source_cell(1,4) [OF ok(2) facts_end_mark] source_cell(1,4) [OF ok(3) facts_end_mark]
    source_cell(1,4) [OF ok(4) facts_end_mark] source_cell(1,4) [OF ok(5) facts_end_mark]
  show ?thesis
  proof (cases wide)
    case True
    then have w: "opt_ok (cell_ok FACTS_FENCE_END) (pf_claimMetric f)" "opt_ok (cell_ok FACTS_FENCE_END) (pf_claimUnit f)"
      "opt_ok (cell_ok FACTS_FENCE_END) (pf_claimPeriod f)" "case pf_claimValue f of None \<Rightarrow> True | Some v \<Rightarrow> plain_number v"
      using assms by (auto simp: fact_writable_def)
    have v: "parseNumericCell (u_trim (fact_value_text (pf_claimValue f))) = pf_claimValue f"
      using fact_value_cell [OF w(4)] by (simp add: plain_cell_def)
    note typed = source_cell(1,4) [OF w(1) facts_end_mark] source_cell(1,4) [OF w(2) facts_end_mark] source_cell(1,4) [OF w(3) facts_end_mark]
    show ?thesis
      by (rule parsed_fact.equality)
        (use True in \<open>simp_all add: fact_of_cells_def reread_def fact_cells_def cell_or_def nth_Cons' claim texts typed v Let_def\<close>)
  next
    case False
    then have "\<not> is_typed f" using assms by (simp add: fact_writable_def)
    then have w: "pf_claimMetric f = None" "pf_claimValue f = None" "pf_claimUnit f = None" "pf_claimPeriod f = None"
      by (simp_all add: is_typed_def)
    have empty: "string_cell [] = None" "parseNumericCell [] = None" by (simp_all add: string_cell_def parseNumericCell_def)
    show ?thesis
      by (rule parsed_fact.equality)
        (use False in \<open>simp_all add: fact_of_cells_def reread_def fact_cells_def cell_or_def nth_Cons' claim texts w empty Let_def\<close>)
  qed
qed

lemma fact_row_written:
  assumes ok: "fact_writable wide f" and new: "pf_rowNum f \<notin> set (fs_seen st)"
  shows "fact_row (map u_trim (fact_cells wide f)) line st =
    st\<lparr>fs_seen := pf_rowNum f # fs_seen st, fs_facts := fs_facts st @ [reread f]\<rparr>"
proof -
  let ?cells = "map u_trim (fact_cells wide f)"
  have o: "0 < pf_rowNum f" "pf_rowNum f < 10 ^ 21" "weight_ok (pf_confidence f)" using ok by (auto simp: fact_writable_def)
  have len: "\<not> length ?cells < 9" by (simp add: fact_cells_def)
  have cells: "?cells ! 0 = num_text (of_int (pf_rowNum f))" "?cells ! 2 = kind_text (pf_kind f)"
    "?cells ! 3 = format_weight (pf_confidence f)" "?cells ! 4 = visibility_text (pf_visibility f)" "?cells ! 5 = notability_text (pf_notability f)"
    using row_number_cell(2) [OF o(1,2)] vocabulary_cells(1,3,5) weight_cell [OF o(3)]
    by (simp_all add: fact_cells_def plain_cell_def)
  have conf: "parseConfidenceCell (format_weight (pf_confidence f)) = Some (pf_confidence f)"
    using weight_cell [OF o(3)] parse_format_weight [OF o(3)] signed_decimal_chars [OF format_weight_decimal [OF o(3)]]
    by (simp add: parseConfidenceCell_def plain_cell_def)
  have o1: "\<not> pf_rowNum f \<le> 0" using o(1) by simp
  show ?thesis
    unfolding fact_row_def if_not_P [OF len] cells row_number_cell(3) [OF o(1,2)] option.case if_not_P [OF o1] if_not_P [OF new]
      vocabulary_cells(2,4,6) conf Let_def fact_of_written_cells [OF ok] by simp
qed

lemma fact_rows_written:
  assumes "list_all (fact_writable wide) facts" "distinct (map pf_rowNum facts)"
    "set (map pf_rowNum facts) \<inter> set (fs_seen st) = {}"
  shows "fold (\<lambda>cs. fact_row (map u_trim cs) (row_text (map escapeFenceCell cs))) (map (fact_cells wide) facts) st =
    st\<lparr>fs_seen := rev (map pf_rowNum facts) @ fs_seen st, fs_facts := fs_facts st @ map reread facts\<rparr>"
  using assms
proof (induction facts arbitrary: st)
  case (Cons f facts)
  then have new: "pf_rowNum f \<notin> set (fs_seen st)" and ok: "fact_writable wide f" by auto
  show ?case
    unfolding list.map fold_simps fact_row_written [OF ok new] using Cons by (subst Cons.IH) auto
qed simp

lemma render_facts_written:
  assumes "list_all (fact_writable (list_ex is_typed facts)) facts"
  shows "renderFactsTable facts = written_table FACTS_FENCE_BEGIN FACTS_FENCE_END (facts_columns (list_ex is_typed facts))
    (facts_separator (list_ex is_typed facts)) (map (fact_cells (list_ex is_typed facts)) facts)"
proof -
  have row: "map (\<lambda>f. row_text (fact_base_cells f @ (if list_ex is_typed facts then fact_typed_cells f else []))) facts =
      map (\<lambda>cs. row_text (map escapeFenceCell cs)) (map (fact_cells (list_ex is_typed facts)) facts)"
    using assms fact_row_escaped by (simp add: list_all_iff)
  have header: "facts_header w = row_text (facts_columns w)" for w by (simp add: facts_header_def facts_columns_def)
  show ?thesis unfolding renderFactsTable_def Let_def written_table_def row header by (rule refl)
qed

lemma facts_ok_writable: "facts_ok facts \<Longrightarrow> list_all (fact_writable (list_ex is_typed facts)) facts"
  by (simp add: facts_ok_def)

lemma facts_bounds:
  assumes "facts_ok facts" and "\<not> sublist FACTS_FENCE_BEGIN pre"
  shows "fence_bounds FACTS_FENCE_BEGIN FACTS_FENCE_END (pre @ renderFactsTable facts @ post) =
      (Some (length pre), Some (length pre + length (renderFactsTable facts) - length FACTS_FENCE_END))"
    and "replace_fence (pre @ renderFactsTable facts @ post) (length pre)
      (length pre + length (renderFactsTable facts) - length FACTS_FENCE_END) FACTS_FENCE_END block = pre @ block @ post"
  using facts_table.table_bounds(1,2) [OF facts_ok_writable [OF assms(1)] assms(2)]
  by (simp_all only: render_facts_written [OF facts_ok_writable [OF assms(1)]])

lemma parse_rendered_facts:
  assumes ok: "facts_ok facts" and pre: "\<not> sublist FACTS_FENCE_BEGIN pre"
  shows "parseFactsFence (pre @ renderFactsTable facts @ post) = (map reread facts, [])"
proof -
  let ?w = "list_ex is_typed facts"
  have writable: "list_all (fact_writable ?w) facts" "distinct (map pf_rowNum facts)" using ok by (simp_all add: facts_ok_def)
  have "length FACTS_FENCE_END \<le> length (renderFactsTable facts)"
    by (simp add: renderFactsTable_def table_text_def Let_def)
  then have order: "\<not> length pre + length (renderFactsTable facts) - length FACTS_FENCE_END < length pre" by simp
  have read: "read_table (\<lambda>_. fact_row) (\<lambda>l. fact_warn (FactBeforeHeader l)) \<lparr>fs_facts = [], fs_warnings = [], fs_seen = []\<rparr>
      (slice (length pre + length FACTS_FENCE_BEGIN) (length pre + length (renderFactsTable facts) - length FACTS_FENCE_END)
        (pre @ renderFactsTable facts @ post)) =
      (Some (facts_columns ?w), \<lparr>fs_facts = map reread facts, fs_warnings = [], fs_seen = rev (map pf_rowNum facts)\<rparr>)"
    unfolding render_facts_written [OF writable(1)] facts_table.table_bounds(3) [OF writable(1) pre]
    by (subst fact_rows_written [OF writable]) simp_all
  show ?thesis
    unfolding parseFactsFence_def facts_bounds(1) [OF ok pre] by (simp add: order read Let_def)
qed

section \<open>What is parsed\<close>

text \<open>A parsed row has a positive number, a finite confidence, no empty texts, and the flags of its context.\<close>

definition fact_parsed :: "parsed_fact \<Rightarrow> bool" where
  "fact_parsed f = (0 < pf_rowNum f \<and> finite_value (pf_confidence f) \<and> reread f = f \<and>
     list_all (opt_ok (\<lambda>s. u_trim s = s)) [pf_validFrom f, pf_validUntil f, pf_source f, pf_context f])"

definition fact_state_ok :: "fact_state \<Rightarrow> bool" where
  "fact_state_ok st = (list_all fact_parsed (fs_facts st) \<and> distinct (map pf_rowNum (fs_facts st)) \<and>
     set (map pf_rowNum (fs_facts st)) \<subseteq> set (fs_seen st))"

lemma fact_of_cells_parsed:
  "0 < n \<Longrightarrow> finite_value c \<Longrightarrow> fact_parsed (fact_of_cells cells n k v nb c) \<and> pf_rowNum (fact_of_cells cells n k v nb c) = n"
  using string_cell_ok by (auto simp: fact_parsed_def fact_of_cells_def reread_def Let_def)

lemma fact_row_state_ok:
  assumes "fact_state_ok st" shows "fact_state_ok (fact_row cells line st)"
proof -
  have warn: "fact_state_ok (fact_warn w st)" if "fact_state_ok st" for w st using that by (simp add: fact_state_ok_def fact_warn_def)
  have seen: "fact_state_ok (st\<lparr>fs_seen := n # fs_seen st\<rparr>)" for n using assms by (auto simp: fact_state_ok_def)
  have push: "fact_state_ok (st\<lparr>fs_seen := n # fs_seen st, fs_facts := fs_facts st @ [fact_of_cells cells n k v nb c]\<rparr>)"
    if "0 < n" "n \<notin> set (fs_seen st)" "finite_value c" for n k v nb c
    using assms that fact_of_cells_parsed [OF that(1,3), of cells k v nb] by (auto simp: fact_state_ok_def)
  have conf: "finite_value c" if "parseConfidenceCell raw = Some c" for raw c
    using that parse_float_finite by (auto simp: parseConfidenceCell_def split: if_splits)
  show ?thesis
    unfolding fact_row_def Let_def using assms warn seen push conf by (auto split: option.split)
qed

lemma parsed_facts_ok:
  "list_all fact_parsed (fst (parseFactsFence body)) \<and> distinct (map pf_rowNum (fst (parseFactsFence body)))"
proof -
  have "fact_state_ok (snd (read_table (\<lambda>_. fact_row) (\<lambda>l. fact_warn (FactBeforeHeader l))
      \<lparr>fs_facts = [], fs_warnings = [], fs_seen = []\<rparr> inner))" for inner
    by (rule read_table_invariant) (auto simp: fact_row_state_ok, simp_all add: fact_state_ok_def fact_warn_def)
  then have st: "list_all fact_parsed (fs_facts (snd (read_table (\<lambda>_. fact_row) (\<lambda>l. fact_warn (FactBeforeHeader l))
      \<lparr>fs_facts = [], fs_warnings = [], fs_seen = []\<rparr> inner))) \<and>
    distinct (map pf_rowNum (fs_facts (snd (read_table (\<lambda>_. fact_row) (\<lambda>l. fact_warn (FactBeforeHeader l))
      \<lparr>fs_facts = [], fs_warnings = [], fs_seen = []\<rparr> inner))))" for inner unfolding fact_state_ok_def by blast
  obtain b e where "fence_bounds FACTS_FENCE_BEGIN FACTS_FENCE_END body = (b, e)" by fastforce
  then show ?thesis using st by (cases b; cases e) (simp_all add: parseFactsFence_def Let_def)
qed

end
