(* ===== verification/FactsEdit.thy ===== *)
theory FactsEdit
  imports FactsFence "HOL-Library.Multiset"
begin

text \<open>
  Edits of a facts table: appending a row (\<open>upsertFactRow\<close>), the placement of a first table above the
  timeline, striking a row when it is forgotten (\<open>src/core/facts/forget.ts\<close>), dropping the rows a reader
  may not see, and the merge that restores them when such a reader writes the page back
  (\<open>restoreHiddenFactRows\<close> and its caller in \<open>src/core/import-file.ts\<close>).
\<close>

section \<open>The merge of hidden rows\<close>

record fact_merge =
  fm_merged :: "parsed_fact list"
  fm_restored :: "parsed_fact list"
  fm_renumbered :: "(int \<times> int) list"

text \<open>The rows of the caller, those on a colliding number moved to fresh numbers from \<open>n\<close> on.\<close>

fun renumber :: "int list \<Rightarrow> int \<Rightarrow> parsed_fact list \<Rightarrow> parsed_fact list \<times> (int \<times> int) list" where
  "renumber colliding n [] = ([], [])"
| "renumber colliding n (f # fs) =
     (if pf_rowNum f \<notin> set colliding
      then (case renumber colliding n fs of (kept, moved) \<Rightarrow> (f # kept, moved))
      else (case renumber colliding (n + 1) fs of (kept, moved) \<Rightarrow>
        (f\<lparr>pf_rowNum := n\<rparr> # kept, (pf_rowNum f, n) # moved)))"

definition next_number :: "parsed_fact list \<Rightarrow> parsed_fact list \<Rightarrow> int" where
  "next_number incoming existing = Max (set (0 # map pf_rowNum incoming @ map pf_rowNum existing)) + 1"

definition restoreHiddenFactRows ::
  "parsed_fact list \<times> fact_warning list \<Rightarrow> parsed_fact list \<times> fact_warning list \<Rightarrow> fact_merge option" where
  "restoreHiddenFactRows incoming existing =
     (if snd incoming \<noteq> [] \<or> snd existing \<noteq> [] then None
      else let hidden = filter (\<lambda>f. pf_visibility f \<noteq> World) (fst existing)
           in if hidden = [] then None
              else let byRowNum = map_of (rev (map (\<lambda>f. (pf_rowNum f, f)) (fst incoming)));
                       collides = (\<lambda>h. case byRowNum (pf_rowNum h) of
                          None \<Rightarrow> False | Some inc \<Rightarrow> pf_claim inc \<noteq> pf_claim h);
                       restored = filter (\<lambda>h. byRowNum (pf_rowNum h) = None \<or> collides h) hidden;
                       colliding = map pf_rowNum (filter collides hidden)
                   in if restored = [] then None
                      else case renumber colliding (next_number (fst incoming) (fst existing)) (fst incoming) of
                          (kept, moved) \<Rightarrow>
                            Some \<lparr>fm_merged = sort_key pf_rowNum (kept @ restored), fm_restored = restored,
                              fm_renumbered = moved\<rparr>)"

text \<open>The warning carries the page and the number of rows that are lost.\<close>

definition factsGapWarning ::
  "js_text \<Rightarrow> parsed_fact list \<times> fact_warning list \<Rightarrow> parsed_fact list \<times> fact_warning list \<Rightarrow> bool \<Rightarrow> (js_text \<times> nat) option" where
  "factsGapWarning slug incoming existing restored =
     (if restored then None
      else if fst existing = [] then None
      else let dropped = length (filter (\<lambda>f. pf_visibility f \<noteq> World \<and> pf_rowNum f \<notin> set (map pf_rowNum (fst incoming))) (fst existing))
           in if dropped = 0 then None else Some (slug, dropped))"

section \<open>Where a first table goes\<close>

text \<open>\<open>/^---\s+timeline\s+---$/i\<close>.\<close>

definition decorated_sentinel :: "js_text \<Rightarrow> bool" where
  "decorated_sentinel t =
     (take 3 t = units ''---'' \<and>
      (let r = drop 3 t; w = dropWhile u_space r; e = drop 8 w
       in r \<noteq> [] \<and> u_space (hd r) \<and> map u_fold (take 8 w) = units ''timeline'' \<and>
          e \<noteq> [] \<and> u_space (hd e) \<and> dropWhile u_space e = units ''---''))"

text \<open>\<open>/^##\s+(timeline|history)\s*$/i\<close>.\<close>

definition timeline_heading :: "js_text \<Rightarrow> bool" where
  "timeline_heading t =
     (take 2 t = units ''##'' \<and>
      (let r = drop 2 t; w = map u_fold (rev (dropWhile u_space (rev (dropWhile u_space r))))
       in r \<noteq> [] \<and> u_space (hd r) \<and> (w = units ''timeline'' \<or> w = units ''history'')))"

text \<open>The first line behind a bare rule that is not blank is a timeline heading.\<close>

definition heading_follows :: "js_text list \<Rightarrow> bool" where
  "heading_follows ls = (case find (\<lambda>l. u_trim l \<noteq> []) ls of None \<Rightarrow> False | Some l \<Rightarrow> timeline_heading (u_trim l))"

fun sentinel_scan :: "js_text list \<Rightarrow> nat \<Rightarrow> js_text list \<Rightarrow> nat option" where
  "sentinel_scan before offset [] = None"
| "sentinel_scan before offset (l # ls) =
     (let trimmed = u_trim l
      in if trimmed = units ''<!-- timeline -->'' \<or> trimmed = units ''<!--timeline-->'' \<or> decorated_sentinel trimmed
         then Some offset
         else if trimmed = units ''---'' \<and> u_trim (join_lines before) \<noteq> [] \<and> heading_follows ls then Some offset
         else sentinel_scan (before @ [l]) (offset + length l + 1) ls)"

text \<open>The number of lines of a leading front matter block, with its delimiters.\<close>

definition frontmatter_lines :: "js_text list \<Rightarrow> nat" where
  "frontmatter_lines ls =
     (if ls \<noteq> [] \<and> u_trim (hd ls) = units ''---''
      then case find (\<lambda>i. u_trim (ls ! i) = units ''---'') [1..<length ls] of None \<Rightarrow> 0 | Some i \<Rightarrow> i + 1
      else 0)"

definition timelineSentinelOffset :: "js_text \<Rightarrow> nat option" where
  "timelineSentinelOffset body =
     (let ls = split_lines body; start = frontmatter_lines ls
      in sentinel_scan [] (sum_list (map (\<lambda>l. length l + 1) (take start ls))) (drop start ls))"

definition ends_with :: "js_text \<Rightarrow> js_text \<Rightarrow> bool" where
  "ends_with s e = (length e \<le> length s \<and> drop (length s - length e) s = e)"

definition replaceOrInsertFactsFence :: "js_text \<Rightarrow> js_text \<Rightarrow> js_text" where
  "replaceOrInsertFactsFence body block =
     (case fence_bounds FACTS_FENCE_BEGIN FACTS_FENCE_END body of
        (Some b, Some e) \<Rightarrow> replace_fence body b e FACTS_FENCE_END block
      | _ \<Rightarrow>
          (let section = units ''## Facts'' @ [10, 10] @ block @ [10]
           in case timelineSentinelOffset body of
                Some pos \<Rightarrow>
                  (let head = take pos body;
                       sep = (if head = [] then [] else if ends_with head [10, 10] then []
                              else if ends_with head [10] then [10] else [10, 10])
                   in head @ sep @ section @ 10 # drop pos body)
              | None \<Rightarrow> body @ (if ends_with body [10] then [10] else [10, 10]) @ section))"

section \<open>Appending, striking, stripping, merging\<close>

record new_fact =
  nf_rowNum :: "int option"
  nf_claim :: js_text
  nf_kind :: fact_kind
  nf_confidence :: rat
  nf_visibility :: fact_visibility
  nf_notability :: fact_notability
  nf_validFrom :: "js_text option"
  nf_validUntil :: "js_text option"
  nf_source :: "js_text option"
  nf_context :: "js_text option"
  nf_active :: "bool option"
  nf_claimMetric :: "js_text option"
  nf_claimValue :: "rat option"
  nf_claimUnit :: "js_text option"
  nf_claimPeriod :: "js_text option"

definition fact_of_new :: "new_fact \<Rightarrow> int \<Rightarrow> parsed_fact" where
  "fact_of_new r n =
     \<lparr>pf_rowNum = n, pf_claim = nf_claim r, pf_kind = nf_kind r, pf_confidence = nf_confidence r,
      pf_visibility = nf_visibility r, pf_notability = nf_notability r, pf_validFrom = nf_validFrom r,
      pf_validUntil = nf_validUntil r, pf_source = nf_source r, pf_context = nf_context r,
      pf_active = or_default True (nf_active r), pf_supersededBy = None, pf_forgotten = None,
      pf_claimMetric = nf_claimMetric r, pf_claimValue = nf_claimValue r, pf_claimUnit = nf_claimUnit r,
      pf_claimPeriod = nf_claimPeriod r\<rparr>"

definition upsertFactRow :: "js_text \<Rightarrow> new_fact \<Rightarrow> js_text \<times> int" where
  "upsertFactRow body newRow =
     (let facts = fst (parseFactsFence body);
          n = or_default (if facts = [] then 1 else Max (set (map pf_rowNum facts)) + 1) (nf_rowNum newRow)
      in (replaceOrInsertFactsFence body (renderFactsTable (facts @ [fact_of_new newRow n])), n))"

definition stripFactsFence :: "js_text \<Rightarrow> fact_visibility list \<Rightarrow> js_text" where
  "stripFactsFence body keepVisibility =
     (case fence_bounds FACTS_FENCE_BEGIN FACTS_FENCE_END body of
        (Some b, Some e) \<Rightarrow>
          if keepVisibility = [] then replace_fence body b e FACTS_FENCE_END []
          else let kept = filter (\<lambda>f. pf_visibility f \<in> set keepVisibility) (fst (parseFactsFence body))
               in replace_fence body b e FACTS_FENCE_END (renderFactsTable kept)
      | _ \<Rightarrow> body)"

text \<open>\<open>strikeFenceRow\<close> of \<open>forget.ts\<close>, which looks for the end marker from one behind the begin marker on.\<close>

definition forget_row :: "int \<Rightarrow> js_text \<Rightarrow> js_text \<Rightarrow> parsed_fact \<Rightarrow> parsed_fact" where
  "forget_row rowNum today newContext f =
     (if pf_rowNum f = rowNum
      then f\<lparr>pf_active := False, pf_validUntil := Some today, pf_context := Some newContext, pf_forgotten := Some True\<rparr>
      else f)"

definition forget_context :: "js_text \<Rightarrow> js_text option \<Rightarrow> js_text" where
  "forget_context reason ctx =
     (let old = (case ctx of None \<Rightarrow> [] | Some c \<Rightarrow> u_trim c)
      in if old \<noteq> [] then old @ units '' | forgotten: '' @ reason else units ''forgotten: '' @ reason)"

definition strikeFenceRow :: "js_text \<Rightarrow> int \<Rightarrow> js_text \<Rightarrow> js_text \<Rightarrow> js_text option" where
  "strikeFenceRow body rowNum reason today =
     (let facts = fst (parseFactsFence body)
      in case find (\<lambda>f. pf_rowNum f = rowNum) facts of
           None \<Rightarrow> None
         | Some target \<Rightarrow>
             (let updated = map (forget_row rowNum today (forget_context reason (pf_context target))) facts
              in case index_of FACTS_FENCE_BEGIN body of
                   None \<Rightarrow> None
                 | Some b \<Rightarrow>
                     (case index_of FACTS_FENCE_END (drop (b + 1) body) of
                        None \<Rightarrow> None
                      | Some k \<Rightarrow> Some (replace_fence body b (b + 1 + k) FACTS_FENCE_END (renderFactsTable updated)))))"

text \<open>\<open>mergeHiddenFactRowsIntoBody\<close> of \<open>import-file.ts\<close>; the second component are the warnings it prints,
  the renumbered rows or the gap.\<close>

datatype merge_warning = Renumbered "(int \<times> int) list" | Gap js_text nat

definition mergeHiddenFactRowsIntoBody ::
  "js_text \<Rightarrow> js_text \<Rightarrow> js_text option \<Rightarrow> js_text \<times> merge_warning list" where
  "mergeHiddenFactRowsIntoBody slug incomingBody existingBody =
     (case existingBody of
        None \<Rightarrow> (incomingBody, [])
      | Some existing \<Rightarrow>
          if existing = [] then (incomingBody, [])
          else let incomingFacts = parseFactsFence incomingBody; existingFacts = parseFactsFence existing
               in case restoreHiddenFactRows incomingFacts existingFacts of
                    Some m \<Rightarrow> (replaceOrInsertFactsFence incomingBody (renderFactsTable (fm_merged m)),
                       if fm_renumbered m \<noteq> [] then [Renumbered (fm_renumbered m)] else [])
                  | None \<Rightarrow> (incomingBody,
                       case factsGapWarning slug incomingFacts existingFacts False of
                         None \<Rightarrow> [] | Some g \<Rightarrow> [Gap (fst g) (snd g)]))"

section \<open>Rows that can be written together\<close>

text \<open>A row that can be written in one form of the table can be written in the other, if its typed columns fit.\<close>

lemma fact_writable_wide: "fact_writable wide f \<Longrightarrow> fact_writable True f"
  by (cases wide) (auto simp: fact_writable_def is_typed_def opt_ok_def)

lemma fact_writable_narrow: "fact_writable True f \<Longrightarrow> \<not> is_typed f \<Longrightarrow> fact_writable False f"
  by (simp add: fact_writable_def)

lemma facts_ok_iff: "facts_ok facts \<longleftrightarrow> list_all (fact_writable True) facts \<and> distinct (map pf_rowNum facts)"
proof -
  have "list_all (fact_writable (list_ex is_typed facts)) facts \<longleftrightarrow> list_all (fact_writable True) facts"
    using fact_writable_wide fact_writable_narrow
    by (cases "list_ex is_typed facts") (auto simp: list_all_iff list_ex_iff)
  then show ?thesis by (simp add: facts_ok_def)
qed

lemma facts_ok_subset:
  assumes "facts_ok facts" "set sub \<subseteq> set facts" "distinct (map pf_rowNum sub)"
  shows "facts_ok sub"
  using assms by (auto simp: facts_ok_iff list_all_iff)

lemma facts_ok_filter: "facts_ok facts \<Longrightarrow> facts_ok (filter P facts)"
  by (rule facts_ok_subset) (auto simp: facts_ok_iff distinct_map_filter)

lemma reread_fields [simp]:
  "pf_rowNum (reread f) = pf_rowNum f" "pf_claim (reread f) = pf_claim f" "pf_visibility (reread f) = pf_visibility f"
  "pf_active (reread f) = pf_active f" "pf_context (reread f) = pf_context f" "reread (reread f) = reread f"
  by (simp_all add: reread_def)

lemma reread_writable: "fact_writable wide (reread f) = fact_writable wide f"
  by (simp add: fact_writable_def reread_def is_typed_def)

lemma facts_ok_reread: "facts_ok (map reread facts) = facts_ok facts"
  by (simp add: facts_ok_iff list_all_iff reread_writable comp_def)

section \<open>What the merge keeps\<close>

lemma next_number_fresh: "f \<in> set incoming \<union> set existing \<Longrightarrow> pf_rowNum f < next_number incoming existing"
proof -
  assume "f \<in> set incoming \<union> set existing"
  then have "pf_rowNum f \<le> Max (set (0 # map pf_rowNum incoming @ map pf_rowNum existing))" by (intro Max_ge) auto
  then show ?thesis by (simp add: next_number_def)
qed

text \<open>Renumbering changes numbers only, those of colliding rows, to fresh numbers from \<open>n\<close> on.\<close>

definition renumbered :: "int set \<Rightarrow> int \<Rightarrow> parsed_fact \<Rightarrow> parsed_fact \<Rightarrow> bool" where
  "renumbered colliding n f k =
     (if pf_rowNum f \<in> colliding then k = f\<lparr>pf_rowNum := pf_rowNum k\<rparr> \<and> n \<le> pf_rowNum k else k = f)"

lemma renumber_Cons:
  "fst (renumber col n (f # fs)) =
     (if pf_rowNum f \<in> set col then f\<lparr>pf_rowNum := n\<rparr> # fst (renumber col (n + 1) fs) else f # fst (renumber col n fs))"
  by (simp add: split_beta)

lemma renumber_rows: "list_all2 (renumbered (set col) n) fs (fst (renumber col n fs))"
proof (induction fs arbitrary: n)
  case (Cons f fs)
  have "list_all2 (renumbered (set col) n) fs (fst (renumber col (n + 1) fs))"
    by (rule list_all2_mono [OF Cons.IH [of "n + 1"]]) (auto simp: renumbered_def split: if_splits)
  with Cons.IH [of n] show ?case unfolding renumber_Cons by (simp add: renumbered_def [of _ _ f])
qed simp

lemma renumber_numbers:
  assumes "distinct (map pf_rowNum fs)" and "\<forall>f \<in> set fs. pf_rowNum f < n"
  shows "distinct (map pf_rowNum (fst (renumber col n fs))) \<and>
    set (map pf_rowNum (fst (renumber col n fs))) \<subseteq> (pf_rowNum ` set fs - set col) \<union> {n..<n + int (length fs)}"
  using assms
proof (induction fs arbitrary: n)
  case (Cons f fs)
  let ?ks = "fst (renumber col (n + 1) fs)" and ?ls = "fst (renumber col n fs)"
  have less: "\<forall>g \<in> set fs. pf_rowNum g < n" "\<forall>g \<in> set fs. pf_rowNum g < n + 1" "distinct (map pf_rowNum fs)" using Cons.prems by auto
  have ks: "distinct (map pf_rowNum ?ks)" "set (map pf_rowNum ?ks) \<subseteq> (pf_rowNum ` set fs - set col) \<union> {n + 1..<n + 1 + int (length fs)}"
    using Cons.IH [OF less(3,2)] by blast+
  have ls: "distinct (map pf_rowNum ?ls)" "set (map pf_rowNum ?ls) \<subseteq> (pf_rowNum ` set fs - set col) \<union> {n..<n + int (length fs)}"
    using Cons.IH [OF less(3,1)] by blast+
  show ?case
  proof (cases "pf_rowNum f \<in> set col")
    case True
    have "n \<notin> pf_rowNum ` set fs" using less(1) by auto
    then have "n \<notin> set (map pf_rowNum ?ks)" using ks(2) by (auto dest!: subsetD)
    moreover have "set (map pf_rowNum ?ks) \<subseteq> (pf_rowNum ` set (f # fs) - set col) \<union> {n..<n + int (length (f # fs))}"
      using ks(2) by fastforce
    ultimately show ?thesis using ks(1) True unfolding renumber_Cons by simp
  next
    case False
    have "pf_rowNum f < n" "pf_rowNum f \<notin> pf_rowNum ` set fs" using Cons.prems by simp_all
    then have "pf_rowNum f \<notin> set (map pf_rowNum ?ls)" using ls(2) by (auto dest!: subsetD)
    moreover have "set (map pf_rowNum ?ls) \<subseteq> (pf_rowNum ` set (f # fs) - set col) \<union> {n..<n + int (length (f # fs))}"
      using ls(2) by fastforce
    ultimately show ?thesis using ls(1) False unfolding renumber_Cons by simp
  qed
qed simp

text \<open>The incoming rows already carry a hidden row when one of them has its number and its claim.\<close>

definition carried :: "parsed_fact list \<Rightarrow> parsed_fact \<Rightarrow> bool" where
  "carried incoming h = list_ex (\<lambda>f. pf_rowNum f = pf_rowNum h \<and> pf_claim f = pf_claim h) incoming"

definition lost_rows :: "parsed_fact list \<Rightarrow> parsed_fact list \<Rightarrow> parsed_fact list" where
  "lost_rows incoming existing = filter (\<lambda>h. pf_visibility h \<noteq> World \<and> \<not> carried incoming h) existing"

lemma row_lookup:
  assumes "distinct (map pf_rowNum fs)"
  shows "map_of (rev (map (\<lambda>f. (pf_rowNum f, f)) fs)) n = Some f \<longleftrightarrow> f \<in> set fs \<and> pf_rowNum f = n"
    and "map_of (rev (map (\<lambda>f. (pf_rowNum f, f)) fs)) n = None \<longleftrightarrow> n \<notin> pf_rowNum ` set fs"
proof -
  have "distinct (map fst (rev (map (\<lambda>f. (pf_rowNum f, f)) fs)))" using assms by (simp add: rev_map [symmetric] comp_def)
  from map_of_eq_Some_iff [OF this] show "map_of (rev (map (\<lambda>f. (pf_rowNum f, f)) fs)) n = Some f \<longleftrightarrow> f \<in> set fs \<and> pf_rowNum f = n"
    by auto
  show "map_of (rev (map (\<lambda>f. (pf_rowNum f, f)) fs)) n = None \<longleftrightarrow> n \<notin> pf_rowNum ` set fs"
    by (auto simp: map_of_eq_None_iff image_image)
qed

lemma same_fact_row: "distinct (map pf_rowNum fs) \<Longrightarrow> f \<in> set fs \<Longrightarrow> g \<in> set fs \<Longrightarrow> pf_rowNum f = pf_rowNum g \<Longrightarrow> f = g"
  by (auto simp: distinct_map dest: inj_onD)

lemma merge_result:
  assumes inc: "distinct (map pf_rowNum inc)"
  obtains col where
    "restoreHiddenFactRows (inc, []) (ex, []) =
       (if lost_rows inc ex = [] then None
        else Some \<lparr>fm_merged = sort_key pf_rowNum (fst (renumber col (next_number inc ex) inc) @ lost_rows inc ex),
          fm_restored = lost_rows inc ex, fm_renumbered = snd (renumber col (next_number inc ex) inc)\<rparr>)"
    "pf_rowNum ` set inc \<inter> set col = pf_rowNum ` set inc \<inter> pf_rowNum ` set (lost_rows inc ex)"
proof -
  let ?map = "map_of (rev (map (\<lambda>f. (pf_rowNum f, f)) inc))"
  let ?collides = "\<lambda>h. case ?map (pf_rowNum h) of None \<Rightarrow> False | Some f \<Rightarrow> pf_claim f \<noteq> pf_claim h"
  let ?hidden = "filter (\<lambda>f. pf_visibility f \<noteq> World) ex"
  let ?col = "map pf_rowNum (filter ?collides ?hidden)"
  have lost: "?map (pf_rowNum h) = None \<or> ?collides h \<longleftrightarrow> \<not> carried inc h" for h
  proof (cases "?map (pf_rowNum h)")
    case None
    then have "pf_rowNum h \<notin> pf_rowNum ` set inc" using row_lookup(2) [OF inc] by blast
    then have "\<not> carried inc h" unfolding carried_def list_ex_iff by (metis image_eqI)
    with None show ?thesis by simp
  next
    case (Some f)
    with row_lookup(1) [OF inc, of "pf_rowNum h" f] have "f \<in> set inc" "pf_rowNum f = pf_rowNum h" by auto
    moreover from this have "g = f" if "g \<in> set inc" "pf_rowNum g = pf_rowNum h" for g using same_fact_row [OF inc that(1)] that(2) by simp
    ultimately have "carried inc h \<longleftrightarrow> pf_claim f = pf_claim h" unfolding carried_def list_ex_iff by blast
    with Some show ?thesis by simp
  qed
  then have restored: "filter (\<lambda>h. ?map (pf_rowNum h) = None \<or> ?collides h) ?hidden = lost_rows inc ex"
    by (simp add: lost_rows_def conj_commute)
  have "restoreHiddenFactRows (inc, []) (ex, []) =
      (if lost_rows inc ex = [] then None
       else Some \<lparr>fm_merged = sort_key pf_rowNum (fst (renumber ?col (next_number inc ex) inc) @ lost_rows inc ex),
         fm_restored = lost_rows inc ex, fm_renumbered = snd (renumber ?col (next_number inc ex) inc)\<rparr>)"
    unfolding restoreHiddenFactRows_def Let_def fst_conv snd_conv restored
    by (cases "?hidden = []") (auto simp: lost_rows_def split_beta filter_empty_conv)
  moreover have "pf_rowNum ` set inc \<inter> set ?col = pf_rowNum ` set inc \<inter> pf_rowNum ` set (lost_rows inc ex)" (is "?l = ?r")
  proof
    show "?l \<subseteq> ?r" using lost by (force simp: lost_rows_def)
    show "?r \<subseteq> ?l"
    proof
      fix n assume "n \<in> ?r"
      then obtain f h where fh: "f \<in> set inc" "pf_rowNum f = n" "h \<in> set ex" "pf_visibility h \<noteq> World" "\<not> carried inc h" "pf_rowNum h = n"
        by (auto simp: lost_rows_def)
      with row_lookup(1) [OF inc, of n f] have "?map (pf_rowNum h) = Some f" by simp
      moreover from this lost [of h] fh(5) have "?collides h" by auto
      ultimately have "h \<in> set (filter ?collides ?hidden)" using fh(3,4) by simp
      then have "n \<in> set ?col" using fh(6) by (simp only: set_map) (rule image_eqI [OF sym])
      moreover have "n \<in> pf_rowNum ` set inc" using fh(1,2) by blast
      ultimately show "n \<in> ?l" by blast
    qed
  qed
  ultimately show thesis by (rule that)
qed

lemma lost_rows_empty: "lost_rows inc ex = [] \<longleftrightarrow> (\<forall>h \<in> set ex. pf_visibility h \<noteq> World \<longrightarrow> carried inc h)"
  by (auto simp: lost_rows_def filter_empty_conv)

text \<open>The specification of a merge of two clean tables.\<close>

definition merge_spec :: "parsed_fact list \<Rightarrow> parsed_fact list \<Rightarrow> fact_merge option \<Rightarrow> bool" where
  "merge_spec inc ex m =
     (case m of
        None \<Rightarrow> \<forall>h \<in> set ex. pf_visibility h \<noteq> World \<longrightarrow> carried inc h
      | Some r \<Rightarrow>
          sorted (map pf_rowNum (fm_merged r)) \<and> distinct (map pf_rowNum (fm_merged r)) \<and>
          fm_restored r = lost_rows inc ex \<and>
          (\<exists>kept. mset (fm_merged r) = mset kept + mset (fm_restored r) \<and>
             list_all2 (renumbered (pf_rowNum ` set (fm_restored r)) (next_number inc ex)) inc kept \<and>
             list_all (\<lambda>k. pf_rowNum k < next_number inc ex + int (length inc)) kept))"

lemma merge_meets_spec:
  assumes inc: "distinct (map pf_rowNum inc)" and ex: "distinct (map pf_rowNum ex)"
  shows "merge_spec inc ex (restoreHiddenFactRows (inc, []) (ex, []))"
proof -
  obtain col where res: "restoreHiddenFactRows (inc, []) (ex, []) =
       (if lost_rows inc ex = [] then None
        else Some \<lparr>fm_merged = sort_key pf_rowNum (fst (renumber col (next_number inc ex) inc) @ lost_rows inc ex),
          fm_restored = lost_rows inc ex, fm_renumbered = snd (renumber col (next_number inc ex) inc)\<rparr>)"
    and col: "pf_rowNum ` set inc \<inter> set col = pf_rowNum ` set inc \<inter> pf_rowNum ` set (lost_rows inc ex)"
    by (rule merge_result [OF inc])
  let ?kept = "fst (renumber col (next_number inc ex) inc)"
  have fresh: "pf_rowNum f < next_number inc ex" if "f \<in> set inc \<union> set ex" for f using next_number_fresh that .
  have nums: "distinct (map pf_rowNum ?kept)"
    "set (map pf_rowNum ?kept) \<subseteq> (pf_rowNum ` set inc - set col) \<union> {next_number inc ex..<next_number inc ex + int (length inc)}"
    using renumber_numbers [OF inc] fresh by blast+
  have sub: "set (lost_rows inc ex) \<subseteq> set ex" by (auto simp: lost_rows_def)
  have lost: "distinct (map pf_rowNum (lost_rows inc ex))" using ex by (simp add: lost_rows_def distinct_map_filter)
  have "pf_rowNum h \<notin> set (map pf_rowNum ?kept)" if "h \<in> set (lost_rows inc ex)" for h
  proof
    assume "pf_rowNum h \<in> set (map pf_rowNum ?kept)"
    then consider "pf_rowNum h \<in> pf_rowNum ` set inc - set col" | "next_number inc ex \<le> pf_rowNum h" using nums(2) by fastforce
    then show False
    proof cases
      case 1
      with that col show False by blast
    next
      case 2
      with fresh [of h] that sub show False by auto
    qed
  qed
  then have "set (map pf_rowNum ?kept) \<inter> set (map pf_rowNum (lost_rows inc ex)) = {}" by (auto simp del: set_map simp: set_map [of _ "lost_rows inc ex"])
  then have dist: "distinct (map pf_rowNum (?kept @ lost_rows inc ex))" using nums(1) lost by simp
  have rel: "list_all2 (renumbered (pf_rowNum ` set (lost_rows inc ex)) (next_number inc ex)) inc ?kept"
  proof (rule list.rel_mono_strong [OF renumber_rows])
    fix f k assume "f \<in> set inc" "k \<in> set ?kept" "renumbered (set col) (next_number inc ex) f k"
    with col show "renumbered (pf_rowNum ` set (lost_rows inc ex)) (next_number inc ex) f k"
      by (auto simp: renumbered_def split: if_splits)
  qed
  have bound: "list_all (\<lambda>k. pf_rowNum k < next_number inc ex + int (length inc)) ?kept"
    unfolding list_all_iff
  proof
    fix k assume k: "k \<in> set ?kept"
    then consider "pf_rowNum k \<in> pf_rowNum ` set inc" | "pf_rowNum k < next_number inc ex + int (length inc)" using nums(2) by fastforce
    then show "pf_rowNum k < next_number inc ex + int (length inc)" using fresh by cases fastforce+
  qed
  show ?thesis
  proof (cases "lost_rows inc ex = []")
    case True
    then show ?thesis unfolding res if_P [OF True] by (simp add: merge_spec_def lost_rows_empty)
  next
    case False
    have "sorted (map pf_rowNum (sort_key pf_rowNum (?kept @ lost_rows inc ex)))" by (rule sorted_sort_key)
    moreover have "distinct (map pf_rowNum (sort_key pf_rowNum (?kept @ lost_rows inc ex)))"
      using dist mset_map [of pf_rowNum "sort_key pf_rowNum (?kept @ lost_rows inc ex)"]
        mset_map [of pf_rowNum "?kept @ lost_rows inc ex"] mset_eq_imp_distinct_iff mset_sort by metis
    ultimately show ?thesis using rel bound False unfolding res if_not_P [OF False] by (auto simp: merge_spec_def)
  qed
qed

section \<open>Where an edit puts its table\<close>

text \<open>The page has both markers or no begin marker.\<close>

definition facts_balanced :: "js_text \<Rightarrow> bool" where
  "facts_balanced body = (case fence_bounds FACTS_FENCE_BEGIN FACTS_FENCE_END body of
     (Some b, None) \<Rightarrow> False | _ \<Rightarrow> True)"

lemma clean_balanced: "snd (parseFactsFence body) = [] \<Longrightarrow> facts_balanced body"
  by (auto simp: parseFactsFence_def facts_balanced_def split: prod.splits option.splits)

lemma facts_begin_mark: "comment_mark FACTS_FENCE_BEGIN" "10 \<notin> set FACTS_FENCE_BEGIN"
  by (simp_all add: comment_mark_def text_lits)

lemma facts_begin_found: "fst (fence_bounds FACTS_FENCE_BEGIN FACTS_FENCE_END body) = None \<longleftrightarrow> \<not> sublist FACTS_FENCE_BEGIN body"
proof -
  have "FACTS_FENCE_BEGIN \<noteq> []" by (simp add: text_lits)
  then show ?thesis by (simp add: fence_bounds_def index_of_None Let_def)
qed

text \<open>Where a first table is inserted, the text in front of it and the text behind it.\<close>

definition insert_offset :: "js_text \<Rightarrow> nat" where
  "insert_offset body = (case timelineSentinelOffset body of None \<Rightarrow> length body | Some k \<Rightarrow> k)"

lemma table_is_placed:
  assumes "facts_balanced body"
  obtains pre post where "\<And>block. replaceOrInsertFactsFence body block = pre @ block @ post"
    "\<not> sublist FACTS_FENCE_BEGIN pre"
    "sublist FACTS_FENCE_BEGIN body \<Longrightarrow> stripFactsFence body [] = pre @ post"
    "\<not> sublist FACTS_FENCE_BEGIN body \<Longrightarrow> prefix (take (insert_offset body) body) pre \<and> suffix (drop (insert_offset body) body) post"
proof (cases "fence_bounds FACTS_FENCE_BEGIN FACTS_FENCE_END body")
  case (Pair b e)
  show thesis
  proof (cases b)
    case None
    have no: "\<not> sublist FACTS_FENCE_BEGIN body" using facts_begin_found [of body] Pair None by simp
    have cut: "\<not> sublist FACTS_FENCE_BEGIN (take k body)" for k
      using no sublist_append [of FACTS_FENCE_BEGIN "take k body" "drop k body"] by (metis append_take_drop_id)
    note line = no_mark_append [OF facts_begin_mark]
    show thesis
    proof (cases "timelineSentinelOffset body")
      case off: None
      let ?pre = "body @ (if ends_with body [10] then [10] else [10, 10]) @ units ''## Facts'' @ [10, 10]"
      have "\<not> sublist FACTS_FENCE_BEGIN ?pre" by (rule line [OF no]) (simp_all add: units_def)
      moreover have "replaceOrInsertFactsFence body block = ?pre @ block @ [10]" for block
        by (simp add: replaceOrInsertFactsFence_def Pair None off Let_def)
      ultimately show thesis
        using no off by (intro that [of ?pre "[10]"]) (simp_all add: insert_offset_def)
    next
      case off: (Some k)
      let ?sep = "if take k body = [] then [] else if ends_with (take k body) [10, 10] then []
        else if ends_with (take k body) [10] then [10] else [10, 10]"
      let ?pre = "take k body @ ?sep @ units ''## Facts'' @ [10, 10]"
      have "take k body \<noteq> [] \<Longrightarrow> ends_with (take k body) [10, 10] \<Longrightarrow> last (take k body) = 10"
        unfolding ends_with_def by (metis append_take_drop_id last.simps last_appendR list.distinct(1))
      then have "\<not> sublist FACTS_FENCE_BEGIN ?pre"
        by (intro line [OF cut]) (auto simp: units_def)
      moreover have "replaceOrInsertFactsFence body block = ?pre @ block @ 10 # 10 # drop k body" for block
        by (simp add: replaceOrInsertFactsFence_def Pair None off Let_def)
      moreover have "suffix (drop k body) (10 # 10 # drop k body)" by (auto simp: suffix_def)
      ultimately show thesis
        using no off by (intro that [of ?pre "10 # 10 # drop k body"]) (simp_all add: insert_offset_def)
    qed
  next
    case (Some i)
    with Pair assms obtain j where bounds: "fence_bounds FACTS_FENCE_BEGIN FACTS_FENCE_END body = (Some i, Some j)"
      by (cases e) (auto simp: facts_balanced_def)
    from facts_table.bounds_split [OF this] obtain pre inner post where
      body: "body = pre @ FACTS_FENCE_BEGIN @ inner @ FACTS_FENCE_END @ post" "length pre = i"
      "j = i + length FACTS_FENCE_BEGIN + length inner" "\<not> sublist FACTS_FENCE_BEGIN pre" by blast
    have replace: "replace_fence body i j FACTS_FENCE_END block = pre @ block @ post" for block
      using facts_table.replace_found [of pre inner post block] body by simp
    have "sublist FACTS_FENCE_BEGIN body" using body(1) by auto
    then show thesis
      using body(4) by (intro that [of pre post]) (simp_all add: replaceOrInsertFactsFence_def stripFactsFence_def bounds replace)
  qed
qed

section \<open>The rows of an edited page\<close>

definition facts_of :: "js_text \<Rightarrow> parsed_fact list" where
  "facts_of body = fst (parseFactsFence body)"

lemma facts_of_reread: "map reread (facts_of body) = facts_of body"
  using parsed_facts_ok [of body] by (intro map_idI) (auto simp: facts_of_def fact_parsed_def list_all_iff)

lemma facts_of_distinct: "distinct (map pf_rowNum (facts_of body))"
  using parsed_facts_ok by (simp add: facts_of_def)

lemma strip_written_facts:
  assumes "facts_ok facts" "\<not> sublist FACTS_FENCE_BEGIN pre"
  shows "stripFactsFence (pre @ renderFactsTable facts @ post) keep = pre @
    (if keep = [] then [] else renderFactsTable (filter (\<lambda>f. pf_visibility f \<in> set keep) (map reread facts))) @ post"
  by (simp add: stripFactsFence_def facts_bounds [OF assms] parse_rendered_facts [OF assms])

lemma facts_have_markers:
  assumes "f \<in> set (facts_of body)"
  obtains pre inner post where "body = pre @ FACTS_FENCE_BEGIN @ inner @ FACTS_FENCE_END @ post"
    "\<not> sublist FACTS_FENCE_BEGIN pre" "\<not> sublist FACTS_FENCE_END inner"
proof -
  obtain x y where xy: "fence_bounds FACTS_FENCE_BEGIN FACTS_FENCE_END body = (x, y)" by fastforce
  with assms have "x \<noteq> None \<and> y \<noteq> None"
    by (cases x; cases y) (simp_all add: facts_of_def parseFactsFence_def)
  with xy obtain i j where "fence_bounds FACTS_FENCE_BEGIN FACTS_FENCE_END body = (Some i, Some j)" by auto
  then show thesis by (rule facts_table.bounds_split) (rule that)
qed

text \<open>Both searches for the end marker find the same one.\<close>

lemma end_behind_begin:
  assumes "\<not> sublist FACTS_FENCE_END inner"
  shows "index_of FACTS_FENCE_END (tl FACTS_FENCE_BEGIN @ inner @ FACTS_FENCE_END @ post) = Some (length (tl FACTS_FENCE_BEGIN @ inner))"
proof -
  have "FACTS_FENCE_END \<noteq> []" "hd FACTS_FENCE_END \<notin> set (tl FACTS_FENCE_BEGIN)" by (simp_all add: text_lits)
  then have "\<not> sublist FACTS_FENCE_END (tl FACTS_FENCE_BEGIN @ inner)" using sublist_skip assms by blast
  moreover obtain q qs where "FACTS_FENCE_END = q # qs" "q \<notin> set qs" by (simp add: text_lits)
  ultimately have "index_of FACTS_FENCE_END ((tl FACTS_FENCE_BEGIN @ inner) @ FACTS_FENCE_END @ post) = Some (length (tl FACTS_FENCE_BEGIN @ inner))"
    by (intro index_of_found)
  then show ?thesis by (simp only: append_assoc)
qed

lemma strike_places_table:
  assumes "target \<in> set (facts_of body)" "pf_rowNum target = n"
  obtains pre post where "\<And>reason today. strikeFenceRow body n reason today =
      Some (pre @ renderFactsTable (map (forget_row n today (forget_context reason (pf_context target))) (facts_of body)) @ post)"
    "\<not> sublist FACTS_FENCE_BEGIN pre" "stripFactsFence body [] = pre @ post"
proof -
  obtain pre inner post where body: "body = pre @ FACTS_FENCE_BEGIN @ inner @ FACTS_FENCE_END @ post"
    "\<not> sublist FACTS_FENCE_BEGIN pre" "\<not> sublist FACTS_FENCE_END inner"
    using facts_have_markers [OF assms(1)] by blast
  obtain c cs where mark: "FACTS_FENCE_BEGIN = c # cs" "c \<notin> set cs" by (simp add: text_lits)
  have b: "index_of FACTS_FENCE_BEGIN body = Some (length pre)"
    using index_of_found [OF mark body(2), of "inner @ FACTS_FENCE_END @ post"] body(1) by simp
  have "drop (length pre + 1) body = cs @ inner @ FACTS_FENCE_END @ post" unfolding body(1) mark(1) by simp
  with end_behind_begin [OF body(3), of post, unfolded mark(1) list.sel]
  have e: "index_of FACTS_FENCE_END (drop (length pre + 1) body) = Some (length cs + length inner)" by simp
  have len: "length pre + 1 + (length cs + length inner) = length pre + length FACTS_FENCE_BEGIN + length inner" by (simp add: mark)
  have replace: "replace_fence body (length pre) (length pre + 1 + (length cs + length inner)) FACTS_FENCE_END block = pre @ block @ post" for block
    unfolding len body(1) by (rule facts_table.replace_found)
  have found: "find (\<lambda>f. pf_rowNum f = n) (facts_of body) = Some target"
  proof -
    have "find (\<lambda>f. pf_rowNum f = n) (facts_of body) \<noteq> None" using assms by (auto simp: find_None_iff)
    then obtain g where g: "find (\<lambda>f. pf_rowNum f = n) (facts_of body) = Some g" by blast
    then have "g \<in> set (facts_of body)" "pf_rowNum g = n" by (auto simp: find_Some_iff)
    with same_fact_row [OF facts_of_distinct _ assms(1)] assms(2) g show ?thesis by auto
  qed
  have "strikeFenceRow body n reason today =
      Some (pre @ renderFactsTable (map (forget_row n today (forget_context reason (pf_context target))) (facts_of body)) @ post)" for reason today
    unfolding strikeFenceRow_def Let_def facts_of_def [symmetric] found option.case b e replace by (rule refl)
  moreover have "stripFactsFence body [] = pre @ post"
    using facts_table.fence_found [OF body(2,3), of post] facts_table.replace_found [of pre inner post "[]"] body(1)
    by (simp add: stripFactsFence_def)
  ultimately show thesis using body(2) that by blast
qed

end
