(* ===== verification/FactsProps.thy ===== *)
theory FactsProps
  imports FactsEdit
begin

text \<open>
  The properties of the facts table: rendering and parsing are inverse, the merge of a written-back page
  with the stored one loses no hidden row, stripping shows exactly the rows a reader may see, and
  appending and forgetting change the rows they name and no others.
\<close>

section \<open>A page to try them on\<close>

definition demo_fact :: "int \<Rightarrow> string \<Rightarrow> fact_visibility \<Rightarrow> js_text option \<Rightarrow> parsed_fact" where
  "demo_fact n claim v ctx =
     \<lparr>pf_rowNum = n, pf_claim = units claim, pf_kind = Belief, pf_confidence = 17 / 20, pf_visibility = v,
      pf_notability = Medium, pf_validFrom = Some (units ''2026-04-29''), pf_validUntil = None,
      pf_source = Some (units ''OH | 4''), pf_context = ctx, pf_active = True, pf_supersededBy = None,
      pf_forgotten = Some False, pf_claimMetric = None, pf_claimValue = None, pf_claimUnit = None, pf_claimPeriod = None\<rparr>"

lemma bracket_free_cell: "60 \<notin> set s \<Longrightarrow> \<not> sublist FACTS_FENCE_END s \<and> \<not> sublist FACTS_FENCE_BEGIN s"
  by (auto simp: sublist_def text_lits)

lemma demo_fact_writable:
  assumes "0 < n" "n < 10 ^ 21" "c \<in> {''Founded Acme'', ''Likes tea'', ''Runs''}" "ctx \<in> {None, Some (units ''met in 2025'')}"
  shows "fact_writable True (demo_fact n c v ctx)"
proof -
  have claim: "claim_ok FACTS_FENCE_END True (units c)"
    using assms(3) bracket_free_cell [of "units c"]
    by (auto simp: claim_ok_def cell_ok_def units_def u_trim_def u_space_def stripStrikethrough_def)
  have "weight_ok (17 / 20)" by (simp add: weight_ok_def is_int_def)
  moreover have "opt_ok (cell_ok FACTS_FENCE_END) (Some (units ''2026-04-29''))" "opt_ok (cell_ok FACTS_FENCE_END) (Some (units ''OH | 4''))"
    "opt_ok (cell_ok FACTS_FENCE_END) (Some (units ''met in 2025''))"
    using bracket_free_cell [of "units ''2026-04-29''"] bracket_free_cell [of "units ''OH | 4''"] bracket_free_cell [of "units ''met in 2025''"]
    by (simp_all add: opt_ok_def cell_ok_def units_def u_trim_def u_space_def)
  moreover have "opt_ok P None" for P :: "js_text \<Rightarrow> bool" by (simp add: opt_ok_def)
  ultimately show ?thesis using assms(1,2,4) claim by (auto simp: fact_writable_def demo_fact_def)
qed

lemma demo_fact_reread:
  "ctx \<in> {None, Some (units ''met in 2025'')} \<Longrightarrow> reread (demo_fact n c v ctx) = demo_fact n c v ctx"
  by (auto simp: reread_def demo_fact_def parseSupersededByFromContext_def superseded_at_def units_def u_fold_def upt_rec [of 0])

abbreviation demo_rows :: "parsed_fact list" where
  "demo_rows \<equiv> [demo_fact 1 ''Founded Acme'' World None, demo_fact 3 ''Likes tea'' Private (Some (units ''met in 2025''))]"

lemma demo_rows_ok: "facts_ok demo_rows" and demo_rows_reread: "map reread demo_rows = demo_rows"
  using demo_fact_writable demo_fact_reread by (simp_all add: facts_ok_iff) (simp add: demo_fact_def)

lemma demo_title: "\<not> sublist FACTS_FENCE_BEGIN (units ''# Page'')"
  using bracket_free_cell [of "units ''# Page''"] by (simp add: units_def)

section \<open>Rendering and parsing\<close>

text \<open>C9: a facts table that can be written is read back without a warning wherever it stands on a page,
  with or without the typed columns: every field of every row comes back, and the two flags of a struck
  row are those its context stands for.\<close>

theorem facts_round_trip:
  assumes "facts_ok facts" and "\<not> sublist FACTS_FENCE_BEGIN pre"
  shows "parseFactsFence (pre @ renderFactsTable facts @ post) = (map reread facts, [])"
  by (rule parse_rendered_facts [OF assms])

theorem facts_round_trip_witness:
  "parseFactsFence (units ''# Page'' @ renderFactsTable demo_rows @ units ''rest'') = (demo_rows, [])"
  using facts_round_trip [OF demo_rows_ok demo_title, of "units ''rest''"] by (simp only: demo_rows_reread)

section \<open>The merge\<close>

text \<open>Merging a written-back table with the stored one: if the merge declines, every hidden row is
  already carried with its number and claim; otherwise the result is sorted, no number comes twice,
  the restored rows are exactly the hidden rows the caller did not carry (never a row visible to all),
  and every row of the caller is there, unchanged unless its number belonged to a restored row, and
  then under a number larger than all in use.\<close>

theorem merge_keeps_hidden_rows:
  assumes "distinct (map pf_rowNum inc)" and "distinct (map pf_rowNum ex)"
  shows "merge_spec inc ex (restoreHiddenFactRows (inc, []) (ex, []))"
  by (rule merge_meets_spec [OF assms])

theorem merge_keeps_hidden_rows_witness:
  "merge_spec [demo_fact 1 ''Founded Acme'' World None, demo_fact 3 ''Runs'' World None] demo_rows
     (restoreHiddenFactRows ([demo_fact 1 ''Founded Acme'' World None, demo_fact 3 ''Runs'' World None], []) (demo_rows, []))"
  by (rule merge_keeps_hidden_rows) (simp_all add: demo_fact_def)

text \<open>The rows of a merge are writable when those of both sides are and the numbers stay small.\<close>

lemma renumbered_writable:
  assumes "renumbered col n f k" "fact_writable True f" "0 < n" "pf_rowNum k < 10 ^ 21"
  shows "fact_writable True k"
proof (cases "pf_rowNum f \<in> col")
  case True
  then have k: "k = f\<lparr>pf_rowNum := pf_rowNum k\<rparr>" "n \<le> pf_rowNum k" using assms(1) by (simp_all add: renumbered_def)
  have "fact_writable True (f\<lparr>pf_rowNum := m\<rparr>)" if "0 < m" "m < 10 ^ 21" for m
    using assms(2) that by (simp add: fact_writable_def)
  from this [of "pf_rowNum k"] k assms(3,4) show ?thesis by simp
qed (use assms in \<open>simp add: renumbered_def\<close>)

lemma merged_writable:
  assumes ok: "facts_ok inc" "facts_ok ex" and bound: "next_number inc ex + int (length inc) \<le> 10 ^ 21"
    and spec: "merge_spec inc ex (Some m)"
  shows "facts_ok (fm_merged m)"
proof -
  obtain kept where m: "distinct (map pf_rowNum (fm_merged m))" "fm_restored m = lost_rows inc ex"
    "mset (fm_merged m) = mset kept + mset (fm_restored m)"
    "list_all2 (renumbered (pf_rowNum ` set (fm_restored m)) (next_number inc ex)) inc kept"
    "list_all (\<lambda>k. pf_rowNum k < next_number inc ex + int (length inc)) kept"
    using spec by (auto simp: merge_spec_def)
  have pos: "0 < next_number inc ex" using Max_ge [of "set (0 # map pf_rowNum inc @ map pf_rowNum ex)" 0] by (simp add: next_number_def)
  have kept: "fact_writable True k" if "k \<in> set kept" for k
  proof -
    from that obtain i where i: "i < length kept" "k = kept ! i" by (auto simp: in_set_conv_nth)
    with m(4) have f: "inc ! i \<in> set inc" "renumbered (pf_rowNum ` set (fm_restored m)) (next_number inc ex) (inc ! i) k"
      by (simp_all add: list_all2_conv_all_nth)
    have "pf_rowNum k < 10 ^ 21" using m(5) that bound by (auto simp: list_all_iff)
    with f ok(1) pos show ?thesis by (intro renumbered_writable [OF f(2)]) (auto simp: facts_ok_iff list_all_iff)
  qed
  have "set (fm_merged m) = set kept \<union> set (lost_rows inc ex)" using arg_cong [OF m(3), of set_mset] m(2) by simp
  moreover have "fact_writable True h" if "h \<in> set (lost_rows inc ex)" for h
    using that ok(2) by (auto simp: lost_rows_def facts_ok_iff list_all_iff)
  ultimately show ?thesis using kept m(1) by (auto simp: facts_ok_iff list_all_iff)
qed

lemma facts_of_written:
  assumes "facts_ok facts" "\<not> sublist FACTS_FENCE_BEGIN pre"
  shows "parseFactsFence (pre @ renderFactsTable facts @ post) = (map reread facts, [])"
    and "facts_of (pre @ renderFactsTable facts @ post) = map reread facts"
  using parse_rendered_facts [OF assms] by (simp_all add: facts_of_def)

lemma rows_reread:
  assumes "mset rows = mset (map reread xs) + mset (map reread ys)" shows "map reread rows = rows"
proof (rule map_idI)
  fix f assume "f \<in> set rows"
  then have "f \<in> reread ` set xs \<union> reread ` set ys" using arg_cong [OF assms, of set_mset] by auto
  then show "reread f = f" by auto
qed

lemma list_all2_renumbered_reread:
  "list_all2 (renumbered col n) inc kept \<Longrightarrow> map reread inc = inc \<Longrightarrow> map reread kept = kept"
proof (induction rule: list_all2_induct)
  case (Cons f fs k ks)
  have "reread k = k"
  proof (cases "pf_rowNum f \<in> col")
    case True
    then have "k = f\<lparr>pf_rowNum := pf_rowNum k\<rparr>" using Cons.hyps(1) by (simp add: renumbered_def)
    moreover have "reread (f\<lparr>pf_rowNum := m\<rparr>) = f\<lparr>pf_rowNum := m\<rparr>" for m
    proof -
      have "reread (f\<lparr>pf_rowNum := m\<rparr>) = (reread f)\<lparr>pf_rowNum := m\<rparr>" by (simp add: reread_def)
      with Cons.prems show ?thesis by simp
    qed
    ultimately show ?thesis by metis
  qed (use Cons in \<open>simp add: renumbered_def\<close>)
  with Cons show ?case by simp
qed simp

lemma write_back_rows:
  assumes "parseFactsFence incoming = (inc, [])" and "parseFactsFence stored = (ex, [])" and "facts_ok inc" and "facts_ok ex"
    and "next_number inc ex + int (length inc) \<le> 10 ^ 21"
  shows "\<exists>rows kept. parseFactsFence (fst (mergeHiddenFactRowsIntoBody slug incoming (Some stored))) = (rows, []) \<and>
    distinct (map pf_rowNum rows) \<and> mset rows = mset kept + mset (lost_rows inc ex) \<and>
    list_all2 (renumbered (pf_rowNum ` set (lost_rows inc ex)) (next_number inc ex)) inc kept"
proof -
  have dist: "distinct (map pf_rowNum inc)" "distinct (map pf_rowNum ex)" using assms(3,4) by (simp_all add: facts_ok_iff)
  have reread: "map reread inc = inc" "map reread ex = ex" using facts_of_reread [of incoming] facts_of_reread [of stored] assms(1,2)
    by (simp_all add: facts_of_def)
  note spec = merge_meets_spec [OF dist]
  have refl: "list_all2 (renumbered {} n) inc inc" for n by (simp add: list_all2_same renumbered_def)
  show ?thesis
  proof (cases "restoreHiddenFactRows (inc, []) (ex, [])")
    case None
    then have "lost_rows inc ex = []" using spec by (simp add: merge_spec_def lost_rows_empty)
    moreover have "fst (mergeHiddenFactRowsIntoBody slug incoming (Some stored)) = incoming"
      using None assms(1,2) by (simp add: mergeHiddenFactRowsIntoBody_def Let_def)
    ultimately show ?thesis using assms(1) dist refl by auto
  next
    case (Some m)
    with spec obtain kept where m: "distinct (map pf_rowNum (fm_merged m))" "fm_restored m = lost_rows inc ex"
      "mset (fm_merged m) = mset kept + mset (lost_rows inc ex)"
      "list_all2 (renumbered (pf_rowNum ` set (lost_rows inc ex)) (next_number inc ex)) inc kept"
      by (auto simp: merge_spec_def)
    have "stored \<noteq> []"
    proof
      assume "stored = []"
      then have "ex = []" using assms(2) by (simp add: parseFactsFence_def fence_bounds_def Let_def)
      with Some show False by (simp add: restoreHiddenFactRows_def Let_def)
    qed
    then have body: "fst (mergeHiddenFactRowsIntoBody slug incoming (Some stored)) =
        replaceOrInsertFactsFence incoming (renderFactsTable (fm_merged m))"
      using Some assms(1,2) by (simp add: mergeHiddenFactRowsIntoBody_def Let_def)
    have ok: "facts_ok (fm_merged m)" using merged_writable [OF assms(3,4,5)] spec Some by simp
    have "facts_balanced incoming" using clean_balanced assms(1) by simp
    then obtain pre post where place: "\<And>block. replaceOrInsertFactsFence incoming block = pre @ block @ post" "\<not> sublist FACTS_FENCE_BEGIN pre"
      by (rule table_is_placed) blast
    have "map reread kept = kept" using list_all2_renumbered_reread [OF m(4) reread(1)] .
    moreover have "map reread (lost_rows inc ex) = lost_rows inc ex"
      using reread(2) by (intro map_idI) (auto simp: lost_rows_def map_eq_conv [of _ _ id, simplified])
    ultimately have "map reread (fm_merged m) = fm_merged m" using rows_reread [of "fm_merged m" kept "lost_rows inc ex"] m(3) by simp
    with parse_rendered_facts [OF ok place(2), of post]
    have "parseFactsFence (pre @ renderFactsTable (fm_merged m) @ post) = (fm_merged m, [])" by simp
    with m show ?thesis unfolding body place(1) by blast
  qed
qed

text \<open>A page written back by a reader who could not see the hidden rows: when both the stored page and
  the incoming one parse without warnings, the page that is stored parses without warnings, no row
  number comes twice, and its rows are the caller's rows (renumbered only where they had taken the
  number of a hidden row) together with exactly the hidden rows the caller did not carry. So no hidden
  row is lost, and a deleted visible row stays deleted. The rows must be writable.\<close>

theorem write_back_keeps_hidden_rows:
  assumes "parseFactsFence incoming = (inc, [])" and "parseFactsFence stored = (ex, [])" and "facts_ok inc" and "facts_ok ex"
    and "next_number inc ex + int (length inc) \<le> 10 ^ 21"
  shows "\<exists>rows kept. parseFactsFence (fst (mergeHiddenFactRowsIntoBody slug incoming (Some stored))) = (rows, []) \<and>
    distinct (map pf_rowNum rows) \<and> mset rows = mset kept + mset (lost_rows inc ex) \<and>
    list_all2 (renumbered (pf_rowNum ` set (lost_rows inc ex)) (next_number inc ex)) inc kept"
  by (rule write_back_rows [OF assms])

theorem write_back_keeps_hidden_rows_witness:
  "\<exists>rows kept. parseFactsFence (fst (mergeHiddenFactRowsIntoBody (units ''people/ann'')
      (units ''# Page'' @ renderFactsTable [demo_fact 3 ''Runs'' World None] @ units ''new'')
      (Some (units ''# Page'' @ renderFactsTable demo_rows @ units ''rest'')))) = (rows, []) \<and>
    mset rows = mset kept + {#demo_fact 3 ''Likes tea'' Private (Some (units ''met in 2025''))#} \<and> length kept = 1"
proof -
  let ?inc = "[demo_fact 3 ''Runs'' World None]"
  have ok: "facts_ok ?inc" using demo_fact_writable by (simp add: facts_ok_iff)
  have inc: "parseFactsFence (units ''# Page'' @ renderFactsTable ?inc @ units ''new'') = (?inc, [])"
    using parse_rendered_facts [OF ok demo_title, of "units ''new''"] demo_fact_reread by simp
  have ex: "parseFactsFence (units ''# Page'' @ renderFactsTable demo_rows @ units ''rest'') = (demo_rows, [])"
    using parse_rendered_facts [OF demo_rows_ok demo_title, of "units ''rest''"] by (simp only: demo_rows_reread)
  have n: "next_number ?inc demo_rows + int (length ?inc) \<le> 10 ^ 21" by (simp add: next_number_def demo_fact_def)
  have lost: "lost_rows ?inc demo_rows = [demo_fact 3 ''Likes tea'' Private (Some (units ''met in 2025''))]"
    by (simp add: lost_rows_def carried_def demo_fact_def units_def)
  from write_back_keeps_hidden_rows [OF inc ex ok demo_rows_ok n, of "units ''people/ann''"] show ?thesis
    unfolding lost by (auto dest!: list_all2_lengthD)
qed

section \<open>Stripping\<close>

text \<open>\<open>stripFactsFence\<close> shows, of a table that can be written, exactly the rows whose visibility is
  allowed, in order and with every field, and removes the whole table when nothing is allowed; the text
  around it stays. But only the first table of a page is treated: a second one is left in the text with
  all its rows.\<close>

theorem strip_shows_allowed_rows:
  assumes "facts_ok facts" and "facts_ok second" and "\<not> sublist FACTS_FENCE_BEGIN pre"
  shows "stripFactsFence (pre @ renderFactsTable facts @ post) [] = pre @ post \<and>
    (keep \<noteq> [] \<longrightarrow> facts_of (stripFactsFence (pre @ renderFactsTable facts @ post) keep) =
       filter (\<lambda>f. pf_visibility f \<in> set keep) (map reread facts)) \<and>
    sublist (renderFactsTable second) (stripFactsFence (pre @ renderFactsTable facts @ mid @ renderFactsTable second @ post) keep)"
proof -
  have visible: "facts_of (stripFactsFence (pre @ renderFactsTable facts @ post) keep) =
      filter (\<lambda>f. pf_visibility f \<in> set keep) (map reread facts)" if "keep \<noteq> []"
  proof -
    let ?kept = "filter (\<lambda>f. pf_visibility f \<in> set keep) (map reread facts)"
    have "facts_ok ?kept" by (rule facts_ok_filter) (simp add: facts_ok_reread assms(1))
    moreover have "map reread ?kept = ?kept" by (intro map_idI) auto
    ultimately show ?thesis
      using that facts_of_written(2) [OF _ assms(3), of ?kept post] by (simp add: strip_written_facts [OF assms(1,3)])
  qed
  have "sublist x (a @ b @ c @ x @ d)" for x a b c d :: js_text
    by (metis append_assoc sublist_appendI)
  moreover note strip_written_facts [OF assms(1,3)]
  ultimately show ?thesis using visible by simp
qed

theorem strip_shows_allowed_rows_witness:
  "facts_of (stripFactsFence (units ''# Page'' @ renderFactsTable demo_rows @ units ''rest'') [World]) = [demo_fact 1 ''Founded Acme'' World None]"
proof -
  have "filter (\<lambda>f. pf_visibility f \<in> set [World]) demo_rows = [demo_fact 1 ''Founded Acme'' World None]"
    by (simp add: demo_fact_def)
  with strip_shows_allowed_rows [OF demo_rows_ok demo_rows_ok demo_title, of "units ''rest''" "[World]"]
  show ?thesis by (simp only: demo_rows_reread) simp
qed

section \<open>Forgetting and appending\<close>

lemma trim_front:
  assumes "s \<noteq> []" "\<not> u_space (hd s)" "\<not> u_space (last s)"
  obtains r where "u_trim (s @ t) = s @ r"
proof -
  have "dropWhile u_space (s @ t) = s @ t" using assms(1,2) by (cases s) simp_all
  moreover have "dropWhile u_space (rev t @ rev s) = dropWhile u_space (rev t) @ rev s"
  proof -
    obtain a u where "rev s = a # u" "\<not> u_space a" using assms(1,3) by (cases s rule: rev_cases) auto
    moreover have "dropWhile u_space (v @ a # u) = dropWhile u_space v @ a # u" if "\<not> u_space a" for v using that by (induction v) auto
    ultimately show ?thesis by simp
  qed
  ultimately have "u_trim (s @ t) = s @ rev (dropWhile u_space (rev t))" by (simp add: u_trim_def)
  with that show thesis by blast
qed

lemma dropWhile_hd_append: "dropWhile P xs \<noteq> [] \<Longrightarrow> dropWhile P (xs @ ys) = dropWhile P xs @ ys"
  by (induction xs) auto

text \<open>Behind an older context the note of a forgotten row does not stand at the start of the cell.\<close>

lemma forget_context_flag:
  "parseForgottenFromContext (Some (forget_context reason ctx)) \<longleftrightarrow>
     (case ctx of None \<Rightarrow> True | Some c \<Rightarrow> u_trim c = [] \<or> parseForgottenFromContext (Some c))"
proof -
  let ?word = "units ''forgotten''"
  let ?flag = "\<lambda>t. map u_fold (take 9 t) = ?word \<and> (case dropWhile u_space (drop 9 t) of [] \<Rightarrow> False | c # r \<Rightarrow> c = 58)"
  have word: "map u_fold ?word = ?word" "length ?word = 9" "32 \<notin> set ?word" by (simp_all add: units_def u_fold_def)
  define old where "old = (case ctx of None \<Rightarrow> [] | Some c \<Rightarrow> u_trim c)"
  show ?thesis
  proof (cases "old = []")
    case True
    then have "forget_context reason ctx = (?word @ [58]) @ 32 # reason" by (simp add: forget_context_def old_def Let_def units_def)
    moreover obtain r where "u_trim ((?word @ [58]) @ 32 # reason) = (?word @ [58]) @ r"
      by (rule trim_front [of "?word @ [58]" "32 # reason"]) (simp_all add: units_def u_space_def)
    ultimately have "parseForgottenFromContext (Some (forget_context reason ctx))"
      using word by (simp add: parseForgottenFromContext_def u_space_def)
    with True show ?thesis by (auto simp: old_def split: option.splits)
  next
    case False
    then obtain c where c: "ctx = Some c" "u_trim c = old" by (auto simp: old_def split: option.splits)
    let ?note = "units '' | forgotten: '' @ reason"
    have ctx: "forget_context reason ctx = old @ ?note" using False c by (simp add: forget_context_def Let_def)
    have ends: "\<not> u_space (hd old)" "\<not> u_space (last old)" using u_trim_hd [of c] u_trim_last [of c] False c(2) by simp_all
    have note_ends: "?note = 32 # 124 # drop 2 ?note" by (simp add: units_def)
    obtain r where r: "u_trim (old @ 32 # 124 # drop 2 ?note) = old @ 32 # 124 # r"
    proof -
      have "u_trim ((old @ [32, 124]) @ drop 2 ?note) = (old @ [32, 124]) @ r \<Longrightarrow> u_trim (old @ 32 # 124 # drop 2 ?note) = old @ 32 # 124 # r" for r by simp
      with trim_front [of "old @ [32, 124]" "drop 2 ?note"] ends(1) False that show thesis by (auto simp: u_space_def)
    qed
    have same: "?flag (old @ 32 # 124 # r) = ?flag old"
    proof (cases "length old < 9")
      case True
      then have "32 \<in> set (map u_fold (take 9 (old @ 32 # 124 # r)))" by (cases "9 - length old") (auto simp: u_fold_def)
      then have "map u_fold (take 9 (old @ 32 # 124 # r)) \<noteq> ?word" using word(3) by metis
      moreover have "map u_fold (take 9 old) \<noteq> ?word" using True word(2) by (metis length_map length_take min.strict_order_iff nat_less_le min.absorb3)
      ultimately show ?thesis by blast
    next
      case long: False
      show ?thesis
      proof (cases "drop 9 old = []")
        case True
        with long show ?thesis by (simp add: u_space_def)
      next
        case tail: False
        then have "last (drop 9 old) = last old" by simp
        then have "dropWhile u_space (drop 9 old) \<noteq> []" using ends(2) tail by (metis dropWhile_eq_Nil_conv last_in_set)
        with long show ?thesis by (simp add: dropWhile_hd_append) (cases "dropWhile u_space (drop 9 old)"; simp)
      qed
    qed
    have "parseForgottenFromContext (Some (forget_context reason ctx)) = ?flag (old @ 32 # 124 # r)"
      unfolding ctx parseForgottenFromContext_def option.case using r by (simp only: note_ends [symmetric])
    moreover have "parseForgottenFromContext (Some c) = ?flag old" by (simp add: parseForgottenFromContext_def c(2))
    ultimately show ?thesis using False c same by simp
  qed
qed

text \<open>Forgetting row \<open>n\<close> of a page fails exactly when the page has no such row; otherwise it strikes that
  row, dates its end and adds the reason to its context, and every other row and the text around the
  table stay. The flag that tells a forgotten row from a superseded one is read back only if the row had
  no context before, or one that said so already: behind an older context the note is not at the start
  of the cell.\<close>

theorem forget_strikes_one_row:
  assumes "facts_ok (map (forget_row n today (forget_context reason ctx)) (facts_of body))"
    and "\<forall>f \<in> set (facts_of body). pf_rowNum f = n \<longrightarrow> pf_context f = ctx"
  shows "(strikeFenceRow body n reason today = None \<longleftrightarrow> n \<notin> pf_rowNum ` set (facts_of body)) \<and>
    (case strikeFenceRow body n reason today of
       None \<Rightarrow> True
     | Some page \<Rightarrow> facts_of page = map (\<lambda>f. if pf_rowNum f = n
           then reread (f\<lparr>pf_active := False, pf_validUntil := Some today, pf_context := Some (forget_context reason ctx)\<rparr>) else f) (facts_of body) \<and>
         stripFactsFence page [] = stripFactsFence body []) \<and>
    (parseForgottenFromContext (Some (forget_context reason ctx)) \<longleftrightarrow>
       (case ctx of None \<Rightarrow> True | Some c \<Rightarrow> u_trim c = [] \<or> parseForgottenFromContext (Some c)))"
proof (cases "n \<in> pf_rowNum ` set (facts_of body)")
  case False
  then have "find (\<lambda>f. pf_rowNum f = n) (facts_of body) = None" by (auto simp: find_None_iff)
  then have "strikeFenceRow body n reason today = None" by (simp add: strikeFenceRow_def facts_of_def [symmetric])
  with False forget_context_flag show ?thesis by simp
next
  case True
  then obtain target where t: "target \<in> set (facts_of body)" "pf_rowNum target = n" by auto
  let ?rows = "map (forget_row n today (forget_context reason ctx)) (facts_of body)"
  obtain pre post where place: "\<And>reason today. strikeFenceRow body n reason today =
      Some (pre @ renderFactsTable (map (forget_row n today (forget_context reason (pf_context target))) (facts_of body)) @ post)"
    "\<not> sublist FACTS_FENCE_BEGIN pre" "stripFactsFence body [] = pre @ post"
    using strike_places_table [OF t] by blast
  have ctx: "pf_context target = ctx" using t assms(2) by simp
  have rows: "map reread ?rows = map (\<lambda>f. if pf_rowNum f = n
      then reread (f\<lparr>pf_active := False, pf_validUntil := Some today, pf_context := Some (forget_context reason ctx)\<rparr>) else f) (facts_of body)"
  proof -
    have "reread f = f" if "f \<in> set (facts_of body)" for f using facts_of_reread [of body] that by (metis in_set_conv_nth nth_map)
    then show ?thesis by (auto simp: forget_row_def reread_def)
  qed
  have "facts_of (pre @ renderFactsTable ?rows @ post) = map reread ?rows" by (rule facts_of_written(2) [OF assms(1) place(2)])
  moreover have "stripFactsFence (pre @ renderFactsTable ?rows @ post) [] = stripFactsFence body []"
    by (simp add: strip_written_facts [OF assms(1) place(2)] place(3))
  ultimately show ?thesis using True place(1) [of reason today] rows forget_context_flag unfolding ctx by simp
qed

abbreviation demo_facts_page :: js_text where
  "demo_facts_page \<equiv> units ''# Page'' @ renderFactsTable demo_rows @ units ''rest''"

lemma demo_facts_of: "facts_of demo_facts_page = demo_rows"
  using facts_of_written(2) [OF demo_rows_ok demo_title, of "units ''rest''"] by (simp only: demo_rows_reread)

theorem forget_strikes_one_row_witness:
  "\<exists>page. strikeFenceRow demo_facts_page 1 (units ''asked'') (units ''2026-05-10'') = Some page \<and>
     map pf_active (facts_of page) = [False, True] \<and> map pf_forgotten (facts_of page) = [Some True, Some False]"
proof -
  let ?row = "forget_row 1 (units ''2026-05-10'') (forget_context (units ''asked'') None)"
  have told: "forget_context (units ''asked'') None = units ''forgotten: asked''" by (simp add: forget_context_def units_def)
  have cells: "opt_ok (cell_ok FACTS_FENCE_END) (Some (units ''2026-05-10''))" "opt_ok (cell_ok FACTS_FENCE_END) (Some (units ''forgotten: asked''))"
    using bracket_free_cell [of "units ''2026-05-10''"] bracket_free_cell [of "units ''forgotten: asked''"]
    by (simp_all add: opt_ok_def cell_ok_def units_def u_trim_def u_space_def)
  have "claim_ok FACTS_FENCE_END False (units ''Founded Acme'')"
    using bracket_free_cell [of "units ''Founded Acme''"]
    by (simp add: claim_ok_def cell_ok_def units_def u_trim_def u_space_def line_end_def)
  then have "fact_writable True (?row (demo_fact 1 ''Founded Acme'' World None))"
    using demo_fact_writable [of 1 "''Founded Acme''" None World] cells told
    by (simp add: fact_writable_def forget_row_def demo_fact_def)
  moreover have "?row (demo_fact 3 c v x) = demo_fact 3 c v x" for c v x by (simp add: forget_row_def demo_fact_def)
  moreover have "pf_rowNum (?row (demo_fact 1 c v x)) = 1" for c v x by (simp add: forget_row_def demo_fact_def)
  ultimately have ok: "facts_ok (map ?row demo_rows)"
    using demo_fact_writable by (simp add: facts_ok_iff) (simp add: demo_fact_def)
  have only: "\<forall>f \<in> set (facts_of demo_facts_page). pf_rowNum f = 1 \<longrightarrow> pf_context f = None"
    unfolding demo_facts_of by (simp add: demo_fact_def)
  have "facts_ok (map ?row (facts_of demo_facts_page))" unfolding demo_facts_of by (rule ok)
  note res = forget_strikes_one_row [OF this only]
  have one: "1 \<in> pf_rowNum ` set demo_rows" by (simp add: demo_fact_def)
  have "1 \<in> pf_rowNum ` set (facts_of demo_facts_page)" unfolding demo_facts_of by (rule one)
  with conjunct1 [OF res] have "strikeFenceRow demo_facts_page 1 (units ''asked'') (units ''2026-05-10'') \<noteq> None" by blast
  then obtain page where page: "strikeFenceRow demo_facts_page 1 (units ''asked'') (units ''2026-05-10'') = Some page" by blast
  have rows: "facts_of page = map (\<lambda>f. if pf_rowNum f = 1 then reread (f\<lparr>pf_active := False, pf_validUntil := Some (units ''2026-05-10''),
       pf_context := Some (forget_context (units ''asked'') None)\<rparr>) else f) demo_rows"
    using conjunct1 [OF conjunct2 [OF res]] unfolding page option.case demo_facts_of by blast
  have flag: "parseForgottenFromContext (Some (forget_context (units ''asked'') None))" by (simp add: forget_context_flag)
  have "map pf_active (facts_of page) = [False, True]" "map pf_forgotten (facts_of page) = [Some True, Some False]"
    unfolding rows list.map using flag by (simp_all add: demo_fact_def reread_def)
  with page show ?thesis by (intro exI [of _ page] conjI)
qed

text \<open>Appending a fact refines appending to the list of rows a page stands for: the edited page stands
  for the old rows followed by the new one, whose number, if it is not given, is larger than all others.
  Around an existing table the text is unchanged; a first table goes in front of the timeline of the
  page, or to its end if it has none, and the text on both sides stays. The page must not have a begin
  marker alone, and the resulting rows must be writable.\<close>

theorem fact_upsert_refines_append:
  assumes "facts_balanced body" and "(page, n) = upsertFactRow body r"
    and "facts_ok (facts_of body @ [fact_of_new r n])"
  shows "facts_of page = facts_of body @ [reread (fact_of_new r n)] \<and>
    (nf_rowNum r = None \<longrightarrow> (\<forall>f \<in> set (facts_of body). pf_rowNum f < n)) \<and>
    (if sublist FACTS_FENCE_BEGIN body then stripFactsFence page [] = stripFactsFence body []
     else \<exists>pre post. page = pre @ renderFactsTable [fact_of_new r n] @ post \<and>
       prefix (take (insert_offset body) body) pre \<and> suffix (drop (insert_offset body) body) post)"
proof -
  let ?rows = "facts_of body @ [fact_of_new r n]"
  obtain pre post where place: "\<And>block. replaceOrInsertFactsFence body block = pre @ block @ post" "\<not> sublist FACTS_FENCE_BEGIN pre"
    "sublist FACTS_FENCE_BEGIN body \<Longrightarrow> stripFactsFence body [] = pre @ post"
    "\<not> sublist FACTS_FENCE_BEGIN body \<Longrightarrow> prefix (take (insert_offset body) body) pre \<and> suffix (drop (insert_offset body) body) post"
    using table_is_placed [OF assms(1)] by blast
  have page: "page = pre @ renderFactsTable ?rows @ post" and
    n: "n = or_default (if facts_of body = [] then 1 else Max (set (map pf_rowNum (facts_of body))) + 1) (nf_rowNum r)"
    using assms(2) by (simp_all add: upsertFactRow_def facts_of_def [symmetric] Let_def place(1))
  have "facts_of page = map reread ?rows" unfolding page by (rule facts_of_written(2) [OF assms(3) place(2)])
  moreover have "stripFactsFence page [] = pre @ post" unfolding page by (simp add: strip_written_facts [OF assms(3) place(2)])
  moreover have "pf_rowNum f < n" if "nf_rowNum r = None" "f \<in> set (facts_of body)" for f
  proof -
    have "pf_rowNum f \<le> Max (set (map pf_rowNum (facts_of body)))" using that(2) by (intro Max_ge) auto
    then show ?thesis using that n by (auto simp: or_default_def)
  qed
  moreover have "facts_of body = []" if "\<not> sublist FACTS_FENCE_BEGIN body"
  proof -
    have "fst (fence_bounds FACTS_FENCE_BEGIN FACTS_FENCE_END body) = None" using that facts_begin_found by blast
    then show ?thesis by (cases "fence_bounds FACTS_FENCE_BEGIN FACTS_FENCE_END body"; cases "snd (fence_bounds FACTS_FENCE_BEGIN FACTS_FENCE_END body)")
      (simp_all add: facts_of_def parseFactsFence_def)
  qed
  ultimately show ?thesis using place(3,4) page by (auto simp: facts_of_reread)
qed

theorem fact_upsert_refines_append_witness:
  "facts_of (fst (upsertFactRow (units ''# Page'')
     \<lparr>nf_rowNum = None, nf_claim = units ''Runs'', nf_kind = Belief, nf_confidence = 17 / 20, nf_visibility = Private,
      nf_notability = Medium, nf_validFrom = Some (units ''2026-04-29''), nf_validUntil = None, nf_source = Some (units ''OH | 4''),
      nf_context = None, nf_active = None, nf_claimMetric = None, nf_claimValue = None, nf_claimUnit = None, nf_claimPeriod = None\<rparr>)) =
   [demo_fact 1 ''Runs'' Private None]" (is "facts_of (fst (upsertFactRow ?body ?r)) = _")
proof -
  have "index_of FACTS_FENCE_BEGIN ?body = None" "\<not> sublist FACTS_FENCE_END ?body" using demo_title bracket_free_cell [of ?body]
    by (simp_all add: index_of_None text_lits units_def)
  then have none: "fst (fence_bounds FACTS_FENCE_BEGIN FACTS_FENCE_END ?body) = None" by (simp add: fence_bounds_def Let_def)
  then have bal: "facts_balanced ?body" and empty: "facts_of ?body = []"
    by (cases "fence_bounds FACTS_FENCE_BEGIN FACTS_FENCE_END ?body"; cases "snd (fence_bounds FACTS_FENCE_BEGIN FACTS_FENCE_END ?body)";
        simp add: facts_balanced_def facts_of_def parseFactsFence_def)+
  have n: "snd (upsertFactRow ?body ?r) = 1" by (simp add: upsertFactRow_def facts_of_def [symmetric] empty or_default_def Let_def)
  have new: "fact_of_new ?r 1 = (demo_fact 1 ''Runs'' Private None)\<lparr>pf_forgotten := None\<rparr>"
    by (simp add: fact_of_new_def demo_fact_def or_default_def)
  have rr: "reread (fact_of_new ?r 1) = demo_fact 1 ''Runs'' Private None"
    using demo_fact_reread [of None 1 "''Runs''" Private] unfolding new by (simp add: reread_def demo_fact_def)
  have "facts_ok [fact_of_new ?r 1]"
    using facts_ok_reread [of "[fact_of_new ?r 1]"] demo_fact_writable by (simp add: rr facts_ok_iff)
  then have ok: "facts_ok (facts_of ?body @ [fact_of_new ?r 1])" by (simp add: empty)
  have "(fst (upsertFactRow ?body ?r), 1) = upsertFactRow ?body ?r" using n by (metis prod.collapse)
  from fact_upsert_refines_append [OF bal this ok] show ?thesis using rr empty by simp
qed

end
