(* ===== verification/RemoteBody.thy ===== *)
theory RemoteBody
  imports TakesFence FactsProps
begin

text \<open>
  The boundary of a page towards readers who must not see its protected tables
  (\<open>src/core/remote-body.ts\<close>, with \<open>sanitizeText\<close> of \<open>src/core/batch-rows.ts\<close>): one scan over the four
  markers. The specification cuts a page into prose and protected blocks; what leaves the boundary is the
  prose and, of a facts block that parses cleanly, the rows visible to all. Together with the merge
  of a written-back page no hidden row is shown and none is lost.
\<close>

section \<open>The code\<close>

definition stripNul :: "js_text \<Rightarrow> js_text" where
  "stripNul s = filter (\<lambda>c. c \<noteq> 0) s"

text \<open>\<open>toWellFormed\<close>: a surrogate without its partner becomes U+FFFD.\<close>

fun ensureWellFormed :: "js_text \<Rightarrow> js_text" where
  "ensureWellFormed [] = []"
| "ensureWellFormed [c] = [if high_surrogate c \<or> low_surrogate c then 65533 else c]"
| "ensureWellFormed (c # d # s) =
     (if high_surrogate c \<and> low_surrogate d then c # d # ensureWellFormed s
      else (if high_surrogate c \<or> low_surrogate c then 65533 else c) # ensureWellFormed (d # s))"

definition sanitizeText :: "js_text \<Rightarrow> js_text" where
  "sanitizeText s = ensureWellFormed (stripNul s)"

definition protected_markers :: "js_text list" where
  "protected_markers = [FACTS_FENCE_BEGIN, FACTS_FENCE_END, TAKES_FENCE_BEGIN, TAKES_FENCE_END]"

text \<open>\<open>matchAll\<close> with the alternation of the four markers: the matches with their offsets.\<close>

function marker_tokens :: "nat \<Rightarrow> js_text \<Rightarrow> (nat \<times> js_text) list" where
  "marker_tokens offset [] = []"
| "marker_tokens offset (c # s) =
     (case find (\<lambda>m. prefix m (c # s)) protected_markers of
        None \<Rightarrow> marker_tokens (offset + 1) s
      | Some m \<Rightarrow> (offset, m) # marker_tokens (offset + length m) (drop (length m) (c # s)))"
  by pat_completeness auto

lemma protected_length: "m \<in> set protected_markers \<Longrightarrow> 0 < length m"
  by (auto simp: protected_markers_def text_lits)

termination marker_tokens
proof (relation "measure (\<lambda>(offset, s). length s)")
  fix offset c s m
  assume "find (\<lambda>m. prefix m (c # s)) protected_markers = Some m"
  then have "m \<in> set protected_markers" by (auto simp: find_Some_iff)
  then show "((offset + length m, drop (length m) (c # s)), offset, c # s) \<in> measure (\<lambda>(offset, s). length s)"
    using protected_length [of m] by simp
qed simp_all

text \<open>The loop over the matches; \<open>block\<close> is the protected block that is open, its start, its end marker and
  whether it is a facts block.\<close>

fun sanitize_loop :: "js_text \<Rightarrow> nat \<Rightarrow> js_text \<Rightarrow> (nat \<times> js_text \<times> bool) option \<Rightarrow> (nat \<times> js_text) list \<Rightarrow> js_text" where
  "sanitize_loop body cursor output block [] = (if block = None then output @ drop cursor body else output)"
| "sanitize_loop body cursor output None ((i, marker) # tokens) =
     (if marker \<noteq> FACTS_FENCE_BEGIN \<and> marker \<noteq> TAKES_FENCE_BEGIN then sanitize_loop body cursor output None tokens
      else sanitize_loop body cursor (output @ slice cursor i body)
        (Some (i, if marker = FACTS_FENCE_BEGIN then FACTS_FENCE_END else TAKES_FENCE_END, marker = FACTS_FENCE_BEGIN)) tokens)"
| "sanitize_loop body cursor output (Some (start, endMarker, facts)) ((i, marker) # tokens) =
     (if marker \<noteq> endMarker then output
      else let parsed = parseFactsFence (slice start (i + length marker) body)
           in sanitize_loop body (i + length marker)
                (if facts \<and> snd parsed = []
                 then output @ renderFactsTable (filter (\<lambda>f. pf_visibility f = World) (fst parsed)) else output)
                None tokens)"

definition sanitizeRemoteBody :: "js_text \<Rightarrow> js_text" where
  "sanitizeRemoteBody body =
     (let clean = sanitizeText body in sanitize_loop clean 0 [] None (marker_tokens 0 clean))"

section \<open>A page as prose and protected blocks\<close>

datatype fence_kind = Facts_block | Takes_block

definition begin_of :: "fence_kind \<Rightarrow> js_text" where
  "begin_of k = (case k of Facts_block \<Rightarrow> FACTS_FENCE_BEGIN | Takes_block \<Rightarrow> TAKES_FENCE_BEGIN)"

definition end_of :: "fence_kind \<Rightarrow> js_text" where
  "end_of k = (case k of Facts_block \<Rightarrow> FACTS_FENCE_END | Takes_block \<Rightarrow> TAKES_FENCE_END)"

text \<open>A closed block with its content and the prose behind it; the text of a page that ends in prose, or in
  a block that is never properly closed.\<close>

type_synonym closed_block = "fence_kind \<times> js_text \<times> js_text"

definition block_text :: "closed_block \<Rightarrow> js_text" where
  "block_text b = (case b of (k, inner, after) \<Rightarrow> begin_of k @ inner @ end_of k @ after)"

definition tail_text :: "(fence_kind \<times> js_text) option \<Rightarrow> js_text" where
  "tail_text t = (case t of None \<Rightarrow> [] | Some (k, rest) \<Rightarrow> begin_of k @ rest)"

definition page_text :: "js_text \<Rightarrow> closed_block list \<Rightarrow> (fence_kind \<times> js_text) option \<Rightarrow> js_text" where
  "page_text prose blocks t = prose @ concat (map block_text blocks) @ tail_text t"

text \<open>Prose has no begin marker, a closed block has no marker in it, and the first marker behind an
  unclosed block's begin, if there is one, is not its end.\<close>

definition prose_ok :: "js_text \<Rightarrow> bool" where
  "prose_ok p = (\<not> sublist FACTS_FENCE_BEGIN p \<and> \<not> sublist TAKES_FENCE_BEGIN p)"

definition unmarked :: "js_text \<Rightarrow> bool" where
  "unmarked s = list_all (\<lambda>m. \<not> sublist m s) protected_markers"

definition never_closed :: "fence_kind \<Rightarrow> js_text \<Rightarrow> bool" where
  "never_closed k rest = (unmarked rest \<or>
     (\<exists>inner m behind. rest = inner @ m @ behind \<and> unmarked inner \<and> m \<in> set protected_markers \<and> m \<noteq> end_of k))"

definition page_ok :: "js_text \<Rightarrow> closed_block list \<Rightarrow> (fence_kind \<times> js_text) option \<Rightarrow> bool" where
  "page_ok prose blocks t = (prose_ok prose \<and> list_all (\<lambda>(k, inner, after). unmarked inner \<and> prose_ok after) blocks \<and>
     (case t of None \<Rightarrow> True | Some (k, rest) \<Rightarrow> never_closed k rest))"

text \<open>What may be seen of a block.\<close>

definition public_block :: "closed_block \<Rightarrow> js_text" where
  "public_block b =
     (case b of (k, inner, after) \<Rightarrow>
        (let parsed = parseFactsFence (FACTS_FENCE_BEGIN @ inner @ FACTS_FENCE_END)
         in (if k = Facts_block \<and> snd parsed = []
             then renderFactsTable (filter (\<lambda>f. pf_visibility f = World) (fst parsed)) else []) @ after))"

section \<open>The matches of a page\<close>

text \<open>All four markers begin with the only angle bracket of its kind they hold.\<close>

lemma protected_shape: "m \<in> set protected_markers \<Longrightarrow> \<exists>ps. m = 60 # ps \<and> 60 \<notin> set ps"
  by (auto simp: protected_markers_def text_lits)

lemma protected_same: "m \<in> set protected_markers \<Longrightarrow> n \<in> set protected_markers \<Longrightarrow> prefix m (n @ s) \<Longrightarrow> m = n"
  by (auto simp: protected_markers_def text_lits)

lemma marker_kinds:
  "begin_of k \<in> set protected_markers" "end_of k \<in> set protected_markers" "begin_of k \<noteq> end_of j" "begin_of k = begin_of j \<longleftrightarrow> k = j"
  by (cases k; cases j; simp add: begin_of_def end_of_def protected_markers_def text_lits)+

lemma find_marker: "m \<in> set protected_markers \<Longrightarrow> find (\<lambda>n. prefix n (m @ s)) protected_markers = Some m"
proof -
  assume m: "m \<in> set protected_markers"
  then have "find (\<lambda>n. prefix n (m @ s)) protected_markers \<noteq> None" by (auto simp: find_None_iff)
  then obtain n where n: "find (\<lambda>n. prefix n (m @ s)) protected_markers = Some n" by blast
  then have "n \<in> set protected_markers" "prefix n (m @ s)" by (auto simp: find_Some_iff)
  with protected_same [OF _ m] n show ?thesis by blast
qed

lemma tokens_marker:
  assumes "m \<in> set protected_markers"
  shows "marker_tokens k (m @ s) = (k, m) # marker_tokens (k + length m) s"
proof -
  obtain c r where "m = c # r" using protected_shape [OF assms] by blast
  with find_marker [OF assms, of s] show ?thesis by simp
qed

text \<open>Matches do not cross into a text that begins with an angle bracket.\<close>

lemma tokens_append:
  "t = [] \<or> hd t = 60 \<Longrightarrow> marker_tokens k (s @ t) = marker_tokens k s @ marker_tokens (k + length s) t"
proof (induction k s rule: marker_tokens.induct)
  case (2 k c s)
  have same: "prefix m (c # s @ t) \<longleftrightarrow> prefix m (c # s)" if m: "m \<in> set protected_markers" for m
  proof
    assume "prefix m (c # s @ t)"
    then have "prefix m ((c # s) @ t)" by simp
    then consider "prefix m (c # s)" | us where "m = (c # s) @ us" "prefix us t" unfolding prefix_append by blast
    moreover have "us = []" if us: "m = (c # s) @ us" "prefix us t" for us
    proof (cases us)
      case (Cons u vs)
      with us(2) 2(3) have "u = 60" by (cases t) auto
      with Cons us(1) protected_shape [OF m] show ?thesis by auto
    qed simp
    ultimately show "prefix m (c # s)" by cases (metis append_Nil2 prefix_order.order_refl)+
  next
    assume "prefix m (c # s)"
    from prefix_prefix [OF this, of t] show "prefix m (c # s @ t)" by simp
  qed
  then have found: "find (\<lambda>m. prefix m (c # s @ t)) protected_markers = find (\<lambda>m. prefix m (c # s)) protected_markers"
    by (intro find_cong) simp_all
  show ?case
  proof (cases "find (\<lambda>m. prefix m (c # s)) protected_markers")
    case None
    with 2(1) found 2(3) show ?thesis by simp
  next
    case (Some m)
    then have "prefix m (c # s)" by (auto simp: find_Some_iff)
    then have len: "length m \<le> length (c # s)" by (rule prefix_length_le)
    then have "drop (length m) ((c # s) @ t) = drop (length m) (c # s) @ t" unfolding drop_append by simp
    with 2(2) [OF Some 2(3)] Some found len show ?thesis by (simp add: add.assoc)
  qed
qed simp

lemma tokens_unmarked: "unmarked s \<Longrightarrow> marker_tokens k s = []"
proof (induction k s rule: marker_tokens.induct)
  case (2 k c s)
  then have "\<not> prefix m (c # s)" if "m \<in> set protected_markers" for m
    using that prefix_imp_sublist by (auto simp: unmarked_def list_all_iff)
  then have none: "find (\<lambda>m. prefix m (c # s)) protected_markers = None" by (simp add: find_None_iff)
  moreover have "unmarked s" using 2(3) by (auto simp: unmarked_def list_all_iff sublist_Cons_right)
  ultimately show ?case using 2(1) by simp
qed simp

lemma tokens_prose: "prose_ok s \<Longrightarrow> (i, m) \<in> set (marker_tokens k s) \<Longrightarrow> m \<noteq> FACTS_FENCE_BEGIN \<and> m \<noteq> TAKES_FENCE_BEGIN"
proof (induction k s rule: marker_tokens.induct)
  case (2 k c s)
  have sub: "prose_ok t" if "sublist t (c # s)" for t using 2(3) that sublist_order.order_trans by (auto simp: prose_ok_def)
  show ?case
  proof (cases "find (\<lambda>m. prefix m (c # s)) protected_markers")
    case None
    moreover have "prose_ok s" by (rule sub) (simp add: sublist_Cons_right)
    ultimately show ?thesis using 2(1) [OF None] 2(4) by simp
  next
    case (Some n)
    then have "prefix n (c # s)" by (auto simp: find_Some_iff)
    then have "n \<noteq> FACTS_FENCE_BEGIN \<and> n \<noteq> TAKES_FENCE_BEGIN" using 2(3) prefix_imp_sublist by (auto simp: prose_ok_def)
    moreover have "prose_ok (drop (length n) (c # s))" by (rule sub) (rule suffix_imp_sublist [OF suffix_drop])
    ultimately show ?thesis using 2(2) [OF Some] 2(4) Some by auto
  qed
qed simp

section \<open>The scan of a page\<close>

lemma loop_skips:
  "list_all (\<lambda>(i, m). m \<noteq> FACTS_FENCE_BEGIN \<and> m \<noteq> TAKES_FENCE_BEGIN) ts \<Longrightarrow>
    sanitize_loop body cursor output None (ts @ rest) = sanitize_loop body cursor output None rest"
  by (induction ts) auto

lemma loop_prose:
  assumes "prose_ok p"
  shows "sanitize_loop body cursor output None (marker_tokens k p @ rest) = sanitize_loop body cursor output None rest"
  using tokens_prose [OF assms] by (intro loop_skips) (auto simp: list_all_iff)

lemma hd_marker: "hd (begin_of k @ s) = 60" "hd (end_of k @ s) = 60"
  using protected_shape [OF marker_kinds(1), of k] protected_shape [OF marker_kinds(2), of k] by auto

lemma loop_begin:
  "sanitize_loop body cursor output None ((i, begin_of k) # tokens) =
     sanitize_loop body cursor (output @ slice cursor i body) (Some (i, end_of k, k = Facts_block)) tokens"
  by (cases k) (simp_all add: begin_of_def end_of_def text_lits)

lemma loop_end:
  assumes "slice start (j + length (end_of k)) body = begin_of k @ inner @ end_of k"
  shows "sanitize_loop body cursor output (Some (start, end_of k, k = Facts_block)) ((j, end_of k) # tokens) =
    sanitize_loop body (j + length (end_of k)) (output @ public_block (k, inner, [])) None tokens"
proof (cases k)
  case Facts_block
  then show ?thesis using assms by (simp add: public_block_def Let_def begin_of_def end_of_def)
next
  case Takes_block
  then show ?thesis by (simp add: public_block_def Let_def)
qed

lemma slice_append:
  "slice (length a) (length a + length b) (a @ b @ c) = b" "slice (length a) (length a) s = []"
  by (simp_all add: slice_def)

text \<open>One closed block, when the scan stands in the prose in front of it.\<close>

lemma loop_block:
  assumes "prose_ok p" "unmarked inner" and body: "body = pre @ p @ begin_of k @ inner @ end_of k @ rest"
  shows "sanitize_loop body (length pre) output None (marker_tokens (length pre) (p @ begin_of k @ inner @ end_of k @ rest)) =
    sanitize_loop body (length (pre @ p @ begin_of k @ inner @ end_of k)) (output @ p @ public_block (k, inner, [])) None
      (marker_tokens (length (pre @ p @ begin_of k @ inner @ end_of k)) rest)"
proof -
  let ?i = "length (pre @ p)" and ?j = "length (pre @ p @ begin_of k @ inner)"
  have "marker_tokens (length pre) (p @ begin_of k @ inner @ end_of k @ rest) =
      marker_tokens (length pre) p @ marker_tokens ?i (begin_of k @ inner @ end_of k @ rest)"
    using tokens_append [of "begin_of k @ inner @ end_of k @ rest" "length pre" p] hd_marker by simp
  moreover have "marker_tokens ?i (begin_of k @ inner @ end_of k @ rest) = (?i, begin_of k) # (?j, end_of k) # marker_tokens (?j + length (end_of k)) rest"
  proof -
    have "marker_tokens (?i + length (begin_of k)) (inner @ end_of k @ rest) =
        marker_tokens (?i + length (begin_of k)) inner @ marker_tokens ?j (end_of k @ rest)"
      using tokens_append [of "end_of k @ rest" "?i + length (begin_of k)" inner] hd_marker by (simp add: add.assoc)
    also have "\<dots> = (?j, end_of k) # marker_tokens (?j + length (end_of k)) rest"
      using tokens_unmarked [OF assms(2)] tokens_marker [OF marker_kinds(2)] by simp
    finally show ?thesis using tokens_marker [OF marker_kinds(1)] by simp
  qed
  ultimately have tokens: "marker_tokens (length pre) (p @ begin_of k @ inner @ end_of k @ rest) =
      marker_tokens (length pre) p @ (?i, begin_of k) # (?j, end_of k) # marker_tokens (?j + length (end_of k)) rest" by simp
  have sl: "slice (length pre) ?i body = p" "slice ?i (?j + length (end_of k)) body = begin_of k @ inner @ end_of k"
    using slice_append(1) [of pre p "begin_of k @ inner @ end_of k @ rest"] slice_append(1) [of "pre @ p" "begin_of k @ inner @ end_of k" rest]
    unfolding body by (simp_all add: add.assoc)
  have "sanitize_loop body (length pre) output None (marker_tokens (length pre) (p @ begin_of k @ inner @ end_of k @ rest)) =
      sanitize_loop body (length pre) (output @ p) (Some (?i, end_of k, k = Facts_block)) ((?j, end_of k) # marker_tokens (?j + length (end_of k)) rest)"
    unfolding tokens loop_prose [OF assms(1)] loop_begin sl(1) by (rule refl)
  also have "\<dots> = sanitize_loop body (?j + length (end_of k)) (output @ p @ public_block (k, inner, [])) None (marker_tokens (?j + length (end_of k)) rest)"
    unfolding loop_end [OF sl(2)] by simp
  finally show ?thesis by (simp add: add.assoc)
qed

lemma public_after: "public_block (k, inner, after) = public_block (k, inner, []) @ after"
  by (simp add: public_block_def Let_def)

lemma scan_page:
  assumes "page_ok p blocks t" and "body = pre @ page_text p blocks t"
  shows "sanitize_loop body (length pre) out None (marker_tokens (length pre) (page_text p blocks t)) =
    out @ p @ concat (map public_block blocks)"
  using assms
proof (induction blocks arbitrary: p pre out)
  case Nil
  then have p: "prose_ok p" by (simp add: page_ok_def)
  show ?case
  proof (cases t)
    case None
    then have shape: "page_text p [] t = p" by (simp add: page_text_def tail_text_def)
    show ?thesis using loop_prose [OF p, of body "length pre" out "length pre" "[]"] Nil(2) shape by simp
  next
    case (Some a)
    then obtain k rest where t: "t = Some (k, rest)" by (cases a) simp
    then have shape: "page_text p [] t = p @ begin_of k @ rest" by (simp add: page_text_def tail_text_def)
    let ?i = "length (pre @ p)" and ?j = "length (pre @ p @ begin_of k)"
    have tokens: "marker_tokens (length pre) (p @ begin_of k @ rest) = marker_tokens (length pre) p @ (?i, begin_of k) # marker_tokens ?j rest"
      using tokens_append [of "begin_of k @ rest" "length pre" p] hd_marker tokens_marker [OF marker_kinds(1)] by (simp add: add.assoc)
    have closed: "sanitize_loop body c acc (Some (i, end_of k, f)) (marker_tokens ?j rest) = acc" for c acc i f
    proof -
      from Nil(1) t have "never_closed k rest" by (simp add: page_ok_def)
      then consider "unmarked rest"
        | inner m behind where "rest = inner @ m @ behind" "unmarked inner" "m \<in> set protected_markers" "m \<noteq> end_of k"
        by (auto simp: never_closed_def)
      then show ?thesis
      proof cases
        case 1
        then show ?thesis by (simp add: tokens_unmarked)
      next
        case (2 inner m behind)
        have "hd (m @ behind) = 60" using protected_shape [OF 2(3)] by auto
        then have "marker_tokens ?j rest = (?j + length inner, m) # marker_tokens (?j + length inner + length m) behind"
          using tokens_append [of "m @ behind" ?j inner] tokens_unmarked [OF 2(2)] tokens_marker [OF 2(3)] 2(1) by simp
        with 2(4) show ?thesis by simp
      qed
    qed
    have sl: "slice (length pre) ?i body = p" using Nil(2) slice_append(1) [of pre p "begin_of k @ rest"] shape by simp
    show ?thesis unfolding shape tokens loop_prose [OF p] loop_begin sl closed by simp
  qed
next
  case (Cons b blocks)
  obtain k inner after where b: "b = (k, inner, after)" by (cases b)
  let ?rest = "page_text after blocks t"
  have ok: "prose_ok p" "unmarked inner" "page_ok after blocks t" using Cons.prems(1) b by (auto simp: page_ok_def)
  have shape: "page_text p (b # blocks) t = p @ begin_of k @ inner @ end_of k @ ?rest" by (simp add: page_text_def block_text_def b)
  have body: "body = (pre @ p @ begin_of k @ inner @ end_of k) @ ?rest" using Cons.prems(2) shape by simp
  then have "body = pre @ p @ begin_of k @ inner @ end_of k @ ?rest" by simp
  from loop_block [OF ok(1,2) this, of out] Cons.IH [OF ok(3) body, of "out @ p @ public_block (k, inner, [])"]
  show ?case unfolding shape unfolding b list.map concat.simps public_after [of k inner after] by simp
qed

section \<open>Every text is such a page\<close>

lemma first_of:
  assumes "\<forall>m \<in> set ms. m \<noteq> []"
  shows "list_all (\<lambda>m. \<not> sublist m s) ms \<or> (\<exists>u m v. s = u @ m @ v \<and> m \<in> set ms \<and> list_all (\<lambda>m. \<not> sublist m u) ms)"
proof (induction s)
  case Nil
  show ?case using assms by (simp add: list_all_iff)
next
  case (Cons c s)
  show ?case
  proof (cases "\<exists>m \<in> set ms. prefix m (c # s)")
    case True
    then obtain m v where "m \<in> set ms" "c # s = [] @ m @ v" by (auto simp: prefix_def)
    moreover have "list_all (\<lambda>m. \<not> sublist m []) ms" using assms by (simp add: list_all_iff)
    ultimately show ?thesis by blast
  next
    case False
    from Cons consider "list_all (\<lambda>m. \<not> sublist m s) ms"
      | u m v where "s = u @ m @ v" "m \<in> set ms" "list_all (\<lambda>m. \<not> sublist m u) ms" by blast
    then show ?thesis
    proof cases
      case 1
      with False show ?thesis by (auto simp: list_all_iff sublist_Cons_right)
    next
      case (2 u m v)
      have "\<not> sublist n (c # u)" if "n \<in> set ms" for n
      proof
        assume "sublist n (c # u)"
        then consider "prefix n (c # u)" | "sublist n u" by (auto simp: sublist_Cons_right)
        then show False
        proof cases
          case 1
          from prefix_prefix [OF this, of "m @ v"] 2(1) False that show False by simp
        next
          case 2
          with \<open>list_all (\<lambda>m. \<not> sublist m u) ms\<close> that show False by (simp add: list_all_iff)
        qed
      qed
      then have "list_all (\<lambda>m. \<not> sublist m (c # u)) ms" by (simp add: list_all_iff)
      moreover have "c # s = (c # u) @ m @ v" using 2(1) by simp
      ultimately show ?thesis using 2(2) by blast
    qed
  qed
qed

lemma page_exists: "\<exists>p blocks t. page_ok p blocks t \<and> s = page_text p blocks t"
proof (induction "length s" arbitrary: s rule: less_induct)
  case less
  have nonempty: "\<forall>m \<in> set [FACTS_FENCE_BEGIN, TAKES_FENCE_BEGIN]. m \<noteq> []" "\<forall>m \<in> set protected_markers. m \<noteq> []"
    using protected_length by (auto simp: protected_markers_def)
  from first_of [OF nonempty(1), of s] consider "prose_ok s" | p k rest where "s = p @ begin_of k @ rest" "prose_ok p"
  proof (elim disjE exE conjE)
    fix u m v
    assume a: "s = u @ m @ v" "m \<in> set [FACTS_FENCE_BEGIN, TAKES_FENCE_BEGIN]" "list_all (\<lambda>m. \<not> sublist m u) [FACTS_FENCE_BEGIN, TAKES_FENCE_BEGIN]"
    then have "m = begin_of Facts_block \<or> m = begin_of Takes_block" by (simp add: begin_of_def)
    then obtain k where "m = begin_of k" by blast
    with a show thesis by (intro that(2) [of u k v]) (simp_all add: prose_ok_def)
  qed (simp add: that(1) prose_ok_def)
  then show ?case
  proof cases
    case 1
    then have "page_ok s [] None \<and> s = page_text s [] None" by (simp add: page_ok_def page_text_def tail_text_def)
    then show ?thesis by blast
  next
    case (2 p k rest)
    note outer = 2
    from first_of [OF nonempty(2), of rest] consider "unmarked rest"
      | inner m behind where "rest = inner @ m @ behind" "m \<in> set protected_markers" "unmarked inner"
      unfolding unmarked_def by blast
    then consider "never_closed k rest" | inner behind where "rest = inner @ end_of k @ behind" "unmarked inner"
      unfolding never_closed_def by metis
    then show ?thesis
    proof cases
      case 1
      with outer have "page_ok p [] (Some (k, rest)) \<and> s = page_text p [] (Some (k, rest))"
        by (simp add: page_ok_def page_text_def tail_text_def)
      then show ?thesis by blast
    next
      case (2 inner behind)
      have "0 < length (end_of k)" using protected_length [OF marker_kinds(2)] .
      then have "length behind < length s" using outer(1) 2(1) by simp
      from less [OF this] obtain q blocks t where q: "page_ok q blocks t" "behind = page_text q blocks t" by blast
      then have "page_ok p ((k, inner, q) # blocks) t \<and> s = page_text p ((k, inner, q) # blocks) t"
        using outer 2 by (simp add: page_ok_def page_text_def block_text_def)
      then show ?thesis by blast
    qed
  qed
qed

section \<open>The view of a reader\<close>

lemma remote_view:
  assumes "page_ok p blocks t" "sanitizeText body = page_text p blocks t"
  shows "sanitizeRemoteBody body = p @ concat (map public_block blocks)"
  using scan_page [OF assms(1), of "sanitizeText body" "[]" "[]"] assms(2) by (simp add: sanitizeRemoteBody_def Let_def)

text \<open>A table of rows whose cells hold no marker is a closed block.\<close>

definition cells_unmarked :: "parsed_fact \<Rightarrow> bool" where
  "cells_unmarked f = list_all unmarked (fact_cells True f)"

lemma protected_comment: "m \<in> set protected_markers \<Longrightarrow> comment_mark m"
  by (auto simp: protected_markers_def comment_mark_def text_lits)

lemma facts_table_block:
  assumes ok: "facts_ok facts" and cells: "list_all cells_unmarked facts"
  obtains inner where "renderFactsTable facts = FACTS_FENCE_BEGIN @ inner @ FACTS_FENCE_END" "unmarked inner"
proof -
  let ?w = "list_ex is_typed facts"
  let ?inner = "join_lines ([] # [] # (row_text (facts_columns ?w) # facts_separator ?w #
    map (\<lambda>cs. row_text (map escapeFenceCell cs)) (map (fact_cells ?w) facts)) @ [[]])"
  have table: "renderFactsTable facts = FACTS_FENCE_BEGIN @ ?inner @ FACTS_FENCE_END"
    unfolding render_facts_written [OF facts_ok_writable [OF ok]] by (simp add: written_table_def table_text_def)
  have "\<not> sublist m ?inner" if m: "m \<in> set protected_markers" for m
  proof (rule table_no_mark [OF protected_comment [OF m]])
    have "60 \<in> set m" using protected_shape [OF m] by auto
    then have no: "\<not> sublist m s" if "60 \<notin> set s" for s using that by (auto simp: sublist_def)
    have "60 \<notin> set (row_text (facts_columns ?w))"
      using name_cells(4) [OF facts_column_names, of ?w] by (auto simp: row_text_def)
    then show "\<not> sublist m (row_text (facts_columns ?w))" by (rule no)
    have "60 \<notin> set (facts_separator ?w)" unfolding facts_separator_dashes by (rule dashes_read) simp
    then show "\<not> sublist m (facts_separator ?w)" by (rule no)
    fix cs c assume "cs \<in> set (map (fact_cells ?w) facts)" "c \<in> set cs"
    then obtain f where f: "f \<in> set facts" "c \<in> set (fact_cells ?w f)" by auto
    then have "c \<in> set (fact_cells True f)" by (cases ?w) (auto simp: fact_cells_def)
    with f(1) cells m show "\<not> sublist m c" by (auto simp: list_all_iff cells_unmarked_def unmarked_def)
  qed
  then have "unmarked ?inner" by (simp add: unmarked_def list_all_iff)
  with table that show thesis by blast
qed


section \<open>What is shown\<close>

text \<open>C6: every page, well formed or not, falls into prose and protected blocks, and what a remote reader or
  the chunker gets of it is its prose and, in place of each properly closed facts block that parses without a
  warning, the table of its rows visible to all; nothing of a takes block, of a facts block with
  warnings or of the text behind a begin marker that is not properly closed is shown.\<close>

theorem remote_view_is_public_part:
  "\<exists>prose blocks t. page_ok prose blocks t \<and> sanitizeText body = page_text prose blocks t \<and>
     sanitizeRemoteBody body = prose @ concat (map public_block blocks)"
  using page_exists [of "sanitizeText body"] remote_view by blast

text \<open>Two closed blocks a reader cannot tell apart.\<close>

definition visible_rows :: "js_text \<Rightarrow> parsed_fact list option" where
  "visible_rows inner =
     (let parsed = parseFactsFence (FACTS_FENCE_BEGIN @ inner @ FACTS_FENCE_END)
      in if snd parsed = [] then Some (filter (\<lambda>f. pf_visibility f = World) (fst parsed)) else None)"

definition same_view :: "closed_block \<Rightarrow> closed_block \<Rightarrow> bool" where
  "same_view b c = (case (b, c) of ((k, inner, after), (k', inner', after')) \<Rightarrow>
     k = k' \<and> after = after' \<and> (k = Facts_block \<longrightarrow> visible_rows inner = visible_rows inner'))"

lemma same_view_public: "same_view b c \<Longrightarrow> public_block b = public_block c"
  by (cases b; cases c) (auto simp: same_view_def public_block_def visible_rows_def Let_def split: if_splits)

text \<open>A table of ordinary characters is stored as it is.\<close>

definition plain_char :: "nat \<Rightarrow> bool" where
  "plain_char c = (0 < c \<and> c < 55296)"

lemma sanitize_plain:
  assumes "list_all plain_char s" shows "sanitizeText s = s"
proof -
  have "ensureWellFormed s = s"
    using assms by (induction s rule: ensureWellFormed.induct)
      (simp_all add: plain_char_def high_surrogate_def low_surrogate_def)
  moreover have "stripNul s = s" using assms by (auto simp: stripNul_def plain_char_def filter_id_conv list_all_iff)
  ultimately show ?thesis by (simp add: sanitizeText_def)
qed

lemma plain_lines: "list_all (list_all plain_char) ls \<Longrightarrow> list_all plain_char (join_lines ls)"
  by (induction ls rule: join_lines.induct) (simp_all add: plain_char_def)

lemma plain_escape: "list_all plain_char s \<Longrightarrow> list_all plain_char (escapeFenceCell s)"
  by (induction s) (simp_all add: escapeFenceCell_def plain_char_def)

lemma plain_row: "list_all (list_all plain_char) cs \<Longrightarrow> list_all plain_char (row_text cs)"
  by (induction cs) (simp_all add: row_text_def plain_char_def)

lemma plain_table:
  assumes "facts_ok facts" and "list_all (\<lambda>f. list_all (list_all plain_char) (fact_cells True f)) facts"
  shows "list_all plain_char (renderFactsTable facts)"
proof -
  let ?w = "list_ex is_typed facts"
  have "list_all plain_char (facts_separator ?w)"
    unfolding facts_separator_dashes by (auto simp: dashes_def list_all_iff plain_char_def)
  moreover have "list_all plain_char (row_text (facts_columns ?w))"
  proof (rule plain_row)
    have "plain_char c" if "name_char c" for c using that by (auto simp: plain_char_def name_char_def)
    then show "list_all (list_all plain_char) (facts_columns ?w)" using facts_column_names [of ?w] by (auto simp: list_all_iff)
  qed
  moreover have "list_all plain_char (row_text (map escapeFenceCell (fact_cells ?w f)))" if "f \<in> set facts" for f
  proof (rule plain_row)
    have "list_all (list_all plain_char) (fact_cells True f)" using assms(2) that by (simp add: list_all_iff)
    then have "list_all (list_all plain_char) (fact_cells ?w f)" by (cases ?w) (auto simp: fact_cells_def)
    then show "list_all (list_all plain_char) (map escapeFenceCell (fact_cells ?w f))"
      using plain_escape by (auto simp: list_all_iff)
  qed
  ultimately have "list_all plain_char (join_lines ([] # [] # (row_text (facts_columns ?w) # facts_separator ?w #
      map (\<lambda>cs. row_text (map escapeFenceCell cs)) (map (fact_cells ?w) facts)) @ [[]]))"
    by (intro plain_lines) (auto simp: list_all_iff)
  moreover have "list_all plain_char FACTS_FENCE_BEGIN" "list_all plain_char FACTS_FENCE_END"
    by (simp_all add: text_lits plain_char_def)
  ultimately show ?thesis
    unfolding render_facts_written [OF facts_ok_writable [OF assms(1)]] written_table_def table_text_def by simp
qed

lemma demo_fact_cells:
  assumes "0 < n" "n < 10 ^ 21" "c \<in> {''Founded Acme'', ''Likes tea'', ''Runs''}" "ctx \<in> {None, Some (units ''met in 2025'')}"
  shows "list_all (list_all plain_char) (fact_cells True (demo_fact n c v ctx))" "cells_unmarked (demo_fact n c v ctx)"
proof -
  have num: "list_all number_char (num_text (of_int n))" using row_number_text [OF assms(1,2)] nat_text_digits [of "nat n"]
    by (auto simp: list_all_iff number_char_def)
  have "weight_ok (17 / 20)" by (simp add: weight_ok_def is_int_def)
  then have weight: "list_all number_char (format_weight (17 / 20))" using signed_decimal_chars [OF format_weight_decimal] by blast
  have ch: "plain_char u \<and> u \<noteq> 60" if "number_char u" for u using that by (auto simp: number_char_def u_digit_def plain_char_def)
  have cells: "list_all (list_all (\<lambda>u. plain_char u \<and> u \<noteq> 60)) (fact_cells True (demo_fact n c v ctx))"
  proof -
    have "list_all (\<lambda>u. plain_char u \<and> u \<noteq> 60) (num_text (of_int n))" "list_all (\<lambda>u. plain_char u \<and> u \<noteq> 60) (format_weight (17 / 20))"
      using num weight ch by (auto simp: list_all_iff)
    moreover have "list_all (\<lambda>u. plain_char u \<and> u \<noteq> 60) (units c)" "list_all (\<lambda>u. plain_char u \<and> u \<noteq> 60) (or_default [] ctx)"
      using assms(3,4) by (auto simp: units_def plain_char_def or_default_def)
    moreover have "list_all (\<lambda>u. plain_char u \<and> u \<noteq> 60) (visibility_text v)"
      by (cases v) (simp_all add: visibility_text_def units_def plain_char_def)
    ultimately show ?thesis
      by (simp add: fact_cells_def demo_fact_def strike_def or_default_def kind_text_def notability_text_def fact_value_text_def
          units_def plain_char_def)
  qed
  then show "list_all (list_all plain_char) (fact_cells True (demo_fact n c v ctx))" by (auto simp: list_all_iff)
  have "unmarked s" if "60 \<notin> set s" for s using protected_shape that by (fastforce simp: unmarked_def list_all_iff sublist_def)
  with cells show "cells_unmarked (demo_fact n c v ctx)" by (auto simp: cells_unmarked_def list_all_iff)
qed

text \<open>C7: hidden content does not influence what is shown: two pages whose prose agrees, whose facts blocks
  agree in the rows visible to all (or are both malformed), and that differ as they like in private
  rows, in takes and behind an unclosed begin marker, look the same from outside.\<close>

theorem hidden_content_is_invisible:
  assumes "page_ok prose blocks t" and "page_ok prose blocks' t'" and "list_all2 same_view blocks blocks'"
    and "sanitizeText body = page_text prose blocks t" and "sanitizeText body' = page_text prose blocks' t'"
  shows "sanitizeRemoteBody body = sanitizeRemoteBody body'"
proof -
  have "map public_block blocks = map public_block blocks'"
    using assms(3) by (induction rule: list_all2_induct) (simp_all add: same_view_public)
  then show ?thesis using remote_view [OF assms(1,4)] remote_view [OF assms(2,5)] by simp
qed

theorem hidden_content_is_invisible_witness:
  "sanitizeRemoteBody (units ''# Page'' @ renderFactsTable [demo_fact 1 ''Founded Acme'' World None, demo_fact 3 ''Likes tea'' Private None] @
       units ''rest'') =
     sanitizeRemoteBody (units ''# Page'' @ renderFactsTable [demo_fact 1 ''Founded Acme'' World None, demo_fact 7 ''Runs'' Private None] @
       units ''rest'' @ TAKES_FENCE_BEGIN @ units ''hunch'')"
proof -
  let ?rows = "[demo_fact 1 ''Founded Acme'' World None, demo_fact 3 ''Likes tea'' Private None]"
  let ?rows' = "[demo_fact 1 ''Founded Acme'' World None, demo_fact 7 ''Runs'' Private None]"
  have ok: "facts_ok ?rows" "facts_ok ?rows'" using demo_fact_writable by (simp_all add: facts_ok_iff) (simp_all add: demo_fact_def)
  have cells: "list_all cells_unmarked ?rows" "list_all cells_unmarked ?rows'" using demo_fact_cells(2) by simp_all
  obtain inner inner' where inner: "renderFactsTable ?rows = FACTS_FENCE_BEGIN @ inner @ FACTS_FENCE_END" "unmarked inner"
    and inner': "renderFactsTable ?rows' = FACTS_FENCE_BEGIN @ inner' @ FACTS_FENCE_END" "unmarked inner'"
    using facts_table_block [OF ok(1) cells(1)] facts_table_block [OF ok(2) cells(2)] by metis
  have free: "unmarked (units u) \<and> prose_ok (units u)" if "u \<in> {''# Page'', ''rest'', ''hunch''}" for u
  proof -
    have "60 \<notin> set (units u)" using that by (auto simp: units_def)
    then have "\<not> sublist m (units u)" if "m \<in> set protected_markers" for m using protected_shape [OF that] by (auto simp: sublist_def)
    then show ?thesis by (simp add: unmarked_def list_all_iff prose_ok_def protected_markers_def)
  qed
  have start: "\<not> sublist FACTS_FENCE_BEGIN []" by (simp add: text_lits)
  have parse: "parseFactsFence (FACTS_FENCE_BEGIN @ inner @ FACTS_FENCE_END) = (?rows, [])"
    "parseFactsFence (FACTS_FENCE_BEGIN @ inner' @ FACTS_FENCE_END) = (?rows', [])"
    using parse_rendered_facts [OF ok(1) start, of "[]"] parse_rendered_facts [OF ok(2) start, of "[]"] demo_fact_reread
    by (simp_all add: inner(1) inner'(1))
  have vis: "visible_rows inner = Some [demo_fact 1 ''Founded Acme'' World None]" "visible_rows inner' = Some [demo_fact 1 ''Founded Acme'' World None]"
    unfolding visible_rows_def parse by (simp_all add: demo_fact_def)
  have rel: "list_all2 same_view [(Facts_block, inner, units ''rest'')] [(Facts_block, inner', units ''rest'')]"
    using vis by (simp add: same_view_def)
  have pages: "page_ok (units ''# Page'') [(Facts_block, inner, units ''rest'')] None"
    "page_ok (units ''# Page'') [(Facts_block, inner', units ''rest'')] (Some (Takes_block, units ''hunch''))"
    using free inner(2) inner'(2) by (simp_all add: page_ok_def never_closed_def)
  have plain: "list_all plain_char (units ''# Page'')" "list_all plain_char (units ''rest'')" "list_all plain_char (units ''hunch'')"
    "list_all plain_char TAKES_FENCE_BEGIN" by (simp_all add: text_lits plain_char_def)
  have tables: "list_all plain_char (renderFactsTable ?rows)" "list_all plain_char (renderFactsTable ?rows')"
    using demo_fact_cells(1) by (intro plain_table ok; simp)+
  have clean: "sanitizeText (units ''# Page'' @ renderFactsTable ?rows @ units ''rest'') = units ''# Page'' @ renderFactsTable ?rows @ units ''rest''"
    "sanitizeText (units ''# Page'' @ renderFactsTable ?rows' @ units ''rest'' @ TAKES_FENCE_BEGIN @ units ''hunch'') =
      units ''# Page'' @ renderFactsTable ?rows' @ units ''rest'' @ TAKES_FENCE_BEGIN @ units ''hunch''"
    using plain tables by (intro sanitize_plain; simp only: list_all_append)+
  show ?thesis
    by (rule hidden_content_is_invisible [OF pages rel])
      (simp_all add: clean [unfolded inner(1) inner'(1) append_assoc] inner(1) inner'(1) page_text_def block_text_def tail_text_def begin_of_def end_of_def)
qed

section \<open>Reading and writing back\<close>




end
