(* ===== verification/DbLock.thy ===== *)
theory DbLock
  imports Retry
begin

text \<open>
  The named locks that keep long-running work exclusive across processes and hosts
  (\<open>src/core/db-lock.ts\<close>): one row per lock in \<open>gbrain_cycle_locks\<close>, taken by an upsert that may
  steal an expired row, kept by refreshes and ended by deletes that carry the fence of the acquisition.
  A table is the list of its rows; its primary key is the lemma \<open>upsert_keys\<close> here and an invariant in
  \<open>DbLockProps\<close>. The code's two engine branches run the same statements and are one definition.

  Times of the database are microseconds, readings of \<open>Date.now()\<close> milliseconds, and the two clocks
  are not assumed to agree. The fence, which the code renders as the text of the epoch seconds with
  all six decimals, is the time itself. Every statement is atomic; what other sessions do between
  two statements of an operation is a list of events, any list, and whether a statement runs and
  whether its answer arrives is given by its fate.
\<close>

section \<open>Rows, processes, handles\<close>

record lock_row =
  lk_id :: string
  lk_pid :: int
  lk_host :: "string option"
  lk_acquired :: int
  lk_ttl :: int
  lk_refreshed :: "int option"

type_synonym lock_table = "lock_row list"

record lock_proc =
  lp_pid :: int
  lp_host :: string

record lock_handle =
  lh_id :: string
  lh_pid :: int
  lh_fence :: int
  lh_ttl :: int

definition DEFAULT_TTL_MINUTES :: int where "DEFAULT_TTL_MINUTES = 30"

definition HOLDER_TAKEOVER_GRACE_MS :: int where "HOLDER_TAKEOVER_GRACE_MS = 60000"

definition micros_of_minutes :: "int \<Rightarrow> int" where "micros_of_minutes m = m * 60000000"

definition micros_of_seconds :: "int \<Rightarrow> int" where "micros_of_seconds s = s * 1000000"

text \<open>A timestamp as a JavaScript \<open>Date\<close>, and as \<open>date_trunc('milliseconds', ..)\<close> compares it.\<close>

definition date_ms :: "int \<Rightarrow> int" where "date_ms t = t div 1000"

text \<open>\<open>GBRAIN_LOCK_STEAL_GRACE_SECONDS\<close> or the grace derived from the time to live.\<close>

definition resolveStealGraceSeconds :: "string option \<Rightarrow> int \<Rightarrow> int" where
  "resolveStealGraceSeconds env ttlMinutes =
     (let derived = max (2 * max 15 (ttlMinutes * 10)) 60
      in case env of
          None \<Rightarrow> derived
        | Some raw \<Rightarrow>
            if raw = [] then derived
            else (case js_integer (js_Number raw) of
                      None \<Rightarrow> derived
                    | Some n \<Rightarrow> if 0 < n then n else derived))"

section \<open>The statements\<close>

text \<open>The row an acquisition writes, whether it inserts or steals.\<close>

definition taken_row :: "lock_proc \<Rightarrow> string \<Rightarrow> int \<Rightarrow> int \<Rightarrow> lock_row" where
  "taken_row p lid ttl now =
     \<lparr>lk_id = lid, lk_pid = lp_pid p, lk_host = Some (lp_host p), lk_acquired = now,
      lk_ttl = now + micros_of_minutes ttl, lk_refreshed = Some now\<rparr>"

text \<open>The guard of \<open>ON CONFLICT .. DO UPDATE\<close>.\<close>

definition stealable :: "int \<Rightarrow> int \<Rightarrow> lock_row \<Rightarrow> bool" where
  "stealable grace now r =
     (lk_ttl r < now \<and>
      (lk_refreshed r = None \<or> sql_lt (lk_refreshed r) (now - micros_of_seconds grace)))"

definition has_row :: "string \<Rightarrow> lock_table \<Rightarrow> bool" where
  "has_row lid t = list_ex (\<lambda>r. lk_id r = lid) t"

definition upsert_lock ::
  "lock_proc \<Rightarrow> string \<Rightarrow> int \<Rightarrow> int \<Rightarrow> int \<Rightarrow> lock_table \<Rightarrow> lock_table \<times> int option" where
  "upsert_lock p lid ttl grace now t =
     (if \<not> has_row lid t then (t @ [taken_row p lid ttl now], Some now)
      else let P = (\<lambda>r. lk_id r = lid \<and> stealable grace now r)
           in (upd_where P (\<lambda>r. taken_row p lid ttl now) t, if list_ex P t then Some now else None))"

text \<open>The fence every refresh and release carries.\<close>

definition fenced :: "lock_handle \<Rightarrow> lock_row \<Rightarrow> bool" where
  "fenced h r = (lk_id r = lh_id h \<and> lk_pid r = lh_pid h \<and> lk_acquired r = lh_fence h)"

definition refresh_lock :: "lock_handle \<Rightarrow> int \<Rightarrow> lock_table \<Rightarrow> lock_table \<times> bool" where
  "refresh_lock h now t =
     (upd_where (fenced h)
        (\<lambda>r. r\<lparr>lk_ttl := now + micros_of_minutes (lh_ttl h), lk_refreshed := Some now\<rparr>) t,
      list_ex (fenced h) t)"

definition release_lock :: "lock_handle \<Rightarrow> lock_table \<Rightarrow> lock_table" where
  "release_lock h t = filter (\<lambda>r. \<not> fenced h r) t"

definition pid_row :: "string \<Rightarrow> int \<Rightarrow> lock_row \<Rightarrow> bool" where
  "pid_row lid pid r = (lk_id r = lid \<and> lk_pid r = pid)"

definition deleteLockRow :: "string \<Rightarrow> int \<Rightarrow> lock_table \<Rightarrow> lock_table \<times> bool" where
  "deleteLockRow lid pid t = (filter (\<lambda>r. \<not> pid_row lid pid r) t, list_ex (pid_row lid pid) t)"

definition stale_pid_row :: "string \<Rightarrow> int \<Rightarrow> int \<Rightarrow> int \<Rightarrow> lock_row \<Rightarrow> bool" where
  "stale_pid_row lid pid maxAge now r =
     (pid_row lid pid r \<and> lk_refreshed r \<noteq> None \<and>
      sql_lt (lk_refreshed r) (now - micros_of_seconds maxAge))"

definition deleteLockRowIfStale ::
  "string \<Rightarrow> int \<Rightarrow> int \<Rightarrow> int \<Rightarrow> lock_table \<Rightarrow> lock_table \<times> bool \<times> int option" where
  "deleteLockRowIfStale lid pid maxAge now t =
     (let gone = filter (stale_pid_row lid pid maxAge now) t
      in (filter (\<lambda>r. \<not> stale_pid_row lid pid maxAge now r) t,
          case gone of [] \<Rightarrow> (False, None) | r # _ \<Rightarrow> (True, map_option date_ms (lk_refreshed r))))"

definition exact_row :: "string \<Rightarrow> int \<Rightarrow> int \<Rightarrow> lock_row \<Rightarrow> bool" where
  "exact_row lid pid acquiredMs r = (pid_row lid pid r \<and> date_ms (lk_acquired r) = acquiredMs)"

definition deleteLockRowExact :: "string \<Rightarrow> int \<Rightarrow> int \<Rightarrow> lock_table \<Rightarrow> lock_table \<times> bool" where
  "deleteLockRowExact lid pid acquiredMs t =
     (filter (\<lambda>r. \<not> exact_row lid pid acquiredMs r) t, list_ex (exact_row lid pid acquiredMs) t)"

section \<open>Other sessions\<close>

datatype lock_event =
    Upsert lock_proc string int int int
  | Refresh lock_handle int
  | Release lock_handle
  | Delete string int
  | DeleteStale string int int int
  | DeleteExact string int int

fun run_event :: "lock_event \<Rightarrow> lock_table \<Rightarrow> lock_table" where
  "run_event (Upsert p lid ttl grace now) t = fst (upsert_lock p lid ttl grace now t)"
| "run_event (Refresh h now) t = fst (refresh_lock h now t)"
| "run_event (Release h) t = release_lock h t"
| "run_event (Delete lid pid) t = fst (deleteLockRow lid pid t)"
| "run_event (DeleteStale lid pid maxAge now) t = fst (deleteLockRowIfStale lid pid maxAge now t)"
| "run_event (DeleteExact lid pid atMs) t = fst (deleteLockRowExact lid pid atMs t)"

definition run_events :: "lock_event list \<Rightarrow> lock_table \<Rightarrow> lock_table" where
  "run_events es t = fold run_event es t"

text \<open>Whether a statement runs and whether its answer arrives. No answer is an exception.\<close>

datatype stmt_fate = Answered_stmt | Never_ran | Answer_lost

definition run_stmt :: "stmt_fate \<Rightarrow> ('s \<Rightarrow> 's \<times> 'r) \<Rightarrow> 's \<Rightarrow> 's \<times> 'r option" where
  "run_stmt fate f s =
     (case fate of
        Answered_stmt \<Rightarrow> (fst (f s), Some (snd (f s)))
      | Never_ran \<Rightarrow> (s, None)
      | Answer_lost \<Rightarrow> (fst (f s), None))"

section \<open>Snapshots\<close>

record lock_snapshot =
  sn_id :: string
  sn_pid :: int
  sn_host :: string
  sn_acquired :: int
  sn_ttl :: int
  sn_age :: int
  sn_expired :: bool
  sn_refreshed :: "int option"
  sn_since_refresh :: "int option"

text \<open>The columns the code treats as possibly missing are \<open>NOT NULL\<close>, so every row has a snapshot.\<close>

definition rowToLockSnapshot :: "int \<Rightarrow> lock_row \<Rightarrow> lock_snapshot" where
  "rowToLockSnapshot now r =
     \<lparr>sn_id = lk_id r, sn_pid = lk_pid r, sn_host = or_default '''' (lk_host r),
      sn_acquired = date_ms (lk_acquired r), sn_ttl = date_ms (lk_ttl r),
      sn_age = now - date_ms (lk_acquired r), sn_expired = (date_ms (lk_ttl r) < now),
      sn_refreshed = map_option date_ms (lk_refreshed r),
      sn_since_refresh = map_option (\<lambda>x. now - date_ms x) (lk_refreshed r)\<rparr>"

datatype lock_query = OneLock string | StaleLocks | AllLocks

definition selectLockRows :: "lock_query \<Rightarrow> int \<Rightarrow> int \<Rightarrow> lock_table \<Rightarrow> lock_snapshot list" where
  "selectLockRows q dbNow nowMs t =
     map (rowToLockSnapshot nowMs)
       (case q of
          OneLock lid \<Rightarrow> filter (\<lambda>r. lk_id r = lid) t
        | StaleLocks \<Rightarrow> sort_key lk_acquired (filter (\<lambda>r. lk_ttl r < dbNow) t)
        | AllLocks \<Rightarrow> sort_key lk_acquired t)"

definition inspectLock :: "string \<Rightarrow> int \<Rightarrow> lock_table \<Rightarrow> lock_snapshot option" where
  "inspectLock lid nowMs t =
     (case selectLockRows (OneLock lid) 0 nowMs t of [] \<Rightarrow> None | s # _ \<Rightarrow> Some s)"

definition listStaleLocks :: "int \<Rightarrow> int \<Rightarrow> lock_table \<Rightarrow> lock_snapshot list" where
  "listStaleLocks dbNow nowMs t = selectLockRows StaleLocks dbNow nowMs t"

definition isLockHolderLive :: "string option \<Rightarrow> lock_snapshot \<Rightarrow> int \<Rightarrow> bool" where
  "isLockHolderLive env s ttlMinutes =
     (if \<not> sn_expired s then True
      else case sn_since_refresh s of
          None \<Rightarrow> False
        | Some atMs \<Rightarrow> atMs < resolveStealGraceSeconds env ttlMinutes * 1000)"

definition listLiveLocks :: "string option \<Rightarrow> int \<Rightarrow> int \<Rightarrow> lock_table \<Rightarrow> lock_snapshot list" where
  "listLiveLocks env ttlMinutes nowMs t =
     filter (\<lambda>s. isLockHolderLive env s ttlMinutes) (selectLockRows AllLocks 0 nowMs t)"

section \<open>Is the holder dead?\<close>

datatype holder_liveness = CrossHost | Alive | TooYoung | DeadEligible | UnknownHolder

text \<open>\<open>process.kill(pid, 0)\<close>: it returns, or it throws with a code.\<close>

datatype kill_result = Kill_ok | Kill_code string

definition classifyHolderLiveness ::
  "string \<Rightarrow> int \<Rightarrow> kill_result \<Rightarrow> string \<Rightarrow> int \<Rightarrow> holder_liveness" where
  "classifyHolderLiveness localHost graceMs probe holderHost ageMs =
     (if holderHost \<noteq> localHost then CrossHost
      else case probe of
          Kill_ok \<Rightarrow> Alive
        | Kill_code c \<Rightarrow>
            if c = ''ESRCH'' then (if ageMs < graceMs then TooYoung else DeadEligible)
            else if c = ''EPERM'' then Alive else UnknownHolder)"

definition isHolderDeadLocally :: "string \<Rightarrow> int \<Rightarrow> kill_result \<Rightarrow> string \<Rightarrow> int \<Rightarrow> bool" where
  "isHolderDeadLocally localHost graceMs probe holderHost ageMs =
     (classifyHolderLiveness localHost graceMs probe holderHost ageMs = DeadEligible)"

section \<open>Acquiring\<close>

datatype lock_error = StatementFailed | LockUnavailable string

text \<open>One acquisition: the fate and time of the two upserts, the fate of the read and of the delete
  between them, the clock and the probe the takeover decides by, and the other sessions.\<close>

record takeover_world =
  tw_first :: stmt_fate
  tw_now1 :: int
  tw_mid1 :: "lock_event list"
  tw_read :: bool
  tw_ms :: int
  tw_probe :: kill_result
  tw_mid2 :: "lock_event list"
  tw_delete :: stmt_fate
  tw_mid3 :: "lock_event list"
  tw_second :: stmt_fate
  tw_now2 :: int

definition acquireOnce ::
  "lock_proc \<Rightarrow> string \<Rightarrow> int \<Rightarrow> int \<Rightarrow> int \<Rightarrow> lock_table \<Rightarrow> lock_table \<times> lock_handle option" where
  "acquireOnce p lid ttl grace now t =
     (case upsert_lock p lid ttl grace now t of
        (t', fence) \<Rightarrow> (t', map_option (\<lambda>f. \<lparr>lh_id = lid, lh_pid = lp_pid p, lh_fence = f, lh_ttl = ttl\<rparr>) fence))"

text \<open>What follows a refused upsert: read the row, and if its holder is dead on this host, delete the
  row and try once more. Whatever throws here ends in \<open>null\<close>.\<close>

definition takeover ::
  "string option \<Rightarrow> takeover_world \<Rightarrow> lock_proc \<Rightarrow> string \<Rightarrow> int \<Rightarrow> lock_table \<Rightarrow> lock_table \<times> lock_handle option" where
  "takeover env w p lid ttl t =
     (let t1 = run_events (tw_mid1 w) t
      in if \<not> tw_read w then (t1, None)
         else case inspectLock lid (tw_ms w) t1 of
             None \<Rightarrow> (t1, None)
           | Some s \<Rightarrow>
               if sn_expired s \<or>
                  \<not> isHolderDeadLocally (lp_host p) HOLDER_TAKEOVER_GRACE_MS (tw_probe w) (sn_host s) (sn_age s)
               then (t1, None)
               else (case run_stmt (tw_delete w) (deleteLockRow lid (sn_pid s)) (run_events (tw_mid2 w) t1) of
                       (t2, deleted) \<Rightarrow>
                         if deleted \<noteq> Some True then (t2, None)
                         else (case run_stmt (tw_second w)
                                      (acquireOnce p lid ttl (resolveStealGraceSeconds env ttl) (tw_now2 w))
                                      (run_events (tw_mid3 w) t2) of
                                 (t3, r) \<Rightarrow> (t3, or_default None r))))"

definition tryAcquireDbLock ::
  "string option \<Rightarrow> takeover_world \<Rightarrow> lock_proc \<Rightarrow> string \<Rightarrow> int \<Rightarrow> lock_table \<Rightarrow>
     lock_table \<times> (lock_error + lock_handle option)" where
  "tryAcquireDbLock env w p lid ttl t =
     (case run_stmt (tw_first w) (acquireOnce p lid ttl (resolveStealGraceSeconds env ttl) (tw_now1 w)) t of
        (t1, None) \<Rightarrow> (t1, Inl StatementFailed)
      | (t1, Some (Some h)) \<Rightarrow> (t1, Inr (Some h))
      | (t1, Some None) \<Rightarrow> (case takeover env w p lid ttl t1 of (t2, r) \<Rightarrow> (t2, Inr r)))"

section \<open>Waiting for a dead holder\<close>

record poll_world =
  pw_before :: "lock_event list"
  pw_try :: takeover_world
  pw_mid :: "lock_event list"
  pw_read :: bool
  pw_ms :: int
  pw_check :: int

text \<open>What a poll concludes from the row it sees and the row first seen: stop, or go on with a
  baseline.\<close>

definition observe_holder :: "lock_snapshot option \<Rightarrow> lock_snapshot option \<Rightarrow> lock_snapshot option option" where
  "observe_holder snap baseline =
     (case (snap, baseline) of
        (Some s, Some b) \<Rightarrow>
          if sn_pid s \<noteq> sn_pid b \<or> sn_host s \<noteq> sn_host b then None
          else (case (sn_refreshed s, sn_refreshed b) of
                  (Some x, Some y) \<Rightarrow> if x > y then None else Some baseline
                | _ \<Rightarrow> Some baseline)
      | (Some s, None) \<Rightarrow> Some (Some s)
      | (None, _) \<Rightarrow> Some baseline)"

definition poll_sleep :: "int \<Rightarrow> int \<Rightarrow> int \<Rightarrow> int" where
  "poll_sleep pollMs maxWaitMs waitedMs = min pollMs (maxWaitMs - waitedMs)"

text \<open>The loop over the polls it makes; \<open>None\<close> when the list ends before the loop does.\<close>

fun wait_polls ::
  "string option \<Rightarrow> lock_proc \<Rightarrow> string \<Rightarrow> int \<Rightarrow> int \<Rightarrow> int \<Rightarrow> lock_snapshot option \<Rightarrow> poll_world list \<Rightarrow>
     lock_table \<Rightarrow> lock_table \<times> (lock_error + lock_handle option) option" where
  "wait_polls env p lid ttl maxWaitMs start baseline [] t = (t, None)"
| "wait_polls env p lid ttl maxWaitMs start baseline (w # ws) t =
     (case tryAcquireDbLock env (pw_try w) p lid ttl (run_events (pw_before w) t) of
        (t1, Inl e) \<Rightarrow> (t1, Some (Inl e))
      | (t1, Inr (Some h)) \<Rightarrow> (t1, Some (Inr (Some h)))
      | (t1, Inr None) \<Rightarrow>
          (let t2 = run_events (pw_mid w) t1;
               snap = (if pw_read w then inspectLock lid (pw_ms w) t2 else None)
           in case observe_holder snap baseline of
                None \<Rightarrow> (t2, Some (Inr None))
              | Some b \<Rightarrow>
                  if pw_check w - start \<ge> maxWaitMs then (t2, Some (Inr None))
                  else wait_polls env p lid ttl maxWaitMs start b ws t2))"

record wait_opts =
  wo_pollMs :: "int option"
  wo_maxWaitMs :: "int option"

definition wait_poll_ms :: "wait_opts \<Rightarrow> int" where
  "wait_poll_ms opts = max 50 (or_default 15000 (wo_pollMs opts))"

definition wait_bound_ms :: "string option \<Rightarrow> int \<Rightarrow> wait_opts \<Rightarrow> int" where
  "wait_bound_ms env ttl opts =
     or_default ((ttl * 60 + resolveStealGraceSeconds env ttl + 60) * 1000) (wo_maxWaitMs opts)"

text \<open>The first look at the row may fail; \<open>atMs\<close> is its clock.\<close>

definition waitForDbLockTakeover ::
  "string option \<Rightarrow> lock_proc \<Rightarrow> string \<Rightarrow> int \<Rightarrow> wait_opts \<Rightarrow> int \<Rightarrow> bool \<Rightarrow> int \<Rightarrow> poll_world list \<Rightarrow>
     lock_table \<Rightarrow> lock_table \<times> (lock_error + lock_handle option) option" where
  "waitForDbLockTakeover env p lid ttl opts start looked atMs polls t =
     wait_polls env p lid ttl (wait_bound_ms env ttl opts) start
       (if looked then inspectLock lid atMs t else None) polls t"

section \<open>The reaper\<close>

definition isReapableNamespace :: "string \<Rightarrow> bool" where
  "isReapableNamespace lid =
     (lid = ''gbrain-cycle'' \<or> js_starts_with lid ''gbrain-cycle:'' \<or> js_starts_with lid ''gbrain-sync:'')"

text \<open>\<open>mids k\<close> is what other sessions do before the \<open>k\<close>-th delete; a delete that throws ends the sweep.\<close>

fun reap_rows ::
  "(int \<Rightarrow> kill_result) \<Rightarrow> string \<Rightarrow> int \<Rightarrow> (lock_event list \<times> stmt_fate) list \<Rightarrow> lock_snapshot list \<Rightarrow> lock_table \<Rightarrow>
     lock_table \<times> (lock_error + string list)" where
  "reap_rows probe host graceMs mids [] t = (t, Inr [])"
| "reap_rows probe host graceMs mids (s # ss) t =
     (if \<not> isReapableNamespace (sn_id s) \<or>
         \<not> isHolderDeadLocally host graceMs (probe (sn_pid s)) (sn_host s) (sn_age s)
      then reap_rows probe host graceMs mids ss t
      else case mids of
          [] \<Rightarrow> (t, Inl StatementFailed)
        | (es, fate) # rest \<Rightarrow>
            (case run_stmt fate (deleteLockRowExact (sn_id s) (sn_pid s) (sn_acquired s)) (run_events es t) of
               (t1, None) \<Rightarrow> (t1, Inl StatementFailed)
             | (t1, Some deleted) \<Rightarrow>
                 (case reap_rows probe host graceMs rest ss t1 of
                    (t2, Inl e) \<Rightarrow> (t2, Inl e)
                  | (t2, Inr ids) \<Rightarrow> (t2, Inr (if deleted then sn_id s # ids else ids)))))"

definition reapDeadHolderLocks ::
  "(int \<Rightarrow> kill_result) \<Rightarrow> string \<Rightarrow> int option \<Rightarrow> int \<Rightarrow> (lock_event list \<times> stmt_fate) list \<Rightarrow> lock_table \<Rightarrow>
     lock_table \<times> (lock_error + string list)" where
  "reapDeadHolderLocks probe host graceMs nowMs mids t =
     reap_rows probe host (or_default HOLDER_TAKEOVER_GRACE_MS graceMs) mids (selectLockRows AllLocks 0 nowMs t) t"

definition syncLockId :: "string \<Rightarrow> string" where
  "syncLockId sourceId = ''gbrain-sync:'' @ sourceId"

text \<open>\<open>answers\<close>: the inspection returned.\<close>

definition liveSyncStatus :: "bool \<Rightarrow> string \<Rightarrow> int \<Rightarrow> lock_table \<Rightarrow> (int \<times> string) option" where
  "liveSyncStatus answers sourceId nowMs t =
     (if \<not> answers then None
      else case inspectLock (syncLockId sourceId) nowMs t of
          None \<Rightarrow> None
        | Some s \<Rightarrow> if sn_expired s then None else Some (sn_pid s, sn_host s))"

section \<open>Work under a lock\<close>

text \<open>One refresh tick: what others did since the last, its time and its fate. A tick whose heartbeat
  times out is one without an answer. Ticks that find another in flight do nothing and are not listed.\<close>

record tick_world =
  kw_before :: "lock_event list"
  kw_now :: int
  kw_fate :: stmt_fate

text \<open>\<open>stopped\<close>: the interval was cleared because a refresh found the lock lost.\<close>

fun refresh_ticks ::
  "lock_handle \<Rightarrow> bool \<Rightarrow> bool \<Rightarrow> tick_world list \<Rightarrow> lock_table \<Rightarrow> lock_table \<times> bool \<times> bool" where
  "refresh_ticks h stopped healthOk [] t = (t, stopped, healthOk)"
| "refresh_ticks h stopped healthOk (w # ws) t =
     (let t1 = run_events (kw_before w) t
      in if stopped then refresh_ticks h True healthOk ws t1
         else case run_stmt (kw_fate w) (refresh_lock h (kw_now w)) t1 of
             (t2, None) \<Rightarrow> refresh_ticks h False False ws t2
           | (t2, Some True) \<Rightarrow> refresh_ticks h False True ws t2
           | (t2, Some False) \<Rightarrow> refresh_ticks h True False ws t2)"

text \<open>\<open>work\<close> is the outcome of the work, which runs while the ticks do; \<open>late\<close> is what others do between
  the last tick and the release, \<open>rel\<close> the fate of the release. The answer is the outcome with
  the health flag.\<close>

record work_world =
  ww_acquire :: takeover_world
  ww_ticks :: "tick_world list"
  ww_late :: "lock_event list"
  ww_release :: stmt_fate

definition end_work :: "work_world \<Rightarrow> lock_handle \<Rightarrow> lock_table \<Rightarrow> lock_table" where
  "end_work w h t = fst (run_stmt (ww_release w) (\<lambda>s. (release_lock h s, ())) (run_events (ww_late w) t))"

definition withRefreshingLock ::
  "string option \<Rightarrow> work_world \<Rightarrow> lock_proc \<Rightarrow> string \<Rightarrow> int option \<Rightarrow> ('e + 'a) \<Rightarrow> lock_table \<Rightarrow>
     lock_table \<times> (lock_error + ('e + 'a) \<times> bool)" where
  "withRefreshingLock env w p lid ttlMinutes work t =
     (case tryAcquireDbLock env (ww_acquire w) p lid (or_default DEFAULT_TTL_MINUTES ttlMinutes) t of
        (t1, Inl e) \<Rightarrow> (t1, Inl e)
      | (t1, Inr None) \<Rightarrow> (t1, Inl (LockUnavailable lid))
      | (t1, Inr (Some h)) \<Rightarrow>
          (case refresh_ticks h False True (ww_ticks w) t1 of
             (t2, stopped, healthOk) \<Rightarrow> (end_work w h t2, Inr (work, healthOk))))"

definition tryWithDbElection ::
  "string option \<Rightarrow> work_world \<Rightarrow> lock_proc \<Rightarrow> string \<Rightarrow> int \<Rightarrow> ('e + 'a) \<Rightarrow> lock_table \<Rightarrow>
     lock_table \<times> (lock_error + ('e + 'a) option)" where
  "tryWithDbElection env w p lid ttl work t =
     (case tryAcquireDbLock env (ww_acquire w) p lid ttl t of
        (t1, Inl e) \<Rightarrow> (t1, Inl e)
      | (t1, Inr None) \<Rightarrow> (t1, Inr None)
      | (t1, Inr (Some h)) \<Rightarrow> (end_work w h t1, Inr (Some work)))"

text \<open>\<open>buildTenantLockId\<close>: the answer of \<open>SELECT current_database()\<close>, \<open>None\<close> when it throws, and the
  embedded engine's fixed name.\<close>

definition buildTenantLockId :: "bool \<Rightarrow> string option option \<Rightarrow> string \<Rightarrow> string" where
  "buildTenantLockId postgres db scope =
     (if \<not> postgres then scope @ '':pglite''
      else case db of
          None \<Rightarrow> scope @ '':unknown''
        | Some d \<Rightarrow> scope @ '':'' @ (case d of None \<Rightarrow> ''unknown'' | Some n \<Rightarrow> if n = [] then ''unknown'' else n))"

end
