(* ===== verification/DbLockProps.thy ===== *)
theory DbLockProps
  imports DbLock
begin

text \<open>
  What the locks of \<open>DbLock\<close> promise. Every operation changes the table by a run of events, so the
  promises are stated over runs: a table keeps its primary key, a handle that lost its row never
  gets it back and has no effect any more, and a holder that refreshes in time keeps its row against
  every other session that does not delete it by force. The reaper deletes what it read and nothing
  newer; the takeover inside an acquisition does not, and a run shows it evicting a live holder. The wait
  for a dead holder ends, and ends with the lock.
\<close>

section \<open>Ownership that only an acquisition gives\<close>

locale fenced_resource =
  fixes exec :: "'e \<Rightarrow> 's \<Rightarrow> 's"
    and owned :: "'h \<Rightarrow> 's \<Rightarrow> bool"
    and grants :: "'h \<Rightarrow> 'e \<Rightarrow> bool"
    and ok :: "'s \<Rightarrow> bool"
  assumes granted_only: "owned h (exec e s) \<Longrightarrow> owned h s \<or> grants h e"
    and ok_step: "ok s \<Longrightarrow> ok (exec e s)"
begin

lemma lost_stays_lost: "\<not> owned h s \<Longrightarrow> list_all (\<lambda>e. \<not> grants h e) es \<Longrightarrow> \<not> owned h (fold exec es s)"
  by (induction es arbitrary: s) (auto dest: granted_only)

lemma ok_run: "ok s \<Longrightarrow> ok (fold exec es s)"
  by (induction es arbitrary: s) (auto intro: ok_step)

end

definition owns_lock :: "lock_handle \<Rightarrow> lock_table \<Rightarrow> bool" where
  "owns_lock h t = list_ex (fenced h) t"

definition lock_keys :: "lock_table \<Rightarrow> bool" where
  "lock_keys t = distinct (map lk_id t)"

text \<open>An event that can make a row carry the fence of \<open>h\<close>: an acquisition of its lock by its pid at its
  very microsecond.\<close>

fun grants_lock :: "lock_handle \<Rightarrow> lock_event \<Rightarrow> bool" where
  "grants_lock h (Upsert p lid ttl grace now) = (lid = lh_id h \<and> lp_pid p = lh_pid h \<and> now = lh_fence h)"
| "grants_lock h _ = False"

lemma fenced_taken [simp]:
  "fenced h (taken_row p lid ttl now) = (lid = lh_id h \<and> lp_pid p = lh_pid h \<and> now = lh_fence h)"
  by (auto simp: fenced_def taken_row_def)

lemma taken_row_id [simp]: "lk_id (taken_row p lid ttl now) = lid"
  by (simp add: taken_row_def)

lemma fenced_refreshed [simp]: "fenced h (r\<lparr>lk_ttl := x, lk_refreshed := y\<rparr>) = fenced h r"
  by (simp add: fenced_def)

lemma lock_granted_only: "owns_lock h (run_event e t) \<Longrightarrow> owns_lock h t \<or> grants_lock h e"
  by (cases e) (auto simp: owns_lock_def list_ex_iff upsert_lock_def refresh_lock_def release_lock_def
    deleteLockRow_def deleteLockRowIfStale_def deleteLockRowExact_def Let_def set_upd_where split: if_splits)

lemma lock_keys_filter: "lock_keys t \<Longrightarrow> lock_keys (filter P t)"
  by (simp add: lock_keys_def distinct_map_filter)

lemma lock_keys_upd: "(\<And>r. P r \<Longrightarrow> lk_id (f r) = lk_id r) \<Longrightarrow> lock_keys (upd_where P f t) = lock_keys t"
proof -
  assume "\<And>r. P r \<Longrightarrow> lk_id (f r) = lk_id r"
  then have "map lk_id (upd_where P f t) = map lk_id t" by (simp add: upd_where_def)
  then show ?thesis by (simp add: lock_keys_def)
qed

lemma upsert_keys:
  assumes "lock_keys t"
  shows "lock_keys (fst (upsert_lock p lid ttl grace now t))"
proof (cases "has_row lid t")
  case True
  have "lock_keys (upd_where (\<lambda>r. lk_id r = lid \<and> stealable grace now r) (\<lambda>r. taken_row p lid ttl now) t) = lock_keys t"
    by (rule lock_keys_upd) simp
  with True assms show ?thesis by (simp add: upsert_lock_def Let_def)
next
  case False
  with assms show ?thesis by (auto simp: upsert_lock_def lock_keys_def has_row_def list_ex_iff)
qed

lemma event_keys: "lock_keys t \<Longrightarrow> lock_keys (run_event e t)"
  by (cases e) (simp_all add: upsert_keys refresh_lock_def lock_keys_upd release_lock_def lock_keys_filter
    deleteLockRow_def deleteLockRowIfStale_def deleteLockRowExact_def Let_def)

interpretation dblock: fenced_resource run_event owns_lock grants_lock lock_keys
  by unfold_locales (auto dest: lock_granted_only intro: event_keys)

lemma run_events_simps [simp]:
  "run_events [] t = t" "run_events (e # es) t = run_events es (run_event e t)"
  "run_events (es @ fs) t = run_events fs (run_events es t)"
  by (simp_all add: run_events_def)

lemmas lost_lock = dblock.lost_stays_lost [folded run_events_def]
lemmas run_keys = dblock.ok_run [folded run_events_def]

section \<open>A handle without its row\<close>

lemma refresh_lost: "\<not> owns_lock h t \<Longrightarrow> refresh_lock h now t = (t, False)"
  by (auto simp: owns_lock_def refresh_lock_def list_ex_iff upd_where_def map_idI)

lemma release_lost: "\<not> owns_lock h t \<Longrightarrow> release_lock h t = t"
  by (auto simp: owns_lock_def release_lock_def list_ex_iff filter_id_conv)

lemma run_stmt_id: "f s = (s, v) \<Longrightarrow> fst (run_stmt fate f s) = s"
  by (cases fate) (simp_all add: run_stmt_def)

lemma refresh_ticks_lost:
  "\<not> owns_lock h t \<Longrightarrow> list_all (\<lambda>e. \<not> grants_lock h e) (concat (map kw_before ws)) \<Longrightarrow>
     fst (refresh_ticks h stopped healthOk ws t) = run_events (concat (map kw_before ws)) t"
proof (induction ws arbitrary: t stopped healthOk)
  case (Cons w ws)
  let ?t = "run_events (kw_before w) t"
  have lost: "\<not> owns_lock h ?t" using Cons.prems by (intro lost_lock) simp_all
  have ticks: "fst (refresh_ticks h s k ws ?t) = run_events (concat (map kw_before ws)) ?t" for s k
    using Cons.IH [OF lost] Cons.prems by simp
  show ?case
    by (cases "kw_fate w") (simp_all add: Let_def run_stmt_def refresh_lost [OF lost] ticks)
qed simp

lemma end_work_lost:
  assumes "\<not> owns_lock h t" and "list_all (\<lambda>e. \<not> grants_lock h e) (ww_late w)"
  shows "end_work w h t = run_events (ww_late w) t"
proof -
  have "\<not> owns_lock h (run_events (ww_late w) t)" by (rule lost_lock [OF assms])
  then show ?thesis by (cases "ww_release w") (simp_all add: end_work_def run_stmt_def release_lost)
qed

text \<open>C32: a worker whose lock was stolen or broken runs on, but its handle has no effect on the table any
  more: from the loss on the table is what the other sessions make of it, through every refresh tick
  and the final release, answered or not. In particular the row of a successor is safe from it. The only
  thing asked of the others is that none takes the same lock under the same pid at the microsecond of
  the lost acquisition.\<close>

theorem lost_lock_has_no_effect:
  assumes "\<not> owns_lock h t"
    and "list_all (\<lambda>e. \<not> grants_lock h e) (concat (map kw_before (ww_ticks w)) @ ww_late w)"
  shows "end_work w h (fst (refresh_ticks h stopped healthOk (ww_ticks w) t)) =
    run_events (concat (map kw_before (ww_ticks w)) @ ww_late w) t"
proof -
  let ?t = "fst (refresh_ticks h stopped healthOk (ww_ticks w) t)"
  have ticks: "?t = run_events (concat (map kw_before (ww_ticks w))) t"
    using assms by (intro refresh_ticks_lost) simp_all
  have "\<not> owns_lock h ?t" unfolding ticks using assms by (intro lost_lock) simp_all
  then show ?thesis using end_work_lost [of h ?t w] assms(2) by (simp add: ticks)
qed

section \<open>Mutual exclusion\<close>

text \<open>The row of \<open>h\<close>, last refreshed at \<open>since\<close>.\<close>

definition holds_since :: "lock_handle \<Rightarrow> int \<Rightarrow> lock_row \<Rightarrow> bool" where
  "holds_since h since r =
     (fenced h r \<and> lk_ttl r = since + micros_of_minutes (lh_ttl h) \<and> lk_refreshed r = Some since)"

definition holds_lock :: "lock_handle \<Rightarrow> int \<Rightarrow> lock_table \<Rightarrow> bool" where
  "holds_lock h since t = (lock_keys t \<and> list_ex (holds_since h since) t)"

definition same_fence :: "lock_handle \<Rightarrow> lock_handle \<Rightarrow> bool" where
  "same_fence g h = (lh_id g = lh_id h \<and> lh_pid g = lh_pid h \<and> lh_fence g = lh_fence h)"

text \<open>What an event may do while the row of \<open>h\<close>, last refreshed at \<open>since\<close>, stands: acquisitions come
  within the time to live or within their grace of the last refresh; nobody else uses the fence; nobody deletes
  the row by force, and by age only within the age they allow.\<close>

fun spares :: "lock_handle \<Rightarrow> int \<Rightarrow> lock_event \<Rightarrow> bool" where
  "spares h since (Upsert p lid ttl grace now) =
     (lid = lh_id h \<longrightarrow> now \<le> since + max (micros_of_minutes (lh_ttl h)) (micros_of_seconds grace))"
| "spares h since (Refresh g now) = (g = h \<or> \<not> same_fence g h)"
| "spares h since (Release g) = (\<not> same_fence g h)"
| "spares h since (Delete lid pid) = (lid \<noteq> lh_id h \<or> pid \<noteq> lh_pid h)"
| "spares h since (DeleteStale lid pid maxAge now) =
     (lid \<noteq> lh_id h \<or> pid \<noteq> lh_pid h \<or> now \<le> since + micros_of_seconds maxAge)"
| "spares h since (DeleteExact lid pid atMs) = (lid \<noteq> lh_id h \<or> pid \<noteq> lh_pid h \<or> atMs \<noteq> date_ms (lh_fence h))"

fun refreshed_at :: "lock_handle \<Rightarrow> int \<Rightarrow> lock_event \<Rightarrow> int" where
  "refreshed_at h since (Refresh g now) = (if g = h then now else since)"
| "refreshed_at h since _ = since"

fun covered :: "lock_handle \<Rightarrow> int \<Rightarrow> lock_event list \<Rightarrow> bool" where
  "covered h since [] = True"
| "covered h since (e # es) = (spares h since e \<and> covered h (refreshed_at h since e) es)"

lemma fenced_same: "fenced g r \<Longrightarrow> fenced h r \<Longrightarrow> same_fence g h"
  by (simp add: fenced_def same_fence_def)

lemma holds_key: "lock_keys t \<Longrightarrow> r \<in> set t \<Longrightarrow> q \<in> set t \<Longrightarrow> lk_id r = lk_id q \<Longrightarrow> r = q"
  by (metis lock_keys_def eq_key_imp_eq_value map_of_zip_nth distinct_map inj_onD)

lemma not_stealable:
  "holds_since h since r \<Longrightarrow> now \<le> since + max (micros_of_minutes (lh_ttl h)) (micros_of_seconds grace) \<Longrightarrow>
     \<not> stealable grace now r"
  by (auto simp: holds_since_def stealable_def sql_defs)

lemma held_upsert_refused:
  assumes held: "holds_lock h since t" and ok: "spares h since (Upsert p (lh_id h) ttl grace now)"
  shows "upsert_lock p (lh_id h) ttl grace now t = (t, None)"
proof -
  obtain r where r: "r \<in> set t" "holds_since h since r" and keys: "lock_keys t"
    using held by (auto simp: holds_lock_def list_ex_iff)
  have rid: "lk_id r = lh_id h" using r(2) by (simp add: holds_since_def fenced_def)
  have none: "\<not> (lk_id q = lh_id h \<and> stealable grace now q)" if "q \<in> set t" for q
    using holds_key [OF keys r(1) that] rid not_stealable [OF r(2)] ok by auto
  have "has_row (lh_id h) t" using r(1) rid by (auto simp: has_row_def list_ex_iff)
  moreover have "upd_where (\<lambda>q. lk_id q = lh_id h \<and> stealable grace now q) f t = t" for f
    unfolding upd_where_def by (rule map_idI) (use none in auto)
  ultimately show ?thesis using none by (auto simp: upsert_lock_def Let_def list_ex_iff)
qed

lemma held_step:
  assumes held: "holds_lock h since t" and ok: "spares h since e"
  shows "holds_lock h (refreshed_at h since e) (run_event e t)"
proof -
  obtain r where r: "r \<in> set t" "holds_since h since r" and keys: "lock_keys t"
    using held by (auto simp: holds_lock_def list_ex_iff)
  have f: "fenced h r" using r(2) by (simp add: holds_since_def)
  then have rid: "lk_id r = lh_id h" "lk_pid r = lh_pid h" "lk_acquired r = lh_fence h" by (simp_all add: fenced_def)
  have "list_ex (holds_since h (refreshed_at h since e)) (run_event e t)"
  proof (cases e)
    case (Upsert p lid ttl grace now)
    show ?thesis
    proof (cases "lid = lh_id h")
      case True
      then show ?thesis using held_upsert_refused [OF held, of p ttl grace now] ok Upsert r
        by (auto simp: list_ex_iff)
    next
      case False
      then have "r \<in> set (run_event e t)" using r(1) rid Upsert
        by (auto simp: upsert_lock_def Let_def set_upd_where intro: rev_image_eqI)
      then show ?thesis using r(2) Upsert by (auto simp: list_ex_iff)
    qed
  next
    case (Refresh g now)
    show ?thesis
    proof (cases "g = h")
      case True
      let ?q = "r\<lparr>lk_ttl := now + micros_of_minutes (lh_ttl h), lk_refreshed := Some now\<rparr>"
      have "?q \<in> set (run_event e t)" using r(1) f Refresh True
        by (auto simp: refresh_lock_def set_upd_where intro!: rev_image_eqI [of r])
      moreover have "holds_since h now ?q" using f by (simp add: holds_since_def)
      ultimately show ?thesis using Refresh True by (auto simp: list_ex_iff)
    next
      case False
      then have "r \<in> set (run_event e t)" using r(1) fenced_same [OF _ f] ok Refresh
        by (auto simp: refresh_lock_def set_upd_where intro!: rev_image_eqI [of r])
      then show ?thesis using r(2) Refresh False by (auto simp: list_ex_iff)
    qed
  next
    case (Release g)
    then show ?thesis using r fenced_same [OF _ f, of g] ok by (auto simp: list_ex_iff release_lock_def)
  next
    case (Delete lid pid)
    then show ?thesis using r rid ok by (auto simp: list_ex_iff deleteLockRow_def pid_row_def)
  next
    case (DeleteStale lid pid maxAge now)
    then show ?thesis using r rid ok
      by (auto simp: list_ex_iff deleteLockRowIfStale_def Let_def stale_pid_row_def pid_row_def holds_since_def sql_defs
        intro!: bexI [of _ r])
  next
    case (DeleteExact lid pid atMs)
    then show ?thesis using r rid ok by (auto simp: list_ex_iff deleteLockRowExact_def exact_row_def pid_row_def)
  qed
  then show ?thesis using event_keys [OF keys] by (simp add: holds_lock_def)
qed

lemma held_run:
  "holds_lock h since t \<Longrightarrow> covered h since (es @ fs) \<Longrightarrow>
     \<exists>later. holds_lock h later (run_events es t) \<and> covered h later fs"
  by (induction es arbitrary: t since) (auto dest: held_step)

text \<open>C31: mutual exclusion. A holder that keeps refreshing in time (before its lock has been silent for as long
  as its time to live and the grace of the acquisitions that come) keeps its row through every interleaving with
  other sessions that do not delete it by force; every acquisition of its lock on the way is refused, and its
  own next refresh tells it so.\<close>

theorem refreshed_lock_is_exclusive:
  assumes "holds_lock h since t" and "covered h since es"
  shows "owns_lock h (run_events es t) \<and> snd (refresh_lock h now (run_events es t)) \<and>
    (\<forall>before p ttl grace tm after. es = before @ Upsert p (lh_id h) ttl grace tm # after \<longrightarrow>
       upsert_lock p (lh_id h) ttl grace tm (run_events before t) = (run_events before t, None))"
proof (intro conjI allI impI)
  obtain later where "holds_lock h later (run_events es t)" using held_run [of h since t es "[]"] assms by auto
  then show own: "owns_lock h (run_events es t)"
    by (auto simp: holds_lock_def owns_lock_def list_ex_iff holds_since_def)
  then show "snd (refresh_lock h now (run_events es t))" by (simp add: refresh_lock_def owns_lock_def)
next
  fix before p ttl grace tm after
  assume "es = before @ Upsert p (lh_id h) ttl grace tm # after"
  with assms held_run [of h since t before "Upsert p (lh_id h) ttl grace tm # after"]
  show "upsert_lock p (lh_id h) ttl grace tm (run_events before t) = (run_events before t, None)"
    using held_upsert_refused by auto
qed

section \<open>Taking over from a dead holder\<close>

lemma acquireOnce_cases:
  obtains (taken) h where "acquireOnce p lid ttl grace now t = (fst (upsert_lock p lid ttl grace now t), Some h)"
      "h = \<lparr>lh_id = lid, lh_pid = lp_pid p, lh_fence = now, lh_ttl = ttl\<rparr>"
      "snd (upsert_lock p lid ttl grace now t) = Some now"
  | (refused) "acquireOnce p lid ttl grace now t = (t, None)" "has_row lid t"
      "\<And>r. r \<in> set t \<Longrightarrow> lk_id r = lid \<Longrightarrow> \<not> stealable grace now r"
proof (cases "has_row lid t \<and> \<not> list_ex (\<lambda>r. lk_id r = lid \<and> stealable grace now r) t")
  case True
  then have none: "\<not> (lk_id r = lid \<and> stealable grace now r)" if "r \<in> set t" for r using that by (auto simp: list_ex_iff)
  then have "upd_where (\<lambda>r. lk_id r = lid \<and> stealable grace now r) f t = t" for f
    unfolding upd_where_def by (intro map_idI) auto
  with True none show ?thesis by (intro refused) (auto simp: acquireOnce_def upsert_lock_def Let_def)
next
  case False
  then show ?thesis by (intro taken) (auto simp: acquireOnce_def upsert_lock_def Let_def)
qed

lemma upsert_taken:
  assumes "lock_keys t" and "snd (upsert_lock p lid ttl grace now t) = Some now"
  shows "holds_lock \<lparr>lh_id = lid, lh_pid = lp_pid p, lh_fence = now, lh_ttl = ttl\<rparr> now (fst (upsert_lock p lid ttl grace now t))"
proof -
  have "taken_row p lid ttl now \<in> set (fst (upsert_lock p lid ttl grace now t))"
    using assms(2) by (auto simp: upsert_lock_def Let_def list_ex_iff set_upd_where split: if_splits)
  then show ?thesis using upsert_keys [OF assms(1)]
    by (auto simp: holds_lock_def list_ex_iff holds_since_def fenced_def taken_row_def intro!: bexI [of _ "taken_row p lid ttl now"])
qed

text \<open>The verdict the takeover acts on.\<close>

definition dead_here :: "takeover_world \<Rightarrow> lock_proc \<Rightarrow> lock_row \<Rightarrow> bool" where
  "dead_here w p r =
     (or_default '''' (lk_host r) = lp_host p \<and> tw_probe w = Kill_code ''ESRCH'' \<and>
      60000 \<le> tw_ms w - date_ms (lk_acquired r) \<and> tw_ms w \<le> date_ms (lk_ttl r))"

lemma dead_here_snapshot:
  "(\<not> sn_expired (rowToLockSnapshot (tw_ms w) r) \<and>
     isHolderDeadLocally (lp_host p) HOLDER_TAKEOVER_GRACE_MS (tw_probe w) (sn_host (rowToLockSnapshot (tw_ms w) r))
       (sn_age (rowToLockSnapshot (tw_ms w) r))) = dead_here w p r"
  by (auto simp: dead_here_def rowToLockSnapshot_def isHolderDeadLocally_def classifyHolderLiveness_def
    HOLDER_TAKEOVER_GRACE_MS_def split: kill_result.splits if_splits)

lemma inspect_row:
  assumes "lock_keys t" and "r \<in> set t" and "lk_id r = lid"
  shows "inspectLock lid now t = Some (rowToLockSnapshot now r)"
proof -
  have "filter (\<lambda>q. lk_id q = lid) t \<noteq> []" using assms by (auto simp: filter_empty_conv)
  moreover have "q = r" if "q \<in> set (filter (\<lambda>q. lk_id q = lid) t)" for q
    using holds_key [OF assms(1)] assms that by auto
  ultimately show ?thesis by (cases "filter (\<lambda>q. lk_id q = lid) t") (auto simp: inspectLock_def selectLockRows_def)
qed

lemma inspect_none: "\<not> has_row lid t \<Longrightarrow> inspectLock lid now t = None"
  by (auto simp: inspectLock_def selectLockRows_def has_row_def list_ex_iff filter_empty_conv split: list.split)

text \<open>What a takeover without interference does.\<close>

definition delete_and_retry ::
  "string option \<Rightarrow> takeover_world \<Rightarrow> lock_proc \<Rightarrow> string \<Rightarrow> int \<Rightarrow> lock_row \<Rightarrow> lock_table \<Rightarrow> lock_table \<times> lock_handle option" where
  "delete_and_retry env w p lid ttl r t =
     (case run_stmt (tw_delete w) (deleteLockRow lid (lk_pid r)) t of (t2, deleted) \<Rightarrow>
        if deleted \<noteq> Some True then (t2, None)
        else (case run_stmt (tw_second w) (acquireOnce p lid ttl (resolveStealGraceSeconds env ttl) (tw_now2 w)) t2 of
                (t3, x) \<Rightarrow> (t3, or_default None x)))"

lemma takeover_quiet:
  assumes "lock_keys t" and "tw_mid1 w = []" "tw_mid2 w = []" "tw_mid3 w = []" and "r \<in> set t" "lk_id r = lid"
  shows "takeover env w p lid ttl t = (if tw_read w \<and> dead_here w p r then delete_and_retry env w p lid ttl r t else (t, None))"
  by (simp only: takeover_def assms(2-4) run_events_simps Let_def inspect_row [OF assms(1,5,6)] option.case delete_and_retry_def
    dead_here_snapshot [symmetric] de_Morgan_conj not_not if_not_P if_P) (simp add: rowToLockSnapshot_def)

text \<open>C33: an acquisition that nobody interferes with succeeds only when the lock is free, when its holder has been
  silent past its time to live and the grace, or when the holder ran on this host and its process is
  gone, a minute or more after it took the lock. What it then has is the lock, fresh from the
  moment of its statement, and under its own pid.\<close>

theorem acquisition_needs_a_dead_holder:
  assumes keys: "lock_keys t" and res: "tryAcquireDbLock env w p lid ttl t = (t', Inr (Some h))"
    and quiet: "tw_mid1 w = []" "tw_mid2 w = []" "tw_mid3 w = []"
    and row: "r \<in> set t" "lk_id r = lid"
  shows "(stealable (resolveStealGraceSeconds env ttl) (tw_now1 w) r \<or> dead_here w p r) \<and>
    (holds_lock h (tw_now1 w) t' \<or> holds_lock h (tw_now2 w) t') \<and> lh_id h = lid \<and> lh_pid h = lp_pid p"
proof -
  let ?g = "resolveStealGraceSeconds env ttl"
  show ?thesis
  proof (cases rule: acquireOnce_cases [of p lid ttl ?g "tw_now1 w" t])
    case (taken k)
    have "stealable ?g (tw_now1 w) r"
    proof -
      have "has_row lid t" using row by (auto simp: has_row_def list_ex_iff)
      then obtain q where "q \<in> set t" "lk_id q = lid" "stealable ?g (tw_now1 w) q"
        using taken(3) by (auto simp: upsert_lock_def Let_def list_ex_iff split: if_splits)
      moreover from this have "r = q" using row(2) by (intro holds_key [OF keys row(1)]) simp_all
      ultimately show ?thesis by simp
    qed
    moreover have "h = k \<and> t' = fst (upsert_lock p lid ttl ?g (tw_now1 w) t)" using res taken(1)
      by (cases "tw_first w") (auto simp: tryAcquireDbLock_def run_stmt_def split: prod.splits)
    ultimately show ?thesis using upsert_taken [OF keys taken(3)] taken(2) by auto
  next
    case refused
    have won: "takeover env w p lid ttl t = (t', Some h)" using res refused(1)
      by (cases "tw_first w") (auto simp: tryAcquireDbLock_def run_stmt_def split: prod.splits)
    let ?d = "deleteLockRow lid (lk_pid r) t"
    have dead: "tw_read w \<and> dead_here w p r" using won unfolding takeover_quiet [OF keys quiet row] by (auto split: if_splits)
    with won have "delete_and_retry env w p lid ttl r t = (t', Some h)" unfolding takeover_quiet [OF keys quiet row] by simp
    then have acq: "acquireOnce p lid ttl ?g (tw_now2 w) (fst ?d) = (t', Some h)"
      by (cases "tw_delete w"; cases "tw_second w") (auto simp: delete_and_retry_def run_stmt_def or_default_def prod_eq_iff split: if_splits)
    have keys2: "lock_keys (fst ?d)" using lock_keys_filter [OF keys] by (simp add: deleteLockRow_def)
    from acq show ?thesis
      by (cases rule: acquireOnce_cases [of p lid ttl ?g "tw_now2 w" "fst ?d"]) (auto simp: dead dest: upsert_taken [OF keys2])
  qed
qed

text \<open>A takeover that meets interference: lock and holders of the race below.\<close>

definition race_dead_row :: lock_row where
  "race_dead_row = taken_row \<lparr>lp_pid = 5, lp_host = ''a''\<rparr> ''gbrain-cycle'' 30 0"

definition race_live :: lock_handle where
  "race_live = \<lparr>lh_id = ''gbrain-cycle'', lh_pid = 5, lh_fence = 121000000, lh_ttl = 30\<rparr>"

definition race_world :: takeover_world where
  "race_world =
     \<lparr>tw_first = Answered_stmt, tw_now1 = 120000000, tw_mid1 = [], tw_read = True, tw_ms = 120000, tw_probe = Kill_code ''ESRCH'',
      tw_mid2 = [DeleteExact ''gbrain-cycle'' 5 0, Upsert \<lparr>lp_pid = 5, lp_host = ''b''\<rparr> ''gbrain-cycle'' 30 600 121000000],
      tw_delete = Answered_stmt, tw_mid3 = [], tw_second = Answered_stmt, tw_now2 = 122000000\<rparr>"

text \<open>With interference the delete of the takeover can hit another row than the one it judged: it names the lock
  and the pid, not the acquisition. Here the dead holder of pid 5 on host a is reaped after the
  takeover has read its row, and a process of pid 5 on host b takes the free lock; the takeover then
  deletes that process's row, one second old, and both sides go on holding the lock. The delete of the
  reaper, which carries the acquisition time, would have spared it.\<close>

theorem takeover_can_evict_live_holder:
  "case tryAcquireDbLock None race_world \<lparr>lp_pid = 1, lp_host = ''a''\<rparr> ''gbrain-cycle'' 30 [race_dead_row] of
     (t', r) \<Rightarrow>
       r = Inr (Some \<lparr>lh_id = ''gbrain-cycle'', lh_pid = 1, lh_fence = 122000000, lh_ttl = 30\<rparr>) \<and>
       holds_lock race_live 121000000 (run_events (tw_mid2 race_world) [race_dead_row]) \<and> \<not> owns_lock race_live t' \<and>
       owns_lock race_live (fst (deleteLockRowExact ''gbrain-cycle'' 5 0 (run_events (tw_mid2 race_world) [race_dead_row])))"
  by (simp add: tryAcquireDbLock_def takeover_def acquireOnce_def upsert_lock_def race_world_def race_dead_row_def race_live_def
    run_stmt_def Let_def has_row_def stealable_def taken_row_def micros_of_minutes_def micros_of_seconds_def sql_defs
    resolveStealGraceSeconds_def inspectLock_def selectLockRows_def rowToLockSnapshot_def date_ms_def isHolderDeadLocally_def
    classifyHolderLiveness_def HOLDER_TAKEOVER_GRACE_MS_def deleteLockRow_def deleteLockRowExact_def exact_row_def pid_row_def
    or_default_def holds_lock_def lock_keys_def holds_since_def fenced_def owns_lock_def)

section \<open>The reaper\<close>

definition reapable_row :: "(int \<Rightarrow> kill_result) \<Rightarrow> string \<Rightarrow> int \<Rightarrow> int \<Rightarrow> lock_row \<Rightarrow> bool" where
  "reapable_row probe host graceMs nowMs r =
     (isReapableNamespace (lk_id r) \<and> or_default '''' (lk_host r) = host \<and> probe (lk_pid r) = Kill_code ''ESRCH'' \<and>
      graceMs \<le> nowMs - date_ms (lk_acquired r))"

lemma reapable_snapshot:
  "(isReapableNamespace (sn_id (rowToLockSnapshot nowMs r)) \<and>
     isHolderDeadLocally host graceMs (probe (sn_pid (rowToLockSnapshot nowMs r))) (sn_host (rowToLockSnapshot nowMs r))
       (sn_age (rowToLockSnapshot nowMs r))) = reapable_row probe host graceMs nowMs r"
  by (auto simp: reapable_row_def rowToLockSnapshot_def isHolderDeadLocally_def classifyHolderLiveness_def
    split: kill_result.splits if_splits)

lemma exact_delete:
  assumes "lock_keys t" and "r \<in> set t"
  shows "deleteLockRowExact (sn_id (rowToLockSnapshot now r)) (sn_pid (rowToLockSnapshot now r)) (sn_acquired (rowToLockSnapshot now r)) t =
    (filter (\<lambda>q. q \<noteq> r) t, True)"
proof -
  have "exact_row (lk_id r) (lk_pid r) (date_ms (lk_acquired r)) q = (q = r)" if "q \<in> set t" for q
    using holds_key [OF assms(1) that assms(2)] by (auto simp: exact_row_def pid_row_def)
  then show ?thesis using assms(2)
    by (auto simp: deleteLockRowExact_def rowToLockSnapshot_def list_ex_iff intro!: filter_cong)
qed

lemma reap_rows_quiet:
  assumes "lock_keys t" and "set rs \<subseteq> set t" and "distinct rs" and "length (filter (reapable_row probe host graceMs nowMs) rs) \<le> n"
  shows "reap_rows probe host graceMs (replicate n ([], Answered_stmt)) (map (rowToLockSnapshot nowMs) rs) t =
    (filter (\<lambda>r. \<not> (r \<in> set rs \<and> reapable_row probe host graceMs nowMs r)) t,
     Inr (map lk_id (filter (reapable_row probe host graceMs nowMs) rs)))"
  using assms
proof (induction rs arbitrary: t n)
  case (Cons r rs)
  let ?dead = "reapable_row probe host graceMs nowMs"
  show ?case
  proof (cases "?dead r")
    case False
    then have "reap_rows probe host graceMs (replicate n ([], Answered_stmt)) (map (rowToLockSnapshot nowMs) (r # rs)) t =
        reap_rows probe host graceMs (replicate n ([], Answered_stmt)) (map (rowToLockSnapshot nowMs) rs) t"
      unfolding reapable_snapshot [symmetric] by simp
    also have "\<dots> = (filter (\<lambda>q. \<not> (q \<in> set rs \<and> ?dead q)) t, Inr (map lk_id (filter ?dead rs)))"
      using Cons.prems False by (intro Cons.IH) simp_all
    finally show ?thesis using False by (auto intro!: filter_cong)
  next
    case True
    then obtain m where n: "n = Suc m" using Cons.prems(4) by (cases n) auto
    let ?t = "filter (\<lambda>q. q \<noteq> r) t"
    have IH: "reap_rows probe host graceMs (replicate m ([], Answered_stmt)) (map (rowToLockSnapshot nowMs) rs) ?t =
        (filter (\<lambda>q. \<not> (q \<in> set rs \<and> ?dead q)) ?t, Inr (map lk_id (filter ?dead rs)))"
      using Cons.prems True n by (intro Cons.IH) (auto intro: lock_keys_filter)
    have del: "run_stmt Answered_stmt (deleteLockRowExact (sn_id (rowToLockSnapshot nowMs r)) (sn_pid (rowToLockSnapshot nowMs r))
        (sn_acquired (rowToLockSnapshot nowMs r))) t = (?t, Some True)"
      using exact_delete [of t r nowMs] Cons.prems by (simp add: run_stmt_def)
    have dead: "isReapableNamespace (sn_id (rowToLockSnapshot nowMs r))"
        "isHolderDeadLocally host graceMs (probe (sn_pid (rowToLockSnapshot nowMs r))) (sn_host (rowToLockSnapshot nowMs r))
          (sn_age (rowToLockSnapshot nowMs r))"
      using True unfolding reapable_snapshot [symmetric] by simp_all
    show ?thesis using True by (simp add: n dead del IH) (auto simp: rowToLockSnapshot_def intro!: filter_cong)
  qed
qed (simp add: reapable_row_def)

text \<open>A sweep without interference deletes exactly the sync and cycle locks whose holder ran on this host, whose
  process is gone and whose acquisition is as old as the grace; it reports them, oldest first, and keeps
  every other row.\<close>

theorem reaper_deletes_exactly_the_dead:
  assumes "lock_keys t" and "length t \<le> n"
  shows "reapDeadHolderLocks probe host grace nowMs (replicate n ([], Answered_stmt)) t =
    (filter (\<lambda>r. \<not> reapable_row probe host (or_default 60000 grace) nowMs r) t,
     Inr (map lk_id (filter (reapable_row probe host (or_default 60000 grace) nowMs) (sort_key lk_acquired t))))"
proof -
  have "distinct t" using assms(1) by (simp add: lock_keys_def distinct_map)
  moreover have "length (filter P (sort_key lk_acquired t)) \<le> n" for P
    using assms(2) length_filter_le [of P "sort_key lk_acquired t"] by simp
  ultimately have "reap_rows probe host g (replicate n ([], Answered_stmt)) (map (rowToLockSnapshot nowMs) (sort_key lk_acquired t)) t =
    (filter (\<lambda>r. \<not> (r \<in> set t \<and> reapable_row probe host g nowMs r)) t,
     Inr (map lk_id (filter (reapable_row probe host g nowMs) (sort_key lk_acquired t))))" for g
    using reap_rows_quiet [OF assms(1), of "sort_key lk_acquired t"] by simp
  then show ?thesis
    by (auto simp: reapDeadHolderLocks_def selectLockRows_def HOLDER_TAKEOVER_GRACE_MS_def intro!: filter_cong)
qed

section \<open>Waiting for a dead holder\<close>

text \<open>The clock of a wait: each poll checks the time no earlier than the sleep before it allows, \<open>due\<close> being
  the earliest time of the next check.\<close>

fun paced :: "int \<Rightarrow> int \<Rightarrow> int \<Rightarrow> int \<Rightarrow> poll_world list \<Rightarrow> bool" where
  "paced pollMs maxWaitMs start due [] = True"
| "paced pollMs maxWaitMs start due (w # ws) =
     (due \<le> pw_check w \<and>
      paced pollMs maxWaitMs start (pw_check w + poll_sleep pollMs maxWaitMs (pw_check w - start)) ws)"

text \<open>A poll that goes on sleeps, and whatever it has left to wait shrinks by the poll interval.\<close>

lemma waits_left:
  assumes "0 < pollMs" and "paced pollMs maxWaitMs start due (w # ws)" and "pw_check w - start < maxWaitMs"
    and "start + maxWaitMs - due \<le> pollMs * int (length ws)"
  shows "ws \<noteq> [] \<and> start + maxWaitMs - (pw_check w + poll_sleep pollMs maxWaitMs (pw_check w - start)) \<le> pollMs * int (length ws - 1)"
proof -
  have due: "due \<le> pw_check w" using assms(2) by simp
  with assms have ne: "ws \<noteq> []" by auto
  then obtain k where k: "length ws = Suc k" by (cases ws) auto
  have "0 \<le> pollMs * int k" using assms(1) by simp
  with due assms(4) k ne show ?thesis by (auto simp: poll_sleep_def algebra_simps)
qed

text \<open>C34: the wait ends: whatever other sessions do, whatever the statements answer and whatever the holder is, a
  wait whose clock advances by its sleeps returns within \<open>maxWaitMs / pollMs + 1\<close> polls.\<close>

theorem wait_returns:
  assumes "0 < pollMs" and "paced pollMs maxWaitMs start due polls"
    and "start + maxWaitMs - due \<le> pollMs * (int (length polls) - 1)" and "polls \<noteq> []"
  shows "snd (wait_polls env p lid ttl maxWaitMs start baseline polls t) \<noteq> None"
  using assms(2-4)
proof (induction polls arbitrary: due baseline t)
  case (Cons w ws)
  have left: "start + maxWaitMs - due \<le> pollMs * int (length ws)" using Cons.prems(2) by simp
  have again: "\<exists>v. snd (wait_polls env p lid ttl maxWaitMs start b ws s) = Some v" if "pw_check w - start < maxWaitMs" for b s
  proof -
    note rest = waits_left [OF assms(1) Cons.prems(1) that left]
    then obtain k where "length ws = Suc k" by (cases ws) auto
    with rest Cons.prems(1) have "snd (wait_polls env p lid ttl maxWaitMs start b ws s) \<noteq> None" by (intro Cons.IH) auto
    then show ?thesis by blast
  qed
  show ?case by (auto simp: Let_def again not_le split: prod.split sum.split option.split)
qed simp

text \<open>A dead holder of another host: nobody else touches the lock, the upserts are answered, and every poll reads
  the database's clock at most a minute before it checks its own.\<close>

definition undisturbed :: "int \<Rightarrow> int \<Rightarrow> poll_world \<Rightarrow> bool" where
  "undisturbed dbStart start w =
     (pw_before w = [] \<and> pw_mid w = [] \<and> tw_mid1 (pw_try w) = [] \<and> tw_mid2 (pw_try w) = [] \<and> tw_mid3 (pw_try w) = [] \<and>
      tw_first (pw_try w) = Answered_stmt \<and> tw_second (pw_try w) = Answered_stmt \<and>
      dbStart + 1000 * (pw_check w - start - 60000) \<le> tw_now1 (pw_try w))"

lemma steal_grace_positive: "0 < resolveStealGraceSeconds env ttl"
  by (auto simp: resolveStealGraceSeconds_def Let_def split: option.split)

lemma refused_early:
  assumes "\<not> stealable grace now r" and "lk_ttl r \<le> dbStart + micros_of_minutes ttl"
    and "case lk_refreshed r of None \<Rightarrow> True | Some x \<Rightarrow> x \<le> dbStart" and "0 < ttl" "0 < grace"
    and "dbStart + 1000 * (c - start - 60000) \<le> now"
  shows "c - start < (ttl * 60 + grace + 60) * 1000"
  using assms by (auto simp: stealable_def sql_defs micros_of_minutes_def micros_of_seconds_def split: option.splits)

text \<open>The only row the lock can have is \<open>r\<close>.\<close>

definition only_row :: "lock_row \<Rightarrow> string \<Rightarrow> lock_table \<Rightarrow> bool" where
  "only_row r lid t = (\<forall>q \<in> set t. lk_id q = lid \<longrightarrow> q = r)"

lemma only_rowD: "only_row r lid t \<Longrightarrow> q \<in> set t \<Longrightarrow> lk_id q = lid \<Longrightarrow> q = r"
  by (simp add: only_row_def)

lemma only_row_subset: "only_row r lid t \<Longrightarrow> set t' \<subseteq> set t \<Longrightarrow> only_row r lid t'"
  by (auto simp: only_row_def)

lemma quiet_try:
  assumes "lock_keys t" and "undisturbed dbStart start w" and "only_row r lid t"
  shows "(\<exists>t' h. tryAcquireDbLock env (pw_try w) p lid ttl t = (t', Inr (Some h))) \<or>
    (\<exists>t'. tryAcquireDbLock env (pw_try w) p lid ttl t = (t', Inr None) \<and> lock_keys t' \<and> set t' \<subseteq> set t \<and> r \<in> set t \<and>
       \<not> stealable (resolveStealGraceSeconds env ttl) (tw_now1 (pw_try w)) r)"
proof (cases rule: acquireOnce_cases [of p lid ttl "resolveStealGraceSeconds env ttl" "tw_now1 (pw_try w)" t])
  case (taken k)
  then show ?thesis using assms(2) by (auto simp: tryAcquireDbLock_def run_stmt_def undisturbed_def)
next
  case refused
  obtain q where q: "q \<in> set t" "lk_id q = lid" using refused(2) by (auto simp: has_row_def list_ex_iff)
  then have "q = r" by (rule only_rowD [OF assms(3)])
  with q have r: "r \<in> set t" "lk_id r = lid" by simp_all
  let ?w = "pw_try w" and ?d = "fst (deleteLockRow lid (lk_pid r) t)"
  have quiet: "tw_mid1 ?w = []" "tw_mid2 ?w = []" "tw_mid3 ?w = []" "tw_second ?w = Answered_stmt" "tw_first ?w = Answered_stmt"
    using assms(2) by (simp_all add: undisturbed_def)
  have gone: "\<not> has_row lid ?d"
    using only_rowD [OF assms(3)] by (force simp: has_row_def list_ex_iff deleteLockRow_def pid_row_def)
  have sub: "set ?d \<subseteq> set t" "lock_keys ?d" using assms(1) by (auto simp: deleteLockRow_def intro: lock_keys_filter)
  have tried: "tryAcquireDbLock env ?w p lid ttl t = (fst (takeover env ?w p lid ttl t), Inr (snd (takeover env ?w p lid ttl t)))"
    using refused(1) quiet by (simp add: tryAcquireDbLock_def run_stmt_def split: prod.split)
  show ?thesis
  proof (cases "tw_read ?w \<and> dead_here ?w p r")
    case False
    then show ?thesis using takeover_quiet [OF assms(1) quiet(1-3) r] refused r assms(1) by (auto simp: tried)
  next
    case True
    have "snd (delete_and_retry env ?w p lid ttl r t) \<noteq> None \<or>
        (snd (delete_and_retry env ?w p lid ttl r t) = None \<and> fst (delete_and_retry env ?w p lid ttl r t) \<in> {t, ?d})"
      using gone r by (cases "tw_delete ?w")
        (auto simp: delete_and_retry_def run_stmt_def quiet or_default_def acquireOnce_def upsert_lock_def deleteLockRow_def list_ex_iff pid_row_def
          split: prod.split)
    then show ?thesis using takeover_quiet [OF assms(1) quiet(1-3) r] True refused r assms(1) sub by (auto simp: tried)
  qed
qed

definition seen :: "lock_row \<Rightarrow> lock_snapshot option \<Rightarrow> bool" where
  "seen r b = (b = None \<or> (\<exists>m. b = Some (rowToLockSnapshot m r)))"

lemma observe_same: "seen r snap \<Longrightarrow> seen r b \<Longrightarrow> \<exists>b'. observe_holder snap b = Some b' \<and> seen r b'"
  by (auto simp: seen_def observe_holder_def rowToLockSnapshot_def split: option.splits)

lemma inspect_seen:
  assumes "lock_keys t" and "only_row r lid t"
  shows "seen r (inspectLock lid m t)"
proof (cases "has_row lid t")
  case True
  then obtain q where q: "q \<in> set t" "lk_id q = lid" by (auto simp: has_row_def list_ex_iff)
  moreover from q have "q = r" by (rule only_rowD [OF assms(2)])
  ultimately show ?thesis using inspect_row [OF assms(1)] by (auto simp: seen_def)
qed (simp add: inspect_none seen_def)

lemma dead_wait_step:
  assumes row: "lk_ttl r \<le> dbStart + micros_of_minutes ttl" "case lk_refreshed r of None \<Rightarrow> True | Some x \<Rightarrow> x \<le> dbStart" "0 < ttl"
    and keys: "lock_keys t" and only: "only_row r lid t"
    and und: "undisturbed dbStart start w" and base: "seen r baseline"
    and bound: "maxWaitMs = (ttl * 60 + resolveStealGraceSeconds env ttl + 60) * 1000"
  shows "(\<exists>t' h. wait_polls env p lid ttl maxWaitMs start baseline (w # ws) t = (t', Some (Inr (Some h)))) \<or>
    (pw_check w - start < maxWaitMs \<and>
     (\<exists>t' b. wait_polls env p lid ttl maxWaitMs start baseline (w # ws) t = wait_polls env p lid ttl maxWaitMs start b ws t' \<and>
        seen r b \<and> lock_keys t' \<and> only_row r lid t'))"
proof -
  have quiet: "pw_before w = []" "pw_mid w = []" "dbStart + 1000 * (pw_check w - start - 60000) \<le> tw_now1 (pw_try w)"
    using und by (simp_all add: undisturbed_def)
  from quiet_try [where lid = lid and env = env and p = p and ttl = ttl, OF keys und only] show ?thesis
  proof (elim disjE exE conjE)
    fix t' h
    assume "tryAcquireDbLock env (pw_try w) p lid ttl t = (t', Inr (Some h))"
    then show ?thesis by (simp add: quiet)
  next
    fix t'
    assume tried: "tryAcquireDbLock env (pw_try w) p lid ttl t = (t', Inr None)" and keys': "lock_keys t'" and sub: "set t' \<subseteq> set t"
      and live: "\<not> stealable (resolveStealGraceSeconds env ttl) (tw_now1 (pw_try w)) r"
    have early: "pw_check w - start < maxWaitMs"
      unfolding bound by (rule refused_early [OF live row steal_grace_positive quiet(3)])
    note only' = only_row_subset [OF only sub]
    have "seen r (if pw_read w then inspectLock lid (pw_ms w) t' else None)"
      using inspect_seen [OF keys' only'] by (simp add: seen_def)
    then obtain b where "observe_holder (if pw_read w then inspectLock lid (pw_ms w) t' else None) baseline = Some b" "seen r b"
      using observe_same base by blast
    with early tried keys' only' show ?thesis by (auto simp: quiet Let_def not_le intro!: exI [of _ t'] exI [of _ b])
  qed
qed

lemma dead_wait:
  assumes row: "lk_ttl r \<le> dbStart + micros_of_minutes ttl" "case lk_refreshed r of None \<Rightarrow> True | Some x \<Rightarrow> x \<le> dbStart" "0 < ttl"
    and bound: "maxWaitMs = (ttl * 60 + resolveStealGraceSeconds env ttl + 60) * 1000" and poll: "0 < pollMs"
    and "lock_keys t" and "only_row r lid t" and "list_all (undisturbed dbStart start) polls"
    and "seen r baseline" and "paced pollMs maxWaitMs start due polls"
    and "start + maxWaitMs - due \<le> pollMs * (int (length polls) - 1)" and "polls \<noteq> []"
  shows "\<exists>t' h. wait_polls env p lid ttl maxWaitMs start baseline polls t = (t', Some (Inr (Some h)))"
  using assms(6-)
proof (induction polls arbitrary: due baseline t)
  case (Cons w ws)
  have "undisturbed dbStart start w" using Cons.prems(3) by simp
  from dead_wait_step [where p = p and ws = ws, OF row Cons.prems(1,2) this Cons.prems(4) bound] show ?case
  proof (elim disjE exE conjE)
    fix t' b
    assume early: "pw_check w - start < maxWaitMs" and go: "seen r b" "lock_keys t'" "only_row r lid t'"
      and eq: "wait_polls env p lid ttl maxWaitMs start baseline (w # ws) t = wait_polls env p lid ttl maxWaitMs start b ws t'"
    have "start + maxWaitMs - due \<le> pollMs * int (length ws)" using Cons.prems(6) by simp
    note rest = waits_left [OF poll Cons.prems(5) early this]
    then obtain k where "length ws = Suc k" by (cases ws) auto
    with rest show ?case unfolding eq using Cons.prems(3,5) go by (intro Cons.IH) auto
  qed blast
qed simp

text \<open>A dead holder does not block for ever. If nobody else touches the lock, the wait for it, with its default
  bound of time to live, grace and a minute, ends with the lock in hand, whatever the host of the dead
  holder and whenever within its time to live it died.\<close>

theorem dead_holder_is_taken_over:
  assumes "lock_keys t" and "only_row r lid t"
    and "lk_ttl r \<le> dbStart + micros_of_minutes ttl" and "case lk_refreshed r of None \<Rightarrow> True | Some x \<Rightarrow> x \<le> dbStart" and "0 < ttl"
    and "wo_maxWaitMs opts = None" and "list_all (undisturbed dbStart start) polls"
    and "paced (wait_poll_ms opts) (wait_bound_ms env ttl opts) start start polls"
    and "wait_bound_ms env ttl opts \<le> wait_poll_ms opts * (int (length polls) - 1)" and "polls \<noteq> []"
  shows "\<exists>t' h. waitForDbLockTakeover env p lid ttl opts start looked now polls t = (t', Some (Inr (Some h)))"
proof -
  have bound: "wait_bound_ms env ttl opts = (ttl * 60 + resolveStealGraceSeconds env ttl + 60) * 1000"
    using assms(6) by (simp add: wait_bound_ms_def or_default_def)
  have "seen r (if looked then inspectLock lid now t else None)" using inspect_seen [OF assms(1,2)] by (simp add: seen_def)
  moreover have "0 < wait_poll_ms opts" by (simp add: wait_poll_ms_def)
  ultimately show ?thesis unfolding waitForDbLockTakeover_def
    using dead_wait [OF assms(3-5) bound _ assms(1,2,7) _ assms(8)] assms(9,10) by simp
qed

section \<open>Reported alive\<close>

text \<open>A holder reported as live is not one an acquisition would steal from: the report and the guard of the upsert
  agree, up to the instant the grace ends, at which neither holds.\<close>

lemma live_not_stealable:
  assumes "isLockHolderLive env (rowToLockSnapshot nowMs r) ttl"
  shows "\<not> stealable (resolveStealGraceSeconds env ttl) (nowMs * 1000) r"
proof -
  have ms: "date_ms x < nowMs" if "x < nowMs * 1000" for x using that by (auto simp: date_ms_def)
  show ?thesis
  proof
    assume s: "stealable (resolveStealGraceSeconds env ttl) (nowMs * 1000) r"
    then have "sn_expired (rowToLockSnapshot nowMs r)" using ms by (simp add: stealable_def rowToLockSnapshot_def)
    with assms obtain x where x: "lk_refreshed r = Some x" "nowMs - date_ms x < resolveStealGraceSeconds env ttl * 1000"
      by (auto simp: isLockHolderLive_def rowToLockSnapshot_def split: option.splits)
    with s have "x < (nowMs - resolveStealGraceSeconds env ttl * 1000) * 1000"
      by (auto simp: stealable_def sql_defs micros_of_seconds_def algebra_simps)
    then have "date_ms x < nowMs - resolveStealGraceSeconds env ttl * 1000" by (auto simp: date_ms_def)
    with x(2) show False by simp
  qed
qed

section \<open>Instances\<close>

definition quiet_world :: "int \<Rightarrow> int \<Rightarrow> takeover_world" where
  "quiet_world now nowMs =
     \<lparr>tw_first = Answered_stmt, tw_now1 = now, tw_mid1 = [], tw_read = True, tw_ms = nowMs, tw_probe = Kill_code ''ESRCH'',
      tw_mid2 = [], tw_delete = Answered_stmt, tw_mid3 = [], tw_second = Answered_stmt, tw_now2 = now + 1\<rparr>"

definition demo_work_world :: work_world where
  "demo_work_world =
     \<lparr>ww_acquire = quiet_world 0 0,
      ww_ticks = [\<lparr>kw_before = [], kw_now = 200000000, kw_fate = Answered_stmt\<rparr>,
                  \<lparr>kw_before = [], kw_now = 500000000, kw_fate = Answer_lost\<rparr>],
      ww_late = [Upsert \<lparr>lp_pid = 5, lp_host = ''b''\<rparr> ''gbrain-sync:wiki'' 30 600 600000000], ww_release = Answered_stmt\<rparr>"

definition demo_poll :: "int \<Rightarrow> int \<Rightarrow> poll_world" where
  "demo_poll now check =
     \<lparr>pw_before = [], pw_try = quiet_world now check, pw_mid = [], pw_read = True, pw_ms = check, pw_check = check\<rparr>"

lemmas demo_lock_defs = race_dead_row_def race_live_def quiet_world_def demo_work_world_def demo_poll_def taken_row_def
  micros_of_minutes_def micros_of_seconds_def

theorem lost_lock_has_no_effect_witness:
  "end_work demo_work_world race_live (fst (refresh_ticks race_live False True (ww_ticks demo_work_world) [race_dead_row])) =
     [race_dead_row, taken_row \<lparr>lp_pid = 5, lp_host = ''b''\<rparr> ''gbrain-sync:wiki'' 30 600000000]"
proof -
  have "\<not> owns_lock race_live [race_dead_row]"
    "list_all (\<lambda>e. \<not> grants_lock race_live e) (concat (map kw_before (ww_ticks demo_work_world)) @ ww_late demo_work_world)"
    by (simp_all add: owns_lock_def fenced_def demo_lock_defs)
  from lost_lock_has_no_effect [OF this, of False True] show ?thesis
    by (simp add: demo_work_world_def upsert_lock_def has_row_def race_dead_row_def)
qed

theorem refreshed_lock_is_exclusive_witness:
  "owns_lock race_live (run_events
     [Upsert \<lparr>lp_pid = 9, lp_host = ''c''\<rparr> ''gbrain-cycle'' 30 600 1900000000, Refresh race_live 1910000000,
      Upsert \<lparr>lp_pid = 9, lp_host = ''c''\<rparr> ''gbrain-cycle'' 30 600 3700000000, Delete ''gbrain-cycle'' 9]
     [taken_row \<lparr>lp_pid = 5, lp_host = ''b''\<rparr> ''gbrain-cycle'' 30 121000000])" (is "owns_lock _ (run_events ?es ?t)")
proof -
  have "holds_lock race_live 121000000 ?t"
    by (simp add: holds_lock_def lock_keys_def holds_since_def fenced_def demo_lock_defs)
  moreover have "covered race_live 121000000 ?es" by (simp add: demo_lock_defs same_fence_def)
  ultimately show ?thesis by (rule conjunct1 [OF refreshed_lock_is_exclusive])
qed

theorem acquisition_needs_a_dead_holder_witness:
  "dead_here (quiet_world 120000000 120000) \<lparr>lp_pid = 1, lp_host = ''a''\<rparr> race_dead_row"
proof -
  let ?h = "\<lparr>lh_id = ''gbrain-cycle'', lh_pid = 1, lh_fence = 120000001, lh_ttl = 30\<rparr>"
  have keys: "lock_keys [race_dead_row]" by (simp add: lock_keys_def)
  have grace: "resolveStealGraceSeconds None 30 = 600" by (simp add: resolveStealGraceSeconds_def)
  have res: "tryAcquireDbLock None (quiet_world 120000000 120000) \<lparr>lp_pid = 1, lp_host = ''a''\<rparr> ''gbrain-cycle'' 30 [race_dead_row] =
      ([taken_row \<lparr>lp_pid = 1, lp_host = ''a''\<rparr> ''gbrain-cycle'' 30 120000001], Inr (Some ?h))"
    by (simp add: tryAcquireDbLock_def takeover_def acquireOnce_def upsert_lock_def demo_lock_defs run_stmt_def Let_def has_row_def
      stealable_def sql_defs grace inspectLock_def selectLockRows_def rowToLockSnapshot_def date_ms_def isHolderDeadLocally_def
      classifyHolderLiveness_def HOLDER_TAKEOVER_GRACE_MS_def deleteLockRow_def pid_row_def or_default_def)
  have row: "race_dead_row \<in> set [race_dead_row]" "lk_id race_dead_row = ''gbrain-cycle''" by (simp_all add: race_dead_row_def)
  have "\<not> stealable 600 120000000 race_dead_row" by (simp add: stealable_def demo_lock_defs sql_defs)
  with acquisition_needs_a_dead_holder [OF keys res _ _ _ row] show ?thesis by (simp add: quiet_world_def grace)
qed

theorem reaper_deletes_exactly_the_dead_witness:
  "reapDeadHolderLocks (\<lambda>pid. Kill_code ''ESRCH'') ''a'' None 120000 (replicate 1 ([], Answered_stmt)) [race_dead_row] =
     ([], Inr [''gbrain-cycle''])"
  using reaper_deletes_exactly_the_dead [of "[race_dead_row]" 1 "\<lambda>pid. Kill_code ''ESRCH''" "''a''" None 120000]
  by (simp add: lock_keys_def reapable_row_def demo_lock_defs isReapableNamespace_def or_default_def date_ms_def)

theorem wait_returns_witness:
  "snd (wait_polls None \<lparr>lp_pid = 1, lp_host = ''a''\<rparr> ''gbrain-cycle'' 30 50 0 None [demo_poll 0 0, demo_poll 0 50] [race_dead_row]) \<noteq> None"
  by (rule wait_returns [of 50 50 0 0]) (simp_all add: demo_poll_def poll_sleep_def)

theorem dead_holder_is_taken_over_witness:
  "\<exists>t' h. waitForDbLockTakeover None \<lparr>lp_pid = 1, lp_host = ''a''\<rparr> ''gbrain-supervisor:default'' 1
     \<lparr>wo_pollMs = Some 180000, wo_maxWaitMs = None\<rparr> 0 True 0 [demo_poll 0 0, demo_poll 181000000 180000]
     [taken_row \<lparr>lp_pid = 5, lp_host = ''x''\<rparr> ''gbrain-supervisor:default'' 1 0] = (t', Some (Inr (Some h)))"
proof -
  let ?r = "taken_row \<lparr>lp_pid = 5, lp_host = ''x''\<rparr> ''gbrain-supervisor:default'' 1 0"
  have "wait_bound_ms None 1 \<lparr>wo_pollMs = Some 180000, wo_maxWaitMs = None\<rparr> = 180000"
    by (simp add: wait_bound_ms_def or_default_def resolveStealGraceSeconds_def)
  then show ?thesis
    by (intro dead_holder_is_taken_over [where r = ?r and dbStart = 0])
      (simp_all add: lock_keys_def only_row_def wait_poll_ms_def or_default_def poll_sleep_def undisturbed_def demo_lock_defs)
qed

end
