(* ===== verification/Supervise.thy ===== *)
theory Supervise
  imports Retry
begin

text \<open>
  The loop that keeps one worker process alive (\<open>src/core/minions/child-worker-supervisor.ts\<close>, with
  \<open>exit-classification.ts\<close>, \<open>worker-exit-codes.ts\<close>, \<open>spawn-helpers.ts\<close> and the backoff of \<open>supervisor.ts\<close>):
  spawn, wait for the exit, classify it, count it, and wait before the next spawn. The loop is a
  function of the lives of the children: how each ended, the readings of the clock, whether a deliberate
  restart was asked for while it ran, the readings of the composer's stop flag and the random number of
  the backoff. Its result is the trace of events and sleeps and how the loop ended. Exit codes
  and clock readings are integers, sleeps rationals.
\<close>

section \<open>Options, exits, events\<close>

definition WORKER_EXIT_RSS_WATCHDOG :: int where "WORKER_EXIT_RSS_WATCHDOG = 12"

definition HARD_STOP_CRASH_MULTIPLIER :: int where "HARD_STOP_CRASH_MULTIPLIER = 10"

record sup_opts =
  so_maxCrashes :: int
  so_hardStop :: "int option"
  so_stableReset :: "int option"
  so_cleanBudget :: "int option"
  so_cleanWindow :: "int option"
  so_cleanBackoff :: "rat option"
  so_watchdogBudget :: "int option"
  so_watchdogWindow :: "int option"
  so_watchdogBackoff :: "rat option"
  so_backoffFloor :: "rat option"

definition stableRunResetMs :: "sup_opts \<Rightarrow> int" where
  "stableRunResetMs sp = or_default 300000 (so_stableReset sp)"

definition cleanRestartBudget :: "sup_opts \<Rightarrow> int" where
  "cleanRestartBudget sp = or_default 10 (so_cleanBudget sp)"

definition cleanRestartWindowMs :: "sup_opts \<Rightarrow> int" where
  "cleanRestartWindowMs sp = or_default 60000 (so_cleanWindow sp)"

definition watchdogLoopBudget :: "sup_opts \<Rightarrow> int" where
  "watchdogLoopBudget sp = or_default 3 (so_watchdogBudget sp)"

definition watchdogLoopWindowMs :: "sup_opts \<Rightarrow> int" where
  "watchdogLoopWindowMs sp = or_default 600000 (so_watchdogWindow sp)"

datatype exit_class = Crash | CleanExit

definition classifyWorkerExit :: "int option \<Rightarrow> exit_class" where
  "classifyWorkerExit code = (if code = Some 0 then CleanExit else Crash)"

datatype backoff_reason = BackClean | BackCrash | BackBudget | BackWatchdog | BackWedge

datatype warn_reason = WarnCleanBudget int | WarnWatchdogLoop int | WarnDegraded int

datatype child_event =
    WorkerSpawned bool
  | WorkerSpawnFailed bool
  | WorkerExited "int option" "string option" int string int
  | Backoff int int backoff_reason
  | HealthWarn warn_reason int

datatype sup_item = Emit child_event | Sleep rat

record sup_state =
  sv_crashes :: int
  sv_lastExit :: "int option"
  sv_clean :: "int list"
  sv_watchdog :: "int list"
  sv_intentional :: bool
  sv_wasIntentional :: bool

definition sup_init :: sup_state where
  "sup_init = \<lparr>sv_crashes = 0, sv_lastExit = None, sv_clean = [], sv_watchdog = [], sv_intentional = False,
     sv_wasIntentional = False\<rparr>"

section \<open>One child\<close>

text \<open>How a spawn went: \<open>spawn\<close> threw; an \<open>error\<close> event came and no process; or the process ran, had some
  \<open>error\<close> events, and exited with a code or a signal.\<close>

datatype child_run = SpawnThrew | SpawnErrored | RanTo nat "int option" "string option"

record child_life =
  cl_run :: child_run
  cl_start :: int
  cl_end :: int
  cl_stamp :: int
  cl_restart :: bool
  cl_hook :: bool
  cl_stopHead :: bool
  cl_stopHook :: bool
  cl_stopSpawn :: bool
  cl_stopExit :: bool
  cl_stopAfter :: bool
  cl_random :: rat

text \<open>The sliding window of timestamps.\<close>

definition push_window :: "int \<Rightarrow> int \<Rightarrow> int list \<Rightarrow> int list" where
  "push_window window now ts = filter (\<lambda>t. t > now - window) (ts @ [now])"

definition likely_cause :: "bool \<Rightarrow> int option \<Rightarrow> string option \<Rightarrow> string" where
  "likely_cause wasIntentional code signal =
     (if wasIntentional then ''wedge_restart''
      else if signal = Some ''SIGKILL'' then ''oom_or_external_kill''
      else if signal = Some ''SIGTERM'' then ''graceful_shutdown''
      else if code = Some WORKER_EXIT_RSS_WATCHDOG then ''rss_watchdog''
      else if code = Some 1 then ''runtime_error''
      else if code = Some 0 then ''clean_exit''
      else ''unknown'')"

text \<open>The accounting of an exit.\<close>

definition account_exit :: "sup_opts \<Rightarrow> child_life \<Rightarrow> int option \<Rightarrow> sup_state \<Rightarrow> sup_state" where
  "account_exit sp l code s0 =
     (let s = s0\<lparr>sv_lastExit := code\<rparr>
      in if sv_intentional s then s\<lparr>sv_intentional := False, sv_wasIntentional := True\<rparr>
         else if code = Some WORKER_EXIT_RSS_WATCHDOG
         then s\<lparr>sv_watchdog := push_window (watchdogLoopWindowMs sp) (cl_stamp l) (sv_watchdog s)\<rparr>
         else if classifyWorkerExit code = CleanExit
         then s\<lparr>sv_clean := push_window (cleanRestartWindowMs sp) (cl_stamp l) (sv_clean s)\<rparr>
         else if cl_end l - cl_start l > stableRunResetMs sp then s\<lparr>sv_crashes := 1\<rparr>
         else s\<lparr>sv_crashes := sv_crashes s + 1\<rparr>)"

definition on_exit ::
  "sup_opts \<Rightarrow> child_life \<Rightarrow> int option \<Rightarrow> string option \<Rightarrow> sup_state \<Rightarrow> sup_state \<times> sup_item list" where
  "on_exit sp l code signal s =
     (if cl_stopExit l then (s, [])
      else let s' = account_exit sp l code s
           in (s', [Emit (WorkerExited code signal (cl_end l - cl_start l)
                      (likely_cause (sv_wasIntentional s') code signal) (sv_crashes s'))]))"

definition settleSpawnFailure :: "child_life \<Rightarrow> sup_state \<Rightarrow> sup_state \<times> sup_item list" where
  "settleSpawnFailure l s0 =
     (let s = s0\<lparr>sv_intentional := False\<rparr>
      in if cl_stopExit l then (s, [])
         else let s' = s\<lparr>sv_lastExit := None, sv_crashes := sv_crashes s + 1\<rparr>
              in (s', [Emit (WorkerExited None None (cl_end l - cl_start l) ''spawn_failed'' (sv_crashes s'))]))"

text \<open>\<open>restartCurrentChild\<close> while the child runs only sets the flag; the kill is how the life ends.\<close>

definition mark_restart :: "child_life \<Rightarrow> sup_state \<Rightarrow> sup_state" where
  "mark_restart l s = (if cl_restart l then s\<lparr>sv_intentional := True\<rparr> else s)"

definition spawnOnce :: "sup_opts \<Rightarrow> bool \<Rightarrow> child_life \<Rightarrow> sup_state \<Rightarrow> sup_state \<times> sup_item list" where
  "spawnOnce sp tini l s =
     (if cl_stopSpawn l then (s, [])
      else case cl_run l of
          SpawnThrew \<Rightarrow>
            (s\<lparr>sv_crashes := sv_crashes s + 1, sv_lastExit := None\<rparr>, [Emit (WorkerSpawnFailed True)])
        | SpawnErrored \<Rightarrow>
            (case settleSpawnFailure l (mark_restart l s) of
               (s', items) \<Rightarrow> (s', [Emit (WorkerSpawned tini), Emit (WorkerSpawnFailed False)] @ items))
        | RanTo errors code signal \<Rightarrow>
            (case on_exit sp l code signal (mark_restart l s) of
               (s', items) \<Rightarrow> (s', Emit (WorkerSpawned tini) # replicate errors (Emit (WorkerSpawnFailed False)) @ items)))"

section \<open>Backoff\<close>

definition calculateBackoffMs :: "rat \<Rightarrow> int \<Rightarrow> rat" where
  "calculateBackoffMs random crashCount =
     (let base = min (1000 * 2 ^ nat (max crashCount 0)) 60000 in base + random * base * (1 / 10))"

definition js_round :: "rat \<Rightarrow> int" where "js_round x = \<lfloor>x + 1 / 2\<rfloor>"

definition pause :: "sup_state \<Rightarrow> rat \<Rightarrow> backoff_reason \<Rightarrow> sup_item list" where
  "pause s d reason = [Emit (Backoff (js_round d) (sv_crashes s) reason), Sleep d]"

definition applyBackoff :: "sup_opts \<Rightarrow> rat \<Rightarrow> sup_state \<Rightarrow> sup_state \<times> sup_item list" where
  "applyBackoff sp random s =
     (if sv_wasIntentional s
      then (s\<lparr>sv_wasIntentional := False\<rparr>, [Emit (Backoff 0 (sv_crashes s) BackWedge)])
      else if sv_lastExit s = Some 0
      then (let count = int (length (sv_clean s))
            in if count > cleanRestartBudget sp
               then (s, Emit (HealthWarn (WarnCleanBudget (cleanRestartWindowMs sp)) count) #
                        pause s (or_default (or_default 1000 (so_cleanBackoff sp)) (so_backoffFloor sp)) BackBudget)
               else (s, [Emit (Backoff 0 (sv_crashes s) BackClean)]))
      else if sv_lastExit s = Some WORKER_EXIT_RSS_WATCHDOG
      then (let count = int (length (sv_watchdog s))
            in (s, (if count > watchdogLoopBudget sp
                    then [Emit (HealthWarn (WarnWatchdogLoop (watchdogLoopWindowMs sp)) count)] else []) @
                   pause s (or_default (or_default 30000 (so_watchdogBackoff sp)) (so_backoffFloor sp)) BackWatchdog))
      else (s, pause s (or_default (calculateBackoffMs random (sv_crashes s - 1)) (so_backoffFloor sp)) BackCrash))"

section \<open>The loop\<close>

datatype sup_end = Stopped | HookThrew | GaveUp int int | StillRunning

definition hard_stop :: "sup_opts \<Rightarrow> int" where
  "hard_stop sp = or_default (so_maxCrashes sp * HARD_STOP_CRASH_MULTIPLIER) (so_hardStop sp)"

text \<open>The warning of degraded mode, once per episode; the flag is \<open>degradedAnnounced\<close>.\<close>

definition announce :: "sup_opts \<Rightarrow> bool \<Rightarrow> sup_state \<Rightarrow> bool \<times> sup_item list" where
  "announce sp degraded s =
     (if sv_crashes s \<ge> so_maxCrashes sp
      then (True, if degraded then [] else [Emit (HealthWarn (WarnDegraded (so_maxCrashes sp)) (sv_crashes s))])
      else (False, []))"

text \<open>One turn: \<open>Inl\<close> the end of the loop, or \<open>Inr\<close> the flag for the next turn.\<close>

definition sup_turn ::
  "sup_opts \<Rightarrow> bool \<Rightarrow> bool \<Rightarrow> child_life \<Rightarrow> sup_state \<Rightarrow> sup_state \<times> sup_item list \<times> (sup_end + bool)" where
  "sup_turn sp tini degraded l s =
     (if cl_stopHead l then (s, [], Inl Stopped)
      else if \<not> cl_hook l then (s, [], Inl HookThrew)
      else if cl_stopHook l then (s, [], Inl Stopped)
      else case spawnOnce sp tini l s of
          (s1, items) \<Rightarrow>
            if cl_stopAfter l then (s1, items, Inl Stopped)
            else if hard_stop sp > 0 \<and> sv_crashes s1 \<ge> hard_stop sp
            then (s1, items, Inl (GaveUp (sv_crashes s1) (hard_stop sp)))
            else (case announce sp degraded s1 of
                    (degraded', warns) \<Rightarrow>
                      (case applyBackoff sp (cl_random l) s1 of
                         (s2, back) \<Rightarrow> (s2, items @ warns @ back, Inr degraded'))))"

fun sup_run ::
  "sup_opts \<Rightarrow> bool \<Rightarrow> bool \<Rightarrow> child_life list \<Rightarrow> sup_state \<Rightarrow> sup_state \<times> sup_item list \<times> sup_end" where
  "sup_run sp tini degraded [] s = (s, [], StillRunning)"
| "sup_run sp tini degraded (l # ls) s =
     (case sup_turn sp tini degraded l s of
        (s1, items, Inl e) \<Rightarrow> (s1, items, e)
      | (s1, items, Inr d) \<Rightarrow> (case sup_run sp tini d ls s1 of (s2, more_items, e) \<Rightarrow> (s2, items @ more_items, e)))"

section \<open>Spawning\<close>

definition buildSpawnInvocation :: "string \<Rightarrow> string \<Rightarrow> string list \<Rightarrow> string \<times> string list" where
  "buildSpawnInvocation tiniPath cliPath args =
     (if tiniPath \<noteq> [] then (tiniPath, ''--'' # cliPath # args) else (cliPath, args))"

record worker_opts =
  wk_concurrency :: int
  wk_queue :: string
  wk_maxRssMb :: int
  wk_nice :: "int option"
  wk_isolation :: "string option"

definition buildWorkerArgs :: "worker_opts \<Rightarrow> string list" where
  "buildWorkerArgs w =
     [''jobs'', ''work'', ''--concurrency'', int_str (wk_concurrency w), ''--queue'', wk_queue w] @
     (if wk_maxRssMb w > 0 then [''--max-rss'', int_str (wk_maxRssMb w)] else []) @
     (case wk_nice w of None \<Rightarrow> [] | Some n \<Rightarrow> [''--nice'', int_str n]) @
     (if wk_isolation w = Some ''process'' then [''--job-isolation'', ''process''] else [])"

text \<open>An override of the environment: a whole number that is not negative.\<close>

definition env_whole :: "string option \<Rightarrow> int option" where
  "env_whole raw =
     (case raw of None \<Rightarrow> None
      | Some v \<Rightarrow> if v = [] then None
          else (case js_integer (js_Number v) of None \<Rightarrow> None | Some n \<Rightarrow> if n \<ge> 0 then Some n else None))"

definition resolveHardStopMaxCrashes :: "string option \<Rightarrow> int \<Rightarrow> int" where
  "resolveHardStopMaxCrashes env maxCrashes = or_default (maxCrashes * HARD_STOP_CRASH_MULTIPLIER) (env_whole env)"

definition resolveSupervisorLockWaitSeconds :: "string option \<Rightarrow> int" where
  "resolveSupervisorLockWaitSeconds env = or_default (- 1) (env_whole env)"

end
