(* ===== verification/SuperviseProps.thy ===== *)
theory SuperviseProps
  imports Supervise
begin

text \<open>
  What the supervise loop promises: it gives up exactly when the crashes since the last stable run reach the
  hard ceiling, whatever clean exits, memory drains and deliberate restarts lie between; crashes are
  answered by a backoff that doubles up to a minute; and clean exits cannot make it spin, because the
  immediate restarts in any window never outnumber their budget.
\<close>

section \<open>What a life counts for\<close>

text \<open>A life that counts as a crash, and one of these that ran long enough to forgive the crashes before it.\<close>

definition counted :: "child_life \<Rightarrow> bool" where
  "counted l =
     (case cl_run l of
        RanTo errors code signal \<Rightarrow> \<not> cl_restart l \<and> code \<noteq> Some 0 \<and> code \<noteq> Some WORKER_EXIT_RSS_WATCHDOG
      | _ \<Rightarrow> True)"

definition stable :: "sup_opts \<Rightarrow> child_life \<Rightarrow> bool" where
  "stable sp l =
     (case cl_run l of RanTo errors code signal \<Rightarrow> cl_end l - cl_start l > stableRunResetMs sp | _ \<Rightarrow> False)"

definition clean :: "child_life \<Rightarrow> bool" where
  "clean l = (case cl_run l of RanTo errors code signal \<Rightarrow> \<not> cl_restart l \<and> code = Some 0 | _ \<Rightarrow> False)"

text \<open>The stop flag, once set, stays set; a life on duty sees it unset throughout.\<close>

definition stop_stays :: "child_life \<Rightarrow> bool" where
  "stop_stays l = ((cl_stopSpawn l \<or> cl_stopExit l) \<longrightarrow> cl_stopAfter l)"

definition on_duty :: "child_life \<Rightarrow> bool" where
  "on_duty l =
     (\<not> cl_stopHead l \<and> cl_hook l \<and> \<not> cl_stopHook l \<and> \<not> cl_stopSpawn l \<and> \<not> cl_stopExit l \<and> \<not> cl_stopAfter l)"

definition flags_clear :: "sup_state \<Rightarrow> bool" where
  "flags_clear s = (\<not> sv_intentional s \<and> \<not> sv_wasIntentional s)"

text \<open>The state a spawn leaves behind when nothing stops it.\<close>

lemma spawned_state:
  assumes "flags_clear s" and "\<not> cl_stopSpawn l" and "\<not> cl_stopExit l"
  shows "fst (spawnOnce sp tini l s) =
    (case cl_run l of
       RanTo errors code signal \<Rightarrow> account_exit sp l code (mark_restart l s)
     | _ \<Rightarrow> s\<lparr>sv_crashes := sv_crashes s + 1, sv_lastExit := None\<rparr>)"
  using assms by (auto simp: spawnOnce_def settleSpawnFailure_def on_exit_def Let_def mark_restart_def flags_clear_def
    split: child_run.split prod.split)

lemma spawned_items: "Emit (Backoff a b c) \<notin> set (snd (spawnOnce sp tini l s))"
  by (auto simp: spawnOnce_def settleSpawnFailure_def on_exit_def Let_def split: child_run.split prod.splits if_splits)

lemma accounted:
  assumes "flags_clear s"
  shows "sv_intentional (account_exit sp l code (mark_restart l s)) = False"
    and "sv_wasIntentional (account_exit sp l code (mark_restart l s)) = cl_restart l"
    and "sv_lastExit (account_exit sp l code (mark_restart l s)) = code"
    and "sv_crashes (account_exit sp l code (mark_restart l s)) =
      (if cl_restart l \<or> code = Some 0 \<or> code = Some 12 then sv_crashes s
       else if cl_end l - cl_start l > stableRunResetMs sp then 1 else sv_crashes s + 1)"
    and "sv_clean (account_exit sp l code (mark_restart l s)) =
      (if \<not> cl_restart l \<and> code = Some 0 then push_window (cleanRestartWindowMs sp) (cl_stamp l) (sv_clean s) else sv_clean s)"
  using assms by (simp_all add: account_exit_def mark_restart_def classifyWorkerExit_def WORKER_EXIT_RSS_WATCHDOG_def flags_clear_def Let_def)

lemma spawned:
  assumes "flags_clear s" and "\<not> cl_stopSpawn l" and "\<not> cl_stopExit l" and "spawnOnce sp tini l s = (s1, items)"
  shows "sv_crashes s1 = (if \<not> counted l then sv_crashes s else if stable sp l then 1 else sv_crashes s + 1)"
    and "\<not> sv_intentional s1"
    and "sv_clean s1 = (if clean l then push_window (cleanRestartWindowMs sp) (cl_stamp l) (sv_clean s) else sv_clean s)"
    and "\<not> sv_wasIntentional s1 \<Longrightarrow> sv_lastExit s1 = Some 0 \<Longrightarrow> clean l"
    and "counted l \<Longrightarrow> \<not> sv_wasIntentional s1 \<and> sv_lastExit s1 \<noteq> Some 0 \<and> sv_lastExit s1 \<noteq> Some 12"
proof -
  have s1: "s1 = (case cl_run l of
       RanTo errors code signal \<Rightarrow> account_exit sp l code (mark_restart l s)
     | _ \<Rightarrow> s\<lparr>sv_crashes := sv_crashes s + 1, sv_lastExit := None\<rparr>)"
    using spawned_state [OF assms(1-3)] assms(4) by (metis fst_conv)
  show "sv_crashes s1 = (if \<not> counted l then sv_crashes s else if stable sp l then 1 else sv_crashes s + 1)"
    and "\<not> sv_intentional s1"
    and "sv_clean s1 = (if clean l then push_window (cleanRestartWindowMs sp) (cl_stamp l) (sv_clean s) else sv_clean s)"
    and "\<not> sv_wasIntentional s1 \<Longrightarrow> sv_lastExit s1 = Some 0 \<Longrightarrow> clean l"
    and "counted l \<Longrightarrow> \<not> sv_wasIntentional s1 \<and> sv_lastExit s1 \<noteq> Some 0 \<and> sv_lastExit s1 \<noteq> Some 12"
    using assms(1) by (cases "cl_run l"; simp add: s1 accounted [OF assms(1)] counted_def stable_def clean_def
      flags_clear_def WORKER_EXIT_RSS_WATCHDOG_def)+
qed

lemma applyBackoff_state:
  "sv_crashes (fst (applyBackoff sp x s)) = sv_crashes s" "sv_clean (fst (applyBackoff sp x s)) = sv_clean s"
  "\<not> sv_intentional s \<Longrightarrow> flags_clear (fst (applyBackoff sp x s))"
  by (simp_all add: applyBackoff_def flags_clear_def Let_def)

text \<open>A turn that goes on.\<close>

lemma turn_goes_on:
  assumes turn: "sup_turn sp tini d l s = (s', items, Inr d')" and clear: "flags_clear s" and stop: "stop_stays l"
  obtains s1 items1 warns where "spawnOnce sp tini l s = (s1, items1)" "items = items1 @ warns @ snd (applyBackoff sp (cl_random l) s1)"
    "s' = fst (applyBackoff sp (cl_random l) s1)" "\<not> cl_stopSpawn l" "\<not> cl_stopExit l" "\<not> (hard_stop sp > 0 \<and> sv_crashes s1 \<ge> hard_stop sp)"
    "\<And>a b c. Emit (Backoff a b c) \<notin> set warns"
proof (rule that)
  let ?r = "spawnOnce sp tini l s"
  show "?r = (fst ?r, snd ?r)" by simp
  show "items = snd ?r @ snd (announce sp d (fst ?r)) @ snd (applyBackoff sp (cl_random l) (fst ?r))"
    "s' = fst (applyBackoff sp (cl_random l) (fst ?r))" "\<not> cl_stopSpawn l" "\<not> cl_stopExit l"
    "\<not> (hard_stop sp > 0 \<and> sv_crashes (fst ?r) \<ge> hard_stop sp)"
    using turn stop by (auto simp: sup_turn_def stop_stays_def split: if_splits prod.splits)
  show "Emit (Backoff a b c) \<notin> set (snd (announce sp d (fst ?r)))" for a b c by (simp add: announce_def)
qed

section \<open>When it gives up\<close>

text \<open>The crashes of a history since its last stable run, that run included.\<close>

fun run_of :: "sup_opts \<Rightarrow> child_life list \<Rightarrow> int" where
  "run_of sp [] = 0"
| "run_of sp (l # ls) = (if stable sp l then 1 else 1 + run_of sp ls)"

definition streak :: "sup_opts \<Rightarrow> child_life list \<Rightarrow> int" where
  "streak sp ls = run_of sp (rev (filter counted ls))"

lemma run_of_nonneg: "0 \<le> run_of sp ls"
  by (induction ls) simp_all

lemma streak_snoc:
  "streak sp (ls @ [l]) = (if \<not> counted l then streak sp ls else if stable sp l then 1 else streak sp ls + 1)"
  by (simp add: streak_def)

text \<open>On duty, a turn either gives up or goes on, and the count is the streak.\<close>

lemma duty_turn:
  assumes clear: "flags_clear s" and duty: "on_duty l" and count: "sv_crashes s = streak sp ls"
  shows "(if hard_stop sp > 0 \<and> streak sp (ls @ [l]) \<ge> hard_stop sp
    then \<exists>s' items. sup_turn sp tini d l s = (s', items, Inl (GaveUp (streak sp (ls @ [l])) (hard_stop sp)))
    else \<exists>s' items d'. sup_turn sp tini d l s = (s', items, Inr d') \<and> flags_clear s' \<and> sv_crashes s' = streak sp (ls @ [l]))"
proof -
  obtain s1 items where sp1: "spawnOnce sp tini l s = (s1, items)" by (cases "spawnOnce sp tini l s")
  have stop: "\<not> cl_stopSpawn l" "\<not> cl_stopExit l" using duty by (simp_all add: on_duty_def)
  have s1: "sv_crashes s1 = streak sp (ls @ [l])" "\<not> sv_intentional s1"
    using spawned(1,2) [OF clear stop sp1] by (simp_all add: streak_snoc count)
  show ?thesis using duty s1 applyBackoff_state [where sp = sp and x = "cl_random l" and s = s1]
    by (auto simp: sup_turn_def on_duty_def sp1 split: prod.split)
qed

lemma run_gives_up:
  assumes "flags_clear s" and "list_all on_duty ls" and "sv_crashes s = streak sp past"
  shows "(\<exists>s' items n m. sup_run sp tini d ls s = (s', items, GaveUp n m)) \<longleftrightarrow>
    hard_stop sp > 0 \<and> (\<exists>k < length ls. streak sp (past @ take (Suc k) ls) \<ge> hard_stop sp)"
  using assms
proof (induction ls arbitrary: s past d)
  case (Cons l ls)
  have duty: "on_duty l" "list_all on_duty ls" using Cons.prems(2) by simp_all
  have split: "(\<exists>k < length (l # ls). P (take (Suc k) (l # ls))) \<longleftrightarrow> P [l] \<or> (\<exists>k < length ls. P (l # take (Suc k) ls))" for P
    by (auto simp: less_Suc_eq_0_disj)
  note here = split [of "\<lambda>xs. hard_stop sp \<le> streak sp (past @ xs)"]
  note turn = duty_turn [OF Cons.prems(1) duty(1) Cons.prems(3), of tini d]
  show ?case
  proof (cases "hard_stop sp > 0 \<and> streak sp (past @ [l]) \<ge> hard_stop sp")
    case True
    with turn show ?thesis unfolding here by auto
  next
    case False
    then obtain s' items d' where t: "sup_turn sp tini d l s = (s', items, Inr d')" "flags_clear s'" "sv_crashes s' = streak sp (past @ [l])"
      using turn by auto
    have "(\<exists>s'' items' n m. sup_run sp tini d (l # ls) s = (s'', items', GaveUp n m)) \<longleftrightarrow>
        (\<exists>s'' items' n m. sup_run sp tini d' ls s' = (s'', items', GaveUp n m))"
      by (auto simp: t(1) split: prod.splits)
    also have "\<dots> \<longleftrightarrow> hard_stop sp > 0 \<and> (\<exists>k < length ls. streak sp (past @ l # take (Suc k) ls) \<ge> hard_stop sp)"
      using Cons.IH [OF t(2) duty(2) t(3)] by simp
    finally show ?thesis unfolding here using False by auto
  qed
qed simp

text \<open>C36: while nobody stops it, the loop gives up exactly when, at some point of its history, the crashes since the
  last stable run (counting it) have reached the hard ceiling, and a ceiling of zero or less disables it.
  Clean exits, drains of the memory watchdog and deliberate restarts neither add to the streak nor break
  it.\<close>

theorem gives_up_exactly_on_a_streak:
  assumes "list_all on_duty ls"
  shows "(\<exists>s items n m. sup_run sp tini False ls sup_init = (s, items, GaveUp n m)) \<longleftrightarrow>
    hard_stop sp > 0 \<and> (\<exists>k < length ls. streak sp (take (Suc k) ls) \<ge> hard_stop sp)"
  using run_gives_up [of sup_init ls sp "[]" tini False] assms
  by (simp add: flags_clear_def sup_init_def streak_def)

section \<open>How fast it respawns\<close>

text \<open>The turns of a run, with what each emitted.\<close>

fun sup_turns :: "sup_opts \<Rightarrow> bool \<Rightarrow> bool \<Rightarrow> child_life list \<Rightarrow> sup_state \<Rightarrow> (child_life \<times> sup_item list) list" where
  "sup_turns sp tini d [] s = []"
| "sup_turns sp tini d (l # ls) s =
     (case sup_turn sp tini d l s of
        (s', items, Inl e) \<Rightarrow> [(l, items)]
      | (s', items, Inr d') \<Rightarrow> (l, items) # sup_turns sp tini d' ls s')"

lemma turns_items: "fst (snd (sup_run sp tini d ls s)) = concat (map snd (sup_turns sp tini d ls s))"
  by (induction sp tini d ls s rule: sup_run.induct) (auto split: prod.splits sum.splits)

definition at_once :: "sup_item list \<Rightarrow> bool" where
  "at_once items = list_ex (\<lambda>i. case i of Emit (Backoff msec c BackClean) \<Rightarrow> True | _ \<Rightarrow> False) items"

lemma at_once_append [simp]: "at_once (xs @ ys) = (at_once xs \<or> at_once ys)"
  by (simp add: at_once_def)

lemma no_backoff_not_at_once: "(\<And>a b c. Emit (Backoff a b c) \<notin> set items) \<Longrightarrow> \<not> at_once items"
  by (auto simp: at_once_def list_ex_iff split: sup_item.splits child_event.splits backoff_reason.splits)

lemma backoff_at_once:
  "at_once (snd (applyBackoff sp x s)) \<longleftrightarrow>
     \<not> sv_wasIntentional s \<and> sv_lastExit s = Some 0 \<and> int (length (sv_clean s)) \<le> cleanRestartBudget sp"
  by (auto simp: applyBackoff_def at_once_def pause_def Let_def)

lemma turn_window:
  assumes "sup_turn sp tini d l s = (s', items, Inr d')" and "flags_clear s" and "stop_stays l"
  shows "flags_clear s' \<and>
    sv_clean s' = (if clean l then push_window (cleanRestartWindowMs sp) (cl_stamp l) (sv_clean s) else sv_clean s) \<and>
    (at_once items \<longrightarrow> clean l \<and> int (length (sv_clean s')) \<le> cleanRestartBudget sp)"
proof (rule turn_goes_on [OF assms])
  fix s1 items1 warns
  assume sp1: "spawnOnce sp tini l s = (s1, items1)" and items: "items = items1 @ warns @ snd (applyBackoff sp (cl_random l) s1)"
    and s': "s' = fst (applyBackoff sp (cl_random l) s1)" and stop: "\<not> cl_stopSpawn l" "\<not> cl_stopExit l"
    and warns: "\<And>a b c. Emit (Backoff a b c) \<notin> set warns"
  note after = spawned [OF assms(2) stop sp1]
  have "at_once items = at_once (snd (applyBackoff sp (cl_random l) s1))"
    using no_backoff_not_at_once [OF warns] no_backoff_not_at_once [of items1] spawned_items [of _ _ _ sp tini l s] by (simp add: items sp1)
  then have quick: "at_once items \<longleftrightarrow> \<not> sv_wasIntentional s1 \<and> sv_lastExit s1 = Some 0 \<and> int (length (sv_clean s1)) \<le> cleanRestartBudget sp"
    by (simp only: backoff_at_once)
  have kept: "sv_clean s' = sv_clean s1" "flags_clear s'" using applyBackoff_state(2,3) after(2) by (simp_all add: s')
  show ?thesis
  proof (intro conjI impI)
    assume "at_once items"
    with quick kept(1) after(4) show "clean l" "int (length (sv_clean s')) \<le> cleanRestartBudget sp" by simp_all
  qed (use kept after(3) in simp_all)
qed

lemma stopped_turn: "sup_turn sp tini d l s = (s', items, Inl e) \<Longrightarrow> \<not> at_once items"
proof -
  assume "sup_turn sp tini d l s = (s', items, Inl e)"
  then have "items = [] \<or> items = snd (spawnOnce sp tini l s)" by (auto simp: sup_turn_def split: if_splits prod.splits)
  then show ?thesis using no_backoff_not_at_once [OF spawned_items] by (auto simp: at_once_def)
qed

abbreviation in_window :: "int \<Rightarrow> int \<Rightarrow> int \<Rightarrow> bool" where
  "in_window w t x \<equiv> t - w < x \<and> x \<le> t"

abbreviation quick_in :: "int \<Rightarrow> int \<Rightarrow> child_life \<times> sup_item list \<Rightarrow> bool" where
  "quick_in w t z \<equiv> at_once (snd z) \<and> in_window w t (cl_stamp (fst z))"

lemma turns_lives: "set (map fst (sup_turns sp tini d ls s)) \<subseteq> set ls"
proof (induction ls arbitrary: s d)
  case (Cons l ls)
  obtain s' items r where "sup_turn sp tini d l s = (s', items, r)" by (cases "sup_turn sp tini d l s") auto
  then show ?case using Cons.IH by (cases r) auto
qed simp

lemma push_window_count:
  "0 \<le> w \<Longrightarrow> x \<le> t \<Longrightarrow>
     length (filter (\<lambda>y. t - w < y) (push_window w x ts)) = length (filter (\<lambda>y. t - w < y) ts) + (if t - w < x then 1 else 0)"
proof -
  assume "0 \<le> w" "x \<le> t"
  then have "filter (\<lambda>y. t - w < y) (push_window w x ts) = filter (\<lambda>y. t - w < y) (ts @ [x])"
    by (auto simp: push_window_def intro!: filter_cong)
  then show ?thesis by simp
qed

lemma window_turns:
  assumes "flags_clear s" and "list_all stop_stays ls" and "sorted (map cl_stamp ls)" and w: "w = cleanRestartWindowMs sp" "0 \<le> w"
  shows "filter (quick_in w t) (sup_turns sp tini d ls s) = [] \<or>
    int (length (filter (\<lambda>y. t - w < y) (sv_clean s))) + int (length (filter (quick_in w t) (sup_turns sp tini d ls s)))
      \<le> cleanRestartBudget sp"
  using assms(1-3)
proof (induction ls arbitrary: s d)
  case (Cons l ls)
  obtain s' items r where turn: "sup_turn sp tini d l s = (s', items, r)" by (cases "sup_turn sp tini d l s") auto
  show ?case
  proof (cases r)
    case (Inl e)
    then show ?thesis using stopped_turn [of sp tini d l s s' items e] turn by simp
  next
    case (Inr d')
    let ?rest = "sup_turns sp tini d' ls s'" and ?n = "\<lambda>ts. int (length (filter (\<lambda>y. t - w < y) ts))"
    have step: "flags_clear s'" "sv_clean s' = (if clean l then push_window w (cl_stamp l) (sv_clean s) else sv_clean s)"
      "at_once items \<Longrightarrow> clean l \<and> int (length (sv_clean s')) \<le> cleanRestartBudget sp"
      using turn_window [of sp tini d l s s' items d'] turn Inr Cons.prems w by auto
    have IH: "filter (quick_in w t) ?rest = [] \<or> ?n (sv_clean s') + int (length (filter (quick_in w t) ?rest)) \<le> cleanRestartBudget sp"
      using Cons.prems step(1) by (intro Cons.IH) simp_all
    have turns: "sup_turns sp tini d (l # ls) s = (l, items) # ?rest" using turn Inr by simp
    show ?thesis
    proof (cases "cl_stamp l \<le> t")
      case False
      have "\<not> quick_in w t z" if z: "z \<in> set ((l, items) # ?rest)" for z
      proof -
        have "fst z \<in> set (l # ls)" using z turns_lives [of sp tini d' ls s'] by auto
        then have "cl_stamp l \<le> cl_stamp (fst z)" using Cons.prems(3) by auto
        with False show ?thesis by simp
      qed
      then have "filter (quick_in w t) ((l, items) # ?rest) = []" unfolding filter_empty_conv by blast
      then show ?thesis unfolding turns by (rule disjI1)
    next
      case True
      have n: "?n (sv_clean s') = ?n (sv_clean s) + (if clean l \<and> t - w < cl_stamp l then 1 else 0)"
        using push_window_count [OF w(2) True, of "sv_clean s"] by (simp add: step(2))
      have "?n (sv_clean s') \<le> int (length (sv_clean s'))" by simp
      then show ?thesis unfolding turns using True IH n step(3)
        by (cases "clean l \<and> t - w < cl_stamp l"; cases "at_once items") auto
    qed
  qed
qed simp

text \<open>Clean exits cannot make the loop spin: among the children whose clean exits fall into any one window of
  \<open>cleanRestartWindowMs\<close>, at most \<open>cleanRestartBudget\<close> are respawned at once; every other one is followed
  by the cool-down. This holds for every mixture of exits.\<close>

theorem immediate_restarts_bounded:
  assumes "list_all stop_stays ls" and "sorted (map cl_stamp ls)" and "0 \<le> cleanRestartWindowMs sp" and "0 \<le> cleanRestartBudget sp"
  shows "int (length (filter (quick_in (cleanRestartWindowMs sp) t) (sup_turns sp tini False ls sup_init))) \<le> cleanRestartBudget sp"
proof -
  have "flags_clear sup_init" by (simp add: sup_init_def flags_clear_def)
  from window_turns [OF this assms(1,2) refl assms(3), of t tini False] show ?thesis
    using assms(4) by (elim disjE) (simp_all add: sup_init_def)
qed

text \<open>A crash is answered by a backoff that doubles with the streak up to a minute, plus a tenth at most.\<close>

lemma backoff_range:
  assumes "0 \<le> x" and "x < 1"
  shows "min (1000 * 2 ^ nat (max n 0)) 60000 \<le> calculateBackoffMs x n \<and> calculateBackoffMs x n < min (1000 * 2 ^ nat (max n 0)) 60000 * (11 / 10)"
proof -
  let ?b = "min (1000 * 2 ^ nat (max n 0)) 60000 :: rat"
  have b: "0 < ?b" by simp
  have "x * ?b < 1 * ?b" by (rule mult_strict_right_mono [OF assms(2) b])
  moreover have "0 \<le> x * ?b" using assms(1) b by simp
  ultimately show ?thesis by (simp add: calculateBackoffMs_def Let_def)
qed

lemma crash_pause:
  assumes "\<not> sv_wasIntentional s" and "sv_lastExit s \<noteq> Some 0" and "sv_lastExit s \<noteq> Some 12" and "so_backoffFloor sp = None"
  shows "Sleep (calculateBackoffMs x (sv_crashes s - 1)) \<in> set (snd (applyBackoff sp x s))"
  using assms by (simp add: applyBackoff_def WORKER_EXIT_RSS_WATCHDOG_def pause_def or_default_def)

theorem crash_backoff_follows_streak:
  assumes run: "sup_turn sp tini d l s = (s', items, Inr d')" and clear: "flags_clear s" and duty: "on_duty l" and crash: "counted l"
    and count: "sv_crashes s = streak sp ls" and nofloor: "so_backoffFloor sp = None" and random: "0 \<le> cl_random l" "cl_random l < 1"
  shows "\<exists>pause_ms. Sleep pause_ms \<in> set items \<and>
    min (1000 * 2 ^ nat (streak sp (ls @ [l]) - 1)) 60000 \<le> pause_ms \<and>
    pause_ms < min (1000 * 2 ^ nat (streak sp (ls @ [l]) - 1)) 60000 * (11 / 10)"
proof (rule turn_goes_on [OF run clear])
  show "stop_stays l" using duty by (simp add: on_duty_def stop_stays_def)
  fix s1 items1 warns
  assume sp1: "spawnOnce sp tini l s = (s1, items1)" and items: "items = items1 @ warns @ snd (applyBackoff sp (cl_random l) s1)"
    and stop: "\<not> cl_stopSpawn l" "\<not> cl_stopExit l"
  note after = spawned [OF clear stop sp1]
  have n: "sv_crashes s1 = streak sp (ls @ [l])" using after(1) crash by (simp add: streak_snoc count)
  have "0 \<le> streak sp ls" by (simp add: streak_def run_of_nonneg)
  then have "max (streak sp (ls @ [l]) - 1) 0 = streak sp (ls @ [l]) - 1" using crash by (simp add: streak_snoc)
  then show ?thesis using crash_pause [of s1 sp "cl_random l"] after(5) [OF crash] nofloor backoff_range [OF random, of "streak sp (ls @ [l]) - 1"]
    by (intro exI [of _ "calculateBackoffMs (cl_random l) (streak sp (ls @ [l]) - 1)"]) (simp add: items n)
qed

section \<open>Instances\<close>

definition demo_life :: "int option \<Rightarrow> int \<Rightarrow> child_life" where
  "demo_life code now =
     \<lparr>cl_run = RanTo 0 code None, cl_start = now - 1000, cl_end = now, cl_stamp = now, cl_restart = False, cl_hook = True,
      cl_stopHead = False, cl_stopHook = False, cl_stopSpawn = False, cl_stopExit = False, cl_stopAfter = False, cl_random = 1 / 2\<rparr>"

definition demo_sup :: sup_opts where
  "demo_sup =
     \<lparr>so_maxCrashes = 1, so_hardStop = Some 2, so_stableReset = None, so_cleanBudget = Some 1, so_cleanWindow = None,
      so_cleanBackoff = None, so_watchdogBudget = None, so_watchdogWindow = None, so_watchdogBackoff = None, so_backoffFloor = None\<rparr>"

lemmas demo_sup_defs = demo_life_def demo_sup_def on_duty_def counted_def stable_def stableRunResetMs_def or_default_def
  WORKER_EXIT_RSS_WATCHDOG_def hard_stop_def

theorem gives_up_exactly_on_a_streak_witness:
  "\<exists>s items n m. sup_run demo_sup False False [demo_life (Some 1) 2000, demo_life (Some 0) 4000, demo_life None 6000] sup_init =
     (s, items, GaveUp n m)" (is "\<exists>s items n m. sup_run _ _ _ ?ls _ = _")
proof -
  have "list_all on_duty ?ls" by (simp add: demo_sup_defs)
  moreover have "hard_stop demo_sup > 0 \<and> streak demo_sup (take (Suc 2) ?ls) \<ge> hard_stop demo_sup"
    by (simp add: demo_sup_defs streak_def)
  moreover have "2 < length ?ls" by simp
  ultimately show ?thesis using gives_up_exactly_on_a_streak [of ?ls demo_sup False] by blast
qed

theorem immediate_restarts_bounded_witness:
  "length (filter (quick_in 60000 4500) (sup_turns demo_sup False False
     [demo_life (Some 0) 2000, demo_life (Some 0) 3000, demo_life (Some 0) 4000] sup_init)) \<le> 1"
  using immediate_restarts_bounded [of "[demo_life (Some 0) 2000, demo_life (Some 0) 3000, demo_life (Some 0) 4000]" demo_sup 4500 False]
  by (simp add: demo_sup_defs stop_stays_def cleanRestartWindowMs_def cleanRestartBudget_def)

theorem crash_backoff_follows_streak_witness:
  "\<exists>s' items d' pause_ms. sup_turn demo_sup False False (demo_life (Some 1) 2000) sup_init = (s', items, Inr d') \<and>
     Sleep pause_ms \<in> set items \<and> 1000 \<le> pause_ms \<and> pause_ms < 1100"
proof -
  let ?l = "demo_life (Some 1) 2000"
  obtain s' items d' where t: "sup_turn demo_sup False False ?l sup_init = (s', items, Inr d')"
    using duty_turn [of sup_init ?l demo_sup "[]" False False] by (auto simp: demo_sup_defs sup_init_def flags_clear_def streak_def)
  have "flags_clear sup_init" "on_duty ?l" "counted ?l" "sv_crashes sup_init = streak demo_sup []" "so_backoffFloor demo_sup = None"
    "0 \<le> cl_random ?l" "cl_random ?l < 1"
    by (simp_all add: demo_sup_defs sup_init_def flags_clear_def streak_def)
  from crash_backoff_follows_streak [OF t this] t show ?thesis by (simp add: streak_def demo_sup_defs)
qed

end
