(* ===== verification/SuperviseLock.thy ===== *)
theory SuperviseLock
  imports DbLockProps SuperviseProps
begin

text \<open>
  The supervisor around the respawn loop (\<open>src/core/minions/supervisor.ts\<close>): how it becomes the only one
  for its queue (the pidfile and the database lock), how it keeps or leaves that lock, how it watches a worker
  that is alive and does nothing and restarts it, how it reports the state of the queue to a submitter, and
  in which order it shuts down. Health checks and refreshes are functions of what they observe; the
  timers are the lists of their ticks.
\<close>

section \<open>Who supervises a queue\<close>

definition SUPERVISOR_LOCK_TTL_MIN :: int where "SUPERVISOR_LOCK_TTL_MIN = 5"

definition SUPERVISOR_LOCK_REFRESH_MS :: int where "SUPERVISOR_LOCK_REFRESH_MS = 60000"

definition SUPERVISOR_LOCK_REFRESH_MAX_FAILURES :: int where "SUPERVISOR_LOCK_REFRESH_MAX_FAILURES = 3"

definition supervisorLockId :: "string \<Rightarrow> string" where
  "supervisorLockId queue = ''gbrain-supervisor:'' @ queue"

datatype singleton_state = NoLock | SingleSupervisor | Mismatch

definition classifySupervisorSingleton ::
  "bool \<Rightarrow> string option \<Rightarrow> int option \<Rightarrow> string \<Rightarrow> int option \<Rightarrow> singleton_state" where
  "classifySupervisorSingleton lockLive lockHost lockPid localHost localPid =
     (if \<not> lockLive \<or> lockHost = None \<or> lockPid = None then NoLock
      else if localPid = None then Mismatch
      else if lockHost = Some localHost \<and> lockPid = localPid then SingleSupervisor else Mismatch)"

subsection \<open>The pidfile\<close>

text \<open>The file is absent or has a content; \<open>openSync(.., 'wx')\<close> creates it only when absent. Another process is
  seen to create it and to write its pid in two steps; the own create and write are one. \<open>parsed_pid\<close> is \<open>parseInt\<close> of its first line.\<close>

type_synonym pid_file = "string option"

datatype pid_event = PidCreate | PidWrite int | PidUnlink

fun run_pid :: "pid_event \<Rightarrow> pid_file \<Rightarrow> pid_file" where
  "run_pid PidCreate f = (case f of None \<Rightarrow> Some [] | Some c \<Rightarrow> Some c)"
| "run_pid (PidWrite pid) f = (case f of None \<Rightarrow> None | Some c \<Rightarrow> Some (int_str pid))"
| "run_pid PidUnlink f = None"

definition run_pids :: "pid_event list \<Rightarrow> pid_file \<Rightarrow> pid_file" where
  "run_pids es f = fold run_pid es f"

definition parsed_pid :: "string \<Rightarrow> int option" where
  "parsed_pid c = js_parse_int (takeWhile (\<lambda>x. x \<noteq> CHR 0x0A) (js_trim c))"

datatype pid_lock = PidAcquired | PidHeld | PidUnwritable

text \<open>What one attempt meets: whether each open can write the path at all, whether the read and the unlink
  succeed, and what other processes do before the read, before the unlink and before the second open.\<close>

record pid_world =
  pi_writable :: bool
  pi_mid1 :: "pid_event list"
  pi_read :: bool
  pi_mid2 :: "pid_event list"
  pi_unlink :: bool
  pi_mid3 :: "pid_event list"
  pi_writable2 :: bool

definition tryAtomicCreate :: "(int \<Rightarrow> bool) \<Rightarrow> pid_world \<Rightarrow> int \<Rightarrow> pid_file \<Rightarrow> pid_file \<times> pid_lock" where
  "tryAtomicCreate alive w pid f =
     (if f = None then (if pi_writable w then (Some (int_str pid), PidAcquired) else (f, PidUnwritable))
      else let f1 = run_pids (pi_mid1 w) f;
               owner = (if pi_read w then (case f1 of None \<Rightarrow> Some (- 1) | Some c \<Rightarrow> parsed_pid c) else Some (- 1))
           in if (case owner of None \<Rightarrow> False | Some n \<Rightarrow> n > 0 \<and> alive n) then (f1, PidHeld)
              else let f2 = run_pids (pi_mid2 w) f1;
                       f3 = (if pi_unlink w then None else f2);
                       f4 = run_pids (pi_mid3 w) f3
                   in if f4 = None
                      then (if pi_writable2 w then (Some (int_str pid), PidAcquired) else (f4, PidUnwritable))
                      else (f4, PidHeld))"

definition acquirePidLock :: "bool \<Rightarrow> (int \<Rightarrow> bool) \<Rightarrow> pid_world \<Rightarrow> int \<Rightarrow> pid_file \<Rightarrow> pid_file \<times> pid_lock" where
  "acquirePidLock mkdirOk alive w pid f = (if mkdirOk then tryAtomicCreate alive w pid f else (f, PidUnwritable))"

text \<open>The exit listener removes the file only when it still names this process.\<close>

definition exit_unlink :: "int \<Rightarrow> pid_file \<Rightarrow> pid_file" where
  "exit_unlink pid f =
     (case f of None \<Rightarrow> None
      | Some c \<Rightarrow> if takeWhile (\<lambda>x. x \<noteq> CHR 0x0A) (js_trim c) = int_str pid then None else f)"

subsection \<open>The database lock\<close>

text \<open>\<open>start()\<close>: try once; when refused, wait only if a wait is allowed and the row names another host.\<close>

definition supervisor_acquire ::
  "string option \<Rightarrow> string option \<Rightarrow> lock_proc \<Rightarrow> string \<Rightarrow> takeover_world \<Rightarrow> bool \<Rightarrow> lock_event list \<Rightarrow> int \<Rightarrow> int \<Rightarrow> bool \<Rightarrow>
     poll_world list \<Rightarrow> lock_table \<Rightarrow> lock_table \<times> (lock_error + lock_handle option) option" where
  "supervisor_acquire graceEnv waitEnv p queue w looked mid nowMs start looked2 polls t =
     (case tryAcquireDbLock graceEnv w p (supervisorLockId queue) SUPERVISOR_LOCK_TTL_MIN t of
        (t1, Inl e) \<Rightarrow> (t1, Some (Inl e))
      | (t1, Inr (Some h)) \<Rightarrow> (t1, Some (Inr (Some h)))
      | (t1, Inr None) \<Rightarrow>
          (let secs = resolveSupervisorLockWaitSeconds waitEnv;
               t2 = run_events mid t1;
               crossHost = (secs \<noteq> 0 \<and> looked \<and>
                 (case inspectLock (supervisorLockId queue) nowMs t2 of None \<Rightarrow> False | Some s \<Rightarrow> sn_host s \<noteq> lp_host p))
           in if crossHost
              then waitForDbLockTakeover graceEnv p (supervisorLockId queue) SUPERVISOR_LOCK_TTL_MIN
                     \<lparr>wo_pollMs = None, wo_maxWaitMs = (if secs > 0 then Some (secs * 1000) else None)\<rparr>
                     start looked2 nowMs polls t2
              else (t2, Some (Inr None))))"

text \<open>\<open>refreshDbLock\<close>: the answer of the refresh is \<open>None\<close> when it throws; the result is the new count of failures,
  or that the supervisor leaves.\<close>

datatype refresh_verdict = KeepLock int | LeaveLock

definition refreshDbLock :: "bool option \<Rightarrow> int \<Rightarrow> refresh_verdict" where
  "refreshDbLock answer failures =
     (case answer of
        Some True \<Rightarrow> KeepLock 0
      | Some False \<Rightarrow> LeaveLock
      | None \<Rightarrow> if failures + 1 \<ge> SUPERVISOR_LOCK_REFRESH_MAX_FAILURES then LeaveLock else KeepLock (failures + 1))"

text \<open>The refreshes of a supervisor, each with the other sessions before it: the table, and the number of ticks it
  stayed for if it left.\<close>

fun refresh_loop :: "lock_handle \<Rightarrow> int \<Rightarrow> tick_world list \<Rightarrow> lock_table \<Rightarrow> lock_table \<times> nat option" where
  "refresh_loop h failures [] t = (t, None)"
| "refresh_loop h failures (k # ks) t =
     (case run_stmt (kw_fate k) (refresh_lock h (kw_now k)) (run_events (kw_before k) t) of
        (t1, answer) \<Rightarrow>
          (case refreshDbLock answer failures of
             LeaveLock \<Rightarrow> (t1, Some 1)
           | KeepLock n \<Rightarrow> (case refresh_loop h n ks t1 of (t2, left) \<Rightarrow> (t2, map_option Suc left))))"

section \<open>The wedge watchdog\<close>

record wedge_signals =
  sg_stalled :: int
  sg_activeHealthy :: int
  sg_waiting :: int
  sg_waitingClaimable :: int
  sg_lastCompleted :: "int option"
  sg_lastCompletedClaimable :: "int option"

definition count_where :: "('a \<Rightarrow> bool) \<Rightarrow> 'a list \<Rightarrow> int" where
  "count_where P rows = int (length (filter P rows))"

definition latest :: "int list \<Rightarrow> int option" where
  "latest ts = (if ts = [] then None else Some (Max (set ts)))"

definition claimable_waiting :: "int \<Rightarrow> string list \<Rightarrow> minion_job \<Rightarrow> bool" where
  "claimable_waiting now names r =
     ((j_status r = Waiting \<or> j_status r = Delayed \<and> sql_le (j_delay_until r) now) \<and> j_name r \<in> set names)"

definition queryWedgeSignals :: "int \<Rightarrow> string \<Rightarrow> string list \<Rightarrow> minion_job list \<Rightarrow> wedge_signals" where
  "queryWedgeSignals now queue names rows =
     (let q = filter (\<lambda>r. j_queue r = queue) rows
      in \<lparr>sg_stalled = count_where (\<lambda>r. j_status r = Active \<and> sql_lt (j_lock_until r) now) q,
          sg_activeHealthy = count_where (\<lambda>r. j_status r = Active \<and> sql_gt (j_lock_until r) now) q,
          sg_waiting = count_where (\<lambda>r. j_status r = Waiting) q,
          sg_waitingClaimable = count_where (claimable_waiting now names) q,
          sg_lastCompleted = map_option date_ms (latest (map j_updated_at (filter (\<lambda>r. j_status r = Completed) q))),
          sg_lastCompletedClaimable =
            map_option date_ms (latest (map j_updated_at (filter (\<lambda>r. j_status r = Completed \<and> j_name r \<in> set names) q)))\<rparr>)"

record wedge_opts =
  wg_minutes :: int
  wg_checks :: int
  wg_budget :: int
  wg_window :: int
  wg_grace :: int

record wedge_state =
  ws_checks :: int
  ws_stamps :: "int list"
  ws_alerted :: bool
  ws_started :: "int option"
  ws_failures :: int

definition wedge_init :: wedge_state where
  "wedge_init = \<lparr>ws_checks = 0, ws_stamps = [], ws_alerted = False, ws_started = None, ws_failures = 0\<rparr>"

text \<open>One health check observes the signals (or the query threw), the clock, the child and the stop flag, the clock
  again in the escalation, and whether a reconnect succeeds.\<close>

record health_read =
  hr_signals :: "wedge_signals option"
  hr_now :: int
  hr_supervised :: bool
  hr_alive :: bool
  hr_inBackoff :: bool
  hr_stopping :: bool
  hr_now2 :: int
  hr_reconnect :: bool

datatype health_out =
    StalledJobs int
  | NoRecentCompletions int int
  | WorkerNotAlive
  | RestartWedged int
  | WedgeRestartLoop int
  | HealthError
  | DbDegraded int
  | DbReconnected
  | ReconnectFailed

text \<open>\<open>Math.round((now - t) / 60000)\<close>.\<close>

definition minutes_since :: "int \<Rightarrow> int option \<Rightarrow> int option" where
  "minutes_since now t = map_option (\<lambda>x. (now - x + 30000) div 60000) t"

definition wedged :: "wedge_opts \<Rightarrow> int option \<Rightarrow> health_read \<Rightarrow> wedge_signals \<Rightarrow> bool" where
  "wedged wo started r sg =
     (let age = (case started of None \<Rightarrow> 0 | Some c \<Rightarrow> hr_now r - c)
      in wg_minutes wo > 0 \<and> sg_waitingClaimable sg > 0 \<and> sg_activeHealthy sg = 0 \<and>
         (case minutes_since (hr_now r) (sg_lastCompletedClaimable sg) of None \<Rightarrow> True | Some m \<Rightarrow> m > wg_minutes wo) \<and>
         (hr_supervised r \<and> hr_alive r) \<and> \<not> (hr_supervised r \<and> hr_inBackoff r) \<and> \<not> hr_stopping r \<and>
         age > wg_grace wo)"

text \<open>\<open>escalateWedgedWorker\<close>; the restart itself is awaited before the next check.\<close>

definition escalateWedgedWorker :: "wedge_opts \<Rightarrow> health_read \<Rightarrow> wedge_state \<Rightarrow> wedge_state \<times> health_out list" where
  "escalateWedgedWorker wo r s =
     (if \<not> hr_supervised r then (s, [])
      else let ts = filter (\<lambda>t. t > hr_now2 r - wg_window wo) (ws_stamps s)
           in if int (length ts) \<ge> wg_budget wo
              then (s\<lparr>ws_stamps := ts, ws_alerted := True, ws_checks := 0\<rparr>,
                    if ws_alerted s then [] else [WedgeRestartLoop (int (length ts))])
              else (s\<lparr>ws_stamps := ts @ [hr_now2 r], ws_alerted := False, ws_checks := 0\<rparr>, [RestartWedged (hr_now2 r)]))"

definition health_warnings :: "health_read \<Rightarrow> wedge_signals \<Rightarrow> health_out list" where
  "health_warnings r sg =
     (if sg_stalled sg > 10 then [StalledJobs (sg_stalled sg)] else []) @
     (case minutes_since (hr_now r) (sg_lastCompleted sg) of
        None \<Rightarrow> [] | Some m \<Rightarrow> if sg_waiting sg > 0 \<and> m > 30 then [NoRecentCompletions (sg_waiting sg) m] else []) @
     (if \<not> (hr_supervised r \<and> hr_alive r) \<and> \<not> hr_stopping r \<and> \<not> (hr_supervised r \<and> hr_inBackoff r) then [WorkerNotAlive] else [])"

definition healthCheck :: "wedge_opts \<Rightarrow> health_read \<Rightarrow> wedge_state \<Rightarrow> wedge_state \<times> health_out list" where
  "healthCheck wo r s0 =
     (case hr_signals r of
        None \<Rightarrow>
          (let n = ws_failures s0 + 1; s = s0\<lparr>ws_failures := n\<rparr>
           in if n \<ge> 3
              then (if hr_reconnect r then (s\<lparr>ws_failures := 0\<rparr>, [DbDegraded n, DbReconnected])
                    else (s, [DbDegraded n, ReconnectFailed]))
              else (s, [HealthError]))
      | Some sg \<Rightarrow>
          (let s = s0\<lparr>ws_failures := 0\<rparr>
           in if wedged wo (ws_started s) r sg
              then (let s1 = s\<lparr>ws_checks := ws_checks s + 1\<rparr>
                    in if ws_checks s1 \<ge> wg_checks wo
                       then (case escalateWedgedWorker wo r s1 of (s2, out) \<Rightarrow> (s2, health_warnings r sg @ out))
                       else (s1, health_warnings r sg))
              else (s\<lparr>ws_checks := 0\<rparr>, health_warnings r sg)))"

text \<open>Spawning a child anchors the grace and resets the count (\<open>relayChildEvent\<close>).\<close>

datatype sup_event = HealthCheck health_read | ChildSpawned int

fun sup_step :: "wedge_opts \<Rightarrow> sup_event \<Rightarrow> wedge_state \<Rightarrow> wedge_state \<times> health_out list" where
  "sup_step wo (HealthCheck r) s = healthCheck wo r s"
| "sup_step wo (ChildSpawned now) s = (s\<lparr>ws_started := Some now, ws_checks := 0\<rparr>, [])"

section \<open>Telling a submitter\<close>

text \<open>The parts of the warning, which the code joins as text.\<close>

datatype submit_warning = SystemPaused | NoLiveWorker string | DepthExceeds int rat

record submit_state =
  ss_depth :: int
  ss_oldest :: "int option"
  ss_alive :: bool
  ss_paused :: bool
  ss_warnings :: "submit_warning list"

text \<open>What \<open>probeQueueStateInner\<close> reads beside the job rows: the lock (or its read throws), the queues of the
  registered workers (likewise), the pause marker and the threshold. Ages are whole seconds, rounded as the
  cast to \<open>int\<close> does.\<close>

definition oldest_waiting_seconds :: "int \<Rightarrow> string \<Rightarrow> minion_job list \<Rightarrow> int option" where
  "oldest_waiting_seconds now queue rows =
     (let ts = map j_created_at (filter (\<lambda>r. j_queue r = queue \<and> j_status r = Waiting) rows)
      in if ts = [] then None else Some (js_round (of_int (now - Min (set ts)) / 1000000)))"

definition resolveEnvNumber :: "string option \<Rightarrow> rat \<Rightarrow> rat" where
  "resolveEnvNumber raw fallback =
     (case raw of None \<Rightarrow> fallback
      | Some v \<Rightarrow> if v = [] then fallback
          else (case js_Number v of Finite n \<Rightarrow> if n \<le> 0 then fallback else n | _ \<Rightarrow> fallback))"

definition probeQueueStateInner ::
  "string option \<Rightarrow> string option \<Rightarrow> int \<Rightarrow> int \<Rightarrow> string \<Rightarrow> string list \<Rightarrow> bool \<Rightarrow> string list option \<Rightarrow> bool \<Rightarrow>
     minion_job list \<Rightarrow> lock_table \<Rightarrow> submit_state" where
  "probeQueueStateInner graceEnv thresholdEnv now nowMs queue names lockReadable workers paused rows t =
     (let sg = queryWedgeSignals now queue names rows;
          supervisorLive = (lockReadable \<and>
            (case inspectLock (supervisorLockId queue) nowMs t of None \<Rightarrow> False
             | Some s \<Rightarrow> isLockHolderLive graceEnv s SUPERVISOR_LOCK_TTL_MIN));
          registered = (case workers of None \<Rightarrow> False | Some qs \<Rightarrow> queue \<in> set qs);
          workerAlive = (supervisorLive \<or> registered \<or> sg_activeHealthy sg > 0);
          threshold = resolveEnvNumber thresholdEnv 10
      in \<lparr>ss_depth = sg_waiting sg, ss_oldest = oldest_waiting_seconds now queue rows, ss_alive = workerAlive, ss_paused = paused,
          ss_warnings =
            (if paused then [SystemPaused] else []) @
            (if \<not> workerAlive then [NoLiveWorker queue] else []) @
            (if of_int (sg_waiting sg) > threshold then [DepthExceeds (sg_waiting sg) threshold] else [])\<rparr>)"

text \<open>\<open>None\<close> is \<open>probe_failed\<close>: a statement threw or the probe overran its time.\<close>

definition probeQueueState :: "bool \<Rightarrow> submit_state \<Rightarrow> submit_state option" where
  "probeQueueState answered state = (if answered then Some state else None)"

section \<open>Shutting down\<close>

text \<open>The effects of \<open>shutdown\<close> on the lock table and on the child, in the order of the code.\<close>

datatype shutdown_effect = ReleaseLock | SendTerm | AwaitChild | SendKill

definition shutdown_effects :: "shutdown_effect list" where
  "shutdown_effects = [ReleaseLock, SendTerm, AwaitChild, SendKill]"

text \<open>\<open>drains\<close>: the child ends within the 35 s it is given; a kill ends it anyway.\<close>

fun run_effect :: "lock_handle option \<Rightarrow> bool \<Rightarrow> shutdown_effect \<Rightarrow> lock_table \<times> bool \<Rightarrow> lock_table \<times> bool" where
  "run_effect h drains ReleaseLock (t, child) = ((case h of None \<Rightarrow> t | Some k \<Rightarrow> release_lock k t), child)"
| "run_effect h drains SendTerm (t, child) = (t, child)"
| "run_effect h drains AwaitChild (t, child) = (t, child \<and> \<not> drains)"
| "run_effect h drains SendKill (t, child) = (t, False)"

definition shutdown_trace :: "lock_handle option \<Rightarrow> bool \<Rightarrow> lock_table \<times> bool \<Rightarrow> (lock_table \<times> bool) list" where
  "shutdown_trace h drains s = map (\<lambda>k. fold (run_effect h drains) (take k shutdown_effects) s) [0..<Suc (length shutdown_effects)]"

end
