(* ===== verification/SuperviseLockProps.thy ===== *)
theory SuperviseLockProps
  imports SuperviseLock
begin

text \<open>
  What the supervisor promises: it restarts a worker only after as many health checks in a row as configured
  found it stuck, and within its budget; it keeps its queue's lock until three refreshes in a row stay
  unanswered, and leaves while the lock is still its own. Two runs show where the promise of a single
  supervisor is weaker than its comments: the pidfile admits two, and the shutdown frees the lock while its
  worker still runs.
\<close>

section \<open>A budget of passes per window\<close>

text \<open>A limiter that logs the time of its passes: for every window that ends no earlier than the step, a step keeps the
  log's entries in the window, a pass adds its own, and a pass leaves no more entries than the budget.\<close>

definition since_count :: "int \<Rightarrow> int \<Rightarrow> int list \<Rightarrow> int" where
  "since_count w t ts = int (length (filter (\<lambda>x. t - w < x) ts))"

locale window_budget =
  fixes step :: "'i \<Rightarrow> 's \<Rightarrow> 's" and passes :: "'i \<Rightarrow> 's \<Rightarrow> bool" and stamp :: "'i \<Rightarrow> int"
    and logged :: "'s \<Rightarrow> int list" and w :: int and budget :: int
  assumes logs: "stamp i \<le> t \<Longrightarrow>
      since_count w t (logged s) + (if passes i s \<and> t - w < stamp i then 1 else 0) \<le> since_count w t (logged (step i s))"
    and limited: "passes i s \<Longrightarrow> int (length (logged (step i s))) \<le> budget"
begin

fun passing :: "'i list \<Rightarrow> 's \<Rightarrow> 'i list" where
  "passing [] s = []"
| "passing (i # is) s = (if passes i s then [i] else []) @ passing is (step i s)"

lemma passing_sub: "set (passing is s) \<subseteq> set is"
  by (induction "is" arbitrary: s) (simp, auto split: if_splits)

lemma passes_in_window:
  "sorted (map stamp is) \<Longrightarrow>
     filter (\<lambda>i. t - w < stamp i \<and> stamp i \<le> t) (passing is s) = [] \<or>
     since_count w t (logged s) + int (length (filter (\<lambda>i. t - w < stamp i \<and> stamp i \<le> t) (passing is s))) \<le> budget"
proof (induction "is" arbitrary: s)
  case (Cons i "is")
  let ?P = "\<lambda>i. t - w < stamp i \<and> stamp i \<le> t" and ?rest = "passing is (step i s)"
  have IH: "filter ?P ?rest = [] \<or> since_count w t (logged (step i s)) + int (length (filter ?P ?rest)) \<le> budget"
    using Cons.prems by (intro Cons.IH) simp
  show ?case
  proof (cases "stamp i \<le> t")
    case True
    have "since_count w t (logged (step i s)) \<le> int (length (logged (step i s)))" by (simp add: since_count_def)
    then show ?thesis using IH logs [OF True, of s] limited [of i s] by (cases "passes i s"; cases "t - w < stamp i") auto
  next
    case False
    have "\<not> ?P j" if "j \<in> set (passing (i # is) s)" for j
    proof -
      have "j \<in> set (i # is)" using that passing_sub [of "i # is" s] by blast
      then have "stamp i \<le> stamp j" using Cons.prems by auto
      with False show ?thesis by simp
    qed
    then have "filter ?P (passing (i # is) s) = []" unfolding filter_empty_conv by blast
    then show ?thesis by (rule disjI1)
  qed
qed simp

lemma passes_bounded:
  assumes "sorted (map stamp is)" and "0 \<le> budget"
  shows "int (length (filter (\<lambda>i. t - w < stamp i \<and> stamp i \<le> t) (passing is s))) \<le> budget"
proof -
  have "0 \<le> since_count w t (logged s)" by (simp add: since_count_def)
  with passes_in_window [OF assms(1), of t s] assms(2) show ?thesis by (elim disjE) simp_all
qed

end

section \<open>Restarts of a wedged worker\<close>

definition restarts :: "wedge_opts \<Rightarrow> sup_event \<Rightarrow> wedge_state \<Rightarrow> bool" where
  "restarts wo e s = list_ex (\<lambda>x. case x of RestartWedged t \<Rightarrow> True | _ \<Rightarrow> False) (snd (sup_step wo e s))"

definition wedge_next :: "wedge_opts \<Rightarrow> sup_event \<Rightarrow> wedge_state \<Rightarrow> wedge_state" where
  "wedge_next wo e s = fst (sup_step wo e s)"

text \<open>The clock of an event: a health check decides on its second reading.\<close>

fun event_time :: "sup_event \<Rightarrow> int" where
  "event_time (HealthCheck r) = hr_now2 r"
| "event_time (ChildSpawned now) = now"

lemma warnings_no_restart: "list_ex (\<lambda>x. case x of RestartWedged t \<Rightarrow> True | _ \<Rightarrow> False) (health_warnings r sg) = False"
  by (auto simp: health_warnings_def list_ex_iff split: option.splits if_splits)

text \<open>A step that restarts the worker logs its time on the pruned log, which had room; any other keeps or prunes
  the log.\<close>

lemma step_log:
  "(restarts wo e s \<and> ws_stamps (wedge_next wo e s) = filter (\<lambda>t. t > event_time e - wg_window wo) (ws_stamps s) @ [event_time e] \<and>
      int (length (filter (\<lambda>t. t > event_time e - wg_window wo) (ws_stamps s))) < wg_budget wo) \<or>
   (\<not> restarts wo e s \<and> ws_stamps (wedge_next wo e s) \<in> {ws_stamps s, filter (\<lambda>t. t > event_time e - wg_window wo) (ws_stamps s)})"
proof (cases e)
  case (HealthCheck r)
  then show ?thesis
    by (cases "hr_signals r")
      (auto simp: restarts_def wedge_next_def healthCheck_def escalateWedgedWorker_def Let_def warnings_no_restart)
qed (simp add: restarts_def wedge_next_def)

lemma since_prune: "x \<le> t \<Longrightarrow> since_count w t (filter (\<lambda>y. y > x - w) ts) = since_count w t ts"
  by (auto simp: since_count_def intro!: arg_cong [where f = length] filter_cong)

lemma since_snoc: "since_count w t (ts @ [x]) = since_count w t ts + (if t - w < x then 1 else 0)"
  by (simp add: since_count_def)

interpretation wedge: window_budget "wedge_next wo" "restarts wo" event_time ws_stamps "wg_window wo" "wg_budget wo" for wo
proof
  fix e t s
  assume "event_time e \<le> t"
  then show "since_count (wg_window wo) t (ws_stamps s) + (if restarts wo e s \<and> t - wg_window wo < event_time e then 1 else 0)
      \<le> since_count (wg_window wo) t (ws_stamps (wedge_next wo e s))"
    using step_log [of wo e s] since_prune [of "event_time e" t "wg_window wo" "ws_stamps s"] by (auto simp: since_snoc)
next
  fix e s
  assume "restarts wo e s"
  then show "int (length (ws_stamps (wedge_next wo e s))) \<le> wg_budget wo" using step_log [of wo e s] by auto
qed

text \<open>The events of a history at which the supervisor restarts its worker.\<close>

fun restart_events :: "wedge_opts \<Rightarrow> sup_event list \<Rightarrow> wedge_state \<Rightarrow> sup_event list" where
  "restart_events wo [] s = []"
| "restart_events wo (e # es) s = (if restarts wo e s then [e] else []) @ restart_events wo es (fst (sup_step wo e s))"

lemma restart_events_passing: "restart_events wo es s = wedge.passing wo es s"
  by (induction es arbitrary: s) (simp_all add: wedge_next_def)

text \<open>However long a worker stays stuck, the supervisor restarts it at most \<open>wedgeRestartLoopBudget\<close> times in any
  window of \<open>wedgeRestartLoopWindowMs\<close>; after that it only warns.\<close>

theorem wedge_restarts_bounded:
  assumes "sorted (map event_time es)" and "0 \<le> wg_budget wo"
  shows "int (length (filter (\<lambda>e. t - wg_window wo < event_time e \<and> event_time e \<le> t) (restart_events wo es wedge_init))) \<le> wg_budget wo"
  unfolding restart_events_passing by (rule wedge.passes_bounded [OF assms])

subsection \<open>The cause of a restart\<close>

text \<open>A failed query leaves the count of wedged checks alone; every other event is decisive.\<close>

fun decisive :: "sup_event \<Rightarrow> bool" where
  "decisive (HealthCheck r) = (hr_signals r \<noteq> None)"
| "decisive (ChildSpawned now) = True"

definition wedged_event :: "wedge_opts \<Rightarrow> int option \<Rightarrow> sup_event \<Rightarrow> bool" where
  "wedged_event wo started e = (\<exists>r sg. e = HealthCheck r \<and> hr_signals r = Some sg \<and> wedged wo started r sg)"

definition wedge_run :: "wedge_opts \<Rightarrow> sup_event list \<Rightarrow> wedge_state" where
  "wedge_run wo es = fold (\<lambda>e s. fst (sup_step wo e s)) es wedge_init"

fun last_spawn :: "sup_event list \<Rightarrow> int option" where
  "last_spawn [] = None"
| "last_spawn (e # es) =
     (case last_spawn es of Some c \<Rightarrow> Some c | None \<Rightarrow> (case e of ChildSpawned now \<Rightarrow> Some now | _ \<Rightarrow> None))"

lemma last_spawn_snoc:
  "last_spawn (es @ [e]) = (case e of ChildSpawned now \<Rightarrow> Some now | _ \<Rightarrow> last_spawn es)"
  by (induction es) (auto split: sup_event.splits option.splits)

lemma check_effect:
  "ws_started (fst (healthCheck wo r s)) = ws_started s"
  "hr_signals r = None \<Longrightarrow> ws_checks (fst (healthCheck wo r s)) = ws_checks s"
  "hr_signals r = Some sg \<Longrightarrow> \<not> wedged wo (ws_started s) r sg \<Longrightarrow> ws_checks (fst (healthCheck wo r s)) = 0"
  "hr_signals r = Some sg \<Longrightarrow> ws_checks (fst (healthCheck wo r s)) \<in> {0, ws_checks s + 1}"
  by (auto simp: healthCheck_def escalateWedgedWorker_def Let_def wedged_def split: option.split)

lemma restart_checks:
  assumes "restarts wo e s"
  shows "wedged_event wo (ws_started s) e \<and> wg_checks wo \<le> ws_checks s + 1"
proof (cases e)
  case (HealthCheck r)
  with assms show ?thesis
    by (cases "hr_signals r") (auto simp: restarts_def healthCheck_def Let_def warnings_no_restart wedged_event_def split: if_splits)
qed (use assms in \<open>simp add: restarts_def\<close>)

text \<open>The count is a number of last decisive events, all of them wedged checks of the current child.\<close>

lemma wedge_count:
  "ws_started (wedge_run wo es) = last_spawn es \<and> 0 \<le> ws_checks (wedge_run wo es) \<and>
   nat (ws_checks (wedge_run wo es)) \<le> length (filter decisive es) \<and>
   list_all (wedged_event wo (last_spawn es)) (take (nat (ws_checks (wedge_run wo es))) (rev (filter decisive es)))"
proof (induction es rule: rev_induct)
  case (snoc e es)
  let ?s = "wedge_run wo es"
  have run: "wedge_run wo (es @ [e]) = fst (sup_step wo e ?s)" by (simp add: wedge_run_def)
  show ?case
  proof (cases e)
    case (ChildSpawned now)
    then show ?thesis by (simp add: run [unfolded ChildSpawned] last_spawn_snoc)
  next
    case (HealthCheck r)
    note eff = check_effect [where wo = wo and r = r and s = ?s]
    show ?thesis
    proof (cases "hr_signals r")
      case None
      then show ?thesis using snoc.IH eff HealthCheck by (simp add: run [unfolded HealthCheck] last_spawn_snoc)
    next
      case (Some sg)
      show ?thesis
      proof (cases "ws_checks (fst (healthCheck wo r ?s)) = 0")
        case True
        then show ?thesis using snoc.IH eff(1) HealthCheck by (simp add: run [unfolded HealthCheck] last_spawn_snoc)
      next
        case False
        then have w: "wedged wo (ws_started ?s) r sg" "ws_checks (fst (healthCheck wo r ?s)) = ws_checks ?s + 1"
          using eff(3,4) Some by auto
        have "nat (ws_checks ?s + 1) = Suc (nat (ws_checks ?s))" using conjunct1 [OF conjunct2 [OF snoc.IH]] by (simp add: nat_add_distrib)
        then show ?thesis using snoc.IH eff(1) HealthCheck Some w by (simp add: run [unfolded HealthCheck] last_spawn_snoc wedged_event_def)
      qed
    qed
  qed
qed (simp add: wedge_run_def wedge_init_def)

text \<open>The supervisor restarts a worker only with cause: the last \<open>wedgeRestartChecks\<close> checks that got an answer (at
  least one) all found the current child alive and past its grace, with work it could claim, no job under a live
  lock, and no completion for longer than the limit; no child was spawned in between.\<close>

theorem restart_needs_a_wedge:
  assumes "restarts wo e (wedge_run wo es)"
  shows "nat (max 1 (wg_checks wo)) \<le> length (filter decisive (es @ [e])) \<and>
    list_all (wedged_event wo (last_spawn es)) (take (nat (max 1 (wg_checks wo))) (rev (filter decisive (es @ [e]))))"
proof -
  let ?n = "nat (ws_checks (wedge_run wo es))"
  note count = wedge_count [of wo es]
  have e: "wedged_event wo (last_spawn es) e" "wg_checks wo \<le> ws_checks (wedge_run wo es) + 1"
    using restart_checks [OF assms] count by simp_all
  then have dec: "decisive e" by (auto simp: wedged_event_def)
  obtain k where k: "nat (max 1 (wg_checks wo)) = Suc k" "k \<le> ?n" using e(2) by (cases "nat (max 1 (wg_checks wo))") auto
  have "list_all (wedged_event wo (last_spawn es)) (take k (rev (filter decisive es)))"
    using count k(2) set_take_subset_set_take [of k ?n "rev (filter decisive es)"] by (auto simp: list_all_iff)
  then show ?thesis using count e(1) dec k by simp
qed

text \<open>A job of the queue under a live lock vetoes: the signals read then are no wedge.\<close>

lemma live_job_is_no_wedge:
  assumes "j \<in> set rows" and "j_queue j = queue" and "j_status j = Active" and "sql_gt (j_lock_until j) now"
  shows "\<not> wedged wo started r (queryWedgeSignals now queue names rows)"
proof -
  have "j \<in> set (filter (\<lambda>r. j_status r = Active \<and> sql_gt (j_lock_until r) now) (filter (\<lambda>r. j_queue r = queue) rows))" using assms by simp
  then have "count_where (\<lambda>r. j_status r = Active \<and> sql_gt (j_lock_until r) now) (filter (\<lambda>r. j_queue r = queue) rows) \<noteq> 0"
    by (auto simp: count_where_def filter_empty_conv)
  then show ?thesis by (simp add: wedged_def queryWedgeSignals_def Let_def)
qed

section \<open>Keeping the queue's lock\<close>

text \<open>The other sessions before each refresh, and the refresh: until then the row of \<open>h\<close> is spared, nobody else
  refreshes under this handle, and time does not run backwards.\<close>

fun ticks_covered :: "lock_handle \<Rightarrow> int \<Rightarrow> tick_world list \<Rightarrow> bool" where
  "ticks_covered h since [] = True"
| "ticks_covered h since (k # ks) =
     (list_all (spares h since) (kw_before k) \<and> list_all (\<lambda>e. \<forall>now. e \<noteq> Refresh h now) (kw_before k) \<and>
      ticks_covered h (if kw_fate k = Never_ran then since else kw_now k) ks)"

lemma spared_covered:
  "list_all (spares h since) es \<Longrightarrow> list_all (\<lambda>e. \<forall>now. e \<noteq> Refresh h now) es \<Longrightarrow> holds_lock h since t \<Longrightarrow>
     holds_lock h since (run_events es t)"
proof (induction es arbitrary: t)
  case (Cons e es)
  have "refreshed_at h since e = since" using Cons.prems(2) by (cases e) auto
  with held_step [of h since t e] Cons.prems have "holds_lock h since (run_event e t)" by simp
  with Cons show ?case by simp
qed simp

lemma refresh_held: "holds_lock h since t \<Longrightarrow> holds_lock h now (fst (refresh_lock h now t)) \<and> snd (refresh_lock h now t)"
  using held_step [of h since t "Refresh h now"] by (auto simp: refresh_lock_def holds_lock_def list_ex_iff holds_since_def)

lemma tick_held:
  assumes "holds_lock h since t" and "ticks_covered h since (w # ks)"
  obtains t1 where "run_stmt (kw_fate w) (refresh_lock h (kw_now w)) (run_events (kw_before w) t) =
      (t1, if kw_fate w = Answered_stmt then Some True else None)"
    "holds_lock h (if kw_fate w = Never_ran then since else kw_now w) t1"
    "ticks_covered h (if kw_fate w = Never_ran then since else kw_now w) ks"
proof -
  have held: "holds_lock h since (run_events (kw_before w) t)" using assms by (intro spared_covered) simp_all
  show ?thesis
    by (rule that [of "fst (run_stmt (kw_fate w) (refresh_lock h (kw_now w)) (run_events (kw_before w) t))"])
      (use held refresh_held [OF held, of "kw_now w"] assms(2) in \<open>cases "kw_fate w"; simp add: run_stmt_def\<close>)+
qed

lemma owns_held: "holds_lock h since t \<Longrightarrow> owns_lock h t"
  by (auto simp: holds_lock_def owns_lock_def list_ex_iff holds_since_def)

definition silent :: "tick_world list \<Rightarrow> bool" where
  "silent ks = list_all (\<lambda>k. kw_fate k \<noteq> Answered_stmt) ks"

lemma refresh_loop_held:
  assumes "holds_lock h since t" and "ticks_covered h since ks" and "n < 3" and "refresh_loop h n ks t = (t', left)"
  shows "owns_lock h t' \<and>
    (\<forall>k. left = Some k \<longrightarrow> (\<exists>as bs cs. ks = as @ bs @ cs \<and> k = length (as @ bs) \<and> silent bs \<and>
       (length bs = 3 \<or> as = [] \<and> int (length bs) + n = 3)))"
  using assms
proof (induction ks arbitrary: since t n t' left)
  case (Cons w ks)
  obtain t1 where t1: "run_stmt (kw_fate w) (refresh_lock h (kw_now w)) (run_events (kw_before w) t) =
      (t1, if kw_fate w = Answered_stmt then Some True else None)"
    and held: "holds_lock h (if kw_fate w = Never_ran then since else kw_now w) t1"
    and cov: "ticks_covered h (if kw_fate w = Never_ran then since else kw_now w) ks"
    by (rule tick_held [OF Cons.prems(1,2)])
  let ?m = "if kw_fate w = Answered_stmt then 0 else n + 1"
  show ?case
  proof (cases "?m < 3")
    case True
    obtain t2 l2 where rest: "refresh_loop h ?m ks t1 = (t2, l2)" by (cases "refresh_loop h ?m ks t1")
    have res: "t' = t2" "left = map_option Suc l2" using Cons.prems(4) t1 rest True
      by (auto simp: refreshDbLock_def SUPERVISOR_LOCK_REFRESH_MAX_FAILURES_def split: if_splits)
    note IH = Cons.IH [OF held cov True rest]
    have "\<exists>as bs cs. w # ks = as @ bs @ cs \<and> Suc j = length (as @ bs) \<and> silent bs \<and>
        (length bs = 3 \<or> as = [] \<and> int (length bs) + n = 3)" if j: "l2 = Some j" for j
    proof -
      obtain as bs cs where s: "ks = as @ bs @ cs" "j = length (as @ bs)" "silent bs"
        "length bs = 3 \<or> as = [] \<and> int (length bs) + ?m = 3" using IH j by blast
      then consider "length bs = 3" | "as = []" "int (length bs) + n + 1 = 3" "kw_fate w \<noteq> Answered_stmt" by (auto split: if_splits)
      then show ?thesis
      proof cases
        case 1
        with s have "w # ks = (w # as) @ bs @ cs \<and> Suc j = length ((w # as) @ bs) \<and> silent bs \<and> length bs = 3" by simp
        then show ?thesis by blast
      next
        case 2
        with s have "w # ks = [] @ (w # bs) @ cs \<and> Suc j = length ([] @ (w # bs)) \<and> silent (w # bs) \<and> int (length (w # bs)) + n = 3"
          by (simp add: silent_def)
        then show ?thesis by blast
      qed
    qed
    with IH res show ?thesis by auto
  next
    case False
    then have "t' = t1" "left = Some 1" "n = 2" "kw_fate w \<noteq> Answered_stmt" using Cons.prems(3,4) t1
      by (auto simp: refreshDbLock_def SUPERVISOR_LOCK_REFRESH_MAX_FAILURES_def split: if_splits)
    moreover from this have "w # ks = [] @ [w] @ ks \<and> 1 = length ([] @ [w]) \<and> silent [w] \<and> int (length [w]) + n = 3"
      by (simp add: silent_def)
    ultimately show ?thesis using owns_held [OF held] by blast
  qed
qed (auto dest: owns_held)

text \<open>C35: a supervisor whose lock nobody breaks holds it for as long as it stays, whatever its refreshes answer, if the
  others spare the row: whoever tries to take the lock tries within its time to live of the last refresh
  that reached the database. It leaves only after three refreshes in a row without an answer, and
  then its row still stands, so no second supervisor has started.\<close>

theorem supervisor_stays_only_while_it_owns:
  assumes "holds_lock h since t" and "ticks_covered h since ks" and "refresh_loop h 0 ks t = (t', left)"
  shows "owns_lock h t' \<and>
    (\<forall>k. left = Some k \<longrightarrow> (\<exists>as bs cs. ks = as @ bs @ cs \<and> k = length (as @ bs) \<and> silent bs \<and> length bs = 3))"
proof -
  have "length bs = 3 \<or> as = [] \<and> int (length bs) + 0 = 3 \<longleftrightarrow> length bs = 3" for as bs :: "tick_world list" by auto
  with refresh_loop_held [OF assms(1,2) _ assms(3)] show ?thesis by simp
qed

section \<open>Two at once\<close>

text \<open>The order of the shutdown: its lock goes first, then the worker is told to stop and given 35 seconds. In between
  the lock is free for anyone while the old worker still runs, whether it will drain in time or has to be
  killed.\<close>

theorem shutdown_frees_lock_before_worker_ends:
  assumes "lock_keys t" and "owns_lock h t"
  shows "\<exists>t1. (t1, True) \<in> set (shutdown_trace (Some h) drains (t, True)) \<and>
    snd (upsert_lock p (lh_id h) ttl grace now t1) = Some now"
proof -
  obtain r where r: "r \<in> set t" "fenced h r" using assms(2) by (auto simp: owns_lock_def list_ex_iff)
  have "\<not> has_row (lh_id h) (release_lock h t)"
    using holds_key [OF assms(1) _ r(1)] r(2) by (force simp: has_row_def list_ex_iff release_lock_def fenced_def)
  then have "snd (upsert_lock p (lh_id h) ttl grace now (release_lock h t)) = Some now" by (simp add: upsert_lock_def)
  moreover have "(release_lock h t, True) \<in> set (shutdown_trace (Some h) drains (t, True))"
    by (simp add: shutdown_trace_def shutdown_effects_def upt_rec)
  ultimately show ?thesis by blast
qed

text \<open>Two supervisors that find the same stale pidfile can both acquire it: the one that judged the old content stale
  removes whatever file is there when it comes to the unlink, here the one the other has just written. (The
  database lock is what keeps them apart.)\<close>

definition pid_race_world :: pid_world where
  "pid_race_world =
     \<lparr>pi_writable = True, pi_mid1 = [], pi_read = True, pi_mid2 = [PidUnlink, PidCreate, PidWrite 102], pi_unlink = True,
      pi_mid3 = [], pi_writable2 = True\<rparr>"

theorem pidfile_admits_two:
  "snd (tryAtomicCreate (\<lambda>n. n = 101 \<or> n = 102) (pid_race_world\<lparr>pi_mid2 := []\<rparr>) 102 (Some ''99'')) = PidAcquired \<and>
   run_pids (pi_mid2 pid_race_world) (Some ''99'') =
     fst (tryAtomicCreate (\<lambda>n. n = 101 \<or> n = 102) (pid_race_world\<lparr>pi_mid2 := []\<rparr>) 102 (Some ''99'')) \<and>
   tryAtomicCreate (\<lambda>n. n = 101 \<or> n = 102) pid_race_world 101 (Some ''99'') = (Some (int_str 101), PidAcquired)"
proof -
  have old: "parsed_pid ''99'' = Some 99" by code_simp
  show ?thesis by (simp add: tryAtomicCreate_def pid_race_world_def run_pids_def Let_def old)
qed

section \<open>Instances\<close>

definition demo_wedge :: wedge_opts where
  "demo_wedge = \<lparr>wg_minutes = 15, wg_checks = 2, wg_budget = 1, wg_window = 1800000, wg_grace = 120000\<rparr>"

definition demo_check :: "int \<Rightarrow> sup_event" where
  "demo_check now = HealthCheck
     \<lparr>hr_signals = Some \<lparr>sg_stalled = 0, sg_activeHealthy = 0, sg_waiting = 3, sg_waitingClaimable = 3, sg_lastCompleted = None,
        sg_lastCompletedClaimable = None\<rparr>,
      hr_now = now, hr_supervised = True, hr_alive = True, hr_inBackoff = False, hr_stopping = False, hr_now2 = now, hr_reconnect = True\<rparr>"

lemmas demo_wedge_defs = demo_wedge_def demo_check_def restarts_def wedge_run_def wedge_init_def healthCheck_def wedged_def
  escalateWedgedWorker_def Let_def minutes_since_def health_warnings_def

theorem wedge_restarts_bounded_witness:
  "int (length (filter (\<lambda>e. 1000000 - wg_window demo_wedge < event_time e \<and> event_time e \<le> 1000000)
     (restart_events demo_wedge [ChildSpawned 0, demo_check 200000, demo_check 260000, demo_check 320000, demo_check 380000] wedge_init))) \<le> 1"
  using wedge_restarts_bounded [of "[ChildSpawned 0, demo_check 200000, demo_check 260000, demo_check 320000, demo_check 380000]" demo_wedge 1000000]
  by (simp add: demo_wedge_def demo_check_def)

theorem restart_needs_a_wedge_witness:
  "list_all (wedged_event demo_wedge (Some 0)) [demo_check 260000, demo_check 200000]"
proof -
  have "restarts demo_wedge (demo_check 260000) (wedge_run demo_wedge [ChildSpawned 0, demo_check 200000])"
    by (simp add: demo_wedge_defs)
  from conjunct2 [OF restart_needs_a_wedge [OF this]] show ?thesis by (simp add: demo_wedge_def demo_check_def)
qed

definition demo_queue_lock :: lock_handle where
  "demo_queue_lock = \<lparr>lh_id = supervisorLockId ''default'', lh_pid = 7, lh_fence = 0, lh_ttl = 5\<rparr>"

theorem supervisor_stays_only_while_it_owns_witness:
  "\<exists>t'. refresh_loop demo_queue_lock 0
     [\<lparr>kw_before = [], kw_now = 60000000, kw_fate = Answered_stmt\<rparr>, \<lparr>kw_before = [], kw_now = 120000000, kw_fate = Answer_lost\<rparr>,
      \<lparr>kw_before = [Upsert \<lparr>lp_pid = 8, lp_host = ''b''\<rparr> (supervisorLockId ''default'') 5 100 170000000], kw_now = 180000000, kw_fate = Never_ran\<rparr>,
      \<lparr>kw_before = [], kw_now = 240000000, kw_fate = Never_ran\<rparr>]
     [taken_row \<lparr>lp_pid = 7, lp_host = ''a''\<rparr> (supervisorLockId ''default'') 5 0] = (t', Some 4) \<and> owns_lock demo_queue_lock t'"
  (is "\<exists>t'. refresh_loop ?h 0 ?ks ?t = _ \<and> _")
proof -
  have "holds_lock ?h 0 ?t" by (simp add: holds_lock_def lock_keys_def holds_since_def fenced_def taken_row_def demo_queue_lock_def)
  moreover have "ticks_covered ?h 0 ?ks" by (simp add: demo_queue_lock_def micros_of_minutes_def)
  moreover obtain t' left where run: "refresh_loop ?h 0 ?ks ?t = (t', left)" by (cases "refresh_loop ?h 0 ?ks ?t")
  ultimately have "owns_lock ?h t'" by (rule conjunct1 [OF supervisor_stays_only_while_it_owns])
  moreover have "left = Some 4" using run
    by (auto simp: run_stmt_def refreshDbLock_def SUPERVISOR_LOCK_REFRESH_MAX_FAILURES_def refresh_lock_def upsert_lock_def Let_def has_row_def
      fenced_def demo_queue_lock_def stealable_def taken_row_def micros_of_minutes_def micros_of_seconds_def sql_defs)
  ultimately show ?thesis using run by blast
qed

theorem shutdown_frees_lock_before_worker_ends_witness:
  "\<exists>t1. (t1, True) \<in> set (shutdown_trace (Some demo_queue_lock) False ([taken_row \<lparr>lp_pid = 7, lp_host = ''a''\<rparr> (supervisorLockId ''default'') 5 0], True)) \<and>
     snd (upsert_lock \<lparr>lp_pid = 8, lp_host = ''b''\<rparr> (lh_id demo_queue_lock) 5 100 1000000 t1) = Some 1000000"
  by (rule shutdown_frees_lock_before_worker_ends)
    (simp_all add: lock_keys_def owns_lock_def fenced_def taken_row_def demo_queue_lock_def)

end
