(* ===== verification/Scopes.thy ===== *)
theory Scopes
  imports JobDefaults Admission "HOL-Library.List_Lexorder"
begin

text \<open>
  The scopes of remote callers: the OAuth scope table with its hierarchy and the parsers around it
  (\<open>scope.ts\<close>), the grants stored with the older bearer tokens (\<open>legacy-token-scope.ts\<close>), and the
  readers of source ids in request bodies (\<open>source-id.ts\<close>). A value of a request body or of a
  \<open>jsonb\<close> column is a \<open>json option\<close>, \<open>None\<close> standing for \<open>undefined\<close>.
\<close>

section \<open>The scope table\<close>

definition ALLOWED_SCOPES :: "string list" where
  "ALLOWED_SCOPES =
     [''read'', ''write'', ''admin'', ''sources_admin'', ''users_admin'', ''agent'']"

definition ALLOWED_SCOPES_LIST :: "string list" where
  "ALLOWED_SCOPES_LIST =
     [''admin'', ''agent'', ''read'', ''sources_admin'', ''users_admin'', ''write'']"

definition IMPLIES :: "(string \<times> string list) list" where
  "IMPLIES =
     [(''admin'', [''admin'', ''sources_admin'', ''users_admin'', ''write'', ''read'']),
      (''write'', [''write'', ''read'']),
      (''sources_admin'', [''sources_admin'']),
      (''users_admin'', [''users_admin'']),
      (''read'', [''read'']),
      (''agent'', [''agent''])]"

definition implied :: "string \<Rightarrow> string list" where
  "implied g = or_default [] (map_of IMPLIES g)"

definition isScope :: "string \<Rightarrow> bool" where
  "isScope s = (s \<in> set ALLOWED_SCOPES)"

fun hasScope :: "string list \<Rightarrow> string \<Rightarrow> bool" where
  "hasScope [] required = False"
| "hasScope (granted # rest) required =
     (if \<not> isScope granted then hasScope rest required
      else if required \<in> set (implied granted) then True
      else hasScope rest required)"

text \<open>\<open>assertAllowedScopes\<close>: the first unknown scope, which the code throws.\<close>

definition assertAllowedScopes :: "string list \<Rightarrow> string option" where
  "assertAllowedScopes scopes = List.find (\<lambda>s. \<not> isScope s) scopes"

fun filter_scopes_loop :: "string list \<Rightarrow> string list \<Rightarrow> string list \<Rightarrow> string list \<Rightarrow>
    string list \<times> string list" where
  "filter_scopes_loop seen allowed dropped [] = (allowed, dropped)"
| "filter_scopes_loop seen allowed dropped (s # ss) =
     (if s \<in> set seen then filter_scopes_loop seen allowed dropped ss
      else if isScope s then filter_scopes_loop (s # seen) (allowed @ [s]) dropped ss
      else filter_scopes_loop (s # seen) allowed (dropped @ [s]) ss)"

definition filterAllowedScopes :: "string list \<Rightarrow> string list \<times> string list" where
  "filterAllowedScopes scopes = filter_scopes_loop [] [] [] scopes"

section \<open>Splitting\<close>

text \<open>\<open>s.split(c)\<close> for a one-character separator; \<open>w\<close> is the piece under way.\<close>

fun split_char :: "char \<Rightarrow> string \<Rightarrow> string \<Rightarrow> string list" where
  "split_char c w [] = [w]"
| "split_char c w (x # xs) = (if x = c then w # split_char c [] xs else split_char c (w @ [x]) xs)"

text \<open>\<open>s.split(/\s+/)\<close>: a separator is a maximal run of white space; \<open>sep\<close> says that the characters
  before belong to one.\<close>

fun split_ws :: "bool \<Rightarrow> string \<Rightarrow> string \<Rightarrow> string list" where
  "split_ws sep w [] = [w]"
| "split_ws sep w (x # xs) =
     (if js_space x then (if sep then split_ws True w xs else w # split_ws True [] xs)
      else split_ws False (w @ [x]) xs)"

definition parseScopeString :: "string option \<Rightarrow> string list" where
  "parseScopeString s = (case s of None \<Rightarrow> [] | Some t \<Rightarrow>
     if t = [] then [] else filter (\<lambda>f. f \<noteq> []) (split_char (CHR '' '') [] t))"

section \<open>Scopes in a registration body\<close>

datatype scopes_input_error =
    ScopeNotString json
  | ScopeEmptyString
  | ScopeHasSpace string
  | ScopesNotList json
  | ScopesEmpty
  | InvalidScope string

fun scope_element_error :: "json list \<Rightarrow> scopes_input_error option" where
  "scope_element_error [] = None"
| "scope_element_error (JStr s # els) =
     (if s = [] then Some ScopeEmptyString
      else if list_ex js_space s then Some (ScopeHasSpace s)
      else scope_element_error els)"
| "scope_element_error (el # els) = Some (ScopeNotString el)"

fun json_strings :: "json list \<Rightarrow> string list" where
  "json_strings [] = []"
| "json_strings (JStr s # js) = s # json_strings js"
| "json_strings (_ # js) = json_strings js"

text \<open>\<open>Array.from(new Set(xs)).sort()\<close> and what follows it.\<close>

definition finish_scopes :: "string list \<Rightarrow> scopes_input_error + string" where
  "finish_scopes candidates =
     (let deduped = sort (nub candidates) in
      if deduped = [] then Inl ScopesEmpty
      else case assertAllowedScopes deduped of
             Some s \<Rightarrow> Inl (InvalidScope s)
           | None \<Rightarrow> Inr (join_with '' '' deduped))"

definition normalizeScopesInput :: "json option \<Rightarrow> scopes_input_error + string" where
  "normalizeScopesInput raw =
     (case raw of
        None \<Rightarrow> Inr ''read''
      | Some JNull \<Rightarrow> Inr ''read''
      | Some (JStr s) \<Rightarrow> finish_scopes (filter (\<lambda>f. f \<noteq> []) (split_ws False [] s))
      | Some (JArr els) \<Rightarrow>
          (case scope_element_error els of
             Some e \<Rightarrow> Inl e
           | None \<Rightarrow> finish_scopes (json_strings els))
      | Some v \<Rightarrow> Inl (ScopesNotList v))"

section \<open>Grants of the older bearer tokens\<close>

record legacy_scope =
  ls_sourceId :: string
  ls_allowedSources :: "string list option"

definition default_scope :: legacy_scope where
  "default_scope = \<lparr>ls_sourceId = ''default'', ls_allowedSources = None\<rparr>"

definition parseLegacyTokenScope :: "json option \<Rightarrow> legacy_scope" where
  "parseLegacyTokenScope rawSource =
     (case rawSource of
        Some (JArr els) \<Rightarrow>
          (case filter (\<lambda>s. s \<noteq> []) (json_strings els) of
             [] \<Rightarrow> default_scope
           | s # ss \<Rightarrow> \<lparr>ls_sourceId = s, ls_allowedSources = Some (s # ss)\<rparr>)
      | Some (JStr s) \<Rightarrow>
          (if s \<noteq> [] then \<lparr>ls_sourceId = s, ls_allowedSources = None\<rparr> else default_scope)
      | _ \<Rightarrow> default_scope)"

definition parseTakesHoldersAllowList :: "json option \<Rightarrow> string list option" where
  "parseTakesHoldersAllowList raw =
     (case raw of Some (JArr els) \<Rightarrow> Some (json_strings els) | _ \<Rightarrow> None)"

text \<open>\<open>s.replace(/^"|"$/g, '')\<close>: a quote at either end goes.\<close>

definition strip_quotes :: "string \<Rightarrow> string" where
  "strip_quotes s =
     (let q = CHR 0x22;
          t = (case s of c # r \<Rightarrow> if c = q then r else s | [] \<Rightarrow> [])
      in if t \<noteq> [] \<and> last t = q then butlast t else t)"

definition js_line_end :: "char \<Rightarrow> bool" where
  "js_line_end c = (js_code c = 10 \<or> js_code c = 13)"

text \<open>\<open>/^\{.*\}$/\<close>, where \<open>.\<close> is no line terminator.\<close>

definition array_literal :: "string \<Rightarrow> bool" where
  "array_literal s = (2 \<le> length s \<and> hd s = CHR ''{'' \<and> last s = CHR ''}'' \<and>
     \<not> list_ex js_line_end s)"

definition normalizeTokenScopes :: "json option \<Rightarrow> string list option" where
  "normalizeTokenScopes raw =
     (case raw of
        None \<Rightarrow> None
      | Some JNull \<Rightarrow> None
      | Some (JArr els) \<Rightarrow> Some (filter isScope (json_strings els))
      | Some (JStr s) \<Rightarrow>
          (let t = js_trim s in
           if array_literal t then
             (let inner = butlast (tl t) in
              if inner = [] then Some []
              else Some (filter isScope
                     (map (\<lambda>f. strip_quotes (js_trim f)) (split_char (CHR '','') [] inner))))
           else Some [])
      | Some _ \<Rightarrow> Some [])"

text \<open>\<open>coerceLegacyPermissions\<close>; \<open>parse\<close> is \<open>JSON.parse\<close>.\<close>

definition as_object :: "json \<Rightarrow> json_obj option" where
  "as_object v = (case v of JObj ms \<Rightarrow> Some ms | _ \<Rightarrow> None)"

definition coerceLegacyPermissions ::
  "(string \<Rightarrow> json option) \<Rightarrow> json option \<Rightarrow> json_obj option" where
  "coerceLegacyPermissions parse raw =
     (case raw of
        None \<Rightarrow> None
      | Some (JStr s) \<Rightarrow> (case parse s of None \<Rightarrow> None | Some v \<Rightarrow> as_object v)
      | Some v \<Rightarrow> as_object v)"

section \<open>Source ids in a registration body\<close>

definition ALL_SOURCES :: string where "ALL_SOURCES = ''__all__''"

definition valid_source_json :: "json \<Rightarrow> bool" where
  "valid_source_json v = (case v of JStr s \<Rightarrow> isValidSourceId s | _ \<Rightarrow> False)"

text \<open>\<open>assertValidSourceId\<close>: the value it refuses.\<close>

definition assertValidSourceId :: "json \<Rightarrow> json option" where
  "assertValidSourceId v = (if valid_source_json v then None else Some v)"

definition json_str :: "json \<Rightarrow> string" where
  "json_str v = (case v of JStr s \<Rightarrow> s | _ \<Rightarrow> [])"

definition normalizeSourceInput :: "json option \<Rightarrow> json + string" where
  "normalizeSourceInput raw =
     (case raw of
        None \<Rightarrow> Inr ''default''
      | Some JNull \<Rightarrow> Inr ''default''
      | Some v \<Rightarrow> (case assertValidSourceId v of Some e \<Rightarrow> Inl e | None \<Rightarrow> Inr (json_str v)))"

definition normalizeFederatedReadInput :: "json option \<Rightarrow> json + string list option" where
  "normalizeFederatedReadInput raw =
     (case raw of
        None \<Rightarrow> Inr None
      | Some JNull \<Rightarrow> Inr None
      | Some (JArr els) \<Rightarrow>
          (if els = [] then Inl (JArr els)
           else case List.find (\<lambda>v. \<not> valid_source_json v) els of
                  Some e \<Rightarrow> Inl e
                | None \<Rightarrow> Inr (Some (map json_str els)))
      | Some v \<Rightarrow> Inl v)"

section \<open>The hierarchy\<close>

lemma hasScope_ex: "hasScope gs r \<longleftrightarrow> (\<exists>g \<in> set gs. isScope g \<and> r \<in> set (implied g))"
  by (induction gs) auto

lemma implied_isScope: "r \<in> set (implied g) \<Longrightarrow> isScope r"
  by (auto simp: implied_def IMPLIES_def or_default_def isScope_def ALLOWED_SCOPES_def split: if_splits)

lemma implied_self: "isScope g \<Longrightarrow> g \<in> set (implied g)"
  by (auto simp: implied_def IMPLIES_def or_default_def isScope_def ALLOWED_SCOPES_def)

lemma implied_trans: "r \<in> set (implied s) \<Longrightarrow> s \<in> set (implied g) \<Longrightarrow> r \<in> set (implied g)"
  by (auto simp: implied_def IMPLIES_def or_default_def split: if_splits)

lemma hasScope_known: "hasScope gs r \<Longrightarrow> isScope r"
  by (auto simp: hasScope_ex intro: implied_isScope)

lemma hasScope_self: "isScope s \<Longrightarrow> s \<in> set gs \<Longrightarrow> hasScope gs s"
  by (auto simp: hasScope_ex intro: implied_self)

lemma hasScope_trans:
  assumes "\<forall>s \<in> set gs. hasScope cap s" and "hasScope gs r"
  shows "hasScope cap r"
  using assms by (auto simp: hasScope_ex dest!: bspec intro: implied_trans)

lemma hasScope_agent: "hasScope gs ''agent'' \<longleftrightarrow> ''agent'' \<in> set gs"
  by (auto simp: hasScope_ex implied_def IMPLIES_def or_default_def isScope_def ALLOWED_SCOPES_def
      split: if_splits)

section \<open>The parsers\<close>

lemma filter_scopes_loop_sets:
  assumes "filter_scopes_loop seen al dr ss = (al', dr')"
  shows "set al' = set al \<union> {s \<in> set ss. s \<notin> set seen \<and> isScope s} \<and>
    set dr' = set dr \<union> {s \<in> set ss. s \<notin> set seen \<and> \<not> isScope s}"
  using assms
proof (induction ss arbitrary: seen al dr)
  case (Cons s ss)
  from Cons.prems show ?case
    by (auto split: if_splits dest!: Cons.IH)
qed simp

lemma filterAllowedScopes_sets:
  "set (fst (filterAllowedScopes ss)) = {s \<in> set ss. isScope s}"
  "set (snd (filterAllowedScopes ss)) = {s \<in> set ss. \<not> isScope s}"
  using filter_scopes_loop_sets [of "[]" "[]" "[]" ss, OF prod.collapse [symmetric]]
  by (simp_all add: filterAllowedScopes_def)

lemma assertAllowedScopes_None: "assertAllowedScopes ss = None \<longleftrightarrow> (\<forall>s \<in> set ss. isScope s)"
  by (auto simp: assertAllowedScopes_def find_None_iff)

text \<open>Joining words with a separator they do not contain, then splitting, gives them back.\<close>

lemma split_char_word: "c \<notin> set u \<Longrightarrow> split_char c w (u @ r) = split_char c (w @ u) r"
  by (induction u arbitrary: w) auto

lemma split_char_join:
  "ws \<noteq> [] \<Longrightarrow> \<forall>w \<in> set ws. c \<notin> set w \<Longrightarrow> split_char c [] (join_with [c] ws) = ws"
proof (induction ws)
  case (Cons w ws)
  show ?case
  proof (cases ws)
    case Nil
    then show ?thesis using Cons.prems split_char_word [of c w "[]" "[]"] by simp
  next
    case (Cons v vs)
    with Cons.IH Cons.prems show ?thesis by (simp add: split_char_word)
  qed
qed simp

lemma isScope_word: "isScope s \<Longrightarrow> s \<noteq> [] \<and> CHR '' '' \<notin> set s"
  by (auto simp: isScope_def ALLOWED_SCOPES_def)

lemma parse_joined_scopes:
  assumes "\<forall>s \<in> set ss. isScope s"
  shows "parseScopeString (Some (join_with '' '' ss)) = ss"
proof (cases ss)
  case Nil
  then show ?thesis by (simp add: parseScopeString_def)
next
  case (Cons w ws)
  have words: "\<forall>w \<in> set ss. CHR '' '' \<notin> set w" using assms isScope_word by blast
  have "filter (\<lambda>f. f \<noteq> []) ss = ss" using assms isScope_word by (simp add: filter_id_conv)
  moreover have "split_char (CHR '' '') [] (join_with '' '' ss) = ss"
    using Cons words by (intro split_char_join) simp_all
  moreover have "ss \<noteq> []" using Cons by simp
  ultimately show ?thesis by (auto simp: parseScopeString_def)
qed

end
