(* ===== verification/OAuth.thy ===== *)
theory OAuth
  imports Complex_Main Scopes
begin

text \<open>
  The authorization server (\<open>oauth-provider.ts\<close>): registration, the authorization code, refresh and
  client-credentials grants, verification and revocation of tokens, and the operator's changes to a
  client (\<open>rescopeClient\<close>, and the statements of \<open>auth.ts\<close>, \<open>agent-register.ts\<close>, \<open>token-mint.ts\<close>,
  \<open>request-tools.ts\<close> and \<open>serve-http.ts\<close> on the same tables). The database is the record \<open>auth_db\<close>: the
  tables with their keys and foreign keys as the inserts see them, and the optional columns the schema
  has been migrated to. SHA-256, the URL parser and \<open>JSON.parse\<close> are fields of \<open>runtime\<close>, generated
  tokens and the readings of the clock (milliseconds) arguments. An undefined column is reported with its
  SQLSTATE, so \<open>isUndefinedColumnError\<close> holds whatever column it is asked about.
\<close>

section \<open>Tables\<close>

record oauth_client =
  oc_id :: string
  oc_secret_hash :: "string option"
  oc_name :: string
  oc_redirects :: "string list option"
  oc_grants :: "string list option"
  oc_scope :: "string option"
  oc_auth_method :: "string option"
  oc_issued_at :: "int option"
  oc_secret_expires :: "int option"
  oc_token_ttl :: "int option"
  oc_deleted_at :: "int option"
  oc_source :: "string option"
  oc_federated :: "string list"
  oc_bound_tools :: "string list option"
  oc_bound_source :: "string option"
  oc_bound_brain :: "string option"
  oc_bound_prefixes :: "string list option"
  oc_bound_max :: int
  oc_budget :: "string option"
  oc_surface :: "string option"
  oc_surface_set_by :: "string option"

record oauth_code =
  cd_hash :: string
  cd_client :: string
  cd_scopes :: "string list"
  cd_challenge :: string
  cd_method :: string
  cd_redirect :: string
  cd_state :: "string option"
  cd_resource :: "string option"
  cd_expires :: int

record oauth_token =
  tk_hash :: string
  tk_type :: string
  tk_client :: string
  tk_scopes :: "string list option"
  tk_expires :: "int option"
  tk_resource :: "string option"

record legacy_token =
  lt_id :: string
  lt_name :: string
  lt_hash :: string
  lt_permissions :: "json option"
  lt_scopes :: "json option"
  lt_revoked :: "int option"
  lt_last_used :: "int option"

record auth_db =
  ad_columns :: "string list"
  ad_sources :: "string list"
  ad_clients :: "oauth_client list"
  ad_codes :: "oauth_code list"
  ad_tokens :: "oauth_token list"
  ad_legacy :: "legacy_token list"

record runtime =
  rt_hash :: "string \<Rightarrow> string"
  rt_url :: "string \<Rightarrow> (string \<times> string) option"
  rt_json :: "string \<Rightarrow> json option"

definition has_columns :: "string list \<Rightarrow> auth_db \<Rightarrow> bool" where
  "has_columns need db = list_all (\<lambda>c. c \<in> set (ad_columns db)) need"

definition find_client :: "string \<Rightarrow> auth_db \<Rightarrow> oauth_client option" where
  "find_client cid db = List.find (\<lambda>c. oc_id c = cid) (ad_clients db)"

section \<open>Errors\<close>

datatype metadata_problem =
    RedirectNotUrl string
  | RedirectPseudoScheme string
  | RedirectNotAllowed string
  | NoKnownScope "string list"
  | BadAuthMethod string
  | ClientCredentialsByDcr

datatype prefix_problem =
    PrefixEmpty
  | PrefixUntrimmed string
  | PrefixUppercase string
  | PrefixNoBoundary string

datatype oauth_error =
    InvalidClientMetadata metadata_problem
  | UnknownScope string
  | EmptyPrefixList
  | BadSlugPrefix prefix_problem
  | InvalidAuthMethod string
  | OldSchema
  | CodeNotFound
  | RefreshNotFound
  | RefreshExpired
  | ScopeExceedsGrant
  | TokenExpired
  | InvalidToken
  | InvalidClient
  | ClientRevoked
  | ClientNotFound
  | GrantNotAuthorized
  | InvalidClientSecret
  | NothingToRescope
  | InvalidSourceId string
  | EmptyFederatedRead
  | BadSurface string
  | NoSuchSource string
  | NoSuchClient string
  | UndefinedColumn
  | UniqueViolation
  | ForeignKeyViolation
  | OutOfRange

section \<open>Validators\<close>

definition slug_prefix_problem :: "string \<Rightarrow> prefix_problem option" where
  "slug_prefix_problem p =
     (if js_trim p = [] then Some PrefixEmpty
      else if p \<noteq> js_trim p then Some (PrefixUntrimmed p)
      else if p \<noteq> js_to_lower p then Some (PrefixUppercase p)
      else if last p \<noteq> CHR ''/'' \<and> \<not> (2 \<le> length p \<and> drop (length p - 2) p = ''/*'')
           then Some (PrefixNoBoundary p)
      else None)"

fun assertValidSlugPrefixes :: "string list \<Rightarrow> prefix_problem option" where
  "assertValidSlugPrefixes [] = None"
| "assertValidSlugPrefixes (p # ps) =
     (case slug_prefix_problem p of Some e \<Rightarrow> Some e | None \<Rightarrow> assertValidSlugPrefixes ps)"

definition pg_escape :: "char \<Rightarrow> string" where
  "pg_escape c = (if c = CHR 0x5C then [CHR 0x5C, CHR 0x5C]
                  else if c = CHR 0x22 then [CHR 0x5C, CHR 0x22] else [c])"

definition pgArray :: "string list \<Rightarrow> string" where
  "pgArray arr =
     (if arr = [] then ''{}''
      else ''{'' @ join_with '','' (map (\<lambda>s. [CHR 0x22] @ concat (map pg_escape s) @ [CHR 0x22]) arr)
             @ ''}'')"

definition ALLOWED_TOKEN_ENDPOINT_AUTH_METHODS :: "string list" where
  "ALLOWED_TOKEN_ENDPOINT_AUTH_METHODS = [''client_secret_post'', ''client_secret_basic'', ''none'']"

definition validateTokenEndpointAuthMethod :: "string option \<Rightarrow> string + string" where
  "validateTokenEndpointAuthMethod v =
     (case v of
        None \<Rightarrow> Inr ''client_secret_post''
      | Some m \<Rightarrow> if m = [] then Inr ''client_secret_post''
                  else if m \<in> set ALLOWED_TOKEN_ENDPOINT_AUTH_METHODS then Inr m else Inl m)"

definition LOOPBACK_HOSTS :: "string list" where
  "LOOPBACK_HOSTS = [''localhost'', ''127.0.0.1'', ''[::1]'', ''::1'']"

definition PSEUDO_SCHEMES :: "string list" where
  "PSEUDO_SCHEMES = [''javascript'', ''data'', ''vbscript'', ''blob'']"

text \<open>\<open>s.replace(/:$/, '')\<close>.\<close>

definition strip_colon :: "string \<Rightarrow> string" where
  "strip_colon s = (if s \<noteq> [] \<and> last s = CHR '':'' then butlast s else s)"

definition validateRedirectUri :: "runtime \<Rightarrow> string \<Rightarrow> metadata_problem option" where
  "validateRedirectUri rt uri =
     (case rt_url rt uri of
        None \<Rightarrow> Some (RedirectNotUrl uri)
      | Some (protocol, hostname) \<Rightarrow>
          let isLoopback = hostname \<in> set LOOPBACK_HOSTS in
          if protocol = ''https:'' then None
          else if protocol = ''http:'' \<and> isLoopback then None
          else if protocol \<noteq> ''http:'' \<and> protocol \<noteq> ''https:'' then
            (let scheme = strip_colon protocol in
             if js_to_lower scheme \<in> set PSEUDO_SCHEMES then Some (RedirectPseudoScheme uri)
             else if scheme \<noteq> [] then None
             else Some (RedirectNotAllowed uri))
          else Some (RedirectNotAllowed uri))"

fun first_redirect_problem :: "runtime \<Rightarrow> string list \<Rightarrow> metadata_problem option" where
  "first_redirect_problem rt [] = None"
| "first_redirect_problem rt (u # us) =
     (case validateRedirectUri rt u of Some e \<Rightarrow> Some e | None \<Rightarrow> first_redirect_problem rt us)"

section \<open>The provider\<close>

definition DEFAULT_DCR_TTL_MIN_SECONDS :: int where "DEFAULT_DCR_TTL_MIN_SECONDS = 300"

record provider_opts =
  po_tokenTtl :: "int option"
  po_refreshTtl :: "int option"
  po_dcrDisabled :: "bool option"
  po_allowClientCredentialsDcr :: "bool option"
  po_dcrTtlMinSeconds :: "int option"
  po_dcrTtlMaxSeconds :: "int option"

record provider =
  pv_dcrDisabled :: bool
  pv_tokenTtl :: int
  pv_refreshTtl :: int
  pv_allowClientCredentialsDcr :: bool
  pv_dcrTtlMin :: int
  pv_dcrTtlMax :: int

text \<open>\<open>x || d\<close> on an optional number.\<close>

definition or_number :: "int \<Rightarrow> int option \<Rightarrow> int" where
  "or_number d x = (case x of None \<Rightarrow> d | Some v \<Rightarrow> if v = 0 then d else v)"

definition make_provider :: "provider_opts \<Rightarrow> provider" where
  "make_provider options =
     (let tokenTtl = or_number 3600 (po_tokenTtl options);
          dcrTtlMin = or_default DEFAULT_DCR_TTL_MIN_SECONDS (po_dcrTtlMinSeconds options)
      in \<lparr>pv_dcrDisabled = (po_dcrDisabled options = Some True),
          pv_tokenTtl = tokenTtl,
          pv_refreshTtl = or_number (30 * 24 * 3600) (po_refreshTtl options),
          pv_allowClientCredentialsDcr = (po_allowClientCredentialsDcr options = Some True),
          pv_dcrTtlMin = dcrTtlMin,
          pv_dcrTtlMax = or_default (max tokenTtl dcrTtlMin) (po_dcrTtlMaxSeconds options)\<rparr>)"

definition clampDcrTokenTtl :: "rat \<Rightarrow> int \<Rightarrow> int \<Rightarrow> int" where
  "clampDcrTokenTtl requested mn mx =
     (let lo = max 1 mn; hi = max lo mx in min hi (max lo \<lfloor>requested\<rfloor>))"

section \<open>Clients\<close>

record client_info =
  ci_id :: string
  ci_secret :: "string option"
  ci_name :: string
  ci_redirects :: "string list"
  ci_grants :: "string list"
  ci_scope :: "string option"
  ci_auth_method :: "string option"
  ci_issued_at :: "int option"
  ci_secret_expires :: "int option"

definition getClient :: "string \<Rightarrow> auth_db \<Rightarrow> client_info option" where
  "getClient clientId db =
     (case find_client clientId db of
        None \<Rightarrow> None
      | Some r \<Rightarrow> Some
          \<lparr>ci_id = oc_id r, ci_secret = oc_secret_hash r, ci_name = oc_name r,
           ci_redirects = or_default [] (oc_redirects r),
           ci_grants = or_default [''client_credentials''] (oc_grants r),
           ci_scope = oc_scope r, ci_auth_method = oc_auth_method r,
           ci_issued_at = oc_issued_at r, ci_secret_expires = oc_secret_expires r\<rparr>)"

text \<open>\<open>INSERT INTO oauth_clients\<close>, naming the optional columns \<open>need\<close>.\<close>

definition insert_client :: "string list \<Rightarrow> oauth_client \<Rightarrow> auth_db \<Rightarrow> oauth_error + auth_db" where
  "insert_client need row db =
     (if \<not> has_columns need db then Inl UndefinedColumn
      else if find_client (oc_id row) db \<noteq> None then Inl UniqueViolation
      else if \<not> (case oc_source row of None \<Rightarrow> True | Some s \<Rightarrow> s \<in> set (ad_sources db))
           then Inl ForeignKeyViolation
      else Inr (db\<lparr>ad_clients := ad_clients db @ [row]\<rparr>))"

text \<open>The retries with fewer columns: each next statement runs only on an undefined column.\<close>

fun insert_ladder :: "(string list \<times> oauth_client) list \<Rightarrow> auth_db \<Rightarrow> oauth_error + auth_db" where
  "insert_ladder [] db = Inl UndefinedColumn"
| "insert_ladder ((need, row) # rest) db =
     (case insert_client need row db of
        Inr db' \<Rightarrow> Inr db'
      | Inl e \<Rightarrow> if e = UndefinedColumn \<and> rest \<noteq> [] then insert_ladder rest db else Inl e)"

record client_meta =
  cm_redirects :: "string list option"
  cm_scope :: "string option"
  cm_auth_method :: "string option"
  cm_grants :: "string list option"
  cm_name :: "string option"

record reg_mint =
  rm_client_id :: string
  rm_secret :: string
  rm_now :: int

record dcr_response =
  dr_meta :: client_meta
  dr_client_id :: string
  dr_scope :: string
  dr_issued_at :: int
  dr_secret :: "string option"
  dr_ttl :: "int option"

text \<open>The checks of \<open>registerClient\<close>: the authentication method, the grant types and the scope to store.\<close>

definition dcr_checks ::
  "runtime \<Rightarrow> provider \<Rightarrow> client_meta \<Rightarrow> metadata_problem + (string \<times> string list \<times> string)" where
  "dcr_checks rt pv client =
     (case first_redirect_problem rt (or_default [] (cm_redirects client)) of
        Some e \<Rightarrow> Inl e
      | None \<Rightarrow>
          let requested = parseScopeString (cm_scope client);
              allowed = fst (filterAllowedScopes requested)
          in if requested \<noteq> [] \<and> allowed = [] then Inl (NoKnownScope requested)
             else case validateTokenEndpointAuthMethod (cm_auth_method client) of
                    Inl m \<Rightarrow> Inl (BadAuthMethod m)
                  | Inr authMethod \<Rightarrow>
                      let grantTypes = (case cm_grants client of
                              Some gs \<Rightarrow> if gs \<noteq> [] then gs else [''authorization_code'']
                            | None \<Rightarrow> [''authorization_code''])
                      in if \<not> pv_allowClientCredentialsDcr pv \<and> ''client_credentials'' \<in> set grantTypes
                         then Inl ClientCredentialsByDcr
                         else Inr (authMethod, grantTypes, join_with '' '' allowed))"

definition blank_client :: oauth_client where
  "blank_client =
     \<lparr>oc_id = [], oc_secret_hash = None, oc_name = [], oc_redirects = None,
      oc_grants = Some [''client_credentials''], oc_scope = None, oc_auth_method = None,
      oc_issued_at = None, oc_secret_expires = None, oc_token_ttl = None, oc_deleted_at = None,
      oc_source = None, oc_federated = [], oc_bound_tools = None, oc_bound_source = None,
      oc_bound_brain = None, oc_bound_prefixes = None, oc_bound_max = 1, oc_budget = None,
      oc_surface = None, oc_surface_set_by = None\<rparr>"

definition base_client ::
  "string \<Rightarrow> string option \<Rightarrow> string \<Rightarrow> string list \<Rightarrow> string list \<Rightarrow> string \<Rightarrow> string \<Rightarrow> int \<Rightarrow>
   oauth_client" where
  "base_client cid secretHash name redirects grants scope authMethod now =
     blank_client\<lparr>oc_id := cid, oc_secret_hash := secretHash, oc_name := name,
       oc_redirects := Some redirects, oc_grants := Some grants, oc_scope := Some scope,
       oc_auth_method := Some authMethod, oc_issued_at := Some now\<rparr>"

definition source_rungs :: "oauth_client \<Rightarrow> string \<Rightarrow> string list \<Rightarrow> (string list \<times> oauth_client) list" where
  "source_rungs base sourceId federated =
     [([''source_id'', ''federated_read''], base\<lparr>oc_source := Some sourceId, oc_federated := federated\<rparr>),
      ([''source_id''], base\<lparr>oc_source := Some sourceId\<rparr>),
      ([], base)]"

definition upd_clients :: "(oauth_client \<Rightarrow> bool) \<Rightarrow> (oauth_client \<Rightarrow> oauth_client) \<Rightarrow> auth_db \<Rightarrow> auth_db" where
  "upd_clients P f db = db\<lparr>ad_clients := upd_where P f (ad_clients db)\<rparr>"

definition INT4_MAX :: int where "INT4_MAX = 2147483647"

text \<open>\<open>UPDATE oauth_clients SET token_ttl = .. WHERE client_id = ..\<close>: the column is a 32-bit integer.\<close>

definition set_token_ttl :: "string \<Rightarrow> int option \<Rightarrow> auth_db \<Rightarrow> oauth_error + auth_db" where
  "set_token_ttl clientId ttl db =
     (if \<not> has_columns [''token_ttl''] db then Inl UndefinedColumn
      else if (case ttl of None \<Rightarrow> False | Some v \<Rightarrow> v > INT4_MAX \<or> v < - INT4_MAX - 1) then Inl OutOfRange
      else Inr (upd_clients (\<lambda>c. oc_id c = clientId) (\<lambda>c. c\<lparr>oc_token_ttl := ttl\<rparr>) db))"

definition registerClient ::
  "runtime \<Rightarrow> provider \<Rightarrow> reg_mint \<Rightarrow> client_meta \<Rightarrow> rat option \<Rightarrow> auth_db \<Rightarrow>
   (oauth_error + dcr_response) \<times> auth_db" where
  "registerClient rt pv rm client requestedTtl db =
     (case dcr_checks rt pv client of
        Inl e \<Rightarrow> (Inl (InvalidClientMetadata e), db)
      | Inr (authMethod, grantTypes, registeredScope) \<Rightarrow>
          let clientSecret = (if authMethod = ''none'' then None else Some (rm_secret rm));
              now = rm_now rm div 1000;
              name = (case cm_name client of Some n \<Rightarrow> if n = [] then ''unnamed'' else n | None \<Rightarrow> ''unnamed'');
              base = base_client (rm_client_id rm) (map_option (rt_hash rt) clientSecret) name
                       (or_default [] (cm_redirects client)) grantTypes registeredScope authMethod now;
              response = \<lparr>dr_meta = client, dr_client_id = rm_client_id rm, dr_scope = registeredScope,
                          dr_issued_at = now, dr_secret = clientSecret, dr_ttl = None\<rparr>
          in case insert_ladder (source_rungs base ''default'' [''default'']) db of
               Inl e \<Rightarrow> (Inl e, db)
             | Inr db1 \<Rightarrow>
                 (case requestedTtl of
                    None \<Rightarrow> (Inr response, db1)
                  | Some q \<Rightarrow>
                      let clamped = clampDcrTokenTtl q (pv_dcrTtlMin pv) (pv_dcrTtlMax pv) in
                      case set_token_ttl (rm_client_id rm) (Some clamped) db1 of
                        Inr db2 \<Rightarrow> (Inr (response\<lparr>dr_ttl := Some clamped\<rparr>), db2)
                      | Inl e \<Rightarrow> if e = UndefinedColumn then (Inr response, db1) else (Inl e, db1)))"

text \<open>The store the router sees: without \<open>registerClient\<close> there is no \<open>/register\<close> route.\<close>

definition dcr_offered :: "provider \<Rightarrow> bool" where
  "dcr_offered pv = (\<not> pv_dcrDisabled pv)"

section \<open>Codes\<close>

record auth_params =
  ap_scopes :: "string list option"
  ap_challenge :: string
  ap_redirect :: string
  ap_state :: "string option"
  ap_resource :: "string option"

definition insert_code :: "oauth_code \<Rightarrow> auth_db \<Rightarrow> oauth_error + auth_db" where
  "insert_code row db =
     (if list_ex (\<lambda>c. cd_hash c = cd_hash row) (ad_codes db) then Inl UniqueViolation
      else if find_client (cd_client row) db = None then Inl ForeignKeyViolation
      else Inr (db\<lparr>ad_codes := ad_codes db @ [row]\<rparr>))"

text \<open>The scopes an authorization grants: those asked for, or all registered ones, within the registered
  ones.\<close>

definition clamp_scopes :: "string list \<Rightarrow> string list \<Rightarrow> string list" where
  "clamp_scopes allowedScopes requestedScopes = filter (hasScope allowedScopes) requestedScopes"

definition authorize ::
  "runtime \<Rightarrow> client_info \<Rightarrow> auth_params \<Rightarrow> string \<Rightarrow> int \<Rightarrow> auth_db \<Rightarrow> (oauth_error + string) \<times> auth_db" where
  "authorize rt client params code nowMs db =
     (let expiresAt = nowMs div 1000 + 600;
          allowedScopes = parseScopeString (ci_scope client);
          requestedScopes = (case ap_scopes params of
              Some ss \<Rightarrow> if ss \<noteq> [] then ss else allowedScopes
            | None \<Rightarrow> allowedScopes);
          row = \<lparr>cd_hash = rt_hash rt code, cd_client = ci_id client,
                 cd_scopes = clamp_scopes allowedScopes requestedScopes,
                 cd_challenge = ap_challenge params, cd_method = ''S256'',
                 cd_redirect = ap_redirect params, cd_state = or_null (ap_state params),
                 cd_resource = or_null (ap_resource params), cd_expires = expiresAt\<rparr>
      in case insert_code row db of Inl e \<Rightarrow> (Inl e, db) | Inr db' \<Rightarrow> (Inr code, db'))"

definition challengeForAuthorizationCode ::
  "runtime \<Rightarrow> client_info \<Rightarrow> string \<Rightarrow> int \<Rightarrow> auth_db \<Rightarrow> oauth_error + string" where
  "challengeForAuthorizationCode rt client code nowMs db =
     (case List.find (\<lambda>c. cd_hash c = rt_hash rt code \<and> cd_client c = ci_id client \<and>
             cd_expires c > nowMs div 1000) (ad_codes db) of
        None \<Rightarrow> Inl CodeNotFound
      | Some c \<Rightarrow> Inr (cd_challenge c))"

section \<open>Issuing tokens\<close>

text \<open>What a request has been granted and not yet been issued: the arguments of \<open>issueTokens\<close>.\<close>

record token_grant =
  tg_client :: string
  tg_scopes :: "string list"
  tg_resource :: "string option"
  tg_refresh :: bool

record token_mint =
  tm_access :: string
  tm_refresh :: string
  tm_now :: int

record oauth_tokens =
  ot_access_token :: string
  ot_expires_in :: int
  ot_scope :: string
  ot_refresh_token :: "string option"

definition lookupClientTokenTtl :: "string \<Rightarrow> auth_db \<Rightarrow> int option" where
  "lookupClientTokenTtl clientId db =
     (if has_columns [''token_ttl''] db then
        case find_client clientId db of
          None \<Rightarrow> None
        | Some c \<Rightarrow> if oc_token_ttl c = Some 0 then None else oc_token_ttl c
      else None)"

definition insert_token :: "oauth_token \<Rightarrow> auth_db \<Rightarrow> oauth_error + auth_db" where
  "insert_token row db =
     (if list_ex (\<lambda>t. tk_hash t = tk_hash row) (ad_tokens db) then Inl UniqueViolation
      else if find_client (tk_client row) db = None then Inl ForeignKeyViolation
      else Inr (db\<lparr>ad_tokens := ad_tokens db @ [row]\<rparr>))"

definition token_row :: "string \<Rightarrow> string \<Rightarrow> token_grant \<Rightarrow> int \<Rightarrow> oauth_token" where
  "token_row hash type g expiry =
     \<lparr>tk_hash = hash, tk_type = type, tk_client = tg_client g, tk_scopes = Some (tg_scopes g),
      tk_expires = Some expiry, tk_resource = or_null (tg_resource g)\<rparr>"

definition effective_ttl :: "provider \<Rightarrow> string \<Rightarrow> auth_db \<Rightarrow> int" where
  "effective_ttl pv clientId db = or_number (pv_tokenTtl pv) (lookupClientTokenTtl clientId db)"

definition issue_access ::
  "runtime \<Rightarrow> provider \<Rightarrow> token_mint \<Rightarrow> token_grant \<Rightarrow> auth_db \<Rightarrow> oauth_error + auth_db" where
  "issue_access rt pv tm g db =
     insert_token (token_row (rt_hash rt (tm_access tm)) ''access'' g
       (tm_now tm div 1000 + effective_ttl pv (tg_client g) db)) db"

definition issue_refresh ::
  "runtime \<Rightarrow> provider \<Rightarrow> token_mint \<Rightarrow> token_grant \<Rightarrow> auth_db \<Rightarrow> oauth_error + auth_db" where
  "issue_refresh rt pv tm g db =
     insert_token (token_row (rt_hash rt (tm_refresh tm)) ''refresh'' g
       (tm_now tm div 1000 + pv_refreshTtl pv)) db"

definition issueTokens ::
  "runtime \<Rightarrow> provider \<Rightarrow> token_mint \<Rightarrow> token_grant \<Rightarrow> auth_db \<Rightarrow> (oauth_error + oauth_tokens) \<times> auth_db" where
  "issueTokens rt pv tm g db =
     (let ttl = effective_ttl pv (tg_client g) db;
          result = \<lparr>ot_access_token = tm_access tm, ot_expires_in = ttl,
                    ot_scope = join_with '' '' (tg_scopes g), ot_refresh_token = None\<rparr>
      in case issue_access rt pv tm g db of
           Inl e \<Rightarrow> (Inl e, db)
         | Inr db1 \<Rightarrow>
             if tg_refresh g then
               (case issue_refresh rt pv tm g db1 of
                  Inl e \<Rightarrow> (Inl e, db1)
                | Inr db2 \<Rightarrow> (Inr (result\<lparr>ot_refresh_token := Some (tm_refresh tm)\<rparr>), db2))
             else (Inr result, db1))"

section \<open>Redeeming\<close>

definition code_matches :: "string \<Rightarrow> string \<Rightarrow> string option \<Rightarrow> int \<Rightarrow> oauth_code \<Rightarrow> bool" where
  "code_matches codeHash clientId redirectUri now c =
     (cd_hash c = codeHash \<and> cd_client c = clientId \<and>
      (case redirectUri of None \<Rightarrow> True | Some u \<Rightarrow> cd_redirect c = u) \<and> cd_expires c > now)"

text \<open>\<open>DELETE FROM oauth_codes .. RETURNING\<close>, and what is granted.\<close>

definition redeem_code ::
  "runtime \<Rightarrow> client_info \<Rightarrow> string \<Rightarrow> string option \<Rightarrow> string option \<Rightarrow> int \<Rightarrow> auth_db \<Rightarrow>
   (oauth_error + token_grant) \<times> auth_db" where
  "redeem_code rt client code redirectUri resource nowMs db =
     (let hit = code_matches (rt_hash rt code) (ci_id client) redirectUri (nowMs div 1000) in
      case filter hit (ad_codes db) of
        [] \<Rightarrow> (Inl CodeNotFound, db)
      | row # _ \<Rightarrow>
          (Inr \<lparr>tg_client = ci_id client, tg_scopes = cd_scopes row, tg_resource = resource,
                tg_refresh = True\<rparr>,
           db\<lparr>ad_codes := filter (\<lambda>c. \<not> hit c) (ad_codes db)\<rparr>))"

definition and_issue ::
  "runtime \<Rightarrow> provider \<Rightarrow> token_mint \<Rightarrow> (oauth_error + token_grant) \<times> auth_db \<Rightarrow>
   (oauth_error + oauth_tokens) \<times> auth_db" where
  "and_issue rt pv tm r =
     (case r of (Inl e, db) \<Rightarrow> (Inl e, db) | (Inr g, db) \<Rightarrow> issueTokens rt pv tm g db)"

definition exchangeAuthorizationCode ::
  "runtime \<Rightarrow> provider \<Rightarrow> token_mint \<Rightarrow> client_info \<Rightarrow> string \<Rightarrow> string option \<Rightarrow> string option \<Rightarrow>
   string option \<Rightarrow> int \<Rightarrow> auth_db \<Rightarrow> (oauth_error + oauth_tokens) \<times> auth_db" where
  "exchangeAuthorizationCode rt pv tm client code codeVerifier redirectUri resource nowMs db =
     and_issue rt pv tm (redeem_code rt client code redirectUri resource nowMs db)"

definition refresh_matches :: "string \<Rightarrow> string \<Rightarrow> oauth_token \<Rightarrow> bool" where
  "refresh_matches tokenHash clientId t =
     (tk_hash t = tokenHash \<and> tk_type t = ''refresh'' \<and> tk_client t = clientId)"

definition redeem_refresh ::
  "runtime \<Rightarrow> client_info \<Rightarrow> string \<Rightarrow> string list option \<Rightarrow> string option \<Rightarrow> int \<Rightarrow> auth_db \<Rightarrow>
   (oauth_error + token_grant) \<times> auth_db" where
  "redeem_refresh rt client refreshToken scopes resource nowMs db =
     (let hit = refresh_matches (rt_hash rt refreshToken) (ci_id client);
          now = nowMs div 1000;
          db1 = db\<lparr>ad_tokens := filter (\<lambda>t. \<not> hit t) (ad_tokens db)\<rparr>
      in case filter hit (ad_tokens db) of
           [] \<Rightarrow> (Inl RefreshNotFound, db)
         | row # _ \<Rightarrow>
             (if (case tk_expires row of None \<Rightarrow> True | Some e \<Rightarrow> e < now) then (Inl RefreshExpired, db1)
              else
                let grantedScopes = or_default [] (tk_scopes row) in
                if (case scopes of None \<Rightarrow> False
                      | Some ss \<Rightarrow> list_ex (\<lambda>s. \<not> hasScope grantedScopes s) ss)
                then (Inl ScopeExceedsGrant, db1)
                else (Inr \<lparr>tg_client = ci_id client, tg_scopes = or_default grantedScopes scopes,
                           tg_resource = resource, tg_refresh = True\<rparr>, db1)))"

definition exchangeRefreshToken ::
  "runtime \<Rightarrow> provider \<Rightarrow> token_mint \<Rightarrow> client_info \<Rightarrow> string \<Rightarrow> string list option \<Rightarrow> string option \<Rightarrow>
   int \<Rightarrow> auth_db \<Rightarrow> (oauth_error + oauth_tokens) \<times> auth_db" where
  "exchangeRefreshToken rt pv tm client refreshToken scopes resource nowMs db =
     and_issue rt pv tm (redeem_refresh rt client refreshToken scopes resource nowMs db)"

text \<open>The probe for a soft-deleted client; an older schema has no such column.\<close>

definition soft_deleted :: "string \<Rightarrow> auth_db \<Rightarrow> bool" where
  "soft_deleted clientId db =
     (has_columns [''deleted_at''] db \<and>
      list_ex (\<lambda>c. oc_id c = clientId \<and> oc_deleted_at c \<noteq> None) (ad_clients db))"

definition verifyConfidentialClientSecret ::
  "runtime \<Rightarrow> string \<Rightarrow> string \<Rightarrow> auth_db \<Rightarrow> oauth_error + client_info" where
  "verifyConfidentialClientSecret rt clientId presentedSecret db =
     (case getClient clientId db of
        None \<Rightarrow> Inl InvalidClient
      | Some client \<Rightarrow>
          if ci_secret client = None then Inl InvalidClient
          else if ci_secret client \<noteq> Some (rt_hash rt presentedSecret) then Inl InvalidClient
          else if soft_deleted clientId db then Inl ClientRevoked
          else Inr client)"

definition grant_client_credentials ::
  "runtime \<Rightarrow> string \<Rightarrow> string \<Rightarrow> string option \<Rightarrow> auth_db \<Rightarrow> (oauth_error + token_grant) \<times> auth_db" where
  "grant_client_credentials rt clientId clientSecret requestedScope db =
     (case getClient clientId db of
        None \<Rightarrow> (Inl ClientNotFound, db)
      | Some client \<Rightarrow>
          if soft_deleted clientId db then (Inl ClientRevoked, db)
          else if ''client_credentials'' \<notin> set (ci_grants client) then (Inl GrantNotAuthorized, db)
          else if ci_secret client \<noteq> Some (rt_hash rt clientSecret) then (Inl InvalidClientSecret, db)
          else
            let allowedScopes = parseScopeString (ci_scope client);
                requestedScopes = (case requestedScope of
                    None \<Rightarrow> allowedScopes
                  | Some s \<Rightarrow> if s = [] then allowedScopes else parseScopeString (Some s))
            in (Inr \<lparr>tg_client = clientId, tg_scopes = clamp_scopes allowedScopes requestedScopes,
                     tg_resource = None, tg_refresh = False\<rparr>, db))"

definition exchangeClientCredentials ::
  "runtime \<Rightarrow> provider \<Rightarrow> token_mint \<Rightarrow> string \<Rightarrow> string \<Rightarrow> string option \<Rightarrow> auth_db \<Rightarrow>
   (oauth_error + oauth_tokens) \<times> auth_db" where
  "exchangeClientCredentials rt pv tm clientId clientSecret requestedScope db =
     and_issue rt pv tm (grant_client_credentials rt clientId clientSecret requestedScope db)"

end
