(* ===== verification/OAuthVerify.thy ===== *)
theory OAuthVerify
  imports OAuth
begin

text \<open>
  What a presented token stands for (\<open>verifyAccessToken\<close>, with its retries on older schemas and the older
  bearer tokens), and the changes operators and clients make: revocation, sweeping, manual
  registration, \<open>rescopeClient\<close>, secrets, lifetimes, the self-chosen tool surface, minted bearer tokens,
  and the \<open>/token\<close> route of confidential clients (\<open>serve-http.ts\<close>).
\<close>

section \<open>Verification\<close>

record auth_info =
  ai_token :: string
  ai_clientId :: string
  ai_clientName :: "string option"
  ai_scopes :: "string list"
  ai_expiresAt :: int
  ai_resource :: "string option"
  ai_sourceId :: "string option"
  ai_allowedSources :: "string list option"
  ai_boundSlugPrefixes :: "string list option"
  ai_fenceDegraded :: bool
  ai_surface :: "string option"
  ai_surfaceSetBy :: "string option"
  ai_hasSourceGrant :: "bool option"
  ai_takesHolders :: "string list option"

text \<open>The projections \<open>verifyAccessToken\<close> tries, widest first.\<close>

definition VERIFY_RUNGS :: "string list list" where
  "VERIFY_RUNGS =
     [[''source_id'', ''federated_read'', ''bound_slug_prefixes'', ''surface'', ''surface_set_by''],
      [''source_id'', ''federated_read'', ''bound_slug_prefixes''],
      [''source_id'', ''federated_read''],
      [''source_id''],
      []]"

fun choose_rung :: "string list list \<Rightarrow> auth_db \<Rightarrow> string list" where
  "choose_rung [] db = []"
| "choose_rung (r # rs) db = (if has_columns r db then r else choose_rung rs db)"

text \<open>A column of the joined client: NULL without a client, absent when the projection lacks it.\<close>

definition joined :: "string list \<Rightarrow> string \<Rightarrow> (oauth_client \<Rightarrow> 'a option) \<Rightarrow> oauth_client option \<Rightarrow> 'a option" where
  "joined rung col f c = (if col \<in> set rung then Option.bind c f else None)"

definition oauth_auth_info :: "string list \<Rightarrow> string \<Rightarrow> oauth_token \<Rightarrow> int \<Rightarrow> oauth_client option \<Rightarrow> auth_info" where
  "oauth_auth_info rung token row expiresAt c =
     (let rowSourceId = joined rung ''source_id'' oc_source c;
          federatedRaw = joined rung ''federated_read'' (\<lambda>x. Some (oc_federated x)) c
      in \<lparr>ai_token = token, ai_clientId = tk_client row, ai_clientName = map_option oc_name c,
          ai_scopes = or_default [] (tk_scopes row), ai_expiresAt = expiresAt,
          ai_resource = or_null (tk_resource row), ai_sourceId = rowSourceId,
          ai_allowedSources = (case federatedRaw of Some ss \<Rightarrow> Some ss
                               | None \<Rightarrow> map_option (\<lambda>s. [s]) rowSourceId),
          ai_boundSlugPrefixes = joined rung ''bound_slug_prefixes'' oc_bound_prefixes c,
          ai_fenceDegraded = (''bound_slug_prefixes'' \<notin> set rung),
          ai_surface = joined rung ''surface'' oc_surface c,
          ai_surfaceSetBy = joined rung ''surface_set_by'' oc_surface_set_by c,
          ai_hasSourceGrant = None, ai_takesHolders = None\<rparr>)"

definition YEAR_SECONDS :: int where "YEAR_SECONDS = 365 * 24 * 3600"

text \<open>The columns of an older bearer token that the schema has.\<close>

definition legacy_columns :: "auth_db \<Rightarrow> bool \<times> bool" where
  "legacy_columns db =
     (if has_columns [''access_tokens.permissions'', ''access_tokens.scopes''] db then (True, True)
      else if has_columns [''access_tokens.scopes''] db then (False, True)
      else (False, False))"

definition legacy_permissions :: "runtime \<Rightarrow> auth_db \<Rightarrow> legacy_token \<Rightarrow> json_obj option" where
  "legacy_permissions rt db row =
     coerceLegacyPermissions (rt_json rt) (if fst (legacy_columns db) then lt_permissions row else None)"

definition permission :: "json_obj option \<Rightarrow> string \<Rightarrow> json option" where
  "permission p key = Option.bind p (\<lambda>ms. map_of ms key)"

definition legacy_auth_info :: "runtime \<Rightarrow> auth_db \<Rightarrow> string \<Rightarrow> legacy_token \<Rightarrow> int \<Rightarrow> auth_info" where
  "legacy_auth_info rt db token row nowMs =
     (let permissions = legacy_permissions rt db row;
          source = permission permissions ''source_id'';
          scope = parseLegacyTokenScope source;
          grantedScopes = normalizeTokenScopes (if snd (legacy_columns db) then lt_scopes row else None)
      in \<lparr>ai_token = token, ai_clientId = lt_name row, ai_clientName = Some (lt_name row),
          ai_scopes = or_default [''read'', ''write'', ''admin''] grantedScopes,
          ai_expiresAt = nowMs div 1000 + YEAR_SECONDS, ai_resource = None,
          ai_sourceId = Some (ls_sourceId scope), ai_allowedSources = ls_allowedSources scope,
          ai_boundSlugPrefixes = None, ai_fenceDegraded = False,
          ai_surface = None, ai_surfaceSetBy = None,
          ai_hasSourceGrant = Some (source \<noteq> None \<and> source \<noteq> Some JNull),
          ai_takesHolders = parseTakesHoldersAllowList (permission permissions ''takes_holders'')\<rparr>)"

definition touch_legacy :: "string \<Rightarrow> int \<Rightarrow> auth_db \<Rightarrow> auth_db" where
  "touch_legacy tokenHash nowMs db =
     db\<lparr>ad_legacy := upd_where
       (\<lambda>t. lt_hash t = tokenHash \<and> (lt_last_used t = None \<or> sql_lt (lt_last_used t) (nowMs - 60000)))
       (\<lambda>t. t\<lparr>lt_last_used := Some nowMs\<rparr>) (ad_legacy db)\<rparr>"

definition verifyAccessToken ::
  "runtime \<Rightarrow> string \<Rightarrow> int \<Rightarrow> auth_db \<Rightarrow> (oauth_error + auth_info) \<times> auth_db" where
  "verifyAccessToken rt token nowMs db =
     (let tokenHash = rt_hash rt token; now = nowMs div 1000 in
      case List.find (\<lambda>t. tk_hash t = tokenHash \<and> tk_type t = ''access'') (ad_tokens db) of
        Some row \<Rightarrow>
          (case tk_expires row of
             None \<Rightarrow> (Inl TokenExpired, db)
           | Some expiresAt \<Rightarrow>
               if expiresAt < now then (Inl TokenExpired, db)
               else (Inr (oauth_auth_info (choose_rung VERIFY_RUNGS db) token row expiresAt
                           (find_client (tk_client row) db)), db))
      | None \<Rightarrow>
          (case List.find (\<lambda>t. lt_hash t = tokenHash \<and> lt_revoked t = None) (ad_legacy db) of
             Some row \<Rightarrow> (Inr (legacy_auth_info rt db token row nowMs), touch_legacy tokenHash nowMs db)
           | None \<Rightarrow> (Inl InvalidToken, db)))"

section \<open>Revocation and sweeping\<close>

definition revokeToken :: "runtime \<Rightarrow> client_info \<Rightarrow> string \<Rightarrow> auth_db \<Rightarrow> auth_db" where
  "revokeToken rt client token db =
     db\<lparr>ad_tokens := filter (\<lambda>t. \<not> (tk_hash t = rt_hash rt token \<and> tk_client t = ci_id client))
        (ad_tokens db)\<rparr>"

definition sweepExpiredTokens :: "int \<Rightarrow> auth_db \<Rightarrow> int \<times> auth_db" where
  "sweepExpiredTokens nowMs db =
     (let now = nowMs div 1000;
          tokens = filter (\<lambda>t. sql_lt (tk_expires t) now) (ad_tokens db);
          codes = filter (\<lambda>c. cd_expires c < now) (ad_codes db)
      in (int (length tokens) + int (length codes),
          db\<lparr>ad_tokens := filter (\<lambda>t. \<not> sql_lt (tk_expires t) now) (ad_tokens db),
             ad_codes := filter (\<lambda>c. \<not> cd_expires c < now) (ad_codes db)\<rparr>))"

text \<open>\<open>POST /admin/api/revoke-client\<close>: two statements.\<close>

definition admin_revoke_client :: "string \<Rightarrow> int \<Rightarrow> auth_db \<Rightarrow> oauth_error + auth_db" where
  "admin_revoke_client clientId nowMs db =
     (if \<not> has_columns [''deleted_at''] db then Inl UndefinedColumn
      else Inr ((upd_clients (\<lambda>c. oc_id c = clientId \<and> oc_deleted_at c = None)
                   (\<lambda>c. c\<lparr>oc_deleted_at := Some nowMs\<rparr>) db)
                \<lparr>ad_tokens := filter (\<lambda>t. tk_client t \<noteq> clientId) (ad_tokens db)\<rparr>))"

text \<open>\<open>gbrain auth revoke-client\<close>: the row goes, and with it its tokens and codes (ON DELETE CASCADE).\<close>

definition revokeClient :: "string \<Rightarrow> auth_db \<Rightarrow> oauth_error + auth_db" where
  "revokeClient clientId db =
     (if find_client clientId db = None then Inl (NoSuchClient clientId)
      else Inr (db\<lparr>ad_clients := filter (\<lambda>c. oc_id c \<noteq> clientId) (ad_clients db),
                   ad_tokens := filter (\<lambda>t. tk_client t \<noteq> clientId) (ad_tokens db),
                   ad_codes := filter (\<lambda>c. cd_client c \<noteq> clientId) (ad_codes db)\<rparr>))"

section \<open>Registration by an operator\<close>

record agent_bindings =
  ab_tools :: "string list option"
  ab_source :: "string option"
  ab_brain :: "string option"
  ab_prefixes :: "string list option"
  ab_max :: "int option"
  ab_budget :: "string option"

definition BOUND_COLUMNS :: "string list" where
  "BOUND_COLUMNS = [''bound_tools'', ''bound_source_id'', ''bound_brain_id'', ''bound_slug_prefixes'',
     ''bound_max_concurrent'', ''budget_usd_per_day'']"

definition prefix_list_error :: "string list \<Rightarrow> oauth_error option" where
  "prefix_list_error ps =
     (if ps = [] then Some EmptyPrefixList else map_option BadSlugPrefix (assertValidSlugPrefixes ps))"

definition bindings_error :: "agent_bindings option \<Rightarrow> oauth_error option" where
  "bindings_error b = Option.bind b (\<lambda>ab. Option.bind (ab_prefixes ab) prefix_list_error)"

definition bound_client :: "agent_bindings \<Rightarrow> oauth_client \<Rightarrow> oauth_client" where
  "bound_client ab c =
     c\<lparr>oc_bound_tools := ab_tools ab, oc_bound_source := ab_source ab, oc_bound_brain := ab_brain ab,
       oc_bound_prefixes := ab_prefixes ab, oc_bound_max := or_default 1 (ab_max ab),
       oc_budget := ab_budget ab\<rparr>"

record manual_request =
  mr_name :: string
  mr_grants :: "string list"
  mr_scopes :: string
  mr_redirects :: "string list"
  mr_source :: string
  mr_federated :: "string list option"
  mr_auth_method :: "string option"
  mr_bindings :: "agent_bindings option"

definition registerClientManual ::
  "runtime \<Rightarrow> reg_mint \<Rightarrow> manual_request \<Rightarrow> auth_db \<Rightarrow> oauth_error + ((string \<times> string option) \<times> auth_db)" where
  "registerClientManual rt rm q db =
     (case assertAllowedScopes (parseScopeString (Some (mr_scopes q))) of
        Some s \<Rightarrow> Inl (UnknownScope s)
      | None \<Rightarrow>
     (case bindings_error (mr_bindings q) of
        Some e \<Rightarrow> Inl e
      | None \<Rightarrow>
     (case validateTokenEndpointAuthMethod (mr_auth_method q) of
        Inl m \<Rightarrow> Inl (InvalidAuthMethod m)
      | Inr authMethod \<Rightarrow>
          let clientSecret = (if authMethod = ''none'' then None else Some (rm_secret rm));
              base = base_client (rm_client_id rm) (map_option (rt_hash rt) clientSecret) (mr_name q)
                       (mr_redirects q) (mr_grants q) (mr_scopes q) authMethod (rm_now rm div 1000);
              federated = (case mr_federated q of
                  Some fs \<Rightarrow> if fs \<noteq> [] then fs else [mr_source q]
                | None \<Rightarrow> [mr_source q]);
              r = (case mr_bindings q of
                  Some ab \<Rightarrow> insert_client ([''source_id'', ''federated_read''] @ BOUND_COLUMNS)
                     (bound_client ab (base\<lparr>oc_source := Some (mr_source q), oc_federated := federated\<rparr>)) db
                | None \<Rightarrow> insert_ladder (source_rungs base (mr_source q) federated) db)
          in (case r of
                Inr db' \<Rightarrow> Inr ((rm_client_id rm, clientSecret), db')
              | Inl e \<Rightarrow> if e = UndefinedColumn \<and> mr_bindings q \<noteq> None then Inl OldSchema else Inl e))))"

section \<open>Changing a client\<close>

record rescope_opts =
  ro_source :: "string option"
  ro_federated :: "string list option"
  ro_prefixes :: "string list option option"
  ro_surface :: "string option option"

definition rescope_input_error :: "rescope_opts \<Rightarrow> oauth_error option" where
  "rescope_input_error ro =
     (if ro_source ro = None \<and> ro_federated ro = None \<and> ro_prefixes ro = None \<and> ro_surface ro = None
      then Some NothingToRescope
      else if (case ro_source ro of None \<Rightarrow> False | Some s \<Rightarrow> \<not> isValidSourceId s)
      then Some (InvalidSourceId (the (ro_source ro)))
      else if ro_federated ro = Some [] then Some EmptyFederatedRead
      else case List.find (\<lambda>s. \<not> isValidSourceId s) (or_default [] (ro_federated ro)) of
        Some s \<Rightarrow> Some (InvalidSourceId s)
      | None \<Rightarrow>
          (case ro_surface ro of
             Some (Some s) \<Rightarrow>
               if s \<notin> {''verbs'', ''starter'', ''full''} then Some (BadSurface s)
               else (case ro_prefixes ro of Some (Some ps) \<Rightarrow> prefix_list_error ps | _ \<Rightarrow> None)
           | _ \<Rightarrow> (case ro_prefixes ro of Some (Some ps) \<Rightarrow> prefix_list_error ps | _ \<Rightarrow> None)))"

definition rescope_columns :: "rescope_opts \<Rightarrow> string list" where
  "rescope_columns ro =
     [''source_id'', ''federated_read'']
     @ (if ro_prefixes ro = None then [] else [''bound_slug_prefixes''])
     @ (if ro_surface ro = None then [] else [''surface'', ''surface_set_by''])"

definition rescope_row :: "rescope_opts \<Rightarrow> oauth_client \<Rightarrow> oauth_client" where
  "rescope_row ro c =
     (let c1 = c\<lparr>oc_source := coalesce (ro_source ro) (oc_source c),
                 oc_federated := or_default (oc_federated c) (ro_federated ro)\<rparr>;
          c2 = (case ro_prefixes ro of None \<Rightarrow> c1 | Some ps \<Rightarrow> c1\<lparr>oc_bound_prefixes := ps\<rparr>)
      in case ro_surface ro of
           None \<Rightarrow> c2
         | Some sf \<Rightarrow> c2\<lparr>oc_surface := sf,
                         oc_surface_set_by := (if sf = None then None else Some ''operator'')\<rparr>)"

record rescoped =
  rs_client :: string
  rs_name :: string
  rs_source :: string
  rs_federated :: "string list"
  rs_prefixes :: "string list option option"
  rs_surface :: "(string option \<times> string option) option"

definition rescoped_row :: "rescope_opts \<Rightarrow> oauth_client \<Rightarrow> oauth_client \<Rightarrow> rescoped" where
  "rescoped_row ro old c =
     \<lparr>rs_client = oc_id c, rs_name = oc_name c, rs_source = or_default ''default'' (oc_source c),
      rs_federated = oc_federated c,
      rs_prefixes = (if ro_prefixes ro = None then None else Some (oc_bound_prefixes c)),
      rs_surface = (if ro_surface ro = None then None else Some (oc_surface c, oc_surface old))\<rparr>"

definition rescopeClient :: "string \<Rightarrow> rescope_opts \<Rightarrow> auth_db \<Rightarrow> oauth_error + (rescoped \<times> auth_db)" where
  "rescopeClient clientId ro db =
     (case rescope_input_error ro of
        Some e \<Rightarrow> Inl e
      | None \<Rightarrow>
          if \<not> has_columns (rescope_columns ro) db then Inl OldSchema
          else case find_client clientId db of
                 None \<Rightarrow> Inl (NoSuchClient clientId)
               | Some c \<Rightarrow>
                   (case ro_source ro of
                      Some s \<Rightarrow> if s \<notin> set (ad_sources db) then Inl (NoSuchSource s)
                        else Inr (rescoped_row ro c (rescope_row ro c),
                               upd_clients (\<lambda>c. oc_id c = clientId) (rescope_row ro) db)
                    | None \<Rightarrow> Inr (rescoped_row ro c (rescope_row ro c),
                               upd_clients (\<lambda>c. oc_id c = clientId) (rescope_row ro) db)))"

text \<open>\<open>POST /admin/api/update-client-ttl\<close>: a zero or null lifetime clears the override.\<close>

definition update_client_ttl :: "string \<Rightarrow> int option \<Rightarrow> auth_db \<Rightarrow> oauth_error + auth_db" where
  "update_client_ttl clientId tokenTtl db =
     set_token_ttl clientId (if tokenTtl = Some 0 then None else tokenTtl) db"

definition rotateClientSecret :: "runtime \<Rightarrow> string \<Rightarrow> string \<Rightarrow> auth_db \<Rightarrow> oauth_error + auth_db" where
  "rotateClientSecret rt clientId newSecret db =
     (if find_client clientId db = None then Inl (NoSuchClient clientId)
      else Inr (upd_clients (\<lambda>c. oc_id c = clientId)
                 (\<lambda>c. c\<lparr>oc_secret_hash := Some (rt_hash rt newSecret)\<rparr>) db))"

text \<open>The statement of the \<open>request_tools\<close> handler that stores a surface a client chose itself: an
  operator's choice stands. The answer is whether a row was updated.\<close>

definition persist_surface :: "string \<Rightarrow> string \<Rightarrow> auth_db \<Rightarrow> bool \<times> auth_db" where
  "persist_surface clientId requested db =
     (let hit = (\<lambda>c. oc_id c = clientId \<and> oc_surface_set_by c \<noteq> Some ''operator'') in
      (list_ex hit (ad_clients db),
       upd_clients hit (\<lambda>c. c\<lparr>oc_surface := Some requested, oc_surface_set_by := Some ''self''\<rparr>) db))"

section \<open>Bearer tokens\<close>

datatype mint_error = NoTokenName | NoTokenScopes | UnknownTokenScope string | MissingTokenColumns | TokenTaken

definition mintLegacyToken ::
  "runtime \<Rightarrow> string \<Rightarrow> string \<Rightarrow> string \<Rightarrow> string list \<Rightarrow> string list \<Rightarrow> string list option \<Rightarrow> auth_db \<Rightarrow>
   mint_error + auth_db" where
  "mintLegacyToken rt tid token name takesHolders scopes sourceGrant db =
     (if js_trim name = [] then Inl NoTokenName
      else if scopes = [] then Inl NoTokenScopes
      else case assertAllowedScopes scopes of
        Some s \<Rightarrow> Inl (UnknownTokenScope s)
      | None \<Rightarrow>
          let holders = (if takesHolders \<noteq> [] then takesHolders else [''world'']);
              permissions = (''takes_holders'', JArr (map JStr holders))
                 # (case sourceGrant of
                      Some g \<Rightarrow> if g \<noteq> [] then [(''source_id'', JArr (map JStr g))] else []
                    | None \<Rightarrow> []);
              row = \<lparr>lt_id = tid, lt_name = name, lt_hash = rt_hash rt token,
                     lt_permissions = Some (JObj permissions),
                     lt_scopes = Some (JArr (map JStr scopes)), lt_revoked = None, lt_last_used = None\<rparr>
          in if \<not> has_columns [''access_tokens.permissions'', ''access_tokens.scopes''] db
             then Inl MissingTokenColumns
             else if list_ex (\<lambda>t. lt_hash t = lt_hash row \<or> lt_id t = tid) (ad_legacy db) then Inl TokenTaken
             else Inr (db\<lparr>ad_legacy := ad_legacy db @ [row]\<rparr>))"

definition revoke_legacy :: "(legacy_token \<Rightarrow> bool) \<Rightarrow> int \<Rightarrow> auth_db \<Rightarrow> bool \<times> auth_db" where
  "revoke_legacy P nowMs db =
     (list_ex (\<lambda>t. P t \<and> lt_revoked t = None) (ad_legacy db),
      db\<lparr>ad_legacy := upd_where (\<lambda>t. P t \<and> lt_revoked t = None) (\<lambda>t. t\<lparr>lt_revoked := Some nowMs\<rparr>)
         (ad_legacy db)\<rparr>)"

definition revokeLegacyTokenById :: "string \<Rightarrow> int \<Rightarrow> auth_db \<Rightarrow> bool \<times> auth_db" where
  "revokeLegacyTokenById tid = revoke_legacy (\<lambda>t. lt_id t = tid)"

definition revoke_by_name :: "string \<Rightarrow> int \<Rightarrow> auth_db \<Rightarrow> bool \<times> auth_db" where
  "revoke_by_name name = revoke_legacy (\<lambda>t. lt_name t = name)"

section \<open>The token routes\<close>

text \<open>A request to \<open>/token\<close>. \<open>tq_basic\<close> is the decoded \<open>Authorization: Basic\<close> header, absent when there is
  none, when it does not decode or has no colon.\<close>

record token_request =
  tq_grant_type :: "string option"
  tq_client_id :: "string option"
  tq_client_secret :: "string option"
  tq_basic :: "(string \<times> string) option"
  tq_code :: "string option"
  tq_redirect :: "string option"
  tq_verifier :: "string option"
  tq_refresh :: "string option"
  tq_scope :: "string option"

datatype token_answer =
    NextHandler
  | Tokens oauth_tokens
  | BadRequest
  | Unauthorized oauth_error
  | BadGrant oauth_error

definition truthy_str :: "string option \<Rightarrow> bool" where
  "truthy_str s = (s \<noteq> None \<and> s \<noteq> Some [])"

definition credentials :: "token_request \<Rightarrow> (string \<times> string) option" where
  "credentials q =
     (let basic = (if truthy_str (tq_client_secret q) then None else tq_basic q);
          cid = (if truthy_str (tq_client_id q) then tq_client_id q
                 else case basic of Some (u, _) \<Rightarrow> Some u | None \<Rightarrow> tq_client_id q);
          secret = (case basic of Some (_, w) \<Rightarrow> Some w | None \<Rightarrow> tq_client_secret q)
      in if truthy_str cid \<and> truthy_str secret then Some (the cid, the secret) else None)"

definition token_outcome :: "(oauth_error + oauth_tokens) \<times> auth_db \<Rightarrow> token_answer \<times> auth_db" where
  "token_outcome r =
     (case r of
        (Inr t, db) \<Rightarrow> (Tokens t, db)
      | (Inl e, db) \<Rightarrow> (if e \<in> {InvalidClient, ClientRevoked} then Unauthorized e else BadGrant e, db))"

definition confidential_token_route ::
  "runtime \<Rightarrow> provider \<Rightarrow> token_mint \<Rightarrow> token_request \<Rightarrow> int \<Rightarrow> auth_db \<Rightarrow> token_answer \<times> auth_db" where
  "confidential_token_route rt pv tm q nowMs db =
     (if tq_grant_type q \<noteq> Some ''authorization_code'' \<and> tq_grant_type q \<noteq> Some ''refresh_token''
      then (NextHandler, db)
      else case credentials q of
        None \<Rightarrow> (NextHandler, db)
      | Some (clientId, secret) \<Rightarrow>
          (case verifyConfidentialClientSecret rt clientId secret db of
             Inl e \<Rightarrow> token_outcome (Inl e, db)
           | Inr client \<Rightarrow>
               if tq_grant_type q = Some ''authorization_code'' then
                 (if truthy_str (tq_code q)
                  then token_outcome (exchangeAuthorizationCode rt pv tm client (the (tq_code q))
                         (tq_verifier q) (tq_redirect q) None nowMs db)
                  else (BadRequest, db))
               else
                 (if truthy_str (tq_refresh q)
                  then token_outcome (exchangeRefreshToken rt pv tm client (the (tq_refresh q))
                         (map_option (split_ws False []) (tq_scope q)) None nowMs db)
                  else (BadRequest, db))))"

text \<open>The client-credentials route before it: every error is a 400.\<close>

definition client_credentials_route ::
  "runtime \<Rightarrow> provider \<Rightarrow> token_mint \<Rightarrow> token_request \<Rightarrow> auth_db \<Rightarrow> token_answer \<times> auth_db" where
  "client_credentials_route rt pv tm q db =
     (if tq_grant_type q \<noteq> Some ''client_credentials'' then (NextHandler, db)
      else if \<not> truthy_str (tq_client_id q) \<or> \<not> truthy_str (tq_client_secret q) then (BadRequest, db)
      else case exchangeClientCredentials rt pv tm (the (tq_client_id q)) (the (tq_client_secret q))
             (tq_scope q) db of
        (Inr t, db') \<Rightarrow> (Tokens t, db')
      | (Inl e, db') \<Rightarrow> (BadGrant e, db'))"

end
