(* ===== verification/OAuthWorld.thy ===== *)
theory OAuthWorld
  imports OAuthVerify DbLockProps
begin

text \<open>
  The authorization server under concurrency. Every request that yields tokens redeems a credential in
  one statement and inserts the tokens in later ones; between them any other request may run. The world
  holds the database and the grants under way, an event is one such piece of one request, and a run is a
  list of events. The tables keep their keys, a redeemed or revoked credential is gone until one with
  its hash is minted again (interface \<open>fenced_resource\<close>), and no scope leaves the registration of its
  client.
\<close>

section \<open>Events\<close>

record auth_world =
  aw_db :: auth_db
  aw_access :: "token_grant list"
  aw_refresh :: "token_grant list"

datatype auth_event =
    RegisterDcr reg_mint client_meta "rat option"
  | RegisterManual reg_mint manual_request
  | Authorize string auth_params string int
  | RedeemCode string string "string option" "string option" int
  | RedeemRefresh string string "string list option" "string option" int
  | RedeemCredentials string string "string option"
  | IssueAccess nat token_mint
  | IssueRefresh nat token_mint
  | Verify string int
  | RevokeToken string string
  | Sweep int
  | AdminRevoke string int
  | CliRevoke string
  | Rescope string rescope_opts
  | SetTtl string "int option"
  | RotateSecret string string
  | PersistSurface string string
  | MintBearer string string string "string list" "string list" "string list option"
  | RevokeBearer string int

definition with_db :: "auth_world \<Rightarrow> auth_db \<Rightarrow> auth_world" where
  "with_db w db = w\<lparr>aw_db := db\<rparr>"

definition on_client :: "string \<Rightarrow> auth_world \<Rightarrow> (client_info \<Rightarrow> auth_world) \<Rightarrow> auth_world" where
  "on_client cid w f = (case getClient cid (aw_db w) of None \<Rightarrow> w | Some client \<Rightarrow> f client)"

text \<open>A redemption: the grant, if there is one, is now under way.\<close>

definition granted :: "auth_world \<Rightarrow> (oauth_error + token_grant) \<times> auth_db \<Rightarrow> auth_world" where
  "granted w r =
     (case r of
        (Inl e, db) \<Rightarrow> with_db w db
      | (Inr g, db) \<Rightarrow> (with_db w db)\<lparr>aw_access := aw_access w @ [g]\<rparr>)"

definition drop_nth :: "nat \<Rightarrow> 'a list \<Rightarrow> 'a list" where
  "drop_nth k xs = take k xs @ drop (Suc k) xs"

definition db_result :: "auth_world \<Rightarrow> 'e + auth_db \<Rightarrow> auth_world" where
  "db_result w r = (case r of Inl e \<Rightarrow> w | Inr db \<Rightarrow> with_db w db)"

fun auth_exec :: "runtime \<Rightarrow> provider \<Rightarrow> auth_event \<Rightarrow> auth_world \<Rightarrow> auth_world" where
  "auth_exec rt pv (RegisterDcr rm client ttl) w =
     (if dcr_offered pv then with_db w (snd (registerClient rt pv rm client ttl (aw_db w))) else w)"
| "auth_exec rt pv (RegisterManual rm q) w =
     (case registerClientManual rt rm q (aw_db w) of Inl e \<Rightarrow> w | Inr (r, db) \<Rightarrow> with_db w db)"
| "auth_exec rt pv (Authorize cid params code nowMs) w =
     on_client cid w (\<lambda>client. with_db w (snd (authorize rt client params code nowMs (aw_db w))))"
| "auth_exec rt pv (RedeemCode cid code redirectUri resource nowMs) w =
     on_client cid w (\<lambda>client. granted w (redeem_code rt client code redirectUri resource nowMs (aw_db w)))"
| "auth_exec rt pv (RedeemRefresh cid token scopes resource nowMs) w =
     on_client cid w (\<lambda>client. granted w (redeem_refresh rt client token scopes resource nowMs (aw_db w)))"
| "auth_exec rt pv (RedeemCredentials cid secret scope) w =
     granted w (grant_client_credentials rt cid secret scope (aw_db w))"
| "auth_exec rt pv (IssueAccess k tm) w =
     (if k < length (aw_access w) then
        let g = aw_access w ! k; w1 = w\<lparr>aw_access := drop_nth k (aw_access w)\<rparr> in
        (case issue_access rt pv tm g (aw_db w) of
           Inl e \<Rightarrow> w1
         | Inr db \<Rightarrow> if tg_refresh g then (with_db w1 db)\<lparr>aw_refresh := aw_refresh w @ [g]\<rparr>
                     else with_db w1 db)
      else w)"
| "auth_exec rt pv (IssueRefresh k tm) w =
     (if k < length (aw_refresh w) then
        let g = aw_refresh w ! k; w1 = w\<lparr>aw_refresh := drop_nth k (aw_refresh w)\<rparr> in
        db_result w1 (issue_refresh rt pv tm g (aw_db w))
      else w)"
| "auth_exec rt pv (Verify token nowMs) w =
     with_db w (snd (verifyAccessToken rt token nowMs (aw_db w)))"
| "auth_exec rt pv (RevokeToken cid token) w =
     on_client cid w (\<lambda>client. with_db w (revokeToken rt client token (aw_db w)))"
| "auth_exec rt pv (Sweep nowMs) w = with_db w (snd (sweepExpiredTokens nowMs (aw_db w)))"
| "auth_exec rt pv (AdminRevoke cid nowMs) w = db_result w (admin_revoke_client cid nowMs (aw_db w))"
| "auth_exec rt pv (CliRevoke cid) w = db_result w (revokeClient cid (aw_db w))"
| "auth_exec rt pv (Rescope cid ro) w =
     (case rescopeClient cid ro (aw_db w) of Inl e \<Rightarrow> w | Inr (r, db) \<Rightarrow> with_db w db)"
| "auth_exec rt pv (SetTtl cid ttl) w = db_result w (update_client_ttl cid ttl (aw_db w))"
| "auth_exec rt pv (RotateSecret cid secret) w = db_result w (rotateClientSecret rt cid secret (aw_db w))"
| "auth_exec rt pv (PersistSurface cid surface) w =
     with_db w (snd (persist_surface cid surface (aw_db w)))"
| "auth_exec rt pv (MintBearer tid token name holders scopes grant) w =
     db_result w (mintLegacyToken rt tid token name holders scopes grant (aw_db w))"
| "auth_exec rt pv (RevokeBearer tid nowMs) w =
     with_db w (snd (revokeLegacyTokenById tid nowMs (aw_db w)))"

definition empty_world :: "string list \<Rightarrow> string list \<Rightarrow> auth_world" where
  "empty_world columns sources =
     \<lparr>aw_db = \<lparr>ad_columns = columns, ad_sources = sources, ad_clients = [], ad_codes = [],
               ad_tokens = [], ad_legacy = []\<rparr>, aw_access = [], aw_refresh = []\<rparr>"

text \<open>The client ids a run generates.\<close>

fun registered_ids :: "auth_event list \<Rightarrow> string list" where
  "registered_ids [] = []"
| "registered_ids (RegisterDcr rm c t # es) = rm_client_id rm # registered_ids es"
| "registered_ids (RegisterManual rm q # es) = rm_client_id rm # registered_ids es"
| "registered_ids (e # es) = registered_ids es"

section \<open>What an operation can do to the tables\<close>

lemma find_client_Some: "find_client cid db = Some c \<Longrightarrow> c \<in> set (ad_clients db) \<and> oc_id c = cid"
  by (auto simp: find_client_def find_Some_iff)

lemma find_client_None: "find_client cid db = None \<longleftrightarrow> (\<forall>c \<in> set (ad_clients db). oc_id c \<noteq> cid)"
  by (auto simp: find_client_def find_None_iff)

text \<open>The columns of a client that no operation changes.\<close>

definition client_key :: "oauth_client \<Rightarrow> string \<times> string option \<times> string list option" where
  "client_key c = (oc_id c, oc_scope c, oc_grants c)"

definition client_keys :: "auth_db \<Rightarrow> (string \<times> string option \<times> string list option) list" where
  "client_keys db = map client_key (ad_clients db)"

text \<open>The registration of a client: scope and grant types.\<close>

definition registration :: "string \<Rightarrow> auth_db \<Rightarrow> (string option \<times> string list option) option" where
  "registration cid db = map_option (\<lambda>c. (oc_scope c, oc_grants c)) (find_client cid db)"

datatype auth_change =
    Quiet
  | NewClient oauth_client
  | NewCode oauth_code
  | NewToken oauth_token
  | Gone string

inductive db_change :: "auth_change \<Rightarrow> auth_db \<Rightarrow> auth_db \<Rightarrow> bool" where
  quiet: "client_keys db' = client_keys db \<Longrightarrow> ad_codes db' = filter P (ad_codes db) \<Longrightarrow>
    ad_tokens db' = filter Q (ad_tokens db) \<Longrightarrow> db_change Quiet db db'"
| new_client: "find_client (oc_id row) db = None \<Longrightarrow>
    db_change (NewClient row) db (db\<lparr>ad_clients := ad_clients db @ [row]\<rparr>)"
| new_code: "\<forall>c \<in> set (ad_codes db). cd_hash c \<noteq> cd_hash row \<Longrightarrow> find_client (cd_client row) db \<noteq> None \<Longrightarrow>
    db_change (NewCode row) db (db\<lparr>ad_codes := ad_codes db @ [row]\<rparr>)"
| new_token: "\<forall>t \<in> set (ad_tokens db). tk_hash t \<noteq> tk_hash row \<Longrightarrow> find_client (tk_client row) db \<noteq> None \<Longrightarrow>
    db_change (NewToken row) db (db\<lparr>ad_tokens := ad_tokens db @ [row]\<rparr>)"
| gone: "ad_clients db' = filter (\<lambda>c. oc_id c \<noteq> cid) (ad_clients db) \<Longrightarrow>
    ad_tokens db' = filter (\<lambda>t. tk_client t \<noteq> cid) (ad_tokens db) \<Longrightarrow>
    ad_codes db' = filter (\<lambda>c. cd_client c \<noteq> cid) (ad_codes db) \<Longrightarrow> db_change (Gone cid) db db'"

inductive_cases quietE: "db_change Quiet db db'"
inductive_cases new_clientE: "db_change (NewClient row) db db'"
inductive_cases new_codeE: "db_change (NewCode row) db db'"
inductive_cases new_tokenE: "db_change (NewToken row) db db'"
inductive_cases goneE: "db_change (Gone cid) db db'"

text \<open>What never happens by itself: a quiet change keeps registrations.\<close>

lemma find_by_key:
  "map client_key cs = map client_key cs' \<Longrightarrow>
     map_option client_key (List.find (\<lambda>c. oc_id c = cid) cs) =
     map_option client_key (List.find (\<lambda>c. oc_id c = cid) cs')"
proof (induction cs arbitrary: cs')
  case (Cons c cs)
  then obtain c' cs2 where "cs' = c' # cs2" "client_key c = client_key c'"
      "map client_key cs = map client_key cs2" by auto
  moreover from this have "oc_id c = oc_id c'" by (simp add: client_key_def)
  ultimately show ?case using Cons.IH [of cs2] by simp
qed simp

lemma registration_keys:
  "registration cid db = map_option snd (map_option client_key (find_client cid db))"
  by (simp add: registration_def client_key_def option.map_comp comp_def)

lemma registration_quiet:
  assumes "client_keys db' = client_keys db"
  shows "registration cid db' = registration cid db"
  using find_by_key [of "ad_clients db'" "ad_clients db" cid] assms
  by (simp add: registration_keys client_keys_def find_client_def)

lemma registration_None: "registration cid db = None \<longleftrightarrow> find_client cid db = None"
  by (simp add: registration_def)

lemma find_append: "List.find P (xs @ ys) = (case List.find P xs of Some x \<Rightarrow> Some x | None \<Rightarrow> List.find P ys)"
  by (induction xs) auto

lemma find_filter_ne: "List.find (\<lambda>c. oc_id c = a) (filter (\<lambda>c. oc_id c \<noteq> b) cs) =
    (if a = b then None else List.find (\<lambda>c. oc_id c = a) cs)"
  by (induction cs) auto

lemma registration_change:
  assumes "db_change ch db db'"
  shows "registration cid db' =
    (case ch of NewClient row \<Rightarrow> if oc_id row = cid then Some (oc_scope row, oc_grants row) else registration cid db
      | Gone c \<Rightarrow> if c = cid then None else registration cid db
      | _ \<Rightarrow> registration cid db)"
  using assms
proof cases
  case quiet
  then show ?thesis using registration_quiet [of db' db cid] by (simp only: auth_change.case)
next
  case (new_client row)
  then show ?thesis
    by (cases "oc_id row = cid")
      (auto simp: registration_def find_client_def find_append split: option.splits)
next
  case (gone cid')
  then show ?thesis by (simp add: registration_def find_client_def find_filter_ne)
qed (simp_all add: registration_def find_client_def)

section \<open>Keys\<close>

definition auth_keys :: "auth_db \<Rightarrow> bool" where
  "auth_keys db = (distinct (map oc_id (ad_clients db)) \<and> distinct (map cd_hash (ad_codes db)) \<and>
     distinct (map tk_hash (ad_tokens db)) \<and>
     (\<forall>c \<in> set (ad_codes db). registration (cd_client c) db \<noteq> None) \<and>
     (\<forall>t \<in> set (ad_tokens db). registration (tk_client t) db \<noteq> None))"

lemma map_oc_id: "map oc_id (ad_clients db) = map fst (client_keys db)"
  by (simp add: client_keys_def client_key_def comp_def)

lemma auth_keys_change:
  assumes "auth_keys db" and ch: "db_change ch db db'"
  shows "auth_keys db'"
  using ch
proof cases
  case (quiet P Q)
  moreover have "registration cid db' = registration cid db" for cid
    using registration_quiet quiet(2) .
  ultimately show ?thesis using assms(1)
    by (simp add: auth_keys_def map_oc_id distinct_map_filter)
next
  case (new_client row)
  then have "registration cid db \<noteq> None \<Longrightarrow> registration cid db' \<noteq> None" for cid
    using registration_change [OF ch, of cid] by simp
  moreover have "oc_id row \<notin> set (map oc_id (ad_clients db))"
    using new_client by (auto simp: find_client_None)
  ultimately show ?thesis using assms(1) new_client by (auto simp: auth_keys_def)
next
  case (new_code row)
  have reg: "registration cid db' = registration cid db" for cid
    using registration_change [OF ch, of cid] new_code by simp
  from new_code have "registration (cd_client row) db \<noteq> None" by (simp add: registration_None)
  with assms(1) new_code show ?thesis unfolding auth_keys_def reg by auto
next
  case (new_token row)
  have reg: "registration cid db' = registration cid db" for cid
    using registration_change [OF ch, of cid] new_token by simp
  from new_token have "registration (tk_client row) db \<noteq> None" by (simp add: registration_None)
  with assms(1) new_token show ?thesis unfolding auth_keys_def reg by auto
next
  case (gone cid)
  have "registration c db' = (if c = cid then None else registration c db)" for c
    using registration_change [OF ch, of c] gone by simp
  with assms(1) gone show ?thesis by (auto simp: auth_keys_def distinct_map_filter)
qed

section \<open>The effect of an event\<close>

fun mints_code :: "runtime \<Rightarrow> string \<Rightarrow> auth_event \<Rightarrow> bool" where
  "mints_code rt h (Authorize cid params code nowMs) = (rt_hash rt code = h)"
| "mints_code rt h _ = False"

fun mints_token :: "runtime \<Rightarrow> string \<Rightarrow> auth_event \<Rightarrow> bool" where
  "mints_token rt h (IssueAccess k tm) = (rt_hash rt (tm_access tm) = h)"
| "mints_token rt h (IssueRefresh k tm) = (rt_hash rt (tm_refresh tm) = h)"
| "mints_token rt h _ = False"

text \<open>Scopes within those a client is registered for.\<close>

definition capped :: "string \<Rightarrow> string list \<Rightarrow> auth_db \<Rightarrow> bool" where
  "capped cid ss db = (\<forall>sc gs. registration cid db = Some (sc, gs) \<longrightarrow>
     (\<forall>s \<in> set ss. hasScope (parseScopeString sc) s))"

definition grants_under_way :: "auth_world \<Rightarrow> token_grant set" where
  "grants_under_way w = set (aw_access w) \<union> set (aw_refresh w)"

text \<open>The changes an event may make: a code carries capped scopes, a token those of a grant under way.\<close>

definition allowed_change :: "runtime \<Rightarrow> auth_world \<Rightarrow> auth_event \<Rightarrow> auth_change \<Rightarrow> bool" where
  "allowed_change rt w e ch =
     (case ch of
        Quiet \<Rightarrow> True
      | NewClient row \<Rightarrow> oc_id row \<in> set (registered_ids [e])
      | NewCode row \<Rightarrow> mints_code rt (cd_hash row) e \<and> capped (cd_client row) (cd_scopes row) (aw_db w)
      | NewToken row \<Rightarrow> mints_token rt (tk_hash row) e \<and>
          (\<exists>g \<in> grants_under_way w. tk_client row = tg_client g \<and> tk_scopes row = Some (tg_scopes g))
      | Gone cid \<Rightarrow> e = CliRevoke cid)"

primrec db_changes :: "auth_change list \<Rightarrow> auth_db \<Rightarrow> auth_db \<Rightarrow> bool" where
  "db_changes [] db db' = (db' = db)"
| "db_changes (ch # chs) db db' = (\<exists>db1. db_change ch db db1 \<and> db_changes chs db1 db')"

definition db_effect :: "runtime \<Rightarrow> auth_world \<Rightarrow> auth_event \<Rightarrow> auth_db \<Rightarrow> auth_db \<Rightarrow> bool" where
  "db_effect rt w e db db' = (\<exists>chs. db_changes chs db db' \<and> list_all (allowed_change rt w e) chs)"

lemma effect_none [simp]: "db_effect rt w e db db"
  unfolding db_effect_def by (rule exI [of _ "[]"]) simp

lemma effect_one: "db_change ch db db' \<Longrightarrow> allowed_change rt w e ch \<Longrightarrow> db_effect rt w e db db'"
  unfolding db_effect_def by (rule exI [of _ "[ch]"]) simp

lemma effect_two:
  "db_change ch db db1 \<Longrightarrow> db_change ch' db1 db' \<Longrightarrow> allowed_change rt w e ch \<Longrightarrow> allowed_change rt w e ch' \<Longrightarrow>
     db_effect rt w e db db'"
  unfolding db_effect_def by (rule exI [of _ "[ch, ch']"]) auto

lemma effect_quiet: "db_change Quiet db db' \<Longrightarrow> db_effect rt w e db db'"
  by (rule effect_one [where ch = Quiet]) (simp_all add: allowed_change_def)

lemma quietI:
  assumes "client_keys db' = client_keys db" and "ad_codes db' = ad_codes db"
    and "ad_tokens db' = ad_tokens db"
  shows "db_change Quiet db db'"
  by (rule db_change.quiet [where P = "\<lambda>_. True" and Q = "\<lambda>_. True"]) (simp_all add: assms)

lemma quiet_clients:
  assumes "\<And>c. client_key (f c) = client_key c"
  shows "db_change Quiet db (upd_clients P f db)"
  by (rule quietI) (simp_all add: upd_clients_def client_keys_def upd_where_def assms comp_def)

lemma quiet_tokens: "db_change Quiet db (db\<lparr>ad_tokens := filter Q (ad_tokens db)\<rparr>)"
  by (rule db_change.quiet [where P = "\<lambda>_. True" and Q = Q]) (simp_all add: client_keys_def)

lemma quiet_codes: "db_change Quiet db (db\<lparr>ad_codes := filter P (ad_codes db)\<rparr>)"
  by (rule db_change.quiet [where P = P and Q = "\<lambda>_. True"]) (simp_all add: client_keys_def)

lemma quiet_legacy: "db_change Quiet db (db\<lparr>ad_legacy := xs\<rparr>)"
  by (rule quietI) (simp_all add: client_keys_def)

section \<open>The effect of each operation\<close>

lemma insert_client_change:
  assumes "insert_client need row db = Inr db'"
  shows "db_change (NewClient row) db db'"
proof -
  from assms have "find_client (oc_id row) db = None" "db' = db\<lparr>ad_clients := ad_clients db @ [row]\<rparr>"
    by (auto simp: insert_client_def split: if_splits)
  then show ?thesis using new_client by simp
qed

lemma insert_ladder_change:
  assumes "insert_ladder rungs db = Inr db'"
  shows "\<exists>row \<in> snd ` set rungs. db_change (NewClient row) db db'"
  using assms
proof (induction rungs)
  case (Cons r rungs)
  obtain need row where r: "r = (need, row)" by force
  show ?case
  proof (cases "insert_client need row db")
    case (Inl e)
    with Cons r have "insert_ladder rungs db = Inr db'" by (auto split: if_splits)
    with Cons.IH show ?thesis by auto
  next
    case (Inr db2)
    with Cons.prems r insert_client_change [OF Inr] show ?thesis by auto
  qed
qed simp

lemma source_rungs_row:
  assumes "row \<in> snd ` set (source_rungs base s fs)"
  shows "client_key row = client_key base"
  using assms by (auto simp: source_rungs_def client_key_def)

lemma set_token_ttl_change: "set_token_ttl cid ttl db = Inr db' \<Longrightarrow> db_change Quiet db db'"
  by (auto simp: set_token_ttl_def client_key_def split: if_splits intro!: quiet_clients)

text \<open>A self-registration inserts a row with the checked scope and grant types, then at most sets its lifetime.\<close>

lemma registerClient_change:
  assumes "registerClient rt pv rm client ttl db = (r, db')"
  shows "db' = db \<or> (\<exists>row db1 m gs sc. dcr_checks rt pv client = Inr (m, gs, sc) \<and>
     client_key row = (rm_client_id rm, Some sc, Some gs) \<and>
     db_change (NewClient row) db db1 \<and> (db' = db1 \<or> db_change Quiet db1 db'))"
proof (cases "dcr_checks rt pv client")
  case (Inl e)
  with assms show ?thesis by (simp add: registerClient_def)
next
  case (Inr p)
  obtain m gs sc where p: "p = (m, gs, sc)" by (cases p) auto
  define name where "name = (case cm_name client of Some n \<Rightarrow> if n = [] then ''unnamed'' else n | None \<Rightarrow> ''unnamed'')"
  define base where "base = base_client (rm_client_id rm)
      (map_option (rt_hash rt) (if m = ''none'' then None else Some (rm_secret rm))) name
      (or_default [] (cm_redirects client)) gs sc m (rm_now rm div 1000)"
  have key: "client_key base = (rm_client_id rm, Some sc, Some gs)"
    by (simp add: base_def base_client_def client_key_def)
  show ?thesis
  proof (cases "insert_ladder (source_rungs base ''default'' [''default'']) db")
    case l: (Inl e)
    with assms Inr p show ?thesis by (simp add: registerClient_def Let_def base_def name_def)
  next
    case l: (Inr db1)
    from insert_ladder_change [OF l] obtain row where
      row: "client_key row = client_key base" "db_change (NewClient row) db db1"
      using source_rungs_row by blast
    have "db' = db1 \<or> db_change Quiet db1 db'"
      using assms Inr p l set_token_ttl_change
      by (auto simp: registerClient_def Let_def base_def name_def split: option.splits sum.splits if_splits)
    moreover have "dcr_checks rt pv client = Inr (m, gs, sc)" using Inr p by simp
    moreover have "client_key row = (rm_client_id rm, Some sc, Some gs)" using row(1) key by simp
    ultimately show ?thesis using row(2) by blast
  qed
qed

lemma registerClientManual_change:
  assumes "registerClientManual rt rm q db = Inr (r, db')"
  shows "\<exists>row. client_key row = (rm_client_id rm, Some (mr_scopes q), Some (mr_grants q)) \<and>
     db_change (NewClient row) db db'"
proof -
  from assms obtain m where v: "validateTokenEndpointAuthMethod (mr_auth_method q) = Inr m"
    by (auto simp: registerClientManual_def split: option.splits sum.splits)
  define base where "base = base_client (rm_client_id rm)
      (map_option (rt_hash rt) (if m = ''none'' then None else Some (rm_secret rm))) (mr_name q)
      (mr_redirects q) (mr_grants q) (mr_scopes q) m (rm_now rm div 1000)"
  define fed where "fed = (case mr_federated q of Some fs \<Rightarrow> if fs \<noteq> [] then fs else [mr_source q]
                | None \<Rightarrow> [mr_source q])"
  have key: "client_key base = (rm_client_id rm, Some (mr_scopes q), Some (mr_grants q))"
    by (simp add: base_def base_client_def client_key_def)
  show ?thesis
  proof (cases "mr_bindings q")
    case None
    with assms v have "insert_ladder (source_rungs base (mr_source q) fed) db = Inr db'"
      by (auto simp: registerClientManual_def base_def fed_def Let_def split: option.splits sum.splits if_splits)
    from insert_ladder_change [OF this] source_rungs_row key show ?thesis by metis
  next
    case (Some ab)
    define row where "row = bound_client ab (base\<lparr>oc_source := Some (mr_source q), oc_federated := fed\<rparr>)"
    from Some assms v have "insert_client ([''source_id'', ''federated_read''] @ BOUND_COLUMNS) row db = Inr db'"
      by (auto simp: registerClientManual_def base_def fed_def row_def Let_def split: option.splits sum.splits if_splits)
    moreover have "client_key row = client_key base" by (simp add: row_def bound_client_def client_key_def)
    ultimately show ?thesis using insert_client_change key by metis
  qed
qed

text \<open>The grants, the codes and the tokens.\<close>

lemma authorize_change:
  assumes "authorize rt client params code nowMs db = (r, db')"
  shows "db' = db \<or> (\<exists>row. cd_hash row = rt_hash rt code \<and> cd_client row = ci_id client \<and>
     (\<exists>ss. cd_scopes row = clamp_scopes (parseScopeString (ci_scope client)) ss) \<and>
     db_change (NewCode row) db db')"
proof -
  define row where "row = \<lparr>cd_hash = rt_hash rt code, cd_client = ci_id client,
     cd_scopes = clamp_scopes (parseScopeString (ci_scope client)) (case ap_scopes params of
              Some ss \<Rightarrow> if ss \<noteq> [] then ss else parseScopeString (ci_scope client)
            | None \<Rightarrow> parseScopeString (ci_scope client)),
     cd_challenge = ap_challenge params, cd_method = ''S256'', cd_redirect = ap_redirect params,
     cd_state = or_null (ap_state params), cd_resource = or_null (ap_resource params),
     cd_expires = nowMs div 1000 + 600\<rparr>"
  have eq: "authorize rt client params code nowMs db =
      (case insert_code row db of Inl e \<Rightarrow> (Inl e, db) | Inr db' \<Rightarrow> (Inr code, db'))"
    by (simp add: authorize_def row_def Let_def)
  show ?thesis
  proof (cases "insert_code row db")
    case (Inl e)
    with assms eq show ?thesis by simp
  next
    case (Inr db2)
    then have "db2 = db\<lparr>ad_codes := ad_codes db @ [row]\<rparr>" "\<forall>c \<in> set (ad_codes db). cd_hash c \<noteq> cd_hash row"
      "find_client (cd_client row) db \<noteq> None"
      by (auto simp: insert_code_def list_ex_iff split: if_splits)
    then have "db_change (NewCode row) db db2" using new_code by blast
    moreover have "db' = db2" using assms eq Inr by simp
    moreover have "cd_hash row = rt_hash rt code" "cd_client row = ci_id client"
      "\<exists>ss. cd_scopes row = clamp_scopes (parseScopeString (ci_scope client)) ss"
      by (auto simp: row_def)
    ultimately show ?thesis by blast
  qed
qed

lemma insert_token_change: "insert_token row db = Inr db' \<Longrightarrow> db_change (NewToken row) db db'"
  by (auto simp: insert_token_def list_ex_iff split: if_splits intro!: new_token)

lemma issue_access_change:
  "issue_access rt pv tm g db = Inr db' \<Longrightarrow>
     \<exists>x. db_change (NewToken (token_row (rt_hash rt (tm_access tm)) ''access'' g x)) db db'"
  unfolding issue_access_def by (blast dest: insert_token_change)

lemma issue_refresh_change:
  "issue_refresh rt pv tm g db = Inr db' \<Longrightarrow>
     \<exists>x. db_change (NewToken (token_row (rt_hash rt (tm_refresh tm)) ''refresh'' g x)) db db'"
  unfolding issue_refresh_def by (blast dest: insert_token_change)

lemma redeem_code_cases:
  obtains "redeem_code rt client code redirectUri resource nowMs db = (Inl CodeNotFound, db)"
    "\<forall>c \<in> set (ad_codes db). \<not> code_matches (rt_hash rt code) (ci_id client) redirectUri (nowMs div 1000) c"
  | row where "row \<in> set (ad_codes db)"
    "code_matches (rt_hash rt code) (ci_id client) redirectUri (nowMs div 1000) row"
    "redeem_code rt client code redirectUri resource nowMs db =
      (Inr \<lparr>tg_client = ci_id client, tg_scopes = cd_scopes row, tg_resource = resource, tg_refresh = True\<rparr>,
       db\<lparr>ad_codes := filter (\<lambda>c. \<not> code_matches (rt_hash rt code) (ci_id client) redirectUri (nowMs div 1000) c)
          (ad_codes db)\<rparr>)"
proof (cases "filter (code_matches (rt_hash rt code) (ci_id client) redirectUri (nowMs div 1000)) (ad_codes db)")
  case Nil
  then show ?thesis by (intro that(1)) (simp_all add: redeem_code_def filter_empty_conv)
next
  case (Cons row rows)
  then have "row \<in> set (filter (code_matches (rt_hash rt code) (ci_id client) redirectUri (nowMs div 1000)) (ad_codes db))"
    by (metis list.set_intros(1))
  then have "row \<in> set (ad_codes db)"
    "code_matches (rt_hash rt code) (ci_id client) redirectUri (nowMs div 1000) row" by simp_all
  with Cons show ?thesis by (intro that(2) [of row]) (simp_all add: redeem_code_def)
qed

definition without_refresh :: "runtime \<Rightarrow> string \<Rightarrow> string \<Rightarrow> auth_db \<Rightarrow> auth_db" where
  "without_refresh rt token cid db =
     db\<lparr>ad_tokens := filter (\<lambda>t. \<not> refresh_matches (rt_hash rt token) cid t) (ad_tokens db)\<rparr>"

lemma redeem_refresh_cases:
  obtains "redeem_refresh rt client token scopes resource nowMs db = (Inl RefreshNotFound, db)"
    "\<forall>t \<in> set (ad_tokens db). \<not> refresh_matches (rt_hash rt token) (ci_id client) t"
  | row e where "row \<in> set (ad_tokens db)" "refresh_matches (rt_hash rt token) (ci_id client) row"
    "redeem_refresh rt client token scopes resource nowMs db = (Inl e, without_refresh rt token (ci_id client) db)"
    "e = RefreshExpired \<or> e = ScopeExceedsGrant"
  | row g where "row \<in> set (ad_tokens db)" "refresh_matches (rt_hash rt token) (ci_id client) row"
    "redeem_refresh rt client token scopes resource nowMs db = (Inr g, without_refresh rt token (ci_id client) db)"
    "tg_client g = ci_id client"
    "\<forall>s \<in> set (tg_scopes g). hasScope (or_default [] (tk_scopes row)) s \<or> s \<in> set (or_default [] (tk_scopes row))"
    "\<exists>x. tk_expires row = Some x \<and> nowMs div 1000 \<le> x"
proof (cases "filter (refresh_matches (rt_hash rt token) (ci_id client)) (ad_tokens db)")
  case Nil
  then show ?thesis by (intro that(1)) (simp_all add: redeem_refresh_def filter_empty_conv Let_def)
next
  case (Cons row rows)
  then have "row \<in> set (filter (refresh_matches (rt_hash rt token) (ci_id client)) (ad_tokens db))"
    by (metis list.set_intros(1))
  then have row: "row \<in> set (ad_tokens db)" "refresh_matches (rt_hash rt token) (ci_id client) row" by simp_all
  define late where "late = (case tk_expires row of None \<Rightarrow> True | Some e \<Rightarrow> e < nowMs div 1000)"
  define granted_ss where "granted_ss = or_default [] (tk_scopes row)"
  define exceeds where "exceeds = (case scopes of None \<Rightarrow> False
      | Some ss \<Rightarrow> list_ex (\<lambda>s. \<not> hasScope granted_ss s) ss)"
  have eq: "redeem_refresh rt client token scopes resource nowMs db =
      (if late then (Inl RefreshExpired, without_refresh rt token (ci_id client) db)
       else if exceeds then (Inl ScopeExceedsGrant, without_refresh rt token (ci_id client) db)
       else (Inr \<lparr>tg_client = ci_id client, tg_scopes = or_default granted_ss scopes,
                  tg_resource = resource, tg_refresh = True\<rparr>, without_refresh rt token (ci_id client) db))"
    unfolding exceeds_def granted_ss_def
    using Cons by (simp add: redeem_refresh_def late_def without_refresh_def Let_def)
  show ?thesis
  proof (cases "late \<or> exceeds")
    case True
    with eq row that(2) show ?thesis by (auto split: if_splits)
  next
    case False
    then have "\<forall>s \<in> set (or_default granted_ss scopes). hasScope granted_ss s \<or> s \<in> set granted_ss"
      by (auto simp: exceeds_def or_default_def list_ex_iff split: option.splits)
    moreover from False have "\<exists>x. tk_expires row = Some x \<and> nowMs div 1000 \<le> x"
      by (auto simp: late_def split: option.splits)
    ultimately show ?thesis using False eq row
      by (intro that(3) [of row "\<lparr>tg_client = ci_id client, tg_scopes = or_default granted_ss scopes,
            tg_resource = resource, tg_refresh = True\<rparr>"]) (simp_all add: granted_ss_def)
  qed
qed

lemma redeem_code_quiet: "db_change Quiet db (snd (redeem_code rt client code redirectUri resource nowMs db))"
  by (rule redeem_code_cases [of rt client code redirectUri resource nowMs db])
    (simp_all add: quiet_codes quietI)

lemma redeem_refresh_quiet: "db_change Quiet db (snd (redeem_refresh rt client token scopes resource nowMs db))"
  by (rule redeem_refresh_cases [of rt client token scopes resource nowMs db])
    (simp_all add: quiet_tokens quietI without_refresh_def)

lemma grant_client_credentials_db [simp]: "snd (grant_client_credentials rt cid secret scope db) = db"
  by (simp add: grant_client_credentials_def Let_def split: option.splits)

section \<open>The effect of every event\<close>

lemma verify_quiet: "db_change Quiet db (snd (verifyAccessToken rt token nowMs db))"
  by (auto simp: verifyAccessToken_def touch_legacy_def Let_def quietI quiet_legacy split: option.splits)

lemma sweep_quiet: "db_change Quiet db (snd (sweepExpiredTokens nowMs db))"
  by (simp add: sweepExpiredTokens_def Let_def client_keys_def
      db_change.quiet [where P = "\<lambda>c. \<not> cd_expires c < nowMs div 1000" and Q = "\<lambda>t. \<not> sql_lt (tk_expires t) (nowMs div 1000)"])

lemma admin_revoke_quiet: "admin_revoke_client cid nowMs db = Inr db' \<Longrightarrow> db_change Quiet db db'"
  by (auto simp: admin_revoke_client_def client_keys_def client_key_def upd_clients_def upd_where_def comp_def
      split: if_splits
      intro!: db_change.quiet [where P = "\<lambda>_. True" and Q = "\<lambda>t. tk_client t \<noteq> cid"])

lemma revokeClient_gone: "revokeClient cid db = Inr db' \<Longrightarrow> db_change (Gone cid) db db'"
  by (auto simp: revokeClient_def split: if_splits intro!: gone)

lemma rescope_row_key: "client_key (rescope_row ro c) = client_key c"
  by (auto simp: rescope_row_def client_key_def Let_def split: option.splits)

lemma rescope_quiet: "rescopeClient cid ro db = Inr (r, db') \<Longrightarrow> db_change Quiet db db'"
  using quiet_clients [of "rescope_row ro", OF rescope_row_key]
  by (auto simp: rescopeClient_def split: option.splits if_splits)

lemma rotate_quiet: "rotateClientSecret rt cid secret db = Inr db' \<Longrightarrow> db_change Quiet db db'"
  by (auto simp: rotateClientSecret_def client_key_def split: if_splits intro!: quiet_clients)

lemma persist_surface_quiet: "db_change Quiet db (snd (persist_surface cid surface db))"
  by (simp add: persist_surface_def Let_def quiet_clients client_key_def)

lemma mint_quiet: "mintLegacyToken rt tid token name holders scopes grant db = Inr db' \<Longrightarrow> db_change Quiet db db'"
  by (auto simp: mintLegacyToken_def Let_def quiet_legacy split: if_splits option.splits)

lemma revoke_legacy_quiet: "db_change Quiet db (snd (revokeLegacyTokenById tid nowMs db))"
  by (simp add: revokeLegacyTokenById_def revoke_legacy_def quiet_legacy)

lemma with_db_simps [simp]:
  "aw_db (with_db w db) = db" "aw_access (with_db w db) = aw_access w" "aw_refresh (with_db w db) = aw_refresh w"
  by (simp_all add: with_db_def)

lemma aw_db_granted [simp]: "aw_db (granted w r) = snd r"
  by (simp add: granted_def split: prod.splits sum.splits)

lemma getClient_Some:
  assumes "getClient cid db = Some client"
  obtains c where "find_client cid db = Some c" "ci_id client = cid" "ci_scope client = oc_scope c"
    "ci_grants client = or_default [''client_credentials''] (oc_grants c)" "ci_secret client = oc_secret_hash c"
proof -
  from assms obtain c where c: "find_client cid db = Some c" by (auto simp: getClient_def split: option.splits)
  with find_client_Some [OF c] assms show ?thesis by (intro that [of c]) (auto simp: getClient_def)
qed

lemma token_effect:
  assumes "db_change (NewToken row) db db'" and "mints_token rt (tk_hash row) e"
    and "g \<in> grants_under_way w" and "tk_client row = tg_client g" and "tk_scopes row = Some (tg_scopes g)"
  shows "db_effect rt w e db db'"
  using assms by (intro effect_one [of "NewToken row"]) (auto simp: allowed_change_def)

lemma clamp_capped:
  assumes "getClient cid db = Some client"
  shows "capped (ci_id client) (clamp_scopes (parseScopeString (ci_scope client)) ss) db"
proof (rule getClient_Some [OF assms])
  fix c
  assume "find_client cid db = Some c" "ci_id client = cid" "ci_scope client = oc_scope c"
  then show ?thesis by (simp add: capped_def registration_def clamp_scopes_def)
qed

lemma token_row_hash [simp]:
  "tk_hash (token_row h ty g x) = h" "tk_client (token_row h ty g x) = tg_client g"
  "tk_scopes (token_row h ty g x) = Some (tg_scopes g)" "tk_type (token_row h ty g x) = ty"
  by (simp_all add: token_row_def)

lemma register_effect:
  assumes "oc_id row \<in> set (registered_ids [e])" and "db_change (NewClient row) db db1"
    and "db' = db1 \<or> db_change Quiet db1 db'"
  shows "db_effect rt w e db db'"
  using assms(3)
proof
  assume "db' = db1"
  with assms(1,2) show ?thesis by (intro effect_one [of "NewClient row"]) (simp_all add: allowed_change_def)
next
  assume "db_change Quiet db1 db'"
  with assms(1,2) show ?thesis
    by (intro effect_two [of "NewClient row" db db1 Quiet]) (simp_all add: allowed_change_def)
qed

theorem auth_exec_effect: "db_effect rt w e (aw_db w) (aw_db (auth_exec rt pv e w))"
proof (cases e)
  case (RegisterDcr rm client ttl)
  obtain r db' where reg: "registerClient rt pv rm client ttl (aw_db w) = (r, db')" by force
  have "db_effect rt w e (aw_db w) db'"
    using registerClient_change [OF reg]
  proof
    assume "\<exists>row db1 m gs sc. dcr_checks rt pv client = Inr (m, gs, sc) \<and>
     client_key row = (rm_client_id rm, Some sc, Some gs) \<and>
     db_change (NewClient row) (aw_db w) db1 \<and> (db' = db1 \<or> db_change Quiet db1 db')"
    then show ?thesis using RegisterDcr by (auto simp: client_key_def intro!: register_effect)
  qed simp
  with RegisterDcr reg show ?thesis by simp
next
  case (RegisterManual rm q)
  show ?thesis
  proof (cases "registerClientManual rt rm q (aw_db w)")
    case (Inr p)
    obtain r db' where p: "p = (r, db')" by (cases p)
    with registerClientManual_change [OF Inr [unfolded p]] RegisterManual Inr show ?thesis
      by (auto simp: client_key_def intro: register_effect)
  qed (simp add: RegisterManual)
next
  case (Authorize cid params code nowMs)
  show ?thesis
  proof (cases "getClient cid (aw_db w)")
    case (Some client)
    obtain r db' where "authorize rt client params code nowMs (aw_db w) = (r, db')" by force
    with authorize_change [OF this] Authorize Some clamp_capped [OF Some] show ?thesis
      by (auto simp: on_client_def allowed_change_def intro: effect_one)
  qed (simp add: Authorize on_client_def)
next
  case (IssueAccess k tm)
  show ?thesis
  proof (cases "k < length (aw_access w)")
    case True
    show ?thesis
    proof (cases "issue_access rt pv tm (aw_access w ! k) (aw_db w)")
      case (Inr db')
      have "aw_access w ! k \<in> grants_under_way w" using True by (simp add: grants_under_way_def)
      with issue_access_change [OF Inr] IssueAccess True Inr show ?thesis
        by (auto simp: Let_def intro!: token_effect)
    qed (simp add: IssueAccess True Let_def)
  qed (simp add: IssueAccess)
next
  case (IssueRefresh k tm)
  show ?thesis
  proof (cases "k < length (aw_refresh w)")
    case True
    show ?thesis
    proof (cases "issue_refresh rt pv tm (aw_refresh w ! k) (aw_db w)")
      case (Inr db')
      have "aw_refresh w ! k \<in> grants_under_way w" using True by (simp add: grants_under_way_def)
      with issue_refresh_change [OF Inr] IssueRefresh True Inr show ?thesis
        by (auto simp: Let_def db_result_def intro!: token_effect)
    qed (simp add: IssueRefresh True Let_def db_result_def)
  qed (simp add: IssueRefresh)
next
  case (CliRevoke cid)
  show ?thesis
  proof (cases "revokeClient cid (aw_db w)")
    case (Inr db')
    with revokeClient_gone [OF Inr] CliRevoke show ?thesis
      by (auto simp: db_result_def allowed_change_def intro!: effect_one [of "Gone cid"])
  qed (simp add: CliRevoke db_result_def)
next
  case (RedeemCode cid code redirectUri resource nowMs)
  then show ?thesis by (simp add: on_client_def effect_quiet redeem_code_quiet split: option.splits)
next
  case (RedeemRefresh cid token scopes resource nowMs)
  then show ?thesis by (simp add: on_client_def effect_quiet redeem_refresh_quiet split: option.splits)
next
  case (RevokeToken cid token)
  then show ?thesis
    by (simp add: on_client_def effect_quiet revokeToken_def quiet_tokens split: option.splits)
next
  case (AdminRevoke cid nowMs)
  then show ?thesis
    by (auto simp: db_result_def dest: admin_revoke_quiet intro: effect_quiet split: sum.splits)
next
  case (Rescope cid ro)
  then show ?thesis by (auto dest: rescope_quiet intro: effect_quiet split: sum.splits)
next
  case (SetTtl cid ttl)
  then show ?thesis
    by (auto simp: db_result_def update_client_ttl_def dest: set_token_ttl_change intro: effect_quiet split: sum.splits)
next
  case (RotateSecret cid secret)
  then show ?thesis
    by (auto simp: db_result_def dest: rotate_quiet intro: effect_quiet split: sum.splits)
next
  case (MintBearer tid token name holders scopes grant)
  then show ?thesis
    by (auto simp: db_result_def dest: mint_quiet intro: effect_quiet split: sum.splits)
qed (simp_all add: effect_quiet verify_quiet sweep_quiet persist_surface_quiet revoke_legacy_quiet)

end
