(* ===== verification/OAuthProps.thy ===== *)
theory OAuthProps
  imports OAuthWorld
begin

text \<open>
  Properties of the authorization server: no token carries a scope its client is not registered for; a
  code and a refresh token are redeemed once, by their client; a self-registered client never gets a
  machine grant nor a lifetime beyond the server's; what a revocation ends and what it leaves.
\<close>

section \<open>Credentials that are gone stay gone\<close>

definition has_code :: "string \<Rightarrow> auth_world \<Rightarrow> bool" where
  "has_code h w = list_ex (\<lambda>c. cd_hash c = h) (ad_codes (aw_db w))"

definition has_token :: "string \<Rightarrow> auth_world \<Rightarrow> bool" where
  "has_token h w = list_ex (\<lambda>t. tk_hash t = h) (ad_tokens (aw_db w))"

definition world_keys :: "auth_world \<Rightarrow> bool" where
  "world_keys w = auth_keys (aw_db w)"

lemma db_changes_induct:
  assumes "db_changes chs db db'" and "list_all A chs" and "P db"
    and "\<And>ch d d'. db_change ch d d' \<Longrightarrow> A ch \<Longrightarrow> P d \<Longrightarrow> P d'"
  shows "P db'"
  using assms(1-3) by (induction chs arbitrary: db) (auto intro: assms(4))

lemma change_codes:
  assumes "db_change ch db db'" and "c \<in> set (ad_codes db')"
  shows "c \<in> set (ad_codes db) \<or> ch = NewCode c"
  using assms by cases auto

lemma change_tokens:
  assumes "db_change ch db db'" and "t \<in> set (ad_tokens db')"
  shows "t \<in> set (ad_tokens db) \<or> ch = NewToken t"
  using assms by cases auto

lemma keys_step: "world_keys w \<Longrightarrow> world_keys (auth_exec rt pv e w)"
proof -
  obtain chs where chs: "db_changes chs (aw_db w) (aw_db (auth_exec rt pv e w))" "list_all (allowed_change rt w e) chs"
    using auth_exec_effect [of rt w e pv] by (auto simp: db_effect_def)
  assume "world_keys w"
  then show ?thesis unfolding world_keys_def
    by (rule db_changes_induct [OF chs, of auth_keys]) (rule auth_keys_change)
qed

lemma code_granted_only: "has_code h (auth_exec rt pv e w) \<Longrightarrow> has_code h w \<or> mints_code rt h e"
proof -
  obtain chs where chs: "db_changes chs (aw_db w) (aw_db (auth_exec rt pv e w))" "list_all (allowed_change rt w e) chs"
    using auth_exec_effect [of rt w e pv] by (auto simp: db_effect_def)
  define P where "P db = ((\<exists>c \<in> set (ad_codes db). cd_hash c = h) \<longrightarrow> has_code h w \<or> mints_code rt h e)" for db :: auth_db
  have "P (aw_db w)" by (auto simp: P_def has_code_def list_ex_iff)
  then have "P (aw_db (auth_exec rt pv e w))"
    by (rule db_changes_induct [OF chs, of P]) (auto simp: P_def allowed_change_def dest!: change_codes)
  then show "has_code h (auth_exec rt pv e w) \<Longrightarrow> has_code h w \<or> mints_code rt h e"
    by (auto simp: P_def has_code_def list_ex_iff)
qed

lemma token_granted_only: "has_token h (auth_exec rt pv e w) \<Longrightarrow> has_token h w \<or> mints_token rt h e"
proof -
  obtain chs where chs: "db_changes chs (aw_db w) (aw_db (auth_exec rt pv e w))" "list_all (allowed_change rt w e) chs"
    using auth_exec_effect [of rt w e pv] by (auto simp: db_effect_def)
  define P where "P db = ((\<exists>t \<in> set (ad_tokens db). tk_hash t = h) \<longrightarrow> has_token h w \<or> mints_token rt h e)" for db :: auth_db
  have "P (aw_db w)" by (auto simp: P_def has_token_def list_ex_iff)
  then have "P (aw_db (auth_exec rt pv e w))"
    by (rule db_changes_induct [OF chs, of P]) (auto simp: P_def allowed_change_def dest!: change_tokens)
  then show "has_token h (auth_exec rt pv e w) \<Longrightarrow> has_token h w \<or> mints_token rt h e"
    by (auto simp: P_def has_token_def list_ex_iff)
qed

interpretation codes_once: fenced_resource "auth_exec rt pv" has_code "mints_code rt" world_keys for rt pv
  by unfold_locales (rule code_granted_only, assumption, rule keys_step)

interpretation tokens_once: fenced_resource "auth_exec rt pv" has_token "mints_token rt" world_keys for rt pv
  by unfold_locales (rule token_granted_only, assumption, rule keys_step)

section \<open>Registrations are immutable\<close>

lemma registration_step:
  assumes "cid \<notin> set (registered_ids [e])"
  shows "registration cid (aw_db (auth_exec rt pv e w)) \<in> {registration cid (aw_db w), None}"
proof -
  obtain chs where chs: "db_changes chs (aw_db w) (aw_db (auth_exec rt pv e w))" "list_all (allowed_change rt w e) chs"
    using auth_exec_effect [of rt w e pv] by (auto simp: db_effect_def)
  have "registration cid (aw_db w) \<in> {registration cid (aw_db w), None}" by simp
  then show ?thesis
  proof (rule db_changes_induct [OF chs, of "\<lambda>db. registration cid db \<in> {registration cid (aw_db w), None}"])
    fix ch d d'
    assume "db_change ch d d'" "allowed_change rt w e ch" "registration cid d \<in> {registration cid (aw_db w), None}"
    with assms show "registration cid d' \<in> {registration cid (aw_db w), None}"
      using registration_change [of ch d d' cid] by (auto simp: allowed_change_def split: auth_change.splits)
  qed
qed

lemma registered_ids_Cons: "set (registered_ids (e # es)) = set (registered_ids [e]) \<union> set (registered_ids es)"
  by (cases e) auto

lemma registration_run:
  "cid \<notin> set (registered_ids es) \<Longrightarrow>
     registration cid (aw_db (fold (auth_exec rt pv) es w)) \<in> {registration cid (aw_db w), None}"
proof (induction es arbitrary: w)
  case (Cons e es)
  have "cid \<notin> set (registered_ids [e]) \<union> set (registered_ids es)"
    using Cons.prems unfolding registered_ids_Cons [of e es] .
  then have "cid \<notin> set (registered_ids [e])" "cid \<notin> set (registered_ids es)" by blast+
  with Cons.IH [of "auth_exec rt pv e w"] registration_step [of cid e rt pv w] show ?case by auto
qed simp

section \<open>No scope beyond the registration\<close>

definition scopes_ok :: "auth_db \<Rightarrow> bool" where
  "scopes_ok db = ((\<forall>c \<in> set (ad_codes db). capped (cd_client c) (cd_scopes c) db) \<and>
     (\<forall>t \<in> set (ad_tokens db). capped (tk_client t) (or_default [] (tk_scopes t)) db))"

definition world_scopes :: "auth_world \<Rightarrow> bool" where
  "world_scopes w = (scopes_ok (aw_db w) \<and>
     (\<forall>g \<in> grants_under_way w. capped (tg_client g) (tg_scopes g) (aw_db w)))"

text \<open>The ids a world knows.\<close>

definition known_ids :: "auth_world \<Rightarrow> string set" where
  "known_ids w = oc_id ` set (ad_clients (aw_db w)) \<union> tg_client ` grants_under_way w"

text \<open>A later database in which the client is the same or gone.\<close>

lemma capped_later:
  "capped cid ss db \<Longrightarrow> registration cid db' \<in> {registration cid db, None} \<Longrightarrow> capped cid ss db'"
  by (auto simp: capped_def)

lemma hasScope_clamp: "s \<in> set (clamp_scopes al rq) \<Longrightarrow> hasScope al s"
  by (simp add: clamp_scopes_def)

lemma redeemed_code_capped:
  assumes "scopes_ok db" and "redeem_code rt client code ru resource now db = (Inr g, db')"
  shows "capped (tg_client g) (tg_scopes g) db"
proof (rule redeem_code_cases [of rt client code ru resource now db])
  fix row
  assume row: "row \<in> set (ad_codes db)" "code_matches (rt_hash rt code) (ci_id client) ru (now div 1000) row"
    and r: "redeem_code rt client code ru resource now db =
      (Inr \<lparr>tg_client = ci_id client, tg_scopes = cd_scopes row, tg_resource = resource, tg_refresh = True\<rparr>,
       db\<lparr>ad_codes := filter (\<lambda>c. \<not> code_matches (rt_hash rt code) (ci_id client) ru (now div 1000) c) (ad_codes db)\<rparr>)"
  have "capped (cd_client row) (cd_scopes row) db" using assms(1) row(1) by (simp add: scopes_ok_def)
  moreover have "cd_client row = ci_id client" using row(2) by (simp add: code_matches_def)
  moreover have "g = \<lparr>tg_client = ci_id client, tg_scopes = cd_scopes row, tg_resource = resource, tg_refresh = True\<rparr>"
    using r assms(2) by simp
  ultimately show ?thesis by simp
next
  assume "redeem_code rt client code ru resource now db = (Inl CodeNotFound, db)"
  with assms(2) show ?thesis by simp
qed

lemma redeemed_refresh_capped:
  assumes "scopes_ok db" and "redeem_refresh rt client token scopes resource now db = (Inr g, db')"
  shows "capped (tg_client g) (tg_scopes g) db"
proof (rule redeem_refresh_cases [of rt client token scopes resource now db])
  fix row g'
  assume row: "row \<in> set (ad_tokens db)" "refresh_matches (rt_hash rt token) (ci_id client) row"
    and g': "redeem_refresh rt client token scopes resource now db = (Inr g', without_refresh rt token (ci_id client) db)"
    "tg_client g' = ci_id client"
    and sub: "\<forall>s \<in> set (tg_scopes g'). hasScope (or_default [] (tk_scopes row)) s \<or> s \<in> set (or_default [] (tk_scopes row))"
  have "capped (tk_client row) (or_default [] (tk_scopes row)) db"
    using assms(1) row(1) by (simp add: scopes_ok_def)
  then have "capped (ci_id client) (tg_scopes g') db"
    unfolding capped_def
  proof (intro allI impI ballI)
    fix sc gs s
    assume reg: "registration (ci_id client) db = Some (sc, gs)" and s: "s \<in> set (tg_scopes g')"
    have "tk_client row = ci_id client" using row(2) by (simp add: refresh_matches_def)
    with reg \<open>capped (tk_client row) _ db\<close>
    have all: "\<forall>s \<in> set (or_default [] (tk_scopes row)). hasScope (parseScopeString sc) s"
      by (simp add: capped_def)
    from sub s show "hasScope (parseScopeString sc) s" using all hasScope_trans [OF all] by blast
  qed
  with g' assms(2) show ?thesis by simp
qed (use assms(2) in simp_all)

lemma client_credentials_capped:
  assumes "grant_client_credentials rt cid secret scope db = (Inr g, db')"
  shows "capped (tg_client g) (tg_scopes g) db \<and> find_client (tg_client g) db \<noteq> None"
proof -
  from assms obtain client where c: "getClient cid db = Some client"
    by (auto simp: grant_client_credentials_def split: option.splits)
  from getClient_Some [OF c] obtain r where r: "find_client cid db = Some r" "ci_scope client = oc_scope r" by metis
  from assms c have "tg_client g = cid" "\<exists>rq. tg_scopes g = clamp_scopes (parseScopeString (ci_scope client)) rq"
    by (auto simp: grant_client_credentials_def Let_def split: if_splits)
  with r show ?thesis by (auto simp: capped_def registration_def dest: hasScope_clamp)
qed

lemma registration_kept:
  assumes "db_change ch d d'" and "registration cid d \<noteq> None \<or> (\<forall>row. ch = NewClient row \<longrightarrow> oc_id row \<noteq> cid)"
  shows "registration cid d' \<in> {registration cid d, None}"
proof -
  have "find_client (oc_id row) d = None" if "ch = NewClient row" for row
    using assms(1) unfolding that by (cases rule: new_clientE) auto
  then show ?thesis using assms(2) registration_change [OF assms(1), of cid]
    by (auto simp: registration_None split: auth_change.splits if_splits)
qed

lemma scopes_change:
  assumes ch: "db_change ch d d'" and keys: "auth_keys d" and ok: "scopes_ok d"
    and code: "\<And>row. ch = NewCode row \<Longrightarrow> capped (cd_client row) (cd_scopes row) d"
    and token: "\<And>row. ch = NewToken row \<Longrightarrow> capped (tk_client row) (or_default [] (tk_scopes row)) d"
  shows "scopes_ok d'"
  unfolding scopes_ok_def
proof (intro conjI ballI)
  fix c assume c: "c \<in> set (ad_codes d')"
  have old: "capped (cd_client c) (cd_scopes c) d"
    using change_codes [OF ch c] ok code by (auto simp: scopes_ok_def)
  have "registration (cd_client c) d' \<in> {registration (cd_client c) d, None}"
    using change_codes [OF ch c] keys by (intro registration_kept [OF ch]) (auto simp: auth_keys_def)
  with old show "capped (cd_client c) (cd_scopes c) d'" by (rule capped_later)
next
  fix t assume t: "t \<in> set (ad_tokens d')"
  have old: "capped (tk_client t) (or_default [] (tk_scopes t)) d"
    using change_tokens [OF ch t] ok token by (auto simp: scopes_ok_def)
  have "registration (tk_client t) d' \<in> {registration (tk_client t) d, None}"
    using change_tokens [OF ch t] keys by (intro registration_kept [OF ch]) (auto simp: auth_keys_def)
  with old show "capped (tk_client t) (or_default [] (tk_scopes t)) d'" by (rule capped_later)
qed

definition client_ids :: "auth_db \<Rightarrow> string set" where
  "client_ids db = oc_id ` set (ad_clients db)"

lemma client_ids_keys: "client_ids db = fst ` set (client_keys db)"
  by (auto simp: client_ids_def client_keys_def client_key_def image_image)

lemma client_ids_registration: "registration cid db \<noteq> None \<longleftrightarrow> cid \<in> client_ids db"
  by (auto simp: registration_None find_client_None client_ids_def)

lemma client_ids_change:
  assumes "db_change ch d d'" and "x \<in> client_ids d'"
  shows "x \<in> client_ids d \<or> (\<exists>row. ch = NewClient row \<and> oc_id row = x)"
  using registration_change [OF assms(1), of x] assms(2)
  by (auto simp: client_ids_registration [symmetric] split: auth_change.splits if_splits)

text \<open>What the changes of one event keep, as long as it registers no id that is known.\<close>

definition step_kept :: "auth_event \<Rightarrow> auth_world \<Rightarrow> auth_db \<Rightarrow> bool" where
  "step_kept e w d = (auth_keys d \<and> scopes_ok d \<and> client_ids d \<subseteq> client_ids (aw_db w) \<union> set (registered_ids [e]) \<and>
     (\<forall>cid. cid \<notin> set (registered_ids [e]) \<longrightarrow> registration cid d \<in> {registration cid (aw_db w), None}))"

lemma step_kept_change:
  assumes ch: "db_change ch d d'" and al: "allowed_change rt w e ch" and kept: "step_kept e w d"
    and w: "world_scopes w" and fresh: "set (registered_ids [e]) \<inter> known_ids w = {}"
  shows "step_kept e w d'"
proof -
  have cap: "capped cid ss d" if "capped cid ss (aw_db w)" "cid \<notin> set (registered_ids [e])" for cid ss
    using that kept capped_later by (auto simp: step_kept_def)
  have keys: "auth_keys d'" using kept ch auth_keys_change by (auto simp: step_kept_def)
  have "scopes_ok d'"
  proof (rule scopes_change [OF ch])
    show "auth_keys d" "scopes_ok d" using kept by (simp_all add: step_kept_def)
  next
    fix row assume "ch = NewCode row"
    with al have c: "mints_code rt (cd_hash row) e" "capped (cd_client row) (cd_scopes row) (aw_db w)"
      by (simp_all add: allowed_change_def)
    then have "registered_ids [e] = []" by (cases e) auto
    with cap c(2) show "capped (cd_client row) (cd_scopes row) d" by simp
  next
    fix row assume "ch = NewToken row"
    with al obtain g where g: "mints_token rt (tk_hash row) e" "g \<in> grants_under_way w"
        "tk_client row = tg_client g" "tk_scopes row = Some (tg_scopes g)"
      by (auto simp: allowed_change_def)
    then have "registered_ids [e] = []" by (cases e) auto
    moreover have "capped (tg_client g) (tg_scopes g) (aw_db w)" using w g(2) by (simp add: world_scopes_def)
    ultimately show "capped (tk_client row) (or_default [] (tk_scopes row)) d"
      using cap g(3,4) by (simp add: or_default_def)
  qed
  moreover have "client_ids d' \<subseteq> client_ids (aw_db w) \<union> set (registered_ids [e])"
  proof
    fix x assume "x \<in> client_ids d'"
    from client_ids_change [OF ch this] show "x \<in> client_ids (aw_db w) \<union> set (registered_ids [e])"
      using kept al by (auto simp: step_kept_def allowed_change_def)
  qed
  moreover have "registration cid d' \<in> {registration cid (aw_db w), None}" if "cid \<notin> set (registered_ids [e])" for cid
  proof -
    have "\<forall>row. ch = NewClient row \<longrightarrow> oc_id row \<noteq> cid" using al that by (auto simp: allowed_change_def)
    then have "registration cid d' \<in> {registration cid d, None}" using registration_kept [OF ch] by blast
    with kept that show ?thesis by (auto simp: step_kept_def)
  qed
  ultimately show ?thesis using keys by (simp add: step_kept_def)
qed

text \<open>The grants under way after an event.\<close>

definition fresh_grant :: "auth_world \<Rightarrow> token_grant \<Rightarrow> bool" where
  "fresh_grant w g = (capped (tg_client g) (tg_scopes g) (aw_db w) \<and> tg_client g \<in> client_ids (aw_db w))"

lemma set_drop_nth: "set (drop_nth k xs) \<subseteq> set xs"
  by (auto simp: drop_nth_def dest: in_set_takeD in_set_dropD)

lemma grants_granted:
  "grants_under_way (granted w r) = grants_under_way w \<union> {g. fst r = Inr g}"
  by (auto simp: grants_under_way_def granted_def split: prod.splits sum.splits)

lemma grants_with_db [simp]: "grants_under_way (with_db w db) = grants_under_way w"
  by (simp add: grants_under_way_def)

lemma grants_db_result [simp]: "grants_under_way (db_result w r) = grants_under_way w"
  by (simp add: db_result_def split: sum.splits)

lemma redeemed_client:
  assumes "getClient cid db = Some client"
  shows "ci_id client \<in> client_ids db"
  using getClient_Some [OF assms] client_ids_registration by (metis option.discI registration_None)

lemma grants_step:
  assumes "world_scopes w" and "g \<in> grants_under_way (auth_exec rt pv e w)"
  shows "g \<in> grants_under_way w \<or> fresh_grant w g"
proof -
  have ok: "scopes_ok (aw_db w)" using assms(1) by (simp add: world_scopes_def)
  show ?thesis
  proof (cases e)
    case (RedeemCode cid code ru resource now)
    show ?thesis
    proof (cases "getClient cid (aw_db w)")
      case (Some client)
      obtain r db' where r: "redeem_code rt client code ru resource now (aw_db w) = (r, db')" by force
      have "tg_client g = ci_id client" if "r = Inr g"
        using r that by (rule_tac redeem_code_cases [of rt client code ru resource now "aw_db w"]) auto
      then have "fresh_grant w g" if "r = Inr g"
        using redeemed_code_capped [OF ok, of rt client code ru resource now g db'] redeemed_client [OF Some] r that
        by (simp add: fresh_grant_def)
      with assms(2) RedeemCode Some r show ?thesis
        by (auto simp: on_client_def grants_granted)
    qed (use assms(2) RedeemCode in \<open>simp add: on_client_def\<close>)
  next
    case (RedeemRefresh cid token scopes resource now)
    show ?thesis
    proof (cases "getClient cid (aw_db w)")
      case (Some client)
      obtain r db' where r: "redeem_refresh rt client token scopes resource now (aw_db w) = (r, db')" by force
      have "tg_client g = ci_id client" if "r = Inr g"
        using r that by (rule_tac redeem_refresh_cases [of rt client token scopes resource now "aw_db w"]) auto
      then have "fresh_grant w g" if "r = Inr g"
        using redeemed_refresh_capped [OF ok, of rt client token scopes resource now g db'] redeemed_client [OF Some] r that
        by (simp add: fresh_grant_def)
      with assms(2) RedeemRefresh Some r show ?thesis
        by (auto simp: on_client_def grants_granted)
    qed (use assms(2) RedeemRefresh in \<open>simp add: on_client_def\<close>)
  next
    case (RedeemCredentials cid secret scope)
    obtain r db' where r: "grant_client_credentials rt cid secret scope (aw_db w) = (r, db')" by force
    with assms(2) RedeemCredentials client_credentials_capped show ?thesis
      by (auto simp: grants_granted fresh_grant_def client_ids_registration [symmetric] registration_None)
  next
    case (IssueAccess k tm)
    with assms(2) show ?thesis
      by (auto simp: grants_under_way_def Let_def split: if_splits sum.splits dest: set_drop_nth [THEN subsetD])
  next
    case (IssueRefresh k tm)
    with assms(2) show ?thesis
      by (auto simp: grants_under_way_def Let_def db_result_def split: if_splits sum.splits
          dest: set_drop_nth [THEN subsetD])
  qed (use assms(2) in \<open>auto simp: on_client_def split: sum.splits option.splits if_splits prod.splits\<close>)
qed

lemma scopes_step:
  assumes "world_keys w" and w: "world_scopes w" and fresh: "set (registered_ids [e]) \<inter> known_ids w = {}"
  shows "world_scopes (auth_exec rt pv e w) \<and>
    known_ids (auth_exec rt pv e w) \<subseteq> known_ids w \<union> set (registered_ids [e])"
proof -
  define w' where "w' = auth_exec rt pv e w"
  obtain chs where chs: "db_changes chs (aw_db w) (aw_db w')" "list_all (allowed_change rt w e) chs"
    using auth_exec_effect [of rt w e pv] by (auto simp: db_effect_def w'_def)
  have "step_kept e w (aw_db w)"
    using assms(1,2) by (auto simp: step_kept_def world_keys_def world_scopes_def)
  then have kept: "step_kept e w (aw_db w')"
    by (rule db_changes_induct [OF chs, of "step_kept e w"]) (rule step_kept_change [OF _ _ _ w fresh])
  have g: "capped (tg_client g) (tg_scopes g) (aw_db w') \<and> tg_client g \<in> known_ids w"
    if "g \<in> grants_under_way w'" for g
  proof -
    have "capped (tg_client g) (tg_scopes g) (aw_db w) \<and> tg_client g \<in> known_ids w"
      using grants_step [OF w, of g rt pv e] that w
      by (auto simp: w'_def fresh_grant_def world_scopes_def known_ids_def client_ids_def)
    moreover from this fresh have "tg_client g \<notin> set (registered_ids [e])" by blast
    ultimately show ?thesis using kept capped_later by (auto simp: step_kept_def)
  qed
  have "world_scopes w'" using kept g by (simp add: world_scopes_def step_kept_def)
  moreover have "known_ids w' \<subseteq> known_ids w \<union> set (registered_ids [e])"
    using kept g by (auto simp: known_ids_def step_kept_def client_ids_def)
  ultimately show ?thesis by (simp add: w'_def)
qed

lemma scopes_run:
  "world_keys w \<Longrightarrow> world_scopes w \<Longrightarrow> distinct (registered_ids es) \<Longrightarrow>
     set (registered_ids es) \<inter> known_ids w = {} \<Longrightarrow> world_scopes (fold (auth_exec rt pv) es w)"
proof (induction es arbitrary: w)
  case (Cons e es)
  have ids: "set (registered_ids (e # es)) = set (registered_ids [e]) \<union> set (registered_ids es)"
    by (rule registered_ids_Cons)
  have dist: "distinct (registered_ids es)" "set (registered_ids [e]) \<inter> set (registered_ids es) = {}"
    using Cons.prems(3) by (cases e; simp)+
  have fresh: "set (registered_ids [e]) \<inter> known_ids w = {}" using Cons.prems(4) unfolding ids by blast
  note step = scopes_step [OF Cons.prems(1,2) fresh, of rt pv]
  have "set (registered_ids es) \<inter> known_ids (auth_exec rt pv e w) = {}"
    using step dist(2) Cons.prems(4) unfolding ids by blast
  with Cons.IH [of "auth_exec rt pv e w"] step keys_step [OF Cons.prems(1)] dist(1) show ?case by simp
qed simp

lemma empty_world_ok: "world_keys (empty_world cols srcs)" "world_scopes (empty_world cols srcs)"
    "known_ids (empty_world cols srcs) = {}"
  by (simp_all add: empty_world_def world_keys_def auth_keys_def world_scopes_def scopes_ok_def
      grants_under_way_def known_ids_def)

section \<open>Facts the properties use\<close>

lemma world_keys_run: "world_keys (fold (auth_exec rt pv) es (empty_world cols srcs))"
  by (rule codes_once.ok_run [OF empty_world_ok(1)])

lemma find_code: "has_code h w \<longleftrightarrow> (\<exists>c \<in> set (ad_codes (aw_db w)). cd_hash c = h)"
  by (simp add: has_code_def list_ex_iff)

lemma find_token: "has_token h w \<longleftrightarrow> (\<exists>t \<in> set (ad_tokens (aw_db w)). tk_hash t = h)"
  by (simp add: has_token_def list_ex_iff)

lemma no_code_not_found:
  assumes "\<not> has_code (rt_hash rt code) w"
  shows "exchangeAuthorizationCode rt pv tm client code v ru res now (aw_db w) = (Inl CodeNotFound, aw_db w)"
proof -
  have "filter (code_matches (rt_hash rt code) (ci_id client) ru (now div 1000)) (ad_codes (aw_db w)) = []"
    using assms unfolding filter_empty_conv find_code code_matches_def by blast
  then show ?thesis by (simp add: exchangeAuthorizationCode_def redeem_code_def and_issue_def)
qed

lemma no_token_not_found:
  assumes "\<not> has_token (rt_hash rt token) w"
  shows "exchangeRefreshToken rt pv tm client token scopes res now (aw_db w) = (Inl RefreshNotFound, aw_db w)"
proof -
  have "filter (refresh_matches (rt_hash rt token) (ci_id client)) (ad_tokens (aw_db w)) = []"
    using assms unfolding filter_empty_conv find_token refresh_matches_def by blast
  then show ?thesis by (simp add: exchangeRefreshToken_def redeem_refresh_def and_issue_def Let_def)
qed

text \<open>What issuing adds: the rows of the minted tokens.\<close>

lemma issueTokens_cases:
  assumes "issueTokens rt pv tm g db = (r, db')"
  shows "ad_codes db' = ad_codes db \<and>
    set (ad_tokens db') \<subseteq> set (ad_tokens db) \<union>
      {t. tk_hash t = rt_hash rt (tm_access tm) \<or> tk_hash t = rt_hash rt (tm_refresh tm)} \<and>
    r \<noteq> Inl CodeNotFound \<and> r \<noteq> Inl RefreshNotFound"
  using assms
  by (auto simp: issueTokens_def issue_access_def issue_refresh_def insert_token_def Let_def
      split: if_splits)

lemma same_hash:
  assumes "auth_keys db" and "c \<in> set (ad_codes db)" and "c' \<in> set (ad_codes db)" and "cd_hash c = cd_hash c'"
  shows "c = c'"
  using assms by (auto simp: auth_keys_def distinct_map dest: inj_onD)

lemma same_token:
  assumes "auth_keys db" and "t \<in> set (ad_tokens db)" and "t' \<in> set (ad_tokens db)" and "tk_hash t = tk_hash t'"
  shows "t = t'"
  using assms by (auto simp: auth_keys_def distinct_map dest: inj_onD)

lemma redeemed_code_gone:
  assumes "auth_keys db" and "redeem_code rt client code ru res now db = (r, db1)" and "r \<noteq> Inl CodeNotFound"
  shows "\<forall>c \<in> set (ad_codes db1). cd_hash c \<noteq> rt_hash rt code"
proof (rule redeem_code_cases [of rt client code ru res now db])
  fix row
  assume row: "row \<in> set (ad_codes db)" "code_matches (rt_hash rt code) (ci_id client) ru (now div 1000) row"
    and eq: "redeem_code rt client code ru res now db =
      (Inr \<lparr>tg_client = ci_id client, tg_scopes = cd_scopes row, tg_resource = res, tg_refresh = True\<rparr>,
       db\<lparr>ad_codes := filter (\<lambda>c. \<not> code_matches (rt_hash rt code) (ci_id client) ru (now div 1000) c) (ad_codes db)\<rparr>)"
  have "c = row" if "c \<in> set (ad_codes db)" "cd_hash c = rt_hash rt code" for c
    using same_hash [OF assms(1) that(1) row(1)] that(2) row(2) by (simp add: code_matches_def)
  with eq assms(2) row(2) show ?thesis by auto
next
  assume "redeem_code rt client code ru res now db = (Inl CodeNotFound, db)"
  with assms(2,3) show ?thesis by simp
qed

lemma without_refresh_gone:
  assumes "auth_keys db" and "row \<in> set (ad_tokens db)" and "refresh_matches (rt_hash rt token) cid row"
  shows "\<forall>t \<in> set (ad_tokens (without_refresh rt token cid db)). tk_hash t \<noteq> rt_hash rt token"
proof -
  have "t = row" if "t \<in> set (ad_tokens db)" "tk_hash t = rt_hash rt token" for t
    using same_token [OF assms(1) that(1) assms(2)] that(2) assms(3) by (simp add: refresh_matches_def)
  with assms(3) show ?thesis by (auto simp: without_refresh_def)
qed

lemma redeemed_refresh_gone:
  assumes "auth_keys db" and "redeem_refresh rt client token scopes res now db = (r, db1)" and "r \<noteq> Inl RefreshNotFound"
  shows "\<forall>t \<in> set (ad_tokens db1). tk_hash t \<noteq> rt_hash rt token"
proof (rule redeem_refresh_cases [of rt client token scopes res now db])
  assume "redeem_refresh rt client token scopes res now db = (Inl RefreshNotFound, db)"
  with assms(2,3) show ?thesis by simp
qed (use assms(2) without_refresh_gone [OF assms(1)] in simp_all)

section \<open>A small server\<close>

text \<open>The state the witnesses run in: a public client registered for \<open>read write\<close>, an authorization and its
  exchange.\<close>

definition demo_rt :: runtime where
  "demo_rt = \<lparr>rt_hash = (\<lambda>s. CHR ''#'' # s), rt_url = (\<lambda>u. Some (''https:'', ''app'')), rt_json = (\<lambda>_. None)\<rparr>"

definition demo_pv :: provider where
  "demo_pv = make_provider \<lparr>po_tokenTtl = None, po_refreshTtl = None, po_dcrDisabled = None,
     po_allowClientCredentialsDcr = None, po_dcrTtlMinSeconds = None, po_dcrTtlMaxSeconds = None\<rparr>"

definition demo_columns :: "string list" where
  "demo_columns = [''source_id'', ''federated_read'', ''bound_slug_prefixes'', ''surface'', ''surface_set_by'',
     ''deleted_at'', ''token_ttl'']"

definition demo_mint :: token_mint where
  "demo_mint = \<lparr>tm_access = ''at'', tm_refresh = ''rt'', tm_now = 1000\<rparr>"

definition demo_mint2 :: token_mint where
  "demo_mint2 = \<lparr>tm_access = ''at2'', tm_refresh = ''rt2'', tm_now = 2000\<rparr>"

definition demo_params :: auth_params where
  "demo_params = \<lparr>ap_scopes = Some [''read'', ''admin''], ap_challenge = ''ch'', ap_redirect = ''https://app'',
     ap_state = None, ap_resource = None\<rparr>"

definition demo_registered :: "auth_event list" where
  "demo_registered = [RegisterManual \<lparr>rm_client_id = ''c'', rm_secret = [], rm_now = 0\<rparr>
     \<lparr>mr_name = ''app'', mr_grants = [''authorization_code''], mr_scopes = ''read write'',
      mr_redirects = [''https://app''], mr_source = ''default'', mr_federated = None,
      mr_auth_method = Some ''none'', mr_bindings = None\<rparr>]"

definition demo_authorized :: "auth_event list" where
  "demo_authorized = demo_registered @ [Authorize ''c'' demo_params ''code'' 1000]"

definition demo_issued :: "auth_event list" where
  "demo_issued = demo_authorized @ [RedeemCode ''c'' ''code'' None None 1000, IssueAccess 0 demo_mint, IssueRefresh 0 demo_mint]"

definition demo_run :: "auth_event list \<Rightarrow> auth_world" where
  "demo_run es = fold (auth_exec demo_rt demo_pv) es (empty_world demo_columns [''default''])"

definition demo_client :: client_info where
  "demo_client = \<lparr>ci_id = ''c'', ci_secret = None, ci_name = ''app'', ci_redirects = [''https://app''],
     ci_grants = [''authorization_code''], ci_scope = Some ''read write'', ci_auth_method = Some ''none'',
     ci_issued_at = Some 0, ci_secret_expires = None\<rparr>"

definition demo_info :: auth_info where
  "demo_info = \<lparr>ai_token = ''at'', ai_clientId = ''c'', ai_clientName = Some ''app'', ai_scopes = [''read''],
     ai_expiresAt = 3601, ai_resource = None, ai_sourceId = Some ''default'', ai_allowedSources = Some [''default''],
     ai_boundSlugPrefixes = None, ai_fenceDegraded = False, ai_surface = None, ai_surfaceSetBy = None,
     ai_hasSourceGrant = None, ai_takesHolders = None\<rparr>"

lemma answered: "isl (fst p) = False \<Longrightarrow> p = (Inr (projr (fst p)), snd p)"
  by (cases p; cases "fst p") auto

definition demo_exchange where
  "demo_exchange = exchangeAuthorizationCode demo_rt demo_pv demo_mint demo_client ''code'' None None None 1000
     (aw_db (demo_run demo_authorized))"

definition demo_refresh where
  "demo_refresh = exchangeRefreshToken demo_rt demo_pv demo_mint2 demo_client ''rt'' (Some [''admin'']) None 2000
     (aw_db (demo_run demo_issued))"

definition demo_meta :: client_meta where
  "demo_meta = \<lparr>cm_redirects = Some [''https://app''], cm_scope = Some ''read openid'', cm_auth_method = None,
     cm_grants = None, cm_name = None\<rparr>"

definition demo_empty :: auth_world where
  "demo_empty = empty_world demo_columns [''default'']"

definition demo_dcr where
  "demo_dcr = registerClient demo_rt demo_pv \<lparr>rm_client_id = ''d'', rm_secret = ''s'', rm_now = 0\<rparr> demo_meta
     (Some 1000000) (aw_db demo_empty)"

definition demo_revoked :: auth_db where
  "demo_revoked = projr (admin_revoke_client ''c'' 1000 (aw_db (demo_run demo_registered)))"

section \<open>Properties\<close>

text \<open>C11: in every state the server can reach, under every interleaving of its requests, what an accepted
  OAuth token may do is within what its client is registered for now; in particular \<open>agent\<close> is only
  ever held by a client registered for it by name. Only an older bearer token has scopes of its own.\<close>

theorem token_scopes_stay_registered:
  assumes "distinct (registered_ids es)" and "w = fold (auth_exec rt pv) es (empty_world cols srcs)"
    and "verifyAccessToken rt token now (aw_db w) = (Inr info, db')"
  shows "(\<exists>t \<in> set (ad_legacy (aw_db w)). lt_hash t = rt_hash rt token \<and> lt_revoked t = None) \<or>
    (\<exists>c. find_client (ai_clientId info) (aw_db w) = Some c \<and>
       (\<forall>s \<in> set (ai_scopes info). hasScope (parseScopeString (oc_scope c)) s) \<and>
       (''agent'' \<in> set (ai_scopes info) \<longrightarrow> ''agent'' \<in> set (parseScopeString (oc_scope c))))"
proof (cases "List.find (\<lambda>t. tk_hash t = rt_hash rt token \<and> tk_type t = ''access'') (ad_tokens (aw_db w))")
  case None
  with assms(3) show ?thesis
    by (auto simp: verifyAccessToken_def Let_def find_Some_iff split: option.splits)
next
  case (Some row)
  then have row: "row \<in> set (ad_tokens (aw_db w))" by (auto simp: find_Some_iff)
  from assms(3) Some have info: "ai_clientId info = tk_client row" "ai_scopes info = or_default [] (tk_scopes row)"
    by (auto simp: verifyAccessToken_def Let_def oauth_auth_info_def split: option.splits if_splits)
  have "world_scopes w" unfolding assms(2)
    by (rule scopes_run [OF empty_world_ok(1,2) assms(1)]) (simp add: empty_world_ok)
  then have cap: "capped (tk_client row) (or_default [] (tk_scopes row)) (aw_db w)"
    using row by (simp add: world_scopes_def scopes_ok_def)
  have "auth_keys (aw_db w)" using world_keys_run [of rt pv es cols srcs] by (simp add: assms(2) world_keys_def)
  with row obtain c where c: "find_client (tk_client row) (aw_db w) = Some c"
    by (auto simp: auth_keys_def registration_None)
  with cap have "\<forall>s \<in> set (ai_scopes info). hasScope (parseScopeString (oc_scope c)) s"
    by (simp add: capped_def registration_def info)
  moreover from this have "''agent'' \<in> set (ai_scopes info) \<longrightarrow> ''agent'' \<in> set (parseScopeString (oc_scope c))"
    using hasScope_agent by blast
  ultimately show ?thesis using c info(1) by simp
qed

lemma token_scopes_stay_registered_witness:
  "ai_scopes demo_info = [''read''] \<and>
   (\<exists>c. find_client ''c'' (aw_db (demo_run demo_issued)) = Some c \<and>
      hasScope (parseScopeString (oc_scope c)) ''read'')"
proof -
  have v: "verifyAccessToken demo_rt ''at'' 2000 (aw_db (demo_run demo_issued)) =
      (Inr demo_info, aw_db (demo_run demo_issued))" by code_simp
  have d: "distinct (registered_ids demo_issued)" by code_simp
  have l: "ad_legacy (aw_db (demo_run demo_issued)) = []" by code_simp
  have i: "ai_scopes demo_info = [''read'']" "ai_clientId demo_info = ''c''" by (simp_all add: demo_info_def)
  from token_scopes_stay_registered [OF d demo_run_def v] l i show ?thesis by auto
qed

text \<open>C12: an authorization code is redeemed once: after an exchange that found it, whatever the exchange then
  answered, every exchange of that code by anyone fails and changes nothing, at any later point of any
  run that does not mint the code again.\<close>

theorem code_redeemed_once:
  assumes "w = fold (auth_exec rt pv) es0 (empty_world cols srcs)"
    and "exchangeAuthorizationCode rt pv tm client code v ru res now (aw_db w) = (r, db')"
    and "r \<noteq> Inl CodeNotFound"
    and "list_all (\<lambda>e. \<not> mints_code rt (rt_hash rt code) e) es"
  shows "exchangeAuthorizationCode rt pv tm' client' code v' ru' res' now'
      (aw_db (fold (auth_exec rt pv) es (with_db w db')))
    = (Inl CodeNotFound, aw_db (fold (auth_exec rt pv) es (with_db w db')))"
proof (rule no_code_not_found)
  obtain r1 db1 where red: "redeem_code rt client code ru res now (aw_db w) = (r1, db1)" by force
  have r1: "r1 \<noteq> Inl CodeNotFound"
    using assms(2,3) red by (auto simp: exchangeAuthorizationCode_def and_issue_def)
  have "auth_keys (aw_db w)" using world_keys_run [of rt pv es0 cols srcs] by (simp add: assms(1) world_keys_def)
  from redeemed_code_gone [OF this red r1] have gone: "\<forall>c \<in> set (ad_codes db1). cd_hash c \<noteq> rt_hash rt code" .
  have "ad_codes db' = ad_codes db1"
    using assms(2) red issueTokens_cases [of rt pv tm _ db1 r db']
    by (auto simp: exchangeAuthorizationCode_def and_issue_def split: sum.splits)
  with gone have "\<not> has_code (rt_hash rt code) (with_db w db')" by (simp add: find_code)
  then show "\<not> has_code (rt_hash rt code) (fold (auth_exec rt pv) es (with_db w db'))"
    using assms(4) by (rule codes_once.lost_stays_lost)
qed

lemma code_redeemed_once_witness:
  "isl (fst demo_exchange) = False \<and>
   fst (exchangeAuthorizationCode demo_rt demo_pv demo_mint2 demo_client ''code'' None None None 1000
      (aw_db (fold (auth_exec demo_rt demo_pv) [Sweep 1000] (with_db (demo_run demo_authorized) (snd demo_exchange)))))
    = Inl CodeNotFound"
proof -
  have ex: "isl (fst demo_exchange) = False" by code_simp
  then have ne: "fst demo_exchange \<noteq> Inl CodeNotFound" by auto
  have eq: "exchangeAuthorizationCode demo_rt demo_pv demo_mint demo_client ''code'' None None None 1000
     (aw_db (demo_run demo_authorized)) = (fst demo_exchange, snd demo_exchange)" by (simp add: demo_exchange_def)
  have es: "list_all (\<lambda>e. \<not> mints_code demo_rt (rt_hash demo_rt ''code'') e) [Sweep 1000]" by simp
  from code_redeemed_once [OF demo_run_def eq ne es] ex show ?thesis by simp
qed

text \<open>C13: a refresh token is spent by the first exchange that finds it, also by one that is refused for its age
  or for asking too much: afterwards it is unknown, at any later point of any run that does not mint it
  again.\<close>

theorem refresh_token_spent_by_any_answer:
  assumes "w = fold (auth_exec rt pv) es0 (empty_world cols srcs)"
    and "exchangeRefreshToken rt pv tm client token scopes res now (aw_db w) = (r, db')"
    and "r \<noteq> Inl RefreshNotFound"
    and "rt_hash rt (tm_access tm) \<noteq> rt_hash rt token" and "rt_hash rt (tm_refresh tm) \<noteq> rt_hash rt token"
    and "list_all (\<lambda>e. \<not> mints_token rt (rt_hash rt token) e) es"
  shows "exchangeRefreshToken rt pv tm' client' token scopes' res' now'
      (aw_db (fold (auth_exec rt pv) es (with_db w db')))
    = (Inl RefreshNotFound, aw_db (fold (auth_exec rt pv) es (with_db w db')))"
proof (rule no_token_not_found)
  obtain r1 db1 where red: "redeem_refresh rt client token scopes res now (aw_db w) = (r1, db1)" by force
  have r1: "r1 \<noteq> Inl RefreshNotFound"
    using assms(2,3) red by (auto simp: exchangeRefreshToken_def and_issue_def)
  have "auth_keys (aw_db w)" using world_keys_run [of rt pv es0 cols srcs] by (simp add: assms(1) world_keys_def)
  from redeemed_refresh_gone [OF this red r1] have gone: "\<forall>t \<in> set (ad_tokens db1). tk_hash t \<noteq> rt_hash rt token" .
  have "set (ad_tokens db') \<subseteq> set (ad_tokens db1) \<union>
      {t. tk_hash t = rt_hash rt (tm_access tm) \<or> tk_hash t = rt_hash rt (tm_refresh tm)}"
    using assms(2) red issueTokens_cases [of rt pv tm _ db1 r db']
    by (cases r1) (auto simp: exchangeRefreshToken_def and_issue_def)
  with gone assms(4,5) have "\<not> has_token (rt_hash rt token) (with_db w db')" by (auto simp: find_token)
  then show "\<not> has_token (rt_hash rt token) (fold (auth_exec rt pv) es (with_db w db'))"
    using assms(6) by (rule tokens_once.lost_stays_lost)
qed

lemma refresh_token_spent_by_any_answer_witness:
  "fst demo_refresh = Inl ScopeExceedsGrant \<and>
   fst (exchangeRefreshToken demo_rt demo_pv demo_mint2 demo_client ''rt'' None None 2000
      (aw_db (fold (auth_exec demo_rt demo_pv) [] (with_db (demo_run demo_issued) (snd demo_refresh)))))
    = Inl RefreshNotFound"
proof -
  have ex: "fst demo_refresh = Inl ScopeExceedsGrant" by code_simp
  then have ne: "fst demo_refresh \<noteq> Inl RefreshNotFound" by simp
  have eq: "exchangeRefreshToken demo_rt demo_pv demo_mint2 demo_client ''rt'' (Some [''admin'']) None 2000
     (aw_db (demo_run demo_issued)) = (fst demo_refresh, snd demo_refresh)" by (simp add: demo_refresh_def)
  have h: "rt_hash demo_rt (tm_access demo_mint2) \<noteq> rt_hash demo_rt ''rt''"
    "rt_hash demo_rt (tm_refresh demo_mint2) \<noteq> rt_hash demo_rt ''rt''"
    by (simp_all add: demo_rt_def demo_mint2_def)
  have es: "list_all (\<lambda>e. \<not> mints_token demo_rt (rt_hash demo_rt ''rt'') e) []" by simp
  from refresh_token_spent_by_any_answer [OF demo_run_def eq ne h es] ex show ?thesis by simp
qed

text \<open>A code is redeemed only by the client it was issued to, before its time, and with the redirect it was
  issued for if one is presented. Any other attempt is refused and leaves every row as it was, so the
  rightful client can still redeem it.\<close>

theorem foreign_redemption_changes_nothing:
  assumes "\<forall>c \<in> set (ad_codes db). cd_hash c = rt_hash rt code \<longrightarrow>
      cd_client c \<noteq> ci_id client \<or> cd_expires c \<le> now div 1000 \<or> (ru \<noteq> None \<and> ru \<noteq> Some (cd_redirect c))"
  shows "exchangeAuthorizationCode rt pv tm client code v ru res now db = (Inl CodeNotFound, db)"
proof -
  have "\<not> code_matches (rt_hash rt code) (ci_id client) ru (now div 1000) c" if "c \<in> set (ad_codes db)" for c
    using assms that by (auto simp: code_matches_def split: option.splits)
  then have "filter (code_matches (rt_hash rt code) (ci_id client) ru (now div 1000)) (ad_codes db) = []"
    unfolding filter_empty_conv by blast
  then show ?thesis by (simp add: exchangeAuthorizationCode_def redeem_code_def and_issue_def)
qed

lemma foreign_redemption_changes_nothing_witness:
  "exchangeAuthorizationCode demo_rt demo_pv demo_mint (demo_client\<lparr>ci_id := ''other''\<rparr>) ''code'' None None None 1000
     (aw_db (demo_run demo_authorized)) = (Inl CodeNotFound, aw_db (demo_run demo_authorized))"
proof -
  have "map cd_client (ad_codes (aw_db (demo_run demo_authorized))) = [''c'']" by code_simp
  then have "\<forall>c \<in> set (ad_codes (aw_db (demo_run demo_authorized))). cd_client c = ''c''" by auto
  then show ?thesis by (intro foreign_redemption_changes_nothing) simp
qed

lemma dcr_checks_grants:
  assumes "dcr_checks rt pv client = Inr (m, gs, sc)" and "\<not> pv_allowClientCredentialsDcr pv"
  shows "''client_credentials'' \<notin> set gs"
  using assms by (auto simp: dcr_checks_def Let_def split: option.splits if_splits sum.splits)

lemma registerClient_response:
  "registerClient rt pv rm client ttl db = (Inr resp, db') \<Longrightarrow> dr_client_id resp = rm_client_id rm \<and> db' \<noteq> db"
proof -
  assume r: "registerClient rt pv rm client ttl db = (Inr resp, db')"
  then have id: "dr_client_id resp = rm_client_id rm"
    by (auto simp: registerClient_def Let_def split: sum.splits option.splits if_splits)
  from r obtain m gs sc base name db1 where
    "insert_ladder (source_rungs base name [''default'']) db = Inr db1"
    "db' = db1 \<or> length (ad_clients db') = length (ad_clients db1)"
    by (auto simp: registerClient_def Let_def set_token_ttl_def upd_clients_def split: sum.splits option.splits if_splits)
  moreover from insert_ladder_change [OF this(1)] have "length (ad_clients db1) = Suc (length (ad_clients db))"
    by (auto elim: new_clientE)
  ultimately have "length (ad_clients db') \<noteq> length (ad_clients db)" by auto
  with id show ?thesis by auto
qed

lemma dcr_registration:
  assumes "registerClient rt pv rm client ttl db = (Inr resp, db')" and "\<not> pv_allowClientCredentialsDcr pv"
  shows "\<exists>sc gs. registration (dr_client_id resp) db' = Some (sc, Some gs) \<and> ''client_credentials'' \<notin> set gs"
proof -
  from registerClient_response [OF assms(1)] have id: "dr_client_id resp = rm_client_id rm" and "db' \<noteq> db" by simp_all
  then obtain row db1 m gs sc where row: "dcr_checks rt pv client = Inr (m, gs, sc)"
    "client_key row = (rm_client_id rm, Some sc, Some gs)" "db_change (NewClient row) db db1"
    "db' = db1 \<or> db_change Quiet db1 db'"
    using registerClient_change [OF assms(1)] by blast
  have "registration (rm_client_id rm) db1 = Some (Some sc, Some gs)"
    using registration_change [OF row(3), of "rm_client_id rm"] row(2) by (simp add: client_key_def)
  moreover have "registration (rm_client_id rm) db' = registration (rm_client_id rm) db1"
    using row(4) registration_change [of Quiet db1 db' "rm_client_id rm"] by auto
  ultimately show ?thesis using dcr_checks_grants [OF row(1) assms(2)] id by simp
qed

text \<open>C14: unless the operator allowed it, a client that registered itself over the network never gets a token
  without an authorization: at any later point of any run, with any secret, the client-credentials grant
  refuses it and changes nothing.\<close>

theorem dcr_client_gets_no_machine_token:
  assumes "registerClient rt pv rm client ttl (aw_db w) = (Inr resp, db')"
    and "\<not> pv_allowClientCredentialsDcr pv"
    and "dr_client_id resp \<notin> set (registered_ids es)"
    and "d = aw_db (fold (auth_exec rt pv) es (with_db w db'))"
  shows "\<exists>e \<in> {ClientNotFound, ClientRevoked, GrantNotAuthorized}.
    exchangeClientCredentials rt pv tm (dr_client_id resp) secret scope d = (Inl e, d)"
proof -
  obtain sc gs where reg: "registration (dr_client_id resp) db' = Some (sc, Some gs)" "''client_credentials'' \<notin> set gs"
    using dcr_registration [OF assms(1,2)] by blast
  from registration_run [OF assms(3), of rt pv "with_db w db'"] reg(1)
  have "registration (dr_client_id resp) d \<in> {Some (sc, Some gs), None}" by (simp add: assms(4))
  then consider "find_client (dr_client_id resp) d = None"
    | c where "find_client (dr_client_id resp) d = Some c" "oc_grants c = Some gs"
    by (auto simp: registration_def)
  then show ?thesis
  proof cases
    case 1
    then show ?thesis
      by (simp add: exchangeClientCredentials_def grant_client_credentials_def and_issue_def getClient_def)
  next
    case (2 c)
    then show ?thesis using reg(2)
      by (cases "soft_deleted (dr_client_id resp) d")
        (simp_all add: exchangeClientCredentials_def grant_client_credentials_def and_issue_def getClient_def or_default_def)
  qed
qed

lemma dcr_client_gets_no_machine_token_witness:
  "isl (fst demo_dcr) = False \<and>
   isl (fst (exchangeClientCredentials demo_rt demo_pv demo_mint (dr_client_id (projr (fst demo_dcr))) ''s'' None
     (aw_db (fold (auth_exec demo_rt demo_pv) demo_registered (with_db demo_empty (snd demo_dcr))))))"
proof -
  have ex: "isl (fst demo_dcr) = False" by code_simp
  have id: "dr_client_id (projr (fst demo_dcr)) \<notin> set (registered_ids demo_registered)" by code_simp
  have pv: "\<not> pv_allowClientCredentialsDcr demo_pv" by code_simp
  have eq: "registerClient demo_rt demo_pv \<lparr>rm_client_id = ''d'', rm_secret = ''s'', rm_now = 0\<rparr> demo_meta
     (Some 1000000) (aw_db demo_empty) = (Inr (projr (fst demo_dcr)), snd demo_dcr)"
    using answered [OF ex] unfolding demo_dcr_def .
  from dcr_client_gets_no_machine_token [OF eq pv id refl, of demo_mint "''s''" None] ex
  show ?thesis by (auto simp: isl_def)
qed

lemma clamp_bounds: "clampDcrTokenTtl q mn mx \<le> max (max 1 mn) mx" "max 1 mn \<le> clampDcrTokenTtl q mn mx"
  by (auto simp: clampDcrTokenTtl_def Let_def)

lemma effective_ttl_found:
  "find_client cid db = Some c \<Longrightarrow> effective_ttl pv cid db \<in> {pv_tokenTtl pv, or_number (pv_tokenTtl pv) (oc_token_ttl c)}"
  by (auto simp: effective_ttl_def lookupClientTokenTtl_def or_number_def split: option.splits)

lemma insert_ladder_row:
  assumes "insert_ladder rungs db = Inr db'"
  shows "\<exists>row \<in> snd ` set rungs. find_client (oc_id row) db = None \<and> db' = db\<lparr>ad_clients := ad_clients db @ [row]\<rparr>"
  using assms
proof (induction rungs)
  case (Cons r rungs)
  obtain need row where r: "r = (need, row)" by force
  show ?case
  proof (cases "insert_client need row db")
    case (Inl e)
    with Cons r have "insert_ladder rungs db = Inr db'" by (auto split: if_splits)
    with Cons.IH show ?thesis by auto
  next
    case (Inr db2)
    with Cons.prems r show ?thesis by (auto simp: insert_client_def split: if_splits)
  qed
qed simp

text \<open>The lifetime stored by a self-registration is none or a clamped one.\<close>

lemma registerClient_ttl:
  assumes "registerClient rt pv rm client ttl db = (Inr resp, db')"
  shows "\<forall>c \<in> set (ad_clients db'). oc_id c = rm_client_id rm \<longrightarrow>
    oc_token_ttl c = None \<or> (\<exists>q. oc_token_ttl c = Some (clampDcrTokenTtl q (pv_dcrTtlMin pv) (pv_dcrTtlMax pv)))"
proof -
  from assms obtain m gs sc where "dcr_checks rt pv client = Inr (m, gs, sc)"
    by (cases "dcr_checks rt pv client") (auto simp: registerClient_def)
  define name where "name = (case cm_name client of Some n \<Rightarrow> if n = [] then ''unnamed'' else n | None \<Rightarrow> ''unnamed'')"
  define base where "base = base_client (rm_client_id rm)
      (map_option (rt_hash rt) (if m = ''none'' then None else Some (rm_secret rm))) name
      (or_default [] (cm_redirects client)) gs sc m (rm_now rm div 1000)"
  have clean: "oc_token_ttl base = None" "oc_id base = rm_client_id rm"
    by (simp_all add: base_def base_client_def blank_client_def)
  from assms \<open>dcr_checks rt pv client = Inr (m, gs, sc)\<close> obtain db1 where
    ins: "insert_ladder (source_rungs base ''default'' [''default'']) db = Inr db1"
    and rest: "db' = db1 \<or> (\<exists>q. db' = upd_clients (\<lambda>c. oc_id c = rm_client_id rm)
        (\<lambda>c. c\<lparr>oc_token_ttl := Some (clampDcrTokenTtl q (pv_dcrTtlMin pv) (pv_dcrTtlMax pv))\<rparr>) db1)"
    by (auto simp: registerClient_def Let_def base_def name_def set_token_ttl_def
        split: sum.splits option.splits if_splits)
  from insert_ladder_row [OF ins] obtain row where "row \<in> snd ` set (source_rungs base ''default'' [''default''])"
    "find_client (oc_id row) db = None" "db1 = db\<lparr>ad_clients := ad_clients db @ [row]\<rparr>" by blast
  then have "\<forall>c \<in> set (ad_clients db1). oc_id c = rm_client_id rm \<longrightarrow> oc_token_ttl c = None"
    using clean by (auto simp: source_rungs_def find_client_None)
  then have clean1: "db' = db1 \<Longrightarrow> ?thesis" by simp
  from rest show ?thesis
  proof
    assume "\<exists>q. db' = upd_clients (\<lambda>c. oc_id c = rm_client_id rm)
        (\<lambda>c. c\<lparr>oc_token_ttl := Some (clampDcrTokenTtl q (pv_dcrTtlMin pv) (pv_dcrTtlMax pv))\<rparr>) db1"
    then obtain q where q: "db' = upd_clients (\<lambda>c. oc_id c = rm_client_id rm)
        (\<lambda>c. c\<lparr>oc_token_ttl := Some (clampDcrTokenTtl q (pv_dcrTtlMin pv) (pv_dcrTtlMax pv))\<rparr>) db1" ..
    show ?thesis
    proof (intro ballI impI)
      fix c assume c: "c \<in> set (ad_clients db')" "oc_id c = rm_client_id rm"
      then have "oc_token_ttl c = Some (clampDcrTokenTtl q (pv_dcrTtlMin pv) (pv_dcrTtlMax pv))"
        by (auto simp: q upd_clients_def set_upd_where)
      then show "oc_token_ttl c = None \<or> (\<exists>q. oc_token_ttl c = Some (clampDcrTokenTtl q (pv_dcrTtlMin pv) (pv_dcrTtlMax pv)))"
        by blast
    qed
  qed (rule clean1)
qed

text \<open>Whatever lifetime it asks for, a client that registers itself gets tokens that live no longer than the
  server's own, or the operator's minimum if that is longer; when the operator set no maximum.\<close>

theorem dcr_lifetime_bounded:
  assumes "po_dcrTtlMaxSeconds options = None" and "pv = make_provider options"
    and "registerClient rt pv rm client ttl db = (Inr resp, db1)"
    and "tg_client g = dr_client_id resp" and "issueTokens rt pv tm g db1 = (Inr toks, db2)"
  shows "ot_expires_in toks \<le> max (pv_tokenTtl pv) (max 1 (pv_dcrTtlMin pv))"
proof -
  have top_bound: "max (max 1 (pv_dcrTtlMin pv)) (pv_dcrTtlMax pv) \<le> max (pv_tokenTtl pv) (max 1 (pv_dcrTtlMin pv))"
    using assms(1,2) by (auto simp: make_provider_def Let_def or_default_def)
  have out: "ot_expires_in toks = effective_ttl pv (dr_client_id resp) db1"
    using assms(4,5) by (auto simp: issueTokens_def Let_def split: sum.splits if_splits)
  have id: "dr_client_id resp = rm_client_id rm" using registerClient_response [OF assms(3)] by simp
  have ttl: "\<forall>c \<in> set (ad_clients db1). oc_id c = rm_client_id rm \<longrightarrow>
      oc_token_ttl c = None \<or> (\<exists>q. oc_token_ttl c = Some (clampDcrTokenTtl q (pv_dcrTtlMin pv) (pv_dcrTtlMax pv)))"
    by (rule registerClient_ttl [OF assms(3)])
  show ?thesis
  proof (cases "find_client (rm_client_id rm) db1")
    case None
    then have "effective_ttl pv (rm_client_id rm) db1 = pv_tokenTtl pv"
      by (simp add: effective_ttl_def lookupClientTokenTtl_def or_number_def)
    with out id show ?thesis by simp
  next
    case (Some c)
    from find_client_Some [OF Some] ttl have "oc_token_ttl c = None \<or>
        (\<exists>q. oc_token_ttl c = Some (clampDcrTokenTtl q (pv_dcrTtlMin pv) (pv_dcrTtlMax pv)))" by blast
    then have "or_number (pv_tokenTtl pv) (oc_token_ttl c) \<le> max (pv_tokenTtl pv) (max 1 (pv_dcrTtlMin pv))"
    proof
      assume "\<exists>q. oc_token_ttl c = Some (clampDcrTokenTtl q (pv_dcrTtlMin pv) (pv_dcrTtlMax pv))"
      then obtain q where "oc_token_ttl c = Some (clampDcrTokenTtl q (pv_dcrTtlMin pv) (pv_dcrTtlMax pv))" ..
      with order_trans [OF clamp_bounds(1) top_bound] show ?thesis by (simp add: or_number_def)
    qed (simp add: or_number_def)
    with effective_ttl_found [OF Some, of pv] out id show ?thesis by auto
  qed
qed

definition demo_grant :: token_grant where
  "demo_grant = \<lparr>tg_client = ''d'', tg_scopes = [''read''], tg_resource = None, tg_refresh = True\<rparr>"

lemma dcr_lifetime_bounded_witness:
  "isl (fst (issueTokens demo_rt demo_pv demo_mint demo_grant (snd demo_dcr))) = False \<and>
   ot_expires_in (projr (fst (issueTokens demo_rt demo_pv demo_mint demo_grant (snd demo_dcr)))) \<le> 3600"
proof -
  define a where "a = issueTokens demo_rt demo_pv demo_mint demo_grant (snd demo_dcr)"
  have ex: "isl (fst demo_dcr) = False" "tg_client demo_grant = dr_client_id (projr (fst demo_dcr))" by code_simp+
  have ex2: "isl (fst (issueTokens demo_rt demo_pv demo_mint demo_grant (snd demo_dcr))) = False" by code_simp
  have eq: "registerClient demo_rt demo_pv \<lparr>rm_client_id = ''d'', rm_secret = ''s'', rm_now = 0\<rparr> demo_meta
     (Some 1000000) (aw_db demo_empty) = (Inr (projr (fst demo_dcr)), snd demo_dcr)"
    using answered [OF ex(1)] unfolding demo_dcr_def .
  have eq2: "issueTokens demo_rt demo_pv demo_mint demo_grant (snd demo_dcr) = (Inr (projr (fst a)), snd a)"
    using answered [OF ex2] unfolding a_def .
  have "max (pv_tokenTtl demo_pv) (max 1 (pv_dcrTtlMin demo_pv)) = 3600" by code_simp
  moreover have "ot_expires_in (projr (fst a)) \<le> max (pv_tokenTtl demo_pv) (max 1 (pv_dcrTtlMin demo_pv))"
    by (rule dcr_lifetime_bounded [OF _ demo_pv_def eq ex(2) eq2]) simp
  ultimately show ?thesis using ex2 by (simp add: a_def)
qed

text \<open>C15: a revoked token is refused from then on: when a client revoked its own token, no later verification
  and no later refresh accepts it, at any point of any run that does not mint it again, unless an older
  bearer token has the same hash.\<close>

theorem revoked_token_stays_refused:
  assumes "w = fold (auth_exec rt pv) es0 (empty_world cols srcs)"
    and "t \<in> set (ad_tokens (aw_db w))" and "tk_hash t = rt_hash rt token" and "tk_client t = ci_id client"
    and "list_all (\<lambda>e. \<not> mints_token rt (rt_hash rt token) e) es"
    and "d = aw_db (fold (auth_exec rt pv) es (with_db w (revokeToken rt client token (aw_db w))))"
    and "\<forall>l \<in> set (ad_legacy d). lt_hash l \<noteq> rt_hash rt token"
  shows "verifyAccessToken rt token now d = (Inl InvalidToken, d) \<and>
    exchangeRefreshToken rt pv tm client' token scopes res now d = (Inl RefreshNotFound, d)"
proof -
  define w' where "w' = fold (auth_exec rt pv) es (with_db w (revokeToken rt client token (aw_db w)))"
  have keys: "auth_keys (aw_db w)" using world_keys_run [of rt pv es0 cols srcs] by (simp add: assms(1) world_keys_def)
  have "x = t" if "x \<in> set (ad_tokens (aw_db w))" "tk_hash x = rt_hash rt token" for x
    using same_token [OF keys that(1) assms(2)] that(2) assms(3) by simp
  then have "\<not> has_token (rt_hash rt token) (with_db w (revokeToken rt client token (aw_db w)))"
    using assms(4) by (auto simp: find_token revokeToken_def)
  then have gone: "\<not> has_token (rt_hash rt token) w'"
    unfolding w'_def using assms(5) by (rule tokens_once.lost_stays_lost)
  then have "List.find (\<lambda>t. tk_hash t = rt_hash rt token \<and> tk_type t = ''access'') (ad_tokens d) = None"
    unfolding find_None_iff using assms(6) by (auto simp: find_token w'_def)
  moreover have "List.find (\<lambda>l. lt_hash l = rt_hash rt token \<and> lt_revoked l = None) (ad_legacy d) = None"
    unfolding find_None_iff using assms(7) by blast
  ultimately have "verifyAccessToken rt token now d = (Inl InvalidToken, d)"
    by (simp add: verifyAccessToken_def Let_def)
  with no_token_not_found [OF gone] assms(6) show ?thesis by (simp add: w'_def)
qed

lemma revoked_token_stays_refused_witness:
  "fst (verifyAccessToken demo_rt ''at'' 2000 (aw_db (demo_run demo_issued))) = Inr demo_info \<and>
   fst (verifyAccessToken demo_rt ''at'' 2000
     (aw_db (fold (auth_exec demo_rt demo_pv) [Sweep 2000]
       (with_db (demo_run demo_issued) (revokeToken demo_rt demo_client ''at'' (aw_db (demo_run demo_issued)))))))
     = Inl InvalidToken"
proof -
  define t where "t = hd (ad_tokens (aw_db (demo_run demo_issued)))"
  have v: "fst (verifyAccessToken demo_rt ''at'' 2000 (aw_db (demo_run demo_issued))) = Inr demo_info" by code_simp
  have "ad_tokens (aw_db (demo_run demo_issued)) \<noteq> []" by code_simp
  then have t: "t \<in> set (ad_tokens (aw_db (demo_run demo_issued)))" by (simp add: t_def)
  have h: "tk_hash t = rt_hash demo_rt ''at''" unfolding t_def by code_simp
  have c: "tk_client t = ci_id demo_client" unfolding t_def by code_simp
  have es: "list_all (\<lambda>e. \<not> mints_token demo_rt (rt_hash demo_rt ''at'') e) [Sweep 2000]" by simp
  have l: "ad_legacy (aw_db (fold (auth_exec demo_rt demo_pv) [Sweep 2000]
       (with_db (demo_run demo_issued) (revokeToken demo_rt demo_client ''at'' (aw_db (demo_run demo_issued)))))) = []"
    by code_simp
  from revoked_token_stays_refused [OF demo_run_def t h c es refl, of 2000] l v show ?thesis by simp
qed

lemma authorize_row:
  "\<exists>row. cd_hash row = rt_hash rt code \<and> cd_client row = ci_id client \<and> cd_redirect row = ap_redirect params \<and>
     cd_expires row = now div 1000 + 600 \<and>
     authorize rt client params code now db =
       (case insert_code row db of Inl e \<Rightarrow> (Inl e, db) | Inr db' \<Rightarrow> (Inr code, db'))"
proof -
  define ss where "ss = (case ap_scopes params of Some ss \<Rightarrow> if ss \<noteq> [] then ss else parseScopeString (ci_scope client)
      | None \<Rightarrow> parseScopeString (ci_scope client))"
  show ?thesis
    by (rule exI [of _ "\<lparr>cd_hash = rt_hash rt code, cd_client = ci_id client,
        cd_scopes = clamp_scopes (parseScopeString (ci_scope client)) ss, cd_challenge = ap_challenge params,
        cd_method = ''S256'', cd_redirect = ap_redirect params, cd_state = or_null (ap_state params),
        cd_resource = or_null (ap_resource params), cd_expires = now div 1000 + 600\<rparr>"])
      (simp add: authorize_def Let_def ss_def)
qed

lemma insert_code_fresh:
  assumes "\<forall>x \<in> set (ad_codes db). cd_hash x \<noteq> cd_hash row" and "find_client (cd_client row) db \<noteq> None"
  shows "insert_code row db = Inr (db\<lparr>ad_codes := ad_codes db @ [row]\<rparr>)"
  using assms by (auto simp: insert_code_def list_ex_iff)

lemma insert_token_fresh:
  assumes "\<forall>x \<in> set (ad_tokens db). tk_hash x \<noteq> tk_hash row" and "find_client (tk_client row) db \<noteq> None"
  shows "insert_token row db = Inr (db\<lparr>ad_tokens := ad_tokens db @ [row]\<rparr>)"
  using assms by (auto simp: insert_token_def list_ex_iff)

lemma find_client_tables [simp]:
  "find_client cid (db\<lparr>ad_codes := cs\<rparr>) = find_client cid db"
  "find_client cid (db\<lparr>ad_tokens := ts\<rparr>) = find_client cid db"
  by (simp_all add: find_client_def)

lemma effective_ttl_tables [simp]:
  "effective_ttl pv cid (db\<lparr>ad_codes := cs\<rparr>) = effective_ttl pv cid db"
  "effective_ttl pv cid (db\<lparr>ad_tokens := ts\<rparr>) = effective_ttl pv cid db"
  by (simp_all add: effective_ttl_def lookupClientTokenTtl_def has_columns_def)

text \<open>Minting fresh tokens for a client that exists gives an access token that verifies.\<close>

lemma issued_token_verifies:
  assumes "find_client (tg_client g) db \<noteq> None" and "tg_refresh g"
    and "\<forall>x \<in> set (ad_tokens db). tk_hash x \<noteq> rt_hash rt (tm_access tm) \<and> tk_hash x \<noteq> rt_hash rt (tm_refresh tm)"
    and "rt_hash rt (tm_access tm) \<noteq> rt_hash rt (tm_refresh tm)"
    and "use div 1000 \<le> tm_now tm div 1000 + effective_ttl pv (tg_client g) db"
    and "issueTokens rt pv tm g db = (r, db')"
  shows "(\<exists>toks. r = Inr toks \<and> ot_access_token toks = tm_access tm) \<and>
    (\<exists>info. verifyAccessToken rt (tm_access tm) use db' = (Inr info, db') \<and> ai_clientId info = tg_client g)"
proof -
  define a where "a = token_row (rt_hash rt (tm_access tm)) ''access'' g
     (tm_now tm div 1000 + effective_ttl pv (tg_client g) db)"
  define b where "b = token_row (rt_hash rt (tm_refresh tm)) ''refresh'' g (tm_now tm div 1000 + pv_refreshTtl pv)"
  have 1: "issue_access rt pv tm g db = Inr (db\<lparr>ad_tokens := ad_tokens db @ [a]\<rparr>)"
    unfolding issue_access_def a_def by (rule insert_token_fresh) (use assms(1,3) in simp_all)
  have 2: "issue_refresh rt pv tm g (db\<lparr>ad_tokens := ad_tokens db @ [a]\<rparr>) =
      Inr (db\<lparr>ad_tokens := ad_tokens db @ [a] @ [b]\<rparr>)"
    unfolding issue_refresh_def b_def [symmetric]
    by (subst insert_token_fresh) (use assms(1,3,4) in \<open>auto simp: a_def b_def\<close>)
  from assms(2,6) 1 2 have db': "db' = db\<lparr>ad_tokens := ad_tokens db @ [a] @ [b]\<rparr>"
    and r: "\<exists>toks. r = Inr toks \<and> ot_access_token toks = tm_access tm"
    by (auto simp: issueTokens_def Let_def)
  have "List.find (\<lambda>t. tk_hash t = rt_hash rt (tm_access tm) \<and> tk_type t = ''access'') (ad_tokens db) = None"
    unfolding find_None_iff using assms(3) by blast
  then have "List.find (\<lambda>t. tk_hash t = rt_hash rt (tm_access tm) \<and> tk_type t = ''access'') (ad_tokens db') = Some a"
    by (simp add: db' find_append a_def)
  moreover have "tk_expires a = Some (tm_now tm div 1000 + effective_ttl pv (tg_client g) db)" "tk_client a = tg_client g"
    by (simp_all add: a_def token_row_def)
  ultimately have "\<exists>info. verifyAccessToken rt (tm_access tm) use db' = (Inr info, db') \<and> ai_clientId info = tg_client g"
    using assms(5) by (simp add: verifyAccessToken_def Let_def oauth_auth_info_def)
  with r show ?thesis by blast
qed

lemma admin_revoke_soft_deletes:
  assumes "find_client cid db = Some c" and "admin_revoke_client cid t db = Inr db1"
  shows "soft_deleted cid db1"
proof -
  define P where "P = (\<lambda>c :: oauth_client. oc_id c = cid \<and> oc_deleted_at c = None)"
  define f where "f = (\<lambda>c :: oauth_client. c\<lparr>oc_deleted_at := Some t\<rparr>)"
  have c: "c \<in> set (ad_clients db)" "oc_id c = cid" using find_client_Some [OF assms(1)] by simp_all
  have "(if P c then f c else c) \<in> set (upd_where P f (ad_clients db))"
    using c(1) by (auto simp: set_upd_where)
  moreover have "oc_id (if P c then f c else c) = cid" "oc_deleted_at (if P c then f c else c) \<noteq> None"
    using c(2) by (simp_all add: P_def f_def)
  ultimately have "list_ex (\<lambda>c. oc_id c = cid \<and> oc_deleted_at c \<noteq> None) (upd_where P f (ad_clients db))"
    unfolding list_ex_iff by blast
  moreover from assms(2) have "ad_clients db1 = upd_where P f (ad_clients db)" "has_columns [''deleted_at''] db1"
    by (auto simp: admin_revoke_client_def upd_clients_def has_columns_def P_def f_def split: if_splits)
  ultimately show ?thesis by (simp add: soft_deleted_def)
qed

text \<open>C16: an operator's revocation through the console does not stop a client that needs no secret: afterwards
  an authorization and its exchange still give it a token that is accepted.\<close>

theorem console_revocation_spares_public_clients:
  assumes "find_client cid db = Some c" and "admin_revoke_client cid t db = Inr db1"
    and "\<forall>x \<in> set (ad_codes db). cd_hash x \<noteq> rt_hash rt code"
    and "\<forall>x \<in> set (ad_tokens db). tk_hash x \<noteq> rt_hash rt (tm_access tm) \<and> tk_hash x \<noteq> rt_hash rt (tm_refresh tm)"
    and "rt_hash rt (tm_access tm) \<noteq> rt_hash rt (tm_refresh tm)"
    and "getClient cid db1 = Some client" and "authorize rt client params code now db1 = (r2, db2)"
    and "later div 1000 < now div 1000 + 600"
    and "exchangeAuthorizationCode rt pv tm client code v (Some (ap_redirect params)) res later db2 = (r3, db3)"
    and "use div 1000 \<le> tm_now tm div 1000 + effective_ttl pv cid db1"
  shows "soft_deleted cid db1 \<and> r2 = Inr code \<and> (\<exists>toks. r3 = Inr toks \<and> ot_access_token toks = tm_access tm) \<and>
    (\<exists>info. verifyAccessToken rt (tm_access tm) use db3 = (Inr info, db3) \<and> ai_clientId info = cid)"
proof -
  have db1: "ad_codes db1 = ad_codes db" "set (ad_tokens db1) \<subseteq> set (ad_tokens db)"
    using assms(2) by (auto simp: admin_revoke_client_def upd_clients_def split: if_splits)
  have "registration cid db1 = registration cid db"
    using admin_revoke_quiet [OF assms(2)] registration_change [of Quiet db db1 cid] by simp
  then have found: "find_client cid db1 \<noteq> None" using assms(1) by (metis option.discI registration_None)
  have id: "ci_id client = cid" by (rule getClient_Some [OF assms(6)])
  have soft: "soft_deleted cid db1" by (rule admin_revoke_soft_deletes [OF assms(1,2)])
  obtain row where row: "cd_hash row = rt_hash rt code" "cd_client row = cid" "cd_redirect row = ap_redirect params"
      "cd_expires row = now div 1000 + 600"
    and auth: "authorize rt client params code now db1 =
      (case insert_code row db1 of Inl e \<Rightarrow> (Inl e, db1) | Inr db' \<Rightarrow> (Inr code, db'))"
    using authorize_row [where rt = rt and client = client and code = code and params = params and now = now and db = db1] unfolding id by blast
  have "insert_code row db1 = Inr (db1\<lparr>ad_codes := ad_codes db1 @ [row]\<rparr>)"
    by (rule insert_code_fresh) (use assms(3) db1(1) row found in simp_all)
  with auth assms(7) have r2: "r2 = Inr code" and db2: "db2 = db1\<lparr>ad_codes := ad_codes db1 @ [row]\<rparr>" by simp_all
  define hit where "hit = code_matches (rt_hash rt code) cid (Some (ap_redirect params)) (later div 1000)"
  have "filter hit (ad_codes db) = []"
    unfolding filter_empty_conv hit_def code_matches_def using assms(3) by blast
  moreover have "hit row" using row assms(8) by (simp add: hit_def code_matches_def)
  ultimately have hits: "filter hit (ad_codes db2) = [row]" by (simp add: db2 db1)
  define g where "g = \<lparr>tg_client = cid, tg_scopes = cd_scopes row, tg_resource = res, tg_refresh = True\<rparr>"
  have "redeem_code rt client code (Some (ap_redirect params)) res later db2 =
      (Inr g, db2\<lparr>ad_codes := filter (\<lambda>c. \<not> hit c) (ad_codes db2)\<rparr>)"
    using hits by (simp add: redeem_code_def Let_def id hit_def g_def)
  then have "issueTokens rt pv tm g (db2\<lparr>ad_codes := filter (\<lambda>c. \<not> hit c) (ad_codes db2)\<rparr>) = (r3, db3)"
    using assms(9) by (simp add: exchangeAuthorizationCode_def and_issue_def)
  from issued_token_verifies [OF _ _ _ assms(5) _ this, of "use"]
  have "(\<exists>toks. r3 = Inr toks \<and> ot_access_token toks = tm_access tm) \<and>
      (\<exists>info. verifyAccessToken rt (tm_access tm) use db3 = (Inr info, db3) \<and> ai_clientId info = tg_client g)"
    using found assms(4,10) db1(2) by (auto simp: db2 g_def)
  with soft r2 show ?thesis by (simp add: g_def)
qed

lemma console_revocation_spares_public_clients_witness:
  "soft_deleted ''c'' demo_revoked \<and>
   (\<exists>toks. fst (exchangeAuthorizationCode demo_rt demo_pv demo_mint demo_client ''code'' None (Some ''https://app'') None 3000
      (snd (authorize demo_rt demo_client demo_params ''code'' 2000 demo_revoked))) = Inr toks)"
proof -
  define c where "c = the (find_client ''c'' (aw_db (demo_run demo_registered)))"
  have "find_client ''c'' (aw_db (demo_run demo_registered)) \<noteq> None" by code_simp
  then have fc: "find_client ''c'' (aw_db (demo_run demo_registered)) = Some c" by (auto simp: c_def)
  have "isl (admin_revoke_client ''c'' 1000 (aw_db (demo_run demo_registered))) = False" by code_simp
  then have rv: "admin_revoke_client ''c'' 1000 (aw_db (demo_run demo_registered)) = Inr demo_revoked"
    unfolding demo_revoked_def by (cases "admin_revoke_client ''c'' 1000 (aw_db (demo_run demo_registered))") auto
  have none: "ad_codes (aw_db (demo_run demo_registered)) = []" "ad_tokens (aw_db (demo_run demo_registered)) = []"
    by code_simp+
  have gc: "getClient ''c'' demo_revoked = Some demo_client" by code_simp
  have ttl: "(2000::int) div 1000 \<le> tm_now demo_mint div 1000 + effective_ttl demo_pv ''c'' demo_revoked" by code_simp
  define a where "a = authorize demo_rt demo_client demo_params ''code'' 2000 demo_revoked"
  define x where "x = exchangeAuthorizationCode demo_rt demo_pv demo_mint demo_client ''code'' None
      (Some (ap_redirect demo_params)) None 3000 (snd a)"
  have ae: "authorize demo_rt demo_client demo_params ''code'' 2000 demo_revoked = (fst a, snd a)" by (simp add: a_def)
  have xe: "exchangeAuthorizationCode demo_rt demo_pv demo_mint demo_client ''code'' None
      (Some (ap_redirect demo_params)) None 3000 (snd a) = (fst x, snd x)" by (simp add: x_def)
  have "soft_deleted ''c'' demo_revoked \<and> fst a = Inr ''code'' \<and>
      (\<exists>toks. fst x = Inr toks \<and> ot_access_token toks = tm_access demo_mint) \<and>
      (\<exists>info. verifyAccessToken demo_rt (tm_access demo_mint) 2000 (snd x) = (Inr info, snd x) \<and> ai_clientId info = ''c'')"
    by (rule console_revocation_spares_public_clients [OF fc rv _ _ _ gc ae _ xe ttl])
      (simp_all add: none demo_rt_def demo_mint_def)
  then show ?thesis by (auto simp: x_def a_def demo_params_def)
qed

end
