(* ===== verification/CallerScope.thy ===== *)
theory CallerScope
  imports OAuthVerify SearchFusion
begin

text \<open>
  What a caller of an operation may read and write (\<open>ops/context.ts\<close>): the slug fences of bound clients
  and of subagents, the operations a bound client may use, the source scope of a read, and the federated
  set a transport computes (\<open>source-resolver.ts\<close>). The context record holds the fields these functions
  read; \<open>cx_remote\<close> is \<open>Some False\<close> for a trusted local caller only. A read scope is the fragment
  \<open>read_scope\<close> of the search pipeline. The page lookups of the engine and the probe for code chunks are
  arguments.
\<close>

section \<open>The context\<close>

record op_context =
  cx_auth :: "auth_info option"
  cx_remote :: "bool option"
  cx_sourceId :: "string option"
  cx_localFederated :: "string list option"
  cx_viaSubagent :: "bool option"
  cx_subagentId :: "int option"
  cx_allowedSlugPrefixes :: "string list option"
  cx_takesHolders :: "string list option"

record operation_def =
  op_name :: string
  op_scope :: "string option"
  op_mutating :: "bool option"
  op_localOnly :: bool
  op_agentCallable :: "bool option"
  op_verb :: "bool option"
  op_publishGate :: "string option"

definition ends_in :: "string \<Rightarrow> string \<Rightarrow> bool" where
  "ends_in s t = (length t \<le> length s \<and> drop (length s - length t) s = t)"

section \<open>Slug fences\<close>

fun matchesSlugAllowList :: "string \<Rightarrow> string list \<Rightarrow> bool" where
  "matchesSlugAllowList slug [] = False"
| "matchesSlugAllowList slug (p # ps) =
     (if ends_in p ''/*'' then
        (let base = take (length p - 2) p in
         if slug = base then matchesSlugAllowList slug ps
         else if js_starts_with slug (base @ ''/'') then True
         else matchesSlugAllowList slug ps)
      else if p = slug then True
      else matchesSlugAllowList slug ps)"

definition subagent_prefix :: "op_context \<Rightarrow> string" where
  "subagent_prefix ctx =
     ''wiki/agents/'' @ (case cx_subagentId ctx of Some i \<Rightarrow> int_str i | None \<Rightarrow> ''undefined'') @ ''/''"

definition slugUnderSubagentFence :: "op_context \<Rightarrow> string \<Rightarrow> bool" where
  "slugUnderSubagentFence ctx slug =
     (case cx_allowedSlugPrefixes ctx of
        Some (p # ps) \<Rightarrow> matchesSlugAllowList slug (p # ps)
      | _ \<Rightarrow> js_starts_with slug (subagent_prefix ctx) \<and> length slug > length (subagent_prefix ctx))"

definition normalizeSlugPrefix :: "string \<Rightarrow> string" where
  "normalizeSlugPrefix prefix =
     js_to_lower (if ends_in prefix ''/*'' then take (length prefix - 1) prefix else prefix)"

definition under_prefix :: "string \<Rightarrow> string \<Rightarrow> bool" where
  "under_prefix canonical bp =
     (let base = normalizeSlugPrefix bp in
      if base = [] then False
      else if ends_in base ''/'' then js_starts_with canonical base
      else canonical = base \<or> js_starts_with canonical (base @ ''/''))"

definition slugUnderBoundPrefixes :: "string list \<Rightarrow> string \<Rightarrow> bool" where
  "slugUnderBoundPrefixes prefixes slug = list_ex (under_prefix (js_to_lower slug)) prefixes"

datatype op_denial =
    SubagentWithoutId
  | OutsideSubagentFence
  | FenceUnreadable
  | OutsideBinding
  | OpUnavailable
  | OutsideGrant string
  | AllSourcesNoTarget
  | InvalidSource json
  | SpecifySource
  | NoSourceInScope
  | UnknownSource string
  | OtherSourcesPage string
  | PageNotFound

definition enforceSubagentSlugFence :: "op_context \<Rightarrow> string \<Rightarrow> op_denial option" where
  "enforceSubagentSlugFence ctx slug =
     (if cx_viaSubagent ctx \<noteq> Some True then None
      else if cx_subagentId ctx = None then Some SubagentWithoutId
      else if slugUnderSubagentFence ctx slug then None
      else Some OutsideSubagentFence)"

definition bound_prefixes :: "op_context \<Rightarrow> string list option" where
  "bound_prefixes ctx = Option.bind (cx_auth ctx) ai_boundSlugPrefixes"

definition fence_degraded :: "op_context \<Rightarrow> bool" where
  "fence_degraded ctx = (case cx_auth ctx of Some a \<Rightarrow> ai_fenceDegraded a | None \<Rightarrow> False)"

definition slugOutsideCallerFence :: "op_context \<Rightarrow> string \<Rightarrow> bool" where
  "slugOutsideCallerFence ctx slug =
     ((case bound_prefixes ctx of Some ps \<Rightarrow> \<not> slugUnderBoundPrefixes ps slug | None \<Rightarrow> False) \<or>
      cx_viaSubagent ctx = Some True \<and> \<not> slugUnderSubagentFence ctx slug)"

definition enforceClientSlugFence :: "op_context \<Rightarrow> string \<Rightarrow> op_denial option" where
  "enforceClientSlugFence ctx slug =
     (if fence_degraded ctx then Some FenceUnreadable
      else case bound_prefixes ctx of
        None \<Rightarrow> None
      | Some ps \<Rightarrow> if slugUnderBoundPrefixes ps slug then None else Some OutsideBinding)"

section \<open>Operations of a bound client\<close>

definition CLIENT_FENCED_WRITE_OPS :: "string list" where
  "CLIENT_FENCED_WRITE_OPS =
     [''put_page'', ''delete_page'', ''restore_page'', ''add_tag'', ''remove_tag'', ''add_link'',
      ''remove_link'', ''add_timeline_entry'', ''revert_version'', ''put_raw_data'', ''think'',
      ''submit_agent'', ''capture'', ''takes_add'', ''takes_update'', ''takes_resolve'', ''takes_supersede'']"

definition BOUND_CLIENT_META_OPS :: "string list" where
  "BOUND_CLIENT_META_OPS = [''request_tools'']"

definition opAllowedForBoundClient :: "auth_info option \<Rightarrow> operation_def \<Rightarrow> bool" where
  "opAllowedForBoundClient auth op =
     (let degraded = (case auth of Some a \<Rightarrow> ai_fenceDegraded a | None \<Rightarrow> False);
          bound = Option.bind auth ai_boundSlugPrefixes
      in if \<not> degraded \<and> bound = None then True
         else if op_scope op = Some ''read'' \<and> op_mutating op \<noteq> Some True then True
         else if op_name op \<in> set BOUND_CLIENT_META_OPS then True
         else if degraded then False
         else op_name op \<in> set CLIENT_FENCED_WRITE_OPS)"

definition enforceBoundClientOpAllowList :: "auth_info option \<Rightarrow> operation_def \<Rightarrow> op_denial option" where
  "enforceBoundClientOpAllowList auth op =
     (if opAllowedForBoundClient auth op then None
      else if (case auth of Some a \<Rightarrow> ai_fenceDegraded a | None \<Rightarrow> False) then Some FenceUnreadable
      else Some OpUnavailable)"

section \<open>Source scopes\<close>

definition no_scope :: read_scope where
  "no_scope = \<lparr>s_sourceId = None, s_sourceIds = None\<rparr>"

definition one_source :: "string \<Rightarrow> read_scope" where
  "one_source i = \<lparr>s_sourceId = Some i, s_sourceIds = None\<rparr>"

definition many_sources :: "string list \<Rightarrow> read_scope" where
  "many_sources ids = \<lparr>s_sourceId = None, s_sourceIds = Some ids\<rparr>"

definition allowed_sources :: "op_context \<Rightarrow> string list option" where
  "allowed_sources ctx = Option.bind (cx_auth ctx) ai_allowedSources"

definition is_local :: "op_context \<Rightarrow> bool" where
  "is_local ctx = (cx_remote ctx = Some False)"

definition sourceScopeOpts :: "op_context \<Rightarrow> read_scope" where
  "sourceScopeOpts ctx =
     (case allowed_sources ctx of
        Some (s # ss) \<Rightarrow> many_sources (s # ss)
      | _ \<Rightarrow>
          (case cx_sourceId ctx of
             Some i \<Rightarrow>
               if i = ALL_SOURCES then (if is_local ctx then no_scope else one_source i)
               else if i \<noteq> [] then one_source i
               else no_scope
           | None \<Rightarrow> no_scope))"

definition readHolders :: "op_context \<Rightarrow> string list option" where
  "readHolders ctx =
     (if is_local ctx then cx_takesHolders ctx else Some (or_default [''world''] (cx_takesHolders ctx)))"

text \<open>\<open>thinkSourceScopeOpts\<close> renames the fields: the scalar source and the allowed sources.\<close>

definition thinkSourceScopeOpts :: "op_context \<Rightarrow> string option \<times> string list option" where
  "thinkSourceScopeOpts ctx =
     (let scope = sourceScopeOpts ctx in
      case s_sourceIds scope of
        Some ids \<Rightarrow> (None, Some ids)
      | None \<Rightarrow> (s_sourceId scope, None))"

definition linkReadScopeOpts :: "op_context \<Rightarrow> read_scope" where
  "linkReadScopeOpts ctx =
     (let scope = sourceScopeOpts ctx in
      case s_sourceId scope of
        Some i \<Rightarrow> if \<not> is_local ctx \<and> i \<noteq> [] \<and> s_sourceIds scope = None then many_sources [i] else scope
      | None \<Rightarrow> scope)"

definition resolveRequestedScope :: "op_context \<Rightarrow> string option \<Rightarrow> bool \<Rightarrow> op_denial + read_scope" where
  "resolveRequestedScope ctx sourceIdParam allSourcesParam =
     (if allSourcesParam \<or> sourceIdParam = Some ALL_SOURCES then
        Inr (if is_local ctx then no_scope else sourceScopeOpts ctx)
      else case sourceIdParam of
        Some i \<Rightarrow>
          (case allowed_sources ctx of
             Some (s # ss) \<Rightarrow>
               if \<not> is_local ctx \<and> i \<notin> set (s # ss) then Inl (OutsideGrant i) else Inr (one_source i)
           | _ \<Rightarrow> Inr (one_source i))
      | None \<Rightarrow> Inr (sourceScopeOpts ctx))"

definition parseSourceIdParam :: "json option \<Rightarrow> bool \<Rightarrow> op_denial + string option" where
  "parseSourceIdParam raw allowAll =
     (case raw of
        None \<Rightarrow> Inr None
      | Some JNull \<Rightarrow> Inr None
      | Some (JStr s) \<Rightarrow>
          if s = ALL_SOURCES then (if allowAll then Inr (Some s) else Inl AllSourcesNoTarget)
          else if isValidSourceId s then Inr (Some s)
          else Inl (InvalidSource (JStr s))
      | Some v \<Rightarrow> Inl (InvalidSource v))"

definition federatedSearchScope :: "op_context \<Rightarrow> string option \<Rightarrow> op_denial + read_scope" where
  "federatedSearchScope ctx sourceIdParam =
     (case resolveRequestedScope ctx sourceIdParam False of
        Inl e \<Rightarrow> Inl e
      | Inr scope \<Rightarrow>
          (case cx_localFederated ctx of
             Some ids \<Rightarrow>
               if (sourceIdParam = None \<or> sourceIdParam = Some ALL_SOURCES) \<and> allowed_sources ctx = None \<and>
                  s_sourceId scope \<noteq> None \<and> s_sourceIds scope = None \<and> length ids > 1
               then Inr (many_sources ids) else Inr scope
           | None \<Rightarrow> Inr scope))"

text \<open>\<open>live\<close>: the unarchived sources.\<close>

definition assertExplicitSourceLive :: "string list \<Rightarrow> string option \<Rightarrow> op_denial option" where
  "assertExplicitSourceLive live sourceIdParam =
     (case sourceIdParam of
        None \<Rightarrow> None
      | Some i \<Rightarrow> if i = ALL_SOURCES \<or> i \<in> set live then None else Some (UnknownSource i))"

text \<open>\<open>page scope deleted\<close>: the source of the page with the slug that \<open>getPage\<close> finds in a scope.\<close>

definition requireWritablePage :: "(read_scope \<Rightarrow> bool \<Rightarrow> string option) \<Rightarrow> op_context \<Rightarrow> op_denial option" where
  "requireWritablePage page ctx =
     (let writeSource = (case cx_sourceId ctx of Some i \<Rightarrow> if i = [] then ''default'' else i | None \<Rightarrow> ''default'') in
      if page (one_source writeSource) True \<noteq> None then None
      else case federatedSearchScope ctx None of
        Inl e \<Rightarrow> Some e
      | Inr visible \<Rightarrow>
          let spansAnother = ((case s_sourceIds visible of Some ids \<Rightarrow> list_ex (\<lambda>i. i \<noteq> writeSource) ids | None \<Rightarrow> False)
                \<or> (case s_sourceId visible of Some i \<Rightarrow> i \<noteq> writeSource | None \<Rightarrow> False))
          in if spansAnother then
               (case page visible False of
                  Some src \<Rightarrow> if src \<noteq> writeSource then Some (OtherSourcesPage src) else Some PageNotFound
                | None \<Rightarrow> Some PageNotFound)
             else Some PageNotFound)"

definition resolveCodeIntelScope :: "op_context \<Rightarrow> string option \<Rightarrow> bool \<Rightarrow> op_denial + (bool \<times> string option)" where
  "resolveCodeIntelScope ctx sourceIdParam allSourcesParam =
     (case resolveRequestedScope ctx sourceIdParam allSourcesParam of
        Inl e \<Rightarrow> Inl e
      | Inr scope \<Rightarrow>
          if s_sourceId scope \<noteq> None \<and> s_sourceId scope \<noteq> Some [] then Inr (False, s_sourceId scope)
          else (case s_sourceIds scope of
                  Some [i] \<Rightarrow> Inr (False, Some i)
                | Some (i # j # rest) \<Rightarrow> Inl SpecifySource
                | _ \<Rightarrow> if is_local ctx then Inr (True, None) else Inl NoSourceInScope))"

text \<open>\<open>probe i\<close> is \<open>codeChunksExist\<close>, \<open>None\<close> when it throws; the sources with code, in order.\<close>

fun with_code :: "(string \<Rightarrow> bool option) \<Rightarrow> string \<Rightarrow> string list \<Rightarrow> string list option" where
  "with_code probe here [] = Some []"
| "with_code probe here (i # rest) =
     (if i = here then with_code probe here rest
      else case probe i of
        None \<Rightarrow> None
      | Some b \<Rightarrow> map_option (\<lambda>r. if b then i # r else r) (with_code probe here rest))"

definition routeCodeIntelScope ::
  "(string \<Rightarrow> bool option) \<Rightarrow> op_context \<Rightarrow> string option \<Rightarrow> bool \<Rightarrow> op_denial + (bool \<times> string option)" where
  "routeCodeIntelScope probe ctx sourceIdParam allSourcesParam =
     (case resolveCodeIntelScope ctx sourceIdParam allSourcesParam of
        Inl e \<Rightarrow> Inl e
      | Inr (allSources, sid) \<Rightarrow>
          (case (sid, cx_localFederated ctx) of
             (Some here, Some ids) \<Rightarrow>
               if sourceIdParam \<noteq> None \<or> allSourcesParam \<or> allSources \<or> allowed_sources ctx \<noteq> None \<or> length ids < 2
               then Inr (allSources, sid)
               else (case probe here of
                       Some False \<Rightarrow>
                         (case with_code probe here ids of
                            Some [i] \<Rightarrow> Inr (False, Some i)
                          | _ \<Rightarrow> Inr (allSources, sid))
                     | _ \<Rightarrow> Inr (allSources, sid))
           | _ \<Rightarrow> Inr (allSources, sid)))"

section \<open>The federated set of a transport\<close>

record source_row =
  sr_id :: string
  sr_federated :: "bool option"
  sr_archived :: bool

definition WRITE_SAFE_SOURCE_TIERS :: "string list" where
  "WRITE_SAFE_SOURCE_TIERS = [''flag'', ''env'', ''dotfile'', ''brain_default'', ''sole_non_default'']"

text \<open>\<open>rows\<close> are the sources ordered by id; the query leaves archived ones out.\<close>

definition localFederatedSourceIds :: "source_row list \<Rightarrow> string \<Rightarrow> string \<Rightarrow> string list option" where
  "localFederatedSourceIds rows sourceId tier =
     (let live = filter (\<lambda>r. \<not> sr_archived r) rows;
          isolated = (case List.find (\<lambda>r. sr_id r = sourceId) live of
              Some r \<Rightarrow> sr_federated r = Some False | None \<Rightarrow> False);
          ids = sourceId # filter (\<lambda>i. i \<noteq> sourceId) (map sr_id (filter (\<lambda>r. sr_federated r = Some True) live))
      in if tier \<in> {''flag'', ''env'', ''dotfile''} then None
         else if isolated then None
         else if length ids > 1 then Some ids else None)"

text \<open>\<open>rows\<close> is absent when the table cannot be read.\<close>

definition noGrantFederatedScope :: "source_row list option \<Rightarrow> bool option \<Rightarrow> string option \<Rightarrow> string list option" where
  "noGrantFederatedScope rows hasSourceGrant sourceId =
     (if hasSourceGrant \<noteq> Some False \<or> sourceId = None \<or> sourceId = Some [] then None
      else Option.bind rows (\<lambda>rs. localFederatedSourceIds rs (the sourceId) ''seed_default''))"

definition sourceGuardBlocksWrite :: "source_row list option \<Rightarrow> string \<Rightarrow> bool" where
  "sourceGuardBlocksWrite rows tier =
     (if tier \<in> set WRITE_SAFE_SOURCE_TIERS then False
      else case rows of
        None \<Rightarrow> True
      | Some rs \<Rightarrow> list_ex (\<lambda>r. sr_id r \<noteq> ''default'' \<and> \<not> sr_archived r) rs)"

text \<open>The context the \<open>/mcp\<close> route builds from a verified token (\<open>serve-http.ts\<close>, \<open>mcp/dispatch.ts\<close>).\<close>

definition http_context :: "source_row list option \<Rightarrow> auth_info \<Rightarrow> op_context" where
  "http_context rows info =
     (let tokenSourceId = or_default ''default'' (ai_sourceId info) in
      \<lparr>cx_auth = Some info, cx_remote = Some True, cx_sourceId = Some tokenSourceId,
       cx_localFederated = noGrantFederatedScope rows (ai_hasSourceGrant info) (Some tokenSourceId),
       cx_viaSubagent = None, cx_subagentId = None, cx_allowedSlugPrefixes = None,
       cx_takesHolders = Some (or_default [''world''] (ai_takesHolders info))\<rparr>)"

end
