(* ===== verification/ToolGate.thy ===== *)
theory ToolGate
  imports CallerScope
begin

text \<open>
  What stands between a request and an operation: the tool surfaces (\<open>mcp/surface.ts\<close> and its resolution in
  \<open>serve-http.ts\<close>), the publish gates (\<open>mcp/publish-gates.ts\<close>), parameter normalization and validation
  (\<open>mcp/validate-params.ts\<close>), the gates of \<open>dispatchToolCall\<close> (\<open>mcp/dispatch.ts\<close>), the tool list and the
  tool call of the \<open>/mcp\<close> route, the token buckets (\<open>mcp/rate-limit.ts\<close>) and the surface a client chooses
  itself (\<open>ops/request-tools.ts\<close>). A read of the configuration that throws is \<open>None\<close>.
\<close>

section \<open>Surfaces\<close>

datatype mcp_surface = Verbs | Starter | Full

fun surface_rank :: "mcp_surface \<Rightarrow> nat" where
  "surface_rank Verbs = 0"
| "surface_rank Starter = 1"
| "surface_rank Full = 2"

definition parse_surface :: "string option \<Rightarrow> mcp_surface option" where
  "parse_surface v =
     (if v = Some ''verbs'' then Some Verbs
      else if v = Some ''starter'' then Some Starter
      else if v = Some ''full'' then Some Full
      else None)"

definition minSurface :: "mcp_surface \<Rightarrow> mcp_surface \<Rightarrow> mcp_surface" where
  "minSurface a b = (if surface_rank a \<le> surface_rank b then a else b)"

definition surfaceWiderThan :: "mcp_surface \<Rightarrow> mcp_surface \<Rightarrow> bool" where
  "surfaceWiderThan a b = (surface_rank a > surface_rank b)"

definition VERB_NAMES :: "string list" where
  "VERB_NAMES = [''recall'', ''remember'', ''entity'', ''synthesize'', ''forget'', ''context_pack'', ''delta'']"

definition BRAIN_TOOL_ALLOWLIST :: "string list" where
  "BRAIN_TOOL_ALLOWLIST =
     [''query'', ''search'', ''get_page'', ''list_pages'', ''file_list'', ''file_url'', ''get_backlinks'',
      ''traverse_graph'', ''list_link_sources'', ''resolve_slugs'', ''get_ingest_log'', ''put_page'',
      ''add_timeline_entry'', ''get_recent_salience'', ''find_anomalies'']"

definition STARTER_OPS :: "string list" where
  "STARTER_OPS = VERB_NAMES @ (BRAIN_TOOL_ALLOWLIST @ [''submit_agent'', ''get_agent_job''])
     @ [''whoami'', ''request_tools'', ''capture'']"

definition resolveSurface :: "mcp_surface option \<Rightarrow> string option \<Rightarrow> mcp_surface" where
  "resolveSurface flag config =
     (case flag of Some s \<Rightarrow> s | None \<Rightarrow> or_default Full (parse_surface config))"

definition filterOpsForSurface :: "operation_def list \<Rightarrow> mcp_surface \<Rightarrow> operation_def list" where
  "filterOpsForSurface ops surface =
     (case surface of
        Full \<Rightarrow> ops
      | Verbs \<Rightarrow> filter (\<lambda>op. op_verb op = Some True) ops
      | Starter \<Rightarrow> filter (\<lambda>op. op_name op \<in> set STARTER_OPS) ops)"

definition allowedOpNames :: "operation_def list \<Rightarrow> mcp_surface \<Rightarrow> string list" where
  "allowedOpNames ops surface = map op_name (filterOpsForSurface ops surface)"

text \<open>\<open>force\<close> is the environment variable \<open>GBRAIN_MCP_FORCE_SURFACE\<close>.\<close>

definition readForceSurfaceEnv :: "string option \<Rightarrow> mcp_surface option" where
  "readForceSurfaceEnv raw = parse_surface raw"

definition clampSurface :: "string option \<Rightarrow> mcp_surface \<Rightarrow> mcp_surface" where
  "clampSurface force surface =
     (case readForceSurfaceEnv force of Some f \<Rightarrow> minSurface surface f | None \<Rightarrow> surface)"

text \<open>\<open>db\<close> is what \<open>getConfig\<close> gives, \<open>None\<close> when it throws; \<open>file\<close> the value of the configuration file.\<close>

definition resolveDefaultClientSurface :: "string option option \<Rightarrow> string option \<Rightarrow> mcp_surface option" where
  "resolveDefaultClientSurface db file =
     (case db of
        Some (Some v) \<Rightarrow> parse_surface (Some v)
      | _ \<Rightarrow> parse_surface file)"

definition effectiveSurfaceForClient ::
  "string option \<Rightarrow> mcp_surface \<Rightarrow> mcp_surface option \<Rightarrow> mcp_surface option \<Rightarrow> mcp_surface" where
  "effectiveSurfaceForClient force roof clientSurface defaultSurface =
     clampSurface force (minSurface roof
       (case clientSurface of Some s \<Rightarrow> s | None \<Rightarrow> or_default roof defaultSurface))"

text \<open>\<open>resolveEffectiveSurface\<close> of the route, with the default it remembers. The read of the default never
  throws, since \<open>resolveDefaultClientSurface\<close> catches what \<open>getConfig\<close> throws, so the branch that would use
  the remembered default is not reached.\<close>

definition resolveEffectiveSurface ::
  "string option \<Rightarrow> mcp_surface \<Rightarrow> string option option \<Rightarrow> string option \<Rightarrow> auth_info \<Rightarrow> mcp_surface option \<Rightarrow>
   (mcp_surface \<times> mcp_surface) \<times> mcp_surface option" where
  "resolveEffectiveSurface force server db file auth lastKnown =
     (let roof = clampSurface force server in
      if roof = Verbs then ((roof, roof), lastKnown)
      else case parse_surface (ai_surface auth) of
        Some row \<Rightarrow> ((roof, minSurface roof row), lastKnown)
      | None \<Rightarrow>
          let dflt = resolveDefaultClientSurface db file in
          ((roof, minSurface roof (or_default roof dflt)), dflt))"

section \<open>Publish gates\<close>

definition readPublishGate :: "(string \<Rightarrow> string option option) \<Rightarrow> (string \<Rightarrow> bool) \<Rightarrow> string \<Rightarrow> bool" where
  "readPublishGate db file key =
     (case db key of
        Some (Some v) \<Rightarrow> v = ''true''
      | _ \<Rightarrow> file key)"

definition disabledOpsForPublishGates ::
  "(string \<Rightarrow> string option option) \<Rightarrow> (string \<Rightarrow> bool) \<Rightarrow> operation_def list \<Rightarrow> string list" where
  "disabledOpsForPublishGates db file ops =
     map op_name (filter (\<lambda>op. case op_publishGate op of
        None \<Rightarrow> False | Some key \<Rightarrow> \<not> readPublishGate db file key) ops)"

section \<open>Parameters\<close>

datatype param_type = TString | TNumber | TBoolean | TObject | TArray

record param_def =
  pd_type :: param_type
  pd_required :: bool
  pd_enum :: "string list option"

type_synonym op_params = "(string \<times> param_def) list"

datatype param_error = MissingParam string | WrongType string | NotInEnum string

fun has_type :: "param_type \<Rightarrow> json \<Rightarrow> bool" where
  "has_type TString v = (case v of JStr _ \<Rightarrow> True | _ \<Rightarrow> False)"
| "has_type TNumber v = (case v of JNum _ \<Rightarrow> True | _ \<Rightarrow> False)"
| "has_type TBoolean v = (case v of JBool _ \<Rightarrow> True | _ \<Rightarrow> False)"
| "has_type TObject v = (case v of JObj _ \<Rightarrow> True | _ \<Rightarrow> False)"
| "has_type TArray v = (case v of JArr _ \<Rightarrow> True | _ \<Rightarrow> False)"

fun given :: "json option \<Rightarrow> bool" where
  "given None = False"
| "given (Some JNull) = False"
| "given (Some v) = True"

fun validateParams :: "op_params \<Rightarrow> json_obj \<Rightarrow> param_error option" where
  "validateParams [] ps = None"
| "validateParams ((key, def) # defs) ps =
     (let v = map_of ps key in
      if \<not> given v then (if pd_required def then Some (MissingParam key) else validateParams defs ps)
      else if \<not> has_type (pd_type def) (the v) then Some (WrongType key)
      else if (case (pd_enum def, v) of (Some es, Some (JStr s)) \<Rightarrow> s \<notin> set es | _ \<Rightarrow> False)
           then Some (NotInEnum key)
      else validateParams defs ps)"

definition absent_idiom :: "param_def \<Rightarrow> json option \<Rightarrow> bool" where
  "absent_idiom def v = (v = Some JNull \<or> v = Some (JStr []) \<and> pd_type def = TString)"

fun normalizeOptionalParams :: "op_params \<Rightarrow> json_obj \<Rightarrow> json_obj" where
  "normalizeOptionalParams [] ps = ps"
| "normalizeOptionalParams ((key, def) # defs) ps =
     (if \<not> pd_required def \<and> absent_idiom def (map_of ps key)
      then normalizeOptionalParams defs (filter (\<lambda>(k, v). k \<noteq> key) ps)
      else normalizeOptionalParams defs ps)"

definition findUnknownParams :: "op_params \<Rightarrow> json_obj \<Rightarrow> string list" where
  "findUnknownParams defs ps =
     filter (\<lambda>k. k \<notin> fst ` set defs \<and> k \<notin> {''_meta'', ''dry_run''}) (map fst ps)"

datatype strict_mode = Warn | Reject

definition parseStrictParamsMode :: "string option \<Rightarrow> strict_mode option" where
  "parseStrictParamsMode v =
     (if v = Some ''warn'' then Some Warn else if v = Some ''reject'' then Some Reject else None)"

text \<open>The mode, and the mode of the database remembered across reads that throw.\<close>

definition resolveStrictParamsMode ::
  "string option option \<Rightarrow> string option \<Rightarrow> strict_mode option \<Rightarrow> strict_mode \<times> strict_mode option" where
  "resolveStrictParamsMode db file lastKnown =
     (let fallback = or_default Warn (parseStrictParamsMode file) in
      case db of
        Some v \<Rightarrow>
          (let dbMode = parseStrictParamsMode v in (or_default fallback dbMode, dbMode))
      | None \<Rightarrow> (or_default fallback lastKnown, lastKnown))"

section \<open>Dispatch\<close>

record dispatch_opts =
  do_allowedOps :: "string list option"
  do_transport :: "string option"
  do_remote :: "bool option"
  do_sourceId :: "string option"
  do_sourceGuardTier :: "string option"
  do_auth :: "auth_info option"

datatype dispatch_verdict =
    UnknownTool
  | SourceBindingRequired
  | InvalidParams param_error
  | UnknownParams "string list"
  | MissingSourceScope
  | Denied op_denial
  | Runs json_obj

text \<open>The gates of \<open>dispatchToolCall\<close> in order; \<open>Runs\<close> carries the parameters the handler gets.\<close>

definition dispatch_gates ::
  "(operation_def \<times> op_params) list \<Rightarrow> source_row list option \<Rightarrow> strict_mode \<Rightarrow> dispatch_opts \<Rightarrow> string \<Rightarrow>
   json_obj \<Rightarrow> dispatch_verdict" where
  "dispatch_gates catalog rows strict opts name params =
     (if (case do_allowedOps opts of Some ops \<Rightarrow> name \<notin> set ops | None \<Rightarrow> False) then UnknownTool
      else case List.find (\<lambda>(op, defs). op_name op = name) catalog of
        None \<Rightarrow> UnknownTool
      | Some (op, defs) \<Rightarrow>
          if op_localOnly op \<and> do_transport opts \<noteq> Some ''stdio'' then UnknownTool
          else if (case do_sourceGuardTier opts of
                 None \<Rightarrow> False
               | Some tier \<Rightarrow> op_scope op \<noteq> Some ''read'' \<and>
                   (do_sourceId opts = Some ALL_SOURCES \<or> sourceGuardBlocksWrite rows tier))
          then SourceBindingRequired
          else
            (let safe = normalizeOptionalParams defs params in
             case validateParams defs safe of
               Some e \<Rightarrow> InvalidParams e
             | None \<Rightarrow>
                 let unknown = findUnknownParams defs safe in
                 if unknown \<noteq> [] \<and> strict = Reject then UnknownParams unknown
                 else if or_default True (do_remote opts) \<and> (do_sourceId opts = None \<or> do_sourceId opts = Some [])
                 then MissingSourceScope
                 else case enforceBoundClientOpAllowList (do_auth opts) op of
                        Some d \<Rightarrow> Denied d
                      | None \<Rightarrow> Runs safe))"

section \<open>The \<open>/mcp\<close> route\<close>

definition scope_satisfied :: "auth_info \<Rightarrow> operation_def \<Rightarrow> bool" where
  "scope_satisfied auth op =
     (hasScope (ai_scopes auth) (or_default ''read'' (op_scope op)) \<or>
      op_agentCallable op = Some True \<and> hasScope (ai_scopes auth) ''agent'')"

definition mcp_operations :: "(operation_def \<times> op_params) list \<Rightarrow> mcp_surface \<Rightarrow> operation_def list" where
  "mcp_operations catalog surface =
     filterOpsForSurface (filter (\<lambda>op. \<not> op_localOnly op) (map fst catalog)) surface"

definition list_tools ::
  "(operation_def \<times> op_params) list \<Rightarrow> (string \<Rightarrow> string option option) \<Rightarrow> (string \<Rightarrow> bool) \<Rightarrow> mcp_surface \<Rightarrow>
   auth_info \<Rightarrow> operation_def list" where
  "list_tools catalog db file surface auth =
     (let gateDisabled = disabledOpsForPublishGates db file (map fst catalog) in
      filter (\<lambda>op. scope_satisfied auth op \<and> opAllowedForBoundClient (Some auth) op \<and>
                op_name op \<notin> set gateDisabled)
        (mcp_operations catalog surface))"

datatype call_verdict = UnknownOperation | InsufficientScope | Dispatched dispatch_verdict

definition call_tool ::
  "(operation_def \<times> op_params) list \<Rightarrow> source_row list option \<Rightarrow> strict_mode \<Rightarrow> mcp_surface \<Rightarrow> auth_info \<Rightarrow>
   string \<Rightarrow> json_obj \<Rightarrow> call_verdict" where
  "call_tool catalog rows strict surface auth name params =
     (case List.find (\<lambda>op. op_name op = name) (mcp_operations catalog surface) of
        None \<Rightarrow> UnknownOperation
      | Some op \<Rightarrow>
          if \<not> scope_satisfied auth op then InsufficientScope
          else Dispatched (dispatch_gates catalog rows strict
            \<lparr>do_allowedOps = (if surface = Full then None
                else Some (map op_name (mcp_operations catalog surface))),
             do_transport = Some ''http'', do_remote = Some True,
             do_sourceId = Some (or_default ''default'' (ai_sourceId auth)),
             do_sourceGuardTier = None, do_auth = Some auth\<rparr> name params))"

section \<open>Token buckets\<close>

record limiter_opts =
  lo_limit :: int
  lo_windowMs :: int
  lo_lruCap :: int

record bucket =
  bk_tokens :: int
  bk_lastRefill :: int
  bk_lastTouched :: int

type_synonym buckets = "(string \<times> bucket) list"

record limit_result =
  lr_allowed :: bool
  lr_retryAfter :: "int option"
  lr_remaining :: int

definition drop_key :: "string \<Rightarrow> buckets \<Rightarrow> buckets" where
  "drop_key key bs = filter (\<lambda>(k, b). k \<noteq> key) bs"

text \<open>\<open>prune\<close> of the limiter: the oldest entries, up to the first fresh one.\<close>

definition prune_buckets :: "limiter_opts \<Rightarrow> int \<Rightarrow> buckets \<Rightarrow> buckets" where
  "prune_buckets lo now bs = dropWhile (\<lambda>(k, b). now - bk_lastTouched b > lo_windowMs lo * 2) bs"

definition evictIfOver :: "limiter_opts \<Rightarrow> buckets \<Rightarrow> buckets" where
  "evictIfOver lo bs = drop (length bs - nat (lo_lruCap lo)) bs"

definition refill :: "limiter_opts \<Rightarrow> int \<Rightarrow> bucket \<Rightarrow> bucket" where
  "refill lo now b =
     (let refilled = ((now - bk_lastRefill b) * lo_limit lo) div lo_windowMs lo;
          b1 = (if refilled > 0
                then b\<lparr>bk_tokens := min (lo_limit lo) (bk_tokens b + refilled), bk_lastRefill := now\<rparr> else b)
      in b1\<lparr>bk_lastTouched := now\<rparr>)"

definition current_bucket :: "limiter_opts \<Rightarrow> int \<Rightarrow> bucket option \<Rightarrow> bucket" where
  "current_bucket lo now found =
     (case found of
        None \<Rightarrow> \<lparr>bk_tokens = lo_limit lo, bk_lastRefill = now, bk_lastTouched = now\<rparr>
      | Some b \<Rightarrow> refill lo now b)"

text \<open>\<open>Math.max(1, Math.ceil(msUntilNext / 1000))\<close> over exact rationals.\<close>

definition retry_after :: "limiter_opts \<Rightarrow> int \<Rightarrow> bucket \<Rightarrow> int" where
  "retry_after lo now b =
     max 1 \<lceil>(of_int (lo_windowMs lo) / of_int (lo_limit lo) - of_int (now - bk_lastRefill b)) / 1000 :: rat\<rceil>"

definition check :: "limiter_opts \<Rightarrow> int \<Rightarrow> string \<Rightarrow> buckets \<Rightarrow> limit_result \<times> buckets" where
  "check lo now key bs0 =
     (let bs = prune_buckets lo now bs0;
          b = current_bucket lo now (map_of bs key);
          rest = drop_key key bs
      in if bk_tokens b > 0 then
           (\<lparr>lr_allowed = True, lr_retryAfter = None, lr_remaining = bk_tokens b - 1\<rparr>,
            evictIfOver lo (rest @ [(key, b\<lparr>bk_tokens := bk_tokens b - 1\<rparr>)]))
         else
           (\<lparr>lr_allowed = False, lr_retryAfter = Some (retry_after lo now b), lr_remaining = 0\<rparr>,
            evictIfOver lo (rest @ [(key, b)])))"

definition refund :: "limiter_opts \<Rightarrow> string \<Rightarrow> buckets \<Rightarrow> buckets" where
  "refund lo key bs =
     map (\<lambda>(k, b). if k = key then (k, b\<lparr>bk_tokens := min (lo_limit lo) (bk_tokens b + 1)\<rparr>) else (k, b)) bs"

section \<open>A surface chosen by the client\<close>

definition PERSIST_LIMITER :: limiter_opts where
  "PERSIST_LIMITER = \<lparr>lo_limit = 5, lo_windowMs = 3600000, lo_lruCap = 5000\<rparr>"

datatype persist_outcome =
    SurfaceAndTools
  | NotASurface
  | NoClientSurface
  | AboveCeiling
  | MigrationPending
  | OperatorLocked
  | DryRun
  | RateLimited int
  | Persisted

record persist_call =
  pc_surface :: string
  pc_tools :: bool
  pc_client :: "string option"
  pc_ceiling :: "mcp_surface option"
  pc_dryRun :: bool

text \<open>The persist branch of \<open>request_tools\<close>. \<open>between\<close> is what other sessions do to the database between
  its \<open>SELECT\<close> and its \<open>UPDATE\<close>.\<close>

definition request_tools_persist ::
  "persist_call \<Rightarrow> int \<Rightarrow> (auth_db \<Rightarrow> auth_db) \<Rightarrow> auth_db \<Rightarrow> buckets \<Rightarrow> persist_outcome \<times> auth_db \<times> buckets" where
  "request_tools_persist pc now between db bs =
     (if pc_tools pc then (SurfaceAndTools, db, bs)
      else case parse_surface (Some (pc_surface pc)) of
        None \<Rightarrow> (NotASurface, db, bs)
      | Some requested \<Rightarrow>
          (case pc_client pc of
             None \<Rightarrow> (NoClientSurface, db, bs)
           | Some cid \<Rightarrow>
               if cid = [] then (NoClientSurface, db, bs)
               else if surfaceWiderThan requested (or_default Full (pc_ceiling pc)) then (AboveCeiling, db, bs)
               else if \<not> has_columns [''surface'', ''surface_set_by''] db then (MigrationPending, db, bs)
               else (case find_client cid db of
                       None \<Rightarrow> (NoClientSurface, db, bs)
                     | Some c \<Rightarrow>
                         if oc_surface_set_by c = Some ''operator'' then (OperatorLocked, db, bs)
                         else if pc_dryRun pc then (DryRun, db, bs)
                         else
                           (let (rl, bs1) = check PERSIST_LIMITER now cid bs in
                            if \<not> lr_allowed rl then
                              (RateLimited (case lr_retryAfter rl of Some r \<Rightarrow> r | None \<Rightarrow> 60), db, bs1)
                            else
                              (let (hit, db1) = persist_surface cid (pc_surface pc) (between db) in
                               if \<not> hit then (OperatorLocked, db1, refund PERSIST_LIMITER cid bs1)
                               else (Persisted, db1, bs1))))))"

end
