(* ===== verification/ToolGateProps.thy ===== *)
theory ToolGateProps
  imports ToolGate CallerProps
begin

text \<open>
  Properties of the gates: the tool list shows what the caller can call, a surface never exceeds its
  ceiling, and an operator's
  choice of a surface stands.
\<close>

section \<open>The honest catalog\<close>

lemma find_hit: "List.find P xs = Some x \<Longrightarrow> x \<in> set xs \<and> P x"
  by (auto simp: find_Some_iff)

lemma find_by_name:
  assumes "distinct (map f xs)" and "x \<in> set xs"
  shows "List.find (\<lambda>y. f y = f x) xs = Some x"
  using assms by (induction xs) auto

lemma filter_surface: "set (filterOpsForSurface ops s) \<subseteq> set ops"
  by (cases s) (auto simp: filterOpsForSurface_def)

lemma distinct_surface: "distinct (map op_name ops) \<Longrightarrow> distinct (map op_name (filterOpsForSurface ops s))"
  by (cases s) (simp_all add: filterOpsForSurface_def distinct_map_filter)

lemma mcp_operations_in: "op \<in> set (mcp_operations catalog s) \<Longrightarrow> op \<in> fst ` set catalog \<and> \<not> op_localOnly op"
  using filter_surface [of "filter (\<lambda>op. \<not> op_localOnly op) (map fst catalog)" s]
  by (auto simp: mcp_operations_def)

lemma distinct_mcp: "distinct (map (op_name \<circ> fst) catalog) \<Longrightarrow> distinct (map op_name (mcp_operations catalog s))"
  unfolding mcp_operations_def by (rule distinct_surface) (simp add: distinct_map_filter)

lemma find_catalog:
  assumes "distinct (map (op_name \<circ> fst) catalog)" and "(op, defs) \<in> set catalog"
  shows "List.find (\<lambda>(op', defs). op_name op' = op_name op) catalog = Some (op, defs)"
  using assms by (induction catalog) (auto simp: image_iff split: prod.splits)

text \<open>C19: the tool list and the tool call of the \<open>/mcp\<close> route agree. A listed tool is not refused when it is
  called: it runs, or its parameters are at fault. And a tool that runs was on the list, unless its
  publish gate is off, which its handler checks.\<close>

theorem catalog_is_honest:
  assumes "distinct (map (op_name \<circ> fst) catalog)" and "ai_sourceId auth \<noteq> Some []"
  shows "(op \<in> set (list_tools catalog db file surface auth) \<longrightarrow>
      (\<exists>v. call_tool catalog rows strict surface auth (op_name op) params = Dispatched v \<and>
         (\<exists>ps e us. v \<in> {Runs ps, InvalidParams e, UnknownParams us}))) \<and>
    (call_tool catalog rows strict surface auth name params = Dispatched (Runs ps) \<longrightarrow>
      name \<in> op_name ` set (list_tools catalog db file surface auth) \<or>
      name \<in> set (disabledOpsForPublishGates db file (map fst catalog)))"
proof -
  have gates: "\<exists>v. call_tool catalog rows strict surface auth (op_name op) params = Dispatched v \<and>
      (if opAllowedForBoundClient (Some auth) op then \<exists>ps e us. v \<in> {Runs ps, InvalidParams e, UnknownParams us}
       else \<forall>ps. v \<noteq> Runs ps)"
    if op: "op \<in> set (mcp_operations catalog surface)" and sc: "scope_satisfied auth op" for op
  proof -
    obtain defs where cat: "(op, defs) \<in> set catalog" and loc: "\<not> op_localOnly op"
      using mcp_operations_in [OF op] by force
    note fc = find_catalog [OF assms(1) cat]
    have fm: "List.find (\<lambda>o1. op_name o1 = op_name op) (mcp_operations catalog surface) = Some op"
      by (rule find_by_name [OF distinct_mcp [OF assms(1)] op])
    define opts where "opts = \<lparr>do_allowedOps = (if surface = Full then None
                else Some (map op_name (mcp_operations catalog surface))),
             do_transport = Some ''http'', do_remote = Some True,
             do_sourceId = Some (or_default ''default'' (ai_sourceId auth)),
             do_sourceGuardTier = None, do_auth = Some auth\<rparr>"
    have call: "call_tool catalog rows strict surface auth (op_name op) params =
        Dispatched (dispatch_gates catalog rows strict opts (op_name op) params)"
      using fm sc by (simp add: call_tool_def opts_def)
    have src: "or_default ''default'' (ai_sourceId auth) \<noteq> []"
      using assms(2) by (auto simp: or_default_def split: option.splits)
    have "if opAllowedForBoundClient (Some auth) op
      then \<exists>ps e us. dispatch_gates catalog rows strict opts (op_name op) params \<in> {Runs ps, InvalidParams e, UnknownParams us}
      else \<forall>ps. dispatch_gates catalog rows strict opts (op_name op) params \<noteq> Runs ps"
      using fc loc op src
      by (auto simp: dispatch_gates_def opts_def Let_def enforceBoundClientOpAllowList_def split: option.splits)
    with call show ?thesis by blast
  qed
  have "\<exists>v. call_tool catalog rows strict surface auth (op_name op) params = Dispatched v \<and>
      (\<exists>ps e us. v \<in> {Runs ps, InvalidParams e, UnknownParams us})"
    if "op \<in> set (list_tools catalog db file surface auth)"
  proof -
    from that have "op \<in> set (mcp_operations catalog surface)" "scope_satisfied auth op" "opAllowedForBoundClient (Some auth) op"
      by (auto simp: list_tools_def Let_def)
    with gates [of op] show ?thesis by simp
  qed
  moreover have "name \<in> op_name ` set (list_tools catalog db file surface auth) \<or>
      name \<in> set (disabledOpsForPublishGates db file (map fst catalog))"
    if r: "call_tool catalog rows strict surface auth name params = Dispatched (Runs ps)"
  proof -
    from r obtain o1 where o1: "List.find (\<lambda>o1. op_name o1 = name) (mcp_operations catalog surface) = Some o1"
      "scope_satisfied auth o1"
      by (auto simp: call_tool_def split: option.splits if_splits)
    then have m: "o1 \<in> set (mcp_operations catalog surface)" "op_name o1 = name" using find_hit by force+
    from gates [OF m(1) o1(2)] r m(2) have "opAllowedForBoundClient (Some auth) o1" by (auto split: if_splits)
    with m o1(2) show ?thesis by (auto simp: list_tools_def Let_def)
  qed
  ultimately show ?thesis by blast
qed

definition demo_catalog :: "(operation_def \<times> op_params) list" where
  "demo_catalog =
     [(\<lparr>op_name = ''search'', op_scope = Some ''read'', op_mutating = None, op_localOnly = False,
        op_agentCallable = None, op_verb = None, op_publishGate = None\<rparr>,
       [(''query'', \<lparr>pd_type = TString, pd_required = True, pd_enum = None\<rparr>)]),
      (\<lparr>op_name = ''submit_job'', op_scope = Some ''admin'', op_mutating = Some True, op_localOnly = False,
        op_agentCallable = None, op_verb = None, op_publishGate = None\<rparr>, [])]"

lemma catalog_is_honest_witness:
  "map op_name (list_tools demo_catalog (\<lambda>_. None) (\<lambda>_. True) Full demo_info) = [''search''] \<and>
   (\<exists>v. call_tool demo_catalog None Warn Full demo_info ''search'' [] = Dispatched v \<and>
      (\<exists>ps e us. v \<in> {Runs ps, InvalidParams e, UnknownParams us})) \<and>
   call_tool demo_catalog None Warn Full demo_info ''submit_job'' [] = InsufficientScope"
proof -
  define op where "op = fst (hd demo_catalog)"
  have l: "map op_name (list_tools demo_catalog (\<lambda>_. None) (\<lambda>_. True) Full demo_info) = [''search'']"
    "call_tool demo_catalog None Warn Full demo_info ''submit_job'' [] = InsufficientScope"
    by code_simp+
  have d: "distinct (map (op_name \<circ> fst) demo_catalog)" "ai_sourceId demo_info \<noteq> Some []" by code_simp+
  have "list_tools demo_catalog (\<lambda>_. None) (\<lambda>_. True) Full demo_info = [op]" unfolding op_def by code_simp
  moreover have "op_name op = ''search''" unfolding op_def by code_simp
  ultimately show ?thesis
    using catalog_is_honest [OF d, of op "\<lambda>_. None" "\<lambda>_. True" Full None Warn "[]" "''search''"] l by simp
qed

section \<open>Surfaces\<close>

lemma minSurface_rank: "surface_rank (minSurface a b) = min (surface_rank a) (surface_rank b)"
  by (simp add: minSurface_def min_def)

lemma rank_inj: "surface_rank a = surface_rank b \<Longrightarrow> a = b"
  by (cases a; cases b) simp_all

lemma clamp_rank: "surface_rank (clampSurface force s) \<le> surface_rank s"
  by (auto simp: clampSurface_def minSurface_rank split: option.splits)

text \<open>The surface a request is served with is at most the ceiling, which is at most what the server was
  started with; neither the client's row, the configured default nor the kill switch widens it.\<close>

lemma surface_within_ceiling:
  assumes "resolveEffectiveSurface force server db file auth lk = ((roof, eff), lk')"
  shows "surface_rank eff \<le> surface_rank roof \<and> surface_rank roof \<le> surface_rank server"
  using assms clamp_rank [of force server]
  by (auto simp: resolveEffectiveSurface_def Let_def minSurface_rank split: if_splits option.splits)

text \<open>The default remembered against an outage of the configuration is not used: with no default in the file,
  a read that throws serves a client without a surface of its own at the full ceiling.\<close>

lemma outage_widens_surface:
  assumes "parse_surface (ai_surface auth) = None" and "clampSurface force server = roof" and "roof \<noteq> Verbs"
  shows "resolveEffectiveSurface force server (Some (Some ''verbs'')) None auth lk = ((roof, Verbs), Some Verbs) \<and>
    resolveEffectiveSurface force server None None auth (Some Verbs) = ((roof, roof), None)"
proof -
  have "minSurface roof Verbs = Verbs" "minSurface roof roof = roof"
    by (rule rank_inj; simp add: minSurface_rank)+
  with assms show ?thesis
    by (simp add: resolveEffectiveSurface_def resolveDefaultClientSurface_def parse_surface_def or_default_def Let_def)
qed

text \<open>C20: a client cannot choose past an operator or past the ceiling: when its request to store a surface
  succeeds, the surface is within the ceiling and no operator's choice stood in the row the update met;
  when an operator set one at any time before that update, also after the request had read the row, the
  request fails and leaves the tables to the others.\<close>

theorem operator_choice_stands:
  assumes "request_tools_persist pc now between db bs = (out, db', bs')"
  shows "(out = Persisted \<longrightarrow> (\<exists>s cid. parse_surface (Some (pc_surface pc)) = Some s \<and> pc_client pc = Some cid \<and>
      surface_rank s \<le> surface_rank (or_default Full (pc_ceiling pc)) \<and>
      (\<exists>c \<in> set (ad_clients (between db)). oc_id c = cid \<and> oc_surface_set_by c \<noteq> Some ''operator''))) \<and>
    ((\<forall>c \<in> set (ad_clients (between db)). Some (oc_id c) = pc_client pc \<longrightarrow> oc_surface_set_by c = Some ''operator'')
      \<longrightarrow> out \<noteq> Persisted \<and> db' \<in> {db, between db})"
proof -
  have hit: "fst (persist_surface cid s d) \<longleftrightarrow>
      (\<exists>c \<in> set (ad_clients d). oc_id c = cid \<and> oc_surface_set_by c \<noteq> Some ''operator'')" for cid s d
    by (simp add: persist_surface_def Let_def list_ex_iff)
  have same: "snd (persist_surface cid s d) = d"
    if "\<forall>c \<in> set (ad_clients d). oc_id c = cid \<longrightarrow> oc_surface_set_by c = Some ''operator''" for cid s d
    using that by (simp add: persist_surface_def Let_def upd_clients_def)
  consider (early) "out \<noteq> Persisted" "db' = db"
    | (reached) s cid b where "parse_surface (Some (pc_surface pc)) = Some s" "pc_client pc = Some cid"
        "surface_rank s \<le> surface_rank (or_default Full (pc_ceiling pc))"
        "persist_surface cid (pc_surface pc) (between db) = (b, db')" "out = (if b then Persisted else OperatorLocked)"
    using assms
    by (auto simp: request_tools_persist_def surfaceWiderThan_def not_less Let_def
        split: if_splits option.splits prod.splits)
  then show ?thesis
  proof cases
    case early
    then show ?thesis by simp
  next
    case reached
    then show ?thesis
      using hit [of cid "pc_surface pc" "between db"] same [where cid = cid and s = "pc_surface pc" and d = "between db"]
      by auto
  qed
qed

definition demo_request :: persist_call where
  "demo_request = \<lparr>pc_surface = ''full'', pc_tools = False, pc_client = Some ''c'', pc_ceiling = Some Full,
     pc_dryRun = False\<rparr>"

definition operator_lock :: "auth_db \<Rightarrow> auth_db" where
  "operator_lock db = upd_clients (\<lambda>c. oc_id c = ''c'')
     (\<lambda>c. c\<lparr>oc_surface := Some ''verbs'', oc_surface_set_by := Some ''operator''\<rparr>) db"

text \<open>The operator's choice, made after the request has read the row, stands.\<close>

lemma operator_choice_stands_witness:
  "fst (request_tools_persist demo_request 1000 id (aw_db (demo_run demo_registered)) []) = Persisted \<and>
   fst (request_tools_persist demo_request 1000 operator_lock (aw_db (demo_run demo_registered)) []) \<noteq> Persisted"
proof -
  define db where "db = aw_db (demo_run demo_registered)"
  have a: "\<forall>c \<in> set (ad_clients (operator_lock db)). oc_surface_set_by c = Some ''operator''"
    unfolding db_def by code_simp
  obtain out db' bs' where r: "request_tools_persist demo_request 1000 operator_lock db [] = (out, db', bs')"
    by (metis prod_cases3)
  have "out \<noteq> Persisted" using operator_choice_stands [OF r] a by blast
  moreover have "fst (request_tools_persist demo_request 1000 id (aw_db (demo_run demo_registered)) []) = Persisted"
    by code_simp
  ultimately show ?thesis using r by (simp add: db_def)
qed

end
