(* ===== verification/LimiterProps.thy ===== *)
theory LimiterProps
  imports ToolGate
begin

text \<open>
  Properties of the token buckets of \<open>mcp/rate-limit.ts\<close>: what a key is allowed in any stretch of time is
  bounded, and the time a refused caller is told to wait suffices.
\<close>

section \<open>Token buckets\<close>

datatype limiter_event = CheckAt string int | RefundOf string

fun event_key :: "limiter_event \<Rightarrow> string" where
  "event_key (CheckAt k now) = k"
| "event_key (RefundOf k) = k"

text \<open>One step of a limiter, counting what key \<open>k\<close> was allowed, less what it was given back.\<close>

fun limiter_exec :: "limiter_opts \<Rightarrow> string \<Rightarrow> limiter_event \<Rightarrow> int \<times> buckets \<Rightarrow> int \<times> buckets" where
  "limiter_exec lo k (CheckAt key now) (n, bs) =
     (let (r, bs1) = check lo now key bs in (if key = k \<and> lr_allowed r then n + 1 else n, bs1))"
| "limiter_exec lo k (RefundOf key) (n, bs) = (if key = k then n - 1 else n, refund lo key bs)"

fun check_times :: "limiter_event list \<Rightarrow> int list" where
  "check_times [] = []"
| "check_times (CheckAt k now # es) = now # check_times es"
| "check_times (RefundOf k # es) = check_times es"

definition bucket_ok :: "limiter_opts \<Rightarrow> int \<Rightarrow> bucket \<Rightarrow> bool" where
  "bucket_ok lo now b = (0 \<le> bk_tokens b \<and> bk_tokens b \<le> lo_limit lo \<and> bk_lastRefill b \<le> bk_lastTouched b \<and>
     bk_lastTouched b \<le> now)"

definition limiter_ok :: "limiter_opts \<Rightarrow> int \<Rightarrow> string set \<Rightarrow> buckets \<Rightarrow> bool" where
  "limiter_ok lo now ks bs = (distinct (map fst bs) \<and> fst ` set bs \<subseteq> ks \<and> (\<forall>(k, b) \<in> set bs. bucket_ok lo now b))"

text \<open>What a key can still be allowed, in units of a window: its tokens and the time since its last refill.\<close>

definition credit :: "limiter_opts \<Rightarrow> int \<Rightarrow> bucket option \<Rightarrow> int" where
  "credit lo now found = (case found of
     None \<Rightarrow> lo_limit lo * lo_windowMs lo
   | Some b \<Rightarrow> min ((lo_limit lo + 1) * lo_windowMs lo)
       (bk_tokens b * lo_windowMs lo + (now - bk_lastRefill b) * lo_limit lo))"

lemma limiter_ok_lookup: "limiter_ok lo now ks bs \<Longrightarrow> map_of bs k = Some b \<Longrightarrow> bucket_ok lo now b"
  by (auto simp: limiter_ok_def dest: map_of_SomeD)

lemma limiter_ok_later: "limiter_ok lo t ks bs \<Longrightarrow> t \<le> now \<Longrightarrow> limiter_ok lo now ks bs"
  by (force simp: limiter_ok_def bucket_ok_def)

lemma limiter_ok_prune: "limiter_ok lo now ks bs \<Longrightarrow> limiter_ok lo now ks (prune_buckets lo now bs)"
  by (induction bs) (auto simp: limiter_ok_def prune_buckets_def)

lemma limiter_ok_drop: "limiter_ok lo now ks bs \<Longrightarrow> limiter_ok lo now ks (drop_key key bs)"
  by (auto simp: limiter_ok_def drop_key_def distinct_map_filter)

lemma limiter_ok_add:
  "limiter_ok lo now ks bs \<Longrightarrow> key \<in> ks \<Longrightarrow> bucket_ok lo now b \<Longrightarrow> limiter_ok lo now ks (drop_key key bs @ [(key, b)])"
  using limiter_ok_drop [of lo now ks bs key] by (auto simp: limiter_ok_def drop_key_def)

lemma evict_id:
  assumes "limiter_ok lo now ks bs" and "finite ks" and "int (card ks) \<le> lo_lruCap lo"
  shows "evictIfOver lo bs = bs"
proof -
  from assms have "length bs \<le> card ks"
    by (metis card_mono distinct_card length_map limiter_ok_def list.set_map)
  with assms(3) show ?thesis by (simp add: evictIfOver_def)
qed

lemma refund_keys: "map fst (refund lo key bs) = map fst bs"
  by (induction bs) (auto simp: refund_def)

lemma limiter_ok_refund:
  assumes "limiter_ok lo now ks bs" shows "limiter_ok lo now ks (refund lo key bs)"
proof -
  have "fst ` set (refund lo key bs) = fst ` set bs"
    using refund_keys [of lo key bs] by (metis set_map)
  moreover have "\<forall>(k, b) \<in> set (refund lo key bs). bucket_ok lo now b"
    using assms by (auto simp: refund_def limiter_ok_def bucket_ok_def split: if_splits)
  ultimately show ?thesis using assms by (simp add: limiter_ok_def refund_keys)
qed

lemma map_of_drop_key: "map_of (drop_key key bs @ [(key, b)]) k = (if k = key then Some b else map_of bs k)"
  by (induction bs) (auto simp: drop_key_def)

lemma map_of_refund: "map_of (refund lo key bs) k =
   (if k = key then map_option (\<lambda>b. b\<lparr>bk_tokens := min (lo_limit lo) (bk_tokens b + 1)\<rparr>) (map_of bs k) else map_of bs k)"
  by (induction bs) (auto simp: refund_def)

lemma refill_keeps:
  assumes "bucket_ok lo now b" and "0 < lo_limit lo" and "0 < lo_windowMs lo"
  shows "bucket_ok lo now (refill lo now b)"
    and "bk_tokens (refill lo now b) * lo_windowMs lo + (now - bk_lastRefill (refill lo now b)) * lo_limit lo
      \<le> credit lo now (Some b)"
proof -
  define e where "e = (now - bk_lastRefill b) * lo_limit lo"
  have e0: "0 \<le> e" using assms by (simp add: e_def bucket_ok_def)
  have fl: "e div lo_windowMs lo * lo_windowMs lo \<le> e"
    using assms(3) minus_mod_eq_div_mult [of e "lo_windowMs lo"] pos_mod_sign [of "lo_windowMs lo" e] by linarith
  have small: "e < lo_windowMs lo" if "\<not> 0 < e div lo_windowMs lo"
    using that assms(3) by (simp add: pos_imp_zdiv_pos_iff)
  show "bucket_ok lo now (refill lo now b)"
    using assms by (auto simp: refill_def bucket_ok_def Let_def)
  show "bk_tokens (refill lo now b) * lo_windowMs lo + (now - bk_lastRefill (refill lo now b)) * lo_limit lo
      \<le> credit lo now (Some b)"
  proof (cases "0 < e div lo_windowMs lo")
    case True
    define m where "m = min (lo_limit lo) (bk_tokens b + e div lo_windowMs lo) * lo_windowMs lo"
    have "m \<le> lo_limit lo * lo_windowMs lo" "m \<le> (bk_tokens b + e div lo_windowMs lo) * lo_windowMs lo"
      unfolding m_def using assms(3) by (intro mult_right_mono; simp)+
    then have "m \<le> min ((lo_limit lo + 1) * lo_windowMs lo) (bk_tokens b * lo_windowMs lo + e)"
      using fl assms(3) unfolding distrib_right by linarith
    with True show ?thesis by (simp add: refill_def credit_def Let_def e_def [symmetric] m_def [symmetric])
  next
    case False
    have "bk_tokens b * lo_windowMs lo \<le> lo_limit lo * lo_windowMs lo"
      using assms(1,3) by (intro mult_right_mono) (auto simp: bucket_ok_def)
    with False small show ?thesis by (simp add: refill_def credit_def Let_def e_def [symmetric] distrib_right)
  qed
qed

lemma current_keeps:
  assumes "limiter_ok lo now ks bs" and "0 < lo_limit lo" and "0 < lo_windowMs lo"
    and "b = current_bucket lo now (map_of bs key)"
  shows "bucket_ok lo now b"
    and "bk_tokens b * lo_windowMs lo + (now - bk_lastRefill b) * lo_limit lo \<le> credit lo now (map_of bs key)"
  using refill_keeps [OF limiter_ok_lookup [OF assms(1)] assms(2,3)] assms(2,4)
  by (auto simp: current_bucket_def credit_def bucket_ok_def split: option.splits)

lemma stale_credit:
  assumes "bucket_ok lo now b" and "lo_windowMs lo * 2 < now - bk_lastTouched b" and "0 < lo_limit lo" and "0 < lo_windowMs lo"
  shows "lo_limit lo * lo_windowMs lo \<le> credit lo now (Some b)"
proof -
  have "0 \<le> bk_tokens b * lo_windowMs lo" using assms by (simp add: bucket_ok_def)
  moreover have "lo_windowMs lo * lo_limit lo \<le> (now - bk_lastRefill b) * lo_limit lo"
    using assms by (intro mult_right_mono) (auto simp: bucket_ok_def)
  ultimately show ?thesis using assms(4) by (simp add: credit_def distrib_right mult.commute [of "lo_windowMs lo"])
qed

lemma prune_credit:
  assumes "limiter_ok lo now ks bs" and "0 < lo_limit lo" and "0 < lo_windowMs lo"
  shows "credit lo now (map_of (prune_buckets lo now bs) k) \<le> credit lo now (map_of bs k)"
  using assms(1)
proof (induction bs)
  case (Cons x bs)
  obtain k' b where x: "x = (k', b)" by (cases x)
  from Cons.prems have ok: "limiter_ok lo now ks bs" "bucket_ok lo now b" "k' \<notin> fst ` set bs"
    by (auto simp: limiter_ok_def x)
  show ?case
  proof (cases "lo_windowMs lo * 2 < now - bk_lastTouched b")
    case True
    have none: "map_of (prune_buckets lo now bs) k' = None" and "map_of bs k' = None"
      using ok(3) set_dropWhileD by (force simp: map_of_eq_None_iff prune_buckets_def)+
    with True stale_credit [OF ok(2) True assms(2,3)] Cons.IH [OF ok(1)] show ?thesis
      by (auto simp: x prune_buckets_def credit_def)
  qed (simp add: x prune_buckets_def)
qed (simp add: prune_buckets_def)

lemma credit_paid: "credit lo now (Some b) \<le> bk_tokens b * lo_windowMs lo + (now - bk_lastRefill b) * lo_limit lo"
  by (simp add: credit_def)

text \<open>A check: what it allows is paid from the credit of its key, and no other key gains.\<close>

lemma check_keeps:
  assumes "limiter_ok lo now ks bs" and "0 < lo_limit lo" and "0 < lo_windowMs lo"
    and "finite ks" and "int (card ks) \<le> lo_lruCap lo" and "key \<in> ks"
    and "check lo now key bs = (r, bs')"
  shows "limiter_ok lo now ks bs'"
    and "(if key = k \<and> lr_allowed r then lo_windowMs lo else 0) + credit lo now (map_of bs' k) \<le> credit lo now (map_of bs k)"
proof -
  define bs1 where "bs1 = prune_buckets lo now bs"
  define b where "b = current_bucket lo now (map_of bs1 key)"
  define b' where "b' = (if 0 < bk_tokens b then b\<lparr>bk_tokens := bk_tokens b - 1\<rparr> else b)"
  have ok1: "limiter_ok lo now ks bs1" unfolding bs1_def by (rule limiter_ok_prune [OF assms(1)])
  note cur = current_keeps [OF ok1 assms(2,3) b_def]
  have "bucket_ok lo now b'" using cur(1) by (auto simp: b'_def bucket_ok_def)
  then have ok2: "limiter_ok lo now ks (drop_key key bs1 @ [(key, b')])"
    by (rule limiter_ok_add [OF ok1 assms(6)])
  have bs': "bs' = drop_key key bs1 @ [(key, b')]" and r: "lr_allowed r \<longleftrightarrow> 0 < bk_tokens b"
    using assms(7) evict_id [OF ok2 assms(4,5)]
    by (auto simp: check_def Let_def bs1_def [symmetric] b_def [symmetric] b'_def split: if_splits)
  show "limiter_ok lo now ks bs'" using ok2 bs' by simp
  have "(if lr_allowed r then lo_windowMs lo else 0) + credit lo now (Some b') \<le>
      bk_tokens b * lo_windowMs lo + (now - bk_lastRefill b) * lo_limit lo"
    using credit_paid [of lo now b'] r by (auto simp: b'_def left_diff_distrib)
  then show "(if key = k \<and> lr_allowed r then lo_windowMs lo else 0) + credit lo now (map_of bs' k) \<le> credit lo now (map_of bs k)"
    using cur(2) prune_credit [OF assms(1-3), of k]
    unfolding bs' map_of_drop_key by (auto simp: bs1_def [symmetric])
qed

lemma refund_credit:
  assumes "0 < lo_windowMs lo"
  shows "credit lo now (map_of (refund lo key bs) k)
    \<le> credit lo now (map_of bs k) + (if key = k then lo_windowMs lo else 0)"
proof -
  have step: "credit lo now (Some (b\<lparr>bk_tokens := min (lo_limit lo) (bk_tokens b + 1)\<rparr>))
      \<le> credit lo now (Some b) + lo_windowMs lo" for b
  proof -
    define m where "m = min (lo_limit lo) (bk_tokens b + 1) * lo_windowMs lo"
    have "m \<le> (bk_tokens b + 1) * lo_windowMs lo"
      unfolding m_def using assms by (intro mult_right_mono) simp_all
    then have "m \<le> bk_tokens b * lo_windowMs lo + lo_windowMs lo" by (simp add: distrib_right)
    moreover have "min a (m + x) \<le> min a (y + x) + w" if "m \<le> y + w" and "0 < w" for a x y w :: int
      using that by linarith
    ultimately show ?thesis using assms by (simp add: credit_def m_def)
  qed
  show ?thesis using assms step by (cases "map_of bs k") (auto simp: map_of_refund)
qed

lemma credit_later:
  assumes "0 < lo_limit lo" and "t \<le> now"
  shows "credit lo now found \<le> credit lo t found + (now - t) * lo_limit lo"
proof -
  have "0 \<le> (now - t) * lo_limit lo" using assms by simp
  then show ?thesis by (auto simp: credit_def left_diff_distrib split: option.splits)
qed

lemma credit_top: "0 < lo_windowMs lo \<Longrightarrow> credit lo now found \<le> (lo_limit lo + 1) * lo_windowMs lo"
  by (simp add: credit_def distrib_right split: option.splits)

lemma credit_nonneg:
  assumes "limiter_ok lo now ks bs" and "0 < lo_limit lo" and "0 < lo_windowMs lo"
  shows "0 \<le> credit lo now (map_of bs k)"
  using assms by (auto simp: credit_def bucket_ok_def split: option.splits dest!: limiter_ok_lookup)

text \<open>The account of a run: allowed requests and remaining credit together grow no faster than the refill.\<close>

lemma limiter_account:
  assumes "0 < lo_limit lo" and "0 < lo_windowMs lo" and "finite ks" and "int (card ks) \<le> lo_lruCap lo"
    and "limiter_ok lo t ks bs" and "event_key ` set es \<subseteq> ks" and "sorted (t # check_times es @ [t1])"
    and "fold (limiter_exec lo k) es (n, bs) = (n', bs')"
  shows "limiter_ok lo t1 ks bs' \<and>
    n' * lo_windowMs lo + credit lo t1 (map_of bs' k) \<le>
      n * lo_windowMs lo + credit lo t (map_of bs k) + (t1 - t) * lo_limit lo"
  using assms(5-8)
proof (induction es arbitrary: t n bs)
  case Nil
  then show ?case using limiter_ok_later [of lo t ks bs t1] credit_later [OF assms(1), of t t1 "map_of bs k"] by simp
next
  case (Cons e es)
  show ?case
  proof (cases e)
    case (CheckAt key now)
    obtain r bs1 where c: "check lo now key bs = (r, bs1)" by (cases "check lo now key bs")
    define n1 where "n1 = (if key = k \<and> lr_allowed r then n + 1 else n)"
    have t: "t \<le> now" and key: "key \<in> ks" using Cons.prems CheckAt by auto
    have ok: "limiter_ok lo now ks bs" by (rule limiter_ok_later [OF Cons.prems(1) t])
    note keeps = check_keeps [OF ok assms(1-4) key c]
    have "limiter_ok lo t1 ks bs' \<and> n' * lo_windowMs lo + credit lo t1 (map_of bs' k) \<le>
        n1 * lo_windowMs lo + credit lo now (map_of bs1 k) + (t1 - now) * lo_limit lo"
      by (rule Cons.IH [OF keeps(1)]) (use Cons.prems CheckAt c in \<open>auto simp: n1_def\<close>)
    moreover have "n1 * lo_windowMs lo + credit lo now (map_of bs1 k) \<le> n * lo_windowMs lo + credit lo now (map_of bs k)"
      using keeps(2) [of k] by (auto simp: n1_def distrib_right)
    ultimately show ?thesis using credit_later [OF assms(1) t, of "map_of bs k"] by (simp add: left_diff_distrib)
  next
    case (RefundOf key)
    define n1 where "n1 = (if key = k then n - 1 else n)"
    have "limiter_ok lo t1 ks bs' \<and> n' * lo_windowMs lo + credit lo t1 (map_of bs' k) \<le>
        n1 * lo_windowMs lo + credit lo t (map_of (refund lo key bs) k) + (t1 - t) * lo_limit lo"
      by (rule Cons.IH [OF limiter_ok_refund [OF Cons.prems(1)]]) (use Cons.prems RefundOf in \<open>auto simp: n1_def\<close>)
    then show ?thesis using refund_credit [OF assms(2), of t key bs k] by (auto simp: n1_def left_diff_distrib split: if_splits)
  qed
qed

text \<open>C21: a limiter starts with no buckets. As long as it sees no more keys than it keeps buckets for, it allows a
  key, in every stretch of time, at most its limit and one more, and what a refill over that stretch gives;
  refunds give back only what was taken. The one more is the fraction of a token a bucket carries.\<close>

theorem allowance_bounded:
  assumes "0 < lo_limit lo" and "0 < lo_windowMs lo"
    and "int (card (event_key ` set (es0 @ es))) \<le> lo_lruCap lo"
    and "sorted (check_times es0 @ [t0] @ check_times es @ [t1])"
    and "fold (limiter_exec lo k) es (0, snd (fold (limiter_exec lo k) es0 (0, []))) = (n, bs)"
  shows "n * lo_windowMs lo \<le> (lo_limit lo + 1) * lo_windowMs lo + (t1 - t0) * lo_limit lo"
proof -
  define ks where "ks = event_key ` set (es0 @ es)"
  obtain n0 bs0 where run0: "fold (limiter_exec lo k) es0 (0, []) = (n0, bs0)" by (cases "fold (limiter_exec lo k) es0 (0, [])")
  have fin: "finite ks" by (simp add: ks_def)
  have cap: "int (card ks) \<le> lo_lruCap lo" using assms(3) by (simp add: ks_def)
  define s where "s = hd (check_times es0 @ [t0])"
  have s: "sorted (s # check_times es0 @ [t0])" "sorted (t0 # check_times es @ [t1])"
    using assms(4) by (cases "check_times es0"; auto simp: s_def sorted_append)+
  have sub: "event_key ` set es0 \<subseteq> ks" "event_key ` set es \<subseteq> ks" by (auto simp: ks_def)
  have "limiter_ok lo s ks []" by (simp add: limiter_ok_def)
  from limiter_account [OF assms(1,2) fin cap this sub(1) s(1) run0]
  have ok0: "limiter_ok lo t0 ks bs0" by blast
  have "fold (limiter_exec lo k) es (0, bs0) = (n, bs)" using assms(5) run0 by simp
  from limiter_account [OF assms(1,2) fin cap ok0 sub(2) s(2) this]
  show ?thesis
    using credit_top [OF assms(2), of t0 "map_of bs0 k"] credit_nonneg [OF _ assms(1,2), of t1 ks bs k] by fastforce
qed

definition demo_limiter :: limiter_opts where
  "demo_limiter = \<lparr>lo_limit = 2, lo_windowMs = 1000, lo_lruCap = 2\<rparr>"

lemma allowance_bounded_witness:
  "fst (fold (limiter_exec demo_limiter ''a'') [CheckAt ''a'' 10, CheckAt ''a'' 20, CheckAt ''b'' 20, CheckAt ''a'' 30]
      (0, snd (fold (limiter_exec demo_limiter ''a'') [CheckAt ''a'' 0] (0, [])))) = 1 \<and>
   1 * (1000::int) \<le> (2 + 1) * 1000 + (40 - 5) * 2"
proof -
  define es where "es = [CheckAt ''a'' 10, CheckAt ''a'' 20, CheckAt ''b'' 20, CheckAt ''a'' 30]"
  define st where "st = fold (limiter_exec demo_limiter ''a'') es (0, snd (fold (limiter_exec demo_limiter ''a'') [CheckAt ''a'' 0] (0, [])))"
  have n: "fst st = 1" unfolding st_def es_def by code_simp
  then have run: "fold (limiter_exec demo_limiter ''a'') es (0, snd (fold (limiter_exec demo_limiter ''a'') [CheckAt ''a'' 0] (0, [])))
      = (1, snd st)" unfolding st_def [symmetric] by (metis prod.collapse)
  have "1 * lo_windowMs demo_limiter \<le> (lo_limit demo_limiter + 1) * lo_windowMs demo_limiter + (40 - 5) * lo_limit demo_limiter"
    by (rule allowance_bounded [OF _ _ _ _ run]) (simp_all add: demo_limiter_def es_def card_insert_if)
  with n show ?thesis unfolding st_def es_def by (simp only: demo_limiter_def limiter_opts.simps) 
qed

text \<open>A caller that is refused and waits the time it is told is allowed, when nothing else is asked of the
  limiter in between.\<close>

theorem retry_after_suffices:
  assumes "0 < lo_limit lo" and "0 < lo_windowMs lo" and "0 < lo_lruCap lo"
    and "distinct (map fst bs)" and "\<forall>(q, b) \<in> set bs. 0 \<le> bk_tokens b"
    and "check lo now key bs = (res, bs')" and "lr_retryAfter res = Some s" and "now + 1000 * s \<le> later"
  shows "\<not> lr_allowed res \<and> lr_allowed (fst (check lo later key bs'))"
proof -
  define b where "b = current_bucket lo now (map_of (prune_buckets lo now bs) key)"
  define rest where "rest = drop_key key (prune_buckets lo now bs)"
  have res: "\<not> 0 < bk_tokens b" "\<not> lr_allowed res" "s = retry_after lo now b" "bs' = evictIfOver lo (rest @ [(key, b)])"
    using assms(6,7) by (auto simp: check_def Let_def b_def [symmetric] rest_def [symmetric] split: if_splits)
  define kept where "kept = drop (length rest + 1 - nat (lo_lruCap lo)) rest"
  have bs': "bs' = kept @ [(key, b)]" using assms(3) by (simp add: res evictIfOver_def kept_def)
  have notin: "key \<notin> fst ` set kept"
    by (auto simp: kept_def rest_def drop_key_def dest!: in_set_dropD)
  have pos: "0 \<le> bk_tokens b"
  proof -
    have "0 \<le> bk_tokens x" if "map_of (prune_buckets lo now bs) key = Some x" for x
      using map_of_SomeD [OF that] assms(5) set_dropWhileD by (fastforce simp: prune_buckets_def)
    then show ?thesis using assms(1,2)
      by (auto simp: b_def current_bucket_def refill_def Let_def split: option.splits)
  qed
  have "(of_int (lo_windowMs lo) / of_int (lo_limit lo) - of_int (now - bk_lastRefill b)) / 1000 \<le> (of_int s :: rat)"
    unfolding res(3) retry_after_def by (metis le_of_int_ceiling max.coboundedI2 of_int_le_iff order_trans max.cobounded2)
  then have "of_int (lo_windowMs lo) / of_int (lo_limit lo) \<le> (of_int (now + 1000 * s - bk_lastRefill b) :: rat)"
    by (simp add: field_simps)
  also have "\<dots> \<le> of_int (later - bk_lastRefill b)" using assms(8) by (simp only: of_int_le_iff)
  finally have "(of_int (lo_windowMs lo) :: rat) \<le> of_int ((later - bk_lastRefill b) * lo_limit lo)"
    using assms(1) by (simp add: pos_divide_le_eq)
  then have "lo_windowMs lo \<le> (later - bk_lastRefill b) * lo_limit lo" by (simp only: of_int_le_iff)
  then have "0 < ((later - bk_lastRefill b) * lo_limit lo) div lo_windowMs lo" using assms(2) by (simp add: pos_imp_zdiv_pos_iff)
  then have full: "0 < bk_tokens (current_bucket lo later (Some b))" "0 < bk_tokens (current_bucket lo later None)"
    using pos assms(1) by (auto simp: current_bucket_def refill_def Let_def)
  have "map_of (prune_buckets lo later bs') key \<in> {None, Some b}"
  proof -
    have "map_of (prune_buckets lo later (ks @ [(key, b)])) key \<in> {None, Some b}" if "map_of ks key = None" for ks
      using that by (induction ks) (auto simp: prune_buckets_def map_add_def split: if_splits)
    moreover have "map_of kept key = None" using notin by (simp add: map_of_eq_None_iff)
    ultimately show ?thesis unfolding bs' by blast
  qed
  with full have "0 < bk_tokens (current_bucket lo later (map_of (prune_buckets lo later bs') key))" by auto
  with res(2) show ?thesis by (simp add: check_def Let_def)
qed

lemma retry_after_suffices_witness:
  "lr_retryAfter (fst (check demo_limiter 30 ''a'' [(''a'', \<lparr>bk_tokens = 0, bk_lastRefill = 0, bk_lastTouched = 20\<rparr>)])) = Some 1 \<and>
   lr_allowed (fst (check demo_limiter 1030 ''a''
     (snd (check demo_limiter 30 ''a'' [(''a'', \<lparr>bk_tokens = 0, bk_lastRefill = 0, bk_lastTouched = 20\<rparr>)]))))"
proof -
  define bs where "bs = [(''a'', \<lparr>bk_tokens = 0, bk_lastRefill = 0, bk_lastTouched = 20\<rparr>)]"
  have r: "lr_retryAfter (fst (check demo_limiter 30 ''a'' bs)) = Some 1"
    by (simp add: check_def prune_buckets_def bs_def demo_limiter_def current_bucket_def refill_def retry_after_def drop_key_def Let_def)
  have c: "check demo_limiter 30 ''a'' bs = (fst (check demo_limiter 30 ''a'' bs), snd (check demo_limiter 30 ''a'' bs))" by simp
  have "\<not> lr_allowed (fst (check demo_limiter 30 ''a'' bs)) \<and>
      lr_allowed (fst (check demo_limiter 1030 ''a'' (snd (check demo_limiter 30 ''a'' bs))))"
    by (rule retry_after_suffices [OF _ _ _ _ _ c r]) (simp_all add: demo_limiter_def bs_def)
  with r show ?thesis by (simp add: bs_def)
qed

end
