(* ===== verification/Spec2Isabelle.thy ===== *)
theory Spec2Isabelle
  imports AdminProps SubmitProps PolicyProps WorkerProps SearchTrim SchemaAlias TakesEdit RemoteBody
    DbLockProps SuperviseLockProps OAuthProps CallerProps ToolGateProps LimiterProps
begin

text \<open>
  Verification of the core logic of GBrain: the Minions job queue (\<open>src/core/minions/\<close>), the durable
  Postgres-backed queue that every background job of the product runs on, with the admission,
  rate-limit and scheduling policy, the worker around it and the supervisor around the worker; the named
  database locks (\<open>db-lock.ts\<close>) that keep supervisors, cycles and syncs apart; the ranking stage of hybrid search
  (\<open>src/core/search/\<close>); the alias graph of schema packs (\<open>src/core/schema-pack/\<close>); and the fenced
  tables of a page, takes and facts, with the boundary that hides private rows from remote readers
  (\<open>takes-fence.ts\<close>, \<open>facts-fence.ts\<close>, \<open>remote-body.ts\<close>); and the access control of the server:
  the authorization server (\<open>oauth-provider.ts\<close>), the fences around a caller (\<open>ops/context.ts\<close>) and the
  gates before an operation (\<open>src/src/mcp/\<close>). Paths below are relative to \<open>src/src/core\<close>.

  PARTS OF THE PROGRAM. Submitters call \<open>MinionQueue.add\<close> (\<open>minions/queue.ts\<close>), which consults the
  trust gates (\<open>protected-names.ts\<close>, \<open>embed-backfill-admission.ts\<close>), the handler tables
  (\<open>handler-timeouts.ts\<close>) and the admission policy (\<open>admission.ts\<close>) and inserts a row. Workers
  claim rows under a lock token, renew the lease, report progress and end the job
  (\<open>completeJob\<close>, \<open>failJob\<close>, \<open>releaseLeaseFullJob\<close>); a job may have children, and then waits for
  them in \<open>waiting-children\<close> until their \<open>child_done\<close> messages are in its inbox. Sweeps promote
  delayed jobs, requeue or kill stalled ones, enforce timeouts, expire old waiting jobs and
  recover orphaned private queues. Operators list, cancel, retry, pause, replay and prune.
  Outbound calls hold rate leases (\<open>rate-leases.ts\<close>) under a cap that a controller adapts
  (\<open>lease-cap-controller.ts\<close>). A worker process (\<open>worker.ts\<close>) polls, keeps the lease of each running
  job alive with a heartbeat (\<open>lock-renewal-tick.ts\<close>), settles what its handlers return or throw, and
  retries safe statements over lost connections (\<open>retry.ts\<close>, \<open>retry-matcher.ts\<close>). A supervisor
  (\<open>supervisor.ts\<close>, \<open>child-worker-supervisor.ts\<close>) respawns the worker with a backoff, restarts it when it
  is alive and makes no progress, and runs only while it holds the lock of its queue, a row of
  \<open>gbrain_cycle_locks\<close> like every lock of \<open>db-lock.ts\<close>; a lock is taken by an upsert that may steal
  an expired row, kept by refreshes and ended by deletes under the fence of its acquisition.
  A search runs several recall arms; \<open>search/fusion-lists.ts\<close> turns their lists into weighted
  inputs, \<open>search/hybrid.ts\<close> fuses them by reciprocal rank, \<open>search/dedup.ts\<close>, \<open>search/autocut.ts\<close>,
  \<open>search/return-policy.ts\<close> and \<open>search/token-budget.ts\<close> cut the ranking down. Typed queries are
  widened by the alias closure of the schema pack (\<open>schema-pack/closure.ts\<close>). A page is markdown; its
  takes and facts stand in tables between comment markers, which are the source of truth for the
  database. Every edit parses a table, changes the list of rows and renders it again. A remote reader gets a
  page through \<open>sanitizeRemoteBody\<close>, and what he writes back is merged with the stored table
  (\<open>mergeHiddenFactRowsIntoBody\<close> in \<open>import-file.ts\<close>).
  A remote caller presents a token. Clients register, by themselves or by an operator, with a list of
  scopes; codes and refresh tokens are redeemed for access tokens by deleting their rows;
  \<open>verifyAccessToken\<close> turns an access token, or an older bearer token, into an \<open>AuthInfo\<close> with what its client
  may do now: scopes, sources it writes to and reads, slug bindings, tool surface. The \<open>/mcp\<close> route
  lists and calls tools within the surface, the scopes and the binding, \<open>dispatchToolCall\<close> checks
  parameters and scope, and a handler reads through \<open>resolveRequestedScope\<close> and writes through the slug fences.
  Token buckets (\<open>mcp/rate-limit.ts\<close>) bound how often.

  HOW IT IS MODELLED. The database is the record \<open>queue_db\<close> (jobs, inbox, attachments, serial
  counters, config); a job is the record \<open>minion_job\<close> with the columns of the table. An SQL
  statement is \<open>upd_where\<close>/\<open>returning\<close> with its WHERE clause as a predicate and its SET list as a
  row function (\<open>claim_row\<close>, \<open>fail_row\<close>, ..); a queue method is one definition of the same name,
  composed of those statements in the code's order, with its early returns; a method that can
  throw returns a sum. Every method is one atomic step, which is what its transaction and row
  locks provide; \<open>busy\<close> is the set of rows that \<open>FOR UPDATE SKIP LOCKED\<close> passes over, and the
  recovery of private queues, which is several transactions, takes what other sessions do between
  its two verdicts as an argument. \<open>sendMessage\<close> and \<open>readInbox\<close> are two statements in the code
  and one step here. Clocks, random numbers, SHA-256, \<open>Date.parse\<close>, \<open>Intl\<close> and model
  capabilities are arguments. Timestamps are microseconds; doubles are exact rationals. In the page tables a
  string is the list of its UTF-16 code units (\<open>js_text\<close>), the \<open>String\<close>, \<open>RegExp\<close> and \<open>Number\<close>
  functions the code calls are written out on it, and a double is identified with the decimal it
  prints as; which code points are word characters of a slug is an argument. The tables of the authorization
  server are the record \<open>auth_db\<close> with the optional columns its schema has; SHA-256, the URL parser and \<open>JSON.parse\<close>
  are the record \<open>runtime\<close>. A grant is taken from its row in one step and its tokens are inserted in
  later ones, so that requests of several sessions interleave (\<open>auth_exec\<close>, a list of events run in order).

  THEORIES.
  \<^item> \<open>Prelude\<close>, \<open>Json\<close>: the JavaScript string and number functions the code calls, SQL clauses, JSON
    values and the \<open>jsonb\<close> operators, list lemmas.
  \<^item> \<open>Canon\<close>: \<open>stableStringify\<close> and \<open>computeParamHash\<close> (\<open>admission.ts\<close>), with the injectivity of the
    canonical text.
  \<^item> \<open>JobModel\<close>: rows, statuses, CHECK constraints (\<open>pglite-schema.ts\<close>), \<open>rowToMinionJob\<close>
    (\<open>minions/types.ts\<close>), and the statements several methods share.
  \<^item> \<open>JobDefaults\<close>, \<open>Admission\<close>: the handler tables and gates, backoff, quiet hours; the policy.
  \<^item> \<open>QueueSubmit\<close>, \<open>QueueRun\<close>, \<open>QueueSweep\<close>, \<open>QueueAdmin\<close>, \<open>QueuePrivate\<close>: the methods of
    \<open>MinionQueue\<close>.
  \<^item> \<open>RateLimits\<close>: rate leases, the cap controller, stagger slots, with their properties.
  \<^item> \<open>QueueInv\<close>, \<open>QueueSteps\<close>: the invariant \<open>db_ok\<close>, its preservation by every operation, the step
    relation \<open>queue_step\<close> (one rule per operation, no assumption on arguments, clocks or order) and
    \<open>reachable\<close>.
  \<^item> \<open>QueueHistory\<close>: the interface \<open>row_history\<close> (a relation on row versions that every assignment
    respects, lifted to operations, steps and runs) and its three interpretations.
  \<^item> \<open>Fencing\<close>: the interfaces \<open>fenced_op\<close> and \<open>fenced_end\<close> of the token-fenced operations,
    interpreted for the seven operations of a worker.
  \<^item> \<open>QueueDemo\<close>: concrete states for the witnesses.
  \<^item> \<open>QueueLifecycle\<close>, \<open>SubmitProps\<close>, \<open>SweepProps\<close>, \<open>AdminProps\<close>, \<open>PolicyProps\<close>: the properties of
    claim, completion and failure; of submission; of sweeps and cancellation; of the TTL budget,
    private queues, inbox and operators; of the TTL tick and the pure policy code.
  \<^item> \<open>LockRenewal\<close>: the heartbeat and its effect on the queue; \<open>Retry\<close>: error classes, delays, \<open>withRetry\<close>;
    \<open>Worker\<close>: the poll pass, the settlement of an execution, claims given back; \<open>WorkerProps\<close>: their
    properties. A database call of the worker has a fate: it answers, or it throws and has landed or
    not; what other sessions do between two statements is an argument.
  \<^item> \<open>DbLock\<close>, \<open>DbLockProps\<close>: the lock table as a list of rows, its statements, acquisition with takeover
    of a dead holder, the bounded wait, the reaper, work under a refreshed lock; the interface
    \<open>fenced_resource\<close> (only an acquisition grants ownership), interpreted for the table.
  \<^item> \<open>Supervise\<close>, \<open>SuperviseProps\<close>: the respawn loop as a function of the lives of its children: exits,
    crash count, backoff, giving up.
  \<^item> \<open>SuperviseLock\<close>, \<open>SuperviseLockProps\<close>: the supervisor: pidfile, queue lock and its refreshes, the
    wedge watchdog over the signals of the job table, the probe for submitters, the order of the
    shutdown; the interface \<open>window_budget\<close> of sliding-window budgets, interpreted for the
    watchdog.
  \<^item> \<open>SearchFusion\<close>, \<open>SearchTrim\<close>: the fusion of the arms and the trimming of the ranking, with their
    properties. A result is the record \<open>search_result\<close> with the columns the pipeline reads.
  \<^item> \<open>SchemaAlias\<close>: the alias graph as an association list in insertion order, the recursive cycle
    search as a function with its termination proof, the breadth-first closure.
  \<^item> \<open>FenceText\<close>: code-unit strings, the row format both tables share (\<open>fence-shared.ts\<close>), the interfaces
    \<open>fence_markers\<close> (a marker is found where it stands) and \<open>fenced_table\<close> (a table of writable rows is
    read back), interpreted for the takes in \<open>TakesFence\<close> and for the facts in \<open>FactsFence\<close>.
  \<^item> \<open>TakesFence\<close>, \<open>TakesEdit\<close>: the takes table, its round trip, and edits as operations on lists of rows.
  \<^item> \<open>FactsFence\<close>, \<open>FactsEdit\<close>, \<open>FactsProps\<close>: the facts table, its edits and the merge of hidden rows, and
    their properties.
  \<^item> \<open>RemoteBody\<close>: the boundary towards remote readers, its specification on pages cut into prose and
    blocks, and its composition with the merge.
  \<^item> \<open>Scopes\<close>: scope names and their hierarchy (\<open>scope.ts\<close>), grants of older tokens
    (\<open>legacy-token-scope.ts\<close>), source ids of a registration body (\<open>source-id.ts\<close>).
  \<^item> \<open>OAuth\<close>, \<open>OAuthVerify\<close>: the tables and the methods of \<open>oauth-provider.ts\<close>, with the statements of
    \<open>serve-http.ts\<close>, \<open>auth.ts\<close>, \<open>agent-register.ts\<close>, \<open>token-mint.ts\<close> and \<open>ops/request-tools.ts\<close> on those tables.
  \<^item> \<open>OAuthWorld\<close>, \<open>OAuthProps\<close>: the events of the server and what each may change; the interface
    \<open>fenced_resource\<close> interpreted for codes and for tokens (what is spent stays spent unless it is
    minted again); the properties of grants, tokens, registration and revocation.
  \<^item> \<open>CallerScope\<close>, \<open>CallerProps\<close>: slug fences, the allow-list of bound clients, read scopes, federated sets
    (\<open>ops/context.ts\<close>, \<open>source-resolver.ts\<close>), and their properties over tokens and slugs.
  \<^item> \<open>ToolGate\<close>, \<open>ToolGateProps\<close>, \<open>LimiterProps\<close>: surfaces, publish gates, parameter checks, dispatch, the \<open>/mcp\<close>
    route, the surface a client stores, token buckets, and their properties.
  \<^item> this theory: the properties of every reachable state and every run.

  WHAT IS SHOWN. CHECK constraints, key uniqueness, parent links and row references hold in every
  reachable state; a worker that lost its lock can never again touch the job; a claim ends at
  most once; completed and cancelled jobs never change; a claim takes the first job of its queue
  and two claims never share one; a parent wakes exactly when its last open child closes; the
  stall sweep leaves no stranded parent; idempotency keys, quotas, single-flight limits, depth and
  child limits hold after every submission; cancellation reaches exactly the subtree and obeys
  the owner fence; recovery of private queues cancels nothing alive; leases never outnumber their
  cap; a heartbeat evicts a job only for cause; a completion that landed is never overwritten by a
  failure. A lock that is refreshed in time is exclusive under every interleaving, a handle that lost it has
  no effect any more, an acquisition needs a free lock or a dead holder, and a wait for a dead holder ends
  with the lock; a supervisor gives up exactly on a streak of crashes, its immediate restarts stay within
  their budget, it restarts a worker only for cause, and it owns its queue for as long as it stays. Fusion adds up exactly the votes of the lists; deduplication keeps every page within its
  limits; the token budget holds for whole budgets; cache keys separate scopes. A pack without self
  aliases is accepted exactly when its alias relation is a forest, the search visits each type once,
  and a closure is the ball of radius four. A page table is read back exactly as it was rendered; appending,
  superseding and forgetting refine operations on lists of rows and leave the rest of the page alone;
  what leaves the remote boundary depends on no private row, and a page that is read and written back
  has all its rows. An accepted token never does more than its client is registered for; a code and a refresh
  token are spent once; a client that registered itself gets no machine token and no longer lifetime
  than the server's; a remote read stays within a grant that names sources; a slug binding is a prefix of path
  segments; a listed tool can be called and a tool that runs was listed; an operator's choice of a surface
  stands; a bucket allows its limit, one more, and the refill. It also shows defects: one running job with a huge
  \<open>timeout_ms\<close> disables the wall-clock sweep, the slow ramp of the cap controller is dead code, a
  fractional token budget is overrun, a self alias is refused or accepted by declaration order, a take of
  an unknown kind is lost, the takeover of a dead holder's lock can evict a live one, two supervisors can
  acquire one pidfile, a supervisor that shuts down frees its queue before its worker has ended, a refused refresh spends its token, a client
  revoked through the console without a secret obtains tokens, a grant of no sources checks nothing, an
  outage of the configuration widens a surface, and the older stripping functions leave a second table in the text.

  BOUNDS AND FUEL. The recursive cancellation query stops at depth 100, as the code's does.
  \<open>media_params\<close> takes the length of the text as fuel, which is enough since each round consumes a
  semicolon. No other definition has fuel; all of them are total and executable.

  NOT MODELLED. Statistics (\<open>getStats\<close>) and \<open>lockParentsOrdered\<close> (no effect on rows), audit files,
  the processes themselves (their deaths, signals and exit codes are inputs), the runner of isolated
  children, job handlers, the worker's health and memory timers; the
  recall arms of search (SQL and embeddings), cosine re-scoring and the later boosts of \<open>hybrid.ts\<close>;
  the database side of facts and takes (reconciliation, locks and files around the page edits); everything
  outside the files named above, among it storage engines, migrations, the model
  gateway, the command line and the servers but for the routes named; redirects, audit rows and the checks of
  the MCP SDK before the provider (its PKCE comparison, its authentication of clients); floating-point
  rounding in the token buckets; the text of PostgreSQL arrays, whose columns hold the lists. Strings are lists of code units below 256, but for the page
  tables.
  JavaScript's \<open>Object.prototype\<close> members as job names are left out.
\<close>

section \<open>Reachable states\<close>



text \<open>C2: in every reachable state job ids are unique, a row's parent exists and is one level
  above it, an idempotency key belongs to one row, and every inbox message and attachment
  belongs to an existing job, file names being unique within a job.\<close>

theorem reachable_table_ok:
  assumes "reachable s"
  shows "distinct (map j_id (d_jobs s)) \<and>
    (\<forall>r \<in> set (d_jobs s). \<forall>p. j_parent_job_id r = Some p \<longrightarrow>
       (\<exists>q \<in> set (d_jobs s). j_id q = p \<and> j_depth r = j_depth q + 1)) \<and>
    (\<forall>r \<in> set (d_jobs s). \<forall>r' \<in> set (d_jobs s). \<forall>k.
       j_idempotency_key r = Some k \<and> j_idempotency_key r' = Some k \<longrightarrow> r = r') \<and>
    (\<forall>m \<in> set (d_inbox s). m_job_id m \<in> j_id ` set (d_jobs s)) \<and>
    (\<forall>a \<in> set (d_attachments s). a_job_id a \<in> j_id ` set (d_jobs s)) \<and>
    distinct (map (\<lambda>a. (a_job_id a, a_filename a)) (d_attachments s))"
proof -
  have ok: "db_ok s" using assms by (rule ok_reachable)
  then have "refs_ok s" by (simp add: db_ok_def)
  show ?thesis
  proof (intro conjI ballI allI impI)
    show "distinct (map j_id (d_jobs s))" using ok by (rule ok_distinct)
  next
    fix r p assume "r \<in> set (d_jobs s)" "j_parent_job_id r = Some p"
    then show "\<exists>q \<in> set (d_jobs s). j_id q = p \<and> j_depth r = j_depth q + 1"
      using ok by (simp add: db_ok_def table_ok_def parent_ok_def)
  next
    fix r r' k
    assume r: "r \<in> set (d_jobs s)" "r' \<in> set (d_jobs s)"
      and "j_idempotency_key r = Some k \<and> j_idempotency_key r' = Some k"
    moreover have "keys_unique (d_jobs s)" using ok by (simp add: db_ok_def table_ok_def)
    ultimately have "j_id r = j_id r'" unfolding keys_unique_def by blast
    then show "r = r'" by (rule ok_unique [OF ok r])
  qed (use \<open>refs_ok s\<close> in \<open>simp_all add: refs_ok_def\<close>)
qed

lemma reachable_table_ok_witness:
  "reachable demo_reclaimed \<and> distinct (map j_id (d_jobs demo_reclaimed))"
  using demo_reachable(4) reachable_table_ok [OF demo_reachable(4)] by simp

section \<open>The lock token\<close>



text \<open>C4: a claim ends at most once. After \<open>completeJob\<close>, \<open>failJob\<close> or \<open>releaseLeaseFullJob\<close>
  under a token, whatever its answer was, no later one of the three under that token has any
  effect (in particular no second \<open>child_done\<close> message and no second token roll-up).\<close>

theorem claim_ends_once:
  assumes "reachable s"
    and "s1 \<in> {snd (completeJob i t res now s), snd (failJob i t err st backoff now s),
               snd (releaseLeaseFullJob i t err delay now s)}"
    and "runs {t} s1 s'"
  shows "completeJob i t res' now' s' = (None, s') \<and>
    failJob i t err' st' backoff' now' s' = (None, s') \<and>
    releaseLeaseFullJob i t err' delay' now' s' = (None, s')"
proof -
  have ok: "db_ok s" using assms(1) by (rule ok_reachable)
  have "\<not> lock_held i t s'"
    using assms(2,3) completing.lock_gone [OF ok] failing.lock_gone [OF ok] releasing.lock_gone [OF ok]
    by blast
  then show ?thesis by (simp add: completing.refuses failing.refuses releasing.refuses)
qed

lemma claim_ends_once_witness:
  "fst (completeJob 1 ''b'' None 62000000 demo_reclaimed) \<noteq> None \<and>
   failJob 1 ''b'' ''x'' ToDead None 63000000 demo_completed = (None, demo_completed)"
proof -
  have "fst (completeJob 1 ''b'' None 62000000 demo_reclaimed) \<noteq> None"
    using fenced_one [OF ok_reachable [OF demo_reachable(4)] _ demo_second_holds]
    by (simp add: completeJob_def Let_def demo_rows)
  moreover have "runs {''b''} demo_completed demo_completed" by (rule runs.none)
  ultimately show ?thesis
    using claim_ends_once [OF demo_reachable(4), of demo_completed 1 "''b''" None 62000000
        "''x''" ToDead None 0 demo_completed None 63000000 "''x''" ToDead None 0]
    by (simp add: demo_completed_def)
qed

section \<open>What never changes\<close>



text \<open>What a submission fixes stays fixed: no run changes a job's name, queue, priority, data,
  attempt and stall limits, depth, child policy, child limit, creation time or private-queue
  owner token.\<close>

theorem identity_forever:
  assumes "reachable s" and "runs {} s s'"
    and "r \<in> set (d_jobs s)" and "r' \<in> set (d_jobs s')" and "j_id r' = j_id r"
  shows "j_name r' = j_name r \<and> j_queue r' = j_queue r \<and> j_priority r' = j_priority r \<and>
    j_data r' = j_data r \<and> j_max_attempts r' = j_max_attempts r \<and>
    j_max_stalled r' = j_max_stalled r \<and> j_depth r' = j_depth r \<and>
    j_on_child_fail r' = j_on_child_fail r \<and> j_max_children r' = j_max_children r \<and>
    j_created_at r' = j_created_at r \<and>
    j_private_queue_owner_token r' = j_private_queue_owner_token r"
proof -
  have ok: "db_ok s" using assms(1) by (rule ok_reachable)
  from same_row [OF ident.via_runs [OF assms(2) ok] ok assms(3,4,5) ident.same_id]
  show ?thesis by (simp add: keeps_identity_def identity_of_def)
qed

lemma identity_forever_witness: "list_all (\<lambda>r. j_name r = ''sync'') (d_jobs demo_settled)"
proof -
  have r: "demo_done \<in> set (d_jobs demo_completed)" "demo_done \<in> set (d_jobs demo_settled)"
    by (simp_all add: demo_rows)
  have "j_name demo_done = ''sync''" by code_simp
  with identity_forever [OF demo_reachable(5) demo_run_settled r refl]
  show ?thesis by (simp add: demo_rows)
qed

end
